(* ===== verification/Hamix_Prelude.thy ===== *)
theory Hamix_Prelude
  imports Main "HOL-Library.AList" "HOL-Library.Char_ord" "HOL-Library.List_Lexorder" "HOL-Library.Multiset"
begin

text \<open>
  Shared vocabulary of the development: the error values of \<^verbatim>\<open>pkgs/tasks/domain/errors.go\<close>, Go's
  \<^verbatim>\<open>strings.TrimSpace\<close> on UTF-8 byte strings, decoded JSON values, and the handful of
  table operations (first matching row, update where, greatest key, coalesced maximum)
  that the GORM queries of the store use, with the lemmas every component shares.
\<close>

section \<open>Results and errors\<close>

text \<open>
  An operation that can fail returns \<open>Inl e\<close> or \<open>Inr v\<close>. The three sentinels are those of
  the domain package (the string is the wrapped detail of \<^verbatim>\<open>fmt.Errorf("%w: ...")\<close>);
  \<open>ErrDB\<close> is a statement the database refuses because of a primary key, unique index or
  check constraint of the schema in \<^verbatim>\<open>pkgs/tasks/store/model\<close>, or a call the database could not serve.
\<close>

datatype err =
    ErrNotFound
  | ErrInvalidInput string
  | ErrConflict string
  | ErrDB string

type_synonym 'a res = "err + 'a"

text \<open>Instants are nanoseconds on the UTC time line.\<close>

type_synonym gotime = int

named_theorems table_simps \<open>rewriting of table operations\<close>

lemma res_cases_Inr [elim]:
  assumes "(case r of Inl e \<Rightarrow> Inl e | Inr v \<Rightarrow> f v) = Inr w"
  obtains v where "r = Inr v" "f v = Inr w"
  using assms by (cases r) auto

text \<open>\<open>rbind r f\<close> is Go's "if err != nil return err": go on with the value, or return the error.\<close>

definition rbind :: "'a res \<Rightarrow> ('a \<Rightarrow> 'b res) \<Rightarrow> 'b res" where
  "rbind r f = (case r of Inl e \<Rightarrow> Inl e | Inr v \<Rightarrow> f v)"

lemma rbind_simps [simp]: "rbind (Inl e) f = Inl e" "rbind (Inr v) f = f v"
  by (simp_all add: rbind_def)

lemma rbind_Inr_iff: "rbind r f = Inr y \<longleftrightarrow> (\<exists>x. r = Inr x \<and> f x = Inr y)"
  by (cases r) auto

lemma rbind_InrE [elim!]:
  assumes "rbind r f = Inr y"
  obtains x where "r = Inr x" "f x = Inr y"
  using assms by (auto simp: rbind_Inr_iff)

lemma if_Inl_Inr_iff: "(if b then Inl e else r) = Inr y \<longleftrightarrow> \<not> b \<and> r = Inr y"
  by auto

section \<open>Go's strings.TrimSpace\<close>

text \<open>
  Go strings are byte strings. \<^verbatim>\<open>unicode.IsSpace\<close> holds of six ASCII characters and of the
  code points U+0085, U+00A0, U+1680, U+2000 to U+200A, U+2028, U+2029, U+202F, U+205F and U+3000;
  \<open>space_encodings\<close> lists their UTF-8 encodings.
\<close>

definition ascii_spaces :: "char list" where
  "ascii_spaces = [CHR 0x09, CHR 0x0A, CHR 0x0B, CHR 0x0C, CHR 0x0D, CHR 0x20]"

definition space_encodings :: "string list" where
  "space_encodings =
     [[CHR 0xC2, CHR 0x85], [CHR 0xC2, CHR 0xA0], [CHR 0xE1, CHR 0x9A, CHR 0x80],
      [CHR 0xE2, CHR 0x80, CHR 0x80], [CHR 0xE2, CHR 0x80, CHR 0x81], [CHR 0xE2, CHR 0x80, CHR 0x82],
      [CHR 0xE2, CHR 0x80, CHR 0x83], [CHR 0xE2, CHR 0x80, CHR 0x84], [CHR 0xE2, CHR 0x80, CHR 0x85],
      [CHR 0xE2, CHR 0x80, CHR 0x86], [CHR 0xE2, CHR 0x80, CHR 0x87], [CHR 0xE2, CHR 0x80, CHR 0x88],
      [CHR 0xE2, CHR 0x80, CHR 0x89], [CHR 0xE2, CHR 0x80, CHR 0x8A], [CHR 0xE2, CHR 0x80, CHR 0xA8],
      [CHR 0xE2, CHR 0x80, CHR 0xA9], [CHR 0xE2, CHR 0x80, CHR 0xAF], [CHR 0xE2, CHR 0x81, CHR 0x9F],
      [CHR 0xE3, CHR 0x80, CHR 0x80]]"

text \<open>The number of leading bytes that encode one white space code point, 0 if none does.\<close>

definition space_width :: "string list \<Rightarrow> string \<Rightarrow> nat" where
  "space_width encs s =
     (case s of [] \<Rightarrow> 0
      | c # _ \<Rightarrow> if c \<in> set ascii_spaces then 1
                 else (case List.find (\<lambda>w. take (length w) s = w) encs of
                         Some w \<Rightarrow> length w | None \<Rightarrow> 0))"

fun trim_front_fuel :: "string list \<Rightarrow> nat \<Rightarrow> string \<Rightarrow> string" where
  "trim_front_fuel encs 0 s = s"
| "trim_front_fuel encs (Suc n) s =
     (if space_width encs s = 0 then s
      else trim_front_fuel encs n (drop (space_width encs s) s))"

definition trim_left :: "string \<Rightarrow> string" where
  "trim_left s = trim_front_fuel space_encodings (length s) s"

text \<open>From the right the same scan runs on the reversed bytes with reversed encodings.\<close>

definition trim_right :: "string \<Rightarrow> string" where
  "trim_right s = rev (trim_front_fuel (map rev space_encodings) (length s) (rev s))"

definition trim_space :: "string \<Rightarrow> string" where
  "trim_space s = trim_right (trim_left s)"

lemma trim_front_fuel_Nil [simp]: "trim_front_fuel encs n [] = []"
  by (cases n) (auto simp: space_width_def)

lemma trim_space_Nil [simp]: "trim_space [] = []"
  by (simp add: trim_space_def trim_left_def trim_right_def)

lemma space_width_le: "space_width encs s \<le> length s"
proof -
  have "length w \<le> length s" if "List.find (\<lambda>w. take (length w) s = w) encs = Some w" for w
  proof -
    from that have "take (length w) s = w" by (auto simp: find_Some_iff)
    then show ?thesis by (metis linorder_linear take_all_iff)
  qed
  then show ?thesis
    by (auto simp: space_width_def split: list.split option.split)
qed

text \<open>The fuel \<open>length s\<close> is enough: the scan always stops at a byte that is no white space.\<close>

lemma trim_front_fuel_stops:
  "length s \<le> n \<Longrightarrow> space_width encs (trim_front_fuel encs n s) = 0"
proof (induction n arbitrary: s)
  case 0
  then show ?case by (simp add: space_width_def)
next
  case (Suc n)
  show ?case
  proof (cases "space_width encs s = 0")
    case True
    then show ?thesis by simp
  next
    case False
    with Suc.prems have "length (drop (space_width encs s) s) \<le> n" by simp
    with False Suc.IH show ?thesis by simp
  qed
qed

lemma trim_front_fuel_suffix: "\<exists>p. s = p @ trim_front_fuel encs n s"
proof (induction n arbitrary: s)
  case 0
  show ?case by simp
next
  case (Suc n)
  obtain p where "drop (space_width encs s) s = p @ trim_front_fuel encs n (drop (space_width encs s) s)"
    using Suc.IH by blast
  then have "s = (take (space_width encs s) s @ p) @ trim_front_fuel encs n (drop (space_width encs s) s)"
    by (metis append.assoc append_take_drop_id)
  then show ?case by (metis append_Nil trim_front_fuel.simps(2))
qed

lemma trim_space_infix: "\<exists>p q. s = p @ trim_space s @ q"
proof -
  obtain p where p: "s = p @ trim_left s"
    using trim_front_fuel_suffix unfolding trim_left_def by blast
  obtain q where "rev (trim_left s) = q @ trim_front_fuel (map rev space_encodings) (length (trim_left s)) (rev (trim_left s))"
    using trim_front_fuel_suffix by blast
  then have "trim_left s = trim_space s @ rev q"
    unfolding trim_space_def trim_right_def by (metis rev_append rev_rev_ident)
  with p show ?thesis by metis
qed

lemma length_trim_space: "length (trim_space s) \<le> length s"
proof -
  obtain p q where "s = p @ trim_space s @ q" using trim_space_infix by blast
  then have "length s = length p + length (trim_space s) + length q"
    by (metis add.assoc length_append)
  then show ?thesis by simp
qed

lemma trim_front_fuel_0: "space_width encs s = 0 \<Longrightarrow> trim_front_fuel encs n s = s"
  by (cases n) auto

lemma trim_right_idem [simp]: "trim_right (trim_right s) = trim_right s"
  by (simp add: trim_right_def trim_front_fuel_0 trim_front_fuel_stops)

text \<open>Cutting a suffix never creates leading white space: a prefix of \<open>s\<close> that starts with
  an encoded space makes \<open>s\<close> start with one.\<close>

lemma space_width_prefix:
  assumes "space_width encs (p @ q) = 0" "p \<noteq> []" "\<forall>w\<in>set encs. w \<noteq> []"
  shows "space_width encs p = 0"
proof -
  obtain c p' where p: "p = c # p'" using assms(2) by (cases p) auto
  from assms(1) p have c: "c \<notin> set ascii_spaces"
    and f: "(case List.find (\<lambda>w. take (length w) (p @ q) = w) encs of Some w \<Rightarrow> length w | None \<Rightarrow> 0) = 0"
    by (auto simp: space_width_def split: if_splits)
  have no: "take (length w) (p @ q) \<noteq> w" if "w \<in> set encs" for w
  proof
    assume "take (length w) (p @ q) = w"
    with that have "List.find (\<lambda>w. take (length w) (p @ q) = w) encs \<noteq> None"
      unfolding find_None_iff by blast
    then obtain v where v: "List.find (\<lambda>w. take (length w) (p @ q) = w) encs = Some v" by blast
    with f have "v = []" by simp
    moreover from v have "v \<in> set encs" unfolding find_Some_iff by auto
    ultimately show False using assms(3) by blast
  qed
  have "take (length w) p \<noteq> w" if "w \<in> set encs" for w
  proof
    assume t: "take (length w) p = w"
    then have "length w \<le> length p" by (metis linorder_linear take_all_iff)
    with t have "take (length w) (p @ q) = w" by simp
    with no that show False by blast
  qed
  then have "List.find (\<lambda>w. take (length w) p = w) encs = None"
    by (auto simp: find_None_iff)
  with c p show ?thesis by (simp add: space_width_def)
qed

lemma space_encodings_nonempty: "\<forall>w\<in>set space_encodings. w \<noteq> []"
  by (simp add: space_encodings_def)

lemma trim_left_trim_space: "trim_left (trim_space s) = trim_space s"
proof (cases "trim_space s = []")
  case True
  then show ?thesis by (simp add: trim_left_def)
next
  case False
  obtain q where "rev (trim_left s) = q @ trim_front_fuel (map rev space_encodings) (length (trim_left s)) (rev (trim_left s))"
    using trim_front_fuel_suffix by blast
  then have eq: "trim_left s = trim_space s @ rev q"
    unfolding trim_space_def trim_right_def by (metis rev_append rev_rev_ident)
  have "space_width space_encodings (trim_left s) = 0"
    by (simp add: trim_left_def trim_front_fuel_stops)
  with eq have "space_width space_encodings (trim_space s) = 0"
    using False space_encodings_nonempty space_width_prefix by metis
  then show ?thesis by (simp add: trim_left_def trim_front_fuel_0)
qed

lemma trim_space_idem [simp]: "trim_space (trim_space s) = trim_space s"
  by (metis trim_left_trim_space trim_right_idem trim_space_def)

section \<open>Decoded JSON\<close>

text \<open>
  The values \<^verbatim>\<open>encoding/json\<close> decodes into \<^verbatim>\<open>any\<close>; an object is an association list with
  distinct keys (Go's \<^verbatim>\<open>map[string]any\<close>). A byte slice handed to the store is seen through what
  the decoder answers about it: blank, malformed, or one document.
\<close>

datatype json =
    JNull
  | JBool bool
  | JNum int
  | JStr string
  | JArr "json list"
  | JObj "(string \<times> json) list"

datatype payload = PBlank | PMalformed | PDoc json

section \<open>Table operations\<close>

text \<open>
  A table is the list of its rows in insertion order. \<open>update_where\<close> is
  \<^verbatim>\<open>UPDATE ... WHERE\<close>, \<open>coalesce_max\<close> is \<^verbatim>\<open>COALESCE(MAX(c), 0)\<close>, and
  \<open>arg_max_row f\<close> is \<^verbatim>\<open>ORDER BY f DESC LIMIT 1\<close>.
\<close>

definition update_where :: "('r \<Rightarrow> bool) \<Rightarrow> ('r \<Rightarrow> 'r) \<Rightarrow> 'r list \<Rightarrow> 'r list" where
  "update_where P f rs = map (\<lambda>r. if P r then f r else r) rs"

definition coalesce_max :: "int list \<Rightarrow> int" where
  "coalesce_max xs = (case xs of [] \<Rightarrow> 0 | y # ys \<Rightarrow> foldl max y ys)"

fun arg_max_row :: "('r \<Rightarrow> int) \<Rightarrow> 'r list \<Rightarrow> 'r option" where
  "arg_max_row f [] = None"
| "arg_max_row f (x # xs) =
     (case arg_max_row f xs of
        None \<Rightarrow> Some x
      | Some y \<Rightarrow> (if f y \<le> f x then Some x else Some y))"

text \<open>The \<open>n\<close> numbers 1 to \<open>n\<close> in order: the shape of every sequence column of the store.\<close>

definition numbered :: "int list \<Rightarrow> bool" where
  "numbered xs \<longleftrightarrow> xs = map int [1..<Suc (length xs)]"

lemma set_update_where [table_simps]:
  "set (update_where P f rs) = f ` {r \<in> set rs. P r} \<union> {r \<in> set rs. \<not> P r}"
  by (auto simp: update_where_def)

lemma ball_update_where:
  "(\<forall>x\<in>set (update_where P f rs). Q x) \<longleftrightarrow> (\<forall>x\<in>set rs. Q (if P x then f x else x))"
  by (simp only: update_where_def list.set_map ball_simps)

lemma length_update_where [simp]: "length (update_where P f rs) = length rs"
  by (simp add: update_where_def)

lemma map_update_where [simp]:
  "(\<And>r. g (f r) = g r) \<Longrightarrow> map g (update_where P f rs) = map g rs"
  by (auto simp: update_where_def)

lemma filter_update_where_same:
  "(\<And>r. Q (f r) = Q r) \<Longrightarrow> filter Q (update_where P f rs) = update_where P f (filter Q rs)"
  by (induction rs) (auto simp: update_where_def)

lemma update_where_none: "(\<And>r. r \<in> set rs \<Longrightarrow> \<not> P r) \<Longrightarrow> update_where P f rs = rs"
  by (auto simp: update_where_def intro: map_idI)

lemma map_filter_update_where:
  "(\<And>r. Q (f r) = Q r) \<Longrightarrow> (\<And>r. g (f r) = g r) \<Longrightarrow>
   map g (filter Q (update_where P f rs)) = map g (filter Q rs)"
  by (simp add: filter_update_where_same)

lemma foldl_max_int: "foldl max (y::int) ys = Max (set (y # ys))"
proof (induction ys arbitrary: y)
  case Nil
  show ?case by simp
next
  case (Cons z zs)
  have "foldl max y (z # zs) = Max (set (max y z # zs))" using Cons.IH[of "max y z"] by simp
  also have "\<dots> = Max (set (y # z # zs))"
    by (cases "zs = []") (simp_all add: max.assoc)
  finally show ?case .
qed

lemma coalesce_max_snoc [simp]: "coalesce_max (xs @ [coalesce_max xs + 1]) = coalesce_max xs + 1"
  by (cases xs) (auto simp: coalesce_max_def)

lemma coalesce_max_ge: "x \<in> set xs \<Longrightarrow> x \<le> coalesce_max xs"
  by (cases xs) (auto simp: coalesce_max_def foldl_max_int)

lemma coalesce_max_numbered: "numbered xs \<Longrightarrow> coalesce_max xs = int (length xs)"
proof (cases "xs = []")
  case True
  then show ?thesis by (simp add: coalesce_max_def)
next
  case False
  assume n: "numbered xs"
  have "coalesce_max xs = Max (set xs)"
    using False by (cases xs) (auto simp: coalesce_max_def foldl_max_int)
  moreover have "set xs = int ` {1..length xs}"
    using n unfolding numbered_def by (metis atLeastLessThanSuc_atLeastAtMost list.set_map set_upt)
  moreover have "Max (int ` {1..length xs}) = int (length xs)"
    using False by (intro Max_eqI) (auto simp: Suc_le_eq)
  ultimately show ?thesis by simp
qed

lemma numbered_Nil [simp]: "numbered []"
  by (simp add: numbered_def)

lemma numbered_snoc: "numbered xs \<Longrightarrow> numbered (xs @ [coalesce_max xs + 1])"
proof -
  assume n: "numbered xs"
  then have "xs = map int [1..<Suc (length xs)]" by (simp only: numbered_def)
  then have "xs @ [int (length xs) + 1] = map int [1..<Suc (length xs)] @ [int (Suc (length xs))]"
    by simp
  also have "\<dots> = map int [1..<Suc (Suc (length xs))]" by simp
  finally have e: "xs @ [int (length xs) + 1] = map int [1..<Suc (Suc (length xs))]" .
  have l: "length (xs @ [int (length xs) + 1]) = Suc (length xs)" by simp
  show ?thesis unfolding coalesce_max_numbered[OF n] numbered_def l by (rule e)
qed

lemma numbered_distinct: "numbered xs \<Longrightarrow> distinct xs"
  by (metis distinct_map distinct_upt inj_on_of_nat numbered_def)

lemma numbered_nth: "numbered xs \<Longrightarrow> i < length xs \<Longrightarrow> xs ! i = int (Suc i)"
proof -
  assume n: "numbered xs" and i: "i < length xs"
  have "map int [1..<Suc (length xs)] ! i = int (Suc i)" using i by (simp del: upt_Suc)
  with n show ?thesis by (simp only: numbered_def)
qed

lemma arg_max_row_None [simp]: "arg_max_row f rs = None \<longleftrightarrow> rs = []"
  by (cases rs) (auto split: option.splits)

lemma arg_max_row_SomeD:
  "arg_max_row f rs = Some r \<Longrightarrow> r \<in> set rs \<and> (\<forall>x\<in>set rs. f x \<le> f r)"
proof (induction rs arbitrary: r)
  case Nil
  then show ?case by simp
next
  case (Cons x xs)
  then show ?case by (fastforce split: option.splits if_splits)
qed

text \<open>When the keys grow along the table the greatest is the last row.\<close>

lemma arg_max_row_numbered:
  assumes "numbered (map f rs)" "rs \<noteq> []"
  shows "arg_max_row f rs = Some (last rs)"
proof -
  obtain r where r: "arg_max_row f rs = Some r" using assms(2) by fastforce
  then have mem: "r \<in> set rs" and ge: "\<forall>x\<in>set rs. f x \<le> f r"
    using arg_max_row_SomeD by fast+
  from mem obtain i where i: "i < length rs" "rs ! i = r" by (auto simp: in_set_conv_nth)
  let ?l = "length rs - 1"
  have l: "?l < length rs" "rs ! ?l = last rs" using assms(2) by (auto simp: last_conv_nth)
  have "f (rs ! i) = int (Suc i)" "f (rs ! ?l) = int (Suc ?l)"
    using numbered_nth[OF assms(1), of i] numbered_nth[OF assms(1), of ?l] i(1) l(1)
    by (simp_all only: length_map nth_map)
  moreover have "f (rs ! ?l) \<le> f r" using ge l by (metis nth_mem)
  ultimately have "?l \<le> i" using i by simp
  then have "i = ?l" using i by simp
  with i l r show ?thesis by simp
qed

section \<open>Sorting by a strictly growing key\<close>

lemma numbered_strict: "numbered xs \<Longrightarrow> sorted_wrt (<) xs"
proof -
  assume "numbered xs"
  moreover have "sorted_wrt (<) (map int [1..<Suc (length xs)])" by (simp add: sorted_wrt_map del: upt_Suc)
  ultimately show ?thesis by (simp only: numbered_def)
qed

lemma strict_key_inj:
  fixes f :: "'r \<Rightarrow> int"
  assumes "sorted_wrt (\<lambda>x y. f x < f y) rs"
  shows "inj_on f (set rs)"
proof -
  have "sorted_wrt (<) (map f rs)" using assms by (simp only: sorted_wrt_map)
  then have "distinct (map f rs)" by (simp only: strict_sorted_iff)
  then show ?thesis by (simp only: distinct_map)
qed

lemma sort_key_strict_desc:
  fixes f :: "'r \<Rightarrow> int"
  assumes "sorted_wrt (\<lambda>x y. f x < f y) rs"
  shows "sort_key (\<lambda>r. - f r) rs = rev rs"
proof (rule sort_key_inj_key_eq)
  show "inj_on (\<lambda>r. - f r) (set rs)"
    using strict_key_inj[OF assms] by (simp add: inj_on_def)
  have "sorted_wrt (\<lambda>x y. - f x \<le> - f y) (rev rs)"
    unfolding sorted_wrt_rev using assms by (rule sorted_wrt_mono_rel[rotated]) simp
  then show "sorted (map (\<lambda>r. - f r) (rev rs))" by (simp only: sorted_wrt_map)
qed simp

lemma sort_key_strict_asc:
  fixes f :: "'r \<Rightarrow> int"
  assumes "sorted_wrt (\<lambda>x y. f x < f y) rs"
  shows "sort_key f rs = rs"
proof (rule sort_key_inj_key_eq)
  show "inj_on f (set rs)" by (rule strict_key_inj[OF assms])
  have "sorted_wrt (\<lambda>x y. f x \<le> f y) rs" using assms by (rule sorted_wrt_mono_rel[rotated]) simp
  then show "sorted (map f rs)" by (simp only: sorted_wrt_map)
qed simp

end
