(* ===== verification/Sched_Key.thy ===== *)
theory Sched_Key
  imports Hamix_Prelude
begin

text \<open>
  The order of scheduling: by instant, ties by task id. \<open>sched_key\<close> is a linear order, so that the
  library's sorting applies; the ready queue, its keyset cursor and the wake heap all use it. Then the
  general facts on keyset pages of a strictly sorted list.
\<close>

section \<open>Instants with a tie-breaker\<close>

datatype sched_key = SchedKey (sk_at: gotime) (sk_id: string)

instantiation sched_key :: linorder
begin

fun less_eq_sched_key :: "sched_key \<Rightarrow> sched_key \<Rightarrow> bool" where
  "less_eq_sched_key (SchedKey a i) (SchedKey b j) = (a < b \<or> a = b \<and> i \<le> j)"

fun less_sched_key :: "sched_key \<Rightarrow> sched_key \<Rightarrow> bool" where
  "less_sched_key (SchedKey a i) (SchedKey b j) = (a < b \<or> a = b \<and> i < j)"

instance
proof
  fix x y z :: sched_key
  show "(x < y) = (x \<le> y \<and> \<not> y \<le> x)" by (cases x; cases y) auto
  show "x \<le> x" by (cases x) simp
  show "x \<le> y \<Longrightarrow> y \<le> z \<Longrightarrow> x \<le> z" by (cases x; cases y; cases z) auto
  show "x \<le> y \<Longrightarrow> y \<le> x \<Longrightarrow> x = y" by (cases x; cases y) auto
  show "x \<le> y \<or> y \<le> x" by (cases x; cases y) auto
qed

end

section \<open>Keyset pages\<close>

text \<open>\<open>after_key k\<close> drops the rows up to and including the cursor.\<close>

definition after_key :: "('r \<Rightarrow> 'k::linorder) \<Rightarrow> 'k option \<Rightarrow> 'r list \<Rightarrow> 'r list" where
  "after_key f cur rs = (case cur of None \<Rightarrow> rs | Some k \<Rightarrow> filter (\<lambda>r. k < f r) rs)"

lemma after_key_split:
  fixes f :: "'r \<Rightarrow> 'k::linorder"
  assumes "sorted_wrt (\<lambda>x y. f x < f y) (xs @ r # ys)"
  shows "filter (\<lambda>x. f r < f x) (xs @ r # ys) = ys"
proof -
  have lt: "f x < f r" if "x \<in> set xs" for x using assms that by (simp add: sorted_wrt_append)
  have "filter (\<lambda>x. f r < f x) xs = []" unfolding filter_empty_conv using lt less_asym by blast
  moreover have "filter (\<lambda>x. f r < f x) ys = ys" using assms by (simp add: sorted_wrt_append filter_id_conv)
  ultimately show ?thesis by simp
qed

lemma after_key_last:
  fixes f :: "'r \<Rightarrow> 'k::linorder"
  assumes "sorted_wrt (\<lambda>x y. f x < f y) (xs @ ys)" "xs \<noteq> []"
  shows "after_key f (Some (f (last xs))) (xs @ ys) = ys"
proof -
  obtain zs r where "xs = zs @ [r]" using assms(2) by (cases xs rule: rev_cases) auto
  then show ?thesis using after_key_split[of f zs r ys] assms(1) by (simp add: after_key_def)
qed

text \<open>Sorting by a key that is injective on the rows gives a strictly sorted list.\<close>

lemma sort_key_strict:
  fixes f :: "'r \<Rightarrow> 'k::linorder"
  assumes "distinct (map f rs)"
  shows "sorted_wrt (\<lambda>x y. f x < f y) (sort_key f rs)"
proof -
  have "sorted (map f (sort_key f rs))" by simp
  moreover have "distinct (map f (sort_key f rs))"
    using assms by (simp add: distinct_map)
  ultimately have "sorted_wrt (<) (map f (sort_key f rs))" by (simp add: strict_sorted_iff)
  then show ?thesis by (simp add: sorted_wrt_map)
qed

end
