(* ===== verification/Go_Text.thy ===== *)
theory Go_Text
  imports Hamix_Prelude
begin

text \<open>
  Runes of a Go string. Go strings are byte strings; \<^verbatim>\<open>range s\<close>, \<^verbatim>\<open>[]rune(s)\<close> and
  \<^verbatim>\<open>utf8.RuneCountInString\<close> read one UTF-8 sequence at a time and turn every byte that starts
  no valid sequence into U+FFFD. The theory holds that scan, the two truncation helpers of
  \<^verbatim>\<open>pkgs/tasks/store/internal/cycles\<close> and their length bounds.
\<close>

section \<open>The UTF-8 scan\<close>

definition byte_in :: "nat \<Rightarrow> nat \<Rightarrow> char \<Rightarrow> bool" where
  "byte_in lo hi c \<longleftrightarrow> lo \<le> of_char c \<and> of_char c \<le> hi"

definition cont_byte :: "char \<Rightarrow> bool" where
  "cont_byte c = byte_in 0x80 0xBF c"

text \<open>The number of bytes of the valid sequence a string starts with, 0 when there is none.\<close>

definition utf8_width :: "string \<Rightarrow> nat" where
  "utf8_width s =
     (case s of
        [] \<Rightarrow> 0
      | [a] \<Rightarrow> if byte_in 0 0x7F a then 1 else 0
      | a # b # s' \<Rightarrow>
          if byte_in 0 0x7F a then 1
          else if byte_in 0xC2 0xDF a then (if cont_byte b then 2 else 0)
          else if byte_in 0xE0 0xEF a then
            (if (if byte_in 0xE0 0xE0 a then byte_in 0xA0 0xBF b
                 else if byte_in 0xED 0xED a then byte_in 0x80 0x9F b else cont_byte b) \<and>
                list_all cont_byte (take 1 s') \<and> 1 \<le> length s' then 3 else 0)
          else if byte_in 0xF0 0xF4 a then
            (if (if byte_in 0xF0 0xF0 a then byte_in 0x90 0xBF b
                 else if byte_in 0xF4 0xF4 a then byte_in 0x80 0x8F b else cont_byte b) \<and>
                list_all cont_byte (take 2 s') \<and> 2 \<le> length s' then 4 else 0)
          else 0)"

definition rune_error :: string where
  "rune_error = [CHR 0xEF, CHR 0xBF, CHR 0xBD]"

definition ellipsis :: string where
  "ellipsis = [CHR 0xE2, CHR 0x80, CHR 0xA6]"

text \<open>The runes of a string, each as the bytes \<^verbatim>\<open>WriteRune\<close> writes for it.\<close>

function runes :: "string \<Rightarrow> string list" where
  "runes s =
     (if s = [] then []
      else if utf8_width s = 0 then rune_error # runes (drop 1 s)
      else take (utf8_width s) s # runes (drop (utf8_width s) s))"
  by auto
termination by (relation "measure length") auto

declare runes.simps [simp del]

definition rune_count :: "string \<Rightarrow> nat" where
  "rune_count s = length (runes s)"

lemma utf8_width_le: "utf8_width s \<le> 4"
  by (auto simp: utf8_width_def split: list.split)

lemma runes_Nil [simp]: "runes [] = []"
  by (simp add: runes.simps)

lemma runes_length_le: "length (runes s) \<le> length s"
proof (induction s rule: runes.induct)
  case (1 s)
  show ?case
  proof (cases "s = [] \<or> utf8_width s = 0")
    case True
    then show ?thesis using 1 by (subst runes.simps) (cases s; auto)
  next
    case False
    then have "length (runes (drop (utf8_width s) s)) \<le> length s - utf8_width s"
      using 1 by simp
    moreover from False have "1 \<le> length s" "1 \<le> utf8_width s" by (cases s; auto)+
    ultimately show ?thesis using False by (subst runes.simps) auto
  qed
qed

lemma runes_bytes: "r \<in> set (runes s) \<Longrightarrow> 1 \<le> length r \<and> length r \<le> 4"
proof (induction s rule: runes.induct)
  case (1 s)
  from 1(3) show ?case
    apply (subst (asm) runes.simps)
    using 1(1,2) utf8_width_le[of s]
    by (auto split: if_splits simp: rune_error_def Suc_le_eq min_def)
qed

lemma length_concat_le:
  "(\<And>r. r \<in> set rs \<Longrightarrow> length r \<le> k) \<Longrightarrow> length (concat rs) \<le> k * length rs"
  by (induction rs) (auto simp: add_mono)

section \<open>Truncation\<close>

definition truncateStringRunes :: "string \<Rightarrow> int \<Rightarrow> string" where
  "truncateStringRunes s maxRunes =
     (if maxRunes \<le> 0 then []
      else if int (rune_count s) \<le> maxRunes then s
      else concat (take (nat maxRunes) (runes s)) @ ellipsis)"

definition truncateReasonRunes :: "string \<Rightarrow> int \<Rightarrow> string" where
  "truncateReasonRunes s mx =
     (if mx \<le> 0 \<or> int (rune_count s) \<le> mx then s
      else concat (take (nat mx) (runes s)) @ ellipsis)"

lemma concat_take_runes_bound: "length (concat (take n (runes s))) \<le> 4 * n"
proof -
  have "length (concat (take n (runes s))) \<le> 4 * length (take n (runes s))"
    by (rule length_concat_le) (meson in_set_takeD runes_bytes)
  also have "\<dots> \<le> 4 * n" by simp
  finally show ?thesis .
qed

text \<open>The bytes of a string are at most the bytes of its runes: a valid sequence is written as
  it is, an invalid byte as three.\<close>

lemma length_le_concat_runes: "length s \<le> length (concat (runes s))"
proof (induction s rule: runes.induct)
  case (1 s)
  show ?case
  proof (cases "s = []")
    case True
    then show ?thesis by simp
  next
    case ne: False
    show ?thesis
    proof (cases "utf8_width s = 0")
      case True
      then have "length (drop 1 s) \<le> length (concat (runes (drop 1 s)))" using 1(1) ne by simp
      then show ?thesis using ne True by (subst runes.simps) (auto simp: rune_error_def)
    next
      case False
      then have "length (drop (utf8_width s) s) \<le> length (concat (runes (drop (utf8_width s) s)))"
        using 1(2) ne by blast
      then show ?thesis using ne False by (subst runes.simps) auto
    qed
  qed
qed

lemma rune_count_bytes: "length s \<le> 4 * rune_count s"
  using length_le_concat_runes[of s] concat_take_runes_bound[of "length (runes s)" s]
  unfolding rune_count_def by simp

lemma truncateStringRunes_bytes: "0 < mx \<Longrightarrow> length (truncateStringRunes s mx) \<le> 4 * nat mx + 3"
  using concat_take_runes_bound[of "nat mx" s] rune_count_bytes[of s]
  by (auto simp: truncateStringRunes_def ellipsis_def nat_le_eq_zle)

lemma truncateReasonRunes_bytes: "0 < mx \<Longrightarrow> length (truncateReasonRunes s mx) \<le> 4 * nat mx + 3"
  using concat_take_runes_bound[of "nat mx" s] rune_count_bytes[of s]
  by (auto simp: truncateReasonRunes_def ellipsis_def)

end
