(* ===== verification/Hamix_Domain.thy ===== *)
theory Hamix_Domain
  imports Go_Text
begin

text \<open>
  The domain model of \<^verbatim>\<open>pkgs/tasks/domain\<close>: the string enumerations as datatypes (one
  constructor per Go constant, one for every other string), the rows as records with the
  fields of \<^verbatim>\<open>models.go\<close>, and the pure predicates on them: the phase state machine of
  \<^verbatim>\<open>cycle_state.go\<close>, gates, retries, tags and milestones.
\<close>

section \<open>Enumerations (enums.go)\<close>

datatype status =
    StatusReady | StatusRunning | StatusBlocked | StatusReview | StatusDone | StatusFailed
  | StatusOnHold | StatusOther string

datatype priority =
    PriorityLow | PriorityMedium | PriorityHigh | PriorityCritical | PriorityOther string

datatype gate_status =
    GateStatusLocked | GateStatusActive | GateStatusPendingRelease | GateStatusReleased
  | GateStatusOther string

datatype event_type =
    EventTaskCreated | EventStatusChanged | EventPriorityChanged | EventPromptAppended
  | EventContextAdded | EventConstraintAdded | EventSuccessCriterionAdded | EventNonGoalAdded
  | EventPlanAdded | EventChecklistItemAdded | EventChecklistItemToggled
  | EventChecklistItemUpdated | EventChecklistItemRemoved | EventMessageAdded
  | EventArtifactAdded | EventApprovalRequested | EventApprovalGranted | EventTaskCompleted
  | EventOnTaskDone | EventTaskFailed | EventTaskRetryRequested | EventCycleStarted
  | EventCycleCompleted | EventCycleFailed | EventPhaseStarted | EventPhaseCompleted
  | EventPhaseFailed | EventPhaseSkipped | EventSyncPing | EventOther string

text \<open>The empty phase string is \<open>PhaseNone\<close>: "no prior phase".\<close>

datatype phase = PhaseNone | PhaseExecute | PhaseVerify | PhaseOther string

datatype cycle_status =
    CycleStatusRunning | CycleStatusSucceeded | CycleStatusFailed | CycleStatusAborted
  | CycleStatusOther string

datatype phase_status =
    PhaseStatusRunning | PhaseStatusSucceeded | PhaseStatusFailed | PhaseStatusSkipped
  | PhaseStatusOther string

datatype actor = ActorUser | ActorAgent | ActorOther string

datatype gate_kind = GateKindManualApproval | GateKindOther string

datatype verifier_kind =
    VerifierAgentSelf | VerifierVerifyAgent | VerifierDeterministicCheck | VerifierHumanOverride
  | VerifierLegacy | VerifierOther string

datatype retry_mode = RetryFresh | RetryResume | RetryOther string

datatype dep_satisfies = DependencySatisfiesDone | DependencySatisfiesEmpty | DependencySatisfiesOther string

section \<open>Strings of the enumerations\<close>

fun status_str :: "status \<Rightarrow> string" where
  "status_str StatusReady = ''ready''"
| "status_str StatusRunning = ''running''"
| "status_str StatusBlocked = ''blocked''"
| "status_str StatusReview = ''review''"
| "status_str StatusDone = ''done''"
| "status_str StatusFailed = ''failed''"
| "status_str StatusOnHold = ''on_hold''"
| "status_str (StatusOther s) = s"

fun priority_str :: "priority \<Rightarrow> string" where
  "priority_str PriorityLow = ''low''"
| "priority_str PriorityMedium = ''medium''"
| "priority_str PriorityHigh = ''high''"
| "priority_str PriorityCritical = ''critical''"
| "priority_str (PriorityOther s) = s"

fun phase_str :: "phase \<Rightarrow> string" where
  "phase_str PhaseNone = []"
| "phase_str PhaseExecute = ''execute''"
| "phase_str PhaseVerify = ''verify''"
| "phase_str (PhaseOther s) = s"

fun cycle_status_str :: "cycle_status \<Rightarrow> string" where
  "cycle_status_str CycleStatusRunning = ''running''"
| "cycle_status_str CycleStatusSucceeded = ''succeeded''"
| "cycle_status_str CycleStatusFailed = ''failed''"
| "cycle_status_str CycleStatusAborted = ''aborted''"
| "cycle_status_str (CycleStatusOther s) = s"

fun phase_status_str :: "phase_status \<Rightarrow> string" where
  "phase_status_str PhaseStatusRunning = ''running''"
| "phase_status_str PhaseStatusSucceeded = ''succeeded''"
| "phase_status_str PhaseStatusFailed = ''failed''"
| "phase_status_str PhaseStatusSkipped = ''skipped''"
| "phase_status_str (PhaseStatusOther s) = s"

fun actor_str :: "actor \<Rightarrow> string" where
  "actor_str ActorUser = ''user''"
| "actor_str ActorAgent = ''agent''"
| "actor_str (ActorOther s) = s"

fun retry_mode_str :: "retry_mode \<Rightarrow> string" where
  "retry_mode_str RetryFresh = ''fresh''"
| "retry_mode_str RetryResume = ''resume''"
| "retry_mode_str (RetryOther s) = s"

fun gate_status_str :: "gate_status \<Rightarrow> string" where
  "gate_status_str GateStatusLocked = ''locked''"
| "gate_status_str GateStatusActive = ''active''"
| "gate_status_str GateStatusPendingRelease = ''pending_release''"
| "gate_status_str GateStatusReleased = ''released''"
| "gate_status_str (GateStatusOther s) = s"

section \<open>Rows (models.go, task_gate.go, gate_criterion.go, retry.go)\<close>

record gate_criterion =
  gc_ID :: string
  gc_Text :: string
  gc_Done :: bool
  gc_SortOrder :: int

record task_gate =
  gate_Kind :: gate_kind
  gate_Status :: gate_status
  gate_Hold :: bool
  gate_PendingReleaseDeadlineUTC :: "gotime option"
  gate_Criteria :: "gate_criterion list"

record pending_retry =
  pr_Mode :: retry_mode
  pr_ParentCycleID :: string

record dependency_edge =
  de_TaskID :: string
  de_Satisfies :: dep_satisfies

record task =
  task_ID :: string
  task_Title :: string
  task_InitialPrompt :: string
  task_Status :: status
  task_Priority :: priority
  task_ProjectID :: "string option"
  task_ProjectContextItemIDs :: "string list"
  task_Tags :: "string list"
  task_Milestone :: "string option"
  task_Gate :: "task_gate option"
  task_DependsOn :: "dependency_edge list"
  task_Runner :: string
  task_CursorModel :: string
  task_RunnerConfig :: "(string \<times> json) list"
  task_PickupNotBefore :: "gotime option"
  task_CriteriaSatisfiedAt :: "gotime option"
  task_PendingRetry :: "pending_retry option"
  task_CreatedAt :: "gotime option"
  task_WorktreeID :: "string option"

record task_dependency =
  td_TaskID :: string
  td_DependsOnTaskID :: string
  td_Satisfies :: dep_satisfies
  td_CreatedAt :: gotime

record checklist_item =
  ci_ID :: string
  ci_TaskID :: string
  ci_SortOrder :: int
  ci_Text :: string

record checklist_command =
  cc_ID :: string
  cc_ItemID :: string
  cc_SortOrder :: int
  cc_Command :: string
  cc_ExpectedOutcome :: string

record checklist_completion =
  cp_TaskID :: string
  cp_ItemID :: string
  cp_At :: gotime
  cp_By :: actor
  cp_Evidence :: string
  cp_VerifiedBy :: verifier_kind
  cp_VerifierReasoning :: string
  cp_CycleID :: string

record thread_entry =
  te_At :: gotime
  te_By :: actor
  te_Body :: string

text \<open>The JSON column \<^verbatim>\<open>response_thread_json\<close> is the decoded entry list: \<open>None\<close> when blank.\<close>

record task_event =
  ev_TaskID :: string
  ev_Seq :: int
  ev_At :: gotime
  ev_Type :: event_type
  ev_By :: actor
  ev_Data :: "(string \<times> json) list"
  ev_UserResponse :: "string option"
  ev_UserResponseAt :: "gotime option"
  ev_ResponseThread :: "thread_entry list option"

record task_cycle =
  cycle_ID :: string
  cycle_TaskID :: string
  cycle_AttemptSeq :: int
  cycle_Status :: cycle_status
  cycle_StartedAt :: gotime
  cycle_EndedAt :: "gotime option"
  cycle_TriggeredBy :: actor
  cycle_ParentCycleID :: "string option"
  cycle_MetaJSON :: "(string \<times> json) list"

record cycle_phase =
  ph_ID :: string
  ph_CycleID :: string
  ph_Phase :: phase
  ph_PhaseSeq :: int
  ph_Status :: phase_status
  ph_StartedAt :: gotime
  ph_EndedAt :: "gotime option"
  ph_Summary :: "string option"
  ph_DetailsJSON :: "(string \<times> json) list"
  ph_EventSeq :: "int option"

record stream_event =
  se_ID :: string
  se_TaskID :: string
  se_CycleID :: string
  se_PhaseSeq :: int
  se_StreamSeq :: int
  se_At :: gotime
  se_Source :: string
  se_Kind :: string
  se_Subtype :: string
  se_Message :: string
  se_Tool :: string
  se_PayloadJSON :: "(string \<times> json) list"

section \<open>The phase state machine (cycle_state.go)\<close>

definition PhaseInterruptReason :: string where
  "PhaseInterruptReason = ''process_restart''"

fun ValidPhaseTransition :: "phase \<Rightarrow> phase \<Rightarrow> bool" where
  "ValidPhaseTransition prev nxt =
     (if nxt = PhaseNone then False
      else if prev = PhaseNone then nxt = PhaseExecute
      else (case prev of
              PhaseExecute \<Rightarrow> nxt = PhaseVerify
            | PhaseVerify \<Rightarrow> nxt = PhaseExecute
            | _ \<Rightarrow> False))"

fun TerminalCycleStatus :: "cycle_status \<Rightarrow> bool" where
  "TerminalCycleStatus CycleStatusSucceeded = True"
| "TerminalCycleStatus CycleStatusFailed = True"
| "TerminalCycleStatus CycleStatusAborted = True"
| "TerminalCycleStatus _ = False"

fun TerminalPhaseStatus :: "phase_status \<Rightarrow> bool" where
  "TerminalPhaseStatus PhaseStatusSucceeded = True"
| "TerminalPhaseStatus PhaseStatusFailed = True"
| "TerminalPhaseStatus PhaseStatusSkipped = True"
| "TerminalPhaseStatus _ = False"

definition ValidInterruptResumeTransition :: "cycle_phase option \<Rightarrow> phase \<Rightarrow> bool" where
  "ValidInterruptResumeTransition lst nxt =
     (case lst of
        None \<Rightarrow> False
      | Some p \<Rightarrow>
          if nxt = PhaseNone then False
          else if ph_Phase p \<noteq> nxt then False
          else if \<not> TerminalPhaseStatus (ph_Status p) \<or> ph_Status p \<noteq> PhaseStatusFailed then False
          else if ph_Summary p = None \<or> ph_Summary p \<noteq> Some PhaseInterruptReason then False
          else True)"

definition ValidVerifyOnlyRetryTransition :: "cycle_phase option \<Rightarrow> phase \<Rightarrow> bool" where
  "ValidVerifyOnlyRetryTransition lst nxt =
     (case lst of
        None \<Rightarrow> False
      | Some p \<Rightarrow>
          if nxt \<noteq> PhaseVerify then False
          else if ph_Phase p \<noteq> PhaseVerify then False
          else TerminalPhaseStatus (ph_Status p) \<and> ph_Status p = PhaseStatusFailed)"

section \<open>Gates, retries and dependency predicates\<close>

definition GateBlocksWorker :: "task_gate option \<Rightarrow> bool" where
  "GateBlocksWorker g = (case g of None \<Rightarrow> False | Some t \<Rightarrow> gate_Status t \<noteq> GateStatusReleased)"

fun GateCriteriaAllDone :: "gate_criterion list \<Rightarrow> bool" where
  "GateCriteriaAllDone [] = True"
| "GateCriteriaAllDone (c # cs) = (if \<not> gc_Done c then False else GateCriteriaAllDone cs)"

definition PendingRetry_Validate :: "pending_retry option \<Rightarrow> pending_retry res" where
  "PendingRetry_Validate p =
     (case p of
        None \<Rightarrow> Inl (ErrInvalidInput ''pending retry'')
      | Some r \<Rightarrow>
          if pr_Mode r \<noteq> RetryFresh \<and> pr_Mode r \<noteq> RetryResume then Inl (ErrInvalidInput ''retry mode'')
          else let parent = trim_space (pr_ParentCycleID r) in
            if parent = [] then Inl (ErrInvalidInput ''parent_cycle_id'')
            else Inr (r\<lparr>pr_ParentCycleID := parent\<rparr>))"

definition PendingRetry_Equal :: "pending_retry option \<Rightarrow> pending_retry option \<Rightarrow> bool" where
  "PendingRetry_Equal p other =
     (case (p, other) of
        (Some a, Some b) \<Rightarrow> pr_Mode a = pr_Mode b \<and> pr_ParentCycleID a = pr_ParentCycleID b
      | (None, None) \<Rightarrow> True
      | _ \<Rightarrow> False)"

fun ValidDependencySatisfies :: "dep_satisfies \<Rightarrow> bool" where
  "ValidDependencySatisfies DependencySatisfiesDone = True"
| "ValidDependencySatisfies DependencySatisfiesEmpty = True"
| "ValidDependencySatisfies (DependencySatisfiesOther s) = False"

fun NormalizeDependencySatisfies :: "dep_satisfies \<Rightarrow> dep_satisfies" where
  "NormalizeDependencySatisfies DependencySatisfiesEmpty = DependencySatisfiesDone"
| "NormalizeDependencySatisfies DependencySatisfiesDone = DependencySatisfiesDone"
| "NormalizeDependencySatisfies (DependencySatisfiesOther s) =
     (if trim_space s = [] then DependencySatisfiesDone else DependencySatisfiesOther s)"

fun ValidVerifierKind :: "verifier_kind \<Rightarrow> bool" where
  "ValidVerifierKind (VerifierOther s) = False"
| "ValidVerifierKind _ = True"

fun EventTypeAcceptsUserResponse :: "event_type \<Rightarrow> bool" where
  "EventTypeAcceptsUserResponse EventApprovalRequested = True"
| "EventTypeAcceptsUserResponse EventTaskFailed = True"
| "EventTypeAcceptsUserResponse _ = False"

section \<open>Correlation handles (cycle_correlation.go)\<close>

definition PhaseDetailsRunCorrelationID :: string where
  "PhaseDetailsRunCorrelationID = ''run_correlation_id''"

definition PhaseDetailsSessionID :: string where
  "PhaseDetailsSessionID = ''session_id''"

definition json_string_at :: "(string \<times> json) list \<Rightarrow> string \<Rightarrow> string" where
  "json_string_at obj k = (case map_of obj k of Some (JStr s) \<Rightarrow> s | _ \<Rightarrow> [])"

definition RunCorrelationIDFromDetailsJSON :: "(string \<times> json) list \<Rightarrow> string" where
  "RunCorrelationIDFromDetailsJSON d = json_string_at d PhaseDetailsRunCorrelationID"

definition SessionIDFromDetailsJSON :: "(string \<times> json) list \<Rightarrow> string" where
  "SessionIDFromDetailsJSON d = trim_space (json_string_at d PhaseDetailsSessionID)"

section \<open>Tags and milestones (task_model_validate.go)\<close>

text \<open>The anchored patterns \<^verbatim>\<open>^[a-z0-9][a-z0-9._-]{0,31}$\<close> and
  \<^verbatim>\<open>^[a-zA-Z0-9][a-zA-Z0-9 ._-]{0,63}$\<close>: a first byte, then at most 31 (63) bytes of a class.
  Both classes are ASCII, so bytes and runes agree on every match.\<close>

definition lower_or_digit :: "char \<Rightarrow> bool" where
  "lower_or_digit c \<longleftrightarrow> byte_in 0x61 0x7A c \<or> byte_in 0x30 0x39 c"

definition tag_rest :: "char \<Rightarrow> bool" where
  "tag_rest c \<longleftrightarrow> lower_or_digit c \<or> c \<in> set ''._-''"

definition taskTagPattern :: "string \<Rightarrow> bool" where
  "taskTagPattern s =
     (case s of [] \<Rightarrow> False | c # cs \<Rightarrow> lower_or_digit c \<and> length cs \<le> 31 \<and> list_all tag_rest cs)"

definition alnum :: "char \<Rightarrow> bool" where
  "alnum c \<longleftrightarrow> lower_or_digit c \<or> byte_in 0x41 0x5A c"

definition taskMilestonePattern :: "string \<Rightarrow> bool" where
  "taskMilestonePattern s =
     (case s of [] \<Rightarrow> False
      | c # cs \<Rightarrow> alnum c \<and> length cs \<le> 63 \<and> list_all (\<lambda>d. alnum d \<or> d \<in> set '' ._-'') cs)"

definition ValidateTaskTag :: "string \<Rightarrow> unit res" where
  "ValidateTaskTag tag0 =
     (let tag = trim_space tag0 in
      if tag = [] then Inl (ErrInvalidInput ''tag must not be empty'')
      else if \<not> taskTagPattern tag then Inl (ErrInvalidInput ''invalid tag'')
      else Inr ())"

fun ValidateTaskTags_from :: "string list \<Rightarrow> string list \<Rightarrow> unit res" where
  "ValidateTaskTags_from seen [] = Inr ()"
| "ValidateTaskTags_from seen (tag # tags) =
     (case ValidateTaskTag tag of
        Inl e \<Rightarrow> Inl e
      | Inr _ \<Rightarrow>
          if tag \<in> set seen then Inl (ErrInvalidInput ''duplicate tag'')
          else ValidateTaskTags_from (tag # seen) tags)"

definition ValidateTaskTags :: "string list \<Rightarrow> unit res" where
  "ValidateTaskTags tags = ValidateTaskTags_from [] tags"

definition ValidateTaskMilestone :: "string \<Rightarrow> unit res" where
  "ValidateTaskMilestone milestone0 =
     (let milestone = trim_space milestone0 in
      if milestone = [] then Inr ()
      else if \<not> taskMilestonePattern milestone then Inl (ErrInvalidInput ''invalid milestone'')
      else Inr ())"

text \<open>The loop of \<^verbatim>\<open>NormalizeTaskTags\<close> with its \<^verbatim>\<open>seen\<close> set and \<^verbatim>\<open>out\<close> slice.\<close>

fun NormalizeTaskTags_from :: "string list \<Rightarrow> string list \<Rightarrow> string list \<Rightarrow> string list" where
  "NormalizeTaskTags_from seen out [] = out"
| "NormalizeTaskTags_from seen out (tag0 # tags) =
     (let tag = trim_space tag0 in
      if tag = [] then NormalizeTaskTags_from seen out tags
      else if tag \<in> set seen then NormalizeTaskTags_from seen out tags
      else NormalizeTaskTags_from (tag # seen) (out @ [tag]) tags)"

definition NormalizeTaskTags :: "string list \<Rightarrow> string list" where
  "NormalizeTaskTags tags = (if length tags = 0 then [] else NormalizeTaskTags_from [] [] tags)"

lemma NormalizeTaskTags_from_append:
  "NormalizeTaskTags_from seen out tags = out @ NormalizeTaskTags_from seen [] tags"
proof (induction tags arbitrary: seen out)
  case Nil
  show ?case by simp
next
  case (Cons t ts)
  show ?case
    by (simp add: Let_def) (metis Cons append.assoc)
qed

lemma NormalizeTaskTags_Cons:
  "NormalizeTaskTags_from seen [] (t # ts) =
     (if trim_space t = [] \<or> trim_space t \<in> set seen then NormalizeTaskTags_from seen [] ts
      else trim_space t # NormalizeTaskTags_from (trim_space t # seen) [] ts)"
  using NormalizeTaskTags_from_append[of "trim_space t # seen" "[trim_space t]" ts]
  by (simp add: Let_def)

lemma NormalizeTaskTags_from_set:
  "set (NormalizeTaskTags_from seen [] tags) = {trim_space t | t. t \<in> set tags \<and> trim_space t \<noteq> []} - set seen"
proof (induction tags arbitrary: seen)
  case Nil
  show ?case by simp
next
  case (Cons t ts)
  show ?case unfolding NormalizeTaskTags_Cons by (auto simp: Cons)
qed

lemma NormalizeTaskTags_from_distinct: "distinct (NormalizeTaskTags_from seen [] tags)"
proof (induction tags arbitrary: seen)
  case Nil
  show ?case by simp
next
  case (Cons t ts)
  show ?case unfolding NormalizeTaskTags_Cons by (simp add: Cons NormalizeTaskTags_from_set)
qed

lemma NormalizeTaskTags_from_id:
  assumes "distinct tags" "\<forall>t\<in>set tags. trim_space t = t \<and> t \<noteq> []" "set tags \<inter> set seen = {}"
  shows "NormalizeTaskTags_from seen [] tags = tags"
  using assms
proof (induction tags arbitrary: seen)
  case Nil
  show ?case by simp
next
  case (Cons t ts)
  then have "NormalizeTaskTags_from (t # seen) [] ts = ts" by (intro Cons.IH) auto
  with Cons.prems show ?case unfolding NormalizeTaskTags_Cons by simp
qed

lemma NormalizeTaskTags_unfold: "NormalizeTaskTags tags = NormalizeTaskTags_from [] [] tags"
  by (simp add: NormalizeTaskTags_def)

lemma NormalizeTaskTags_set:
  "set (NormalizeTaskTags tags) = {trim_space t | t. t \<in> set tags \<and> trim_space t \<noteq> []}"
  by (simp add: NormalizeTaskTags_unfold NormalizeTaskTags_from_set)

lemma NormalizeTaskTags_idem: "NormalizeTaskTags (NormalizeTaskTags tags) = NormalizeTaskTags tags"
proof -
  have "\<forall>t\<in>set (NormalizeTaskTags tags). trim_space t = t \<and> t \<noteq> []"
    by (auto simp: NormalizeTaskTags_set)
  then show ?thesis
    using NormalizeTaskTags_from_id[of "NormalizeTaskTags tags" "[]"] NormalizeTaskTags_from_distinct
    by (metis NormalizeTaskTags_unfold empty_set inf_bot_right)
qed

text \<open>Tags are stored in normal form: trimmed, without blanks and duplicates, exactly the tags that
  were given, and normalising again changes nothing.\<close>

theorem tags_normal_form:
  "distinct (NormalizeTaskTags tags) \<and>
   set (NormalizeTaskTags tags) = {trim_space t | t. t \<in> set tags \<and> trim_space t \<noteq> []} \<and>
   NormalizeTaskTags (NormalizeTaskTags tags) = NormalizeTaskTags tags"
  using NormalizeTaskTags_from_distinct[of "[]" tags] NormalizeTaskTags_set NormalizeTaskTags_idem
  by (simp add: NormalizeTaskTags_unfold)

end
