(* ===== verification/Scheduling.thy ===== *)
theory Scheduling
  imports Hamix_Domain
begin

text \<open>
  \<^verbatim>\<open>pkgs/tasks/scheduling\<close>: when a task may be dequeued. \<open>EvaluateWorkerReadiness\<close> applies the
  four predicates in their fixed order and names the first that fails;
  \<open>DecideNotifyAfterReadyTransition\<close> picks what happens after a commit (queue notify, scheduled
  wake, cancelled wake). \<open>worker_ready\<close> is the abstract specification both are compared with.
\<close>

section \<open>Types (types.go)\<close>

datatype failed_predicate =
    FailedPredicateNone | FailedPredicateStatus | FailedPredicatePickup | FailedPredicateGate
  | FailedPredicateDependencies

record readiness_result =
  rr_Ready :: bool
  rr_FailedPredicate :: failed_predicate

record notify_decision =
  nd_NotifyQueue :: bool
  nd_ScheduleWake :: "gotime option"
  nd_CancelWake :: bool

section \<open>Predicates\<close>

text \<open>\<^verbatim>\<open>PickupNotBefore != nil && PickupNotBefore.After(now)\<close>.\<close>

definition pickup_deferred :: "gotime option \<Rightarrow> gotime \<Rightarrow> bool" where
  "pickup_deferred p now = (case p of None \<Rightarrow> False | Some t \<Rightarrow> now < t)"

definition ShouldNotifyReadyNow :: "gotime option \<Rightarrow> gotime \<Rightarrow> bool" where
  "ShouldNotifyReadyNow pickupNotBefore now =
     (case pickupNotBefore of None \<Rightarrow> True | Some t \<Rightarrow> \<not> now < t)"

definition EdgeSatisfied :: "task option \<Rightarrow> dep_satisfies \<Rightarrow> bool" where
  "EdgeSatisfied predecessor satisfies =
     (case predecessor of None \<Rightarrow> False | Some p \<Rightarrow> task_Status p = StatusDone)"

definition EvaluateWorkerReadiness :: "task option \<Rightarrow> gotime \<Rightarrow> bool \<Rightarrow> readiness_result" where
  "EvaluateWorkerReadiness t now dependenciesMet =
     (case t of
        None \<Rightarrow> \<lparr>rr_Ready = False, rr_FailedPredicate = FailedPredicateStatus\<rparr>
      | Some task \<Rightarrow>
          if task_Status task \<noteq> StatusReady
          then \<lparr>rr_Ready = False, rr_FailedPredicate = FailedPredicateStatus\<rparr>
          else if pickup_deferred (task_PickupNotBefore task) now
          then \<lparr>rr_Ready = False, rr_FailedPredicate = FailedPredicatePickup\<rparr>
          else if GateBlocksWorker (task_Gate task)
          then \<lparr>rr_Ready = False, rr_FailedPredicate = FailedPredicateGate\<rparr>
          else if \<not> dependenciesMet
          then \<lparr>rr_Ready = False, rr_FailedPredicate = FailedPredicateDependencies\<rparr>
          else \<lparr>rr_Ready = True, rr_FailedPredicate = FailedPredicateNone\<rparr>)"

definition DecideNotifyAfterReadyTransition ::
  "status \<Rightarrow> task option \<Rightarrow> bool \<Rightarrow> gotime \<Rightarrow> notify_decision" where
  "DecideNotifyAfterReadyTransition prevStatus t pickupTouched now =
     (case t of
        None \<Rightarrow> \<lparr>nd_NotifyQueue = False, nd_ScheduleWake = None, nd_CancelWake = False\<rparr>
      | Some task \<Rightarrow>
          if task_Status task \<noteq> StatusReady
          then \<lparr>nd_NotifyQueue = False, nd_ScheduleWake = None, nd_CancelWake = True\<rparr>
          else if pickup_deferred (task_PickupNotBefore task) now
          then \<lparr>nd_NotifyQueue = False, nd_ScheduleWake = task_PickupNotBefore task, nd_CancelWake = False\<rparr>
          else (let transitionedToReady = (prevStatus \<noteq> StatusReady);
                    notify = (transitionedToReady \<or> pickupTouched);
                    notify' = (if notify \<and> \<not> ShouldNotifyReadyNow (task_PickupNotBefore task) now
                               then False else notify)
                in \<lparr>nd_NotifyQueue = notify', nd_ScheduleWake = None, nd_CancelWake = True\<rparr>))"

section \<open>Specification\<close>

text \<open>A task is eligible when it is ready, its pickup instant has passed, no gate holds it and
  its predecessors are done.\<close>

definition worker_ready :: "task \<Rightarrow> gotime \<Rightarrow> bool \<Rightarrow> bool" where
  "worker_ready task now depsMet \<longleftrightarrow>
     task_Status task = StatusReady \<and>
     (\<forall>t. task_PickupNotBefore task = Some t \<longrightarrow> t \<le> now) \<and>
     (\<forall>g. task_Gate task = Some g \<longrightarrow> gate_Status g = GateStatusReleased) \<and> depsMet"

lemma pickup_deferred_iff: "pickup_deferred p now \<longleftrightarrow> (\<exists>t. p = Some t \<and> now < t)"
  by (auto simp: pickup_deferred_def split: option.splits)

lemma GateBlocksWorker_iff: "GateBlocksWorker g \<longleftrightarrow> (\<exists>t. g = Some t \<and> gate_Status t \<noteq> GateStatusReleased)"
  by (auto simp: GateBlocksWorker_def split: option.splits)

lemma EvaluateWorkerReadiness_ready_iff:
  "rr_Ready (EvaluateWorkerReadiness t now deps) \<longleftrightarrow> (\<exists>task. t = Some task \<and> worker_ready task now deps)"
  by (auto simp: EvaluateWorkerReadiness_def worker_ready_def pickup_deferred_iff GateBlocksWorker_iff
           split: option.splits)

text \<open>Readiness is monotone in time while the row stays as it is.\<close>

lemma worker_ready_mono: "worker_ready task now deps \<Longrightarrow> now \<le> now' \<Longrightarrow> worker_ready task now' deps"
  by (fastforce simp: worker_ready_def)

text \<open>\<^verbatim>\<open>EvaluateWorkerReadiness\<close> implements the readiness specification and reports the first
  predicate that fails in the order status, pickup, gate, dependencies: the result is ready exactly
  when the task satisfies \<open>worker_ready\<close>, "none" is reported exactly for a ready task, and each
  reported predicate fails while all earlier ones hold.\<close>

theorem readiness_first_failure:
  "(rr_Ready (EvaluateWorkerReadiness (Some task) now deps) = worker_ready task now deps) \<and>
   (case rr_FailedPredicate (EvaluateWorkerReadiness (Some task) now deps) of
      FailedPredicateNone \<Rightarrow> worker_ready task now deps
    | FailedPredicateStatus \<Rightarrow> task_Status task \<noteq> StatusReady
    | FailedPredicatePickup \<Rightarrow> task_Status task = StatusReady \<and>
        (\<exists>t. task_PickupNotBefore task = Some t \<and> now < t)
    | FailedPredicateGate \<Rightarrow> task_Status task = StatusReady \<and>
        \<not> (\<exists>t. task_PickupNotBefore task = Some t \<and> now < t) \<and>
        (\<exists>g. task_Gate task = Some g \<and> gate_Status g \<noteq> GateStatusReleased)
    | FailedPredicateDependencies \<Rightarrow> worker_ready task now True \<and> deps = False)"
  by (auto simp: EvaluateWorkerReadiness_def worker_ready_def pickup_deferred_iff GateBlocksWorker_iff)

text \<open>The post-commit decision never wakes a task early and never loses one: for a committed
  row at most one of notify and scheduled wake is chosen, a notify means the row is ready and its
  pickup instant has passed, a scheduled wake is exactly for a ready row deferred to that future
  instant, every row that is not both ready and deferred cancels its wake, and a row that just
  became ready is either notified or scheduled.\<close>

theorem notify_decision_sound:
  "let d = DecideNotifyAfterReadyTransition prev (Some task) touched now in
     \<not> (nd_NotifyQueue d \<and> nd_ScheduleWake d \<noteq> None) \<and>
     (nd_NotifyQueue d = (task_Status task = StatusReady \<and>
        (\<nexists>t. task_PickupNotBefore task = Some t \<and> now < t) \<and> \<not> (prev = StatusReady \<and> \<not> touched))) \<and>
     (nd_ScheduleWake d = (if task_Status task = StatusReady \<and>
        (\<exists>t. task_PickupNotBefore task = Some t \<and> now < t) then task_PickupNotBefore task else None)) \<and>
     (nd_CancelWake d = (nd_ScheduleWake d = None))"
  by (auto simp: DecideNotifyAfterReadyTransition_def ShouldNotifyReadyNow_def pickup_deferred_def Let_def
           split: option.splits)

end
