(* ===== verification/Store_State.thy ===== *)
theory Store_State
  imports Hamix_Domain
begin

text \<open>
  The database behind \<^verbatim>\<open>pkgs/tasks/store\<close>: one list of rows per table in insertion order, the
  inserts with the uniqueness rules of the schema, and the shared kernel
  (\<^verbatim>\<open>store/internal/kernel\<close>): validation of enumerations, JSON normalisation, task lookup and the
  numbering of audit events. A transaction is a function from the database to the database after
  commit, or to an error that leaves the database as it was.

  The locale \<open>seq_table\<close> is the contract of every append-only table whose rows carry a sequence
  number per group: attempts of a task, phases of a cycle, audit events of a task, stream events of
  a cycle.
\<close>

section \<open>The tables\<close>

datatype project_status = ProjectStatusActive | ProjectStatusArchived | ProjectStatusOther string

datatype context_relation =
    RelationSupports | RelationBlocks | RelationRefines | RelationDependsOn | RelationRelated
  | RelationOther string

record project_row =
  proj_ID :: string
  proj_Name :: string
  proj_Description :: string
  proj_Status :: project_status
  proj_ContextSummary :: string
  proj_RepositoryID :: "string option"
  proj_CreatedAt :: gotime
  proj_UpdatedAt :: gotime

record context_item =
  pci_ID :: string
  pci_ProjectID :: string
  pci_Kind :: string
  pci_Title :: string
  pci_Body :: string
  pci_SourceTaskID :: "string option"
  pci_SourceCycleID :: "string option"
  pci_CreatedBy :: actor
  pci_Pinned :: bool
  pci_CreatedAt :: gotime
  pci_UpdatedAt :: gotime

record context_edge =
  pce_ID :: string
  pce_ProjectID :: string
  pce_SourceContextID :: string
  pce_TargetContextID :: string
  pce_Relation :: context_relation
  pce_Strength :: int
  pce_Note :: string
  pce_CreatedAt :: gotime
  pce_UpdatedAt :: gotime

record context_snapshot =
  snap_ID :: string
  snap_TaskID :: string
  snap_CycleID :: string
  snap_ProjectID :: string
  snap_ContextJSON :: "(string \<times> json) list"
  snap_RenderedContext :: string
  snap_TokenEstimate :: int
  snap_CreatedAt :: gotime

text \<open>The rows of \<^verbatim>\<open>task_drafts\<close> and of \<^verbatim>\<open>task_templates\<close>.\<close>

record named_row =
  nr_ID :: string
  nr_Name :: string
  nr_Payload :: "(string \<times> json) list"
  nr_CreatedAt :: gotime
  nr_UpdatedAt :: gotime

record db =
  db_tasks :: "task list"
  db_cycles :: "task_cycle list"
  db_phases :: "cycle_phase list"
  db_events :: "task_event list"
  db_streams :: "stream_event list"
  db_deps :: "task_dependency list"
  db_items :: "checklist_item list"
  db_commands :: "checklist_command list"
  db_completions :: "checklist_completion list"
  db_projects :: "project_row list"
  db_context_items :: "context_item list"
  db_edges :: "context_edge list"
  db_snapshots :: "context_snapshot list"
  db_drafts :: "named_row list"
  db_templates :: "named_row list"

definition empty_db :: db where
  "empty_db = \<lparr>db_tasks = [], db_cycles = [], db_phases = [], db_events = [], db_streams = [],
     db_deps = [], db_items = [], db_commands = [], db_completions = [], db_projects = [], db_context_items = [],
     db_edges = [], db_snapshots = [], db_drafts = [], db_templates = []\<rparr>"

section \<open>kernel/validate.go\<close>

fun ValidStatus :: "status \<Rightarrow> bool" where
  "ValidStatus (StatusOther s) = False"
| "ValidStatus _ = True"

definition ValidClientWritableStatus :: "status \<Rightarrow> bool" where
  "ValidClientWritableStatus s = ValidStatus s"

fun ValidPriority :: "priority \<Rightarrow> bool" where
  "ValidPriority (PriorityOther s) = False"
| "ValidPriority _ = True"

fun ValidateActor :: "actor \<Rightarrow> unit res" where
  "ValidateActor ActorUser = Inr ()"
| "ValidateActor ActorAgent = Inr ()"
| "ValidateActor (ActorOther s) = Inl (ErrInvalidInput ''actor'')"

fun ValidPhase :: "phase \<Rightarrow> bool" where
  "ValidPhase PhaseExecute = True"
| "ValidPhase PhaseVerify = True"
| "ValidPhase _ = False"

definition ValidTerminalCycleStatus :: "cycle_status \<Rightarrow> bool" where
  "ValidTerminalCycleStatus s = TerminalCycleStatus s"

definition ValidTerminalPhaseStatus :: "phase_status \<Rightarrow> bool" where
  "ValidTerminalPhaseStatus s = TerminalPhaseStatus s"

section \<open>kernel/json.go, kernel/ids.go, kernel/tx.go\<close>

text \<open>A blank body and the literal null both become the empty object.\<close>

definition NormalizeJSONObject :: "payload \<Rightarrow> string \<Rightarrow> (string \<times> json) list res" where
  "NormalizeJSONObject b field =
     (case b of
        PBlank \<Rightarrow> Inr []
      | PMalformed \<Rightarrow> Inl (ErrInvalidInput (field @ '' must be a JSON object''))
      | PDoc JNull \<Rightarrow> Inr []
      | PDoc (JObj obj) \<Rightarrow> Inr obj
      | PDoc _ \<Rightarrow> Inl (ErrInvalidInput (field @ '' must be a JSON object'')))"

text \<open>\<open>uuid\<close> is the identifier \<^verbatim>\<open>uuid.NewString()\<close> would mint.\<close>

definition ResolveID :: "string \<Rightarrow> string \<Rightarrow> string" where
  "ResolveID uuid i = (let i' = trim_space i in if i' = [] then uuid else i')"

definition LoadTask :: "db \<Rightarrow> string \<Rightarrow> task res" where
  "LoadTask s i =
     (case List.find (\<lambda>t. task_ID t = i) (db_tasks s) of None \<Rightarrow> Inl ErrNotFound | Some t \<Rightarrow> Inr t)"

lemma LoadTaskD:
  assumes "LoadTask s i = Inr t"
  shows "t \<in> set (db_tasks s)" "task_ID t = i"
  using assms by (auto simp: LoadTask_def find_Some_iff split: option.splits)

lemma LoadTask_mem: "LoadTask s i = Inr t \<Longrightarrow> i \<in> task_ID ` set (db_tasks s)"
  using LoadTaskD by blast

lemma LoadTask_ex: "i \<in> task_ID ` set (db_tasks s) \<Longrightarrow> \<exists>t. LoadTask s i = Inr t"
proof -
  assume "i \<in> task_ID ` set (db_tasks s)"
  then have "List.find (\<lambda>t. task_ID t = i) (db_tasks s) \<noteq> None" unfolding find_None_iff by auto
  then show ?thesis by (auto simp: LoadTask_def)
qed

section \<open>Inserts\<close>

definition schema_ok_task :: "task \<Rightarrow> bool" where
  "schema_ok_task t \<longleftrightarrow> ValidStatus (task_Status t) \<and> ValidPriority (task_Priority t)"

definition insert_task :: "db \<Rightarrow> task \<Rightarrow> db res" where
  "insert_task s t =
     (if task_ID t \<in> set (map task_ID (db_tasks s)) then Inl (ErrDB ''tasks_pkey'')
      else if \<not> schema_ok_task t then Inl (ErrDB ''chk_tasks'')
      else Inr (s\<lparr>db_tasks := db_tasks s @ [t]\<rparr>))"

definition insert_cycle :: "db \<Rightarrow> task_cycle \<Rightarrow> db res" where
  "insert_cycle s c =
     (if cycle_ID c \<in> set (map cycle_ID (db_cycles s)) then Inl (ErrDB ''task_cycles_pkey'')
      else if (cycle_TaskID c, cycle_AttemptSeq c) \<in>
              set (map (\<lambda>c. (cycle_TaskID c, cycle_AttemptSeq c)) (db_cycles s))
      then Inl (ErrDB ''task_cycles_task_id_attempt'')
      else if cycle_AttemptSeq c \<le> 0 then Inl (ErrDB ''chk_task_cycles_attempt_seq'')
      else Inr (s\<lparr>db_cycles := db_cycles s @ [c]\<rparr>))"

definition insert_phase :: "db \<Rightarrow> cycle_phase \<Rightarrow> db res" where
  "insert_phase s p =
     (if ph_ID p \<in> set (map ph_ID (db_phases s)) then Inl (ErrDB ''task_cycle_phases_pkey'')
      else if (ph_CycleID p, ph_PhaseSeq p) \<in> set (map (\<lambda>p. (ph_CycleID p, ph_PhaseSeq p)) (db_phases s))
      then Inl (ErrDB ''task_cycle_phases_cycle_id_seq'')
      else if ph_PhaseSeq p \<le> 0 then Inl (ErrDB ''chk_task_cycle_phases_phase_seq'')
      else Inr (s\<lparr>db_phases := db_phases s @ [p]\<rparr>))"

definition insert_event :: "db \<Rightarrow> task_event \<Rightarrow> db res" where
  "insert_event s e =
     (if (ev_TaskID e, ev_Seq e) \<in> set (map (\<lambda>e. (ev_TaskID e, ev_Seq e)) (db_events s))
      then Inl (ErrDB ''task_events_pkey'')
      else if ev_Seq e \<le> 0 then Inl (ErrDB ''chk_task_events_seq'')
      else if ev_TaskID e \<notin> set (map task_ID (db_tasks s)) then Inl (ErrDB ''fk_task_events_task'')
      else Inr (s\<lparr>db_events := db_events s @ [e]\<rparr>))"

definition insert_stream :: "db \<Rightarrow> stream_event \<Rightarrow> db res" where
  "insert_stream s e =
     (if se_ID e \<in> set (map se_ID (db_streams s)) then Inl (ErrDB ''task_cycle_stream_events_pkey'')
      else if (se_CycleID e, se_StreamSeq e) \<in> set (map (\<lambda>e. (se_CycleID e, se_StreamSeq e)) (db_streams s))
      then Inl (ErrDB ''task_cycle_stream_events_cycle_seq'')
      else if se_PhaseSeq e \<le> 0 \<or> se_StreamSeq e \<le> 0 then Inl (ErrDB ''chk_task_cycle_stream_events'')
      else Inr (s\<lparr>db_streams := db_streams s @ [e]\<rparr>))"

section \<open>kernel/events.go\<close>

text \<open>On the Postgres dialect the parent task row is locked first, so a missing task is an error.\<close>

definition NextEventSeq :: "db \<Rightarrow> string \<Rightarrow> int res" where
  "NextEventSeq s taskID =
     (if taskID \<notin> set (map task_ID (db_tasks s)) then Inl (ErrDB ''lock task for event seq'')
      else Inr (coalesce_max (map ev_Seq (filter (\<lambda>e. ev_TaskID e = taskID) (db_events s))) + 1))"

definition AppendEvent ::
  "gotime \<Rightarrow> db \<Rightarrow> string \<Rightarrow> int \<Rightarrow> event_type \<Rightarrow> actor \<Rightarrow> payload \<Rightarrow> db res" where
  "AppendEvent now s taskID seq typ by data =
     (case NormalizeJSONObject data ''data'' of
        Inl e \<Rightarrow> Inl e
      | Inr normalized \<Rightarrow>
          insert_event s \<lparr>ev_TaskID = taskID, ev_Seq = seq, ev_At = now, ev_Type = typ, ev_By = by,
            ev_Data = normalized, ev_UserResponse = None, ev_UserResponseAt = None,
            ev_ResponseThread = None\<rparr>)"

definition EventPairJSON :: "string \<Rightarrow> string \<Rightarrow> payload" where
  "EventPairJSON from_s to_s = PDoc (JObj [(''from'', JStr from_s), (''to'', JStr to_s)])"

section \<open>Sequence tables\<close>

text \<open>\<open>numbered_by g n rs\<close>: within each group the rows carry the numbers 1, 2, 3, ... in order.\<close>

definition numbered_by :: "('r \<Rightarrow> 'k) \<Rightarrow> ('r \<Rightarrow> int) \<Rightarrow> 'r list \<Rightarrow> bool" where
  "numbered_by g n rs \<longleftrightarrow> (\<forall>k. numbered (map n (filter (\<lambda>r. g r = k) rs)))"

lemma numbered_by_Nil [simp]: "numbered_by g n []"
  by (simp add: numbered_by_def)

lemma numbered_by_update_where:
  assumes "numbered_by g n rs" "\<And>r. g (f r) = g r" "\<And>r. n (f r) = n r"
  shows "numbered_by g n (update_where P f rs)"
  using assms map_filter_update_where[of _ f n P rs] by (simp add: numbered_by_def)

lemma numbered_by_filter_groups:
  assumes "numbered_by g n rs" "\<And>r. P r = Q (g r)"
  shows "numbered_by g n (filter P rs)"
proof -
  have "filter (\<lambda>r. g r = k) (filter P rs) = (if Q k then filter (\<lambda>r. g r = k) rs else [])" for k
    by (induction rs) (auto simp: assms(2))
  with assms(1) show ?thesis by (simp add: numbered_by_def)
qed

lemma numbered_by_inj:
  assumes "numbered_by g n rs" "r \<in> set rs" "r' \<in> set rs" "g r = g r'" "n r = n r'"
  shows "r = r'"
proof -
  let ?rs = "filter (\<lambda>x. g x = g r') rs"
  have "distinct (map n ?rs)" using assms(1) numbered_distinct by (auto simp: numbered_by_def)
  moreover have "r \<in> set ?rs" "r' \<in> set ?rs" using assms by auto
  ultimately show ?thesis using assms(5) by (metis distinct_map inj_onD)
qed

locale seq_table =
  fixes tbl :: "'s \<Rightarrow> 'r list"
    and ins :: "'s \<Rightarrow> 'r \<Rightarrow> 's res"
    and grp :: "'r \<Rightarrow> 'k"
    and num :: "'r \<Rightarrow> int"
  assumes ins_appends: "ins s r = Inr s' \<Longrightarrow> tbl s' = tbl s @ [r]"
begin

lemma ins_numbered:
  assumes "numbered_by grp num (tbl s)"
    and "num r = coalesce_max (map num (filter (\<lambda>x. grp x = grp r) (tbl s))) + 1"
    and "ins s r = Inr s'"
  shows "numbered_by grp num (tbl s')"
proof -
  have "numbered (map num (filter (\<lambda>x. grp x = k) (tbl s @ [r])))" for k
    using assms(1,2) numbered_snoc by (cases "grp r = k") (auto simp: numbered_by_def)
  then show ?thesis using ins_appends[OF assms(3)] by (simp add: numbered_by_def)
qed

lemma ins_position:
  assumes "numbered_by grp num (tbl s)"
    and "num r = coalesce_max (map num (filter (\<lambda>x. grp x = grp r) (tbl s))) + 1"
  shows "num r = int (length (filter (\<lambda>x. grp x = grp r) (tbl s))) + 1"
  using assms coalesce_max_numbered by (fastforce simp: numbered_by_def)

lemma ins_mem: "ins s r = Inr s' \<Longrightarrow> set (tbl s') = insert r (set (tbl s))"
  by (simp add: ins_appends)

end

interpretation cycle_tbl: seq_table db_cycles insert_cycle cycle_TaskID cycle_AttemptSeq
  by unfold_locales (auto simp: insert_cycle_def split: if_splits)

interpretation phase_tbl: seq_table db_phases insert_phase ph_CycleID ph_PhaseSeq
  by unfold_locales (auto simp: insert_phase_def split: if_splits)

interpretation event_tbl: seq_table db_events insert_event ev_TaskID ev_Seq
  by unfold_locales (auto simp: insert_event_def split: if_splits)

interpretation stream_tbl: seq_table db_streams insert_stream se_CycleID se_StreamSeq
  by unfold_locales (auto simp: insert_stream_def split: if_splits)

end
