(* ===== verification/Store_Cycles.thy ===== *)
theory Store_Cycles
  imports Store_State
begin

text \<open>
  \<^verbatim>\<open>pkgs/tasks/store/internal/cycles\<close>: execution cycles of a task, their phases, the audit events
  mirrored in the same transaction and the per-cycle stream of runner progress. Every operation is
  a transaction on \<open>db\<close>. The second half states the invariant of these tables, shows every
  operation keeps it, and collects the operations in the step relation \<open>cycle_step\<close>.
\<close>

section \<open>Inputs\<close>

text \<open>What a transaction reads from its surroundings: the clock when the row is built and when the
  audit event is appended, and the identifiers \<^verbatim>\<open>uuid.NewString\<close> returns.\<close>

record txenv =
  tx_now :: gotime
  tx_evnow :: gotime
  tx_uuid :: string
  tx_uuid2 :: string

record start_cycle_input =
  sci_TaskID :: string
  sci_TriggeredBy :: actor
  sci_ParentCycleID :: "string option"
  sci_Meta :: payload

record complete_phase_input =
  cpi_CycleID :: string
  cpi_PhaseSeq :: int
  cpi_Status :: phase_status
  cpi_Summary :: "string option"
  cpi_Details :: payload
  cpi_By :: actor

record append_stream_input =
  asi_TaskID :: string
  asi_CycleID :: string
  asi_PhaseSeq :: int
  asi_At :: "gotime option"
  asi_Source :: string
  asi_Kind :: string
  asi_Subtype :: string
  asi_Message :: string
  asi_Tool :: string
  asi_Payload :: payload

section \<open>Operator-facing failure text (operator_reason.go)\<close>

definition MaxFailureSurfaceRunes :: int where
  "MaxFailureSurfaceRunes = 800"

definition standardizedMessageFromDetails :: "(string \<times> json) list \<Rightarrow> string" where
  "standardizedMessageFromDetails d = trim_space (json_string_at d ''standardized_message'')"

definition failureKindFromDetails :: "(string \<times> json) list \<Rightarrow> string" where
  "failureKindFromDetails d = trim_space (json_string_at d ''failure_kind'')"

definition humanizeFailureKind :: "string \<Rightarrow> string" where
  "humanizeFailureKind kind =
     (if kind = ''cursor_usage_limit'' then ''Cursor usage limit reached'' else [])"

definition FailureSurfaceMessage :: "bool \<Rightarrow> string \<Rightarrow> string \<Rightarrow> (string \<times> json) list \<Rightarrow> string" where
  "FailureSurfaceMessage hasPhase cycleReason phaseSummary phaseDetails =
     (if \<not> hasPhase then []
      else if standardizedMessageFromDetails phaseDetails \<noteq> []
      then truncateReasonRunes (standardizedMessageFromDetails phaseDetails) MaxFailureSurfaceRunes
      else if trim_space phaseSummary \<noteq> []
      then truncateReasonRunes (trim_space phaseSummary) MaxFailureSurfaceRunes
      else if failureKindFromDetails phaseDetails \<noteq> []
      then (if humanizeFailureKind (failureKindFromDetails phaseDetails) \<noteq> []
            then humanizeFailureKind (failureKindFromDetails phaseDetails)
            else failureKindFromDetails phaseDetails)
      else if trim_space cycleReason = [] then []
      else cycleReason)"

section \<open>Audit payloads\<close>

definition startedPayload :: "task_cycle \<Rightarrow> payload" where
  "startedPayload c = PDoc (JObj (
     [(''cycle_id'', JStr (cycle_ID c)), (''attempt_seq'', JNum (cycle_AttemptSeq c)),
      (''triggered_by'', JStr (actor_str (cycle_TriggeredBy c)))] @
     (case cycle_ParentCycleID c of
        None \<Rightarrow> [] | Some p \<Rightarrow> if p \<noteq> [] then [(''parent_cycle_id'', JStr p)] else [])))"

definition terminatedPayload :: "task_cycle \<Rightarrow> string \<Rightarrow> string \<Rightarrow> payload" where
  "terminatedPayload c reason failureSummary = PDoc (JObj (
     [(''cycle_id'', JStr (cycle_ID c)), (''attempt_seq'', JNum (cycle_AttemptSeq c)),
      (''status'', JStr (cycle_status_str (cycle_Status c)))] @
     (if reason \<noteq> [] then [(''reason'', JStr reason)] else []) @
     (if trim_space failureSummary \<noteq> []
      then [(''failure_summary'', JStr (trim_space failureSummary))] else [])))"

definition maxPhaseEventDetailRunes :: int where
  "maxPhaseEventDetailRunes = 8192"

fun truncatePhaseEventDetailValue :: "json \<Rightarrow> int \<Rightarrow> json" where
  "truncatePhaseEventDetailValue (JStr s) mx = JStr (truncateStringRunes s mx)"
| "truncatePhaseEventDetailValue (JObj kvs) mx =
     JObj (map (\<lambda>kv. (fst kv, truncatePhaseEventDetailValue (snd kv) mx)) kvs)"
| "truncatePhaseEventDetailValue (JArr vs) mx =
     JArr (map (\<lambda>v. truncatePhaseEventDetailValue v mx) vs)"
| "truncatePhaseEventDetailValue v mx = v"

definition phaseDetailsForEventPayload :: "(string \<times> json) list \<Rightarrow> (string \<times> json) list" where
  "phaseDetailsForEventPayload obj =
     (if obj = [] then []
      else (case truncatePhaseEventDetailValue (JObj obj) maxPhaseEventDetailRunes of
              JObj m \<Rightarrow> m | _ \<Rightarrow> []))"

definition phaseStartedPayload :: "string \<Rightarrow> cycle_phase \<Rightarrow> payload" where
  "phaseStartedPayload cycleID p = PDoc (JObj (
     [(''cycle_id'', JStr cycleID), (''phase'', JStr (phase_str (ph_Phase p))),
      (''phase_seq'', JNum (ph_PhaseSeq p))] @
     (let i = RunCorrelationIDFromDetailsJSON (ph_DetailsJSON p) in
      if i \<noteq> [] then [(PhaseDetailsRunCorrelationID, JStr i)] else [])))"

definition phaseTerminatedPayload :: "string \<Rightarrow> cycle_phase \<Rightarrow> payload" where
  "phaseTerminatedPayload cycleID p = PDoc (JObj (
     [(''cycle_id'', JStr cycleID), (''phase'', JStr (phase_str (ph_Phase p))),
      (''phase_seq'', JNum (ph_PhaseSeq p)), (''status'', JStr (phase_status_str (ph_Status p)))] @
     (case ph_Summary p of
        None \<Rightarrow> [] | Some s \<Rightarrow> if s \<noteq> [] then [(''summary'', JStr s)] else []) @
     (let d = phaseDetailsForEventPayload (ph_DetailsJSON p) in
      if 0 < length d then [(''details'', JObj d)] else [])))"

fun mirrorEventTypeForCycleStatus :: "cycle_status \<Rightarrow> event_type" where
  "mirrorEventTypeForCycleStatus CycleStatusSucceeded = EventCycleCompleted"
| "mirrorEventTypeForCycleStatus _ = EventCycleFailed"

fun mirrorEventTypeForPhaseStatus :: "phase_status \<Rightarrow> event_type" where
  "mirrorEventTypeForPhaseStatus PhaseStatusSucceeded = EventPhaseCompleted"
| "mirrorEventTypeForPhaseStatus PhaseStatusFailed = EventPhaseFailed"
| "mirrorEventTypeForPhaseStatus PhaseStatusSkipped = EventPhaseSkipped"
| "mirrorEventTypeForPhaseStatus _ = EventPhaseFailed"

text \<open>A shallow merge: incoming keys win, but the existing correlation id is put back.\<close>

definition mergePhaseDetailsJSON ::
  "(string \<times> json) list \<Rightarrow> (string \<times> json) list \<Rightarrow> (string \<times> json) list" where
  "mergePhaseDetailsJSON existing incoming =
     (let preservedID = RunCorrelationIDFromDetailsJSON existing;
          base = foldl (\<lambda>b kv. AList.update (fst kv) (snd kv) b) existing incoming
      in if preservedID \<noteq> [] then AList.update PhaseDetailsRunCorrelationID (JStr preservedID) base
         else base)"

section \<open>Lookups\<close>

definition loadByID :: "db \<Rightarrow> string \<Rightarrow> task_cycle res" where
  "loadByID s cycleID =
     (case List.find (\<lambda>c. cycle_ID c = cycleID) (db_cycles s) of
        None \<Rightarrow> Inl ErrNotFound | Some c \<Rightarrow> Inr c)"

definition assertNoRunningCycleForTask :: "db \<Rightarrow> string \<Rightarrow> unit res" where
  "assertNoRunningCycleForTask s taskID =
     (if 0 < length (filter (\<lambda>c. cycle_TaskID c = taskID \<and> cycle_Status c = CycleStatusRunning) (db_cycles s))
      then Inl (ErrInvalidInput ''task already has a running cycle'') else Inr ())"

definition nextAttemptSeq :: "db \<Rightarrow> string \<Rightarrow> int" where
  "nextAttemptSeq s taskID =
     coalesce_max (map cycle_AttemptSeq (filter (\<lambda>c. cycle_TaskID c = taskID) (db_cycles s))) + 1"

definition cycle_phases :: "db \<Rightarrow> string \<Rightarrow> cycle_phase list" where
  "cycle_phases s cycleID = filter (\<lambda>p. ph_CycleID p = cycleID) (db_phases s)"

definition loadPhaseByCycleSeq :: "db \<Rightarrow> string \<Rightarrow> int \<Rightarrow> cycle_phase res" where
  "loadPhaseByCycleSeq s cycleID phaseSeq =
     (case List.find (\<lambda>p. ph_CycleID p = cycleID \<and> ph_PhaseSeq p = phaseSeq) (db_phases s) of
        None \<Rightarrow> Inl ErrNotFound | Some p \<Rightarrow> Inr p)"

definition assertNoRunningPhaseForCycle :: "db \<Rightarrow> string \<Rightarrow> unit res" where
  "assertNoRunningPhaseForCycle s cycleID =
     (if 0 < length (filter (\<lambda>p. ph_CycleID p = cycleID \<and> ph_Status p = PhaseStatusRunning) (db_phases s))
      then Inl (ErrInvalidInput ''cycle already has a running phase'') else Inr ())"

definition nextPhaseSeq :: "db \<Rightarrow> string \<Rightarrow> int" where
  "nextPhaseSeq s cycleID = coalesce_max (map ph_PhaseSeq (cycle_phases s cycleID)) + 1"

definition lastPhaseForCycle :: "db \<Rightarrow> string \<Rightarrow> cycle_phase option" where
  "lastPhaseForCycle s cycleID = arg_max_row ph_PhaseSeq (cycle_phases s cycleID)"

definition nextStreamSeq :: "db \<Rightarrow> string \<Rightarrow> int" where
  "nextStreamSeq s cycleID =
     coalesce_max (map se_StreamSeq (filter (\<lambda>e. se_CycleID e = cycleID) (db_streams s))) + 1"

section \<open>Operations\<close>

definition resolveParentCycle :: "db \<Rightarrow> string \<Rightarrow> string option \<Rightarrow> string option res" where
  "resolveParentCycle s taskID parent =
     (case parent of
        None \<Rightarrow> Inr None
      | Some p \<Rightarrow>
          let parentID = trim_space p in
          if parentID = [] then Inl (ErrInvalidInput ''parent_cycle_id'')
          else rbind (loadByID s parentID) (\<lambda>c.
            if cycle_TaskID c \<noteq> taskID
            then Inl (ErrInvalidInput ''parent_cycle_id does not belong to this task'')
            else Inr (Some (cycle_ID c))))"

definition Start :: "txenv \<Rightarrow> db \<Rightarrow> start_cycle_input \<Rightarrow> (db \<times> task_cycle) res" where
  "Start env s inp =
     rbind (ValidateActor (sci_TriggeredBy inp)) (\<lambda>_.
     let taskID = trim_space (sci_TaskID inp) in
     if taskID = [] then Inl (ErrInvalidInput ''task_id'')
     else
     rbind (NormalizeJSONObject (sci_Meta inp) ''meta'') (\<lambda>meta.
     rbind (LoadTask s taskID) (\<lambda>_.
     rbind (assertNoRunningCycleForTask s taskID) (\<lambda>_.
     rbind (resolveParentCycle s taskID (sci_ParentCycleID inp)) (\<lambda>parent.
     let row = \<lparr>cycle_ID = tx_uuid env, cycle_TaskID = taskID, cycle_AttemptSeq = nextAttemptSeq s taskID,
                cycle_Status = CycleStatusRunning, cycle_StartedAt = tx_now env, cycle_EndedAt = None,
                cycle_TriggeredBy = sci_TriggeredBy inp, cycle_ParentCycleID = parent,
                cycle_MetaJSON = meta\<rparr> in
     rbind (insert_cycle s row) (\<lambda>s1.
     rbind (NextEventSeq s1 taskID) (\<lambda>seq.
     rbind (AppendEvent (tx_evnow env) s1 taskID seq EventCycleStarted (sci_TriggeredBy inp) (startedPayload row)) (\<lambda>s2.
     Inr (s2, row)))))))))"

definition failedExecuteSummary :: "db \<Rightarrow> string \<Rightarrow> string \<Rightarrow> string" where
  "failedExecuteSummary s cycleID reason =
     (case arg_max_row ph_PhaseSeq
             (filter (\<lambda>p. ph_Phase p = PhaseExecute \<and> ph_Status p = PhaseStatusFailed) (cycle_phases s cycleID)) of
        None \<Rightarrow> []
      | Some p \<Rightarrow> FailureSurfaceMessage True reason
                   (case ph_Summary p of None \<Rightarrow> [] | Some t \<Rightarrow> t) (ph_DetailsJSON p))"

definition Terminate ::
  "txenv \<Rightarrow> db \<Rightarrow> string \<Rightarrow> cycle_status \<Rightarrow> string \<Rightarrow> actor \<Rightarrow> (db \<times> task_cycle) res" where
  "Terminate env s cycleID0 status reason0 by =
     rbind (ValidateActor by) (\<lambda>_.
     let cycleID = trim_space cycleID0 in
     if cycleID = [] then Inl (ErrInvalidInput ''cycle_id'')
     else if \<not> ValidTerminalCycleStatus status
     then Inl (ErrInvalidInput ''status must be a terminal cycle status'')
     else let reason = trim_space reason0 in
     rbind (loadByID s cycleID) (\<lambda>cycle.
     if TerminalCycleStatus (cycle_Status cycle) then Inl (ErrInvalidInput ''cycle already terminal'')
     else
     rbind (assertNoRunningPhaseForCycle s (cycle_ID cycle)) (\<lambda>_.
     let s1 = s\<lparr>db_cycles := update_where (\<lambda>c. cycle_ID c = cycle_ID cycle)
                  (\<lambda>c. c\<lparr>cycle_Status := status, cycle_EndedAt := Some (tx_now env)\<rparr>) (db_cycles s)\<rparr>;
         cycle' = cycle\<lparr>cycle_Status := status, cycle_EndedAt := Some (tx_now env)\<rparr>;
         failureSummary = (if mirrorEventTypeForCycleStatus status = EventCycleFailed
                           then failedExecuteSummary s1 (cycle_ID cycle) reason else []) in
     rbind (NextEventSeq s1 (cycle_TaskID cycle)) (\<lambda>seq.
     rbind (AppendEvent (tx_evnow env) s1 (cycle_TaskID cycle) seq (mirrorEventTypeForCycleStatus status) by
              (terminatedPayload cycle' reason failureSummary)) (\<lambda>s2.
     Inr (s2, cycle'))))))"

definition set_event_seq :: "string \<Rightarrow> int \<Rightarrow> db \<Rightarrow> db" where
  "set_event_seq phID evSeq s =
     s\<lparr>db_phases := update_where (\<lambda>p. ph_ID p = phID) (\<lambda>p. p\<lparr>ph_EventSeq := Some evSeq\<rparr>) (db_phases s)\<rparr>"

definition phase_allowed :: "cycle_phase option \<Rightarrow> phase \<Rightarrow> bool" where
  "phase_allowed lst ph \<longleftrightarrow>
     ValidPhaseTransition (case lst of None \<Rightarrow> PhaseNone | Some p \<Rightarrow> ph_Phase p) ph \<or>
     ValidInterruptResumeTransition lst ph \<or> ValidVerifyOnlyRetryTransition lst ph"

definition new_phase_row :: "txenv \<Rightarrow> db \<Rightarrow> string \<Rightarrow> phase \<Rightarrow> cycle_phase" where
  "new_phase_row env s cycleID phase =
     \<lparr>ph_ID = tx_uuid env, ph_CycleID = cycleID, ph_Phase = phase,
      ph_PhaseSeq = nextPhaseSeq s cycleID, ph_Status = PhaseStatusRunning,
      ph_StartedAt = tx_now env, ph_EndedAt = None, ph_Summary = None,
      ph_DetailsJSON = [(PhaseDetailsRunCorrelationID, JStr (tx_uuid2 env))],
      ph_EventSeq = None\<rparr>"

definition StartPhase :: "txenv \<Rightarrow> db \<Rightarrow> string \<Rightarrow> phase \<Rightarrow> actor \<Rightarrow> (db \<times> cycle_phase) res" where
  "StartPhase env s cycleID0 phase by =
     rbind (ValidateActor by) (\<lambda>_.
     let cycleID = trim_space cycleID0 in
     if cycleID = [] then Inl (ErrInvalidInput ''cycle_id'')
     else if \<not> ValidPhase phase then Inl (ErrInvalidInput ''phase'')
     else
     rbind (loadByID s cycleID) (\<lambda>cycle.
     if TerminalCycleStatus (cycle_Status cycle) then Inl (ErrInvalidInput ''cycle is terminal'')
     else
     rbind (assertNoRunningPhaseForCycle s (cycle_ID cycle)) (\<lambda>_.
     if \<not> phase_allowed (lastPhaseForCycle s (cycle_ID cycle)) phase
     then Inl (ErrInvalidInput ''phase transition not allowed'')
     else
     let row = new_phase_row env s (cycle_ID cycle) phase in
     rbind (insert_phase s row) (\<lambda>s1.
     rbind (NextEventSeq s1 (cycle_TaskID cycle)) (\<lambda>evSeq.
     rbind (AppendEvent (tx_evnow env) s1 (cycle_TaskID cycle) evSeq EventPhaseStarted by
              (phaseStartedPayload (cycle_ID cycle) row)) (\<lambda>s2.
     Inr (set_event_seq (ph_ID row) evSeq s2, row\<lparr>ph_EventSeq := Some evSeq\<rparr>)))))))"

definition CompletePhase :: "txenv \<Rightarrow> db \<Rightarrow> complete_phase_input \<Rightarrow> (db \<times> cycle_phase) res" where
  "CompletePhase env s inp =
     rbind (ValidateActor (cpi_By inp)) (\<lambda>_.
     let cycleID = trim_space (cpi_CycleID inp) in
     if cycleID = [] then Inl (ErrInvalidInput ''cycle_id'')
     else if cpi_PhaseSeq inp \<le> 0 then Inl (ErrInvalidInput ''phase_seq'')
     else if \<not> ValidTerminalPhaseStatus (cpi_Status inp)
     then Inl (ErrInvalidInput ''status must be a terminal phase status'')
     else
     rbind (NormalizeJSONObject (cpi_Details inp) ''details'') (\<lambda>details.
     rbind (loadByID s cycleID) (\<lambda>cycle.
     rbind (loadPhaseByCycleSeq s cycleID (cpi_PhaseSeq inp)) (\<lambda>ph.
     if TerminalPhaseStatus (ph_Status ph) then Inl (ErrInvalidInput ''phase already terminal'')
     else
     let merged = mergePhaseDetailsJSON (ph_DetailsJSON ph) details;
         upd = (\<lambda>p. p\<lparr>ph_Status := cpi_Status inp, ph_EndedAt := Some (tx_now env),
                      ph_DetailsJSON := merged,
                      ph_Summary := (case cpi_Summary inp of None \<Rightarrow> ph_Summary p | Some t \<Rightarrow> Some t)\<rparr>);
         s1 = s\<lparr>db_phases := update_where (\<lambda>p. ph_ID p = ph_ID ph) upd (db_phases s)\<rparr>;
         ph' = upd ph in
     rbind (NextEventSeq s1 (cycle_TaskID cycle)) (\<lambda>evSeq.
     rbind (AppendEvent (tx_evnow env) s1 (cycle_TaskID cycle) evSeq
              (mirrorEventTypeForPhaseStatus (cpi_Status inp)) (cpi_By inp)
              (phaseTerminatedPayload (cycle_ID cycle) ph')) (\<lambda>s2.
     Inr (set_event_seq (ph_ID ph) evSeq s2, ph'\<lparr>ph_EventSeq := Some evSeq\<rparr>)))))))"

definition AppendStreamEvent :: "txenv \<Rightarrow> db \<Rightarrow> append_stream_input \<Rightarrow> (db \<times> stream_event) res" where
  "AppendStreamEvent env s inp =
     (let taskID = trim_space (asi_TaskID inp); cycleID = trim_space (asi_CycleID inp);
          source = trim_space (asi_Source inp); kind = trim_space (asi_Kind inp) in
      if taskID = [] \<or> cycleID = [] \<or> asi_PhaseSeq inp \<le> 0 \<or> source = [] \<or> kind = []
      then Inl (ErrInvalidInput ''stream event'')
      else
      rbind (NormalizeJSONObject (asi_Payload inp) ''payload'') (\<lambda>payload.
      rbind (loadByID s cycleID) (\<lambda>cycle.
      if cycle_TaskID cycle \<noteq> taskID then Inl ErrNotFound
      else
      rbind (loadPhaseByCycleSeq s cycleID (asi_PhaseSeq inp)) (\<lambda>_.
      let row = \<lparr>se_ID = tx_uuid env, se_TaskID = taskID, se_CycleID = cycleID,
                 se_PhaseSeq = asi_PhaseSeq inp, se_StreamSeq = nextStreamSeq s cycleID,
                 se_At = (case asi_At inp of None \<Rightarrow> tx_now env | Some t \<Rightarrow> t),
                 se_Source = source, se_Kind = kind, se_Subtype = trim_space (asi_Subtype inp),
                 se_Message = trim_space (asi_Message inp), se_Tool = trim_space (asi_Tool inp),
                 se_PayloadJSON = payload\<rparr> in
      rbind (insert_stream s row) (\<lambda>s1. Inr (s1, row))))))"

section \<open>Queries\<close>

text \<open>\<^verbatim>\<open>ORDER BY a ASC, b ASC\<close> is the stable sort by \<open>b\<close> followed by the stable sort by \<open>a\<close>;
  \<^verbatim>\<open>LIMIT\<close> takes a prefix.\<close>

definition Cycle_Get :: "db \<Rightarrow> string \<Rightarrow> task_cycle res" where
  "Cycle_Get s cycleID0 =
     (let cycleID = trim_space cycleID0 in
      if cycleID = [] then Inl (ErrInvalidInput ''cycle_id'') else loadByID s cycleID)"

definition ListForTaskBefore :: "db \<Rightarrow> string \<Rightarrow> int \<Rightarrow> int \<Rightarrow> task_cycle list res" where
  "ListForTaskBefore s taskID0 beforeAttemptSeq limit0 =
     (let taskID = trim_space taskID0 in
      if taskID = [] then Inl (ErrInvalidInput ''task_id'')
      else
      let limit1 = (if limit0 \<le> 0 then 50 else limit0);
          limit = (if 200 < limit1 then 200 else limit1) in
      rbind (LoadTask s taskID) (\<lambda>_.
      let q = filter (\<lambda>c. cycle_TaskID c = taskID) (db_cycles s);
          q' = (if 0 < beforeAttemptSeq then filter (\<lambda>c. cycle_AttemptSeq c < beforeAttemptSeq) q else q) in
      Inr (take (nat limit) (sort_key (\<lambda>c. - cycle_AttemptSeq c) q'))))"

definition ListForTask :: "db \<Rightarrow> string \<Rightarrow> int \<Rightarrow> task_cycle list res" where
  "ListForTask s taskID limit = ListForTaskBefore s taskID 0 limit"

definition ListPhasesForCycle :: "db \<Rightarrow> string \<Rightarrow> cycle_phase list res" where
  "ListPhasesForCycle s cycleID0 =
     (let cycleID = trim_space cycleID0 in
      if cycleID = [] then Inl (ErrInvalidInput ''cycle_id'')
      else rbind (loadByID s cycleID) (\<lambda>_. Inr (sort_key ph_PhaseSeq (cycle_phases s cycleID))))"

text \<open>The backwards scan of \<^verbatim>\<open>LastSessionID\<close>, over the reversed list.\<close>

fun lastSessionID_scan :: "phase \<Rightarrow> cycle_phase list \<Rightarrow> string" where
  "lastSessionID_scan ph [] = []"
| "lastSessionID_scan ph (p # ps) =
     (if ph_Phase p \<noteq> ph then lastSessionID_scan ph ps
      else if \<not> TerminalPhaseStatus (ph_Status p) then lastSessionID_scan ph ps
      else if SessionIDFromDetailsJSON (ph_DetailsJSON p) \<noteq> [] then SessionIDFromDetailsJSON (ph_DetailsJSON p)
      else lastSessionID_scan ph ps)"

definition LastSessionID :: "db \<Rightarrow> string \<Rightarrow> phase \<Rightarrow> string res" where
  "LastSessionID s cycleID ph =
     rbind (ListPhasesForCycle s cycleID) (\<lambda>phases. Inr (lastSessionID_scan ph (rev phases)))"

definition ListStreamEvents :: "db \<Rightarrow> string \<Rightarrow> int \<Rightarrow> int \<Rightarrow> stream_event list res" where
  "ListStreamEvents s cycleID0 afterSeq limit0 =
     (let cycleID = trim_space cycleID0 in
      if cycleID = [] then Inl (ErrInvalidInput ''cycle_id'')
      else
      let limit1 = (if limit0 \<le> 0 then 100 else limit0);
          limit = (if 500 < limit1 then 500 else limit1) in
      rbind (loadByID s cycleID) (\<lambda>_.
      let q = filter (\<lambda>e. se_CycleID e = cycleID) (db_streams s);
          q' = (if 0 < afterSeq then filter (\<lambda>e. afterSeq < se_StreamSeq e) q else q) in
      Inr (take (nat limit) (sort_key se_StreamSeq q'))))"

definition ListRunning :: "db \<Rightarrow> task_cycle list" where
  "ListRunning s =
     sort_key cycle_StartedAt (sort_key cycle_ID (filter (\<lambda>c. cycle_Status c = CycleStatusRunning) (db_cycles s)))"

definition ListRunningPhases :: "db \<Rightarrow> cycle_phase list" where
  "ListRunningPhases s =
     sort_key ph_StartedAt (sort_key ph_ID (filter (\<lambda>p. ph_Status p = PhaseStatusRunning) (db_phases s)))"

end
