(* ===== verification/Cycle_Invariants.thy ===== *)
theory Cycle_Invariants
  imports Store_Cycles
begin

text \<open>
  The invariant of the cycle tables and its preservation. \<open>cycles_ok\<close> says: identifiers are unique,
  attempts, phases, audit events and stream events are numbered 1, 2, 3, ... within their group, a
  task has at most one running cycle, the phases of a cycle form a path of the phase state machine in
  which only the last may be running, and a running phase belongs to a running cycle.
\<close>

section \<open>The invariant\<close>

definition cycle_status_ok :: "task_cycle \<Rightarrow> bool" where
  "cycle_status_ok c \<longleftrightarrow> cycle_Status c = CycleStatusRunning \<or> TerminalCycleStatus (cycle_Status c)"

definition phase_status_ok :: "cycle_phase \<Rightarrow> bool" where
  "phase_status_ok p \<longleftrightarrow> ph_Status p = PhaseStatusRunning \<or> TerminalPhaseStatus (ph_Status p)"

text \<open>The phases of one cycle in order, read from a predecessor: each may follow the one before it,
  which has finished.\<close>

fun phase_path :: "cycle_phase option \<Rightarrow> cycle_phase list \<Rightarrow> bool" where
  "phase_path prev [] = True"
| "phase_path prev (p # ps) =
     ((case prev of None \<Rightarrow> True | Some q \<Rightarrow> TerminalPhaseStatus (ph_Status q)) \<and>
      phase_allowed prev (ph_Phase p) \<and> phase_path (Some p) ps)"

definition cycles_ok :: "db \<Rightarrow> bool" where
  "cycles_ok s \<longleftrightarrow>
     distinct (map cycle_ID (db_cycles s)) \<and> distinct (map ph_ID (db_phases s)) \<and>
     numbered_by cycle_TaskID cycle_AttemptSeq (db_cycles s) \<and>
     numbered_by ph_CycleID ph_PhaseSeq (db_phases s) \<and>
     numbered_by ev_TaskID ev_Seq (db_events s) \<and>
     numbered_by se_CycleID se_StreamSeq (db_streams s) \<and>
     (\<forall>c\<in>set (db_cycles s). cycle_status_ok c) \<and>
     (\<forall>p\<in>set (db_phases s). phase_status_ok p) \<and>
     (\<forall>t. length (filter (\<lambda>c. cycle_TaskID c = t \<and> cycle_Status c = CycleStatusRunning) (db_cycles s)) \<le> 1) \<and>
     (\<forall>i. phase_path None (cycle_phases s i)) \<and>
     (\<forall>p\<in>set (db_phases s). ph_Status p = PhaseStatusRunning \<longrightarrow>
        (\<exists>c\<in>set (db_cycles s). cycle_ID c = ph_CycleID p \<and> cycle_Status c = CycleStatusRunning))"

named_theorems inv_intro \<open>introduction of table invariants\<close>

lemma cycles_okI:
  assumes "distinct (map cycle_ID (db_cycles s))" "distinct (map ph_ID (db_phases s))"
    "numbered_by cycle_TaskID cycle_AttemptSeq (db_cycles s)"
    "numbered_by ph_CycleID ph_PhaseSeq (db_phases s)"
    "numbered_by ev_TaskID ev_Seq (db_events s)"
    "numbered_by se_CycleID se_StreamSeq (db_streams s)"
    "\<And>c. c \<in> set (db_cycles s) \<Longrightarrow> cycle_status_ok c"
    "\<And>p. p \<in> set (db_phases s) \<Longrightarrow> phase_status_ok p"
    "\<And>t. length (filter (\<lambda>c. cycle_TaskID c = t \<and> cycle_Status c = CycleStatusRunning) (db_cycles s)) \<le> 1"
    "\<And>i. phase_path None (cycle_phases s i)"
    "\<And>p. p \<in> set (db_phases s) \<Longrightarrow> ph_Status p = PhaseStatusRunning \<Longrightarrow>
        \<exists>c\<in>set (db_cycles s). cycle_ID c = ph_CycleID p \<and> cycle_Status c = CycleStatusRunning"
  shows "cycles_ok s"
  using assms unfolding cycles_ok_def by blast

lemma cycles_okD:
  assumes "cycles_ok s"
  shows "distinct (map cycle_ID (db_cycles s))" "distinct (map ph_ID (db_phases s))"
    "numbered_by cycle_TaskID cycle_AttemptSeq (db_cycles s)"
    "numbered_by ph_CycleID ph_PhaseSeq (db_phases s)"
    "numbered_by ev_TaskID ev_Seq (db_events s)"
    "numbered_by se_CycleID se_StreamSeq (db_streams s)"
    "c \<in> set (db_cycles s) \<Longrightarrow> cycle_status_ok c"
    "p \<in> set (db_phases s) \<Longrightarrow> phase_status_ok p"
    "length (filter (\<lambda>c. cycle_TaskID c = t \<and> cycle_Status c = CycleStatusRunning) (db_cycles s)) \<le> 1"
    "phase_path None (cycle_phases s i)"
    "p \<in> set (db_phases s) \<Longrightarrow> ph_Status p = PhaseStatusRunning \<Longrightarrow>
        \<exists>c\<in>set (db_cycles s). cycle_ID c = ph_CycleID p \<and> cycle_Status c = CycleStatusRunning"
  using assms unfolding cycles_ok_def by blast+

lemma empty_db_cycles_ok: "cycles_ok empty_db"
  by (rule cycles_okI) (auto simp: empty_db_def cycle_phases_def)

text \<open>Only the cycle, phase, event and stream tables matter.\<close>

lemma cycles_ok_cong:
  assumes "db_cycles s' = db_cycles s" "db_phases s' = db_phases s" "db_events s' = db_events s"
    "db_streams s' = db_streams s"
  shows "cycles_ok s' = cycles_ok s"
  using assms by (simp add: cycles_ok_def cycle_phases_def)

section \<open>Inserts and lookups\<close>

lemma insert_cycleD:
  assumes "insert_cycle s c = Inr s'"
  shows "s' = s\<lparr>db_cycles := db_cycles s @ [c]\<rparr>" "cycle_ID c \<notin> cycle_ID ` set (db_cycles s)"
  using assms by (auto simp: insert_cycle_def split: if_splits)

lemma insert_phaseD:
  assumes "insert_phase s p = Inr s'"
  shows "s' = s\<lparr>db_phases := db_phases s @ [p]\<rparr>" "ph_ID p \<notin> ph_ID ` set (db_phases s)"
  using assms by (auto simp: insert_phase_def split: if_splits)

lemma insert_streamD:
  "insert_stream s e = Inr s' \<Longrightarrow> s' = s\<lparr>db_streams := db_streams s @ [e]\<rparr>"
  by (auto simp: insert_stream_def split: if_splits)

lemma loadByIDD:
  assumes "loadByID s i = Inr c"
  shows "c \<in> set (db_cycles s)" "cycle_ID c = i"
  using assms by (auto simp: loadByID_def find_Some_iff split: option.splits)

lemma loadPhaseByCycleSeqD:
  assumes "loadPhaseByCycleSeq s i n = Inr p"
  shows "p \<in> set (db_phases s)" "ph_CycleID p = i" "ph_PhaseSeq p = n"
  using assms by (auto simp: loadPhaseByCycleSeq_def find_Some_iff split: option.splits)

lemma assertNoRunningCycleForTaskD:
  "assertNoRunningCycleForTask s t = Inr u \<Longrightarrow>
   filter (\<lambda>c. cycle_TaskID c = t \<and> cycle_Status c = CycleStatusRunning) (db_cycles s) = []"
  by (auto simp: assertNoRunningCycleForTask_def split: if_splits)

lemma assertNoRunningPhaseForCycleD:
  assumes "assertNoRunningPhaseForCycle s i = Inr u"
  shows "\<forall>p\<in>set (db_phases s). ph_CycleID p = i \<longrightarrow> ph_Status p \<noteq> PhaseStatusRunning"
  using assms by (auto simp: assertNoRunningPhaseForCycle_def filter_empty_conv split: if_splits)

text \<open>The appended audit row: the next number of its task, nothing else changed.\<close>

lemma AppendEventD:
  assumes "NextEventSeq s t = Inr n" "AppendEvent now s t n typ by data = Inr s'"
  obtains e where "s' = s\<lparr>db_events := db_events s @ [e]\<rparr>" "ev_TaskID e = t" "ev_Type e = typ"
    "ev_By e = by" "ev_At e = now" "ev_Seq e = coalesce_max (map ev_Seq (filter (\<lambda>e. ev_TaskID e = t) (db_events s))) + 1"
    "n = ev_Seq e" "NormalizeJSONObject data ''data'' = Inr (ev_Data e)"
    "insert_event s e = Inr s'" "t \<in> task_ID ` set (db_tasks s)"
proof -
  from assms obtain obj where obj: "NormalizeJSONObject data ''data'' = Inr obj"
    and i: "insert_event s \<lparr>ev_TaskID = t, ev_Seq = n, ev_At = now, ev_Type = typ, ev_By = by, ev_Data = obj,
      ev_UserResponse = None, ev_UserResponseAt = None, ev_ResponseThread = None\<rparr> = Inr s'" (is "insert_event s ?e = _")
    by (auto simp: AppendEvent_def split: sum.splits)
  from assms(1) have n: "n = coalesce_max (map ev_Seq (filter (\<lambda>e. ev_TaskID e = t) (db_events s))) + 1"
    "t \<in> task_ID ` set (db_tasks s)" by (auto simp: NextEventSeq_def split: if_splits)
  show thesis
    by (rule that[of ?e]) (use i n obj in \<open>auto simp: insert_event_def split: if_splits\<close>)
qed

section \<open>Preservation by table updates\<close>

lemma cycles_ok_append_event:
  assumes "cycles_ok s" "NextEventSeq s t = Inr n" "AppendEvent now s t n typ by data = Inr s'"
  shows "cycles_ok s'"
proof -
  from assms(2,3) obtain e where e: "s' = s\<lparr>db_events := db_events s @ [e]\<rparr>" "ev_TaskID e = t"
    "ev_Seq e = coalesce_max (map ev_Seq (filter (\<lambda>e. ev_TaskID e = t) (db_events s))) + 1"
    "insert_event s e = Inr s'"
    by (rule AppendEventD)
  have "numbered_by ev_TaskID ev_Seq (db_events s')"
    using event_tbl.ins_numbered[of s e s'] cycles_okD(5)[OF assms(1)] e by simp
  then show ?thesis using assms(1) e(1) by (simp add: cycles_ok_def cycle_phases_def)
qed

lemma filter_at_most_one_append:
  "filter P xs = [] \<Longrightarrow> length (filter P (xs @ [x])) \<le> 1"
  by simp

lemma cycles_ok_insert_cycle:
  assumes ok: "cycles_ok s" and i: "insert_cycle s c = Inr s'"
    and n: "cycle_AttemptSeq c = nextAttemptSeq s (cycle_TaskID c)"
    and r: "cycle_Status c = CycleStatusRunning"
    and none: "filter (\<lambda>d. cycle_TaskID d = cycle_TaskID c \<and> cycle_Status d = CycleStatusRunning) (db_cycles s) = []"
  shows "cycles_ok s'"
proof (rule cycles_okI)
  note d = insert_cycleD[OF i]
  show "distinct (map cycle_ID (db_cycles s'))" using cycles_okD(1)[OF ok] d by auto
  show "numbered_by cycle_TaskID cycle_AttemptSeq (db_cycles s')"
    using cycle_tbl.ins_numbered[OF cycles_okD(3)[OF ok] _ i] n by (simp add: nextAttemptSeq_def)
  show "cycle_status_ok x" if "x \<in> set (db_cycles s')" for x
    using that cycles_okD(7)[OF ok] d r by (auto simp: cycle_status_ok_def)
  show "length (filter (\<lambda>d. cycle_TaskID d = t \<and> cycle_Status d = CycleStatusRunning) (db_cycles s')) \<le> 1" for t
    using cycles_okD(9)[OF ok, of t] none d by (cases "cycle_TaskID c = t") auto
  show "\<exists>x\<in>set (db_cycles s'). cycle_ID x = ph_CycleID p \<and> cycle_Status x = CycleStatusRunning"
    if "p \<in> set (db_phases s')" "ph_Status p = PhaseStatusRunning" for p
    using cycles_okD(11)[OF ok, of p] that d by auto
qed (use cycles_okD[OF ok] insert_cycleD[OF i] in \<open>auto simp: cycle_phases_def\<close>)

section \<open>Phase paths\<close>

lemma phase_path_snoc:
  "phase_path prev (ps @ [p]) \<longleftrightarrow>
     phase_path prev ps \<and>
     (case (if ps = [] then prev else Some (last ps)) of None \<Rightarrow> True | Some q \<Rightarrow> TerminalPhaseStatus (ph_Status q)) \<and>
     phase_allowed (if ps = [] then prev else Some (last ps)) (ph_Phase p)"
  by (induction ps arbitrary: prev) auto

text \<open>Only the last phase of a path can still be running.\<close>

lemma phase_path_running_last:
  "phase_path prev ps \<Longrightarrow> p \<in> set ps \<Longrightarrow> \<not> TerminalPhaseStatus (ph_Status p) \<Longrightarrow> \<exists>qs. ps = qs @ [p]"
proof (induction ps arbitrary: prev)
  case Nil
  then show ?case by simp
next
  case (Cons x xs)
  show ?case
  proof (cases xs)
    case Nil
    then show ?thesis using Cons.prems by auto
  next
    case (Cons y ys)
    then have "p \<in> set xs" using Cons.prems by auto
    then obtain qs where "xs = qs @ [p]" using Cons.IH Cons.prems by auto
    then show ?thesis by (intro exI[of _ "x # qs"]) simp
  qed
qed

lemma phase_path_upd_last:
  "phase_path prev (qs @ [p]) \<Longrightarrow> ph_Phase p' = ph_Phase p \<Longrightarrow> phase_path prev (qs @ [p'])"
  by (simp add: phase_path_snoc)

text \<open>Columns the state machine does not read may change anywhere.\<close>

lemma phase_allowed_cong:
  "ph_Phase q' = ph_Phase q \<Longrightarrow> ph_Status q' = ph_Status q \<Longrightarrow> ph_Summary q' = ph_Summary q \<Longrightarrow>
   phase_allowed (Some q') x = phase_allowed (Some q) x"
  by (simp add: phase_allowed_def ValidInterruptResumeTransition_def ValidVerifyOnlyRetryTransition_def)

lemma phase_path_update_where:
  assumes "\<And>p. ph_Phase (f p) = ph_Phase p" "\<And>p. ph_Status (f p) = ph_Status p" "\<And>p. ph_Summary (f p) = ph_Summary p"
  shows "phase_path None (update_where P f ps) = phase_path None ps"
proof -
  have "phase_path (map_option g prev) (map g ps) = phase_path prev ps" if
    "\<And>p. ph_Phase (g p) = ph_Phase p" "\<And>p. ph_Status (g p) = ph_Status p" "\<And>p. ph_Summary (g p) = ph_Summary p" for g prev
  proof (induction ps arbitrary: prev)
    case Nil
    show ?case by simp
  next
    case (Cons x xs)
    have "phase_path (Some (g x)) (map g xs) = phase_path (Some x) xs" using Cons.IH[of "Some x"] by (simp only: option.map)
    moreover have "phase_allowed (Some (g q)) y = phase_allowed (Some q) y" for q y
      by (rule phase_allowed_cong) (simp_all only: that)
    ultimately show ?case by (cases prev) (simp_all add: that)
  qed
  then have "phase_path (map_option (\<lambda>r. if P r then f r else r) None) (map (\<lambda>r. if P r then f r else r) ps) = phase_path None ps"
    using assms by presburger
  then show ?thesis by (simp only: update_where_def option.map)
qed

lemma lastPhaseForCycle_eq:
  assumes "cycles_ok s"
  shows "lastPhaseForCycle s i = (if cycle_phases s i = [] then None else Some (last (cycle_phases s i)))"
proof (cases "cycle_phases s i = []")
  case True
  then show ?thesis by (simp add: lastPhaseForCycle_def)
next
  case False
  have "numbered (map ph_PhaseSeq (cycle_phases s i))"
    using cycles_okD(4)[OF assms] by (simp add: numbered_by_def cycle_phases_def)
  with False show ?thesis by (simp add: lastPhaseForCycle_def arg_max_row_numbered)
qed

section \<open>Preservation: phases\<close>

lemma cycles_ok_insert_phase:
  assumes ok: "cycles_ok s" and i: "insert_phase s p = Inr s'"
    and c: "c \<in> set (db_cycles s)" "cycle_ID c = ph_CycleID p" "\<not> TerminalCycleStatus (cycle_Status c)"
    and norun: "\<forall>q\<in>set (db_phases s). ph_CycleID q = ph_CycleID p \<longrightarrow> ph_Status q \<noteq> PhaseStatusRunning"
    and seq: "ph_PhaseSeq p = nextPhaseSeq s (ph_CycleID p)"
    and allow: "phase_allowed (lastPhaseForCycle s (ph_CycleID p)) (ph_Phase p)"
    and run: "ph_Status p = PhaseStatusRunning"
  shows "cycles_ok s'"
proof (rule cycles_okI)
  note d = insert_phaseD[OF i]
  show "distinct (map ph_ID (db_phases s'))" using cycles_okD(2)[OF ok] d by auto
  show "numbered_by ph_CycleID ph_PhaseSeq (db_phases s')"
    using phase_tbl.ins_numbered[OF cycles_okD(4)[OF ok] _ i] seq by (simp add: nextPhaseSeq_def cycle_phases_def)
  show "phase_status_ok q" if "q \<in> set (db_phases s')" for q
    using that cycles_okD(8)[OF ok] d run by (auto simp: phase_status_ok_def)
  show "phase_path None (cycle_phases s' j)" for j
  proof (cases "j = ph_CycleID p")
    case False
    then show ?thesis using cycles_okD(10)[OF ok, of j] d by (simp add: cycle_phases_def)
  next
    case True
    have fin: "TerminalPhaseStatus (ph_Status (last (cycle_phases s j)))" if "cycle_phases s j \<noteq> []"
    proof -
      have "last (cycle_phases s j) \<in> set (cycle_phases s j)" using that by simp
      then show ?thesis
        using norun cycles_okD(8)[OF ok, of "last (cycle_phases s j)"] True
        by (auto simp: cycle_phases_def phase_status_ok_def)
    qed
    have "cycle_phases s' j = cycle_phases s j @ [p]" using True d by (simp add: cycle_phases_def)
    then show ?thesis
      using cycles_okD(10)[OF ok, of j] allow fin True
      by (auto simp: phase_path_snoc lastPhaseForCycle_eq[OF ok] split: if_splits)
  qed
  show "\<exists>x\<in>set (db_cycles s'). cycle_ID x = ph_CycleID q \<and> cycle_Status x = CycleStatusRunning"
    if "q \<in> set (db_phases s')" "ph_Status q = PhaseStatusRunning" for q
  proof -
    have "cycle_Status c = CycleStatusRunning"
      using cycles_okD(7)[OF ok c(1)] c(3) by (auto simp: cycle_status_ok_def)
    with that show ?thesis using cycles_okD(11)[OF ok, of q] d c by auto
  qed
qed (use cycles_okD[OF ok] insert_phaseD[OF i] in auto)

lemma cycles_ok_set_event_seq:
  assumes ok: "cycles_ok s"
  shows "cycles_ok (set_event_seq i n s)"
proof (rule cycles_okI)
  let ?f = "\<lambda>p. p\<lparr>ph_EventSeq := Some n\<rparr>" and ?P = "\<lambda>p. ph_ID p = i"
  have ph: "db_phases (set_event_seq i n s) = update_where ?P ?f (db_phases s)" by (simp add: set_event_seq_def)
  show "distinct (map ph_ID (db_phases (set_event_seq i n s)))" using cycles_okD(2)[OF ok] by (simp add: ph)
  show "numbered_by ph_CycleID ph_PhaseSeq (db_phases (set_event_seq i n s))"
    unfolding ph by (rule numbered_by_update_where[OF cycles_okD(4)[OF ok]]) auto
  show "phase_status_ok p" if "p \<in> set (db_phases (set_event_seq i n s))" for p
    using that cycles_okD(8)[OF ok] by (fastforce simp: ph set_update_where phase_status_ok_def)
  show "phase_path None (cycle_phases (set_event_seq i n s) j)" for j
    using cycles_okD(10)[OF ok, of j]
    by (simp add: cycle_phases_def ph filter_update_where_same phase_path_update_where)
  show "\<exists>c\<in>set (db_cycles (set_event_seq i n s)). cycle_ID c = ph_CycleID p \<and> cycle_Status c = CycleStatusRunning"
    if "p \<in> set (db_phases (set_event_seq i n s))" "ph_Status p = PhaseStatusRunning" for p
    using that cycles_okD(11)[OF ok] by (auto simp: ph set_update_where) (auto simp: set_event_seq_def)
qed (use cycles_okD[OF ok] in \<open>auto simp: set_event_seq_def\<close>)

lemma update_where_last:
  assumes "distinct (map k (qs @ [p]))"
  shows "update_where (\<lambda>x. k x = k p) f (qs @ [p]) = qs @ [f p]"
proof -
  have "k p \<notin> k ` set qs" using assms by simp
  then have "update_where (\<lambda>x. k x = k p) f qs = qs" by (intro update_where_none) (metis imageI)
  then show ?thesis by (simp add: update_where_def)
qed

lemma cycles_ok_complete_phase:
  assumes ok: "cycles_ok s" and p: "p \<in> set (db_phases s)" and run: "\<not> TerminalPhaseStatus (ph_Status p)"
    and f: "\<And>x. ph_ID (f x) = ph_ID x" "\<And>x. ph_CycleID (f x) = ph_CycleID x" "\<And>x. ph_PhaseSeq (f x) = ph_PhaseSeq x"
      "\<And>x. ph_Phase (f x) = ph_Phase x" "\<And>x. TerminalPhaseStatus (ph_Status (f x))"
  shows "cycles_ok (s\<lparr>db_phases := update_where (\<lambda>x. ph_ID x = ph_ID p) f (db_phases s)\<rparr>)" (is "cycles_ok ?s")
proof (rule cycles_okI)
  let ?P = "\<lambda>x. ph_ID x = ph_ID p"
  show "distinct (map ph_ID (db_phases ?s))" using cycles_okD(2)[OF ok] f by simp
  show "numbered_by ph_CycleID ph_PhaseSeq (db_phases ?s)"
    using numbered_by_update_where[OF cycles_okD(4)[OF ok]] f by simp
  show "phase_status_ok x" if "x \<in> set (db_phases ?s)" for x
    using that cycles_okD(8)[OF ok] f(5) by (auto simp: set_update_where phase_status_ok_def)
  show "phase_path None (cycle_phases ?s j)" for j
  proof -
    have eq: "cycle_phases ?s j = update_where ?P f (cycle_phases s j)"
      by (simp add: cycle_phases_def filter_update_where_same f)
    show ?thesis
    proof (cases "j = ph_CycleID p")
      case True
      then have "p \<in> set (cycle_phases s j)" using p by (simp add: cycle_phases_def)
      then obtain qs where qs: "cycle_phases s j = qs @ [p]"
        using phase_path_running_last[OF cycles_okD(10)[OF ok]] run by blast
      have "distinct (map ph_ID (cycle_phases s j))"
        using cycles_okD(2)[OF ok] by (auto simp: cycle_phases_def distinct_map intro: inj_on_subset)
      then have "cycle_phases ?s j = qs @ [f p]" unfolding eq qs by (rule update_where_last)
      then show ?thesis using cycles_okD(10)[OF ok, of j] qs f(4) by (metis phase_path_upd_last)
    next
      case False
      have "ph_ID x \<noteq> ph_ID p" if "x \<in> set (cycle_phases s j)" for x
        using that False p cycles_okD(2)[OF ok] by (auto simp: cycle_phases_def distinct_map dest: inj_onD)
      then have "cycle_phases ?s j = cycle_phases s j" unfolding eq by (rule update_where_none)
      then show ?thesis using cycles_okD(10)[OF ok] by simp
    qed
  qed
  show "\<exists>c\<in>set (db_cycles ?s). cycle_ID c = ph_CycleID x \<and> cycle_Status c = CycleStatusRunning"
    if "x \<in> set (db_phases ?s)" "ph_Status x = PhaseStatusRunning" for x
    using that cycles_okD(11)[OF ok, of x] f(5) by (auto simp: set_update_where) (metis TerminalPhaseStatus.simps(4))
qed (use cycles_okD[OF ok] in auto)

section \<open>Preservation: cycle termination and stream rows\<close>

lemma length_filter_update_le:
  "(\<And>r. Q (f r) \<Longrightarrow> Q r) \<Longrightarrow> length (filter Q (update_where P f rs)) \<le> length (filter Q rs)"
  by (induction rs) (auto simp: update_where_def)

lemma cycles_ok_terminate:
  assumes ok: "cycles_ok s" and t: "TerminalCycleStatus st"
    and norun: "\<forall>p\<in>set (db_phases s). ph_CycleID p = i \<longrightarrow> ph_Status p \<noteq> PhaseStatusRunning"
  shows "cycles_ok (s\<lparr>db_cycles := update_where (\<lambda>c. cycle_ID c = i)
           (\<lambda>c. c\<lparr>cycle_Status := st, cycle_EndedAt := e\<rparr>) (db_cycles s)\<rparr>)" (is "cycles_ok ?s")
proof (rule cycles_okI)
  have st: "st \<noteq> CycleStatusRunning" using t by auto
  show "distinct (map cycle_ID (db_cycles ?s))" using cycles_okD(1)[OF ok] by simp
  show "numbered_by cycle_TaskID cycle_AttemptSeq (db_cycles ?s)"
    using numbered_by_update_where[OF cycles_okD(3)[OF ok]] by simp
  show "cycle_status_ok c" if "c \<in> set (db_cycles ?s)" for c
    using that cycles_okD(7)[OF ok] t by (auto simp: set_update_where cycle_status_ok_def)
  show "length (filter (\<lambda>c. cycle_TaskID c = u \<and> cycle_Status c = CycleStatusRunning) (db_cycles ?s)) \<le> 1" for u
  proof -
    have "length (filter (\<lambda>c. cycle_TaskID c = u \<and> cycle_Status c = CycleStatusRunning) (db_cycles ?s))
          \<le> length (filter (\<lambda>c. cycle_TaskID c = u \<and> cycle_Status c = CycleStatusRunning) (db_cycles s))"
      by (simp, rule length_filter_update_le) (use st in auto)
    then show ?thesis using cycles_okD(9)[OF ok, of u] by linarith
  qed
  show "\<exists>c\<in>set (db_cycles ?s). cycle_ID c = ph_CycleID p \<and> cycle_Status c = CycleStatusRunning"
    if "p \<in> set (db_phases ?s)" "ph_Status p = PhaseStatusRunning" for p
  proof -
    have p: "p \<in> set (db_phases s)" using that(1) by simp
    have r: "ph_Status p = PhaseStatusRunning" by (rule that(2))
    obtain c where c: "c \<in> set (db_cycles s)" "cycle_ID c = ph_CycleID p" "cycle_Status c = CycleStatusRunning"
      using cycles_okD(11)[OF ok p r] by blast
    moreover have "cycle_ID c \<noteq> i" using c norun p r by auto
    ultimately show ?thesis by (auto simp: set_update_where)
  qed
qed (use cycles_okD[OF ok] in \<open>auto simp: cycle_phases_def\<close>)

lemma cycles_ok_insert_stream:
  assumes ok: "cycles_ok s" and i: "insert_stream s e = Inr s'" and n: "se_StreamSeq e = nextStreamSeq s (se_CycleID e)"
  shows "cycles_ok s'"
proof -
  have "numbered_by se_CycleID se_StreamSeq (db_streams s')"
    using stream_tbl.ins_numbered[OF cycles_okD(6)[OF ok] _ i] n by (simp add: nextStreamSeq_def)
  then show ?thesis using ok insert_streamD[OF i] by (simp add: cycles_ok_def cycle_phases_def)
qed

section \<open>What a successful operation did\<close>

lemma StartE:
  assumes "Start env s inp = Inr (s', c)"
  obtains s1 n where "trim_space (sci_TaskID inp) = cycle_TaskID c" "cycle_TaskID c \<noteq> []"
    "NormalizeJSONObject (sci_Meta inp) ''meta'' = Inr (cycle_MetaJSON c)"
    "assertNoRunningCycleForTask s (cycle_TaskID c) = Inr ()"
    "resolveParentCycle s (cycle_TaskID c) (sci_ParentCycleID inp) = Inr (cycle_ParentCycleID c)"
    "cycle_ID c = tx_uuid env" "cycle_AttemptSeq c = nextAttemptSeq s (cycle_TaskID c)"
    "cycle_Status c = CycleStatusRunning" "cycle_EndedAt c = None" "cycle_TriggeredBy c = sci_TriggeredBy inp"
    "insert_cycle s c = Inr s1" "NextEventSeq s1 (cycle_TaskID c) = Inr n"
    "AppendEvent (tx_evnow env) s1 (cycle_TaskID c) n EventCycleStarted (cycle_TriggeredBy c) (startedPayload c) = Inr s'"
  using assms by (clarsimp simp: Start_def Let_def if_Inl_Inr_iff)

definition set_cycle_status :: "string \<Rightarrow> cycle_status \<Rightarrow> gotime \<Rightarrow> db \<Rightarrow> db" where
  "set_cycle_status i st at s = s\<lparr>db_cycles := update_where (\<lambda>c. cycle_ID c = i)
     (\<lambda>c. c\<lparr>cycle_Status := st, cycle_EndedAt := Some at\<rparr>) (db_cycles s)\<rparr>"

lemma TerminateE:
  assumes "Terminate env s i status reason by = Inr (s', c)"
  obtains c0 s1 n fs where "loadByID s (trim_space i) = Inr c0" "\<not> TerminalCycleStatus (cycle_Status c0)"
    "TerminalCycleStatus status" "assertNoRunningPhaseForCycle s (cycle_ID c0) = Inr ()"
    "s1 = set_cycle_status (cycle_ID c0) status (tx_now env) s"
    "c = c0\<lparr>cycle_Status := status, cycle_EndedAt := Some (tx_now env)\<rparr>"
    "NextEventSeq s1 (cycle_TaskID c0) = Inr n"
    "AppendEvent (tx_evnow env) s1 (cycle_TaskID c0) n (mirrorEventTypeForCycleStatus status) by
       (terminatedPayload c (trim_space reason) fs) = Inr s'"
  using assms unfolding set_cycle_status_def
  by (clarsimp simp: Terminate_def Let_def if_Inl_Inr_iff ValidTerminalCycleStatus_def)

lemma new_phase_row_simps [simp]:
  "ph_ID (new_phase_row env s i ph) = tx_uuid env" "ph_CycleID (new_phase_row env s i ph) = i"
  "ph_Phase (new_phase_row env s i ph) = ph" "ph_Status (new_phase_row env s i ph) = PhaseStatusRunning"
  "ph_PhaseSeq (new_phase_row env s i ph) = nextPhaseSeq s i"
  "ph_DetailsJSON (new_phase_row env s i ph) = [(PhaseDetailsRunCorrelationID, JStr (tx_uuid2 env))]"
  by (simp_all add: new_phase_row_def)

lemma StartPhaseE:
  assumes "StartPhase env s i ph by = Inr (s', p)"
  obtains c row s1 n s2 where "loadByID s (trim_space i) = Inr c" "\<not> TerminalCycleStatus (cycle_Status c)"
    "ValidPhase ph" "assertNoRunningPhaseForCycle s (cycle_ID c) = Inr ()"
    "phase_allowed (lastPhaseForCycle s (cycle_ID c)) ph"
    "row = new_phase_row env s (cycle_ID c) ph"
    "insert_phase s row = Inr s1" "NextEventSeq s1 (cycle_TaskID c) = Inr n"
    "AppendEvent (tx_evnow env) s1 (cycle_TaskID c) n EventPhaseStarted by (phaseStartedPayload (cycle_ID c) row) = Inr s2"
    "s' = set_event_seq (ph_ID row) n s2" "p = row\<lparr>ph_EventSeq := Some n\<rparr>"
  using assms by (clarsimp simp: StartPhase_def Let_def if_Inl_Inr_iff)

definition complete_update ::
  "complete_phase_input \<Rightarrow> gotime \<Rightarrow> (string \<times> json) list \<Rightarrow> cycle_phase \<Rightarrow> cycle_phase" where
  "complete_update inp at m x = x\<lparr>ph_Status := cpi_Status inp, ph_EndedAt := Some at, ph_DetailsJSON := m,
     ph_Summary := (case cpi_Summary inp of None \<Rightarrow> ph_Summary x | Some t \<Rightarrow> Some t)\<rparr>"

lemma complete_update_simps [simp]:
  "ph_ID (complete_update inp at m x) = ph_ID x" "ph_CycleID (complete_update inp at m x) = ph_CycleID x"
  "ph_PhaseSeq (complete_update inp at m x) = ph_PhaseSeq x" "ph_Phase (complete_update inp at m x) = ph_Phase x"
  "ph_Status (complete_update inp at m x) = cpi_Status inp" "ph_DetailsJSON (complete_update inp at m x) = m"
  by (simp_all add: complete_update_def)

lemma CompletePhaseE:
  assumes "CompletePhase env s inp = Inr (s', p)"
  obtains c q m d s1 n s2 where "loadByID s (trim_space (cpi_CycleID inp)) = Inr c"
    "loadPhaseByCycleSeq s (trim_space (cpi_CycleID inp)) (cpi_PhaseSeq inp) = Inr q"
    "TerminalPhaseStatus (cpi_Status inp)" "\<not> TerminalPhaseStatus (ph_Status q)"
    "NormalizeJSONObject (cpi_Details inp) ''details'' = Inr d" "m = mergePhaseDetailsJSON (ph_DetailsJSON q) d"
    "s1 = s\<lparr>db_phases := update_where (\<lambda>x. ph_ID x = ph_ID q) (complete_update inp (tx_now env) m) (db_phases s)\<rparr>"
    "NextEventSeq s1 (cycle_TaskID c) = Inr n"
    "AppendEvent (tx_evnow env) s1 (cycle_TaskID c) n (mirrorEventTypeForPhaseStatus (cpi_Status inp)) (cpi_By inp)
       (phaseTerminatedPayload (cycle_ID c) (complete_update inp (tx_now env) m q)) = Inr s2"
    "s' = set_event_seq (ph_ID q) n s2" "p = (complete_update inp (tx_now env) m q)\<lparr>ph_EventSeq := Some n\<rparr>"
  using assms
  by (clarsimp simp: CompletePhase_def Let_def if_Inl_Inr_iff ValidTerminalPhaseStatus_def
        complete_update_def[symmetric, abs_def] complete_update_def[symmetric])

lemma AppendStreamEventE:
  assumes "AppendStreamEvent env s inp = Inr (s', r)"
  obtains c p where "insert_stream s r = Inr s'" "se_StreamSeq r = nextStreamSeq s (se_CycleID r)"
    "loadByID s (se_CycleID r) = Inr c" "cycle_TaskID c = se_TaskID r"
    "loadPhaseByCycleSeq s (se_CycleID r) (se_PhaseSeq r) = Inr p"
  using assms by (clarsimp simp: AppendStreamEvent_def Let_def if_Inl_Inr_iff)

section \<open>Preservation: the operations\<close>

lemma Start_ok: "cycles_ok s \<Longrightarrow> Start env s inp = Inr (s', c) \<Longrightarrow> cycles_ok s'"
  by (elim StartE)
     (blast intro: cycles_ok_append_event cycles_ok_insert_cycle dest: assertNoRunningCycleForTaskD)

lemma Terminate_ok: "cycles_ok s \<Longrightarrow> Terminate env s i status reason by = Inr (s', c) \<Longrightarrow> cycles_ok s'"
  by (elim TerminateE)
     (metis assertNoRunningPhaseForCycleD cycles_ok_append_event cycles_ok_terminate set_cycle_status_def)

lemma StartPhase_ok: "cycles_ok s \<Longrightarrow> StartPhase env s i ph by = Inr (s', p) \<Longrightarrow> cycles_ok s'"
proof (elim StartPhaseE)
  fix c row s1 n s2
  assume ok: "cycles_ok s" and l: "loadByID s (trim_space i) = Inr c" "\<not> TerminalCycleStatus (cycle_Status c)"
    and r: "assertNoRunningPhaseForCycle s (cycle_ID c) = Inr ()"
    and a: "phase_allowed (lastPhaseForCycle s (cycle_ID c)) ph"
    and row: "row = new_phase_row env s (cycle_ID c) ph" and ins: "insert_phase s row = Inr s1"
    and e: "NextEventSeq s1 (cycle_TaskID c) = Inr n"
      "AppendEvent (tx_evnow env) s1 (cycle_TaskID c) n EventPhaseStarted by (phaseStartedPayload (cycle_ID c) row) = Inr s2"
    and s': "s' = set_event_seq (ph_ID row) n s2"
  have "cycles_ok s1"
    using cycles_ok_insert_phase[OF ok ins loadByIDD(1)[OF l(1)]] row l(2) a assertNoRunningPhaseForCycleD[OF r] by simp
  then show "cycles_ok s'" using e s' cycles_ok_append_event cycles_ok_set_event_seq by blast
qed

lemma CompletePhase_ok: "cycles_ok s \<Longrightarrow> CompletePhase env s inp = Inr (s', p) \<Longrightarrow> cycles_ok s'"
proof (elim CompletePhaseE)
  fix c q m d s1 n s2
  assume ok: "cycles_ok s" and l: "loadPhaseByCycleSeq s (trim_space (cpi_CycleID inp)) (cpi_PhaseSeq inp) = Inr q"
    and t: "TerminalPhaseStatus (cpi_Status inp)" "\<not> TerminalPhaseStatus (ph_Status q)"
    and s1: "s1 = s\<lparr>db_phases := update_where (\<lambda>x. ph_ID x = ph_ID q) (complete_update inp (tx_now env) m) (db_phases s)\<rparr>"
    and e: "NextEventSeq s1 (cycle_TaskID c) = Inr n"
      "AppendEvent (tx_evnow env) s1 (cycle_TaskID c) n (mirrorEventTypeForPhaseStatus (cpi_Status inp)) (cpi_By inp)
       (phaseTerminatedPayload (cycle_ID c) (complete_update inp (tx_now env) m q)) = Inr s2"
    and s': "s' = set_event_seq (ph_ID q) n s2"
  have "cycles_ok s1"
    unfolding s1 by (rule cycles_ok_complete_phase[OF ok loadPhaseByCycleSeqD(1)[OF l] t(2)]) (simp_all add: t)
  then show "cycles_ok s'" using e s' cycles_ok_append_event cycles_ok_set_event_seq by blast
qed

lemma AppendStreamEvent_ok: "cycles_ok s \<Longrightarrow> AppendStreamEvent env s inp = Inr (s', r) \<Longrightarrow> cycles_ok s'"
  by (elim AppendStreamEventE) (rule cycles_ok_insert_stream)

section \<open>The step relation of the cycle tables\<close>

inductive cycle_step :: "db \<Rightarrow> db \<Rightarrow> bool" where
  step_Start: "Start env s inp = Inr (s', c) \<Longrightarrow> cycle_step s s'"
| step_Terminate: "Terminate env s i status reason by = Inr (s', c) \<Longrightarrow> cycle_step s s'"
| step_StartPhase: "StartPhase env s i ph by = Inr (s', p) \<Longrightarrow> cycle_step s s'"
| step_CompletePhase: "CompletePhase env s inp' = Inr (s', p) \<Longrightarrow> cycle_step s s'"
| step_AppendStreamEvent: "AppendStreamEvent env s inp'' = Inr (s', e) \<Longrightarrow> cycle_step s s'"

lemma cycle_step_ok: "cycle_step s s' \<Longrightarrow> cycles_ok s \<Longrightarrow> cycles_ok s'"
  by (induction rule: cycle_step.induct)
     (auto intro: Start_ok Terminate_ok StartPhase_ok CompletePhase_ok AppendStreamEvent_ok)

text \<open>What a cycle step leaves alone, and what it appends to the audit log.\<close>

definition audited :: "db \<Rightarrow> db \<Rightarrow> string \<Rightarrow> event_type \<Rightarrow> actor \<Rightarrow> bool" where
  "audited s s' t typ by \<longleftrightarrow>
     t \<in> task_ID ` set (db_tasks s) \<and>
     (\<exists>e. db_events s' = db_events s @ [e] \<and> ev_TaskID e = t \<and> ev_Type e = typ \<and> ev_By e = by \<and>
          ev_Seq e = coalesce_max (map ev_Seq (filter (\<lambda>e. ev_TaskID e = t) (db_events s))) + 1)"

lemma AppendEvent_audited:
  assumes "NextEventSeq s t = Inr n" "AppendEvent now s t n typ by data = Inr s'"
  shows "audited s s' t typ by" "db_cycles s' = db_cycles s" "db_phases s' = db_phases s"
    "db_streams s' = db_streams s" "db_tasks s' = db_tasks s" "db_deps s' = db_deps s"
    "db_items s' = db_items s" "db_commands s' = db_commands s" "db_completions s' = db_completions s"
    "t \<in> task_ID ` set (db_tasks s)"
  by (rule AppendEventD[OF assms]; auto simp: audited_def)+

lemma set_event_seq_simps [simp]:
  "db_cycles (set_event_seq i n s) = db_cycles s" "db_events (set_event_seq i n s) = db_events s"
  "db_streams (set_event_seq i n s) = db_streams s" "db_tasks (set_event_seq i n s) = db_tasks s"
  "db_deps (set_event_seq i n s) = db_deps s" "db_items (set_event_seq i n s) = db_items s"
  "db_commands (set_event_seq i n s) = db_commands s" "db_completions (set_event_seq i n s) = db_completions s"
  by (simp_all add: set_event_seq_def)

lemma set_cycle_status_simps [simp]:
  "db_phases (set_cycle_status i st at s) = db_phases s" "db_events (set_cycle_status i st at s) = db_events s"
  "db_streams (set_cycle_status i st at s) = db_streams s" "db_tasks (set_cycle_status i st at s) = db_tasks s"
  "db_deps (set_cycle_status i st at s) = db_deps s" "db_items (set_cycle_status i st at s) = db_items s"
  "db_commands (set_cycle_status i st at s) = db_commands s" "db_completions (set_cycle_status i st at s) = db_completions s"
  by (simp_all add: set_cycle_status_def)

lemma Start_audit:
  assumes "Start env s inp = Inr (s', c)"
  shows "audited s s' (cycle_TaskID c) EventCycleStarted (sci_TriggeredBy inp)"
    "db_cycles s' = db_cycles s @ [c]" "db_phases s' = db_phases s" "db_tasks s' = db_tasks s"
    "db_streams s' = db_streams s" "cycle_ID c \<notin> cycle_ID ` set (db_cycles s)"
proof -
  from assms obtain s1 n where i: "insert_cycle s c = Inr s1" and tb: "cycle_TriggeredBy c = sci_TriggeredBy inp"
    and n: "NextEventSeq s1 (cycle_TaskID c) = Inr n"
    and e: "AppendEvent (tx_evnow env) s1 (cycle_TaskID c) n EventCycleStarted (cycle_TriggeredBy c) (startedPayload c) = Inr s'"
    by (elim StartE)
  note a = AppendEvent_audited[OF n e] and d = insert_cycleD[OF i]
  show "audited s s' (cycle_TaskID c) EventCycleStarted (sci_TriggeredBy inp)"
    using a(1) tb by (auto simp: audited_def d(1))
  show "db_cycles s' = db_cycles s @ [c]" "db_phases s' = db_phases s" "db_tasks s' = db_tasks s"
    "db_streams s' = db_streams s" using a d(1) by simp_all
  show "cycle_ID c \<notin> cycle_ID ` set (db_cycles s)" by (rule d(2))
qed

lemma Terminate_audit:
  assumes "Terminate env s i status reason by = Inr (s', c)"
  shows "audited s s' (cycle_TaskID c) (mirrorEventTypeForCycleStatus status) by"
    "db_cycles s' = db_cycles (set_cycle_status (cycle_ID c) status (tx_now env) s)"
    "db_phases s' = db_phases s" "db_tasks s' = db_tasks s" "db_streams s' = db_streams s"
    "cycle_ID c = trim_space i" "\<exists>c0\<in>set (db_cycles s). cycle_ID c0 = cycle_ID c \<and> \<not> TerminalCycleStatus (cycle_Status c0)"
proof -
  from assms obtain c0 s1 n fs where l: "loadByID s (trim_space i) = Inr c0" "\<not> TerminalCycleStatus (cycle_Status c0)"
    and s1: "s1 = set_cycle_status (cycle_ID c0) status (tx_now env) s"
    and c: "c = c0\<lparr>cycle_Status := status, cycle_EndedAt := Some (tx_now env)\<rparr>"
    and n: "NextEventSeq s1 (cycle_TaskID c0) = Inr n"
    and e: "AppendEvent (tx_evnow env) s1 (cycle_TaskID c0) n (mirrorEventTypeForCycleStatus status) by
       (terminatedPayload c (trim_space reason) fs) = Inr s'"
    by (elim TerminateE)
  note a = AppendEvent_audited[OF n e] and ld = loadByIDD[OF l(1)]
  show "audited s s' (cycle_TaskID c) (mirrorEventTypeForCycleStatus status) by"
    using a(1) by (simp add: audited_def s1 c)
  show "db_cycles s' = db_cycles (set_cycle_status (cycle_ID c) status (tx_now env) s)"
    "db_phases s' = db_phases s" "db_tasks s' = db_tasks s" "db_streams s' = db_streams s"
    using a s1 c by simp_all
  show "cycle_ID c = trim_space i" using ld c by simp
  show "\<exists>c0\<in>set (db_cycles s). cycle_ID c0 = cycle_ID c \<and> \<not> TerminalCycleStatus (cycle_Status c0)"
    using ld l(2) c by auto
qed

lemma StartPhase_audit:
  assumes "StartPhase env s i ph by = Inr (s', p)"
  shows "\<exists>c\<in>set (db_cycles s). cycle_ID c = ph_CycleID p \<and> audited s s' (cycle_TaskID c) EventPhaseStarted by"
    "db_cycles s' = db_cycles s" "db_tasks s' = db_tasks s" "db_streams s' = db_streams s"
    "\<exists>n row. db_phases s' = update_where (\<lambda>x. ph_ID x = ph_ID row) (\<lambda>p. p\<lparr>ph_EventSeq := Some n\<rparr>) (db_phases s @ [row]) \<and>
       ph_ID row \<notin> ph_ID ` set (db_phases s) \<and> p = row\<lparr>ph_EventSeq := Some n\<rparr>"
    "ph_CycleID p = trim_space i"
proof -
  from assms obtain c row s1 n s2 where l: "loadByID s (trim_space i) = Inr c"
    and row: "row = new_phase_row env s (cycle_ID c) ph"
    and i: "insert_phase s row = Inr s1" and n: "NextEventSeq s1 (cycle_TaskID c) = Inr n"
    and e: "AppendEvent (tx_evnow env) s1 (cycle_TaskID c) n EventPhaseStarted by (phaseStartedPayload (cycle_ID c) row) = Inr s2"
    and s': "s' = set_event_seq (ph_ID row) n s2" and p: "p = row\<lparr>ph_EventSeq := Some n\<rparr>"
    by (elim StartPhaseE)
  note a = AppendEvent_audited[OF n e] and d = insert_phaseD[OF i] and ld = loadByIDD[OF l]
  have "audited s s' (cycle_TaskID c) EventPhaseStarted by" using a(1) by (simp add: audited_def s' d(1))
  then show "\<exists>c\<in>set (db_cycles s). cycle_ID c = ph_CycleID p \<and> audited s s' (cycle_TaskID c) EventPhaseStarted by"
    using ld p row by auto
  show "db_cycles s' = db_cycles s" "db_tasks s' = db_tasks s" "db_streams s' = db_streams s"
    using a d(1) s' by simp_all
  show "\<exists>n row. db_phases s' = update_where (\<lambda>x. ph_ID x = ph_ID row) (\<lambda>p. p\<lparr>ph_EventSeq := Some n\<rparr>) (db_phases s @ [row]) \<and>
       ph_ID row \<notin> ph_ID ` set (db_phases s) \<and> p = row\<lparr>ph_EventSeq := Some n\<rparr>"
    using a d s' p by (intro exI[of _ n] exI[of _ row]) (simp add: set_event_seq_def)
  show "ph_CycleID p = trim_space i" using ld p row by simp
qed

lemma update_where_same_twice:
  "(\<And>x. P (f x) = P x) \<Longrightarrow> update_where P g (update_where P f rs) = update_where P (\<lambda>x. g (f x)) rs"
  by (simp add: update_where_def)

lemma CompletePhase_audit:
  assumes "CompletePhase env s inp = Inr (s', p)"
  shows "\<exists>c\<in>set (db_cycles s). cycle_ID c = ph_CycleID p \<and>
      audited s s' (cycle_TaskID c) (mirrorEventTypeForPhaseStatus (cpi_Status inp)) (cpi_By inp)"
    "db_cycles s' = db_cycles s" "db_tasks s' = db_tasks s" "db_streams s' = db_streams s"
    "\<exists>q m n. q \<in> set (db_phases s) \<and> ph_CycleID q = ph_CycleID p \<and> ph_PhaseSeq q = cpi_PhaseSeq inp \<and>
       \<not> TerminalPhaseStatus (ph_Status q) \<and>
       db_phases s' = update_where (\<lambda>x. ph_ID x = ph_ID q)
         (\<lambda>x. (complete_update inp (tx_now env) m x)\<lparr>ph_EventSeq := Some n\<rparr>) (db_phases s) \<and>
       p = (complete_update inp (tx_now env) m q)\<lparr>ph_EventSeq := Some n\<rparr>"
proof -
  from assms obtain c q m d s1 n s2 where l: "loadByID s (trim_space (cpi_CycleID inp)) = Inr c"
    "loadPhaseByCycleSeq s (trim_space (cpi_CycleID inp)) (cpi_PhaseSeq inp) = Inr q"
    and nt: "\<not> TerminalPhaseStatus (ph_Status q)"
    and s1: "s1 = s\<lparr>db_phases := update_where (\<lambda>x. ph_ID x = ph_ID q) (complete_update inp (tx_now env) m) (db_phases s)\<rparr>"
    and n: "NextEventSeq s1 (cycle_TaskID c) = Inr n"
    and e: "AppendEvent (tx_evnow env) s1 (cycle_TaskID c) n (mirrorEventTypeForPhaseStatus (cpi_Status inp)) (cpi_By inp)
       (phaseTerminatedPayload (cycle_ID c) (complete_update inp (tx_now env) m q)) = Inr s2"
    and s': "s' = set_event_seq (ph_ID q) n s2" and p: "p = (complete_update inp (tx_now env) m q)\<lparr>ph_EventSeq := Some n\<rparr>"
    by (elim CompletePhaseE)
  note a = AppendEvent_audited[OF n e] and ld = loadByIDD[OF l(1)] loadPhaseByCycleSeqD[OF l(2)]
  have "audited s s' (cycle_TaskID c) (mirrorEventTypeForPhaseStatus (cpi_Status inp)) (cpi_By inp)"
    using a(1) by (simp add: audited_def s' s1)
  then show "\<exists>c\<in>set (db_cycles s). cycle_ID c = ph_CycleID p \<and>
      audited s s' (cycle_TaskID c) (mirrorEventTypeForPhaseStatus (cpi_Status inp)) (cpi_By inp)"
    using ld p by auto
  show "db_cycles s' = db_cycles s" "db_tasks s' = db_tasks s" "db_streams s' = db_streams s"
    using a s1 s' by simp_all
  show "\<exists>q m n. q \<in> set (db_phases s) \<and> ph_CycleID q = ph_CycleID p \<and> ph_PhaseSeq q = cpi_PhaseSeq inp \<and>
       \<not> TerminalPhaseStatus (ph_Status q) \<and>
       db_phases s' = update_where (\<lambda>x. ph_ID x = ph_ID q)
         (\<lambda>x. (complete_update inp (tx_now env) m x)\<lparr>ph_EventSeq := Some n\<rparr>) (db_phases s) \<and>
       p = (complete_update inp (tx_now env) m q)\<lparr>ph_EventSeq := Some n\<rparr>"
    using a s1 s' p ld nt
    by (intro exI[of _ q] exI[of _ m] exI[of _ n]) (simp add: set_event_seq_def update_where_same_twice)
qed

end
