(* ===== verification/Cycle_Properties.thy ===== *)
theory Cycle_Properties
  imports Cycle_Invariants
begin

text \<open>
  What the cycle operations promise: terminal rows are immutable, every successful write is mirrored
  by exactly one audit event, an operation succeeds exactly under its documented conditions, the
  correlation id of a phase survives its completion, and pages of attempts are the newest ones.
\<close>

section \<open>Terminal rows are read-only\<close>

lemma update_where_keeps:
  "r \<in> set rs \<Longrightarrow> \<not> P r \<Longrightarrow> r \<in> set (update_where P f rs)"
  by (auto simp: set_update_where)

lemma distinct_map_eq: "distinct (map k rs) \<Longrightarrow> r \<in> set rs \<Longrightarrow> r' \<in> set rs \<Longrightarrow> k r = k r' \<Longrightarrow> r = r'"
  by (auto simp: distinct_map dest: inj_onD)

lemma cycle_step_terminal_cycle:
  assumes "cycle_step s s'" "cycles_ok s" "c \<in> set (db_cycles s)" "TerminalCycleStatus (cycle_Status c)"
  shows "c \<in> set (db_cycles s')"
  using assms
proof (cases rule: cycle_step.cases)
  case (step_Terminate env i status reason tb d)
  note a = Terminate_audit[OF step_Terminate]
  from a(7) obtain c0 where c0: "c0 \<in> set (db_cycles s)" "cycle_ID c0 = cycle_ID d" "\<not> TerminalCycleStatus (cycle_Status c0)"
    by blast
  then have "cycle_ID c \<noteq> cycle_ID d"
    using distinct_map_eq[OF cycles_okD(1)[OF assms(2)] assms(3) c0(1)] assms(4) by auto
  then show ?thesis using a(2) assms(3) by (simp add: set_cycle_status_def update_where_keeps)
next
  case (step_AppendStreamEvent env inp'' e)
  then show ?thesis using assms(3) by (auto elim!: AppendStreamEventE dest!: insert_streamD)
qed (use assms(3) Start_audit(2) StartPhase_audit(2) CompletePhase_audit(2) in auto)

lemma cycle_step_terminal_phase:
  assumes "cycle_step s s'" "cycles_ok s" "p \<in> set (db_phases s)" "TerminalPhaseStatus (ph_Status p)"
  shows "p \<in> set (db_phases s')"
  using assms
proof (cases rule: cycle_step.cases)
  case (step_StartPhase env i ph tb q)
  then obtain n row where
    "db_phases s' = update_where (\<lambda>x. ph_ID x = ph_ID row) (\<lambda>p. p\<lparr>ph_EventSeq := Some n\<rparr>) (db_phases s @ [row])"
    and f: "ph_ID row \<notin> ph_ID ` set (db_phases s)"
    using StartPhase_audit(5) by blast
  moreover have "ph_ID p \<noteq> ph_ID row" using f assms(3) by (metis imageI)
  ultimately show ?thesis using assms(3) by (simp add: update_where_keeps)
next
  case (step_CompletePhase env inp q)
  then obtain r m n where r: "r \<in> set (db_phases s)" "\<not> TerminalPhaseStatus (ph_Status r)"
    and u: "db_phases s' = update_where (\<lambda>x. ph_ID x = ph_ID r)
         (\<lambda>x. (complete_update inp (tx_now env) m x)\<lparr>ph_EventSeq := Some n\<rparr>) (db_phases s)"
    using CompletePhase_audit(5) by blast
  have "ph_ID p \<noteq> ph_ID r"
    using distinct_map_eq[OF cycles_okD(2)[OF assms(2)] assms(3) r(1)] r(2) assms(4) by auto
  then show ?thesis unfolding u using assms(3) by (simp add: update_where_keeps)
next
  case (step_AppendStreamEvent env inp'' e)
  then show ?thesis using assms(3) by (auto elim!: AppendStreamEventE dest!: insert_streamD)
qed (use assms(3) Start_audit(3) Terminate_audit(3) in auto)

section \<open>When the operations succeed\<close>

lemma fresh_seq: "coalesce_max xs + 1 \<notin> set xs"
  using coalesce_max_ge by fastforce

lemma coalesce_max_numbered_nonneg: "numbered xs \<Longrightarrow> 0 \<le> coalesce_max xs"
  by (simp add: coalesce_max_numbered)

lemma insert_event_succeeds:
  assumes "cycles_ok s" "t \<in> task_ID ` set (db_tasks s)" "NormalizeJSONObject data ''data'' = Inr obj"
  shows "\<exists>n s'. NextEventSeq s t = Inr n \<and> AppendEvent now s t n typ by data = Inr s'"
proof -
  let ?xs = "map ev_Seq (filter (\<lambda>e. ev_TaskID e = t) (db_events s))"
  have "(t, coalesce_max ?xs + 1) \<notin> set (map (\<lambda>e. (ev_TaskID e, ev_Seq e)) (db_events s))"
    using fresh_seq[of ?xs] by auto
  moreover have "0 < coalesce_max ?xs + 1"
    using coalesce_max_numbered_nonneg[of ?xs] cycles_okD(5)[OF assms(1)] by (simp add: numbered_by_def)
  ultimately show ?thesis
    using assms(2,3) by (auto simp: NextEventSeq_def AppendEvent_def insert_event_def)
qed

lemma payloads_normalize:
  "\<exists>obj. NormalizeJSONObject (startedPayload c) f = Inr obj"
  "\<exists>obj. NormalizeJSONObject (terminatedPayload c r fs) f = Inr obj"
  "\<exists>obj. NormalizeJSONObject (phaseStartedPayload i p) f = Inr obj"
  "\<exists>obj. NormalizeJSONObject (phaseTerminatedPayload i p) f = Inr obj"
  by (simp_all add: NormalizeJSONObject_def startedPayload_def terminatedPayload_def phaseStartedPayload_def
        phaseTerminatedPayload_def)

lemma insert_cycle_succeeds:
  assumes "cycles_ok s" "cycle_ID c \<notin> cycle_ID ` set (db_cycles s)"
    "cycle_AttemptSeq c = nextAttemptSeq s (cycle_TaskID c)"
  shows "insert_cycle s c = Inr (s\<lparr>db_cycles := db_cycles s @ [c]\<rparr>)"
proof -
  let ?xs = "map cycle_AttemptSeq (filter (\<lambda>d. cycle_TaskID d = cycle_TaskID c) (db_cycles s))"
  have "cycle_AttemptSeq c \<notin> set ?xs" using fresh_seq[of ?xs] assms(3) by (simp add: nextAttemptSeq_def)
  then have "(cycle_TaskID c, cycle_AttemptSeq c) \<notin> set (map (\<lambda>c. (cycle_TaskID c, cycle_AttemptSeq c)) (db_cycles s))"
    by auto
  moreover have "0 < cycle_AttemptSeq c"
    using coalesce_max_numbered_nonneg[of ?xs] cycles_okD(3)[OF assms(1)] assms(3)
    by (simp add: nextAttemptSeq_def numbered_by_def)
  ultimately show ?thesis using assms(2) by (simp add: insert_cycle_def)
qed

lemma insert_phase_succeeds:
  assumes "cycles_ok s" "ph_ID p \<notin> ph_ID ` set (db_phases s)" "ph_PhaseSeq p = nextPhaseSeq s (ph_CycleID p)"
  shows "insert_phase s p = Inr (s\<lparr>db_phases := db_phases s @ [p]\<rparr>)"
proof -
  let ?xs = "map ph_PhaseSeq (filter (\<lambda>q. ph_CycleID q = ph_CycleID p) (db_phases s))"
  have "ph_PhaseSeq p \<notin> set ?xs" using fresh_seq[of ?xs] assms(3) by (simp add: nextPhaseSeq_def cycle_phases_def)
  then have "(ph_CycleID p, ph_PhaseSeq p) \<notin> set (map (\<lambda>p. (ph_CycleID p, ph_PhaseSeq p)) (db_phases s))"
    by auto
  moreover have "0 < ph_PhaseSeq p"
    using coalesce_max_numbered_nonneg[of ?xs] cycles_okD(4)[OF assms(1)] assms(3)
    by (simp add: nextPhaseSeq_def cycle_phases_def numbered_by_def)
  ultimately show ?thesis using assms(2) by (simp add: insert_phase_def)
qed

lemma assertNoRunningCycleForTask_Inr_iff:
  "assertNoRunningCycleForTask s t = Inr u \<longleftrightarrow>
   (\<forall>c\<in>set (db_cycles s). cycle_TaskID c = t \<longrightarrow> cycle_Status c \<noteq> CycleStatusRunning)"
  by (auto simp: assertNoRunningCycleForTask_def filter_empty_conv)

lemma assertNoRunningPhaseForCycle_Inr_iff:
  "assertNoRunningPhaseForCycle s i = Inr u \<longleftrightarrow>
   (\<forall>p\<in>set (db_phases s). ph_CycleID p = i \<longrightarrow> ph_Status p \<noteq> PhaseStatusRunning)"
  by (auto simp: assertNoRunningPhaseForCycle_def filter_empty_conv)

lemma loadByID_Inr_iff:
  assumes "cycles_ok s"
  shows "loadByID s i = Inr c \<longleftrightarrow> c \<in> set (db_cycles s) \<and> cycle_ID c = i"
proof
  assume c: "c \<in> set (db_cycles s) \<and> cycle_ID c = i"
  then obtain d where d: "List.find (\<lambda>c. cycle_ID c = i) (db_cycles s) = Some d"
    using find_None_iff[of "\<lambda>c. cycle_ID c = i" "db_cycles s"] by fast
  then have "d \<in> set (db_cycles s)" "cycle_ID d = i" by (auto simp: find_Some_iff)
  then have "d = c" using distinct_map_eq[OF cycles_okD(1)[OF assms], of d c] c by simp
  with d show "loadByID s i = Inr c" by (simp add: loadByID_def)
qed (use loadByIDD in blast)

lemma loadPhaseByCycleSeq_Inr_iff:
  assumes "cycles_ok s"
  shows "loadPhaseByCycleSeq s i n = Inr p \<longleftrightarrow> p \<in> set (db_phases s) \<and> ph_CycleID p = i \<and> ph_PhaseSeq p = n"
proof
  assume p: "p \<in> set (db_phases s) \<and> ph_CycleID p = i \<and> ph_PhaseSeq p = n"
  then obtain q where q: "List.find (\<lambda>p. ph_CycleID p = i \<and> ph_PhaseSeq p = n) (db_phases s) = Some q"
    using find_None_iff[of "\<lambda>p. ph_CycleID p = i \<and> ph_PhaseSeq p = n" "db_phases s"] by fast
  then have "q \<in> set (db_phases s)" "ph_CycleID q = i" "ph_PhaseSeq q = n" by (auto simp: find_Some_iff)
  then have "q = p" using numbered_by_inj[OF cycles_okD(4)[OF assms], of q p] p by simp
  with q show "loadPhaseByCycleSeq s i n = Inr p" by (simp add: loadPhaseByCycleSeq_def)
qed (use loadPhaseByCycleSeqD in blast)

text \<open>A parent is acceptable when it is absent, or names a cycle of the same task.\<close>

definition parent_ok :: "db \<Rightarrow> string \<Rightarrow> string option \<Rightarrow> bool" where
  "parent_ok s taskID parent =
     (case parent of None \<Rightarrow> True
      | Some p \<Rightarrow> trim_space p \<noteq> [] \<and>
          list_ex (\<lambda>c. cycle_ID c = trim_space p \<and> cycle_TaskID c = taskID) (db_cycles s))"

lemma resolveParentCycle_ex:
  assumes "cycles_ok s" "parent_ok s t parent"
  shows "\<exists>q. resolveParentCycle s t parent = Inr q"
proof (cases parent)
  case None
  then show ?thesis by (simp add: resolveParentCycle_def)
next
  case (Some p)
  with assms(2) obtain c where c: "c \<in> set (db_cycles s)" "cycle_ID c = trim_space p" "cycle_TaskID c = t"
    and p: "trim_space p \<noteq> []"
    by (auto simp: parent_ok_def list_ex_iff)
  have "loadByID s (trim_space p) = Inr c" using loadByID_Inr_iff[OF assms(1)] c by simp
  with Some p c show ?thesis by (simp add: resolveParentCycle_def)
qed

lemma resolveParentCycleD: "resolveParentCycle s t parent = Inr q \<Longrightarrow> parent_ok s t parent"
  by (cases parent)
     (auto simp: resolveParentCycle_def parent_ok_def list_ex_iff Let_def if_Inl_Inr_iff dest: loadByIDD split: if_splits)

definition start_cycle_pre :: "db \<Rightarrow> start_cycle_input \<Rightarrow> bool" where
  "start_cycle_pre s inp \<longleftrightarrow>
     ValidateActor (sci_TriggeredBy inp) = Inr () \<and> trim_space (sci_TaskID inp) \<noteq> [] \<and>
     (\<exists>m. NormalizeJSONObject (sci_Meta inp) ''meta'' = Inr m) \<and>
     trim_space (sci_TaskID inp) \<in> task_ID ` set (db_tasks s) \<and>
     (\<forall>c\<in>set (db_cycles s). cycle_TaskID c = trim_space (sci_TaskID inp) \<longrightarrow> cycle_Status c \<noteq> CycleStatusRunning) \<and>
     parent_ok s (trim_space (sci_TaskID inp)) (sci_ParentCycleID inp)"

lemma Start_succeeds:
  assumes ok: "cycles_ok s" and fresh: "tx_uuid env \<notin> cycle_ID ` set (db_cycles s)"
    and pre: "start_cycle_pre s inp"
  shows "\<exists>s' c. Start env s inp = Inr (s', c)"
proof -
  let ?t = "trim_space (sci_TaskID inp)"
  from pre have v: "ValidateActor (sci_TriggeredBy inp) = Inr ()" "?t \<noteq> []"
    and t: "?t \<in> task_ID ` set (db_tasks s)" and nr: "assertNoRunningCycleForTask s ?t = Inr ()"
    by (simp_all add: start_cycle_pre_def assertNoRunningCycleForTask_Inr_iff)
  obtain m where m: "NormalizeJSONObject (sci_Meta inp) ''meta'' = Inr m" using pre by (auto simp: start_cycle_pre_def)
  obtain q where q: "resolveParentCycle s ?t (sci_ParentCycleID inp) = Inr q"
    using pre resolveParentCycle_ex[OF ok] unfolding start_cycle_pre_def by blast
  obtain tk where tk: "LoadTask s ?t = Inr tk" using t LoadTask_ex by blast
  define row where "row = \<lparr>cycle_ID = tx_uuid env, cycle_TaskID = ?t, cycle_AttemptSeq = nextAttemptSeq s ?t,
                cycle_Status = CycleStatusRunning, cycle_StartedAt = tx_now env, cycle_EndedAt = None,
                cycle_TriggeredBy = sci_TriggeredBy inp, cycle_ParentCycleID = q, cycle_MetaJSON = m\<rparr>"
  have row: "cycle_ID row = tx_uuid env" "cycle_TaskID row = ?t" "cycle_AttemptSeq row = nextAttemptSeq s ?t"
    "cycle_Status row = CycleStatusRunning" by (simp_all add: row_def)
  let ?s1 = "s\<lparr>db_cycles := db_cycles s @ [row]\<rparr>"
  have i: "insert_cycle s row = Inr ?s1" using insert_cycle_succeeds[OF ok] fresh row by simp
  have "cycles_ok ?s1"
    using cycles_ok_insert_cycle[OF ok i] row assertNoRunningCycleForTaskD[OF nr] by simp
  then obtain n s2 where "NextEventSeq ?s1 ?t = Inr n"
    "AppendEvent (tx_evnow env) ?s1 ?t n EventCycleStarted (sci_TriggeredBy inp) (startedPayload row) = Inr s2"
    using insert_event_succeeds[of ?s1 ?t] t payloads_normalize(1) by fastforce
  then have "Start env s inp = Inr (s2, row)"
    unfolding Start_def Let_def v(1) m rbind_simps tk nr q row_def[symmetric] i if_not_P[OF v(2)] by simp
  then show ?thesis by blast
qed

lemma Start_pre:
  assumes ok: "cycles_ok s" and st: "Start env s inp = Inr (s', c)"
  shows "start_cycle_pre s inp"
proof -
  from st obtain tk q m where "ValidateActor (sci_TriggeredBy inp) = Inr ()" "trim_space (sci_TaskID inp) \<noteq> []"
    "NormalizeJSONObject (sci_Meta inp) ''meta'' = Inr m" "LoadTask s (trim_space (sci_TaskID inp)) = Inr tk"
    "assertNoRunningCycleForTask s (trim_space (sci_TaskID inp)) = Inr ()"
    "resolveParentCycle s (trim_space (sci_TaskID inp)) (sci_ParentCycleID inp) = Inr q"
    by (auto simp: Start_def Let_def if_Inl_Inr_iff)
  then show ?thesis
    unfolding start_cycle_pre_def assertNoRunningCycleForTask_Inr_iff
    using LoadTask_mem resolveParentCycleD by auto
qed

definition start_phase_pre :: "db \<Rightarrow> string \<Rightarrow> phase \<Rightarrow> actor \<Rightarrow> bool" where
  "start_phase_pre s i ph by \<longleftrightarrow>
     ValidateActor by = Inr () \<and> trim_space i \<noteq> [] \<and> ValidPhase ph \<and>
     (\<exists>c\<in>set (db_cycles s). cycle_ID c = trim_space i \<and> \<not> TerminalCycleStatus (cycle_Status c) \<and>
        cycle_TaskID c \<in> task_ID ` set (db_tasks s)) \<and>
     (\<forall>p\<in>set (db_phases s). ph_CycleID p = trim_space i \<longrightarrow> ph_Status p \<noteq> PhaseStatusRunning) \<and>
     phase_allowed (lastPhaseForCycle s (trim_space i)) ph"

lemma StartPhase_succeeds:
  assumes ok: "cycles_ok s" and fresh: "tx_uuid env \<notin> ph_ID ` set (db_phases s)"
    and pre: "start_phase_pre s i ph by"
  shows "\<exists>s' p. StartPhase env s i ph by = Inr (s', p)"
proof -
  from pre obtain c where c: "c \<in> set (db_cycles s)" "cycle_ID c = trim_space i" "\<not> TerminalCycleStatus (cycle_Status c)"
    "cycle_TaskID c \<in> task_ID ` set (db_tasks s)"
    and v: "ValidateActor by = Inr ()" "trim_space i \<noteq> []" "ValidPhase ph"
    and nr: "assertNoRunningPhaseForCycle s (cycle_ID c) = Inr ()"
    and a: "phase_allowed (lastPhaseForCycle s (cycle_ID c)) ph"
    by (auto simp: start_phase_pre_def assertNoRunningPhaseForCycle_Inr_iff)
  have l: "loadByID s (trim_space i) = Inr c" using loadByID_Inr_iff[OF ok] c by simp
  define row where "row = new_phase_row env s (cycle_ID c) ph"
  let ?s1 = "s\<lparr>db_phases := db_phases s @ [row]\<rparr>"
  have ins: "insert_phase s row = Inr ?s1"
    using insert_phase_succeeds[OF ok, of row] fresh by (simp add: row_def)
  have "cycles_ok ?s1"
    using cycles_ok_insert_phase[OF ok ins c(1)] c a assertNoRunningPhaseForCycleD[OF nr] by (simp add: row_def)
  then obtain n s2 where e: "NextEventSeq ?s1 (cycle_TaskID c) = Inr n"
    "AppendEvent (tx_evnow env) ?s1 (cycle_TaskID c) n EventPhaseStarted by (phaseStartedPayload (cycle_ID c) row) = Inr s2"
    using insert_event_succeeds[of ?s1 "cycle_TaskID c"] c(4) payloads_normalize(3) by fastforce
  then have "StartPhase env s i ph by = Inr (set_event_seq (ph_ID row) n s2, row\<lparr>ph_EventSeq := Some n\<rparr>)"
    unfolding StartPhase_def Let_def v(1) rbind_simps l nr row_def[symmetric] ins if_not_P[OF v(2)]
    using v(3) c(3) a by simp
  then show ?thesis by blast
qed

definition complete_phase_pre :: "db \<Rightarrow> complete_phase_input \<Rightarrow> bool" where
  "complete_phase_pre s inp \<longleftrightarrow>
     ValidateActor (cpi_By inp) = Inr () \<and> trim_space (cpi_CycleID inp) \<noteq> [] \<and> 0 < cpi_PhaseSeq inp \<and>
     TerminalPhaseStatus (cpi_Status inp) \<and> (\<exists>d. NormalizeJSONObject (cpi_Details inp) ''details'' = Inr d) \<and>
     (\<exists>c\<in>set (db_cycles s). cycle_ID c = trim_space (cpi_CycleID inp) \<and> cycle_TaskID c \<in> task_ID ` set (db_tasks s)) \<and>
     (\<exists>p\<in>set (db_phases s). ph_CycleID p = trim_space (cpi_CycleID inp) \<and> ph_PhaseSeq p = cpi_PhaseSeq inp \<and>
        \<not> TerminalPhaseStatus (ph_Status p))"

lemma CompletePhase_succeeds:
  assumes ok: "cycles_ok s" and pre: "complete_phase_pre s inp"
  shows "\<exists>s' p. CompletePhase env s inp = Inr (s', p)"
proof -
  let ?i = "trim_space (cpi_CycleID inp)"
  from pre obtain c q d where c: "c \<in> set (db_cycles s)" "cycle_ID c = ?i" "cycle_TaskID c \<in> task_ID ` set (db_tasks s)"
    and q: "q \<in> set (db_phases s)" "ph_CycleID q = ?i" "ph_PhaseSeq q = cpi_PhaseSeq inp" "\<not> TerminalPhaseStatus (ph_Status q)"
    and v: "ValidateActor (cpi_By inp) = Inr ()" "?i \<noteq> []" "\<not> cpi_PhaseSeq inp \<le> 0" "TerminalPhaseStatus (cpi_Status inp)"
    and d: "NormalizeJSONObject (cpi_Details inp) ''details'' = Inr d"
    by (auto simp: complete_phase_pre_def)
  have l: "loadByID s ?i = Inr c" "loadPhaseByCycleSeq s ?i (cpi_PhaseSeq inp) = Inr q"
    using loadByID_Inr_iff[OF ok] loadPhaseByCycleSeq_Inr_iff[OF ok] c q by simp_all
  define m where "m = mergePhaseDetailsJSON (ph_DetailsJSON q) d"
  let ?s1 = "s\<lparr>db_phases := update_where (\<lambda>x. ph_ID x = ph_ID q) (complete_update inp (tx_now env) m) (db_phases s)\<rparr>"
  have "cycles_ok ?s1"
    by (rule cycles_ok_complete_phase[OF ok q(1) q(4)]) (simp_all add: v(4))
  then obtain n s2 where "NextEventSeq ?s1 (cycle_TaskID c) = Inr n"
    "AppendEvent (tx_evnow env) ?s1 (cycle_TaskID c) n (mirrorEventTypeForPhaseStatus (cpi_Status inp)) (cpi_By inp)
       (phaseTerminatedPayload (cycle_ID c) (complete_update inp (tx_now env) m q)) = Inr s2"
    using insert_event_succeeds[of ?s1 "cycle_TaskID c"] c(3) payloads_normalize(4) by fastforce
  then have "\<exists>p. CompletePhase env s inp = Inr (set_event_seq (ph_ID q) n s2, p)"
    unfolding CompletePhase_def Let_def v(1) rbind_simps l d m_def[symmetric]
      complete_update_def[symmetric, abs_def] complete_update_def[symmetric] if_not_P[OF v(2)] if_not_P[OF v(3)]
    using v(4) q(4) by (simp add: ValidTerminalPhaseStatus_def)
  then show ?thesis by blast
qed

definition terminate_pre :: "db \<Rightarrow> string \<Rightarrow> cycle_status \<Rightarrow> actor \<Rightarrow> bool" where
  "terminate_pre s i st by \<longleftrightarrow>
     ValidateActor by = Inr () \<and> trim_space i \<noteq> [] \<and> TerminalCycleStatus st \<and>
     (\<exists>c\<in>set (db_cycles s). cycle_ID c = trim_space i \<and> \<not> TerminalCycleStatus (cycle_Status c) \<and>
        cycle_TaskID c \<in> task_ID ` set (db_tasks s)) \<and>
     (\<forall>p\<in>set (db_phases s). ph_CycleID p = trim_space i \<longrightarrow> ph_Status p \<noteq> PhaseStatusRunning)"

lemma Terminate_succeeds:
  assumes ok: "cycles_ok s" and pre: "terminate_pre s i st by"
  shows "\<exists>s' c. Terminate env s i st reason by = Inr (s', c)"
proof -
  from pre obtain c where c: "c \<in> set (db_cycles s)" "cycle_ID c = trim_space i" "\<not> TerminalCycleStatus (cycle_Status c)"
    "cycle_TaskID c \<in> task_ID ` set (db_tasks s)"
    and v: "ValidateActor by = Inr ()" "trim_space i \<noteq> []" "TerminalCycleStatus st"
    and nr: "assertNoRunningPhaseForCycle s (cycle_ID c) = Inr ()"
    by (auto simp: terminate_pre_def assertNoRunningPhaseForCycle_Inr_iff)
  have l: "loadByID s (trim_space i) = Inr c" using loadByID_Inr_iff[OF ok] c by simp
  let ?s1 = "set_cycle_status (cycle_ID c) st (tx_now env) s"
  have ok1: "cycles_ok ?s1"
    unfolding set_cycle_status_def by (rule cycles_ok_terminate[OF ok v(3) assertNoRunningPhaseForCycleD[OF nr]])
  define pl where "pl = terminatedPayload (c\<lparr>cycle_Status := st, cycle_EndedAt := Some (tx_now env)\<rparr>) (trim_space reason)
     (if mirrorEventTypeForCycleStatus st = EventCycleFailed
      then failedExecuteSummary ?s1 (cycle_ID c) (trim_space reason) else [])"
  have "\<exists>obj. NormalizeJSONObject pl ''data'' = Inr obj" unfolding pl_def by (rule payloads_normalize)
  then obtain n s2 where "NextEventSeq ?s1 (cycle_TaskID c) = Inr n"
    "AppendEvent (tx_evnow env) ?s1 (cycle_TaskID c) n (mirrorEventTypeForCycleStatus st) by pl = Inr s2"
    using insert_event_succeeds[OF ok1, of "cycle_TaskID c"] c(4) by fastforce
  then have "\<exists>d. Terminate env s i st reason by = Inr (s2, d)"
    unfolding Terminate_def Let_def v(1) rbind_simps l nr set_cycle_status_def[symmetric] pl_def[symmetric] if_not_P[OF v(2)]
    using v(3) c(3) by (simp add: ValidTerminalCycleStatus_def)
  then show ?thesis by blast
qed

section \<open>Sample state\<close>

text \<open>A small database for concrete instances: one ready task without cycles.\<close>

definition sample_task :: "string \<Rightarrow> task" where
  "sample_task i = \<lparr>task_ID = i, task_Title = ''demo'', task_InitialPrompt = ''do it'', task_Status = StatusReady,
     task_Priority = PriorityMedium, task_ProjectID = None, task_ProjectContextItemIDs = [], task_Tags = [],
     task_Milestone = None, task_Gate = None, task_DependsOn = [], task_Runner = ''cursor'', task_CursorModel = [],
     task_RunnerConfig = [], task_PickupNotBefore = None, task_CriteriaSatisfiedAt = None,
     task_PendingRetry = None, task_CreatedAt = None, task_WorktreeID = None\<rparr>"

definition sample_db :: db where
  "sample_db = empty_db\<lparr>db_tasks := [sample_task ''t'']\<rparr>"

definition sample_env :: "string \<Rightarrow> txenv" where
  "sample_env i = \<lparr>tx_now = 10, tx_evnow = 11, tx_uuid = i, tx_uuid2 = ''corr''\<rparr>"

definition sample_cycle :: task_cycle where
  "sample_cycle = \<lparr>cycle_ID = ''c'', cycle_TaskID = ''t'', cycle_AttemptSeq = 1, cycle_Status = CycleStatusRunning,
     cycle_StartedAt = 10, cycle_EndedAt = None, cycle_TriggeredBy = ActorAgent, cycle_ParentCycleID = None,
     cycle_MetaJSON = []\<rparr>"

definition sample_phase :: cycle_phase where
  "sample_phase = \<lparr>ph_ID = ''p'', ph_CycleID = ''c'', ph_Phase = PhaseExecute, ph_PhaseSeq = 1,
     ph_Status = PhaseStatusRunning, ph_StartedAt = 10, ph_EndedAt = None, ph_Summary = None,
     ph_DetailsJSON = [(PhaseDetailsRunCorrelationID, JStr ''corr'')], ph_EventSeq = None\<rparr>"

text \<open>The same database with a running cycle, and with a running execute phase in it.\<close>

definition sample_db1 :: db where
  "sample_db1 = sample_db\<lparr>db_cycles := [sample_cycle]\<rparr>"

definition sample_db2 :: db where
  "sample_db2 = sample_db1\<lparr>db_phases := [sample_phase]\<rparr>"

lemmas sample_defs = sample_db_def sample_db1_def sample_db2_def sample_env_def sample_cycle_def
  sample_phase_def sample_task_def empty_db_def

lemma numbered_singleton_1 [simp]: "numbered [1]"
  by (simp add: numbered_def)

lemma sample_dbs_ok: "cycles_ok sample_db" "cycles_ok sample_db1" "cycles_ok sample_db2"
proof -
  show "cycles_ok sample_db" by (rule cycles_okI) (auto simp: sample_defs cycle_phases_def)
  show "cycles_ok sample_db1"
    by (rule cycles_okI) (auto simp: sample_defs cycle_phases_def numbered_by_def cycle_status_ok_def)
  show "cycles_ok sample_db2"
    by (rule cycles_okI)
       (auto simp: sample_defs cycle_phases_def numbered_by_def cycle_status_ok_def phase_status_ok_def phase_allowed_def)
qed

lemma trim_space_samples [simp]:
  "trim_space ''t'' = ''t''" "trim_space ''c'' = ''c''" "trim_space ''p'' = ''p''"
  by code_simp+

section \<open>Properties\<close>

text \<open>Starting a cycle succeeds exactly when the actor is known, the task id is not blank and
  names a task, the meta is a JSON object (or blank), the task has no running cycle and the parent,
  if given, is a cycle of the same task. No other input is refused and nothing else is accepted.\<close>

theorem start_cycle_succeeds_iff:
  assumes "cycles_ok s" "tx_uuid env \<notin> cycle_ID ` set (db_cycles s)"
  shows "(\<exists>s' c. Start env s inp = Inr (s', c)) \<longleftrightarrow> start_cycle_pre s inp"
  using Start_succeeds[OF assms] Start_pre[OF assms(1)] by blast

theorem start_cycle_succeeds_iff_witness:
  "\<exists>s' c. Start (sample_env ''c'') sample_db
     \<lparr>sci_TaskID = ''t'', sci_TriggeredBy = ActorAgent, sci_ParentCycleID = None, sci_Meta = PBlank\<rparr> = Inr (s', c)"
proof -
  have "start_cycle_pre sample_db
     \<lparr>sci_TaskID = ''t'', sci_TriggeredBy = ActorAgent, sci_ParentCycleID = None, sci_Meta = PBlank\<rparr>"
    by (simp add: start_cycle_pre_def sample_defs NormalizeJSONObject_def parent_ok_def)
  then show ?thesis
    using start_cycle_succeeds_iff[OF sample_dbs_ok(1), of "sample_env ''c''"] by (simp add: sample_defs)
qed

text \<open>What a started phase leaves behind, written without the code's own numbering: the row continues the cycle's
  phases, runs, and points to the audit event, which continues the task's events; every other row of every
  table stays as it was.\<close>

definition phase_started :: "txenv \<Rightarrow> db \<Rightarrow> task_cycle \<Rightarrow> phase \<Rightarrow> actor \<Rightarrow> db \<Rightarrow> cycle_phase \<Rightarrow> bool" where
  "phase_started env s c ph by s' p \<longleftrightarrow>
     (let q = int (length (filter (\<lambda>r. ph_CycleID r = cycle_ID c) (db_phases s))) + 1;
          n = int (length (filter (\<lambda>e. ev_TaskID e = cycle_TaskID c) (db_events s))) + 1 in
      p = \<lparr>ph_ID = tx_uuid env, ph_CycleID = cycle_ID c, ph_Phase = ph, ph_PhaseSeq = q, ph_Status = PhaseStatusRunning,
           ph_StartedAt = tx_now env, ph_EndedAt = None, ph_Summary = None,
           ph_DetailsJSON = [(PhaseDetailsRunCorrelationID, JStr (tx_uuid2 env))], ph_EventSeq = Some n\<rparr> \<and>
      s' = s\<lparr>db_phases := db_phases s @ [p],
            db_events := db_events s @ [\<lparr>ev_TaskID = cycle_TaskID c, ev_Seq = n, ev_At = tx_evnow env, ev_Type = EventPhaseStarted,
              ev_By = by,
              ev_Data = [(''cycle_id'', JStr (cycle_ID c)), (''phase'', JStr (phase_str ph)), (''phase_seq'', JNum q)] @
                (if tx_uuid2 env = [] then [] else [(PhaseDetailsRunCorrelationID, JStr (tx_uuid2 env))]),
              ev_UserResponse = None, ev_UserResponseAt = None, ev_ResponseThread = None\<rparr>]\<rparr>)"

lemma coalesce_max_numbered_by:
  "numbered_by k f rs \<Longrightarrow> coalesce_max (map f (filter (\<lambda>r. k r = x) rs)) = int (length (filter (\<lambda>r. k r = x) rs))"
  by (simp add: numbered_by_def coalesce_max_numbered)

lemma update_where_snoc_fresh:
  "f r \<notin> f ` set rs \<Longrightarrow> update_where (\<lambda>x. f x = f r) u (rs @ [r]) = rs @ [u r]"
  by (induction rs) (auto simp: update_where_def)

lemma StartPhase_started:
  assumes ok: "cycles_ok s" and st: "StartPhase env s i ph by = Inr (s', p)"
  shows "\<exists>c\<in>set (db_cycles s). cycle_ID c = trim_space i \<and> phase_started env s c ph by s' p"
proof -
  from st obtain c row s1 n s2 where l: "loadByID s (trim_space i) = Inr c"
    and row: "row = new_phase_row env s (cycle_ID c) ph"
    and ins: "insert_phase s row = Inr s1" and n: "NextEventSeq s1 (cycle_TaskID c) = Inr n"
    and e: "AppendEvent (tx_evnow env) s1 (cycle_TaskID c) n EventPhaseStarted by (phaseStartedPayload (cycle_ID c) row) = Inr s2"
    and s': "s' = set_event_seq (ph_ID row) n s2" and p: "p = row\<lparr>ph_EventSeq := Some n\<rparr>"
    by (elim StartPhaseE)
  note d = insert_phaseD[OF ins]
  have q: "nextPhaseSeq s (cycle_ID c) = int (length (filter (\<lambda>r. ph_CycleID r = cycle_ID c) (db_phases s))) + 1"
    using coalesce_max_numbered_by[OF cycles_okD(4)[OF ok]] by (simp add: nextPhaseSeq_def cycle_phases_def)
  have m: "n = int (length (filter (\<lambda>e. ev_TaskID e = cycle_TaskID c) (db_events s))) + 1"
    using n coalesce_max_numbered_by[OF cycles_okD(5)[OF ok]] by (auto simp: NextEventSeq_def d(1) split: if_splits)
  have "s2 = s1\<lparr>db_events := db_events s1 @ [\<lparr>ev_TaskID = cycle_TaskID c, ev_Seq = n, ev_At = tx_evnow env, ev_Type = EventPhaseStarted,
      ev_By = by, ev_Data = [(''cycle_id'', JStr (cycle_ID c)), (''phase'', JStr (phase_str ph)), (''phase_seq'', JNum (ph_PhaseSeq row))] @
        (if tx_uuid2 env = [] then [] else [(PhaseDetailsRunCorrelationID, JStr (tx_uuid2 env))]),
      ev_UserResponse = None, ev_UserResponseAt = None, ev_ResponseThread = None\<rparr>]\<rparr>"
    using e by (auto simp: AppendEvent_def NormalizeJSONObject_def phaseStartedPayload_def insert_event_def row
        RunCorrelationIDFromDetailsJSON_def json_string_at_def Let_def split: if_splits)
  then have "phase_started env s c ph by s' p"
    using d update_where_snoc_fresh[of ph_ID row "db_phases s"]
    by (simp add: phase_started_def Let_def s' p set_event_seq_def m q row new_phase_row_def)
  then show ?thesis using loadByIDD[OF l] by blast
qed

text \<open>C8. A phase starts exactly when the actor and phase are known, the cycle exists and is not
  terminal, none of its phases is running, and the phase state machine allows the phase after the
  last one (pipeline edge, resume after a process interrupt, or a verify-only retry). What it then leaves behind
  is fixed entirely: one running row of that phase with the next number of the cycle, linked to one
  \<open>phase_started\<close> event with the next number of the task, and nothing else.\<close>

theorem start_phase_succeeds_iff:
  assumes "cycles_ok s" "tx_uuid env \<notin> ph_ID ` set (db_phases s)"
  shows "((\<exists>s' p. StartPhase env s i ph by = Inr (s', p)) \<longleftrightarrow> start_phase_pre s i ph by) \<and>
    (\<forall>s' p. StartPhase env s i ph by = Inr (s', p) \<longrightarrow>
       (\<exists>c\<in>set (db_cycles s). cycle_ID c = trim_space i \<and> phase_started env s c ph by s' p))"
proof (intro conjI iffI allI impI)
  assume "\<exists>s' p. StartPhase env s i ph by = Inr (s', p)"
  then obtain s' p c where l: "loadByID s (trim_space i) = Inr c"
    and g: "ValidateActor by = Inr ()" "trim_space i \<noteq> []" "ValidPhase ph" "\<not> TerminalCycleStatus (cycle_Status c)"
      "assertNoRunningPhaseForCycle s (cycle_ID c) = Inr ()" "phase_allowed (lastPhaseForCycle s (cycle_ID c)) ph"
    and st: "StartPhase env s i ph by = Inr (s', p)"
    by (auto simp: StartPhase_def Let_def if_Inl_Inr_iff)
  from st have "\<exists>d\<in>set (db_cycles s). cycle_ID d = ph_CycleID p \<and> cycle_TaskID d \<in> task_ID ` set (db_tasks s)"
    "ph_CycleID p = trim_space i"
    using StartPhase_audit(1,6)[OF st] by (auto simp: audited_def)
  then have "cycle_TaskID c \<in> task_ID ` set (db_tasks s)"
    using distinct_map_eq[OF cycles_okD(1)[OF assms(1)]] loadByIDD[OF l] by metis
  then show "start_phase_pre s i ph by"
    using g loadByIDD[OF l] by (auto simp: start_phase_pre_def assertNoRunningPhaseForCycle_Inr_iff)
qed (use StartPhase_succeeds[OF assms] StartPhase_started[OF assms(1)] in blast)+

theorem start_phase_succeeds_iff_witness:
  "\<exists>s' p. StartPhase (sample_env ''p'') sample_db1 ''c'' PhaseExecute ActorAgent = Inr (s', p) \<and>
     db_phases s' = [p] \<and> p = sample_phase\<lparr>ph_EventSeq := Some 1\<rparr> \<and>
     map ev_Type (db_events s') = [EventPhaseStarted] \<and> map ev_TaskID (db_events s') = [''t'']"
proof -
  have "start_phase_pre sample_db1 ''c'' PhaseExecute ActorAgent"
    by (simp add: start_phase_pre_def sample_defs phase_allowed_def lastPhaseForCycle_def cycle_phases_def)
  moreover note T = start_phase_succeeds_iff[OF sample_dbs_ok(2), of "sample_env ''p''" "''c''" PhaseExecute ActorAgent]
  moreover have "tx_uuid (sample_env ''p'') \<notin> ph_ID ` set (db_phases sample_db1)" by (simp add: sample_defs)
  ultimately obtain s' p c where st: "StartPhase (sample_env ''p'') sample_db1 ''c'' PhaseExecute ActorAgent = Inr (s', p)"
    "c \<in> set (db_cycles sample_db1)" "phase_started (sample_env ''p'') sample_db1 c PhaseExecute ActorAgent s' p"
    by blast
  then show ?thesis by (auto simp: phase_started_def Let_def sample_defs)
qed

text \<open>A phase completes exactly when the actor is known, the sequence number is positive, the
  requested status is terminal, the details are a JSON object, the cycle exists and the addressed
  phase exists and is still running; a finished phase can never be completed again.\<close>

theorem complete_phase_succeeds_iff:
  assumes "cycles_ok s"
  shows "(\<exists>s' p. CompletePhase env s inp = Inr (s', p)) \<longleftrightarrow> complete_phase_pre s inp"
proof
  assume "\<exists>s' p. CompletePhase env s inp = Inr (s', p)"
  then obtain s' p c q d where l: "loadByID s (trim_space (cpi_CycleID inp)) = Inr c"
    "loadPhaseByCycleSeq s (trim_space (cpi_CycleID inp)) (cpi_PhaseSeq inp) = Inr q"
    and g: "ValidateActor (cpi_By inp) = Inr ()" "trim_space (cpi_CycleID inp) \<noteq> []" "0 < cpi_PhaseSeq inp"
      "TerminalPhaseStatus (cpi_Status inp)" "NormalizeJSONObject (cpi_Details inp) ''details'' = Inr d"
      "\<not> TerminalPhaseStatus (ph_Status q)"
    and st: "CompletePhase env s inp = Inr (s', p)"
    by (auto simp: CompletePhase_def Let_def if_Inl_Inr_iff ValidTerminalPhaseStatus_def)
  have "ph_CycleID p = trim_space (cpi_CycleID inp)"
    using st loadPhaseByCycleSeqD(2) by (auto elim!: CompletePhaseE)
  with CompletePhase_audit(1)[OF st] obtain e where e: "e \<in> set (db_cycles s)" "cycle_ID e = trim_space (cpi_CycleID inp)"
    "cycle_TaskID e \<in> task_ID ` set (db_tasks s)"
    by (auto simp: audited_def)
  then show "complete_phase_pre s inp"
    using g loadPhaseByCycleSeqD[OF l(2)] unfolding complete_phase_pre_def by blast
qed (use CompletePhase_succeeds[OF assms] in blast)

definition sample_complete :: complete_phase_input where
  "sample_complete = \<lparr>cpi_CycleID = ''c'', cpi_PhaseSeq = 1, cpi_Status = PhaseStatusSucceeded, cpi_Summary = None,
     cpi_Details = PDoc (JObj [(''run_correlation_id'', JStr ''forged''), (''exit_code'', JNum 0)]), cpi_By = ActorAgent\<rparr>"

theorem complete_phase_succeeds_iff_witness:
  "\<exists>s' p. CompletePhase (sample_env ''x'') sample_db2 sample_complete = Inr (s', p)"
proof -
  have "complete_phase_pre sample_db2 sample_complete"
    by (simp add: complete_phase_pre_def sample_complete_def sample_defs NormalizeJSONObject_def)
  then show ?thesis
    using complete_phase_succeeds_iff[OF sample_dbs_ok(3), of "sample_env ''x''" sample_complete] by blast
qed

text \<open>A cycle terminates exactly when the actor is known, the requested status is terminal, the
  cycle exists and is not yet terminal and none of its phases is running.\<close>

theorem terminate_succeeds_iff:
  assumes "cycles_ok s"
  shows "(\<exists>s' c. Terminate env s i st reason by = Inr (s', c)) \<longleftrightarrow> terminate_pre s i st by"
proof
  assume "\<exists>s' c. Terminate env s i st reason by = Inr (s', c)"
  then obtain s' c c0 where l: "loadByID s (trim_space i) = Inr c0"
    and g: "ValidateActor by = Inr ()" "trim_space i \<noteq> []" "TerminalCycleStatus st" "\<not> TerminalCycleStatus (cycle_Status c0)"
      "assertNoRunningPhaseForCycle s (cycle_ID c0) = Inr ()"
    and c: "c = c0\<lparr>cycle_Status := st, cycle_EndedAt := Some (tx_now env)\<rparr>"
    and t: "Terminate env s i st reason by = Inr (s', c)"
    by (auto simp: Terminate_def Let_def if_Inl_Inr_iff ValidTerminalCycleStatus_def)
  have "cycle_TaskID c0 \<in> task_ID ` set (db_tasks s)"
    using Terminate_audit(1)[OF t] c by (simp add: audited_def)
  then show "terminate_pre s i st by"
    using g loadByIDD[OF l] unfolding terminate_pre_def assertNoRunningPhaseForCycle_Inr_iff by auto
qed (use Terminate_succeeds[OF assms] in blast)

theorem terminate_succeeds_iff_witness:
  "\<exists>s' c. Terminate (sample_env ''x'') sample_db1 ''c'' CycleStatusAborted ''stop'' ActorUser = Inr (s', c)"
proof -
  have "terminate_pre sample_db1 ''c'' CycleStatusAborted ActorUser"
    by (simp add: terminate_pre_def sample_defs)
  then show ?thesis using terminate_succeeds_iff[OF sample_dbs_ok(2)] by blast
qed

text \<open>C9. Terminal rows are immutable: whatever cycle operation is run with whatever input, every
  finished cycle row and every finished phase row is still in its table, unchanged in all columns.\<close>

theorem terminal_rows_immutable:
  assumes "cycle_step s s'" "cycles_ok s"
  shows "{c \<in> set (db_cycles s). TerminalCycleStatus (cycle_Status c)} \<subseteq> set (db_cycles s') \<and>
         {p \<in> set (db_phases s). TerminalPhaseStatus (ph_Status p)} \<subseteq> set (db_phases s')"
  using cycle_step_terminal_cycle[OF assms] cycle_step_terminal_phase[OF assms] by blast

theorem terminal_rows_immutable_witness:
  "\<exists>s'. cycle_step sample_db2 s' \<and>
     {p \<in> set (db_phases sample_db2). TerminalPhaseStatus (ph_Status p)} \<subseteq> set (db_phases s')"
proof -
  have "complete_phase_pre sample_db2 sample_complete"
    by (simp add: complete_phase_pre_def sample_complete_def sample_defs NormalizeJSONObject_def)
  then obtain s' where "cycle_step sample_db2 s'"
    using CompletePhase_succeeds[OF sample_dbs_ok(3)] cycle_step.step_CompletePhase by blast
  then show ?thesis using terminal_rows_immutable[OF _ sample_dbs_ok(3)] by blast
qed

text \<open>The audit log is a complete witness of cycle activity: each successful operation appends
  exactly one event to its task, with the next sequence number, the actor of the call and the event
  type that mirrors the transition (aborted and failed cycles share one type), and a stream event
  appends none. Failed operations change nothing, being errors.\<close>

theorem cycle_operations_audited:
  "(case Start env s si of Inl _ \<Rightarrow> True
    | Inr (s', c) \<Rightarrow> audited s s' (trim_space (sci_TaskID si)) EventCycleStarted (sci_TriggeredBy si)) \<and>
   (case Terminate env s i st reason by of Inl _ \<Rightarrow> True
    | Inr (s', c) \<Rightarrow> audited s s' (cycle_TaskID c)
        (if st = CycleStatusSucceeded then EventCycleCompleted else EventCycleFailed) by) \<and>
   (case StartPhase env s i ph by of Inl _ \<Rightarrow> True
    | Inr (s', p) \<Rightarrow> (\<exists>c\<in>set (db_cycles s). cycle_ID c = ph_CycleID p \<and>
        audited s s' (cycle_TaskID c) EventPhaseStarted by)) \<and>
   (case CompletePhase env s cpi of Inl _ \<Rightarrow> True
    | Inr (s', p) \<Rightarrow> (\<exists>c\<in>set (db_cycles s). cycle_ID c = ph_CycleID p \<and>
        audited s s' (cycle_TaskID c) (mirrorEventTypeForPhaseStatus (cpi_Status cpi)) (cpi_By cpi))) \<and>
   (case AppendStreamEvent env s asi of Inl _ \<Rightarrow> True | Inr (s', e) \<Rightarrow> db_events s' = db_events s)"
proof (intro conjI)
  show "case Start env s si of Inl _ \<Rightarrow> True
    | Inr (s', c) \<Rightarrow> audited s s' (trim_space (sci_TaskID si)) EventCycleStarted (sci_TriggeredBy si)"
    by (auto split: sum.split) (metis Start_audit(1) StartE)
  show "case Terminate env s i st reason by of Inl _ \<Rightarrow> True
    | Inr (s', c) \<Rightarrow> audited s s' (cycle_TaskID c)
        (if st = CycleStatusSucceeded then EventCycleCompleted else EventCycleFailed) by"
    using Terminate_audit(1) by (cases st; fastforce split: sum.split)
  show "case AppendStreamEvent env s asi of Inl _ \<Rightarrow> True | Inr (s', e) \<Rightarrow> db_events s' = db_events s"
    by (auto split: sum.split elim!: AppendStreamEventE dest!: insert_streamD)
qed (auto split: sum.split dest: StartPhase_audit(1) CompletePhase_audit(1))

section \<open>Details, failure text and pages\<close>

lemma map_of_foldl_update:
  "map_of (foldl (\<lambda>b kv. AList.update (fst kv) (snd kv) b) base inc) k =
     (case map_of (rev inc) k of Some v \<Rightarrow> Some v | None \<Rightarrow> map_of base k)"
proof (induction inc arbitrary: base)
  case Nil
  show ?case by simp
next
  case (Cons kv inc)
  show ?case
    by (simp add: Cons update_conv' map_add_def split: option.split)
qed

text \<open>Completing a phase merges the details key by key: the incoming value wins, keys that are
  not mentioned keep theirs, and a correlation id minted when the phase started can be neither
  dropped nor overwritten by the completion payload.\<close>

theorem merge_details_spec:
  "map_of (mergePhaseDetailsJSON existing incoming) k =
     (if k = PhaseDetailsRunCorrelationID \<and> RunCorrelationIDFromDetailsJSON existing \<noteq> []
      then Some (JStr (RunCorrelationIDFromDetailsJSON existing))
      else (case map_of (rev incoming) k of Some v \<Rightarrow> Some v | None \<Rightarrow> map_of existing k))"
  by (auto simp: mergePhaseDetailsJSON_def Let_def update_conv' map_of_foldl_update split: option.split)

text \<open>The failure text of a cycle is bounded: when the classification or the summary of the
  execute phase supplies it, it is at most 800 runes and one ellipsis, hence at most 3203 bytes;
  otherwise it is the failure kind (spelled out for the usage limit) or the reason handed in.\<close>

theorem failure_surface_bounded:
  "let m = FailureSurfaceMessage True reason summary details in
     length m \<le> 3203 \<or> m = failureKindFromDetails details \<or> m = reason"
  using truncateReasonRunes_bytes[of MaxFailureSurfaceRunes]
  by (auto simp: FailureSurfaceMessage_def Let_def MaxFailureSurfaceRunes_def humanizeFailureKind_def)

lemma task_cycles_strict:
  assumes "cycles_ok s"
  shows "sorted_wrt (\<lambda>x y. cycle_AttemptSeq x < cycle_AttemptSeq y) (filter (\<lambda>c. cycle_TaskID c = t) (db_cycles s))"
proof -
  have "sorted_wrt (<) (map cycle_AttemptSeq (filter (\<lambda>c. cycle_TaskID c = t) (db_cycles s)))"
    using cycles_okD(3)[OF assms] by (intro numbered_strict) (simp add: numbered_by_def)
  then show ?thesis by (simp only: sorted_wrt_map)
qed

text \<open>A page of attempts holds the newest attempts below the cursor, newest first: it is a
  prefix, of between 1 and 200 rows when so many exist, of the reversed attempt list of the task
  restricted to smaller sequence numbers, so walking the pages visits every attempt once.\<close>

theorem list_cycles_page:
  assumes "cycles_ok s" "trim_space t \<in> task_ID ` set (db_tasks s)" "trim_space t \<noteq> []"
  shows "ListForTaskBefore s t before limit = Inr
     (take (nat (if limit \<le> 0 then 50 else min limit 200))
       (rev (filter (\<lambda>c. cycle_TaskID c = trim_space t \<and> (0 < before \<longrightarrow> cycle_AttemptSeq c < before)) (db_cycles s))))"
proof -
  let ?q = "filter (\<lambda>c. cycle_TaskID c = trim_space t) (db_cycles s)"
  let ?q' = "if 0 < before then filter (\<lambda>c. cycle_AttemptSeq c < before) ?q else ?q"
  have "sorted_wrt (\<lambda>x y. cycle_AttemptSeq x < cycle_AttemptSeq y) ?q'"
    using task_cycles_strict[OF assms(1), of "trim_space t"]
    by (simp del: filter_filter add: sorted_wrt_filter)
  then have "sort_key (\<lambda>c. - cycle_AttemptSeq c) ?q' = rev ?q'" by (rule sort_key_strict_desc)
  moreover have "?q' = filter (\<lambda>c. cycle_TaskID c = trim_space t \<and> (0 < before \<longrightarrow> cycle_AttemptSeq c < before)) (db_cycles s)"
    by (auto intro: filter_cong)
  moreover obtain tk where "LoadTask s (trim_space t) = Inr tk" using LoadTask_ex[OF assms(2)] by blast
  ultimately show ?thesis
    using assms(3) by (auto simp: ListForTaskBefore_def Let_def min_def)
qed

theorem list_cycles_page_witness:
  "ListForTaskBefore sample_db1 ''t'' 0 0 = Inr [sample_cycle]"
proof -
  have "trim_space ''t'' \<in> task_ID ` set (db_tasks sample_db1)" "trim_space ''t'' \<noteq> []" by (simp_all add: sample_defs)
  from list_cycles_page[OF sample_dbs_ok(2) this, of 0 0] show ?thesis by (simp add: sample_defs)
qed

end
