(* ===== verification/Store_Dependencies.thy ===== *)
theory Store_Dependencies
  imports Scheduling Cycle_Properties
begin

text \<open>
  Dependency edges between tasks (\<^verbatim>\<open>pkgs/tasks/store/internal/tasks/dependencies.go\<close>,
  \<^verbatim>\<open>dependency_edges.go\<close>, \<^verbatim>\<open>readiness_deps.go\<close>, \<^verbatim>\<open>readiness.go\<close> and the in-transaction variants of
  \<^verbatim>\<open>task_model_patches.go\<close>), and reading a task with its edges hydrated. The breadth-first walk of
  \<^verbatim>\<open>wouldCreateDependencyCycle\<close> is shown to decide reachability, so every write keeps the graph
  acyclic; and in an acyclic graph some unfinished task is never waiting.
\<close>

section \<open>Reading tasks (crud.go, list_created.go)\<close>

definition dep_rows :: "db \<Rightarrow> string \<Rightarrow> task_dependency list" where
  "dep_rows s taskID = sort_key td_CreatedAt (filter (\<lambda>r. td_TaskID r = taskID) (db_deps s))"

definition listDependencyEdges :: "db \<Rightarrow> string \<Rightarrow> dependency_edge list" where
  "listDependencyEdges s taskID =
     map (\<lambda>r. \<lparr>de_TaskID = td_DependsOnTaskID r, de_Satisfies = NormalizeDependencySatisfies (td_Satisfies r)\<rparr>)
       (dep_rows s taskID)"

definition ListDependencyEdges :: "db \<Rightarrow> string \<Rightarrow> dependency_edge list res" where
  "ListDependencyEdges s taskID0 =
     (let taskID = trim_space taskID0 in
      if taskID = [] then Inl (ErrInvalidInput ''id'') else Inr (listDependencyEdges s taskID))"

definition DependencyEdgeIDs :: "dependency_edge list \<Rightarrow> string list" where
  "DependencyEdgeIDs edges = map de_TaskID edges"

definition ListDependencies :: "db \<Rightarrow> string \<Rightarrow> string list res" where
  "ListDependencies s taskID = rbind (ListDependencyEdges s taskID) (\<lambda>es. Inr (DependencyEdgeIDs es))"

definition ListDependents :: "db \<Rightarrow> string \<Rightarrow> string list res" where
  "ListDependents s dep0 =
     (let dep = trim_space dep0 in
      if dep = [] then Inl (ErrInvalidInput ''id'')
      else Inr (map td_TaskID (sort_key td_CreatedAt (filter (\<lambda>r. td_DependsOnTaskID r = dep) (db_deps s)))))"

text \<open>The creation instant is that of the first audit row, if it is a creation event.\<close>

definition created_at_of :: "db \<Rightarrow> string \<Rightarrow> gotime option" where
  "created_at_of s i =
     map_option ev_At (List.find (\<lambda>e. ev_TaskID e = i \<and> ev_Seq e = 1 \<and> ev_Type e = EventTaskCreated) (db_events s))"

definition hydrateDependsOn :: "db \<Rightarrow> task \<Rightarrow> task res" where
  "hydrateDependsOn s t = rbind (ListDependencyEdges s (task_ID t)) (\<lambda>es. Inr (t\<lparr>task_DependsOn := es\<rparr>))"

definition hydrateCreatedAt :: "db \<Rightarrow> task \<Rightarrow> task" where
  "hydrateCreatedAt s t =
     (if trim_space (task_ID t) = [] then t
      else (case created_at_of s (task_ID t) of None \<Rightarrow> t | Some at \<Rightarrow> t\<lparr>task_CreatedAt := Some at\<rparr>))"

definition Task_Get :: "db \<Rightarrow> string \<Rightarrow> task res" where
  "Task_Get s i0 =
     (let i = trim_space i0 in
      if i = [] then Inl (ErrInvalidInput ''id'')
      else rbind (LoadTask s i) (\<lambda>t. rbind (hydrateDependsOn s t) (\<lambda>t'. Inr (hydrateCreatedAt s t'))))"

section \<open>The cycle check\<close>

definition dep_edges :: "db \<Rightarrow> (string \<times> string) list" where
  "dep_edges s = map (\<lambda>r. (td_TaskID r, td_DependsOnTaskID r)) (db_deps s)"

text \<open>One iteration of the outer loop scans the successors of the dequeued node: \<open>None\<close> when the
  target is among them, otherwise the grown \<^verbatim>\<open>seen\<close> set and queue.\<close>

fun bfs_scan :: "string \<Rightarrow> string list \<Rightarrow> string list \<Rightarrow> string list \<Rightarrow> (string list \<times> string list) option" where
  "bfs_scan target [] seen queue = Some (seen, queue)"
| "bfs_scan target (i # nxt) seen queue =
     (if i = target then None
      else if i \<in> set seen then bfs_scan target nxt seen queue
      else bfs_scan target nxt (i # seen) (queue @ [i]))"

lemma bfs_scan_Some:
  "bfs_scan t nxt seen queue = Some (seen', queue') \<Longrightarrow>
   t \<notin> set nxt \<and> set seen' = set seen \<union> set nxt \<and>
   (\<exists>new. queue' = queue @ new \<and> set new = set nxt - set seen \<and> distinct new)"
proof (induction nxt arbitrary: seen queue)
  case Nil
  then show ?case by simp
next
  case (Cons i nxt)
  show ?case
  proof (cases "i \<in> set seen")
    case True
    then show ?thesis using Cons by (auto split: if_splits)
  next
    case False
    then have "bfs_scan t nxt (i # seen) (queue @ [i]) = Some (seen', queue')" "i \<noteq> t"
      using Cons.prems by (auto split: if_splits)
    with Cons.IH obtain new where "t \<notin> set nxt" "set seen' = set (i # seen) \<union> set nxt"
      "queue' = (queue @ [i]) @ new" "set new = set nxt - set (i # seen)" "distinct new" by blast
    then show ?thesis using False \<open>i \<noteq> t\<close> by (auto intro!: exI[of _ "i # new"])
  qed
qed

lemma bfs_scan_None: "bfs_scan t nxt seen queue = None \<longleftrightarrow> t \<in> set nxt"
  by (induction nxt arbitrary: seen queue) auto

definition successors :: "(string \<times> string) list \<Rightarrow> string \<Rightarrow> string list" where
  "successors es cur = map snd (filter (\<lambda>e. fst e = cur) es)"

function bfs_walk :: "(string \<times> string) list \<Rightarrow> string \<Rightarrow> string list \<Rightarrow> string list \<Rightarrow> bool" where
  "bfs_walk es target [] seen = False"
| "bfs_walk es target (cur # queue) seen =
     (case bfs_scan target (successors es cur) seen queue of
        None \<Rightarrow> True
      | Some (seen', queue') \<Rightarrow> bfs_walk es target queue' seen')"
  by pat_completeness auto

text \<open>Every node enters the queue at most once: the unseen targets weigh twice as much as the queue.\<close>

termination
proof (relation "measure (\<lambda>(es, target, queue, seen). 2 * card (snd ` set es - set seen) + length queue)")
  fix es target cur queue seen x seen' queue'
  assume "bfs_scan target (successors es cur) seen queue = Some x" "(seen', queue') = x"
  then obtain new where s: "set seen' = set seen \<union> set (successors es cur)"
    and q: "queue' = queue @ new" "set new = set (successors es cur) - set seen" "distinct new"
    using bfs_scan_Some by metis
  have sub: "set new \<subseteq> snd ` set es - set seen" using q by (auto simp: successors_def)
  have "snd ` set es - set seen' = (snd ` set es - set seen) - set new" using s q by auto
  then have "card (snd ` set es - set seen') = card (snd ` set es - set seen) - length new"
    using sub q(3) by (simp add: card_Diff_subset distinct_card)
  moreover have "length new \<le> card (snd ` set es - set seen)"
    using sub q(3) card_mono[OF _ sub] by (simp add: distinct_card)
  ultimately show "((es, target, queue', seen'), es, target, cur # queue, seen)
    \<in> measure (\<lambda>(es, target, queue, seen). 2 * card (snd ` set es - set seen) + length queue)"
    using q(1) by simp
qed simp

definition wouldCreateDependencyCycle :: "db \<Rightarrow> string \<Rightarrow> string \<Rightarrow> bool" where
  "wouldCreateDependencyCycle s taskID dependsOnTaskID =
     (if taskID = dependsOnTaskID then True
      else bfs_walk (dep_edges s) taskID [dependsOnTaskID] [dependsOnTaskID])"

lemma set_successors: "set (successors es x) = {y. (x, y) \<in> set es}"
  by (force simp: successors_def)

text \<open>Loop invariant: queued nodes are seen, the target is not seen, and the successors of every
  seen node that has left the queue are seen.\<close>

lemma bfs_walk_correct:
  assumes "set queue \<subseteq> set seen" "distinct queue" "t \<notin> set seen"
    and "\<forall>x\<in>set seen - set queue. \<forall>y. (x, y) \<in> set es \<longrightarrow> y \<in> set seen"
  shows "bfs_walk es t queue seen \<longleftrightarrow> (\<exists>x\<in>set queue. (x, t) \<in> (set es)\<^sup>+)"
  using assms
proof (induction es t queue seen rule: bfs_walk.induct)
  case (1 es t seen)
  then show ?case by simp
next
  case (2 es t cur queue seen)
  show ?case
  proof (cases "bfs_scan t (successors es cur) seen queue")
    case None
    then have "(cur, t) \<in> set es" by (simp add: bfs_scan_None set_successors)
    then show ?thesis using None by auto
  next
    case (Some p)
    obtain seen' queue' where p: "p = (seen', queue')" by (cases p)
    from Some p obtain new where n: "t \<notin> set (successors es cur)"
      and s: "set seen' = set seen \<union> set (successors es cur)"
      and q: "queue' = queue @ new" "set new = set (successors es cur) - set seen" "distinct new"
      using bfs_scan_Some by blast
    have inv1: "set queue' \<subseteq> set seen'" using 2(2) q s by auto
    have inv2: "distinct queue'" using 2(2,3) q by auto
    have inv3: "t \<notin> set seen'" using 2(4) n s by simp
    have inv4: "\<forall>x\<in>set seen' - set queue'. \<forall>y. (x, y) \<in> set es \<longrightarrow> y \<in> set seen'"
    proof (intro ballI allI impI)
      fix x y
      assume x: "x \<in> set seen' - set queue'" and e: "(x, y) \<in> set es"
      show "y \<in> set seen'"
      proof (cases "x = cur")
        case True
        then show ?thesis using e s by (simp add: set_successors)
      next
        case False
        then have "x \<in> set seen - set (cur # queue)" using x s q by auto
        then have "y \<in> set seen" using 2(5) e by blast
        then show ?thesis using s by simp
      qed
    qed
    have IH: "bfs_walk es t queue' seen' \<longleftrightarrow> (\<exists>x\<in>set queue'. (x, t) \<in> (set es)\<^sup>+)"
      using 2(1)[OF Some p[symmetric] inv1 inv2 inv3 inv4] .
    have closed: "(\<exists>x\<in>set queue'. (x, t) \<in> (set es)\<^sup>+) \<longleftrightarrow> (\<exists>x\<in>set (cur # queue). (x, t) \<in> (set es)\<^sup>+)"
    proof
      assume "\<exists>x\<in>set queue'. (x, t) \<in> (set es)\<^sup>+"
      then show "\<exists>x\<in>set (cur # queue). (x, t) \<in> (set es)\<^sup>+"
        using q by (auto simp: set_successors intro: trancl_into_trancl2)
    next
      assume "\<exists>x\<in>set (cur # queue). (x, t) \<in> (set es)\<^sup>+"
      then obtain x where x: "x \<in> set seen'" "(x, t) \<in> (set es)\<^sup>+"
        using 2(2) s by auto
      from x(2) have "x \<in> set seen' \<Longrightarrow> \<exists>z\<in>set queue'. (z, t) \<in> (set es)\<^sup>+"
      proof (induction rule: converse_trancl_induct)
        case (base y)
        then show ?case using inv3 inv4 by blast
      next
        case (step y z)
        show ?case
        proof (cases "y \<in> set queue'")
          case True
          then show ?thesis using step(1,2) by (meson trancl_into_trancl2)
        next
          case False
          then have "z \<in> set seen'" using inv4 step(1,4) by blast
          then show ?thesis by (rule step(3))
        qed
      qed
      then show "\<exists>x\<in>set queue'. (x, t) \<in> (set es)\<^sup>+" using x by blast
    qed
    show ?thesis using IH closed Some p by simp
  qed
qed

lemma wouldCreateDependencyCycle_iff:
  "wouldCreateDependencyCycle s t d \<longleftrightarrow> (d, t) \<in> (set (dep_edges s))\<^sup>*"
proof (cases "t = d")
  case True
  then show ?thesis by (simp add: wouldCreateDependencyCycle_def)
next
  case False
  then have "bfs_walk (dep_edges s) t [d] [d] \<longleftrightarrow> (d, t) \<in> (set (dep_edges s))\<^sup>+"
    using bfs_walk_correct[of "[d]" "[d]" t "dep_edges s"] by simp
  then show ?thesis using False by (auto simp: wouldCreateDependencyCycle_def rtrancl_eq_or_trancl)
qed

section \<open>Writing edges\<close>

definition insert_dep :: "db \<Rightarrow> task_dependency \<Rightarrow> db res" where
  "insert_dep s r =
     (if (td_TaskID r, td_DependsOnTaskID r) \<in> set (dep_edges s) then Inl (ErrDB ''task_dependencies_pkey'')
      else if td_Satisfies r \<noteq> DependencySatisfiesDone then Inl (ErrDB ''chk_task_dependencies_satisfies'')
      else if td_TaskID r \<notin> set (map task_ID (db_tasks s)) \<or> td_DependsOnTaskID r \<notin> set (map task_ID (db_tasks s))
      then Inl (ErrDB ''fk_task_dependencies'')
      else Inr (s\<lparr>db_deps := db_deps s @ [r]\<rparr>))"

definition ensureTaskExists :: "db \<Rightarrow> string \<Rightarrow> unit res" where
  "ensureTaskExists s i =
     (if length (filter (\<lambda>t. task_ID t = i) (db_tasks s)) = 0 then Inl ErrNotFound else Inr ())"

definition newDependencyRow :: "string \<Rightarrow> string \<Rightarrow> dep_satisfies \<Rightarrow> gotime \<Rightarrow> task_dependency" where
  "newDependencyRow t d sat at = \<lparr>td_TaskID = t, td_DependsOnTaskID = d, td_Satisfies = sat, td_CreatedAt = at\<rparr>"

text \<open>A duplicate edge is meant to be accepted: the callback returns no error. But the refused insert has aborted
  the transaction, so the commit is turned into a rollback and reports it.\<close>

definition aborted_commit :: string where
  "aborted_commit = ''commit unexpectedly resulted in rollback''"

definition AddDependency :: "gotime \<Rightarrow> db \<Rightarrow> string \<Rightarrow> string \<Rightarrow> dep_satisfies \<Rightarrow> db res" where
  "AddDependency now s taskID0 dependsOn0 satisfies0 =
     (let taskID = trim_space taskID0; dependsOn = trim_space dependsOn0 in
      if taskID = [] \<or> dependsOn = [] then Inl (ErrInvalidInput ''task id and depends_on_task_id required'')
      else if taskID = dependsOn then Inl (ErrInvalidInput ''task cannot depend on itself'')
      else let satisfies = NormalizeDependencySatisfies satisfies0 in
      if \<not> ValidDependencySatisfies satisfies then Inl (ErrInvalidInput ''invalid dependency satisfies'')
      else
      rbind (ensureTaskExists s taskID) (\<lambda>_.
      rbind (ensureTaskExists s dependsOn) (\<lambda>_.
      if wouldCreateDependencyCycle s taskID dependsOn
      then Inl (ErrInvalidInput ''dependency would create a cycle'')
      else (case insert_dep s (newDependencyRow taskID dependsOn satisfies now) of
              Inl (ErrDB d) \<Rightarrow> Inl (ErrDB (if d = ''task_dependencies_pkey'' then aborted_commit else d))
            | Inl e \<Rightarrow> Inl e
            | Inr s' \<Rightarrow> Inr s'))))"

definition RemoveDependency :: "db \<Rightarrow> string \<Rightarrow> string \<Rightarrow> db res" where
  "RemoveDependency s taskID0 dependsOn0 =
     (let taskID = trim_space taskID0; dependsOn = trim_space dependsOn0 in
      if taskID = [] \<or> dependsOn = [] then Inl (ErrInvalidInput ''task id and depends_on_task_id required'')
      else let keep = filter (\<lambda>r. \<not> (td_TaskID r = taskID \<and> td_DependsOnTaskID r = dependsOn)) (db_deps s) in
      if length keep = length (db_deps s) then Inl ErrNotFound
      else Inr (s\<lparr>db_deps := keep\<rparr>))"

fun normalizeDependencyEdges_from ::
  "string \<Rightarrow> string list \<Rightarrow> dependency_edge list \<Rightarrow> dependency_edge list \<Rightarrow> dependency_edge list res" where
  "normalizeDependencyEdges_from taskID seen out [] = Inr out"
| "normalizeDependencyEdges_from taskID seen out (e # es) =
     (let i = trim_space (de_TaskID e) in
      if i = [] then normalizeDependencyEdges_from taskID seen out es
      else if i = taskID then Inl (ErrInvalidInput ''task cannot depend on itself'')
      else let satisfies = NormalizeDependencySatisfies (de_Satisfies e) in
      if \<not> ValidDependencySatisfies satisfies then Inl (ErrInvalidInput ''invalid dependency satisfies'')
      else if i \<in> set seen then normalizeDependencyEdges_from taskID seen out es
      else normalizeDependencyEdges_from taskID (i # seen) (out @ [\<lparr>de_TaskID = i, de_Satisfies = satisfies\<rparr>]) es)"

definition normalizeDependencyEdges :: "string \<Rightarrow> dependency_edge list \<Rightarrow> dependency_edge list res" where
  "normalizeDependencyEdges taskID edges = normalizeDependencyEdges_from taskID [] [] edges"

fun check_new_edges :: "db \<Rightarrow> string \<Rightarrow> dependency_edge list \<Rightarrow> unit res" where
  "check_new_edges s taskID [] = Inr ()"
| "check_new_edges s taskID (e # es) =
     rbind (ensureTaskExists s (de_TaskID e)) (\<lambda>_.
     if wouldCreateDependencyCycle s taskID (de_TaskID e)
     then Inl (ErrInvalidInput ''dependency would create a cycle'')
     else check_new_edges s taskID es)"

fun insert_edges :: "gotime \<Rightarrow> db \<Rightarrow> string \<Rightarrow> dependency_edge list \<Rightarrow> db res" where
  "insert_edges now s taskID [] = Inr s"
| "insert_edges now s taskID (e # es) =
     rbind (insert_dep s (newDependencyRow taskID (de_TaskID e) (de_Satisfies e) now)) (\<lambda>s'.
     insert_edges now s' taskID es)"

text \<open>The in-transaction variant used by create and update.\<close>

definition clear_deps :: "db \<Rightarrow> string \<Rightarrow> db" where
  "clear_deps s taskID = s\<lparr>db_deps := filter (\<lambda>r. td_TaskID r \<noteq> taskID) (db_deps s)\<rparr>"

definition setDependenciesInTx :: "gotime \<Rightarrow> db \<Rightarrow> string \<Rightarrow> dependency_edge list \<Rightarrow> db res" where
  "setDependenciesInTx now s taskID dependsOn =
     rbind (normalizeDependencyEdges taskID dependsOn) (\<lambda>normalized.
     rbind (check_new_edges s taskID normalized) (\<lambda>_.
     insert_edges now (clear_deps s taskID) taskID normalized))"

definition SetDependencies :: "gotime \<Rightarrow> db \<Rightarrow> string \<Rightarrow> dependency_edge list \<Rightarrow> db res" where
  "SetDependencies now s taskID0 dependsOn =
     (let taskID = trim_space taskID0 in
      if taskID = [] then Inl (ErrInvalidInput ''id'')
      else rbind (normalizeDependencyEdges taskID dependsOn) (\<lambda>normalized.
           rbind (ensureTaskExists s taskID) (\<lambda>_.
           rbind (check_new_edges s taskID normalized) (\<lambda>_.
           insert_edges now (clear_deps s taskID) taskID normalized))))"

section \<open>Readiness (readiness_deps.go, readiness.go)\<close>

fun all_edges_satisfied :: "db \<Rightarrow> dependency_edge list \<Rightarrow> bool res" where
  "all_edges_satisfied s [] = Inr True"
| "all_edges_satisfied s (e # es) =
     rbind (Task_Get s (de_TaskID e)) (\<lambda>predecessor.
     if \<not> EdgeSatisfied (Some predecessor) (de_Satisfies e) then Inr False else all_edges_satisfied s es)"

definition DependenciesSatisfied :: "db \<Rightarrow> string \<Rightarrow> bool res" where
  "DependenciesSatisfied s taskID = rbind (ListDependencyEdges s taskID) (\<lambda>edges. all_edges_satisfied s edges)"

definition ReadyForAgentPickup :: "db \<Rightarrow> task option \<Rightarrow> gotime \<Rightarrow> (bool \<times> failed_predicate) res" where
  "ReadyForAgentPickup s t now =
     (let partial = EvaluateWorkerReadiness t now False in
      if \<not> rr_Ready partial \<and> rr_FailedPredicate partial \<noteq> FailedPredicateDependencies
      then Inr (False, rr_FailedPredicate partial)
      else (case t of
              None \<Rightarrow> Inr (False, rr_FailedPredicate partial)
            | Some task \<Rightarrow>
                rbind (DependenciesSatisfied s (task_ID task)) (\<lambda>depsMet.
                let result = EvaluateWorkerReadiness t now depsMet in
                Inr (rr_Ready result, rr_FailedPredicate result))))"

section \<open>The dependency invariant\<close>

text \<open>The graph has no cycle and no duplicate edge, and both ends of every edge are tasks with a
  trimmed, non-blank id.\<close>

definition dep_row_ok :: "db \<Rightarrow> task_dependency \<Rightarrow> bool" where
  "dep_row_ok s r \<longleftrightarrow>
     td_TaskID r \<in> task_ID ` set (db_tasks s) \<and> td_DependsOnTaskID r \<in> task_ID ` set (db_tasks s) \<and>
     trim_space (td_DependsOnTaskID r) = td_DependsOnTaskID r \<and> td_DependsOnTaskID r \<noteq> [] \<and>
     td_Satisfies r = DependencySatisfiesDone"

definition deps_ok :: "db \<Rightarrow> bool" where
  "deps_ok s \<longleftrightarrow> acyclic (set (dep_edges s)) \<and> distinct (dep_edges s) \<and> (\<forall>r\<in>set (db_deps s). dep_row_ok s r)"

lemma deps_ok_cong:
  assumes "db_deps s' = db_deps s" "task_ID ` set (db_tasks s') = task_ID ` set (db_tasks s)"
  shows "deps_ok s' = deps_ok s"
  using assms by (simp add: deps_ok_def dep_edges_def dep_row_ok_def)

lemma deps_ok_mono:
  assumes "deps_ok s" "db_deps s' = db_deps s" "task_ID ` set (db_tasks s) \<subseteq> task_ID ` set (db_tasks s')"
  shows "deps_ok s'"
  using assms by (auto simp: deps_ok_def dep_edges_def dep_row_ok_def)

lemma insert_depD:
  assumes "insert_dep s r = Inr s'"
  shows "s' = s\<lparr>db_deps := db_deps s @ [r]\<rparr>" "(td_TaskID r, td_DependsOnTaskID r) \<notin> set (dep_edges s)"
    "td_Satisfies r = DependencySatisfiesDone" "td_TaskID r \<in> task_ID ` set (db_tasks s)"
    "td_DependsOnTaskID r \<in> task_ID ` set (db_tasks s)"
  using assms by (auto simp: insert_dep_def split: if_splits)

lemma deps_ok_insert:
  assumes ok: "deps_ok s" and i: "insert_dep s r = Inr s'"
    and nc: "(td_DependsOnTaskID r, td_TaskID r) \<notin> (set (dep_edges s))\<^sup>*"
    and tr: "trim_space (td_DependsOnTaskID r) = td_DependsOnTaskID r" "td_DependsOnTaskID r \<noteq> []"
  shows "deps_ok s'"
proof -
  note d = insert_depD[OF i]
  have e: "dep_edges s' = dep_edges s @ [(td_TaskID r, td_DependsOnTaskID r)]" by (simp add: dep_edges_def d(1))
  have "acyclic (set (dep_edges s'))" using ok nc by (simp add: e deps_ok_def acyclic_insert)
  moreover have "distinct (dep_edges s')" using ok d(2) by (simp add: e deps_ok_def)
  moreover have "dep_row_ok s' x" if "x \<in> set (db_deps s')" for x
    using that ok tr d by (auto simp: deps_ok_def dep_row_ok_def)
  ultimately show ?thesis by (simp add: deps_ok_def)
qed

text \<open>Edges that leave \<open>t\<close> cannot help to reach \<open>t\<close>.\<close>

lemma reach_without_outgoing:
  assumes "(x, t) \<in> (E \<union> {t} \<times> D)\<^sup>*"
  shows "(x, t) \<in> E\<^sup>*"
  using assms
proof (induction rule: converse_rtrancl_induct)
  case base
  show ?case by simp
next
  case (step y z)
  then show ?case by (cases "y = t") (auto intro: converse_rtrancl_into_rtrancl)
qed

lemma insert_edges_ok:
  assumes "insert_edges now s t es = Inr s'" "deps_ok s"
    and "\<And>e. e \<in> set es \<Longrightarrow> (de_TaskID e, t) \<notin> E\<^sup>*"
    and "\<And>e. e \<in> set es \<Longrightarrow> trim_space (de_TaskID e) = de_TaskID e \<and> de_TaskID e \<noteq> []"
    and "set (dep_edges s) \<subseteq> E \<union> {t} \<times> UNIV"
  shows "deps_ok s'"
  using assms
proof (induction es arbitrary: s)
  case Nil
  then show ?case by simp
next
  case (Cons e es)
  from Cons.prems(1) obtain s1 where s1: "insert_dep s (newDependencyRow t (de_TaskID e) (de_Satisfies e) now) = Inr s1"
    and rest: "insert_edges now s1 t es = Inr s'" by auto
  have "(de_TaskID e, t) \<notin> (set (dep_edges s))\<^sup>*"
  proof
    assume "(de_TaskID e, t) \<in> (set (dep_edges s))\<^sup>*"
    then have "(de_TaskID e, t) \<in> (E \<union> {t} \<times> UNIV)\<^sup>*" using Cons.prems(5) rtrancl_mono by blast
    then show False using reach_without_outgoing Cons.prems(3)[of e] by fastforce
  qed
  then have ok1: "deps_ok s1"
    using deps_ok_insert[OF Cons.prems(2) s1] Cons.prems(4)[of e] by (simp add: newDependencyRow_def)
  have "set (dep_edges s1) \<subseteq> E \<union> {t} \<times> UNIV"
    using Cons.prems(5) insert_depD(1)[OF s1] by (auto simp: dep_edges_def newDependencyRow_def)
  then show ?case using Cons.IH[OF rest ok1] Cons.prems(3,4) by simp
qed

definition edge_id_ok :: "dependency_edge \<Rightarrow> bool" where
  "edge_id_ok e \<longleftrightarrow> trim_space (de_TaskID e) = de_TaskID e \<and> de_TaskID e \<noteq> []"

lemma normalizeDependencyEdges_from_ids:
  assumes "normalizeDependencyEdges_from t seen out es = Inr norm" "\<forall>e\<in>set out. edge_id_ok e"
  shows "\<forall>e\<in>set norm. edge_id_ok e"
  using assms
proof (induction es arbitrary: seen out)
  case Nil
  then show ?case by simp
next
  case (Cons e es)
  let ?i = "trim_space (de_TaskID e)" and ?s = "NormalizeDependencySatisfies (de_Satisfies e)"
  let ?n = "\<lparr>de_TaskID = ?i, de_Satisfies = ?s\<rparr>"
  from Cons.prems(1) consider
      (skip) "normalizeDependencyEdges_from t seen out es = Inr norm"
    | (add) "?i \<noteq> []" "normalizeDependencyEdges_from t (?i # seen) (out @ [?n]) es = Inr norm"
    by (auto simp only: normalizeDependencyEdges_from.simps Let_def split: if_splits)
  then show ?case
  proof cases
    case skip
    then show ?thesis using Cons.IH Cons.prems(2) by blast
  next
    case add
    then have "\<forall>e\<in>set (out @ [?n]). edge_id_ok e" using Cons.prems(2) by (simp add: edge_id_ok_def)
    then show ?thesis using Cons.IH[OF add(2)] by blast
  qed
qed

lemma check_new_edges_ok:
  "check_new_edges s t es = Inr u \<Longrightarrow> e \<in> set es \<Longrightarrow> (de_TaskID e, t) \<notin> (set (dep_edges s))\<^sup>*"
  by (induction es) (auto simp: wouldCreateDependencyCycle_iff split: if_splits)

lemma deps_ok_filter:
  assumes "deps_ok s"
  shows "deps_ok (s\<lparr>db_deps := filter P (db_deps s)\<rparr>)"
    "set (dep_edges (s\<lparr>db_deps := filter P (db_deps s)\<rparr>)) \<subseteq> set (dep_edges s)"
proof -
  let ?s = "s\<lparr>db_deps := filter P (db_deps s)\<rparr>"
  show sub: "set (dep_edges ?s) \<subseteq> set (dep_edges s)" by (auto simp: dep_edges_def)
  have "acyclic (set (dep_edges ?s))" using assms acyclic_subset[OF _ sub] by (simp add: deps_ok_def)
  moreover have "distinct (dep_edges ?s)" using assms by (simp add: deps_ok_def dep_edges_def distinct_map_filter)
  moreover have "dep_row_ok ?s r" if "r \<in> set (db_deps ?s)" for r
    using assms that by (simp add: deps_ok_def dep_row_ok_def)
  ultimately show "deps_ok ?s" by (simp add: deps_ok_def)
qed

lemma clear_deps_ok:
  assumes "deps_ok s"
  shows "deps_ok (clear_deps s t)" "set (dep_edges (clear_deps s t)) \<subseteq> set (dep_edges s)"
  unfolding clear_deps_def using deps_ok_filter[OF assms] by auto

lemma set_edges_ok:
  assumes ok: "deps_ok s" and n: "normalizeDependencyEdges t es = Inr norm"
    and c: "check_new_edges s t norm = Inr u" and i: "insert_edges now (clear_deps s t) t norm = Inr s'"
  shows "deps_ok s'"
proof (rule insert_edges_ok[OF i clear_deps_ok(1)[OF ok], where E = "set (dep_edges s)"])
  show "(de_TaskID e, t) \<notin> (set (dep_edges s))\<^sup>*" if "e \<in> set norm" for e
    using check_new_edges_ok[OF c that] .
  show "trim_space (de_TaskID e) = de_TaskID e \<and> de_TaskID e \<noteq> []" if "e \<in> set norm" for e
    using n that normalizeDependencyEdges_from_ids[of t "[]" "[]" es norm]
    by (simp add: normalizeDependencyEdges_def edge_id_ok_def)
  show "set (dep_edges (clear_deps s t)) \<subseteq> set (dep_edges s) \<union> {t} \<times> UNIV"
    using clear_deps_ok(2)[OF ok] by blast
qed

lemma setDependenciesInTx_ok: "deps_ok s \<Longrightarrow> setDependenciesInTx now s t es = Inr s' \<Longrightarrow> deps_ok s'"
  by (auto simp: setDependenciesInTx_def intro: set_edges_ok)

lemma SetDependencies_ok: "deps_ok s \<Longrightarrow> SetDependencies now s t es = Inr s' \<Longrightarrow> deps_ok s'"
  by (auto simp: SetDependencies_def Let_def if_Inl_Inr_iff intro: set_edges_ok)

lemma AddDependency_ok:
  assumes ok: "deps_ok s" and a: "AddDependency now s t d sat = Inr s'"
  shows "deps_ok s'"
proof -
  from a have nc: "(trim_space d, trim_space t) \<notin> (set (dep_edges s))\<^sup>*" "trim_space d \<noteq> []"
    by (auto simp: AddDependency_def Let_def if_Inl_Inr_iff wouldCreateDependencyCycle_iff)
  from a consider "s' = s" | "insert_dep s (newDependencyRow (trim_space t) (trim_space d) (NormalizeDependencySatisfies sat) now) = Inr s'"
    by (auto simp: AddDependency_def Let_def if_Inl_Inr_iff split: sum.splits err.splits if_splits)
  then show ?thesis
  proof cases
    case 2
    then show ?thesis using deps_ok_insert[OF ok 2] nc by (simp add: newDependencyRow_def)
  qed (use ok in simp)
qed

lemma RemoveDependency_ok:
  assumes ok: "deps_ok s" and r: "RemoveDependency s t d = Inr s'"
  shows "deps_ok s'"
proof -
  let ?P = "\<lambda>r. \<not> (td_TaskID r = trim_space t \<and> td_DependsOnTaskID r = trim_space d)"
  from r have s': "s' = s\<lparr>db_deps := filter ?P (db_deps s)\<rparr>"
    by (auto simp: RemoveDependency_def Let_def if_Inl_Inr_iff)
  show ?thesis unfolding s' by (rule deps_ok_filter(1)[OF ok])
qed

section \<open>Dependencies and readiness\<close>

definition task_ids_ok :: "db \<Rightarrow> bool" where
  "task_ids_ok s \<longleftrightarrow> distinct (map task_ID (db_tasks s)) \<and>
     (\<forall>t\<in>set (db_tasks s). trim_space (task_ID t) = task_ID t \<and> task_ID t \<noteq> [])"

lemma task_ids_okD: "task_ids_ok s \<Longrightarrow> distinct (map task_ID (db_tasks s))"
  unfolding task_ids_ok_def by (rule conjunct1)

lemma LoadTask_unique:
  assumes "task_ids_ok s" "u \<in> set (db_tasks s)"
  shows "LoadTask s (task_ID u) = Inr u"
proof -
  obtain v where v: "LoadTask s (task_ID u) = Inr v" using LoadTask_ex assms(2) by blast
  have "v = u" by (rule distinct_map_eq[OF task_ids_okD[OF assms(1)] LoadTaskD(1)[OF v] assms(2) LoadTaskD(2)[OF v]])
  with v show ?thesis by simp
qed

definition dep_done :: "db \<Rightarrow> string \<Rightarrow> bool" where
  "dep_done s i = (case LoadTask s i of Inl _ \<Rightarrow> False | Inr p \<Rightarrow> task_Status p = StatusDone)"

definition preds_done :: "db \<Rightarrow> string \<Rightarrow> bool" where
  "preds_done s t \<longleftrightarrow> list_all (\<lambda>r. td_TaskID r = t \<longrightarrow> dep_done s (td_DependsOnTaskID r)) (db_deps s)"

lemma hydrateCreatedAt_simps [simp]:
  "task_Status (hydrateCreatedAt s t) = task_Status t" "task_ID (hydrateCreatedAt s t) = task_ID t"
  "task_PickupNotBefore (hydrateCreatedAt s t) = task_PickupNotBefore t" "task_Gate (hydrateCreatedAt s t) = task_Gate t"
  by (auto simp: hydrateCreatedAt_def split: option.split)

lemma Task_Get_status:
  assumes "i \<in> task_ID ` set (db_tasks s)" "trim_space i = i" "i \<noteq> []"
  shows "\<exists>t. Task_Get s i = Inr t \<and> (task_Status t = StatusDone) = dep_done s i"
proof -
  obtain t where t: "LoadTask s i = Inr t" using LoadTask_ex[OF assms(1)] by blast
  then show ?thesis
    using assms LoadTaskD(2)[OF t]
    by (simp add: Task_Get_def Let_def hydrateDependsOn_def ListDependencyEdges_def dep_done_def)
qed

lemma all_edges_satisfied_spec:
  "\<forall>e\<in>set es. de_TaskID e \<in> task_ID ` set (db_tasks s) \<and> edge_id_ok e \<Longrightarrow>
   all_edges_satisfied s es = Inr (\<forall>e\<in>set es. dep_done s (de_TaskID e))"
proof (induction es)
  case Nil
  show ?case by simp
next
  case (Cons e es)
  then obtain t where "Task_Get s (de_TaskID e) = Inr t" "(task_Status t = StatusDone) = dep_done s (de_TaskID e)"
    using Task_Get_status[of "de_TaskID e" s] by (auto simp: edge_id_ok_def)
  then show ?case using Cons by (simp add: EdgeSatisfied_def)
qed

lemma DependenciesSatisfied_spec:
  assumes "deps_ok s" "trim_space t = t" "t \<noteq> []"
  shows "DependenciesSatisfied s t = Inr (preds_done s t)"
proof -
  have ok: "\<forall>e\<in>set (listDependencyEdges s t). de_TaskID e \<in> task_ID ` set (db_tasks s) \<and> edge_id_ok e"
    using assms(1) by (auto simp: listDependencyEdges_def dep_rows_def deps_ok_def dep_row_ok_def edge_id_ok_def)
  have "(\<forall>e\<in>set (listDependencyEdges s t). dep_done s (de_TaskID e)) = preds_done s t"
    by (auto simp: listDependencyEdges_def dep_rows_def preds_done_def list_all_iff)
  with all_edges_satisfied_spec[OF ok] show ?thesis
    using assms(2,3) by (simp add: DependenciesSatisfied_def ListDependencyEdges_def)
qed

lemma exists_unblocked:
  assumes ok: "deps_ok s" "task_ids_ok s" and t: "t \<in> task_ID ` set (db_tasks s)" "\<not> dep_done s t"
  shows "\<exists>u \<in> task_ID ` set (db_tasks s). \<not> dep_done s u \<and> preds_done s u"
proof -
  let ?Q = "{u \<in> task_ID ` set (db_tasks s). \<not> dep_done s u}"
  have "wf ((set (dep_edges s))\<inverse>)"
    using ok(1) by (intro finite_acyclic_wf_converse) (auto simp: deps_ok_def)
  then obtain u where u: "u \<in> ?Q" "\<And>y. (y, u) \<in> (set (dep_edges s))\<inverse> \<Longrightarrow> y \<notin> ?Q"
    using t wfE_min[of _ t ?Q] by blast
  have "dep_done s (td_DependsOnTaskID r)" if "r \<in> set (db_deps s)" "td_TaskID r = u" for r
  proof -
    have "(td_DependsOnTaskID r, u) \<in> (set (dep_edges s))\<inverse>" using that by (auto simp: dep_edges_def)
    moreover have "td_DependsOnTaskID r \<in> task_ID ` set (db_tasks s)"
      using ok(1) that by (simp add: deps_ok_def dep_row_ok_def)
    ultimately show ?thesis using u(2) by blast
  qed
  then show ?thesis using u(1) by (auto simp: preds_done_def list_all_iff)
qed

text \<open>C11. The breadth-first walk terminates on every graph and decides exactly whether the
  new edge would close a cycle: it answers yes if and only if the task can already be reached from
  its would-be predecessor along dependency edges, so refusing exactly these edges is what keeps an
  acyclic graph acyclic.\<close>

theorem cycle_check_correct:
  "(wouldCreateDependencyCycle s t d \<longleftrightarrow> (d, t) \<in> (set (dep_edges s))\<^sup>*) \<and>
   (acyclic (insert (t, d) (set (dep_edges s))) \<longleftrightarrow>
      acyclic (set (dep_edges s)) \<and> \<not> wouldCreateDependencyCycle s t d)"
  by (auto simp: wouldCreateDependencyCycle_iff acyclic_insert)

text \<open>Every write of dependency edges keeps the graph acyclic, free of duplicates and
  between existing tasks: adding, removing and replacing edges preserve the invariant whatever
  the input, so no sequence of requests can make tasks wait for each other in a circle.\<close>

theorem dependency_writes_keep_acyclic:
  assumes "deps_ok s"
  shows "(case AddDependency now s t d sat of Inl _ \<Rightarrow> True | Inr s' \<Rightarrow> deps_ok s') \<and>
         (case RemoveDependency s t d of Inl _ \<Rightarrow> True | Inr s' \<Rightarrow> deps_ok s') \<and>
         (case SetDependencies now s t es of Inl _ \<Rightarrow> True | Inr s' \<Rightarrow> deps_ok s')"
  using AddDependency_ok[OF assms] RemoveDependency_ok[OF assms] SetDependencies_ok[OF assms]
  by (auto split: sum.split)

definition sample_dep_db :: db where
  "sample_dep_db = empty_db\<lparr>db_tasks := [sample_task ''t'', sample_task ''c''],
     db_deps := [newDependencyRow ''t'' ''c'' DependencySatisfiesDone 5]\<rparr>"

lemma sample_dep_db_ok: "deps_ok sample_dep_db" "task_ids_ok sample_dep_db"
proof -
  have "acyclic {(''t'', ''c'')}" by (simp add: acyclic_insert wf_acyclic)
  then show "deps_ok sample_dep_db"
    by (simp add: deps_ok_def sample_dep_db_def dep_edges_def dep_row_ok_def newDependencyRow_def sample_task_def)
  show "task_ids_ok sample_dep_db" by (simp add: sample_dep_db_def sample_task_def task_ids_ok_def)
qed

theorem dependency_writes_keep_acyclic_witness:
  "(case AddDependency 7 sample_dep_db ''c'' ''p'' DependencySatisfiesDone of Inl _ \<Rightarrow> True | Inr s' \<Rightarrow> deps_ok s') \<and>
   AddDependency 7 sample_dep_db ''c'' ''t'' DependencySatisfiesDone = Inl (ErrInvalidInput ''dependency would create a cycle'')"
proof -
  have "wouldCreateDependencyCycle sample_dep_db ''c'' ''t''"
    by (simp add: wouldCreateDependencyCycle_def dep_edges_def sample_dep_db_def newDependencyRow_def successors_def)
  then have "AddDependency 7 sample_dep_db ''c'' ''t'' DependencySatisfiesDone = Inl (ErrInvalidInput ''dependency would create a cycle'')"
    by (simp add: AddDependency_def ensureTaskExists_def) (simp add: sample_dep_db_def sample_task_def)
  then show ?thesis
    using dependency_writes_keep_acyclic[OF sample_dep_db_ok(1), of 7 "''c''" "''p''"] by blast
qed

text \<open>The predecessors of a task, read off the two tables.\<close>

definition all_preds_done :: "db \<Rightarrow> string \<Rightarrow> bool" where
  "all_preds_done s i \<longleftrightarrow> (\<forall>r\<in>set (db_deps s). td_TaskID r = i \<longrightarrow>
     (\<exists>v\<in>set (db_tasks s). task_ID v = td_DependsOnTaskID r \<and> task_Status v = StatusDone))"

lemma preds_done_rows:
  assumes "task_ids_ok s"
  shows "preds_done s i \<longleftrightarrow> all_preds_done s i"
proof -
  have "dep_done s k \<longleftrightarrow> (\<exists>v\<in>set (db_tasks s). task_ID v = k \<and> task_Status v = StatusDone)" for k
    unfolding dep_done_def using LoadTask_mem[of s k] LoadTask_unique[OF assms, of _] by (fastforce split: sum.splits)
  then show ?thesis by (simp add: preds_done_def all_preds_done_def list_all_iff)
qed

text \<open>C12. No deadlock: as long as some task is not done there is an unfinished task all of whose predecessors are
  done, and the store's own check says so, since for every task it answers exactly whether all its
  predecessors are done.\<close>

theorem dependencies_never_deadlock:
  assumes "deps_ok s" "task_ids_ok s" "t \<in> set (db_tasks s)" "task_Status t \<noteq> StatusDone"
  shows "(\<exists>u\<in>set (db_tasks s). task_Status u \<noteq> StatusDone \<and> all_preds_done s (task_ID u) \<and> DependenciesSatisfied s (task_ID u) = Inr True) \<and>
    (\<forall>v\<in>set (db_tasks s). DependenciesSatisfied s (task_ID v) = Inr (all_preds_done s (task_ID v)))"
proof -
  have load: "LoadTask s (task_ID u) = Inr u" if "u \<in> set (db_tasks s)" for u
    using LoadTask_unique[OF assms(2)] that by blast
  have check: "DependenciesSatisfied s (task_ID v) = Inr (all_preds_done s (task_ID v))" if "v \<in> set (db_tasks s)" for v
    using DependenciesSatisfied_spec[OF assms(1)] preds_done_rows[OF assms(2)] assms(2) that by (simp add: task_ids_ok_def)
  have "\<not> dep_done s (task_ID t)" using load[OF assms(3)] assms(4) by (simp add: dep_done_def)
  then obtain u where u: "u \<in> set (db_tasks s)" "\<not> dep_done s (task_ID u)" "preds_done s (task_ID u)"
    using exists_unblocked[OF assms(1,2)] assms(3) by blast
  then show ?thesis
    using check load[OF u(1)] preds_done_rows[OF assms(2)] by (auto simp: dep_done_def)
qed

theorem dependencies_never_deadlock_witness:
  "\<not> all_preds_done sample_dep_db ''t'' \<and> DependenciesSatisfied sample_dep_db ''t'' = Inr False \<and>
   (\<exists>u\<in>set (db_tasks sample_dep_db). task_Status u \<noteq> StatusDone \<and> all_preds_done sample_dep_db (task_ID u))"
proof -
  have t: "sample_task ''t'' \<in> set (db_tasks sample_dep_db)" "task_ID (sample_task ''t'') = ''t''"
    and b: "\<not> all_preds_done sample_dep_db ''t''"
    by (simp_all add: sample_dep_db_def sample_task_def all_preds_done_def newDependencyRow_def)
  have "task_Status (sample_task ''t'') \<noteq> StatusDone" by (simp add: sample_task_def)
  from dependencies_never_deadlock[OF sample_dep_db_ok t(1) this] t b show ?thesis by fastforce
qed

text \<open>C13. The store's readiness check, which skips the dependency queries while a cheaper predicate
  fails, agrees with the specification: it answers ready exactly when the row is ready, its pickup
  instant has passed, no gate holds it and every predecessor in the graph is done.\<close>

theorem ready_for_pickup_refines_spec:
  assumes "deps_ok s" "trim_space (task_ID t) = task_ID t" "task_ID t \<noteq> []"
  shows "\<exists>p. ReadyForAgentPickup s (Some t) now = Inr (worker_ready t now (preds_done s (task_ID t)), p)"
proof -
  let ?r = "EvaluateWorkerReadiness (Some t) now False"
  have ready: "rr_Ready (EvaluateWorkerReadiness (Some t) now d) = worker_ready t now d" for d
    using EvaluateWorkerReadiness_ready_iff by simp
  have "\<not> worker_ready t now d" if "rr_FailedPredicate ?r \<noteq> FailedPredicateDependencies" for d
    using that by (auto simp: EvaluateWorkerReadiness_def worker_ready_def pickup_deferred_iff GateBlocksWorker_iff split: if_splits)
  moreover have "\<not> rr_Ready ?r" using ready by (simp add: worker_ready_def)
  ultimately show ?thesis
    using ready DependenciesSatisfied_spec[OF assms] by (simp add: ReadyForAgentPickup_def Let_def)
qed

theorem ready_for_pickup_refines_spec_witness:
  "\<exists>p. ReadyForAgentPickup sample_dep_db (Some (sample_task ''t'')) 7 =
     Inr (worker_ready (sample_task ''t'') 7 (preds_done sample_dep_db (task_ID (sample_task ''t''))), p)"
  by (rule ready_for_pickup_refines_spec[OF sample_dep_db_ok(1)]) (simp_all add: sample_task_def)

end
