(* ===== verification/Ready_Queue.thy ===== *)
theory Ready_Queue
  imports Sched_Key Store_Dependencies
begin

text \<open>
  \<^verbatim>\<open>pkgs/tasks/store/internal/ready\<close>: the read paths of the agent queue. The SQL predicates of
  \<^verbatim>\<open>applyDequeuableTaskPredicates\<close> are written down next to the query and shown to agree with
  \<open>EvaluateWorkerReadiness\<close>, which the worker applies to the reloaded row. Postgres dialect: ties of
  the creation instant are broken by the task id.
\<close>

section \<open>Queries\<close>

record queue_cursor =
  qc_AfterTaskCreatedAt :: gotime
  qc_AfterTaskID :: string

record queue_candidate =
  qn_Task :: task
  qn_TaskCreatedAt :: gotime

text \<open>\<^verbatim>\<open>NOT EXISTS (SELECT 1 FROM task_dependencies td INNER JOIN tasks dep ...)\<close> and the gate column.\<close>

definition dequeuable_sql :: "db \<Rightarrow> task \<Rightarrow> bool" where
  "dequeuable_sql s t \<longleftrightarrow>
     \<not> list_ex (\<lambda>td. list_ex (\<lambda>dep. task_ID dep = td_DependsOnTaskID td \<and> td_TaskID td = task_ID t \<and>
                                     task_Status dep \<noteq> StatusDone) (db_tasks s)) (db_deps s) \<and>
     (case task_Gate t of None \<Rightarrow> True | Some g \<Rightarrow> gate_Status g = GateStatusReleased)"

definition ready_row_sql :: "db \<Rightarrow> gotime \<Rightarrow> task \<Rightarrow> bool" where
  "ready_row_sql s now t \<longleftrightarrow>
     task_Status t = StatusReady \<and>
     (case task_PickupNotBefore t of None \<Rightarrow> True | Some p \<Rightarrow> p \<le> now) \<and> dequeuable_sql s t"

definition joined_rows :: "db \<Rightarrow> (task_event \<Rightarrow> bool) \<Rightarrow> (task \<Rightarrow> bool) \<Rightarrow> queue_candidate list" where
  "joined_rows s on_event P =
     concat (map (\<lambda>t. if P t
                      then map (\<lambda>e. \<lparr>qn_Task = t, qn_TaskCreatedAt = ev_At e\<rparr>)
                             (filter (\<lambda>e. ev_TaskID e = task_ID t \<and> on_event e) (db_events s))
                      else []) (db_tasks s))"

definition is_created :: "task_event \<Rightarrow> bool" where
  "is_created e \<longleftrightarrow> ev_Seq e = 1 \<and> ev_Type e = EventTaskCreated"

definition cand_key :: "queue_candidate \<Rightarrow> sched_key" where
  "cand_key c = SchedKey (qn_TaskCreatedAt c) (task_ID (qn_Task c))"

definition ready_limit :: "int \<Rightarrow> int" where
  "ready_limit limit = (let l = (if limit \<le> 0 then 200 else limit) in if 500 < l then 500 else l)"

definition ready_rows :: "db \<Rightarrow> gotime \<Rightarrow> queue_candidate list" where
  "ready_rows s now = sort_key cand_key (joined_rows s is_created (ready_row_sql s now))"

definition ListQueueCandidates :: "db \<Rightarrow> gotime \<Rightarrow> int \<Rightarrow> queue_cursor option \<Rightarrow> queue_candidate list res" where
  "ListQueueCandidates s now limit cursor =
     (case cursor of
        None \<Rightarrow> Inr (take (nat (ready_limit limit)) (ready_rows s now))
      | Some c \<Rightarrow>
          let after = trim_space (qc_AfterTaskID c) in
          if after = [] then Inl (ErrInvalidInput ''cursor requires after_task_id'')
          else Inr (take (nat (ready_limit limit))
                 (filter (\<lambda>r. qc_AfterTaskCreatedAt c < qn_TaskCreatedAt r \<or>
                              qc_AfterTaskCreatedAt c = qn_TaskCreatedAt r \<and> after < task_ID (qn_Task r))
                    (ready_rows s now))))"

definition ListUserCreated :: "db \<Rightarrow> gotime \<Rightarrow> int \<Rightarrow> string \<Rightarrow> task list res" where
  "ListUserCreated s now limit afterID0 =
     (let afterID = trim_space afterID0;
          rows = map qn_Task (joined_rows s (\<lambda>e. is_created e \<and> ev_By e = ActorUser) (ready_row_sql s now));
          rows' = (if afterID \<noteq> [] then filter (\<lambda>t. afterID < task_ID t) rows else rows) in
      Inr (take (nat (ready_limit limit)) (sort_key task_ID rows')))"

definition ListDeferredReadyPickups :: "db \<Rightarrow> gotime \<Rightarrow> int \<Rightarrow> (string \<times> gotime) list res" where
  "ListDeferredReadyPickups s now limit0 =
     (let limit1 = (if limit0 \<le> 0 then 10000 else limit0);
          limit = (if 50000 < limit1 then 50000 else limit1);
          rows = concat (map (\<lambda>t. case task_PickupNotBefore t of None \<Rightarrow> []
                                 | Some p \<Rightarrow> if task_Status t = StatusReady \<and> now < p then [(task_ID t, p)] else [])
                        (db_tasks s)) in
      Inr (take (nat limit) (sort_key (\<lambda>r. SchedKey (snd r) (fst r)) rows)))"

section \<open>Agreement with the readiness predicates\<close>

lemma dequeuable_deps:
  assumes "deps_ok s" "task_ids_ok s"
  shows "(\<not> list_ex (\<lambda>td. list_ex (\<lambda>dep. task_ID dep = td_DependsOnTaskID td \<and> td_TaskID td = i \<and>
             task_Status dep \<noteq> StatusDone) (db_tasks s)) (db_deps s)) = preds_done s i"
proof -
  have "(\<exists>dep\<in>set (db_tasks s). task_ID dep = td_DependsOnTaskID td \<and> task_Status dep \<noteq> StatusDone) =
      (\<not> dep_done s (td_DependsOnTaskID td))" if td: "td \<in> set (db_deps s)" for td
  proof -
    obtain u where u: "u \<in> set (db_tasks s)" "task_ID u = td_DependsOnTaskID td"
      using assms(1) td unfolding deps_ok_def dep_row_ok_def by (metis (no_types, lifting) imageE)
    have l: "LoadTask s (td_DependsOnTaskID td) = Inr u" using LoadTask_unique[OF assms(2) u(1)] u(2) by simp
    have uniq: "dep = u" if "dep \<in> set (db_tasks s)" "task_ID dep = td_DependsOnTaskID td" for dep
      using LoadTask_unique[OF assms(2) that(1)] that(2) l by simp
    have "dep_done s (td_DependsOnTaskID td) = (task_Status u = StatusDone)" by (simp add: dep_done_def l)
    then show ?thesis using u uniq by blast
  qed
  then show ?thesis unfolding preds_done_def list_ex_iff list_all_iff by metis
qed

lemma ready_row_sql_iff:
  assumes "deps_ok s" "task_ids_ok s"
  shows "ready_row_sql s now t = worker_ready t now (preds_done s (task_ID t))"
  unfolding ready_row_sql_def dequeuable_sql_def dequeuable_deps[OF assms] worker_ready_def
  by (auto split: option.splits)

lemma sorted_ready_rows: "sorted (map cand_key (ready_rows s now))"
  by (simp add: ready_rows_def)

lemma set_joined_rows:
  "set (joined_rows s on_event P) =
   {\<lparr>qn_Task = t, qn_TaskCreatedAt = ev_At e\<rparr> | t e. t \<in> set (db_tasks s) \<and> P t \<and> e \<in> set (db_events s) \<and>
      ev_TaskID e = task_ID t \<and> on_event e}"
  by (auto simp: joined_rows_def split: if_splits)

end
