(* ===== verification/Memory_Queue.thy ===== *)
theory Memory_Queue
  imports Ready_Queue
begin

text \<open>
  \<^verbatim>\<open>pkgs/agents/memory_queue.go\<close> and \<^verbatim>\<open>reconcile.go\<close>: the bounded in-process queue between the store
  and the workers. \<open>Receive\<close> is two atomic steps (take from the channel, then drop the pending mark
  under the mutex), so the step relation has both. The reconcile passes are clients of the interface
  \<open>notify_sink\<close>, which the queue provides.
\<close>

section \<open>The queue\<close>

record mem_queue =
  mq_bufCap :: nat
  mq_pending :: "string set"
  mq_ch :: "task list"

datatype queue_err = ErrQueueFull | ErrAlreadyQueued | ErrTaskIDRequired | ErrContextDone

definition NewMemoryQueue :: "int \<Rightarrow> mem_queue option" where
  "NewMemoryQueue cap =
     (if cap \<le> 0 then None else Some \<lparr>mq_bufCap = nat cap, mq_pending = {}, mq_ch = []\<rparr>)"

definition BufferCap :: "mem_queue \<Rightarrow> nat" where "BufferCap q = mq_bufCap q"
definition BufferDepth :: "mem_queue \<Rightarrow> nat" where "BufferDepth q = length (mq_ch q)"

definition AckAfterRecv :: "string \<Rightarrow> mem_queue \<Rightarrow> mem_queue" where
  "AckAfterRecv i q = (if i = [] then q else q\<lparr>mq_pending := mq_pending q - {i}\<rparr>)"

text \<open>The two halves of \<^verbatim>\<open>Receive\<close>.\<close>

definition recv_take :: "mem_queue \<Rightarrow> (task \<times> mem_queue) option" where
  "recv_take q = (case mq_ch q of [] \<Rightarrow> None | t # ts \<Rightarrow> Some (t, q\<lparr>mq_ch := ts\<rparr>))"

definition recv_unmark :: "string \<Rightarrow> mem_queue \<Rightarrow> mem_queue" where
  "recv_unmark i q = q\<lparr>mq_pending := mq_pending q - {i}\<rparr>"

definition Receive :: "mem_queue \<Rightarrow> (task \<times> mem_queue) option" where
  "Receive q = (case recv_take q of None \<Rightarrow> None | Some (t, q') \<Rightarrow> Some (t, recv_unmark (task_ID t) q'))"

definition tryEnqueue :: "mem_queue \<Rightarrow> task \<Rightarrow> queue_err + mem_queue" where
  "tryEnqueue q t =
     (if task_ID t = [] then Inl ErrTaskIDRequired
      else if task_ID t \<in> mq_pending q then Inl ErrAlreadyQueued
      else if length (mq_ch q) < mq_bufCap q
      then Inr (q\<lparr>mq_ch := mq_ch q @ [t], mq_pending := insert (task_ID t) (mq_pending q)\<rparr>)
      else Inl ErrQueueFull)"

definition NotifyReadyTask :: "bool \<Rightarrow> mem_queue \<Rightarrow> task \<Rightarrow> queue_err + mem_queue" where
  "NotifyReadyTask ctx_done q t = (if ctx_done then Inl ErrContextDone else tryEnqueue q t)"

lemma tryEnqueue_Inr:
  "tryEnqueue q t = Inr q' \<longleftrightarrow> task_ID t \<noteq> [] \<and> task_ID t \<notin> mq_pending q \<and> length (mq_ch q) < mq_bufCap q \<and>
     q' = q\<lparr>mq_ch := mq_ch q @ [t], mq_pending := insert (task_ID t) (mq_pending q)\<rparr>"
  by (auto simp: tryEnqueue_def)

section \<open>The queue under concurrent producers and consumers\<close>

text \<open>
  Producers notify; a consumer takes a task, drops its mark (the second half of \<^verbatim>\<open>Receive\<close>), and acknowledges
  it when it is done with it (\<^verbatim>\<open>processOne\<close> defers \<^verbatim>\<open>AckAfterRecv\<close>), in any interleaving. Next to the queue stand
  the tasks accepted and delivered so far, the ids taken but not unmarked yet, the ids unmarked but not
  acknowledged yet, and for each id how many of its marks an acknowledgement has dropped.
\<close>

record queue_sys =
  qs_queue :: mem_queue
  qs_taken :: "string list"
  qs_unacked :: "string list"
  qs_lost :: "string \<Rightarrow> nat"
  qs_accepted :: "task list"
  qs_delivered :: "task list"

inductive queue_step :: "queue_sys \<Rightarrow> queue_sys \<Rightarrow> bool" where
  notify: "NotifyReadyTask c (qs_queue s) t = Inr q' \<Longrightarrow>
     queue_step s (s\<lparr>qs_queue := q', qs_accepted := qs_accepted s @ [t]\<rparr>)"
| take_one: "recv_take (qs_queue s) = Some (t, q') \<Longrightarrow>
     queue_step s (s\<lparr>qs_queue := q', qs_taken := task_ID t # qs_taken s, qs_delivered := qs_delivered s @ [t]\<rparr>)"
| unmark: "i \<in> set (qs_taken s) \<Longrightarrow>
     queue_step s (s\<lparr>qs_queue := recv_unmark i (qs_queue s), qs_taken := remove1 i (qs_taken s), qs_unacked := i # qs_unacked s\<rparr>)"
| ack: "i \<in> set (qs_unacked s) \<Longrightarrow>
     queue_step s (s\<lparr>qs_queue := AckAfterRecv i (qs_queue s), qs_unacked := remove1 i (qs_unacked s),
       qs_lost := (if i \<in> mq_pending (qs_queue s) then (qs_lost s)(i := Suc (qs_lost s i)) else qs_lost s)\<rparr>)"

definition fresh_queue_sys :: "mem_queue \<Rightarrow> queue_sys" where
  "fresh_queue_sys q = \<lparr>qs_queue = q, qs_taken = [], qs_unacked = [], qs_lost = (\<lambda>_. 0), qs_accepted = [], qs_delivered = []\<rparr>"

inductive queue_reachable :: "int \<Rightarrow> queue_sys \<Rightarrow> bool" for cap where
  start: "NewMemoryQueue cap = Some q \<Longrightarrow> queue_reachable cap (fresh_queue_sys q)"
| step: "queue_reachable cap s \<Longrightarrow> queue_step s s' \<Longrightarrow> queue_reachable cap s'"

inductive_cases queue_stepE: "queue_step s s'"

lemma queue_reachable_steps: "queue_step\<^sup>*\<^sup>* s s' \<Longrightarrow> queue_reachable cap s \<Longrightarrow> queue_reachable cap s'"
  by (induction rule: rtranclp_induct) (auto intro: queue_reachable.step)

text \<open>How often an id is in the queue or on its way to a consumer.\<close>

definition copies :: "queue_sys \<Rightarrow> string \<Rightarrow> nat" where
  "copies s i = count_list (qs_taken s) i + count_list (map task_ID (mq_ch (qs_queue s))) i"

lemma count_list_snoc [simp]: "count_list (xs @ [x]) i = count_list xs i + (if x = i then 1 else 0)"
  by (induction xs) auto

lemma count_list_remove1: "x \<in> set xs \<Longrightarrow> count_list xs i = count_list (remove1 x xs) i + (if x = i then 1 else 0)"
  by (induction xs) auto

definition queue_inv :: "int \<Rightarrow> queue_sys \<Rightarrow> bool" where
  "queue_inv cap s \<longleftrightarrow> mq_bufCap (qs_queue s) = nat cap \<and> length (mq_ch (qs_queue s)) \<le> nat cap \<and>
     (\<forall>i. copies s i \<le> qs_lost s i + (if i \<in> mq_pending (qs_queue s) then 1 else 0)) \<and>
     (\<forall>i\<in>mq_pending (qs_queue s). 0 < copies s i) \<and>
     qs_accepted s = qs_delivered s @ mq_ch (qs_queue s)"

lemma queue_inv_step: "queue_step s s' \<Longrightarrow> queue_inv cap s \<Longrightarrow> queue_inv cap s'"
proof (induction rule: queue_step.induct)
  case (notify c s t q')
  then have a: "task_ID t \<notin> mq_pending (qs_queue s)" "length (mq_ch (qs_queue s)) < mq_bufCap (qs_queue s)"
    "q' = (qs_queue s)\<lparr>mq_ch := mq_ch (qs_queue s) @ [t], mq_pending := insert (task_ID t) (mq_pending (qs_queue s))\<rparr>"
    by (simp_all add: NotifyReadyTask_def tryEnqueue_Inr split: if_splits)
  have c: "copies (s\<lparr>qs_queue := q', qs_accepted := qs_accepted s @ [t]\<rparr>) i = copies s i + (if task_ID t = i then 1 else 0)" for i
    by (simp add: copies_def a(3))
  have b: "copies s i \<le> qs_lost s i + (if i \<in> mq_pending (qs_queue s) then 1 else 0)" for i
    using notify.prems by (simp add: queue_inv_def)
  have "copies s i + (if task_ID t = i then 1 else 0) \<le> qs_lost s i + (if i = task_ID t \<or> i \<in> mq_pending (qs_queue s) then 1 else 0)" for i
    using b[of i] a(1) by (auto split: if_splits)
  then show ?case using notify.prems a(2) unfolding queue_inv_def c by (auto simp: a(3))
next
  case (take_one s t q')
  then obtain ts where q: "mq_ch (qs_queue s) = t # ts" "q' = (qs_queue s)\<lparr>mq_ch := ts\<rparr>"
    by (auto simp: recv_take_def split: list.splits)
  have c: "copies (s\<lparr>qs_queue := q', qs_taken := task_ID t # qs_taken s, qs_delivered := qs_delivered s @ [t]\<rparr>) = copies s"
    by (simp add: copies_def q fun_eq_iff)
  show ?case using take_one.prems unfolding queue_inv_def c by (simp add: q)
next
  case (unmark i s)
  have c: "copies s j = copies (s\<lparr>qs_queue := recv_unmark i (qs_queue s), qs_taken := remove1 i (qs_taken s), qs_unacked := i # qs_unacked s\<rparr>) j +
      (if i = j then 1 else 0)" for j
    using count_list_remove1[OF unmark.hyps, of j] by (simp add: copies_def recv_unmark_def)
  have "copies s j \<le> qs_lost s j + (if j \<in> mq_pending (qs_queue s) then 1 else 0)"
    "j \<in> mq_pending (qs_queue s) \<Longrightarrow> 0 < copies s j" for j
    using unmark.prems by (auto simp: queue_inv_def)
  note bounds = this[unfolded c]
  show ?case unfolding queue_inv_def
  proof (intro conjI allI ballI)
    fix j
    show "copies (s\<lparr>qs_queue := recv_unmark i (qs_queue s), qs_taken := remove1 i (qs_taken s), qs_unacked := i # qs_unacked s\<rparr>) j \<le>
        qs_lost (s\<lparr>qs_queue := recv_unmark i (qs_queue s), qs_taken := remove1 i (qs_taken s), qs_unacked := i # qs_unacked s\<rparr>) j +
        (if j \<in> mq_pending (qs_queue (s\<lparr>qs_queue := recv_unmark i (qs_queue s), qs_taken := remove1 i (qs_taken s), qs_unacked := i # qs_unacked s\<rparr>)) then 1 else 0)"
      using bounds(1)[of j] by (auto simp: recv_unmark_def split: if_splits)
  next
    fix j
    assume "j \<in> mq_pending (qs_queue (s\<lparr>qs_queue := recv_unmark i (qs_queue s), qs_taken := remove1 i (qs_taken s), qs_unacked := i # qs_unacked s\<rparr>))"
    then show "0 < copies (s\<lparr>qs_queue := recv_unmark i (qs_queue s), qs_taken := remove1 i (qs_taken s), qs_unacked := i # qs_unacked s\<rparr>) j"
      using bounds(2)[of j] by (auto simp: recv_unmark_def)
  qed (use unmark.prems in \<open>simp_all add: queue_inv_def recv_unmark_def\<close>)
next
  case (ack i s)
  have c: "copies (s\<lparr>qs_queue := AckAfterRecv i (qs_queue s), qs_unacked := u, qs_lost := l\<rparr>) = copies s" for u l
    by (simp add: copies_def AckAfterRecv_def fun_eq_iff)
  have b: "copies s j \<le> qs_lost s j + (if j \<in> mq_pending (qs_queue s) then 1 else 0)" for j
    using ack.prems by (simp add: queue_inv_def)
  let ?lost = "if i \<in> mq_pending (qs_queue s) then (qs_lost s)(i := Suc (qs_lost s i)) else qs_lost s"
  have "copies s j \<le> ?lost j + (if j \<in> mq_pending (AckAfterRecv i (qs_queue s)) then 1 else 0)" for j
    using b[of j] by (cases "j = i") (auto simp: AckAfterRecv_def split: if_splits)
  moreover have "mq_pending (AckAfterRecv i (qs_queue s)) \<subseteq> mq_pending (qs_queue s)" by (auto simp: AckAfterRecv_def)
  moreover have "mq_ch (AckAfterRecv i (qs_queue s)) = mq_ch (qs_queue s)" "mq_bufCap (AckAfterRecv i (qs_queue s)) = mq_bufCap (qs_queue s)"
    by (simp_all add: AckAfterRecv_def)
  ultimately show ?case using ack.prems unfolding queue_inv_def c by auto
qed

lemma queue_reachable_inv: "queue_reachable cap s \<Longrightarrow> queue_inv cap s"
proof (induction rule: queue_reachable.induct)
  case (start q)
  then show ?case by (auto simp: NewMemoryQueue_def queue_inv_def fresh_queue_sys_def copies_def split: if_splits)
qed (auto intro: queue_inv_step)

text \<open>C16. Under every interleaving of producers with consumers that take, unmark and acknowledge, the queue
  stays within its capacity and delivers the accepted tasks in order, each once. A pending mark always stands
  for an id that is buffered or taken and not yet unmarked. An id is buffered or on its way at most once more
  than an acknowledgement has dropped a mark of it; so an id that never lost a mark this way is there at most
  once, and is marked exactly while it is there.\<close>

theorem queue_bounded_fifo:
  assumes "queue_reachable cap s"
  shows "length (mq_ch (qs_queue s)) \<le> nat cap \<and> qs_accepted s = qs_delivered s @ mq_ch (qs_queue s) \<and>
    mq_pending (qs_queue s) \<subseteq> set (qs_taken s) \<union> task_ID ` set (mq_ch (qs_queue s)) \<and>
    (\<forall>i. copies s i \<le> Suc (qs_lost s i)) \<and>
    (\<forall>i. qs_lost s i = 0 \<longrightarrow>
       copies s i \<le> 1 \<and> (i \<in> mq_pending (qs_queue s) \<longleftrightarrow> i \<in> set (qs_taken s) \<union> task_ID ` set (mq_ch (qs_queue s))))"
proof -
  note I = queue_reachable_inv[OF assms, unfolded queue_inv_def]
  have there: "0 < copies s i \<longleftrightarrow> i \<in> set (qs_taken s) \<union> task_ID ` set (mq_ch (qs_queue s))" for i
    by (auto simp: copies_def count_list_0_iff simp flip: neq0_conv)
  have le: "copies s i \<le> qs_lost s i + (if i \<in> mq_pending (qs_queue s) then 1 else 0)" for i using I by blast
  have pos: "i \<in> mq_pending (qs_queue s) \<Longrightarrow> 0 < copies s i" for i using I by blast
  show ?thesis
  proof (intro conjI allI impI)
    show "length (mq_ch (qs_queue s)) \<le> nat cap" "qs_accepted s = qs_delivered s @ mq_ch (qs_queue s)" using I by blast+
    show "mq_pending (qs_queue s) \<subseteq> set (qs_taken s) \<union> task_ID ` set (mq_ch (qs_queue s))" using pos there by blast
    show "copies s i \<le> Suc (qs_lost s i)" for i using le[of i] by (simp split: if_splits)
    fix i assume z: "qs_lost s i = 0"
    show "copies s i \<le> 1" using le[of i] z by (simp split: if_splits)
    show "i \<in> mq_pending (qs_queue s) \<longleftrightarrow> i \<in> set (qs_taken s) \<union> task_ID ` set (mq_ch (qs_queue s))"
      using le[of i] z pos[of i] there[of i] by (auto split: if_splits)
  qed
qed

definition sample_queue :: mem_queue where
  "sample_queue = \<lparr>mq_bufCap = 2, mq_pending = {}, mq_ch = []\<rparr>"

lemma sample_queue_reachable: "queue_reachable 2 (fresh_queue_sys sample_queue)"
  by (rule queue_reachable.start) (simp add: NewMemoryQueue_def sample_queue_def)

text \<open>The bound is met: task \<open>t\<close> is delivered, notified again while it is processed, acknowledged, and notified
  a third time.\<close>

definition doubled_queue_sys :: queue_sys where
  "doubled_queue_sys = \<lparr>qs_queue = \<lparr>mq_bufCap = 2, mq_pending = {''t''}, mq_ch = [sample_task ''t'', sample_task ''t'']\<rparr>,
     qs_taken = [], qs_unacked = [], qs_lost = (\<lambda>_. 0)(''t'' := 1),
     qs_accepted = [sample_task ''t'', sample_task ''t'', sample_task ''t''], qs_delivered = [sample_task ''t'']\<rparr>"

lemma doubled_queue_reachable: "queue_reachable 2 doubled_queue_sys"
proof -
  let ?t = "sample_task ''t''"
  have i: "task_ID ?t = ''t''" by (simp add: sample_task_def)
  define s1 where "s1 = (fresh_queue_sys sample_queue)\<lparr>qs_queue := \<lparr>mq_bufCap = 2, mq_pending = {''t''}, mq_ch = [?t]\<rparr>, qs_accepted := [?t]\<rparr>"
  define s2 where "s2 = s1\<lparr>qs_queue := \<lparr>mq_bufCap = 2, mq_pending = {''t''}, mq_ch = []\<rparr>, qs_taken := [''t''], qs_delivered := [?t]\<rparr>"
  define s3 where "s3 = s2\<lparr>qs_queue := \<lparr>mq_bufCap = 2, mq_pending = {}, mq_ch = []\<rparr>, qs_taken := [], qs_unacked := [''t'']\<rparr>"
  define s4 where "s4 = s3\<lparr>qs_queue := \<lparr>mq_bufCap = 2, mq_pending = {''t''}, mq_ch = [?t]\<rparr>, qs_accepted := [?t, ?t]\<rparr>"
  define s5 where "s5 = s4\<lparr>qs_queue := \<lparr>mq_bufCap = 2, mq_pending = {}, mq_ch = [?t]\<rparr>, qs_unacked := [], qs_lost := (\<lambda>_. 0)(''t'' := 1)\<rparr>"
  note d = s1_def s2_def s3_def s4_def s5_def fresh_queue_sys_def sample_queue_def i
  have q: "NotifyReadyTask False (qs_queue (fresh_queue_sys sample_queue)) ?t = Inr (qs_queue s1)"
    "NotifyReadyTask False (qs_queue s3) ?t = Inr (qs_queue s4)"
    "NotifyReadyTask False (qs_queue s5) ?t = Inr (qs_queue doubled_queue_sys)"
    "recv_take (qs_queue s1) = Some (?t, qs_queue s2)"
    by (simp_all add: NotifyReadyTask_def tryEnqueue_def recv_take_def doubled_queue_sys_def d)
  have "queue_step (fresh_queue_sys sample_queue) s1"
    using queue_step.notify[OF q(1)] by (simp add: d)
  moreover have "queue_step s1 s2"
    using queue_step.take_one[OF q(4)] by (simp add: d)
  moreover have "queue_step s2 s3"
    using queue_step.unmark[of "''t''" s2] by (simp add: d recv_unmark_def)
  moreover have "queue_step s3 s4"
    using queue_step.notify[OF q(2)] by (simp add: d)
  moreover have "queue_step s4 s5"
    using queue_step.ack[of "''t''" s4] by (simp add: d AckAfterRecv_def)
  moreover have "queue_step s5 doubled_queue_sys"
    using queue_step.notify[OF q(3)] by (simp add: d doubled_queue_sys_def)
  ultimately show ?thesis using sample_queue_reachable by (meson queue_reachable.step)
qed

theorem queue_bounded_fifo_witness:
  "length (mq_ch (qs_queue doubled_queue_sys)) \<le> nat 2 \<and> copies doubled_queue_sys ''t'' \<le> Suc (qs_lost doubled_queue_sys ''t'') \<and>
   qs_accepted doubled_queue_sys = qs_delivered doubled_queue_sys @ mq_ch (qs_queue doubled_queue_sys)"
  using queue_bounded_fifo[OF doubled_queue_reachable] by blast

section \<open>Reconcile passes\<close>

record reconcile_result =
  rec_Scanned :: nat
  rec_Enqueued :: nat
  rec_SkippedAlreadyQueued :: nat
  rec_StoppedOnQueueFull :: bool

definition no_result :: reconcile_result where
  "no_result = \<lparr>rec_Scanned = 0, rec_Enqueued = 0, rec_SkippedAlreadyQueued = 0, rec_StoppedOnQueueFull = False\<rparr>"

text \<open>How a batch ends: all rows handled, a full queue, or another error that ends the pass.\<close>

datatype batch_end = BatchDone | BatchFull | BatchErr queue_err

text \<open>The tasks of one page are offered one by one. \<open>env n\<close> is what the other users of the queue do to it before
  offer \<open>n\<close> of the pass.\<close>

fun offer_batch :: "('q \<Rightarrow> task \<Rightarrow> queue_err + 'q) \<Rightarrow> (nat \<Rightarrow> 'q \<Rightarrow> 'q) \<Rightarrow> reconcile_result \<Rightarrow> 'q \<Rightarrow> task list
    \<Rightarrow> batch_end \<times> reconcile_result \<times> 'q" where
  "offer_batch notify env r q [] = (BatchDone, r, q)"
| "offer_batch notify env r q0 (t # ts) =
     (let r1 = r\<lparr>rec_Scanned := rec_Scanned r + 1\<rparr>; q = env (rec_Scanned r) q0 in
      case notify q t of
        Inr q' \<Rightarrow> offer_batch notify env (r1\<lparr>rec_Enqueued := rec_Enqueued r1 + 1\<rparr>) q' ts
      | Inl e \<Rightarrow>
          if e = ErrAlreadyQueued
          then offer_batch notify env (r1\<lparr>rec_SkippedAlreadyQueued := rec_SkippedAlreadyQueued r1 + 1\<rparr>) q ts
          else if e = ErrQueueFull then (BatchFull, r1\<lparr>rec_StoppedOnQueueFull := True\<rparr>, q)
          else (BatchErr e, r1, q))"

definition cursor_of :: "queue_candidate \<Rightarrow> queue_cursor" where
  "cursor_of c = \<lparr>qc_AfterTaskCreatedAt = qn_TaskCreatedAt c, qc_AfterTaskID = task_ID (qn_Task c)\<rparr>"

datatype reconcile_err = ReconcileStore err | ReconcileQueue queue_err

text \<open>\<open>page k\<close> is the answer of \<^verbatim>\<open>st.ListReadyTaskQueueCandidates\<close> at the page size when page \<open>k\<close> is read: every page
  is a query of its own. The loop ends only by its own breaks.\<close>

partial_function (option) reconcile_pages ::
  "('q \<Rightarrow> task \<Rightarrow> queue_err + 'q) \<Rightarrow> (nat \<Rightarrow> 'q \<Rightarrow> 'q) \<Rightarrow> (nat \<Rightarrow> queue_cursor option \<Rightarrow> queue_candidate list res) \<Rightarrow> nat \<Rightarrow>
   nat \<Rightarrow> queue_cursor option \<Rightarrow> reconcile_result \<Rightarrow> 'q \<Rightarrow> ((reconcile_err option) \<times> reconcile_result \<times> 'q) option" where
  "reconcile_pages notify env page psize k cur r q =
     (case page k cur of
        Inl e \<Rightarrow> Some (Some (ReconcileStore e), r, q)
      | Inr batch \<Rightarrow>
          if batch = [] then Some (None, r, q)
          else (case offer_batch notify env r q (map qn_Task batch) of (b, r', q') \<Rightarrow>
             case b of
               BatchFull \<Rightarrow> Some (None, r', q')
             | BatchErr e \<Rightarrow> Some (Some (ReconcileQueue e), r', q')
             | BatchDone \<Rightarrow>
                 if length batch < psize then Some (None, r', q')
                 else reconcile_pages notify env page psize (Suc k) (Some (cursor_of (last batch))) r' q'))"

text \<open>\<open>dbs k\<close> and \<open>nows k\<close> are the database and the clock when page \<open>k\<close> is read.\<close>

definition ReconcileReadyTasksNotQueued ::
  "('q \<Rightarrow> task \<Rightarrow> queue_err + 'q) \<Rightarrow> (nat \<Rightarrow> 'q \<Rightarrow> 'q) \<Rightarrow> (nat \<Rightarrow> db) \<Rightarrow> (nat \<Rightarrow> gotime) \<Rightarrow> int \<Rightarrow> 'q
   \<Rightarrow> ((reconcile_err option) \<times> reconcile_result \<times> 'q) option" where
  "ReconcileReadyTasksNotQueued notify env dbs nows pageSize0 q =
     (let pageSize = (if pageSize0 \<le> 0 then 200 else pageSize0) in
      reconcile_pages notify env (\<lambda>k. ListQueueCandidates (dbs k) (nows k) pageSize) (nat pageSize) 0 None no_result q)"

text \<open>The rows behind a cursor.\<close>

definition behind :: "sched_key option \<Rightarrow> queue_candidate \<Rightarrow> bool" where
  "behind cur c \<longleftrightarrow> (case cur of None \<Rightarrow> True | Some x \<Rightarrow> x < cand_key c)"

text \<open>The running pass: cycles left open, their task rows reloaded, only running ones offered.\<close>

fun offer_running ::
  "('q \<Rightarrow> task \<Rightarrow> queue_err + 'q) \<Rightarrow> db \<Rightarrow> reconcile_result \<Rightarrow> 'q \<Rightarrow> task_cycle list \<Rightarrow>
   (reconcile_err option) \<times> reconcile_result \<times> 'q" where
  "offer_running notify s r q [] = (None, r, q)"
| "offer_running notify s r q (c # cs) =
     (let r1 = r\<lparr>rec_Scanned := rec_Scanned r + 1\<rparr> in
      case Task_Get s (cycle_TaskID c) of
        Inl e \<Rightarrow> if e = ErrNotFound then offer_running notify s r1 q cs else (Some (ReconcileStore e), r1, q)
      | Inr t \<Rightarrow>
          if task_Status t \<noteq> StatusRunning then offer_running notify s r1 q cs
          else (case notify q t of
             Inr q' \<Rightarrow> offer_running notify s (r1\<lparr>rec_Enqueued := rec_Enqueued r1 + 1\<rparr>) q' cs
           | Inl e \<Rightarrow>
               if e = ErrAlreadyQueued
               then offer_running notify s (r1\<lparr>rec_SkippedAlreadyQueued := rec_SkippedAlreadyQueued r1 + 1\<rparr>) q cs
               else if e = ErrQueueFull then (None, r1\<lparr>rec_StoppedOnQueueFull := True\<rparr>, q)
               else (Some (ReconcileQueue e), r1, q)))"

definition ReconcileRunningTasksNotQueued ::
  "('q \<Rightarrow> task \<Rightarrow> queue_err + 'q) \<Rightarrow> db \<Rightarrow> 'q \<Rightarrow> (reconcile_err option) \<times> reconcile_result \<times> 'q" where
  "ReconcileRunningTasksNotQueued notify s q = offer_running notify s no_result q (ListRunning s)"

section \<open>The interface of a notification sink\<close>

text \<open>What the ready pass relies on: a success makes exactly that id held and is recorded as the pass's own,
  "already queued" is answered only for a held id, and an acceptable task is refused for no other reason than
  these two. Others (\<open>others q q'\<close>) only add to what is held; \<open>good\<close> is the invariant of the sink.\<close>

locale notify_sink =
  fixes notify :: "'q \<Rightarrow> task \<Rightarrow> queue_err + 'q"
    and others :: "'q \<Rightarrow> 'q \<Rightarrow> bool"
    and held :: "'q \<Rightarrow> string set"
    and own :: "'q \<Rightarrow> task list"
    and good :: "'q \<Rightarrow> bool"
    and acceptable :: "task \<Rightarrow> bool"
  assumes notify_held: "good q \<Longrightarrow> notify q t = Inr q' \<Longrightarrow> good q' \<and> held q' = insert (task_ID t) (held q) \<and> own q' = own q @ [t]"
    and notify_dup: "good q \<Longrightarrow> notify q t = Inl ErrAlreadyQueued \<Longrightarrow> task_ID t \<in> held q"
    and notify_refuse: "acceptable t \<Longrightarrow> notify q t = Inl e \<Longrightarrow> e = ErrQueueFull \<or> e = ErrAlreadyQueued"
    and others_held: "good q \<Longrightarrow> others q q' \<Longrightarrow> good q' \<and> held q \<subseteq> held q' \<and> own q' = own q"
begin

lemma offer_batch_held:
  "offer_batch notify env r q ts = (b, r', q') \<Longrightarrow> good q \<Longrightarrow> (\<And>n q. others q (env n q)) \<Longrightarrow>
   good q' \<and> held q \<subseteq> held q' \<and> set (own q') \<subseteq> set (own q) \<union> set ts \<and>
   (b = BatchDone \<longrightarrow> task_ID ` set ts \<subseteq> held q' \<and> rec_StoppedOnQueueFull r' = rec_StoppedOnQueueFull r) \<and>
   (b = BatchFull \<longrightarrow> rec_StoppedOnQueueFull r')"
proof (induction ts arbitrary: r q)
  case Nil
  then show ?case by simp
next
  case (Cons t ts)
  let ?q = "env (rec_Scanned r) q"
  have o: "good ?q" "held q \<subseteq> held ?q" "own ?q = own q" using others_held[OF Cons.prems(2,3)] by auto
  show ?case
  proof (cases "notify ?q t")
    case (Inr q1)
    then have run: "offer_batch notify env (r\<lparr>rec_Scanned := rec_Scanned r + 1, rec_Enqueued := rec_Enqueued r + 1\<rparr>) q1 ts = (b, r', q')"
      using Cons.prems(1) by (simp add: Let_def)
    have n: "good q1" "held q1 = insert (task_ID t) (held ?q)" "own q1 = own ?q @ [t]" using notify_held[OF o(1) Inr] by auto
    from Cons.IH[OF run n(1) Cons.prems(3)] o n show ?thesis by auto
  next
    case (Inl e)
    show ?thesis
    proof (cases "e = ErrAlreadyQueued")
      case True
      then have run: "offer_batch notify env
          (r\<lparr>rec_Scanned := rec_Scanned r + 1, rec_SkippedAlreadyQueued := rec_SkippedAlreadyQueued r + 1\<rparr>) ?q ts = (b, r', q')"
        using Cons.prems(1) Inl by (simp add: Let_def)
      from Cons.IH[OF run o(1) Cons.prems(3)] o notify_dup[OF o(1)] Inl True show ?thesis by auto
    next
      case False
      then show ?thesis using Cons.prems(1) Inl o by (auto simp: Let_def split: if_splits)
    qed
  qed
qed

lemma offer_batch_end:
  "offer_batch notify env r q ts = (b, r', q') \<Longrightarrow> \<forall>t\<in>set ts. acceptable t \<Longrightarrow> b = BatchDone \<or> b = BatchFull"
proof (induction ts arbitrary: r q)
  case (Cons t ts)
  show ?case
  proof (cases "notify (env (rec_Scanned r) q) t")
    case (Inl e)
    then have "e = ErrQueueFull \<or> e = ErrAlreadyQueued" using notify_refuse Cons.prems(2) by auto
    then show ?thesis using Cons Inl by (auto simp: Let_def)
  next
    case (Inr q1)
    then show ?thesis using Cons by (auto simp: Let_def)
  qed
qed simp

text \<open>The page loop over rows that change from page to page: \<open>L k\<close> are the rows, strictly sorted, when page \<open>k\<close> is
  read, and page \<open>k\<close> is the first \<open>n\<close> of those behind the cursor. As only finitely many keys occur the loop ends,
  without error; unless it stopped on a full sink, every key behind the cursor that is there at every page is held
  in the end; and what the pass put into the sink itself are tasks of these rows.\<close>

lemma reconcile_pages_covers:
  fixes L :: "nat \<Rightarrow> queue_candidate list"
  assumes page: "\<And>k cur. (\<forall>x. cur = Some x \<longrightarrow> acceptable (qn_Task x)) \<Longrightarrow>
      page k (map_option cursor_of cur) = Inr (take n (filter (behind (map_option cand_key cur)) (L k)))"
    and n: "0 < n" and ok: "\<forall>k. \<forall>c\<in>set (L k). acceptable (qn_Task c)"
    and sorted: "\<And>k. sorted_wrt (\<lambda>x y. cand_key x < cand_key y) (L k)"
    and fin: "finite (\<Union>k. cand_key ` set (L k))"
    and env: "\<And>n q. others q (env n q)"
  shows "good q \<Longrightarrow> (\<forall>x. cur = Some x \<longrightarrow> acceptable (qn_Task x)) \<Longrightarrow>
    \<exists>r' q'. reconcile_pages notify env page n k (map_option cursor_of cur) r q = Some (None, r', q') \<and>
      good q' \<and> held q \<subseteq> held q' \<and> set (own q') \<subseteq> set (own q) \<union> (\<Union>k. qn_Task ` set (L k)) \<and>
      (\<not> rec_StoppedOnQueueFull r' \<longrightarrow>
         (\<forall>x. (\<forall>j. \<exists>c\<in>set (L j). cand_key c = x \<and> behind (map_option cand_key cur) c) \<longrightarrow> sk_id x \<in> held q'))"
proof (induction "card {x \<in> (\<Union>k. cand_key ` set (L k)). case map_option cand_key cur of None \<Rightarrow> True | Some y \<Rightarrow> y < x}"
    arbitrary: cur k r q rule: less_induct)
  case less
  let ?rows = "filter (behind (map_option cand_key cur)) (L k)"
  let ?batch = "take n ?rows"
  let ?K = "\<lambda>c. {x \<in> (\<Union>k. cand_key ` set (L k)). case map_option cand_key c of None \<Rightarrow> True | Some y \<Rightarrow> y < x}"
  note p = page[OF less.prems(2), of k]
  have srt: "sorted_wrt (\<lambda>x y. cand_key x < cand_key y) ?rows" by (rule sorted_wrt_filter[OF sorted])
  show ?case
  proof (cases "?rows = []")
    case True
    then have run: "reconcile_pages notify env page n k (map_option cursor_of cur) r q = Some (None, r, q)"
      using p by (subst reconcile_pages.simps) simp
    have "\<not> (\<exists>c\<in>set (L k). cand_key c = x \<and> behind (map_option cand_key cur) c)" for x
      using True by (auto simp: filter_empty_conv)
    with run less.prems(1) show ?thesis by blast
  next
    case False
    then have ne: "?batch \<noteq> []" using n by simp
    have sub: "set ?batch \<subseteq> set (L k)" by (auto dest: in_set_takeD)
    obtain b r1 q1 where o: "offer_batch notify env r q (map qn_Task ?batch) = (b, r1, q1)"
      by (cases "offer_batch notify env r q (map qn_Task ?batch)")
    have "\<forall>t\<in>set (map qn_Task ?batch). acceptable t" using ok sub by auto
    then have b: "b = BatchDone \<or> b = BatchFull" by (rule offer_batch_end[OF o])
    have h: "good q1" "held q \<subseteq> held q1" "set (own q1) \<subseteq> set (own q) \<union> qn_Task ` set ?batch"
      "b = BatchDone \<Longrightarrow> task_ID ` qn_Task ` set ?batch \<subseteq> held q1" "b = BatchFull \<Longrightarrow> rec_StoppedOnQueueFull r1"
      using offer_batch_held[OF o less.prems(1) env] by (simp_all add: image_image)
    have own: "set (own q1) \<subseteq> set (own q) \<union> (\<Union>k. qn_Task ` set (L k))" using h(3) sub by blast
    have step: "reconcile_pages notify env page n k (map_option cursor_of cur) r q =
       (if b = BatchFull then Some (None, r1, q1)
        else if length ?batch < n then Some (None, r1, q1)
        else reconcile_pages notify env page n (Suc k) (Some (cursor_of (last ?batch))) r1 q1)"
      using b by (subst reconcile_pages.simps, unfold p sum.case if_not_P[OF ne] o prod.case) auto
    consider "b = BatchFull" | "b = BatchDone" "length ?batch < n" | "b = BatchDone" "\<not> length ?batch < n" using b by blast
    then show ?thesis
    proof cases
      case 1
      with step h own show ?thesis by (intro exI[of _ r1] exI[of _ q1]) simp
    next
      case 2
      then have all: "?batch = ?rows" by simp
      have "sk_id x \<in> held q1" if x: "\<forall>j. \<exists>c\<in>set (L j). cand_key c = x \<and> behind (map_option cand_key cur) c" for x
      proof -
        from x obtain c where c: "c \<in> set ?rows" "cand_key c = x" by fastforce
        with h(4)[OF 2(1)] all show ?thesis by (auto simp: cand_key_def)
      qed
      moreover have "reconcile_pages notify env page n k (map_option cursor_of cur) r q = Some (None, r1, q1)"
        using 2(1) unfolding step if_P[OF 2(2)] by simp
      ultimately show ?thesis using h(1,2) own by blast
    next
      case 3
      let ?c = "last ?batch"
      have c: "?c \<in> set ?batch" using ne by (rule last_in_set)
      then have cr: "?c \<in> set (L k)" "behind (map_option cand_key cur) ?c" by (auto dest: in_set_takeD)
      have "?K (Some ?c) \<subset> ?K cur"
      proof (rule psubsetI)
        show "?K (Some ?c) \<subseteq> ?K cur" using cr(2) by (auto simp: behind_def split: option.splits)
        have "cand_key ?c \<in> ?K cur" using cr by (auto simp: behind_def split: option.splits)
        moreover have "cand_key ?c \<notin> ?K (Some ?c)" by simp
        ultimately show "?K (Some ?c) \<noteq> ?K cur" by blast
      qed
      then have smaller: "card (?K (Some ?c)) < card (?K cur)" by (rule psubset_card_mono[OF finite_subset[OF _ fin], rotated]) blast
      have acc: "\<forall>x. Some ?c = Some x \<longrightarrow> acceptable (qn_Task x)" using ok cr(1) by simp
      from less.hyps[OF smaller h(1) acc, of "Suc k" r1] obtain r' q' where
        rec: "reconcile_pages notify env page n (Suc k) (Some (cursor_of ?c)) r1 q1 = Some (None, r', q')"
        and g: "good q'" "held q1 \<subseteq> held q'" "set (own q') \<subseteq> set (own q1) \<union> (\<Union>k. qn_Task ` set (L k))"
        and all: "\<not> rec_StoppedOnQueueFull r' \<longrightarrow>
          (\<forall>x. (\<forall>j. \<exists>c\<in>set (L j). cand_key c = x \<and> behind (Some (cand_key ?c)) c) \<longrightarrow> sk_id x \<in> held q')"
        by auto
      have "sk_id x \<in> held q'" if full: "\<not> rec_StoppedOnQueueFull r'"
        and x: "\<forall>j. \<exists>c\<in>set (L j). cand_key c = x \<and> behind (map_option cand_key cur) c" for x
      proof (cases "cand_key ?c < x")
        case True
        with x have "\<forall>j. \<exists>c\<in>set (L j). cand_key c = x \<and> behind (Some (cand_key ?c)) c" by (auto simp: behind_def)
        with all full show ?thesis by blast
      next
        case False
        from x obtain d where d: "d \<in> set ?rows" "cand_key d = x" by fastforce
        have "d \<in> set ?batch"
        proof (rule ccontr)
          assume "d \<notin> set ?batch"
          then have "d \<in> set (drop n ?rows)" using d(1) by (metis Un_iff append_take_drop_id set_append)
          moreover have "sorted_wrt (\<lambda>x y. cand_key x < cand_key y) (?batch @ drop n ?rows)" using srt by simp
          ultimately have "cand_key ?c < cand_key d" using c unfolding sorted_wrt_append by blast
          with False d(2) show False by simp
        qed
        then have "task_ID (qn_Task d) \<in> held q'" using h(4)[OF 3(1)] g(2) by blast
        then show ?thesis using d(2) by (auto simp: cand_key_def)
      qed
      moreover have "set (own q') \<subseteq> set (own q) \<union> (\<Union>k. qn_Task ` set (L k))" using own g(3) by blast
      moreover have "reconcile_pages notify env page n k (map_option cursor_of cur) r q = Some (None, r', q')"
        using 3(1) rec unfolding step if_not_P[OF 3(2)] by simp
      moreover have "held q \<subseteq> held q'" using h(2) g(2) by blast
      ultimately show ?thesis using g(1) by blast
    qed
  qed
qed

end

text \<open>The queue as such a sink. The pass works on the queue with its history and the list of tasks it has put in
  itself; what is held are the ids that were marked pending when it started (\<open>q0\<close>) and those accepted since, by
  whomever. All other users of the queue take steps of \<open>queue_step\<close>.\<close>

definition sink_notify :: "queue_sys \<times> task list \<Rightarrow> task \<Rightarrow> queue_err + (queue_sys \<times> task list)" where
  "sink_notify p t =
     (case NotifyReadyTask False (qs_queue (fst p)) t of
        Inl e \<Rightarrow> Inl e
      | Inr q \<Rightarrow> Inr ((fst p)\<lparr>qs_queue := q, qs_accepted := qs_accepted (fst p) @ [t]\<rparr>, snd p @ [t]))"

definition sink_others :: "queue_sys \<times> task list \<Rightarrow> queue_sys \<times> task list \<Rightarrow> bool" where
  "sink_others p p' \<longleftrightarrow> queue_step\<^sup>*\<^sup>* (fst p) (fst p') \<and> snd p' = snd p"

definition sink_held :: "queue_sys \<Rightarrow> queue_sys \<times> task list \<Rightarrow> string set" where
  "sink_held s0 p = mq_pending (qs_queue s0) \<union> task_ID ` set (drop (length (qs_accepted s0)) (qs_accepted (fst p)))"

definition sink_good :: "queue_sys \<Rightarrow> queue_sys \<times> task list \<Rightarrow> bool" where
  "sink_good s0 p \<longleftrightarrow> queue_step\<^sup>*\<^sup>* s0 (fst p) \<and> length (qs_accepted s0) \<le> length (qs_accepted (fst p)) \<and>
     mq_pending (qs_queue (fst p)) \<subseteq> sink_held s0 p"

lemma queue_step_accepted:
  "queue_step s s' \<Longrightarrow> \<exists>ts. qs_accepted s' = qs_accepted s @ ts \<and> mq_pending (qs_queue s') \<subseteq> mq_pending (qs_queue s) \<union> task_ID ` set ts"
proof (induction rule: queue_step.induct)
  case (notify c s t q')
  then show ?case by (intro exI[of _ "[t]"]) (auto simp: NotifyReadyTask_def tryEnqueue_Inr split: if_splits)
qed (auto simp: recv_take_def recv_unmark_def AckAfterRecv_def split: list.splits)

lemma queue_steps_accepted:
  "queue_step\<^sup>*\<^sup>* s s' \<Longrightarrow> \<exists>ts. qs_accepted s' = qs_accepted s @ ts \<and> mq_pending (qs_queue s') \<subseteq> mq_pending (qs_queue s) \<union> task_ID ` set ts"
proof (induction rule: rtranclp_induct)
  case (step y z)
  then obtain ts where ts: "qs_accepted y = qs_accepted s @ ts" "mq_pending (qs_queue y) \<subseteq> mq_pending (qs_queue s) \<union> task_ID ` set ts" by blast
  obtain us where us: "qs_accepted z = qs_accepted y @ us" "mq_pending (qs_queue z) \<subseteq> mq_pending (qs_queue y) \<union> task_ID ` set us"
    using queue_step_accepted[OF step(2)] by blast
  show ?case using ts us by (intro exI[of _ "ts @ us"]) auto
qed auto

text \<open>An id the queue accepts and the query takes as a cursor.\<close>

definition usable_id :: "task \<Rightarrow> bool" where
  "usable_id t \<longleftrightarrow> task_ID t \<noteq> [] \<and> trim_space (task_ID t) = task_ID t"

lemma sink_notify_Inr:
  assumes "sink_notify q t = Inr q'"
  obtains p where "NotifyReadyTask False (qs_queue (fst q)) t = Inr p"
    "q' = ((fst q)\<lparr>qs_queue := p, qs_accepted := qs_accepted (fst q) @ [t]\<rparr>, snd q @ [t])"
    "mq_pending p = insert (task_ID t) (mq_pending (qs_queue (fst q)))"
  using assms by (auto simp: sink_notify_def NotifyReadyTask_def tryEnqueue_Inr split: sum.splits)

lemma sink_notify_Inl:
  assumes "sink_notify q t = Inl e" "usable_id t"
  shows "e = ErrQueueFull \<or> e = ErrAlreadyQueued" and "e = ErrAlreadyQueued \<Longrightarrow> task_ID t \<in> mq_pending (qs_queue (fst q))"
  using assms by (auto simp: sink_notify_def NotifyReadyTask_def tryEnqueue_def usable_id_def split: sum.splits if_splits)

lemma sink_notify_dup: "sink_notify q t = Inl ErrAlreadyQueued \<Longrightarrow> task_ID t \<in> mq_pending (qs_queue (fst q))"
  by (auto simp: sink_notify_def NotifyReadyTask_def tryEnqueue_def split: sum.splits if_splits)

interpretation sink: notify_sink sink_notify sink_others "sink_held s0" snd "sink_good s0" usable_id for s0
proof
  fix q q' :: "queue_sys \<times> task list" and t :: task and e :: queue_err
  show "sink_good s0 q' \<and> sink_held s0 q' = insert (task_ID t) (sink_held s0 q) \<and> snd q' = snd q @ [t]"
    if g: "sink_good s0 q" and n: "sink_notify q t = Inr q'"
  proof -
    obtain p where p: "NotifyReadyTask False (qs_queue (fst q)) t = Inr p"
      "q' = ((fst q)\<lparr>qs_queue := p, qs_accepted := qs_accepted (fst q) @ [t]\<rparr>, snd q @ [t])"
      "mq_pending p = insert (task_ID t) (mq_pending (qs_queue (fst q)))"
      using sink_notify_Inr[OF n] .
    have "queue_step (fst q) (fst q')" using queue_step.notify[OF p(1)] p(2) by simp
    with g p(2,3) show ?thesis by (auto simp: sink_good_def sink_held_def)
  qed
  show "task_ID t \<in> sink_held s0 q" if "sink_good s0 q" "sink_notify q t = Inl ErrAlreadyQueued"
    using that(1) sink_notify_dup[OF that(2)] by (auto simp: sink_good_def)
  show "e = ErrQueueFull \<or> e = ErrAlreadyQueued" if "usable_id t" "sink_notify q t = Inl e"
    using that sink_notify_Inl(1) by blast
  show "sink_good s0 q' \<and> sink_held s0 q \<subseteq> sink_held s0 q' \<and> snd q' = snd q" if g: "sink_good s0 q" and o: "sink_others q q'"
  proof -
    obtain ts where "qs_accepted (fst q') = qs_accepted (fst q) @ ts"
      "mq_pending (qs_queue (fst q')) \<subseteq> mq_pending (qs_queue (fst q)) \<union> task_ID ` set ts"
      using o queue_steps_accepted by (fastforce simp: sink_others_def)
    then show ?thesis using g o by (fastforce simp: sink_good_def sink_held_def sink_others_def)
  qed
qed

text \<open>While nobody else uses the queue, what is held are the marks themselves.\<close>

interpretation quiet: notify_sink sink_notify "(=)" "\<lambda>p. mq_pending (qs_queue (fst p))" snd "\<lambda>_. True" usable_id
proof
  fix q q' :: "queue_sys \<times> task list" and t :: task and e :: queue_err
  show "True \<and> mq_pending (qs_queue (fst q')) = insert (task_ID t) (mq_pending (qs_queue (fst q))) \<and> snd q' = snd q @ [t]"
    if n: "sink_notify q t = Inr q'"
    by (rule sink_notify_Inr[OF n]) simp
  show "task_ID t \<in> mq_pending (qs_queue (fst q))" if "sink_notify q t = Inl ErrAlreadyQueued" by (rule sink_notify_dup[OF that])
  show "e = ErrQueueFull \<or> e = ErrAlreadyQueued" if "usable_id t" "sink_notify q t = Inl e" by (rule sink_notify_Inl(1)[OF that(2,1)])
qed auto

section \<open>Reconciling the ready tasks\<close>

definition store_tables_ok :: "db \<Rightarrow> bool" where
  "store_tables_ok s \<longleftrightarrow> deps_ok s \<and> task_ids_ok s \<and> numbered_by ev_TaskID ev_Seq (db_events s)"

lemma distinct_filter_key: "distinct (map f rs) \<Longrightarrow> length (filter (\<lambda>r. f r = k) rs) \<le> 1"
  by (induction rs) (auto simp: filter_empty_conv image_iff)

lemma one_creation_event:
  assumes "numbered_by ev_TaskID ev_Seq (db_events s)"
  shows "length (filter (\<lambda>e. ev_TaskID e = i \<and> is_created e) (db_events s)) \<le> 1"
proof -
  let ?es = "filter (\<lambda>e. ev_TaskID e = i) (db_events s)"
  have "distinct (map ev_Seq ?es)" using assms numbered_distinct by (auto simp: numbered_by_def)
  then have "length (filter (\<lambda>e. ev_Seq e = 1) ?es) \<le> 1" by (rule distinct_filter_key)
  moreover have "filter (\<lambda>e. ev_TaskID e = i \<and> is_created e) (db_events s) =
      filter (\<lambda>e. ev_Type e = EventTaskCreated) (filter (\<lambda>e. ev_Seq e = 1) ?es)"
    unfolding filter_filter by (rule filter_cong) (auto simp: is_created_def)
  ultimately show ?thesis by (simp only: order_trans[OF length_filter_le])
qed

lemma length_le_1_distinct: "length xs \<le> 1 \<Longrightarrow> distinct xs"
  by (cases xs; cases "tl xs") auto

lemma distinct_concat_keys:
  assumes "distinct (map k ts)" "\<And>t c. c \<in> set (g t) \<Longrightarrow> h c = k t" "\<And>t. length (g t) \<le> 1"
  shows "distinct (map h (concat (map g ts)))"
  using assms(1)
proof (induction ts)
  case (Cons t ts)
  have "distinct (map h (g t))" using assms(3)[of t] by (intro length_le_1_distinct) simp
  moreover have "h ` set (g t) \<inter> h ` (\<Union>u\<in>set ts. set (g u)) = {}"
  proof (rule equals0I)
    fix y assume "y \<in> h ` set (g t) \<inter> h ` (\<Union>u\<in>set ts. set (g u))"
    then obtain u where "u \<in> set ts" "y = k t" "y = k u" using assms(2) by auto
    then show False using Cons.prems by (metis distinct.simps(2) imageI list.map(2) list.set_map)
  qed
  ultimately show ?case using Cons by simp
qed simp

lemma distinct_joined_keys:
  assumes "task_ids_ok s" "numbered_by ev_TaskID ev_Seq (db_events s)"
  shows "distinct (map cand_key (joined_rows s is_created P))"
proof -
  have "distinct (map (task_ID \<circ> qn_Task) (joined_rows s is_created P))"
    unfolding joined_rows_def
  proof (rule distinct_concat_keys[OF task_ids_okD[OF assms(1)]])
    show "length (if P t then map (\<lambda>e. \<lparr>qn_Task = t, qn_TaskCreatedAt = ev_At e\<rparr>)
            (filter (\<lambda>e. ev_TaskID e = task_ID t \<and> is_created e) (db_events s)) else []) \<le> 1" for t
      using one_creation_event[OF assms(2), of "task_ID t"] by simp
  qed (auto split: if_splits)
  then have "distinct (map sk_id (map cand_key (joined_rows s is_created P)))" by (simp add: cand_key_def comp_def)
  then show ?thesis by (simp only: distinct_map)
qed

lemma ready_rows_strict:
  "store_tables_ok s \<Longrightarrow> sorted_wrt (\<lambda>x y. cand_key x < cand_key y) (ready_rows s now)"
  unfolding ready_rows_def store_tables_ok_def by (intro sort_key_strict distinct_joined_keys) auto

text \<open>A page is the first rows behind the cursor, whether or not the row of the cursor is still a candidate.\<close>

lemma ready_page_behind:
  assumes p: "0 < p" "p \<le> 500" and cur: "\<forall>x. cur = Some x \<longrightarrow> usable_id (qn_Task x)"
  shows "ListQueueCandidates s now p (map_option cursor_of cur) =
    Inr (take (nat p) (filter (behind (map_option cand_key cur)) (ready_rows s now)))"
proof (cases cur)
  case None
  have "filter (behind None) (ready_rows s now) = ready_rows s now" by (simp add: behind_def)
  with None p show ?thesis by (simp add: ListQueueCandidates_def ready_limit_def)
next
  case (Some c)
  have "behind (Some (cand_key c)) = (\<lambda>r. qn_TaskCreatedAt c < qn_TaskCreatedAt r \<or>
      qn_TaskCreatedAt c = qn_TaskCreatedAt r \<and> task_ID (qn_Task c) < task_ID (qn_Task r))"
    by (simp add: behind_def cand_key_def fun_eq_iff)
  with Some p cur show ?thesis
    by (simp add: ListQueueCandidates_def cursor_of_def ready_limit_def usable_id_def)
qed

lemma ready_rows_usable: "store_tables_ok s \<Longrightarrow> c \<in> set (ready_rows s now) \<Longrightarrow> usable_id (qn_Task c)"
  by (auto simp: ready_rows_def set_joined_rows store_tables_ok_def task_ids_ok_def usable_id_def)

lemma ready_page:
  assumes ok: "store_tables_ok s" and p: "0 < p" "p \<le> 500" and L: "ready_rows s now = xs @ ys"
  shows "ListQueueCandidates s now p (if xs = [] then None else Some (cursor_of (last xs))) = Inr (take (nat p) ys)"
proof (cases "xs = []")
  case True
  then show ?thesis using p L by (simp add: ListQueueCandidates_def ready_limit_def)
next
  case False
  let ?c = "last xs"
  have "?c \<in> set (ready_rows s now)" using False L by simp
  then have u: "usable_id (qn_Task ?c)" by (rule ready_rows_usable[OF ok])
  have "filter (behind (Some (cand_key ?c))) (ready_rows s now) = ys"
    using after_key_last[of cand_key xs ys] ready_rows_strict[OF ok, of now] L False
    by (simp add: after_key_def behind_def[abs_def])
  then show ?thesis using ready_page_behind[OF p, of "Some ?c" s now] u False by simp
qed

lemma ready_rows_tasks:
  assumes "store_tables_ok s"
  shows "qn_Task ` set (ready_rows s now) =
      {t \<in> set (db_tasks s). worker_ready t now (preds_done s (task_ID t)) \<and>
         (\<exists>e\<in>set (db_events s). ev_TaskID e = task_ID t \<and> is_created e)}"
proof -
  have "qn_Task ` set (ready_rows s now) =
     {t \<in> set (db_tasks s). ready_row_sql s now t \<and> (\<exists>e\<in>set (db_events s). ev_TaskID e = task_ID t \<and> is_created e)}"
    by (force simp: ready_rows_def set_joined_rows)
  then show ?thesis using ready_row_sql_iff[of s] assms by (simp add: store_tables_ok_def)
qed

lemma ready_row_candidate:
  assumes "store_tables_ok s" "t \<in> set (db_tasks s)" "worker_ready t now (preds_done s (task_ID t))"
    "e \<in> set (db_events s)" "ev_TaskID e = task_ID t" "is_created e"
  shows "\<exists>c\<in>set (ready_rows s now). cand_key c = SchedKey (ev_At e) (task_ID t)"
proof -
  have "ready_row_sql s now t" using ready_row_sql_iff[of s] assms(1,3) by (simp add: store_tables_ok_def)
  then have "\<lparr>qn_Task = t, qn_TaskCreatedAt = ev_At e\<rparr> \<in> set (ready_rows s now)"
    using assms by (auto simp: ready_rows_def set_joined_rows)
  then show ?thesis by (intro bexI) (simp_all add: cand_key_def)
qed

text \<open>C14. The SQL of the ready queue selects exactly the tasks the worker's own predicates admit, oldest
  creation first: on a well-formed database a task is a candidate if and only if it has its creation
  event and \<open>worker_ready\<close> holds of it with all its predecessors done, and pages read with the
  cursor of their last row, at any page size up to the limit, continue exactly where they stopped.\<close>

theorem ready_queue_matches_readiness:
  assumes "store_tables_ok s"
  shows "qn_Task ` set (ready_rows s now) =
      {t \<in> set (db_tasks s). worker_ready t now (preds_done s (task_ID t)) \<and>
         (\<exists>e\<in>set (db_events s). ev_TaskID e = task_ID t \<and> is_created e)} \<and>
    sorted_wrt (\<lambda>x y. cand_key x < cand_key y) (ready_rows s now) \<and>
    (\<forall>p xs ys. 0 < p \<and> p \<le> 500 \<and> ready_rows s now = xs @ ys \<longrightarrow>
       ListQueueCandidates s now p (if xs = [] then None else Some (cursor_of (last xs))) = Inr (take (nat p) ys))"
  by (intro conjI allI impI, rule ready_rows_tasks[OF assms], rule ready_rows_strict[OF assms], rule ready_page[OF assms]) auto

definition sample_ready_db :: db where
  "sample_ready_db = empty_db\<lparr>db_tasks := [sample_task ''t''], db_events := [\<lparr>ev_TaskID = ''t'', ev_Seq = 1, ev_At = 3,
     ev_Type = EventTaskCreated, ev_By = ActorUser, ev_Data = [], ev_UserResponse = None, ev_UserResponseAt = None, ev_ResponseThread = None\<rparr>]\<rparr>"

lemma sample_ready_db_tables: "store_tables_ok sample_ready_db"
  by (auto simp: store_tables_ok_def sample_ready_db_def empty_db_def deps_ok_def task_ids_ok_def sample_task_def numbered_by_def dep_edges_def acyclic_def)

lemma sample_ready_rows: "ready_rows sample_ready_db 7 = [\<lparr>qn_Task = sample_task ''t'', qn_TaskCreatedAt = 3\<rparr>]"
  by (simp add: ready_rows_def joined_rows_def sample_ready_db_def empty_db_def ready_row_sql_def dequeuable_sql_def is_created_def sample_task_def)

theorem ready_queue_matches_readiness_witness:
  "{t \<in> set (db_tasks sample_ready_db). worker_ready t 7 (preds_done sample_ready_db (task_ID t)) \<and>
      (\<exists>e\<in>set (db_events sample_ready_db). ev_TaskID e = task_ID t \<and> is_created e)} = {sample_task ''t''} \<and>
   ListQueueCandidates sample_ready_db 7 1 None = Inr [\<lparr>qn_Task = sample_task ''t'', qn_TaskCreatedAt = 3\<rparr>]"
proof -
  note T = ready_queue_matches_readiness[OF sample_ready_db_tables, of 7]
  have "ListQueueCandidates sample_ready_db 7 1 None = Inr (take (nat 1) (ready_rows sample_ready_db 7))"
    using conjunct2[OF conjunct2[OF T], rule_format, of 1 "[]" "ready_rows sample_ready_db 7"] by simp
  with conjunct1[OF T] show ?thesis by (simp add: sample_ready_rows)
qed

lemma ready_throughout:
  assumes ok: "\<forall>k. store_tables_ok (dbs k)"
    and there: "\<forall>k. \<exists>t\<in>set (db_tasks (dbs k)). task_ID t = i \<and> worker_ready t (nows k) (preds_done (dbs k) i) \<and>
          (\<exists>e\<in>set (db_events (dbs k)). ev_TaskID e = i \<and> is_created e \<and> ev_At e = at)"
  shows "\<forall>k. \<exists>c\<in>set (ready_rows (dbs k) (nows k)). cand_key c = SchedKey at i"
proof
  fix k
  obtain t e where "t \<in> set (db_tasks (dbs k))" "task_ID t = i" "worker_ready t (nows k) (preds_done (dbs k) (task_ID t))"
    "e \<in> set (db_events (dbs k))" "ev_TaskID e = task_ID t" "is_created e" "ev_At e = at"
    using there by metis
  then show "\<exists>c\<in>set (ready_rows (dbs k) (nows k)). cand_key c = SchedKey at i"
    using ready_row_candidate[of "dbs k" t "nows k" e] ok by blast
qed

text \<open>C15. Every page of a reconcile pass is a query of its own: database and clock may change from page to page
  (\<open>dbs k\<close> and \<open>nows k\<close> when page \<open>k\<close> is read), and before every offer the other users of the queue may take
  any steps (\<open>env\<close>). As long as no query fails and
  the context is not cancelled, the databases are well formed, the page size is at most 500 (the reader clamps a
  larger one, so that a full page would count as the last), and only finitely many creation instants and ids of
  ready tasks occur, the pass returns, without error. What it put into the queue itself are candidate rows of one
  of the pages. Unless it stopped on a full buffer, every id that the worker would admit at every page, with its
  creation event at the same instant throughout, was pending when the pass started or has been accepted by the
  queue since; and when nobody else used the queue it is pending when the pass ends.\<close>

theorem reconcile_pass_complete:
  assumes ok: "\<forall>k. store_tables_ok (dbs k)" and size: "pageSize \<le> 500"
    and fin: "finite (\<Union>k. cand_key ` set (ready_rows (dbs k) (nows k)))"
    and env: "\<forall>n s. queue_step\<^sup>*\<^sup>* s (env n s)"
  shows "\<exists>r s' own.
    ReconcileReadyTasksNotQueued sink_notify (\<lambda>n p. (env n (fst p), snd p)) dbs nows pageSize (s0, []) = Some (None, r, (s', own)) \<and>
    queue_step\<^sup>*\<^sup>* s0 s' \<and> set own \<subseteq> (\<Union>k. qn_Task ` set (ready_rows (dbs k) (nows k))) \<and>
    (\<not> rec_StoppedOnQueueFull r \<longrightarrow>
      (\<forall>i at. (\<forall>k. \<exists>t\<in>set (db_tasks (dbs k)). task_ID t = i \<and> worker_ready t (nows k) (preds_done (dbs k) i) \<and>
                 (\<exists>e\<in>set (db_events (dbs k)). ev_TaskID e = i \<and> is_created e \<and> ev_At e = at)) \<longrightarrow>
         i \<in> mq_pending (qs_queue s0) \<union> task_ID ` set (drop (length (qs_accepted s0)) (qs_accepted s')) \<and>
         ((\<forall>n s. env n s = s) \<longrightarrow> i \<in> mq_pending (qs_queue s'))))"
proof -
  let ?p = "if pageSize \<le> 0 then 200 else pageSize"
  let ?env = "\<lambda>n p. (env n (fst p), snd p)"
  let ?L = "\<lambda>k. ready_rows (dbs k) (nows k)"
  let ?page = "\<lambda>k. ListQueueCandidates (dbs k) (nows k) ?p"
  have p: "0 < ?p" "?p \<le> 500" and n: "0 < nat ?p" using size by auto
  have page: "?page k (map_option cursor_of cur) = Inr (take (nat ?p) (filter (behind (map_option cand_key cur)) (?L k)))"
    if "\<forall>x. cur = Some x \<longrightarrow> usable_id (qn_Task x)" for k cur
    by (rule ready_page_behind[OF p that])
  have use: "\<forall>k. \<forall>c\<in>set (?L k). usable_id (qn_Task c)" using ready_rows_usable ok by blast
  have srt: "sorted_wrt (\<lambda>x y. cand_key x < cand_key y) (?L k)" for k using ready_rows_strict ok by blast
  have others: "sink_others q (?env n q)" for n q using env by (simp add: sink_others_def)
  have good: "sink_good s0 (s0, [])" by (simp add: sink_good_def sink_held_def)
  from sink.reconcile_pages_covers[where L = ?L and page = ?page and env = ?env and q = "(s0, [])" and cur = None and k = 0 and r = no_result,
      OF page n use srt fin others good]
  obtain r s' own where run: "reconcile_pages sink_notify ?env ?page (nat ?p) 0 None no_result (s0, []) = Some (None, r, (s', own))"
    and g: "sink_good s0 (s', own)" and own: "set own \<subseteq> (\<Union>k. qn_Task ` set (?L k))"
    and held: "\<not> rec_StoppedOnQueueFull r \<longrightarrow> (\<forall>x. (\<forall>j. \<exists>c\<in>set (?L j). cand_key c = x) \<longrightarrow> sk_id x \<in> sink_held s0 (s', own))"
    by (auto simp: behind_def)
  have quiet: "sk_id x \<in> mq_pending (qs_queue s')"
    if "\<forall>n s. env n s = s" "\<not> rec_StoppedOnQueueFull r" "\<forall>j. \<exists>c\<in>set (?L j). cand_key c = x" for x
  proof -
    have env_id: "q = ?env n q" for n q using that(1) by simp
    from quiet.reconcile_pages_covers[where L = ?L and page = ?page and env = ?env and q = "(s0, [])" and cur = None and k = 0 and r = no_result,
        OF page n use srt fin env_id TrueI, unfolded behind_def, simplified] run that
    show ?thesis by auto
  qed
  note cand = ready_throughout[OF ok]
  have "ReconcileReadyTasksNotQueued sink_notify ?env dbs nows pageSize (s0, []) = Some (None, r, (s', own))"
    using run by (simp add: ReconcileReadyTasksNotQueued_def Let_def)
  moreover have "queue_step\<^sup>*\<^sup>* s0 s'" using g by (simp add: sink_good_def)
  moreover have "i \<in> mq_pending (qs_queue s0) \<union> task_ID ` set (drop (length (qs_accepted s0)) (qs_accepted s')) \<and>
      ((\<forall>n s. env n s = s) \<longrightarrow> i \<in> mq_pending (qs_queue s'))"
    if "\<not> rec_StoppedOnQueueFull r" "\<forall>k. \<exists>t\<in>set (db_tasks (dbs k)). task_ID t = i \<and> worker_ready t (nows k) (preds_done (dbs k) i) \<and>
          (\<exists>e\<in>set (db_events (dbs k)). ev_TaskID e = i \<and> is_created e \<and> ev_At e = at)" for i at
  proof -
    have "i \<in> sink_held s0 (s', own)" using held that(1) cand[OF that(2)] by force
    moreover have "(\<forall>n s. env n s = s) \<longrightarrow> i \<in> mq_pending (qs_queue s')" using quiet[OF _ that(1) cand[OF that(2)]] by simp
    ultimately show ?thesis by (simp add: sink_held_def)
  qed
  ultimately show ?thesis using own by blast
qed

theorem reconcile_pass_complete_witness:
  "ready_rows sample_ready_db 7 = [\<lparr>qn_Task = sample_task ''t'', qn_TaskCreatedAt = 3\<rparr>] \<and>
   (\<exists>r s' own. ReconcileReadyTasksNotQueued sink_notify (\<lambda>n p. (fst p, snd p)) (\<lambda>_. sample_ready_db) (\<lambda>_. 7) 200
        (fresh_queue_sys sample_queue, []) = Some (None, r, (s', own)) \<and>
      \<not> rec_StoppedOnQueueFull r \<and> ''t'' \<in> mq_pending (qs_queue s'))"
proof -
  note rows = sample_ready_rows
  let ?run = "ReconcileReadyTasksNotQueued sink_notify (\<lambda>n p. (fst p, snd p)) (\<lambda>_. sample_ready_db) (\<lambda>_. 7) 200 (fresh_queue_sys sample_queue, [])"
  obtain r s' own where run: "?run = Some (None, r, (s', own))"
    and held: "\<not> rec_StoppedOnQueueFull r \<longrightarrow> (\<forall>i at. (\<forall>k::nat. \<exists>t\<in>set (db_tasks sample_ready_db). task_ID t = i \<and>
          worker_ready t 7 (preds_done sample_ready_db i) \<and> (\<exists>e\<in>set (db_events sample_ready_db). ev_TaskID e = i \<and> is_created e \<and> ev_At e = at)) \<longrightarrow>
        i \<in> mq_pending (qs_queue s'))"
    using reconcile_pass_complete[of "\<lambda>_. sample_ready_db" 200 "\<lambda>_. 7" "\<lambda>_ s. s" "fresh_queue_sys sample_queue"] sample_ready_db_tables
    by auto
  have "\<not> rec_StoppedOnQueueFull r"
    using run by (simp add: ReconcileReadyTasksNotQueued_def Let_def reconcile_pages.simps ListQueueCandidates_def ready_limit_def rows
        sink_notify_def NotifyReadyTask_def tryEnqueue_def fresh_queue_sys_def sample_queue_def no_result_def sample_task_def) auto
  moreover have "''t'' \<in> mq_pending (qs_queue s')"
    using held[rule_format, OF calculation, of "''t''" 3]
    by (simp add: sample_ready_db_def sample_task_def worker_ready_def preds_done_def is_created_def empty_db_def)
  ultimately show ?thesis using rows run by blast
qed

text \<open>The late \<^verbatim>\<open>AckAfterRecv\<close> of the worker shown on the functions alone: \<open>Receive\<close> has already dropped
  the mark, so when the task was queued again in the meantime the acknowledgement drops the mark of
  the new entry, and a third notification buffers the same id twice.\<close>

theorem late_ack_buffers_twice:
  "case NotifyReadyTask False sample_queue (sample_task ''t'') of Inl _ \<Rightarrow> False
   | Inr q1 \<Rightarrow>
     (case Receive q1 of None \<Rightarrow> False
      | Some (t, q2) \<Rightarrow>
        (case NotifyReadyTask False q2 t of Inl _ \<Rightarrow> False
         | Inr q3 \<Rightarrow> NotifyReadyTask False q3 t = Inl ErrAlreadyQueued \<and>
             (case NotifyReadyTask False (AckAfterRecv (task_ID t) q3) t of Inl _ \<Rightarrow> False
              | Inr q4 \<Rightarrow> map task_ID (mq_ch q4) = [task_ID t, task_ID t])))"
  by (simp add: NotifyReadyTask_def tryEnqueue_def Receive_def recv_take_def recv_unmark_def AckAfterRecv_def
      sample_queue_def sample_task_def)

end
