(* ===== verification/Wake_Heap.thy ===== *)
theory Wake_Heap
  imports Sched_Key
begin

text \<open>
  The min-heap of the pickup wake scheduler: \<^verbatim>\<open>wakeHeap\<close> of \<^verbatim>\<open>pkgs/agents/pickup_wake.go\<close> under the
  algorithms of Go's \<^verbatim>\<open>container/heap\<close>, on an array of items that carry their own position. The heap
  order, the positions and the contents are shown to be kept; the interface \<open>deadline_queue\<close> states
  what the scheduler uses.
\<close>

section \<open>Items and the heap.Interface methods\<close>

record wake_item =
  wi_taskID :: string
  wi_notBefore :: gotime
  wi_index :: int

definition wakeLess :: "wake_item list \<Rightarrow> nat \<Rightarrow> nat \<Rightarrow> bool" where
  "wakeLess h i j =
     (let a = wi_notBefore (h ! i); b = wi_notBefore (h ! j) in
      if a \<noteq> b then a < b else wi_taskID (h ! i) < wi_taskID (h ! j))"

definition wakeSwap :: "wake_item list \<Rightarrow> nat \<Rightarrow> nat \<Rightarrow> wake_item list" where
  "wakeSwap h i j =
     (let h1 = h[i := h ! j, j := h ! i] in
      let h2 = h1[i := (h1 ! i)\<lparr>wi_index := int i\<rparr>] in h2[j := (h2 ! j)\<lparr>wi_index := int j\<rparr>])"

definition wakePush :: "wake_item list \<Rightarrow> wake_item \<Rightarrow> wake_item list" where
  "wakePush h x = h @ [x\<lparr>wi_index := int (length h)\<rparr>]"

definition wakePop :: "wake_item list \<Rightarrow> wake_item \<times> wake_item list" where
  "wakePop h = ((last h)\<lparr>wi_index := -1\<rparr>, butlast h)"

section \<open>container/heap\<close>

function heap_up :: "wake_item list \<Rightarrow> nat \<Rightarrow> wake_item list" where
  "heap_up h j =
     (let i = (j - 1) div 2 in
      if i = j \<or> \<not> wakeLess h j i then h else heap_up (wakeSwap h i j) i)"
  by pat_completeness auto
termination by (relation "measure snd") auto

text \<open>The second component is the final position; the caller compares it with the start.\<close>

function heap_down :: "wake_item list \<Rightarrow> nat \<Rightarrow> nat \<Rightarrow> wake_item list \<times> nat" where
  "heap_down h i n =
     (let j1 = 2 * i + 1 in
      if n \<le> j1 then (h, i)
      else let j = (if j1 + 1 < n \<and> wakeLess h (j1 + 1) j1 then j1 + 1 else j1) in
      if \<not> wakeLess h j i then (h, i) else heap_down (wakeSwap h i j) j n)"
  by pat_completeness auto
termination by (relation "measure (\<lambda>(h, i, n). n - i)") (auto split: if_splits)

declare heap_up.simps [simp del] heap_down.simps [simp del]

definition heap_Push :: "wake_item list \<Rightarrow> wake_item \<Rightarrow> wake_item list" where
  "heap_Push h x = (let h1 = wakePush h x in heap_up h1 (length h1 - 1))"

definition heap_Pop :: "wake_item list \<Rightarrow> wake_item \<times> wake_item list" where
  "heap_Pop h =
     (let n = length h - 1; h1 = wakeSwap h 0 n in wakePop (fst (heap_down h1 0 n)))"

definition heap_Remove :: "wake_item list \<Rightarrow> nat \<Rightarrow> wake_item \<times> wake_item list" where
  "heap_Remove h i =
     (let n = length h - 1 in
      if n \<noteq> i
      then (let h1 = wakeSwap h i n; d = heap_down h1 i n in
            if \<not> i < snd d then wakePop (heap_up (fst d) i) else wakePop (fst d))
      else wakePop h)"

section \<open>Keys, order and positions\<close>

definition wkey :: "wake_item \<Rightarrow> sched_key" where
  "wkey x = SchedKey (wi_notBefore x) (wi_taskID x)"

lemma wakeLess_iff: "wakeLess h i j \<longleftrightarrow> wkey (h ! i) < wkey (h ! j)"
  by (auto simp: wakeLess_def wkey_def Let_def)

lemma wkey_index [simp]: "wkey (x\<lparr>wi_index := i\<rparr>) = wkey x"
  by (simp add: wkey_def)

definition parent :: "nat \<Rightarrow> nat" where "parent i = (i - 1) div 2"

lemma parent_less: "0 < i \<Longrightarrow> parent i < i"
  by (simp add: parent_def)

lemma parent_child: "0 < k \<Longrightarrow> parent k = i \<longleftrightarrow> k = 2 * i + 1 \<or> k = 2 * i + 2"
  unfolding parent_def by linarith

definition heap_upto :: "nat \<Rightarrow> wake_item list \<Rightarrow> bool" where
  "heap_upto n h \<longleftrightarrow> (\<forall>k. 0 < k \<and> k < n \<longrightarrow> wkey (h ! parent k) \<le> wkey (h ! k))"

definition index_ok :: "wake_item list \<Rightarrow> bool" where
  "index_ok h \<longleftrightarrow> (\<forall>k<length h. wi_index (h ! k) = int k)"

lemma length_swap [simp]: "length (wakeSwap h i j) = length h"
  by (simp add: wakeSwap_def Let_def)

lemma swap_key:
  assumes "i < length h" "j < length h" "k < length h"
  shows "wkey (wakeSwap h i j ! k) = (if k = i then wkey (h ! j) else if k = j then wkey (h ! i) else wkey (h ! k))"
  using assms by (auto simp: wakeSwap_def Let_def nth_list_update)

lemma swap_index_ok: "index_ok h \<Longrightarrow> i < length h \<Longrightarrow> j < length h \<Longrightarrow> index_ok (wakeSwap h i j)"
  by (auto simp: index_ok_def wakeSwap_def Let_def nth_list_update)

text \<open>The contents, without the positions.\<close>

definition contents :: "wake_item list \<Rightarrow> sched_key multiset" where
  "contents h = mset (map wkey h)"

lemma map_swap:
  assumes "i < length h" "j < length h"
  shows "map wkey (wakeSwap h i j) = (map wkey h)[i := wkey (h ! j), j := wkey (h ! i)]"
  by (rule nth_equalityI) (use assms in \<open>auto simp: swap_key nth_list_update\<close>)

lemma contents_swap: "i < length h \<Longrightarrow> j < length h \<Longrightarrow> contents (wakeSwap h i j) = contents h"
  using mset_swap[of j "map wkey h" i] by (simp add: contents_def map_swap del: mset_map)

section \<open>Sifting up and down\<close>

lemma heap_up_frame:
  "j < length h \<Longrightarrow> length (heap_up h j) = length h \<and> contents (heap_up h j) = contents h \<and>
     (index_ok h \<longrightarrow> index_ok (heap_up h j)) \<and> (\<forall>k. j < k \<and> k < length h \<longrightarrow> wkey (heap_up h j ! k) = wkey (h ! k))"
proof (induction h j rule: heap_up.induct)
  case (1 h j)
  let ?i = "(j - 1) div 2"
  show ?case
  proof (cases "?i = j \<or> \<not> wakeLess h j ?i")
    case True
    then show ?thesis by (subst (1 2 3 4) heap_up.simps) simp
  next
    case False
    then have lt: "?i < length h" "?i < j" using 1(2) by linarith+
    have eq: "heap_up h j = heap_up (wakeSwap h ?i j) ?i" using False by (subst heap_up.simps) (simp add: Let_def)
    show ?thesis
      using "1.IH"[OF refl False] 1(2) lt contents_swap[where h = h and i = ?i and j = j] swap_index_ok[where h = h and i = ?i and j = j] unfolding eq
      by (auto simp: swap_key)
  qed
qed

lemma heap_up_ok:
  assumes "j < n" "n \<le> length h"
    "\<And>k. 0 < k \<Longrightarrow> k < n \<Longrightarrow> k \<noteq> j \<Longrightarrow> wkey (h ! parent k) \<le> wkey (h ! k)"
    "\<And>k. 0 < k \<Longrightarrow> k < n \<Longrightarrow> parent k = j \<Longrightarrow> 0 < j \<Longrightarrow> wkey (h ! parent j) \<le> wkey (h ! k)"
  shows "heap_upto n (heap_up h j)"
  using assms
proof (induction h j rule: heap_up.induct)
  case (1 h j)
  let ?i = "(j - 1) div 2"
  have pi: "parent j = ?i" by (simp add: parent_def)
  show ?case
  proof (cases "?i = j \<or> \<not> wakeLess h j ?i")
    case True
    have "wkey (h ! parent k) \<le> wkey (h ! k)" if "0 < k" "k < n" for k
    proof (cases "k = j")
      case True
      then have "?i \<noteq> j" using that(1) by linarith
      then show ?thesis using \<open>?i = j \<or> \<not> wakeLess h j ?i\<close> True pi by (simp add: wakeLess_iff not_less)
    qed (use 1(4) that in blast)
    then have "heap_upto n h" by (simp add: heap_upto_def)
    then show ?thesis using True by (subst heap_up.simps) simp
  next
    case False
    then have lt: "?i < j" "0 < j" by linarith+
    let ?h = "wakeSwap h ?i j"
    have less: "wkey (h ! j) < wkey (h ! ?i)" using False by (simp add: wakeLess_iff)
    have key: "k < n \<Longrightarrow> wkey (?h ! k) = (if k = ?i then wkey (h ! j) else if k = j then wkey (h ! ?i) else wkey (h ! k))" for k
      using swap_key[where h = h and i = ?i and j = j and k = k] 1(2,3) lt by simp
    have eq: "heap_up h j = heap_up ?h ?i" using False by (subst heap_up.simps) (simp add: Let_def)
    show ?thesis unfolding eq
    proof (rule "1.IH"[OF refl False])
      show "?i < n" "n \<le> length ?h" using 1(2,3) lt by simp_all
    next
      fix k assume k: "0 < k" "k < n" "k \<noteq> ?i"
      then have pk: "parent k < n" using parent_less[of k] by linarith
      consider "k = j" | "k \<noteq> j" "parent k = j" | "k \<noteq> j" "parent k = ?i" | "k \<noteq> j" "parent k \<noteq> j" "parent k \<noteq> ?i" by blast
      then show "wkey (?h ! parent k) \<le> wkey (?h ! k)"
      proof cases
        case 1
        then show ?thesis using key[OF k(2)] key[OF pk] less pi k(3) by simp
      next
        case 2
        then show ?thesis using key[OF k(2)] key[OF pk] "1.prems"(4)[OF k(1,2) 2(2) lt(2)] pi k(3) lt by simp
      next
        case 3
        then have "wkey (h ! ?i) \<le> wkey (h ! k)" using "1.prems"(3)[OF k(1,2)] by simp
        then show ?thesis using 3 key[OF k(2)] key[OF pk] less k(3) by simp
      next
        case 4
        then show ?thesis using key[OF k(2)] key[OF pk] "1.prems"(3)[OF k(1,2)] k(3) by simp
      qed
    next
      fix k assume k: "0 < k" "k < n" "parent k = ?i" "0 < ?i"
      have pp: "parent ?i < ?i" using parent_less[OF k(4)] .
      have up: "wkey (h ! parent ?i) \<le> wkey (h ! ?i)" using "1.prems"(3)[of ?i] k(4) lt "1.prems"(1) by simp
      have "wkey (?h ! parent ?i) = wkey (h ! parent ?i)" using key[of "parent ?i"] pp lt "1.prems"(1) by simp
      moreover have "wkey (h ! parent ?i) \<le> wkey (?h ! k)"
      proof (cases "k = j")
        case True
        then show ?thesis using key[OF k(2)] up lt by simp
      next
        case False
        have "wkey (h ! ?i) \<le> wkey (h ! k)" using "1.prems"(3)[OF k(1,2) False] k(3) by simp
        then show ?thesis using key[OF k(2)] up False parent_less[OF k(1)] k(3) by auto
      qed
      ultimately show "wkey (?h ! parent ?i) \<le> wkey (?h ! k)" by simp
    qed
  qed
qed

lemma heap_down_unfold:
  "heap_down h i n =
     (if n \<le> 2 * i + 1 then (h, i)
      else let j = (if 2 * i + 2 < n \<and> wakeLess h (2 * i + 2) (2 * i + 1) then 2 * i + 2 else 2 * i + 1) in
        if wakeLess h j i then heap_down (wakeSwap h i j) j n else (h, i))"
  by (subst heap_down.simps) (simp add: Let_def)

text \<open>The child the loop compares with is the smaller one.\<close>

definition small_child :: "wake_item list \<Rightarrow> nat \<Rightarrow> nat \<Rightarrow> nat" where
  "small_child h i n = (if 2 * i + 2 < n \<and> wakeLess h (2 * i + 2) (2 * i + 1) then 2 * i + 2 else 2 * i + 1)"

lemma small_child:
  assumes "2 * i + 1 < n"
  shows "small_child h i n < n" "parent (small_child h i n) = i" "i < small_child h i n"
    "\<And>k. 0 < k \<Longrightarrow> k < n \<Longrightarrow> parent k = i \<Longrightarrow> wkey (h ! small_child h i n) \<le> wkey (h ! k)"
proof -
  show "small_child h i n < n" "i < small_child h i n" using assms by (auto simp: small_child_def)
  show "parent (small_child h i n) = i" by (auto simp: small_child_def parent_def)
  fix k assume "0 < k" "k < n" "parent k = i"
  then have "k = 2 * i + 1 \<or> k = 2 * i + 2" using parent_child by blast
  then show "wkey (h ! small_child h i n) \<le> wkey (h ! k)"
    using \<open>k < n\<close> by (auto simp: small_child_def wakeLess_iff)
qed

lemma heap_down_child:
  "heap_down h i n =
     (if n \<le> 2 * i + 1 \<or> \<not> wakeLess h (small_child h i n) i then (h, i)
      else heap_down (wakeSwap h i (small_child h i n)) (small_child h i n) n)"
  by (subst heap_down_unfold) (simp add: small_child_def Let_def)

lemma heap_down_cases:
  obtains "heap_down h i n = (h, i)" "\<And>k. 0 < k \<Longrightarrow> k < n \<Longrightarrow> parent k = i \<Longrightarrow> wkey (h ! i) \<le> wkey (h ! k)"
  | "2 * i + 1 < n" "wkey (h ! small_child h i n) < wkey (h ! i)"
    "heap_down h i n = heap_down (wakeSwap h i (small_child h i n)) (small_child h i n) n"
proof (cases "n \<le> 2 * i + 1 \<or> \<not> wakeLess h (small_child h i n) i")
  case True
  show ?thesis
  proof (rule that(1))
    show "heap_down h i n = (h, i)" by (subst heap_down_child) (simp only: True if_True)
  next
    fix k assume k: "0 < k" "k < n" "parent k = i"
    then have "2 * i + 1 < n" using parent_child[of k i] by linarith
    then show "wkey (h ! i) \<le> wkey (h ! k)"
      using small_child(4)[OF _ k, where h = h] True by (simp add: wakeLess_iff) 
  qed
next
  case False
  show ?thesis
    by (rule that(2)) (use False in \<open>simp_all add: wakeLess_iff heap_down_child[of h i n]\<close>)
qed

lemma heap_down_frame:
  assumes "n \<le> length h" "i < n"
  shows "length (fst (heap_down h i n)) = length h \<and> contents (fst (heap_down h i n)) = contents h \<and>
     (index_ok h \<longrightarrow> index_ok (fst (heap_down h i n))) \<and> i \<le> snd (heap_down h i n) \<and>
     (\<forall>k. n \<le> k \<and> k < length h \<longrightarrow> wkey (fst (heap_down h i n) ! k) = wkey (h ! k))"
  using assms
proof (induction "n - i" arbitrary: h i rule: less_induct)
  case less
  show ?case
  proof (cases rule: heap_down_cases[where h = h and i = i and n = n])
    case 1
    then show ?thesis by simp
  next
    case 2
    let ?j = "small_child h i n"
    note c = small_child[OF 2(1), where h = h]
    have "n - ?j < n - i" using c less.prems by linarith
    from less.hyps[OF this, of "wakeSwap h i ?j"] c less.prems show ?thesis
      unfolding 2(3) using contents_swap[where h = h and i = i and j = ?j] swap_index_ok[where h = h and i = i and j = ?j] by (auto simp: swap_key)
  qed
qed

lemma heap_down_ok:
  assumes "n \<le> length h" "i < n"
    "\<And>k. 0 < k \<Longrightarrow> k < n \<Longrightarrow> parent k \<noteq> i \<Longrightarrow> wkey (h ! parent k) \<le> wkey (h ! k)"
    "\<And>k. 0 < k \<Longrightarrow> k < n \<Longrightarrow> parent k = i \<Longrightarrow> 0 < i \<Longrightarrow> wkey (h ! parent i) \<le> wkey (h ! k)"
  shows "heap_upto n (fst (heap_down h i n))"
  using assms
proof (induction "n - i" arbitrary: h i rule: less_induct)
  case less
  show ?case
  proof (cases rule: heap_down_cases[where h = h and i = i and n = n])
    case 1
    then show ?thesis using less.prems(3) by (auto simp: heap_upto_def)
  next
    case 2
    let ?j = "small_child h i n" and ?h = "wakeSwap h i (small_child h i n)"
    note c = small_child[OF 2(1), where h = h]
    have key: "k < n \<Longrightarrow> wkey (?h ! k) = (if k = i then wkey (h ! ?j) else if k = ?j then wkey (h ! i) else wkey (h ! k))" for k
      using swap_key[where h = h and i = i and j = ?j and k = k] less.prems(1,2) c by simp
    show ?thesis unfolding 2(3)
    proof (rule less.hyps)
      show "n - ?j < n - i" "n \<le> length ?h" "?j < n" using c less.prems(1,2) by simp_all
    next
      fix k assume k: "0 < k" "k < n" "parent k \<noteq> ?j"
      then have pk: "parent k < n" using parent_less[of k] by linarith
      show "wkey (?h ! parent k) \<le> wkey (?h ! k)"
      proof (cases "parent k = i")
        case True
        then have "k \<noteq> i" using parent_less[OF k(1)] by simp
        then show ?thesis using key[OF k(2)] key[OF pk] True 2(2) c(4)[OF k(1,2) True] by auto
      next
        case False
        note le = less.prems(3)[OF k(1,2) False]
        show ?thesis
        proof (cases "k = i")
          case True
          then have "wkey (h ! parent i) \<le> wkey (h ! ?j)" using less.prems(4)[of ?j] c k(1) by simp
          then show ?thesis using key[OF k(2)] key[OF pk] True k(3) parent_less[OF k(1)] by auto
        next
          case neq: False
          have "k \<noteq> ?j" using False c(2) by auto
          then show ?thesis using key[OF k(2)] key[OF pk] False neq k(3) le by simp
        qed
      qed
    next
      fix k assume k: "0 < k" "k < n" "parent k = ?j"
      then have "wkey (h ! ?j) \<le> wkey (h ! k)" using less.prems(3)[OF k(1,2)] c(3) by simp
      moreover have "k \<noteq> i" "k \<noteq> ?j" using parent_less[OF k(1)] k(3) c(3) by auto
      ultimately show "wkey (?h ! parent ?j) \<le> wkey (?h ! k)" using key[OF k(2)] key[of i] c(2) less.prems(2) by simp
    qed
  qed
qed

text \<open>If the loop did not move, the start position is no greater than its children.\<close>

lemma heap_down_still:
  assumes "n \<le> length h" "i < n" "\<not> i < snd (heap_down h i n)"
  shows "heap_down h i n = (h, i) \<and> (\<forall>k. 0 < k \<and> k < n \<and> parent k = i \<longrightarrow> wkey (h ! i) \<le> wkey (h ! k))"
proof (cases rule: heap_down_cases[where h = h and i = i and n = n])
  case 1
  then show ?thesis by blast
next
  case 2
  note c = small_child[OF 2(1), where h = h]
  have "small_child h i n \<le> snd (heap_down h i n)"
    using heap_down_frame[of n "wakeSwap h i (small_child h i n)" "small_child h i n"] assms c 2(3) by simp
  then show ?thesis using assms(3) c(3) by simp
qed

section \<open>Push, Pop and Remove\<close>

definition heap_ok :: "wake_item list \<Rightarrow> bool" where
  "heap_ok h \<longleftrightarrow> heap_upto (length h) h \<and> index_ok h"

lemma heap_ok_Nil [simp]: "heap_ok []"
  by (simp add: heap_ok_def heap_upto_def index_ok_def)

lemma heap_uptoD: "heap_upto n h \<Longrightarrow> 0 < k \<Longrightarrow> k < n \<Longrightarrow> wkey (h ! parent k) \<le> wkey (h ! k)"
  by (simp add: heap_upto_def)

lemma contents_Nil [simp]: "contents [] = {#}" and
  contents_append: "contents (xs @ ys) = contents xs + contents ys" and
  contents_single: "contents [x] = {#wkey x#}"
  by (simp_all add: contents_def)

lemma wakePop_ok:
  assumes "h \<noteq> []" "heap_upto (length h - 1) h" "index_ok h"
  shows "heap_ok (snd (wakePop h))" "wkey (fst (wakePop h)) = wkey (h ! (length h - 1))"
    "contents h = add_mset (wkey (fst (wakePop h))) (contents (snd (wakePop h)))"
proof -
  have p: "parent k < length h - 1" if "k < length h - 1" "0 < k" for k using parent_less[OF that(2)] that(1) by linarith
  show "heap_ok (snd (wakePop h))"
    using assms p by (auto simp: wakePop_def heap_ok_def heap_upto_def index_ok_def nth_butlast)
  show "wkey (fst (wakePop h)) = wkey (h ! (length h - 1))" using assms(1) by (simp add: wakePop_def last_conv_nth)
  have "contents h = contents (butlast h @ [last h])" using assms(1) by simp
  also have "\<dots> = add_mset (wkey (last h)) (contents (butlast h))" unfolding contents_append contents_single by simp
  finally show "contents h = add_mset (wkey (fst (wakePop h))) (contents (snd (wakePop h)))" by (simp add: wakePop_def)
qed

lemma heap_Push_ok:
  assumes "heap_ok h"
  shows "heap_ok (heap_Push h x)" "contents (heap_Push h x) = add_mset (wkey x) (contents h)"
proof -
  let ?h = "wakePush h x"
  have len: "length ?h = Suc (length h)" by (simp add: wakePush_def)
  have old: "k < length h \<Longrightarrow> ?h ! k = h ! k" for k by (simp add: wakePush_def nth_append)
  have idx: "index_ok ?h" using assms by (auto simp: heap_ok_def index_ok_def wakePush_def nth_append less_Suc_eq)
  have "heap_upto (length ?h) (heap_up ?h (length h))"
  proof (rule heap_up_ok)
    show "length h < length ?h" "length ?h \<le> length ?h" using len by simp_all
  next
    fix k assume k: "0 < k" "k < length ?h" "k \<noteq> length h"
    then have "k < length h" "parent k < length h" using len parent_less[of k] by linarith+
    then show "wkey (?h ! parent k) \<le> wkey (?h ! k)" using assms k(1) by (auto simp: old heap_ok_def intro: heap_uptoD)
  next
    fix k assume "0 < k" "k < length ?h" "parent k = length h"
    then show "wkey (?h ! parent (length h)) \<le> wkey (?h ! k)" using parent_less[of k] len by linarith
  qed
  moreover have "length h < length ?h" using len by simp
  note fr = heap_up_frame[OF this]
  moreover have "heap_Push h x = heap_up ?h (length h)" using len by (simp add: heap_Push_def Let_def)
  ultimately show "heap_ok (heap_Push h x)" using idx by (simp add: heap_ok_def)
  have "contents ?h = add_mset (wkey x) (contents h)" by (simp add: wakePush_def contents_append contents_single)
  then show "contents (heap_Push h x) = add_mset (wkey x) (contents h)"
    using fr \<open>heap_Push h x = heap_up ?h (length h)\<close> by simp
qed

text \<open>The first item has the least key.\<close>

lemma heap_root_least: "heap_upto n h \<Longrightarrow> k < n \<Longrightarrow> wkey (h ! 0) \<le> wkey (h ! k)"
proof (induction k rule: less_induct)
  case (less k)
  show ?case
  proof (cases "k = 0")
    case False
    then have "wkey (h ! 0) \<le> wkey (h ! parent k)" using less parent_less[of k] by simp
    then show ?thesis using heap_uptoD[OF less.prems(1), of k] less.prems(2) False by (simp add: order_trans)
  qed simp
qed

text \<open>After the item at \<open>i\<close> is exchanged with the last one, sifting restores the order of the rest.\<close>

lemma sift_ok:
  assumes "heap_ok h" "i < n" "n = length h - 1"
  shows "heap_upto n (fst (heap_down (wakeSwap h i n) i n)) \<or>
     \<not> i < snd (heap_down (wakeSwap h i n) i n)"
    "\<not> i < snd (heap_down (wakeSwap h i n) i n) \<Longrightarrow>
     heap_upto n (heap_up (fst (heap_down (wakeSwap h i n) i n)) i)"
proof -
  let ?h = "wakeSwap h i n"
  have lt: "i < length h" "n < length h" "n \<le> length ?h" using assms by simp_all
  have up: "heap_upto (length h) h" using assms(1) by (simp add: heap_ok_def)
  have key: "k < n \<Longrightarrow> wkey (?h ! k) = (if k = i then wkey (h ! n) else wkey (h ! k))" for k
    using swap_key[where h = h and i = i and j = n and k = k] lt by simp
  have le: "wkey (?h ! parent k) \<le> wkey (?h ! k)" if "0 < k" "k < n" "parent k \<noteq> i" "k \<noteq> i" for k
  proof -
    have "parent k < n" using parent_less[OF that(1)] that(2) by linarith
    then show ?thesis using key that heap_uptoD[OF up that(1)] lt by simp
  qed
  have below: "wkey (?h ! parent i) \<le> wkey (?h ! k)" if "0 < k" "k < n" "parent k = i" "0 < i" for k
  proof -
    have "wkey (h ! parent i) \<le> wkey (h ! i)" "wkey (h ! i) \<le> wkey (h ! k)"
      using heap_uptoD[OF up, of i] heap_uptoD[OF up that(1)] that lt by simp_all
    moreover have "wkey (?h ! parent i) = wkey (h ! parent i)" "wkey (?h ! k) = wkey (h ! k)"
      using key[of "parent i"] key[OF that(2)] parent_less[OF that(4)] parent_less[OF that(1)] that(3) assms(2) by auto
    ultimately show ?thesis by (simp only: order_trans)
  qed
  show "heap_upto n (heap_up (fst (heap_down ?h i n)) i)" if "\<not> i < snd (heap_down ?h i n)"
  proof -
    have st: "heap_down ?h i n = (?h, i)" "\<And>k. 0 < k \<Longrightarrow> k < n \<Longrightarrow> parent k = i \<Longrightarrow> wkey (?h ! i) \<le> wkey (?h ! k)"
      using heap_down_still[OF lt(3) assms(2) that] by blast+
    have "heap_upto n (heap_up ?h i)"
    proof (rule heap_up_ok[OF assms(2) lt(3)])
      fix k assume "0 < k" "k < n" "k \<noteq> i"
      then show "wkey (?h ! parent k) \<le> wkey (?h ! k)" using le st(2) by (cases "parent k = i") auto
    qed (rule below)
    then show ?thesis using st(1) by simp
  qed
  show "heap_upto n (fst (heap_down ?h i n)) \<or> \<not> i < snd (heap_down ?h i n)"
  proof (cases rule: heap_down_cases[where h = ?h and i = i and n = n])
    case 1
    then show ?thesis by simp
  next
    case 2
    note c = small_child[OF 2(1), where h = ?h]
    have big: "wkey (?h ! parent i) \<le> wkey (?h ! i)" if pos: "0 < i"
    proof -
      have "0 < small_child ?h i n" using c(3) by simp
      from below[OF this c(1,2) pos] 2(2) show ?thesis by (rule order.trans[OF _ less_imp_le])
    qed
    have "heap_upto n (fst (heap_down ?h i n))"
    proof (rule heap_down_ok[OF lt(3) assms(2)])
      fix k assume "0 < k" "k < n" "parent k \<noteq> i"
      then show "wkey (?h ! parent k) \<le> wkey (?h ! k)" using le big by (cases "k = i") auto
    qed (rule below)
    then show ?thesis ..
  qed
qed

lemma swap_last:
  assumes "index_ok h" "i < n" "n = length h - 1"
  shows "length (fst (heap_down (wakeSwap h i n) i n)) = length h"
    "contents (fst (heap_down (wakeSwap h i n) i n)) = contents h" "index_ok (fst (heap_down (wakeSwap h i n) i n))"
    "wkey (fst (heap_down (wakeSwap h i n) i n) ! n) = wkey (h ! i)"
proof -
  have lt: "i < length h" "n < length h" "n \<le> length (wakeSwap h i n)" using assms by simp_all
  note fr = heap_down_frame[OF lt(3) assms(2)]
  show "length (fst (heap_down (wakeSwap h i n) i n)) = length h"
    "contents (fst (heap_down (wakeSwap h i n) i n)) = contents h" "index_ok (fst (heap_down (wakeSwap h i n) i n))"
    using fr swap_index_ok[OF assms(1) lt(1,2)] contents_swap[OF lt(1,2)] by simp_all
  show "wkey (fst (heap_down (wakeSwap h i n) i n) ! n) = wkey (h ! i)"
    using fr lt swap_key[OF lt(1,2,2)] assms(2) by simp
qed

lemma heap_Remove_ok:
  assumes "heap_ok h" "i < length h"
  shows "heap_ok (snd (heap_Remove h i))" "wkey (fst (heap_Remove h i)) = wkey (h ! i)"
    "contents h = add_mset (wkey (h ! i)) (contents (snd (heap_Remove h i)))"
proof -
  have idx: "index_ok h" and up: "heap_upto (length h) h" using assms(1) by (simp_all add: heap_ok_def)
  define n where "n = length h - 1"
  have ne: "h \<noteq> []" using assms(2) by auto
  have "\<exists>g. g \<noteq> [] \<and> length g = length h \<and> heap_upto n g \<and> index_ok g \<and> contents g = contents h \<and>
      wkey (g ! n) = wkey (h ! i) \<and> heap_Remove h i = wakePop g"
  proof (cases "n = i")
    case True
    have "heap_upto n h" using up n_def by (auto simp: heap_upto_def)
    then show ?thesis using True idx ne by (intro exI[of _ h]) (simp add: heap_Remove_def Let_def n_def)
  next
    case False
    then have i: "i < n" using assms(2) n_def by linarith
    define d where "d = heap_down (wakeSwap h i n) i n"
    note sw = swap_last[OF idx i n_def, folded d_def] and ok = sift_ok[OF assms(1) i n_def, folded d_def]
    have r: "heap_Remove h i = wakePop (if i < snd d then fst d else heap_up (fst d) i)"
      using False unfolding heap_Remove_def Let_def d_def n_def by simp
    show ?thesis
    proof (cases "i < snd d")
      case True
      have "fst d \<noteq> []" using sw(1) ne by auto
      then show ?thesis using True sw ok(1) r by (intro exI[of _ "fst d"]) simp
    next
      case False
      have l: "i < length (fst d)" using sw(1) assms(2) by simp
      note hu = heap_up_frame[OF l]
      have "heap_up (fst d) i \<noteq> []" using hu ne sw(1) by auto
      moreover have "wkey (heap_up (fst d) i ! n) = wkey (h ! i)"
        using hu i sw(1,4) n_def ne by simp
      ultimately show ?thesis using False hu sw ok(2)[OF False] r by (intro exI[of _ "heap_up (fst d) i"]) simp
    qed
  qed
  then obtain g where g: "g \<noteq> []" "length g = length h" "heap_upto n g" "index_ok g" "contents g = contents h"
    "wkey (g ! n) = wkey (h ! i)" "heap_Remove h i = wakePop g" by blast
  note p = wakePop_ok[OF g(1) _ g(4), unfolded g(2), folded n_def, OF g(3)]
  show "heap_ok (snd (heap_Remove h i))" "wkey (fst (heap_Remove h i)) = wkey (h ! i)"
    "contents h = add_mset (wkey (h ! i)) (contents (snd (heap_Remove h i)))"
    using p g by simp_all
qed

lemma heap_Pop_Remove: "2 \<le> length h \<Longrightarrow> heap_ok h \<Longrightarrow>
    heap_ok (snd (heap_Pop h)) \<and> wkey (fst (heap_Pop h)) = wkey (h ! 0) \<and>
    contents h = add_mset (wkey (h ! 0)) (contents (snd (heap_Pop h)))"
proof -
  assume len: "2 \<le> length h" and ok: "heap_ok h"
  define n where "n = length h - 1"
  have i: "0 < n" using len n_def by simp
  have idx: "index_ok h" using ok by (simp add: heap_ok_def)
  define d where "d = heap_down (wakeSwap h 0 n) 0 n"
  note sw = swap_last[OF idx i n_def, folded d_def] and so = sift_ok[OF ok i n_def, folded d_def]
  have "heap_upto n (fst d)"
  proof (cases "0 < snd d")
    case False
    have "heap_up (fst d) 0 = fst d" by (subst heap_up.simps) simp
    then show ?thesis using so(2)[OF False] by simp
  qed (use so(1) in blast)
  moreover have "heap_Pop h = wakePop (fst d)" by (simp add: heap_Pop_def Let_def n_def d_def)
  moreover have "fst d \<noteq> []" using sw(1) len by auto
  ultimately show ?thesis using wakePop_ok[of "fst d"] sw n_def by simp
qed

lemma heap_Pop_ok:
  assumes "heap_ok h" "h \<noteq> []"
  shows "heap_ok (snd (heap_Pop h))" "wkey (fst (heap_Pop h)) = wkey (h ! 0)"
    "contents h = add_mset (wkey (h ! 0)) (contents (snd (heap_Pop h)))"
proof -
  have "heap_ok (snd (heap_Pop h)) \<and> wkey (fst (heap_Pop h)) = wkey (h ! 0) \<and>
    contents h = add_mset (wkey (h ! 0)) (contents (snd (heap_Pop h)))"
  proof (cases "2 \<le> length h")
    case True
    then show ?thesis using heap_Pop_Remove assms(1) by blast
  next
    case False
    then obtain x where h: "h = [x]" using assms(2) by (cases h; cases "tl h") auto
    have s: "wakeSwap [x] 0 0 = [x\<lparr>wi_index := 0\<rparr>]" by (simp add: wakeSwap_def)
    have "heap_down [x\<lparr>wi_index := 0\<rparr>] 0 0 = ([x\<lparr>wi_index := 0\<rparr>], 0)" by (subst heap_down.simps) simp
    then show ?thesis unfolding h by (simp add: heap_Pop_def s wakePop_def contents_def)
  qed
  then show "heap_ok (snd (heap_Pop h))" "wkey (fst (heap_Pop h)) = wkey (h ! 0)"
    "contents h = add_mset (wkey (h ! 0)) (contents (snd (heap_Pop h)))" by blast+
qed

section \<open>The interface of a deadline heap\<close>

text \<open>Lengths do not depend on the heap order.\<close>

lemma length_heap_down [simp]: "length (fst (heap_down h i n)) = length h"
proof (induction "n - i" arbitrary: h i rule: less_induct)
  case less
  show ?case
    by (subst heap_down_child) (use less small_child(3)[of i n h] in \<open>auto simp: not_le\<close>)
qed

lemma length_heap_Pop: "h \<noteq> [] \<Longrightarrow> length (snd (heap_Pop h)) = length h - 1"
  by (simp add: heap_Pop_def wakePop_def Let_def)

definition key_ids :: "sched_key multiset \<Rightarrow> string multiset" where
  "key_ids C = image_mset sk_id C"

lemma key_ids_add [simp]: "key_ids (add_mset k C) = add_mset (sk_id k) (key_ids C)"
  by (simp add: key_ids_def)

lemma in_key_ids: "i \<in># key_ids C \<longleftrightarrow> (\<exists>t. SchedKey t i \<in># C)"
  unfolding key_ids_def by (auto intro: sched_key.exhaust_sel) (metis sched_key.collapse)

definition unique_ids :: "sched_key multiset \<Rightarrow> bool" where
  "unique_ids C \<longleftrightarrow> (\<forall>i. count (key_ids C) i \<le> 1)"

lemma unique_ids_empty [simp]: "unique_ids {#}"
  by (simp add: unique_ids_def key_ids_def)

lemma unique_ids_add [simp]: "unique_ids (add_mset k C) \<longleftrightarrow> unique_ids C \<and> sk_id k \<notin># key_ids C"
  unfolding unique_ids_def by (auto simp: not_in_iff le_Suc_eq split: if_splits)

locale deadline_heap =
  fixes ok :: "'h \<Rightarrow> bool"
    and keys :: "'h \<Rightarrow> sched_key multiset"
    and key_at :: "'h \<Rightarrow> nat \<Rightarrow> sched_key"
    and push :: "'h \<Rightarrow> wake_item \<Rightarrow> 'h"
    and pop :: "'h \<Rightarrow> wake_item \<times> 'h"
    and remove :: "'h \<Rightarrow> nat \<Rightarrow> wake_item \<times> 'h"
  assumes key_at_in: "i < size (keys h) \<Longrightarrow> key_at h i \<in># keys h"
    and key_at_least: "ok h \<Longrightarrow> k \<in># keys h \<Longrightarrow> key_at h 0 \<le> k"
    and push_ok: "ok h \<Longrightarrow> ok (push h x)"
    and push_keys: "ok h \<Longrightarrow> keys (push h x) = add_mset (wkey x) (keys h)"
    and pop_ok: "ok h \<Longrightarrow> keys h \<noteq> {#} \<Longrightarrow> ok (snd (pop h)) \<and> wkey (fst (pop h)) = key_at h 0"
    and pop_keys: "ok h \<Longrightarrow> keys h \<noteq> {#} \<Longrightarrow> keys h = add_mset (key_at h 0) (keys (snd (pop h)))"
    and remove_ok: "ok h \<Longrightarrow> i < size (keys h) \<Longrightarrow> ok (snd (remove h i))"
    and remove_keys: "ok h \<Longrightarrow> i < size (keys h) \<Longrightarrow> keys h = add_mset (key_at h i) (keys (snd (remove h i)))"
begin

lemma pop_Min: "ok h \<Longrightarrow> keys h \<noteq> {#} \<Longrightarrow> wkey (fst (pop h)) = Min_mset (keys h)"
  using key_at_least pop_ok[of h] key_at_in[of 0 h]
  by (metis (no_types, lifting) Min_eqI finite_set_mset size_eq_0_iff_empty neq0_conv)

lemma pop_unique: "ok h \<Longrightarrow> keys h \<noteq> {#} \<Longrightarrow> unique_ids (keys h) \<Longrightarrow>
    unique_ids (keys (snd (pop h))) \<and> sk_id (key_at h 0) \<notin># key_ids (keys (snd (pop h)))"
  using pop_keys[of h] by (metis unique_ids_add)

lemma remove_unique: "ok h \<Longrightarrow> i < size (keys h) \<Longrightarrow> unique_ids (keys h) \<Longrightarrow>
    unique_ids (keys (snd (remove h i))) \<and> sk_id (key_at h i) \<notin># key_ids (keys (snd (remove h i)))"
  using remove_keys[of h i] by (metis unique_ids_add)

lemma push_unique: "ok h \<Longrightarrow> unique_ids (keys h) \<Longrightarrow> wi_taskID x \<notin># key_ids (keys h) \<Longrightarrow> unique_ids (keys (push h x))"
  by (simp add: push_keys wkey_def)

text \<open>Rescheduling an id replaces its deadline and leaves the others.\<close>

lemma replace_keys:
  assumes "ok h" "i < size (keys h)" "unique_ids (keys h)" "sk_id (key_at h i) = wi_taskID x"
  shows "SchedKey t j \<in># keys (push (snd (remove h i)) x) \<longleftrightarrow>
     (if j = wi_taskID x then t = wi_notBefore x else SchedKey t j \<in># keys h)"
proof -
  have a: "ok (snd (remove h i))" using remove_ok assms(1,2) .
  have r: "keys h = add_mset (key_at h i) (keys (snd (remove h i)))" using remove_keys assms(1,2) .
  have n: "SchedKey u (wi_taskID x) \<notin># keys (snd (remove h i))" for u
    using remove_unique[OF assms(1-3)] unfolding assms(4) in_key_ids by blast
  have k: "SchedKey t j = key_at h i \<Longrightarrow> j = wi_taskID x" using assms(4) by (metis sched_key.sel(2))
  show ?thesis unfolding push_keys[OF a] using n k by (subst r) (auto simp: wkey_def)
qed

end

lemma size_contents [simp]: "size (contents h) = length h"
  by (simp add: contents_def)

lemma contents_empty_iff [simp]: "contents h = {#} \<longleftrightarrow> h = []"
  by (simp add: contents_def)

lemma key_at_contents: "i < length h \<Longrightarrow> wkey (h ! i) \<in># contents h"
  by (simp add: contents_def)

interpretation wh: deadline_heap heap_ok contents "\<lambda>h i. wkey (h ! i)" heap_Push heap_Pop heap_Remove
proof unfold_locales
  fix h :: "wake_item list" and k
  assume "heap_ok h" "k \<in># contents h"
  then obtain i where "i < length h" "k = wkey (h ! i)" by (auto simp: contents_def in_set_conv_nth)
  then show "wkey (h ! 0) \<le> k" using heap_root_least[of "length h" h i] \<open>heap_ok h\<close> by (simp add: heap_ok_def)
qed (simp_all add: heap_Push_ok heap_Pop_ok heap_Remove_ok key_at_contents)

end
