(* ===== verification/Pickup_Wake.thy ===== *)
theory Pickup_Wake
  imports Memory_Queue Wake_Heap
begin

text \<open>
  \<^verbatim>\<open>PickupWakeScheduler\<close> of \<^verbatim>\<open>pkgs/agents/pickup_wake.go\<close>. The pointer that \<^verbatim>\<open>byID\<close> holds for a task is
  the heap item with that id, so \<^verbatim>\<open>byID\<close> is modelled by its key set and \<^verbatim>\<open>it.index\<close> by the position the
  heap item carries. \<open>ws_timer\<close> is the instant at which the pending runtime timer fires; clock readings
  are arguments. \<^verbatim>\<open>fire\<close> releases the mutex around every notification, so its loop body is one atomic
  step, \<open>fire_iter\<close>.
\<close>

section \<open>State and operations\<close>

record wake_sched =
  ws_byID :: "string set"
  ws_heap :: "wake_item list"
  ws_timer :: "gotime option"
  ws_stopped :: bool

definition NewPickupWakeScheduler :: wake_sched where
  "NewPickupWakeScheduler = \<lparr>ws_byID = {}, ws_heap = [], ws_timer = None, ws_stopped = False\<rparr>"

definition item_index :: "wake_item list \<Rightarrow> string \<Rightarrow> nat" where
  "item_index h i = (case find (\<lambda>x. wi_taskID x = i) h of None \<Rightarrow> 0 | Some x \<Rightarrow> nat (wi_index x))"

definition resetTimerLocked :: "gotime \<Rightarrow> wake_sched \<Rightarrow> wake_sched" where
  "resetTimerLocked now w =
     (case ws_heap w of
        [] \<Rightarrow> w\<lparr>ws_timer := None\<rparr>
      | nxt # _ \<Rightarrow>
          let d = wi_notBefore nxt - now; d' = (if d < 0 then 0 else d) in w\<lparr>ws_timer := Some (now + d')\<rparr>)"

definition Schedule :: "gotime \<Rightarrow> wake_sched \<Rightarrow> string \<Rightarrow> gotime \<Rightarrow> wake_sched" where
  "Schedule now w taskID notBefore =
     (if taskID = [] \<or> ws_stopped w then w
      else
        let w1 = (if taskID \<in> ws_byID w
                  then w\<lparr>ws_heap := snd (heap_Remove (ws_heap w) (item_index (ws_heap w) taskID)),
                         ws_byID := ws_byID w - {taskID}\<rparr>
                  else w);
            item = \<lparr>wi_taskID = taskID, wi_notBefore = notBefore, wi_index = 0\<rparr>;
            w2 = w1\<lparr>ws_heap := heap_Push (ws_heap w1) item, ws_byID := insert taskID (ws_byID w1)\<rparr> in
        resetTimerLocked now w2)"

definition Cancel :: "gotime \<Rightarrow> wake_sched \<Rightarrow> string \<Rightarrow> wake_sched" where
  "Cancel now w taskID =
     (if taskID = [] \<or> ws_stopped w \<or> taskID \<notin> ws_byID w then w
      else resetTimerLocked now
        (w\<lparr>ws_heap := snd (heap_Remove (ws_heap w) (item_index (ws_heap w) taskID)), ws_byID := ws_byID w - {taskID}\<rparr>))"

definition Stop :: "wake_sched \<Rightarrow> wake_sched" where
  "Stop w = w\<lparr>ws_stopped := True, ws_timer := None, ws_byID := {}, ws_heap := []\<rparr>"

definition Hydrate :: "db \<Rightarrow> gotime \<Rightarrow> wake_sched \<Rightarrow> wake_sched res" where
  "Hydrate s now w =
     rbind (ListDeferredReadyPickups s now 10000)
       (\<lambda>rows. Inr (fold (\<lambda>r w. Schedule now w (fst r) (snd r)) rows w))"

definition tryNotify :: "db \<Rightarrow> mem_queue \<Rightarrow> string \<Rightarrow> gotime \<Rightarrow> mem_queue" where
  "tryNotify s q taskID now =
     (case Task_Get s taskID of
        Inl _ \<Rightarrow> q
      | Inr t \<Rightarrow>
          if task_Status t \<noteq> StatusReady then q
          else if \<not> ShouldNotifyReadyNow (task_PickupNotBefore t) now then q
          else (case NotifyReadyTask False q t of Inl _ \<Rightarrow> q | Inr q' \<Rightarrow> q'))"

text \<open>One turn of \<^verbatim>\<open>fire\<close>, from the lock to the unlock: stopped, an item to notify, or done. The timer is
  re-armed at a later clock reading than the one the deadlines are compared with.\<close>

datatype fire_turn = FireStopped | FireNotify string wake_sched | FireDone wake_sched

definition fire_iter :: "gotime \<Rightarrow> gotime \<Rightarrow> wake_sched \<Rightarrow> fire_turn" where
  "fire_iter now later w =
     (if ws_stopped w then FireStopped
      else (case ws_heap w of
              [] \<Rightarrow> FireDone (resetTimerLocked later w)
            | peek # _ \<Rightarrow>
                if now < wi_notBefore peek then FireDone (resetTimerLocked later w)
                else let p = heap_Pop (ws_heap w) in
                  FireNotify (wi_taskID (fst p)) (w\<lparr>ws_heap := snd p, ws_byID := ws_byID w - {wi_taskID (fst p)}\<rparr>)))"

lemma fire_iter_pops: "fire_iter now later w = FireNotify i w' \<Longrightarrow> length (ws_heap w') < length (ws_heap w)"
  by (auto simp: fire_iter_def length_heap_Pop Let_def split: if_splits list.splits)

text \<open>The whole callback when nothing else runs; \<open>clk\<close> gives the successive clock readings.\<close>

function fire :: "db \<Rightarrow> (nat \<Rightarrow> gotime) \<Rightarrow> nat \<Rightarrow> wake_sched \<Rightarrow> mem_queue \<Rightarrow> wake_sched \<times> mem_queue" where
  "fire s clk k w q =
     (case fire_iter (clk k) (clk (Suc k)) w of
        FireStopped \<Rightarrow> (w, q)
      | FireDone w' \<Rightarrow> (w', q)
      | FireNotify i w' \<Rightarrow> fire s clk (Suc k) w' (tryNotify s q i (clk k)))"
  by pat_completeness auto
termination
  by (relation "measure (\<lambda>(s, clk, k, w, q). length (ws_heap w))") (auto dest: fire_iter_pops)

declare fire.simps [simp del]

section \<open>The scheduler implements a map of deadlines\<close>

definition deadline :: "wake_sched \<Rightarrow> string \<Rightarrow> gotime option" where
  "deadline w = map_of (map (\<lambda>x. (wi_taskID x, wi_notBefore x)) (ws_heap w))"

definition wake_inv :: "wake_sched \<Rightarrow> bool" where
  "wake_inv w \<longleftrightarrow> heap_ok (ws_heap w) \<and> unique_ids (contents (ws_heap w)) \<and>
     ws_byID w = wi_taskID ` set (ws_heap w) \<and> (ws_stopped w \<longrightarrow> ws_heap w = [])"

lemma key_ids_contents: "key_ids (contents h) = mset (map wi_taskID h)"
  by (simp add: key_ids_def contents_def wkey_def comp_def image_mset.compositionality)

lemma unique_ids_distinct: "unique_ids (contents h) \<Longrightarrow> distinct (map wi_taskID h)"
  unfolding unique_ids_def key_ids_contents distinct_count_atmost_1
  by (metis One_nat_def count_greater_zero_iff le_antisym not_in_iff One_nat_def Suc_leI set_mset_mset)

lemma deadline_iff:
  assumes "unique_ids (contents (ws_heap w))"
  shows "deadline w i = Some t \<longleftrightarrow> SchedKey t i \<in># contents (ws_heap w)"
proof -
  have "distinct (map fst (map (\<lambda>x. (wi_taskID x, wi_notBefore x)) (ws_heap w)))"
    using unique_ids_distinct[OF assms] by (simp add: comp_def)
  then show ?thesis unfolding deadline_def by (auto simp: contents_def wkey_def)
qed

lemma deadline_eqI: "(\<And>i t. deadline w i = Some t \<longleftrightarrow> m i = Some t) \<Longrightarrow> deadline w = m"
  by (rule ext) (metis not_Some_eq)

lemma deadline_timer [simp]: "deadline (w\<lparr>ws_timer := x\<rparr>) = deadline w"
  by (simp add: deadline_def)

lemma resetTimer_simps [simp]:
  "ws_heap (resetTimerLocked now w) = ws_heap w" "ws_byID (resetTimerLocked now w) = ws_byID w"
  "ws_stopped (resetTimerLocked now w) = ws_stopped w"
  by (auto simp: resetTimerLocked_def Let_def split: list.splits)

lemma deadline_cong: "ws_heap w = ws_heap v \<Longrightarrow> deadline w = deadline v"
  by (simp add: deadline_def)

lemma item_index_ok:
  assumes "wake_inv w" "i \<in> ws_byID w"
  shows "item_index (ws_heap w) i < length (ws_heap w)" "wi_taskID (ws_heap w ! item_index (ws_heap w) i) = i"
proof -
  obtain x where x: "find (\<lambda>x. wi_taskID x = i) (ws_heap w) = Some x"
    using assms find_None_iff[of "\<lambda>x. wi_taskID x = i" "ws_heap w"] by (fastforce simp: wake_inv_def)
  then obtain k where k: "k < length (ws_heap w)" "wi_taskID (ws_heap w ! k) = i" "x = ws_heap w ! k"
    by (auto simp: find_Some_iff)
  then have "wi_index x = int k" using assms(1) by (simp add: wake_inv_def heap_ok_def index_ok_def)
  then show "item_index (ws_heap w) i < length (ws_heap w)" "wi_taskID (ws_heap w ! item_index (ws_heap w) i) = i"
    using x k by (simp_all add: item_index_def)
qed

lemma byID_keys: "wake_inv w \<Longrightarrow> ws_byID w = set_mset (key_ids (contents (ws_heap w)))"
  by (simp add: wake_inv_def key_ids_contents)

lemma wake_invI: "heap_ok h \<Longrightarrow> unique_ids (contents h) \<Longrightarrow> B = set_mset (key_ids (contents h)) \<Longrightarrow>
    ws_heap w = h \<Longrightarrow> ws_byID w = B \<Longrightarrow> \<not> ws_stopped w \<Longrightarrow> wake_inv w"
  by (simp add: wake_inv_def key_ids_contents)

text \<open>Taking the item of an id out of the heap.\<close>

lemma remove_item:
  assumes "wake_inv w" "i \<in> ws_byID w" "h = snd (heap_Remove (ws_heap w) (item_index (ws_heap w) i))"
  shows "heap_ok h" "unique_ids (contents h)" "i \<notin># key_ids (contents h)"
    "insert i (set_mset (key_ids (contents h))) = ws_byID w"
    "SchedKey t j \<in># contents h \<longleftrightarrow> j \<noteq> i \<and> SchedKey t j \<in># contents (ws_heap w)"
proof -
  let ?k = "item_index (ws_heap w) i"
  note ix = item_index_ok[OF assms(1,2)]
  have ok: "heap_ok (ws_heap w)" "?k < size (contents (ws_heap w))" "unique_ids (contents (ws_heap w))"
    using assms(1) ix by (simp_all add: wake_inv_def)
  have sk: "sk_id (wkey (ws_heap w ! ?k)) = i" using ix(2) by (simp add: wkey_def)
  show "heap_ok h" using wh.remove_ok[OF ok(1,2)] assms(3) by simp
  show u: "unique_ids (contents h)" "i \<notin># key_ids (contents h)"
    using wh.remove_unique[OF ok] sk assms(3) by simp_all
  note r = wh.remove_keys[OF ok(1,2), folded assms(3)]
  show "insert i (set_mset (key_ids (contents h))) = ws_byID w"
    using byID_keys[OF assms(1)] arg_cong[OF r, of key_ids] sk by simp
  have "SchedKey t i \<notin># contents h" using u(2) by (auto simp: in_key_ids)
  moreover have "SchedKey t j = wkey (ws_heap w ! ?k) \<Longrightarrow> j = i" using sk by (metis sched_key.sel(2))
  ultimately show "SchedKey t j \<in># contents h \<longleftrightarrow> j \<noteq> i \<and> SchedKey t j \<in># contents (ws_heap w)"
    unfolding r by auto
qed

lemma Schedule_refines:
  assumes "wake_inv w" "i \<noteq> []" "\<not> ws_stopped w"
  shows "wake_inv (Schedule now w i nb) \<and> deadline (Schedule now w i nb) = (deadline w)(i \<mapsto> nb)"
proof -
  let ?item = "\<lparr>wi_taskID = i, wi_notBefore = nb, wi_index = 0\<rparr>"
  define h where "h = (if i \<in> ws_byID w then snd (heap_Remove (ws_heap w) (item_index (ws_heap w) i)) else ws_heap w)"
  have h: "heap_ok h" "unique_ids (contents h)" "i \<notin># key_ids (contents h)"
    "insert i (set_mset (key_ids (contents h))) = insert i (ws_byID w)"
    "\<And>t j. SchedKey t j \<in># contents h \<longleftrightarrow> j \<noteq> i \<and> SchedKey t j \<in># contents (ws_heap w)"
  proof -
    have "heap_ok h \<and> unique_ids (contents h) \<and> i \<notin># key_ids (contents h) \<and>
      insert i (set_mset (key_ids (contents h))) = insert i (ws_byID w) \<and>
      (\<forall>t j. SchedKey t j \<in># contents h \<longleftrightarrow> j \<noteq> i \<and> SchedKey t j \<in># contents (ws_heap w))"
    proof (cases "i \<in> ws_byID w")
      case True
      then have "h = snd (heap_Remove (ws_heap w) (item_index (ws_heap w) i))" by (simp add: h_def)
      from remove_item[OF assms(1) True this] True show ?thesis by (simp add: insert_absorb)
    next
      case False
      then have "h = ws_heap w" "i \<notin># key_ids (contents (ws_heap w))" using byID_keys[OF assms(1)] by (simp_all add: h_def)
      moreover from this have "SchedKey t i \<notin># contents (ws_heap w)" for t by (auto simp: in_key_ids)
      moreover have "heap_ok (ws_heap w)" "unique_ids (contents (ws_heap w))" using assms(1) by (simp_all add: wake_inv_def)
      ultimately show ?thesis using byID_keys[OF assms(1)] by auto
    qed
    then show "heap_ok h" "unique_ids (contents h)" "i \<notin># key_ids (contents h)"
      "insert i (set_mset (key_ids (contents h))) = insert i (ws_byID w)"
      "\<And>t j. SchedKey t j \<in># contents h \<longleftrightarrow> j \<noteq> i \<and> SchedKey t j \<in># contents (ws_heap w)" by blast+
  qed
  have st: "ws_heap (Schedule now w i nb) = heap_Push h ?item" "ws_byID (Schedule now w i nb) = insert i (ws_byID w)"
    "\<not> ws_stopped (Schedule now w i nb)"
    using assms(2,3) by (auto simp: Schedule_def Let_def h_def)
  note p = wh.push_keys[OF h(1), of ?item]
  have u: "unique_ids (contents (heap_Push h ?item))" using wh.push_unique[OF h(1,2), of ?item] h(3) by simp
  have ids: "insert i (ws_byID w) = set_mset (key_ids (contents (heap_Push h ?item)))"
    unfolding p using h(4) by (simp add: wkey_def)
  have inv: "wake_inv (Schedule now w i nb)"
    by (rule wake_invI[OF wh.push_ok[OF h(1), of ?item] u ids st])
  have "deadline (Schedule now w i nb) = (deadline w)(i \<mapsto> nb)"
  proof (rule deadline_eqI)
    fix j t
    have "deadline (Schedule now w i nb) j = Some t \<longleftrightarrow> SchedKey t j \<in># contents (heap_Push h ?item)"
      using deadline_iff[of "Schedule now w i nb"] u st(1) by simp
    also have "\<dots> \<longleftrightarrow> (if j = i then t = nb else SchedKey t j \<in># contents (ws_heap w))"
      unfolding p using h(5) by (auto simp: wkey_def)
    finally show "deadline (Schedule now w i nb) j = Some t \<longleftrightarrow> ((deadline w)(i \<mapsto> nb)) j = Some t"
      using deadline_iff[of w] assms(1) by (auto simp: wake_inv_def)
  qed
  then show ?thesis using inv by blast
qed

lemma Cancel_refines:
  assumes "wake_inv w"
  shows "wake_inv (Cancel now w i) \<and>
    deadline (Cancel now w i) = (if i = [] then deadline w else (deadline w)(i := None))"
proof (cases "i = [] \<or> i \<notin> ws_byID w")
  case True
  then have eq: "Cancel now w i = w" by (auto simp: Cancel_def)
  have "deadline w i = None" if "i \<noteq> []"
    using that True assms by (auto simp: deadline_def wake_inv_def map_of_eq_None_iff)
  then show ?thesis using assms unfolding eq by auto
next
  case False
  define h where "h = snd (heap_Remove (ws_heap w) (item_index (ws_heap w) i))"
  have i: "i \<in> ws_byID w" and run: "\<not> ws_stopped w" using False assms by (auto simp: wake_inv_def)
  note r = remove_item[OF assms i h_def]
  have st: "ws_heap (Cancel now w i) = h" "ws_byID (Cancel now w i) = ws_byID w - {i}" "\<not> ws_stopped (Cancel now w i)"
    using False run by (simp_all add: Cancel_def h_def)
  have ids: "ws_byID w - {i} = set_mset (key_ids (contents h))" using r(3,4) by blast
  have inv: "wake_inv (Cancel now w i)" by (rule wake_invI[OF r(1,2) ids st])
  have "deadline (Cancel now w i) = (deadline w)(i := None)"
    by (rule deadline_eqI) (use deadline_iff[of "Cancel now w i"] deadline_iff[of w] r(2,5) st(1) assms in \<open>auto simp: wake_inv_def\<close>)
  then show ?thesis using inv False by simp
qed

lemma Stop_refines: "wake_inv (Stop w) \<and> deadline (Stop w) = Map.empty"
  by (simp add: wake_inv_def Stop_def deadline_def)

text \<open>What a turn of \<^verbatim>\<open>fire\<close> does to the map: it takes out the least deadline, which is due, or ends with
  nothing due.\<close>

lemma fire_iter_refines:
  assumes "wake_inv w"
  shows "case fire_iter now later w of
      FireStopped \<Rightarrow> ws_stopped w
    | FireNotify i w' \<Rightarrow> wake_inv w' \<and> \<not> ws_stopped w' \<and> deadline w' = (deadline w)(i := None) \<and>
        (\<exists>nb. deadline w i = Some nb \<and> nb \<le> now \<and>
          (\<forall>j t. deadline w j = Some t \<longrightarrow> SchedKey nb i \<le> SchedKey t j))
    | FireDone w' \<Rightarrow> wake_inv w' \<and> \<not> ws_stopped w' \<and> deadline w' = deadline w \<and> w' = resetTimerLocked later w \<and>
        (\<forall>j t. deadline w j = Some t \<longrightarrow> now < t)"
proof -
  have ok: "heap_ok (ws_heap w)" and u: "unique_ids (contents (ws_heap w))" using assms by (simp_all add: wake_inv_def)
  have least: "wkey (ws_heap w ! 0) \<le> SchedKey t j" if "deadline w j = Some t" for j t
    using wh.key_at_least[OF ok] that deadline_iff[OF u] by blast
  have reset: "wake_inv (resetTimerLocked later w) \<and> deadline (resetTimerLocked later w) = deadline w"
    using assms by (auto simp: wake_inv_def intro: deadline_cong)
  show ?thesis
  proof (cases "ws_stopped w")
    case False
    show ?thesis
    proof (cases "ws_heap w")
      case Nil
      then show ?thesis using False reset by (simp add: fire_iter_def deadline_def)
    next
      case (Cons x xs)
      then have ne: "contents (ws_heap w) \<noteq> {#}" and x: "ws_heap w ! 0 = x" by simp_all
      show ?thesis
      proof (cases "now < wi_notBefore x")
        case True
        have "now < t" if "deadline w j = Some t" for j t
          using least[OF that] True unfolding x by (auto simp: wkey_def)
        then show ?thesis using False True Cons reset by (simp add: fire_iter_def)
      next
        case due: False
        define p where "p = heap_Pop (ws_heap w)"
        note pk = wh.pop_ok[OF ok ne, folded p_def, unfolded x] and pm = wh.pop_keys[OF ok ne, folded p_def, unfolded x]
          and pu = wh.pop_unique[OF ok ne u, folded p_def, unfolded x]
        have id: "wi_taskID (fst p) = wi_taskID x" "sk_id (wkey x) = wi_taskID x" using pk by (simp_all add: wkey_def)
        define w' where "w' = w\<lparr>ws_heap := snd p, ws_byID := ws_byID w - {wi_taskID x}\<rparr>"
        have f: "fire_iter now later w = FireNotify (wi_taskID x) w'"
          using False due Cons id(1) by (simp add: fire_iter_def Let_def p_def w'_def)
        have n: "SchedKey t (wi_taskID x) \<notin># contents (snd p)" for t using pu id(2) by (auto simp: in_key_ids)
        have ids: "ws_byID w - {wi_taskID x} = set_mset (key_ids (contents (snd p)))"
          using byID_keys[OF assms] arg_cong[OF pm, of key_ids] pu id(2) by auto
        have st: "ws_heap w' = snd p" "ws_byID w' = ws_byID w - {wi_taskID x}" "\<not> ws_stopped w'"
          using False by (simp_all add: w'_def)
        have inv: "wake_inv w'"
          by (rule wake_invI[OF conjunct1[OF pk] conjunct1[OF pu] ids st])
        have "deadline w' = (deadline w)(wi_taskID x := None)"
        proof (rule deadline_eqI)
          fix j t
          have "deadline w' j = Some t \<longleftrightarrow> SchedKey t j \<in># contents (snd p)" using deadline_iff[of w'] pu st(1) by simp
          also have "\<dots> \<longleftrightarrow> j \<noteq> wi_taskID x \<and> SchedKey t j \<in># contents (ws_heap w)"
            unfolding pm using n by (auto simp: wkey_def)
          finally show "deadline w' j = Some t \<longleftrightarrow> ((deadline w)(wi_taskID x := None)) j = Some t"
            using deadline_iff[OF u] by auto
        qed
        moreover have "deadline w (wi_taskID x) = Some (wi_notBefore x)" unfolding deadline_iff[OF u] pm by (simp add: wkey_def)
        moreover have "\<forall>j t. deadline w j = Some t \<longrightarrow> SchedKey (wi_notBefore x) (wi_taskID x) \<le> SchedKey t j"
          using least unfolding x by (simp add: wkey_def)
        ultimately show ?thesis using inv st(3) due unfolding f fire_turn.case by (metis not_less)
      qed
    qed
  qed (simp add: fire_iter_def)
qed

text \<open>C17. On a well-formed scheduler the heap operations implement a map from task ids to deadlines:
  \<^verbatim>\<open>Schedule\<close> sets one entry, \<^verbatim>\<open>Cancel\<close> and \<^verbatim>\<open>Stop\<close> remove entries, and each turn of \<^verbatim>\<open>fire\<close> removes the
  entry with the least deadline (ties by id) and only when it is due, or ends when none is due. All of
  them keep the scheduler well-formed.\<close>

theorem wake_scheduler_refines_map:
  assumes "wake_inv w"
  shows "wake_inv (Schedule now w i nb) \<and>
    deadline (Schedule now w i nb) = (if i = [] \<or> ws_stopped w then deadline w else (deadline w)(i \<mapsto> nb)) \<and>
    wake_inv (Cancel now w i) \<and> deadline (Cancel now w i) = (if i = [] then deadline w else (deadline w)(i := None)) \<and>
    wake_inv (Stop w) \<and> deadline (Stop w) = Map.empty \<and>
    (case fire_iter now later w of
       FireStopped \<Rightarrow> ws_stopped w
     | FireNotify j w' \<Rightarrow> wake_inv w' \<and> deadline w' = (deadline w)(j := None) \<and>
         (\<exists>t. deadline w j = Some t \<and> t \<le> now \<and>
           list_all (\<lambda>x. SchedKey t j \<le> SchedKey (wi_notBefore x) (wi_taskID x)) (ws_heap w))
     | FireDone w' \<Rightarrow> wake_inv w' \<and> deadline w' = deadline w \<and> list_all (\<lambda>x. now < wi_notBefore x) (ws_heap w))"
proof -
  have m: "deadline w (wi_taskID x) = Some (wi_notBefore x)" if "x \<in> set (ws_heap w)" for x
    using deadline_iff[of w "wi_taskID x" "wi_notBefore x"] that assms
    by (auto simp: wake_inv_def contents_def wkey_def intro: rev_image_eqI)
  have turn: "case fire_iter now later w of
       FireStopped \<Rightarrow> ws_stopped w
     | FireNotify j w' \<Rightarrow> wake_inv w' \<and> deadline w' = (deadline w)(j := None) \<and>
         (\<exists>t. deadline w j = Some t \<and> t \<le> now \<and>
           list_all (\<lambda>x. SchedKey t j \<le> SchedKey (wi_notBefore x) (wi_taskID x)) (ws_heap w))
     | FireDone w' \<Rightarrow> wake_inv w' \<and> deadline w' = deadline w \<and> list_all (\<lambda>x. now < wi_notBefore x) (ws_heap w)"
    using fire_iter_refines[OF assms, of now later] m by (auto simp: list_all_iff split: fire_turn.splits)
  have "wake_inv (Schedule now w i nb) \<and>
    deadline (Schedule now w i nb) = (if i = [] \<or> ws_stopped w then deadline w else (deadline w)(i \<mapsto> nb))"
  proof (cases "i = [] \<or> ws_stopped w")
    case True
    then show ?thesis using assms by (auto simp: Schedule_def)
  qed (use Schedule_refines[OF assms] in auto)
  then show ?thesis using turn Cancel_refines[OF assms] Stop_refines by blast
qed

lemma wake_inv_new: "wake_inv NewPickupWakeScheduler"
  by (simp add: wake_inv_def NewPickupWakeScheduler_def)

theorem wake_scheduler_refines_map_witness:
  "deadline (Schedule 0 NewPickupWakeScheduler ''t'' 5) = [''t'' \<mapsto> 5]"
  using wake_scheduler_refines_map[OF wake_inv_new, of 0 "''t''" 5 0]
  by (simp add: NewPickupWakeScheduler_def deadline_def)

section \<open>Timers\<close>

text \<open>The scheduler with the clock, the runtime timer and the callbacks in progress. A callback that was
  started is not recalled by \<^verbatim>\<open>timer.Stop\<close>; several may overlap. The log holds what each turn popped and
  when.\<close>

record wake_sys =
  wy_w :: wake_sched
  wy_now :: gotime
  wy_firing :: nat
  wy_popped :: "(string \<times> gotime) list"

inductive wake_step :: "wake_sys \<Rightarrow> wake_sys \<Rightarrow> bool" where
  tick: "wy_now s \<le> t \<Longrightarrow> wake_step s (s\<lparr>wy_now := t\<rparr>)"
| schedule: "wake_step s (s\<lparr>wy_w := Schedule (wy_now s) (wy_w s) i nb\<rparr>)"
| cancel: "wake_step s (s\<lparr>wy_w := Cancel (wy_now s) (wy_w s) i\<rparr>)"
| stop: "wake_step s (s\<lparr>wy_w := Stop (wy_w s)\<rparr>)"
| expire: "ws_timer (wy_w s) = Some d \<Longrightarrow> d \<le> wy_now s \<Longrightarrow>
    wake_step s (s\<lparr>wy_w := (wy_w s)\<lparr>ws_timer := None\<rparr>, wy_firing := wy_firing s + 1\<rparr>)"
| pop: "0 < wy_firing s \<Longrightarrow> fire_iter (wy_now s) (wy_now s) (wy_w s) = FireNotify i w' \<Longrightarrow>
    wake_step s (s\<lparr>wy_w := w', wy_popped := (i, wy_now s) # wy_popped s\<rparr>)"
| finish: "0 < wy_firing s \<Longrightarrow> fire_iter (wy_now s) (wy_now s) (wy_w s) = FireDone w' \<Longrightarrow>
    wake_step s (s\<lparr>wy_w := w', wy_firing := wy_firing s - 1\<rparr>)"
| abandon: "0 < wy_firing s \<Longrightarrow> fire_iter (wy_now s) (wy_now s) (wy_w s) = FireStopped \<Longrightarrow>
    wake_step s (s\<lparr>wy_firing := wy_firing s - 1\<rparr>)"

inductive wake_reachable :: "wake_sys \<Rightarrow> bool" where
  start: "wake_reachable \<lparr>wy_w = NewPickupWakeScheduler, wy_now = t, wy_firing = 0, wy_popped = []\<rparr>"
| step: "wake_reachable s \<Longrightarrow> wake_step s s' \<Longrightarrow> wake_reachable s'"

definition armed :: "gotime \<Rightarrow> wake_sched \<Rightarrow> bool" where
  "armed now w =
     (case ws_heap w of [] \<Rightarrow> True
      | x # _ \<Rightarrow> (case ws_timer w of None \<Rightarrow> False | Some d \<Rightarrow> wi_notBefore x \<le> d \<and> d \<le> max now (wi_notBefore x)))"

definition wake_sys_inv :: "wake_sys \<Rightarrow> bool" where
  "wake_sys_inv s \<longleftrightarrow> wake_inv (wy_w s) \<and> (wy_firing s = 0 \<longrightarrow> armed (wy_now s) (wy_w s))"

lemma armed_reset: "armed now (resetTimerLocked now w)"
  by (auto simp: armed_def resetTimerLocked_def Let_def split: list.splits)

lemma armed_tick: "armed now w \<Longrightarrow> now \<le> t \<Longrightarrow> armed t w"
  by (auto simp: armed_def split: list.splits option.splits)

lemma wake_inv_timer [simp]: "wake_inv (w\<lparr>ws_timer := x\<rparr>) = wake_inv w"
  by (simp add: wake_inv_def)

lemma Schedule_armed: "armed now w \<Longrightarrow> armed now (Schedule now w i nb)"
  by (auto simp: Schedule_def Let_def armed_reset)

lemma Cancel_armed: "armed now w \<Longrightarrow> armed now (Cancel now w i)"
  by (auto simp: Cancel_def armed_reset)

lemma Schedule_inv: "wake_inv w \<Longrightarrow> wake_inv (Schedule now w i nb)"
  using Schedule_refines by (cases "i = [] \<or> ws_stopped w") (auto simp: Schedule_def)

lemma wake_sys_inv_step: "wake_step s s' \<Longrightarrow> wake_sys_inv s \<Longrightarrow> wake_sys_inv s'"
proof (induction rule: wake_step.induct)
  case (schedule s i nb)
  then show ?case by (simp add: wake_sys_inv_def Schedule_inv Schedule_armed)
next
  case (pop s i w')
  then show ?case using fire_iter_refines[of "wy_w s" "wy_now s" "wy_now s"] by (simp add: wake_sys_inv_def)
next
  case (finish s w')
  then show ?case using fire_iter_refines[of "wy_w s" "wy_now s" "wy_now s"] by (auto simp: wake_sys_inv_def armed_reset)
next
  case (abandon s)
  then have "ws_stopped (wy_w s)" "wake_inv (wy_w s)"
    using fire_iter_refines[of "wy_w s" "wy_now s" "wy_now s"] by (simp_all add: wake_sys_inv_def)
  then show ?case by (simp add: wake_sys_inv_def armed_def wake_inv_def)
next
  case (stop s)
  then show ?case using Stop_refines by (simp add: wake_sys_inv_def armed_def Stop_def)
qed (auto simp: wake_sys_inv_def Cancel_refines Cancel_armed intro: armed_tick)

lemma wake_reachable_inv: "wake_reachable s \<Longrightarrow> wake_sys_inv s"
proof (induction rule: wake_reachable.induct)
  case (start t)
  then show ?case using wake_inv_new by (simp add: wake_sys_inv_def armed_def NewPickupWakeScheduler_def)
qed (rule wake_sys_inv_step)

text \<open>In every reachable state with no callback in progress, whatever the order of \<^verbatim>\<open>Schedule\<close>,
  \<^verbatim>\<open>Cancel\<close>, \<^verbatim>\<open>Stop\<close>, timer expiries and overlapping callbacks, a scheduled deadline has a timer: one that
  fires no later than that deadline (or now, when it has passed) and not before some deadline is due.\<close>

theorem wake_timer_armed:
  assumes "wake_reachable s" "wy_firing s = 0" "deadline (wy_w s) i = Some t"
  shows "\<exists>d j u. ws_timer (wy_w s) = Some d \<and> d \<le> max (wy_now s) t \<and> deadline (wy_w s) j = Some u \<and> u \<le> d"
proof -
  let ?w = "wy_w s"
  have inv: "wake_inv ?w" and arm: "armed (wy_now s) ?w"
    using wake_reachable_inv[OF assms(1)] assms(2) by (simp_all add: wake_sys_inv_def)
  then have ok: "heap_ok (ws_heap ?w)" and u: "unique_ids (contents (ws_heap ?w))" by (simp_all add: wake_inv_def)
  obtain x xs where x: "ws_heap ?w = x # xs" using assms(3) by (cases "ws_heap ?w") (auto simp: deadline_def)
  have "wkey x \<le> SchedKey t i" using wh.key_at_least[OF ok] assms(3) unfolding deadline_iff[OF u] by (simp add: x)
  then have "wi_notBefore x \<le> t" by (auto simp: wkey_def)
  moreover have "deadline ?w (wi_taskID x) = Some (wi_notBefore x)"
    unfolding deadline_iff[OF u] by (simp add: x contents_def wkey_def)
  moreover obtain d where "ws_timer ?w = Some d" "wi_notBefore x \<le> d" "d \<le> max (wy_now s) (wi_notBefore x)"
    using arm by (auto simp: armed_def x split: option.splits)
  ultimately show ?thesis by (intro exI[of _ d] exI[of _ "wi_taskID x"] exI[of _ "wi_notBefore x"]) auto
qed

definition sample_wake_sys :: wake_sys where
  "sample_wake_sys = \<lparr>wy_w = Schedule 3 NewPickupWakeScheduler ''t'' 5, wy_now = 3, wy_firing = 0, wy_popped = []\<rparr>"

lemma sample_wake_reachable: "wake_reachable sample_wake_sys"
  using wake_reachable.step[OF wake_reachable.start wake_step.schedule, of 3 "''t''" 5] by (simp add: sample_wake_sys_def)

theorem wake_timer_armed_witness: "\<exists>d. ws_timer (wy_w sample_wake_sys) = Some d \<and> d \<le> 5"
proof -
  have d: "deadline (wy_w sample_wake_sys) ''t'' = Some 5" "wy_firing sample_wake_sys = 0" "wy_now sample_wake_sys = 3"
    using Schedule_refines[OF wake_inv_new, of "''t''" 3 5] by (simp_all add: sample_wake_sys_def NewPickupWakeScheduler_def)
  from wake_timer_armed[OF sample_wake_reachable d(2,1)] show ?thesis unfolding d(3) by auto
qed

section \<open>The callback\<close>

lemma tryNotify_grows:
  "mq_bufCap (tryNotify s q i now) = mq_bufCap q \<and> length (mq_ch q) \<le> length (mq_ch (tryNotify s q i now)) \<and>
   mq_pending q \<subseteq> mq_pending (tryNotify s q i now)"
  by (auto simp: tryNotify_def NotifyReadyTask_def tryEnqueue_def split: sum.splits)

lemma tryNotify_holds:
  assumes "Task_Get s i = Inr row" "task_Status row = StatusReady" "ShouldNotifyReadyNow (task_PickupNotBefore row) now"
    "task_ID row \<noteq> []"
  shows "task_ID row \<in> mq_pending (tryNotify s q i now) \<or>
    mq_bufCap (tryNotify s q i now) \<le> length (mq_ch (tryNotify s q i now))"
  using assms by (auto simp: tryNotify_def NotifyReadyTask_def tryEnqueue_def)

lemma fire_unfold:
  "fire_iter (clk k) (clk (Suc k)) w = FireStopped \<Longrightarrow> fire s clk k w q = (w, q)"
  "fire_iter (clk k) (clk (Suc k)) w = FireDone w1 \<Longrightarrow> fire s clk k w q = (w1, q)"
  "fire_iter (clk k) (clk (Suc k)) w = FireNotify i w1 \<Longrightarrow>
     fire s clk k w q = fire s clk (Suc k) w1 (tryNotify s q i (clk k))"
  by (simp_all add: fire.simps[of s clk k w q])

lemma fire_grows:
  "fire s clk k w q = (w', q') \<Longrightarrow>
   mq_bufCap q' = mq_bufCap q \<and> length (mq_ch q) \<le> length (mq_ch q') \<and> mq_pending q \<subseteq> mq_pending q'"
proof (induction s clk k w q rule: fire.induct)
  case (1 s clk k w q)
  show ?case
  proof (cases "fire_iter (clk k) (clk (Suc k)) w")
    case (FireNotify i w1)
    then have "fire s clk (Suc k) w1 (tryNotify s q i (clk k)) = (w', q')" using "1.prems" fire_unfold(3) by simp
    from "1.IH"[OF FireNotify this] show ?thesis using tryNotify_grows[of s q i "clk k"]
      by (auto intro: order_trans)
  qed (use "1.prems" fire_unfold in simp_all)
qed

lemma fire_ends:
  "wake_inv w \<Longrightarrow> \<not> ws_stopped w \<Longrightarrow> (\<And>n. clk n \<le> clk (Suc n)) \<Longrightarrow> fire s clk k w q = (w', q') \<Longrightarrow>
   wake_inv w' \<and> \<not> ws_stopped w' \<and> (\<forall>i t. deadline w' i = Some t \<longrightarrow> deadline w i = Some t \<and> clk k < t)"
proof (induction s clk k w q rule: fire.induct)
  case (1 s clk k w q)
  note r = fire_iter_refines[OF "1.prems"(1), of "clk k" "clk (Suc k)"]
  show ?case
  proof (cases "fire_iter (clk k) (clk (Suc k)) w")
    case (FireNotify i w1)
    then have f: "fire s clk (Suc k) w1 (tryNotify s q i (clk k)) = (w', q')" using "1.prems"(4) fire_unfold(3) by simp
    have w1: "wake_inv w1" "\<not> ws_stopped w1" "deadline w1 = (deadline w)(i := None)" using r FireNotify by auto
    from "1.IH"[OF FireNotify w1(1,2) "1.prems"(3) f]
    have "wake_inv w'" "\<not> ws_stopped w'" and d: "\<And>j t. deadline w' j = Some t \<Longrightarrow> deadline w1 j = Some t \<and> clk (Suc k) < t"
      by blast+
    moreover have "deadline w j = Some t \<and> clk k < t" if "deadline w' j = Some t" for j t
      using d[OF that] w1(3) "1.prems"(3)[of k] by (auto split: if_splits)
    ultimately show ?thesis by blast
  next
    case FireStopped
    then show ?thesis using r "1.prems"(2) by simp
  next
    case (FireDone w1)
    then have "w' = w1" using "1.prems"(4) fire_unfold(2) by simp
    then show ?thesis using r FireDone by auto
  qed
qed

lemma clock_le: "(\<And>n. clk n \<le> clk (Suc n)) \<Longrightarrow> clk k \<le> (clk (k + n) :: gotime)"
  by (induction n) (simp, metis add_Suc_right order_trans)

lemma fire_notifies:
  "wake_inv w \<Longrightarrow> \<not> ws_stopped w \<Longrightarrow> (\<And>n. clk n \<le> clk (Suc n)) \<Longrightarrow> fire s clk k w q = (w', q') \<Longrightarrow>
   deadline w i = Some t \<Longrightarrow> t \<le> clk k \<Longrightarrow> Task_Get s i = Inr row \<Longrightarrow> task_Status row = StatusReady \<Longrightarrow>
   task_ID row \<noteq> [] \<Longrightarrow> ShouldNotifyReadyNow (task_PickupNotBefore row) (clk k) \<Longrightarrow>
   task_ID row \<in> mq_pending q' \<or> mq_bufCap q' \<le> length (mq_ch q')"
proof (induction s clk k w q rule: fire.induct)
  case (1 s clk k w q)
  note r = fire_iter_refines[OF "1.prems"(1), of "clk k" "clk (Suc k)"]
  show ?case
  proof (cases "fire_iter (clk k) (clk (Suc k)) w")
    case (FireNotify j w1)
    then have f: "fire s clk (Suc k) w1 (tryNotify s q j (clk k)) = (w', q')" using "1.prems"(4) fire_unfold(3) by simp
    have w1: "wake_inv w1" "\<not> ws_stopped w1" "deadline w1 = (deadline w)(j := None)" using r FireNotify by auto
    show ?thesis
    proof (cases "j = i")
      case True
      have "task_ID row \<in> mq_pending (tryNotify s q i (clk k)) \<or>
          mq_bufCap (tryNotify s q i (clk k)) \<le> length (mq_ch (tryNotify s q i (clk k)))"
        using tryNotify_holds "1.prems"(7-10) by blast
      then show ?thesis using fire_grows[OF f] True by auto
    next
      case False
      have le: "clk k \<le> clk (Suc k)" using "1.prems"(3) .
      have "ShouldNotifyReadyNow (task_PickupNotBefore row) (clk (Suc k))"
        using "1.prems"(10) le by (auto simp: ShouldNotifyReadyNow_def split: option.splits)
      moreover have "deadline w1 i = Some t" "t \<le> clk (Suc k)" using w1(3) False "1.prems"(5,6) le by simp_all
      ultimately show ?thesis using "1.IH"[OF FireNotify w1(1,2) "1.prems"(3) f] "1.prems"(7-9) by blast
    qed
  next
    case FireStopped
    then show ?thesis using r "1.prems"(2) by simp
  next
    case (FireDone w1)
    then have "clk k < t" using r "1.prems"(5) by auto
    then show ?thesis using "1.prems"(6) by simp
  qed
qed

lemma Task_Get_ID:
  assumes "Task_Get s i = Inr row"
  shows "task_ID row = trim_space i \<and> trim_space i \<noteq> []"
proof -
  have ne: "trim_space i \<noteq> []" using assms by (auto simp: Task_Get_def Let_def)
  with assms obtain u v where "LoadTask s (trim_space i) = Inr u" "hydrateDependsOn s u = Inr v" "row = hydrateCreatedAt s v"
    unfolding Task_Get_def Let_def if_not_P[OF ne] by (elim rbind_InrE) simp
  then show ?thesis using LoadTaskD(2)[of s "trim_space i" u] ne
    by (auto simp: hydrateDependsOn_def hydrateCreatedAt_def split: option.splits)
qed

text \<open>The timer callback always ends; run without interference it takes out every due deadline and no
  other, keeps the scheduler well-formed, and every task whose deadline was due and whose row is ready
  and due is then pending in the queue, unless the queue is full (the reconcile pass picks those up).\<close>

theorem wake_fire_complete:
  assumes "wake_inv w" "\<not> ws_stopped w" "\<And>n. clk n \<le> clk (Suc n)"
  shows "\<exists>w' q'. fire s clk k w q = (w', q') \<and> wake_inv w' \<and>
    (\<forall>i t. deadline w i = Some t \<and> t \<le> clk k \<longrightarrow> deadline w' i = None \<and>
      (\<forall>row. Task_Get s i = Inr row \<and> task_Status row = StatusReady \<and>
          ShouldNotifyReadyNow (task_PickupNotBefore row) (clk k) \<longrightarrow>
        task_ID row \<in> mq_pending q' \<or> mq_bufCap q' \<le> length (mq_ch q'))) \<and>
    (\<forall>i t. deadline w' i = Some t \<longrightarrow> deadline w i = Some t)"
proof -
  obtain w' q' where f: "fire s clk k w q = (w', q')" by (cases "fire s clk k w q")
  note e = fire_ends[OF assms f]
  have id: "task_ID row \<noteq> []" if "Task_Get s i = Inr row" for i row using Task_Get_ID[OF that] by simp
  have "deadline w' i = None" if "deadline w i = Some t" "t \<le> clk k" for i t
  proof (rule ccontr)
    assume "deadline w' i \<noteq> None"
    then obtain u where u: "deadline w' i = Some u" by blast
    then have "deadline w i = Some u" "clk k < u" using e by blast+
    then show False using that by simp
  qed
  moreover have "task_ID row \<in> mq_pending q' \<or> mq_bufCap q' \<le> length (mq_ch q')"
    if "deadline w i = Some t" "t \<le> clk k" "Task_Get s i = Inr row" "task_Status row = StatusReady"
      "ShouldNotifyReadyNow (task_PickupNotBefore row) (clk k)" for i t row
    using fire_notifies[OF assms f that(1-4) id[OF that(3)] that(5)] .
  ultimately show ?thesis using f e by blast
qed

theorem wake_fire_complete_witness:
  "\<exists>w' q'. fire sample_dep_db (\<lambda>n. 5 + int n) 0 (wy_w sample_wake_sys) sample_queue = (w', q') \<and>
     deadline w' ''t'' = None"
proof -
  have d: "deadline (wy_w sample_wake_sys) ''t'' = Some 5" "wake_inv (wy_w sample_wake_sys)" "\<not> ws_stopped (wy_w sample_wake_sys)"
    using Schedule_refines[OF wake_inv_new, of "''t''" 3 5]
    by (simp_all add: sample_wake_sys_def NewPickupWakeScheduler_def Schedule_def Let_def)
  have c: "5 + int n \<le> 5 + int (Suc n)" "(5::gotime) \<le> 5 + int 0" for n by simp_all
  obtain w' q' where "fire sample_dep_db (\<lambda>n. 5 + int n) 0 (wy_w sample_wake_sys) sample_queue = (w', q')"
    "\<forall>i t. deadline (wy_w sample_wake_sys) i = Some t \<and> t \<le> 5 + int 0 \<longrightarrow> deadline w' i = None \<and>
      (\<forall>row. Task_Get sample_dep_db i = Inr row \<and> task_Status row = StatusReady \<and>
          ShouldNotifyReadyNow (task_PickupNotBefore row) (5 + int 0) \<longrightarrow>
        task_ID row \<in> mq_pending q' \<or> mq_bufCap q' \<le> length (mq_ch q'))"
    using wake_fire_complete[OF d(2,3), of "\<lambda>n. 5 + int n" sample_dep_db 0 sample_queue, OF c(1)] by blast
  then show ?thesis using d(1) c(2) by blast
qed

end
