(* ===== verification/Checklist.thy ===== *)
theory Checklist
  imports Store_Dependencies
begin

text \<open>
  \<^verbatim>\<open>pkgs/tasks/store/internal/checklist\<close>: the acceptance criteria of a task, their optional verify
  commands, the completion rows written by the agent, and the guard that a task may only be marked
  done when every criterion has a verified completion. The denormalised flag
  \<open>task_CriteriaSatisfiedAt\<close> is recomputed by every completion write.
\<close>

section \<open>Inputs and views\<close>

record verify_command_input =
  vci_Command :: string
  vci_ExpectedOutcome :: string

record create_checklist_item_input =
  ccii_Text :: string
  ccii_VerifyCommands :: "verify_command_input list"

record verify_command_view =
  vcv_SortOrder :: int
  vcv_Command :: string
  vcv_ExpectedOutcome :: string

record item_view =
  iv_ID :: string
  iv_SortOrder :: int
  iv_Text :: string
  iv_VerifyCommands :: "verify_command_view list"
  iv_Done :: bool
  iv_Evidence :: string
  iv_VerifiedBy :: verifier_kind
  iv_VerifierReasoning :: string
  iv_CycleID :: string

record verify_item =
  vi_ID :: string
  vi_Text :: string
  vi_SourceTaskID :: string
  vi_DefinitionTask :: string
  vi_VerifyCommands :: "verify_command_view list"

record criteria_flag_change =
  cfc_BecameComplete :: bool
  cfc_BecameIncomplete :: bool

section \<open>Verify commands (commands.go, domain/verify_commands.go)\<close>

definition MaxVerifyCommandsPerItem :: nat where "MaxVerifyCommandsPerItem = 5"
definition MaxVerifyCommandLen :: nat where "MaxVerifyCommandLen = 512"
definition MaxVerifyExpectedOutcomeLen :: nat where "MaxVerifyExpectedOutcomeLen = 2048"

fun normalizeVerifyCommands_from :: "verify_command_input list \<Rightarrow> verify_command_input list \<Rightarrow> verify_command_input list res" where
  "normalizeVerifyCommands_from out [] =
     (if MaxVerifyCommandsPerItem < length out then Inl (ErrInvalidInput ''too many verify commands'') else Inr out)"
| "normalizeVerifyCommands_from out (raw # rest) =
     (let cmd = trim_space (vci_Command raw) in
      if cmd = [] then normalizeVerifyCommands_from out rest
      else if MaxVerifyCommandLen < length cmd then Inl (ErrInvalidInput ''verify command too long'')
      else let expected = trim_space (vci_ExpectedOutcome raw) in
      if MaxVerifyExpectedOutcomeLen < length expected then Inl (ErrInvalidInput ''expected_outcome too long'')
      else normalizeVerifyCommands_from (out @ [\<lparr>vci_Command = cmd, vci_ExpectedOutcome = expected\<rparr>]) rest)"

definition NormalizeVerifyCommandInputs :: "verify_command_input list \<Rightarrow> verify_command_input list res" where
  "NormalizeVerifyCommandInputs inp = (if length inp = 0 then Inr [] else normalizeVerifyCommands_from [] inp)"

definition insert_command :: "db \<Rightarrow> checklist_command \<Rightarrow> db res" where
  "insert_command s c =
     (if cc_ID c \<in> set (map cc_ID (db_commands s)) then Inl (ErrDB ''task_checklist_item_commands_pkey'')
      else Inr (s\<lparr>db_commands := db_commands s @ [c]\<rparr>))"

text \<open>\<open>ids i\<close> is the identifier minted for the \<open>i\<close>-th command row.\<close>

fun insert_commands_from :: "(nat \<Rightarrow> string) \<Rightarrow> nat \<Rightarrow> db \<Rightarrow> string \<Rightarrow> verify_command_input list \<Rightarrow> db res" where
  "insert_commands_from ids i s itemID [] = Inr s"
| "insert_commands_from ids i s itemID (c # cs) =
     rbind (insert_command s \<lparr>cc_ID = ids i, cc_ItemID = itemID, cc_SortOrder = int i,
              cc_Command = vci_Command c, cc_ExpectedOutcome = vci_ExpectedOutcome c\<rparr>)
       (\<lambda>s'. insert_commands_from ids (Suc i) s' itemID cs)"

definition replaceCommandsInTx :: "(nat \<Rightarrow> string) \<Rightarrow> db \<Rightarrow> string \<Rightarrow> verify_command_input list \<Rightarrow> db res" where
  "replaceCommandsInTx ids s itemID cmds =
     insert_commands_from ids 0 (s\<lparr>db_commands := filter (\<lambda>c. cc_ItemID c \<noteq> itemID) (db_commands s)\<rparr>) itemID cmds"

definition commandsForItem :: "db \<Rightarrow> string \<Rightarrow> verify_command_view list" where
  "commandsForItem s itemID =
     map (\<lambda>r. \<lparr>vcv_SortOrder = cc_SortOrder r, vcv_Command = cc_Command r, vcv_ExpectedOutcome = cc_ExpectedOutcome r\<rparr>)
       (sort_key cc_SortOrder (filter (\<lambda>c. cc_ItemID c = itemID) (db_commands s)))"

section \<open>Guards (validate.go)\<close>

definition DefinitionSourceTaskIDInTx :: "db \<Rightarrow> string \<Rightarrow> string res" where
  "DefinitionSourceTaskIDInTx s taskID0 =
     (let taskID = trim_space taskID0 in
      if taskID = [] then Inl (ErrInvalidInput ''id'')
      else if length (filter (\<lambda>t. task_ID t = taskID) (db_tasks s)) = 0 then Inl ErrNotFound
      else Inr taskID)"

definition itemsForDefinition :: "db \<Rightarrow> string \<Rightarrow> checklist_item list" where
  "itemsForDefinition s defTaskID =
     sort_key ci_SortOrder (sort_key ci_ID (filter (\<lambda>i. ci_TaskID i = defTaskID) (db_items s)))"

definition find_completion :: "db \<Rightarrow> string \<Rightarrow> string \<Rightarrow> checklist_completion option" where
  "find_completion s taskID itemID =
     List.find (\<lambda>c. cp_TaskID c = taskID \<and> cp_ItemID c = itemID) (db_completions s)"

fun check_items_complete :: "db \<Rightarrow> string \<Rightarrow> checklist_item list \<Rightarrow> unit res" where
  "check_items_complete s subject [] = Inr ()"
| "check_items_complete s subject (it # items) =
     (case find_completion s subject (ci_ID it) of
        None \<Rightarrow> Inl (ErrInvalidInput ''all checklist items must be done before marking this task done'')
      | Some row \<Rightarrow>
          if \<not> ValidVerifierKind (cp_VerifiedBy row)
          then Inl (ErrInvalidInput ''checklist completion missing verified_by'')
          else if cp_VerifiedBy row \<noteq> VerifierLegacy \<and> trim_space (cp_Evidence row) = []
          then Inl (ErrInvalidInput ''checklist completion missing evidence'')
          else check_items_complete s subject items)"

definition validateChecklistCompleteInTx :: "db \<Rightarrow> string \<Rightarrow> unit res" where
  "validateChecklistCompleteInTx s subject =
     rbind (DefinitionSourceTaskIDInTx s subject) (\<lambda>defID.
     let items = itemsForDefinition s defID in
     if length items = 0 then Inr () else check_items_complete s subject items)"

definition ValidateCanMarkDoneInTx :: "db \<Rightarrow> string \<Rightarrow> unit res" where
  "ValidateCanMarkDoneInTx s taskID = validateChecklistCompleteInTx s taskID"

definition ValidateCriteriaMutable :: "task \<Rightarrow> unit res" where
  "ValidateCriteriaMutable t =
     (if task_Status t = StatusRunning then Inl (ErrConflict ''cannot change criteria while task is running'')
      else Inr ())"

definition criterionLockedByCompletion :: "status \<Rightarrow> int \<Rightarrow> bool" where
  "criterionLockedByCompletion taskStatus doneCount =
     (if doneCount = 0 then False else taskStatus \<noteq> StatusDone)"

definition doneCountForItem :: "db \<Rightarrow> string \<Rightarrow> int" where
  "doneCountForItem s itemID = int (length (filter (\<lambda>c. cp_ItemID c = itemID) (db_completions s)))"

definition loadItem :: "db \<Rightarrow> string \<Rightarrow> string \<Rightarrow> checklist_item res" where
  "loadItem s itemID taskID =
     (case List.find (\<lambda>i. ci_ID i = itemID \<and> ci_TaskID i = taskID) (db_items s) of
        None \<Rightarrow> Inl ErrNotFound | Some i \<Rightarrow> Inr i)"

section \<open>The criteria flag (criteria_flag.go)\<close>

definition IsChecklistCompleteInTx :: "db \<Rightarrow> string \<Rightarrow> bool" where
  "IsChecklistCompleteInTx s subject =
     (case validateChecklistCompleteInTx s subject of Inr _ \<Rightarrow> True | Inl _ \<Rightarrow> False)"

definition set_criteria_flag :: "string \<Rightarrow> gotime option \<Rightarrow> db \<Rightarrow> db" where
  "set_criteria_flag i v s =
     s\<lparr>db_tasks := update_where (\<lambda>t. task_ID t = i) (\<lambda>t. t\<lparr>task_CriteriaSatisfiedAt := v\<rparr>) (db_tasks s)\<rparr>"

definition syncCriteriaSatisfiedAtInTx :: "gotime \<Rightarrow> db \<Rightarrow> string \<Rightarrow> (db \<times> criteria_flag_change) res" where
  "syncCriteriaSatisfiedAtInTx now s subject =
     (case List.find (\<lambda>t. task_ID t = subject) (db_tasks s) of
        None \<Rightarrow> Inl (ErrDB ''load task for criteria flag'')
      | Some t \<Rightarrow>
          let wasComplete = (task_CriteriaSatisfiedAt t \<noteq> None);
              nowComplete = IsChecklistCompleteInTx s subject in
          if nowComplete \<and> \<not> wasComplete
          then Inr (set_criteria_flag subject (Some now) s, \<lparr>cfc_BecameComplete = True, cfc_BecameIncomplete = False\<rparr>)
          else if \<not> nowComplete \<and> wasComplete
          then Inr (set_criteria_flag subject None s, \<lparr>cfc_BecameComplete = False, cfc_BecameIncomplete = True\<rparr>)
          else Inr (s, \<lparr>cfc_BecameComplete = False, cfc_BecameIncomplete = False\<rparr>))"

fun backfill_ids :: "gotime \<Rightarrow> db \<Rightarrow> string list \<Rightarrow> db res" where
  "backfill_ids now s [] = Inr s"
| "backfill_ids now s (i # ids) =
     rbind (syncCriteriaSatisfiedAtInTx now s i) (\<lambda>r. backfill_ids now (fst r) ids)"

definition BackfillCriteriaSatisfiedAt :: "gotime \<Rightarrow> db \<Rightarrow> db res" where
  "BackfillCriteriaSatisfiedAt now s =
     backfill_ids now s (map task_ID (filter (\<lambda>t. task_CriteriaSatisfiedAt t = None) (db_tasks s)))"

section \<open>Operations (checklist.go, create_batch.go, evidence.go, commands.go, verify_list.go)\<close>

definition insert_item :: "db \<Rightarrow> checklist_item \<Rightarrow> db res" where
  "insert_item s i =
     (if ci_ID i \<in> set (map ci_ID (db_items s)) then Inl (ErrDB ''task_checklist_items_pkey'')
      else Inr (s\<lparr>db_items := db_items s @ [i]\<rparr>))"

definition max_sort_order :: "db \<Rightarrow> string \<Rightarrow> int" where
  "max_sort_order s taskID =
     coalesce_max (map ci_SortOrder (filter (\<lambda>i. ci_TaskID i = taskID) (db_items s)))"

definition item_text_json :: "string \<Rightarrow> string \<Rightarrow> payload" where
  "item_text_json itemID text = PDoc (JObj [(''item_id'', JStr itemID), (''text'', JStr text)])"

definition item_view_of :: "db \<Rightarrow> string \<Rightarrow> checklist_item \<Rightarrow> item_view" where
  "item_view_of s taskID it =
     (let v = \<lparr>iv_ID = ci_ID it, iv_SortOrder = ci_SortOrder it, iv_Text = ci_Text it,
               iv_VerifyCommands = commandsForItem s (ci_ID it), iv_Done = False, iv_Evidence = [],
               iv_VerifiedBy = VerifierOther [], iv_VerifierReasoning = [], iv_CycleID = []\<rparr> in
      (case find_completion s taskID (ci_ID it) of
         None \<Rightarrow> v
       | Some d \<Rightarrow> v\<lparr>iv_Done := True, iv_Evidence := cp_Evidence d, iv_VerifiedBy := cp_VerifiedBy d,
                    iv_VerifierReasoning := cp_VerifierReasoning d, iv_CycleID := cp_CycleID d\<rparr>))"

definition Checklist_List :: "db \<Rightarrow> string \<Rightarrow> item_view list res" where
  "Checklist_List s taskID0 =
     (let taskID = trim_space taskID0 in
      if taskID = [] then Inl (ErrInvalidInput ''id'')
      else rbind (LoadTask s taskID) (\<lambda>_.
           rbind (DefinitionSourceTaskIDInTx s taskID) (\<lambda>defID.
           Inr (map (item_view_of s taskID) (itemsForDefinition s defID)))))"

definition ListForVerify :: "db \<Rightarrow> string \<Rightarrow> verify_item list res" where
  "ListForVerify s taskID0 =
     (let taskID = trim_space taskID0 in
      if taskID = [] then Inl (ErrInvalidInput ''id'')
      else rbind (LoadTask s taskID) (\<lambda>_.
           rbind (DefinitionSourceTaskIDInTx s taskID) (\<lambda>defID.
           Inr (map (\<lambda>it. \<lparr>vi_ID = ci_ID it, vi_Text = ci_Text it, vi_SourceTaskID = taskID,
                            vi_DefinitionTask = defID, vi_VerifyCommands = commandsForItem s (ci_ID it)\<rparr>)
                 (itemsForDefinition s defID)))))"

definition Checklist_Add ::
  "txenv \<Rightarrow> (nat \<Rightarrow> string) \<Rightarrow> db \<Rightarrow> string \<Rightarrow> string \<Rightarrow> verify_command_input list \<Rightarrow> actor \<Rightarrow> (db \<times> checklist_item) res" where
  "Checklist_Add env ids s taskID0 text0 verifyCommands by =
     rbind (ValidateActor by) (\<lambda>_.
     let text = trim_space text0 in
     if text = [] then Inl (ErrInvalidInput ''checklist text required'')
     else
     rbind (NormalizeVerifyCommandInputs verifyCommands) (\<lambda>cmds.
     let taskID = trim_space taskID0 in
     if taskID = [] then Inl (ErrInvalidInput ''id'')
     else
     rbind (LoadTask s taskID) (\<lambda>t.
     rbind (ValidateCriteriaMutable t) (\<lambda>_.
     let dit = \<lparr>ci_ID = tx_uuid env, ci_TaskID = taskID, ci_SortOrder = max_sort_order s taskID + 1, ci_Text = text\<rparr> in
     rbind (insert_item s dit) (\<lambda>s1.
     rbind (replaceCommandsInTx ids s1 (ci_ID dit) cmds) (\<lambda>s2.
     rbind (NextEventSeq s2 taskID) (\<lambda>seq.
     rbind (AppendEvent (tx_evnow env) s2 taskID seq EventChecklistItemAdded by (item_text_json (ci_ID dit) (ci_Text dit))) (\<lambda>s3.
     Inr (s3, dit)))))))))"

text \<open>Deleting a definition row cascades to its commands (foreign key) and completions (explicit).\<close>

definition delete_item_rows :: "db \<Rightarrow> string \<Rightarrow> db" where
  "delete_item_rows s itemID =
     s\<lparr>db_items := filter (\<lambda>i. ci_ID i \<noteq> itemID) (db_items s),
       db_commands := filter (\<lambda>c. cc_ItemID c \<noteq> itemID) (db_commands s)\<rparr>"

definition delete_completions_of_item :: "db \<Rightarrow> string \<Rightarrow> db" where
  "delete_completions_of_item s itemID =
     s\<lparr>db_completions := filter (\<lambda>c. cp_ItemID c \<noteq> itemID) (db_completions s)\<rparr>"

text \<open>\<open>reported\<close> are the item ids that rows of the report tables (\<^verbatim>\<open>task_cycle_criteria_reports\<close>,
  \<^verbatim>\<open>task_cycle_verify_reports\<close>, \<^verbatim>\<open>task_cycle_command_runs\<close>) reference: their foreign keys are NO ACTION, so the
  delete of a reported item is refused and the transaction undone.\<close>

definition Checklist_Delete :: "txenv \<Rightarrow> string list \<Rightarrow> db \<Rightarrow> string \<Rightarrow> string \<Rightarrow> actor \<Rightarrow> db res" where
  "Checklist_Delete env reported s taskID0 itemID0 by =
     rbind (ValidateActor by) (\<lambda>_.
     let taskID = trim_space taskID0; itemID = trim_space itemID0 in
     if taskID = [] \<or> itemID = [] then Inl (ErrInvalidInput ''id'')
     else
     rbind (LoadTask s taskID) (\<lambda>t.
     rbind (ValidateCriteriaMutable t) (\<lambda>_.
     rbind (loadItem s itemID taskID) (\<lambda>it.
     let doneCount = doneCountForItem s itemID in
     if criterionLockedByCompletion (task_Status t) doneCount
     then Inl (ErrInvalidInput ''cannot remove a criterion that has already been marked done'')
     else
     let s1 = (if 0 < doneCount then delete_completions_of_item s itemID else s) in
     rbind (NextEventSeq s1 taskID) (\<lambda>seq.
     rbind (AppendEvent (tx_evnow env) s1 taskID seq EventChecklistItemRemoved by (item_text_json itemID (ci_Text it))) (\<lambda>s2.
     if itemID \<in> set reported then Inl (ErrDB ''delete checklist item: fk_criterion'')
     else Inr (delete_item_rows s2 itemID)))))))"

definition Checklist_UpdateText :: "txenv \<Rightarrow> db \<Rightarrow> string \<Rightarrow> string \<Rightarrow> string \<Rightarrow> actor \<Rightarrow> db res" where
  "Checklist_UpdateText env s taskID0 itemID0 text0 by =
     rbind (ValidateActor by) (\<lambda>_.
     let taskID = trim_space taskID0; itemID = trim_space itemID0; text = trim_space text0 in
     if taskID = [] \<or> itemID = [] \<or> text = [] then Inl (ErrInvalidInput ''text'')
     else
     rbind (LoadTask s taskID) (\<lambda>t.
     rbind (ValidateCriteriaMutable t) (\<lambda>_.
     rbind (loadItem s itemID taskID) (\<lambda>it.
     if criterionLockedByCompletion (task_Status t) (doneCountForItem s itemID)
     then Inl (ErrInvalidInput ''cannot edit a criterion that has already been marked done'')
     else if ci_Text it = text then Inr s
     else
     let s1 = s\<lparr>db_items := update_where (\<lambda>i. ci_ID i = itemID) (\<lambda>i. i\<lparr>ci_Text := text\<rparr>) (db_items s)\<rparr> in
     rbind (NextEventSeq s1 taskID) (\<lambda>seq.
     AppendEvent (tx_evnow env) s1 taskID seq EventChecklistItemUpdated by (item_text_json itemID text))))))"

definition item_done_json :: "string \<Rightarrow> bool \<Rightarrow> payload" where
  "item_done_json itemID done = PDoc (JObj [(''item_id'', JStr itemID), (''done'', JBool done)])"

definition Checklist_SetDone :: "txenv \<Rightarrow> db \<Rightarrow> string \<Rightarrow> string \<Rightarrow> bool \<Rightarrow> actor \<Rightarrow> db res" where
  "Checklist_SetDone env s subject0 itemID0 done by =
     rbind (ValidateActor by) (\<lambda>_.
     if by \<noteq> ActorAgent then Inl (ErrInvalidInput ''only the agent may mark checklist items done or undone'')
     else
     let subject = trim_space subject0; itemID = trim_space itemID0 in
     if subject = [] \<or> itemID = [] then Inl (ErrInvalidInput ''id'')
     else
     rbind (LoadTask s subject) (\<lambda>_.
     rbind (DefinitionSourceTaskIDInTx s subject) (\<lambda>defOwner.
     rbind (loadItem s itemID defOwner) (\<lambda>_.
     let existing = find_completion s subject itemID in
     if (existing \<noteq> None) = done then Inr s
     else
     let s1 = (if done
               then s\<lparr>db_completions := db_completions s @
                      [\<lparr>cp_TaskID = subject, cp_ItemID = itemID, cp_At = tx_now env, cp_By = by, cp_Evidence = [],
                        cp_VerifiedBy = VerifierLegacy, cp_VerifierReasoning = [], cp_CycleID = []\<rparr>]\<rparr>
               else s\<lparr>db_completions := filter (\<lambda>c. \<not> (cp_TaskID c = subject \<and> cp_ItemID c = itemID)) (db_completions s)\<rparr>) in
     rbind (NextEventSeq s1 subject) (\<lambda>seq.
     rbind (AppendEvent (tx_evnow env) s1 subject seq EventChecklistItemToggled by (item_done_json itemID done)) (\<lambda>s2.
     rbind (syncCriteriaSatisfiedAtInTx (tx_now env) s2 subject) (\<lambda>r. Inr (fst r))))))))"

definition maxEvidenceBytes :: nat where "maxEvidenceBytes = 16 * 1024"
definition maxReasoningBytes :: nat where "maxReasoningBytes = 16 * 1024"

definition validateEvidencePayload :: "string \<Rightarrow> verifier_kind \<Rightarrow> string \<Rightarrow> unit res" where
  "validateEvidencePayload evidence verifier reasoning =
     (if \<not> ValidVerifierKind verifier then Inl (ErrInvalidInput ''invalid verified_by'')
      else if verifier \<noteq> VerifierLegacy \<and> trim_space evidence = [] then Inl (ErrInvalidInput ''evidence required'')
      else if maxEvidenceBytes < length evidence then Inl (ErrInvalidInput ''evidence too long'')
      else if maxReasoningBytes < length reasoning then Inl (ErrInvalidInput ''verifier_reasoning too long'')
      else Inr ())"

definition upsert_completion :: "checklist_completion \<Rightarrow> db \<Rightarrow> db" where
  "upsert_completion c s =
     (if find_completion s (cp_TaskID c) (cp_ItemID c) = None
      then s\<lparr>db_completions := db_completions s @ [c]\<rparr>
      else s\<lparr>db_completions := update_where (\<lambda>r. cp_TaskID r = cp_TaskID c \<and> cp_ItemID r = cp_ItemID c) (\<lambda>_. c)
               (db_completions s)\<rparr>)"

fun verifier_str :: "verifier_kind \<Rightarrow> string" where
  "verifier_str VerifierAgentSelf = ''agent_self''"
| "verifier_str VerifierVerifyAgent = ''verify_agent''"
| "verifier_str VerifierDeterministicCheck = ''deterministic_check''"
| "verifier_str VerifierHumanOverride = ''human_override''"
| "verifier_str VerifierLegacy = ''legacy''"
| "verifier_str (VerifierOther s) = s"

definition SetDoneWithEvidence ::
  "txenv \<Rightarrow> db \<Rightarrow> string \<Rightarrow> string \<Rightarrow> string \<Rightarrow> verifier_kind \<Rightarrow> string \<Rightarrow> string \<Rightarrow> actor \<Rightarrow>
   (db \<times> criteria_flag_change) res" where
  "SetDoneWithEvidence env s subject0 itemID0 evidence verifier reasoning cycleID by =
     rbind (ValidateActor by) (\<lambda>_.
     if by \<noteq> ActorAgent then Inl (ErrInvalidInput ''only the agent may mark checklist items done or undone'')
     else
     rbind (validateEvidencePayload evidence verifier reasoning) (\<lambda>_.
     let subject = trim_space subject0; itemID = trim_space itemID0 in
     if subject = [] \<or> itemID = [] then Inl (ErrInvalidInput ''id'')
     else
     rbind (LoadTask s subject) (\<lambda>_.
     rbind (DefinitionSourceTaskIDInTx s subject) (\<lambda>defOwner.
     rbind (loadItem s itemID defOwner) (\<lambda>_.
     let drow = \<lparr>cp_TaskID = subject, cp_ItemID = itemID, cp_At = tx_now env, cp_By = by, cp_Evidence = evidence,
                 cp_VerifiedBy = verifier, cp_VerifierReasoning = reasoning, cp_CycleID = trim_space cycleID\<rparr>;
         s1 = upsert_completion drow s in
     rbind (NextEventSeq s1 subject) (\<lambda>seq.
     rbind (AppendEvent (tx_evnow env) s1 subject seq EventChecklistItemToggled by
              (PDoc (JObj [(''item_id'', JStr itemID), (''done'', JBool True),
                           (''verified_by'', JStr (verifier_str verifier)), (''cycle_id'', JStr (cp_CycleID drow))]))) (\<lambda>s2.
     syncCriteriaSatisfiedAtInTx (tx_now env) s2 subject)))))))"

definition loadItemForCommandEdit :: "db \<Rightarrow> string \<Rightarrow> string \<Rightarrow> checklist_item res" where
  "loadItemForCommandEdit s taskID itemID =
     rbind (LoadTask s taskID) (\<lambda>t.
     rbind (ValidateCriteriaMutable t) (\<lambda>_.
     rbind (loadItem s itemID taskID) (\<lambda>it.
     if criterionLockedByCompletion (task_Status t) (doneCountForItem s itemID)
     then Inl (ErrInvalidInput ''cannot edit verify commands on a criterion that has already been marked done'')
     else Inr it)))"

definition ReplaceVerifyCommands ::
  "(nat \<Rightarrow> string) \<Rightarrow> db \<Rightarrow> string \<Rightarrow> string \<Rightarrow> verify_command_input list \<Rightarrow> actor \<Rightarrow> db res" where
  "ReplaceVerifyCommands ids s taskID0 itemID0 cmds by =
     rbind (ValidateActor by) (\<lambda>_.
     rbind (NormalizeVerifyCommandInputs cmds) (\<lambda>normalized.
     let taskID = trim_space taskID0; itemID = trim_space itemID0 in
     if taskID = [] \<or> itemID = [] then Inl (ErrInvalidInput ''id'')
     else rbind (loadItemForCommandEdit s taskID itemID) (\<lambda>_. replaceCommandsInTx ids s itemID normalized)))"

text \<open>Seeding at create: \<open>iid k\<close> and \<open>cid k i\<close> are the identifiers minted for the \<open>k\<close>-th criterion and
  its \<open>i\<close>-th command; \<open>maxOrder\<close> and \<open>seq\<close> are the loop variables.\<close>

fun seed_items ::
  "gotime \<Rightarrow> (nat \<Rightarrow> string) \<Rightarrow> (nat \<Rightarrow> nat \<Rightarrow> string) \<Rightarrow> nat \<Rightarrow> int \<Rightarrow> int \<Rightarrow> db \<Rightarrow> string \<Rightarrow>
   create_checklist_item_input list \<Rightarrow> actor \<Rightarrow> db res" where
  "seed_items at iid cid k maxOrder seq s taskID [] by = Inr s"
| "seed_items at iid cid k maxOrder seq s taskID (raw # items) by =
     (let text = trim_space (ccii_Text raw) in
      if text = [] then seed_items at iid cid (Suc k) maxOrder seq s taskID items by
      else
      rbind (NormalizeVerifyCommandInputs (ccii_VerifyCommands raw)) (\<lambda>cmds.
      let it = \<lparr>ci_ID = iid k, ci_TaskID = taskID, ci_SortOrder = maxOrder + 1, ci_Text = text\<rparr> in
      rbind (insert_item s it) (\<lambda>s1.
      rbind (if 0 < length cmds then replaceCommandsInTx (cid k) s1 (ci_ID it) cmds else Inr s1) (\<lambda>s2.
      rbind (AppendEvent at s2 taskID seq EventChecklistItemAdded by (item_text_json (ci_ID it) (ci_Text it))) (\<lambda>s3.
      seed_items at iid cid (Suc k) (maxOrder + 1) (seq + 1) s3 taskID items by)))))"

definition SeedDefinitionItemsAtCreateInTx ::
  "gotime \<Rightarrow> (nat \<Rightarrow> string) \<Rightarrow> (nat \<Rightarrow> nat \<Rightarrow> string) \<Rightarrow> db \<Rightarrow> string \<Rightarrow> create_checklist_item_input list \<Rightarrow> actor \<Rightarrow> db res" where
  "SeedDefinitionItemsAtCreateInTx at iid cid s taskID0 items by =
     rbind (ValidateActor by) (\<lambda>_.
     let taskID = trim_space taskID0 in
     if taskID = [] then Inl (ErrInvalidInput ''id'')
     else if length items = 0 then Inr s
     else
     rbind (LoadTask s taskID) (\<lambda>_.
     rbind (NextEventSeq s taskID) (\<lambda>seq.
     seed_items at iid cid 0 (max_sort_order s taskID) seq s taskID items by)))"

definition IsTaskCycleRunning :: "db \<Rightarrow> string \<Rightarrow> bool res" where
  "IsTaskCycleRunning s taskID =
     (if 0 < length (filter (\<lambda>c. cycle_TaskID c = taskID \<and> cycle_Status c = CycleStatusRunning) (db_cycles s))
      then Inr True
      else rbind (LoadTask s taskID) (\<lambda>_. Inr False))"

section \<open>The store invariant and its frame rules\<close>

definition refs_ok :: "db \<Rightarrow> bool" where
  "refs_ok s \<longleftrightarrow> (\<forall>c\<in>set (db_cycles s). cycle_TaskID c \<in> task_ID ` set (db_tasks s)) \<and>
     (\<forall>p\<in>set (db_phases s). ph_CycleID p \<in> cycle_ID ` set (db_cycles s)) \<and>
     (\<forall>e\<in>set (db_events s). ev_TaskID e \<in> task_ID ` set (db_tasks s)) \<and>
     (\<forall>e\<in>set (db_streams s). (se_CycleID e, se_TaskID e) \<in> (\<lambda>c. (cycle_ID c, cycle_TaskID c)) ` set (db_cycles s))"

definition store_ok :: "db \<Rightarrow> bool" where
  "store_ok s \<longleftrightarrow> cycles_ok s \<and> deps_ok s \<and> task_ids_ok s \<and> refs_ok s"

lemma store_okD:
  assumes "store_ok s"
  shows "cycles_ok s" "deps_ok s" "task_ids_ok s" "refs_ok s"
  using assms by (simp_all add: store_ok_def)

definition same_core :: "db \<Rightarrow> db \<Rightarrow> bool" where
  "same_core s s' \<longleftrightarrow> db_cycles s' = db_cycles s \<and> db_phases s' = db_phases s \<and> db_events s' = db_events s \<and>
     db_streams s' = db_streams s \<and> db_deps s' = db_deps s \<and> map task_ID (db_tasks s') = map task_ID (db_tasks s)"

lemma same_core_refl [simp]: "same_core s s"
  by (simp add: same_core_def)

lemma same_core_trans: "same_core s s' \<Longrightarrow> same_core s' s'' \<Longrightarrow> same_core s s''"
  by (simp add: same_core_def)

lemma same_core_task_ids: "same_core s s' \<Longrightarrow> task_ID ` set (db_tasks s') = task_ID ` set (db_tasks s)"
  unfolding same_core_def by (metis list.set_map)

lemma task_ids_ok_map: "map task_ID (db_tasks s') = map task_ID (db_tasks s) \<Longrightarrow> task_ids_ok s' = task_ids_ok s"
proof -
  assume eq: "map task_ID (db_tasks s') = map task_ID (db_tasks s)"
  have "task_ids_ok r \<longleftrightarrow> distinct (map task_ID (db_tasks r)) \<and>
      (\<forall>i\<in>set (map task_ID (db_tasks r)). trim_space i = i \<and> i \<noteq> [])" for r
    by (simp add: task_ids_ok_def)
  then show ?thesis using eq by metis
qed

lemma store_ok_same_core: "same_core s s' \<Longrightarrow> store_ok s \<Longrightarrow> store_ok s'"
  using cycles_ok_cong[of s' s] deps_ok_cong[of s' s] task_ids_ok_map[of s' s] same_core_task_ids[of s s']
  by (simp add: store_ok_def refs_ok_def same_core_def)

lemma store_ok_append_event:
  assumes "store_ok s" "NextEventSeq s t = Inr n" "AppendEvent now s t n typ by data = Inr s'"
  shows "store_ok s'"
proof -
  obtain e where e: "s' = s\<lparr>db_events := db_events s @ [e]\<rparr>" "ev_TaskID e = t" "t \<in> task_ID ` set (db_tasks s)"
    using assms(2,3) by (rule AppendEventD)
  have "deps_ok s'" "task_ids_ok s'" "refs_ok s'"
    using assms(1) deps_ok_cong[of s' s] task_ids_ok_map[of s' s] e by (simp_all add: store_ok_def refs_ok_def)
  then show ?thesis
    using cycles_ok_append_event[OF _ assms(2,3)] assms(1) by (simp add: store_ok_def)
qed

section \<open>Preservation\<close>

named_theorems frame \<open>operations that leave the core tables alone\<close>

lemma same_core_tables [frame]:
  "same_core s (s\<lparr>db_items := x\<rparr>)" "same_core s (s\<lparr>db_commands := y\<rparr>)" "same_core s (s\<lparr>db_completions := z\<rparr>)"
  "same_core s (s\<lparr>db_drafts := d\<rparr>)" "same_core s (s\<lparr>db_items := x, db_commands := y\<rparr>)"
  by (simp_all add: same_core_def)

lemma insert_item_frame: "insert_item s i = Inr s' \<Longrightarrow> same_core s s'"
  by (auto simp: insert_item_def same_core_def split: if_splits)

lemma insert_command_frame: "insert_command s c = Inr s' \<Longrightarrow> same_core s s'"
  by (auto simp: insert_command_def same_core_def split: if_splits)

lemma insert_commands_from_frame: "insert_commands_from ids i s itemID cs = Inr s' \<Longrightarrow> same_core s s'"
proof (induction cs arbitrary: i s)
  case (Cons c cs)
  then show ?case by (auto dest: insert_command_frame intro: same_core_trans)
qed simp

lemma replaceCommandsInTx_frame: "replaceCommandsInTx ids s itemID cmds = Inr s' \<Longrightarrow> same_core s s'"
  unfolding replaceCommandsInTx_def
  by (rule same_core_trans[OF same_core_tables(2)]) (rule insert_commands_from_frame)

lemma upsert_completion_frame [frame]: "same_core s (upsert_completion c s)"
  by (simp add: upsert_completion_def same_core_def)

lemma set_criteria_flag_frame [frame]: "same_core s (set_criteria_flag i v s)"
  by (simp add: set_criteria_flag_def same_core_def)

lemma sync_frame: "syncCriteriaSatisfiedAtInTx now s i = Inr (s', ch) \<Longrightarrow> same_core s s'"
  by (auto simp: syncCriteriaSatisfiedAtInTx_def Let_def set_criteria_flag_frame split: option.splits if_splits)

lemmas frame_dests = insert_item_frame insert_command_frame replaceCommandsInTx_frame sync_frame

lemma delete_rows_frame [frame]: "same_core s (delete_item_rows s i)" "same_core s (delete_completions_of_item s i)"
  by (simp_all add: delete_item_rows_def delete_completions_of_item_def frame)

lemma Checklist_Add_ok: "store_ok s \<Longrightarrow> Checklist_Add env ids s t x cmds by = Inr (s', it) \<Longrightarrow> store_ok s'"
  by (auto simp: Checklist_Add_def Let_def if_Inl_Inr_iff)
     (blast intro: store_ok_append_event store_ok_same_core same_core_trans dest: frame_dests)

lemma Checklist_Delete_ok:
  assumes ok: "store_ok s" and d: "Checklist_Delete env reported s t i by = Inr s'"
  shows "store_ok s'"
proof -
  from d obtain s1 n s2 pl where s1: "s1 = (if 0 < doneCountForItem s (trim_space i) then delete_completions_of_item s (trim_space i) else s)"
    and e: "NextEventSeq s1 (trim_space t) = Inr n"
      "AppendEvent (tx_evnow env) s1 (trim_space t) n EventChecklistItemRemoved by pl = Inr s2"
    and s': "s' = delete_item_rows s2 (trim_space i)"
    by (auto simp: Checklist_Delete_def Let_def if_Inl_Inr_iff)
  have "store_ok s1" using ok s1 store_ok_same_core delete_rows_frame(2) by auto
  then show ?thesis using store_ok_append_event[OF _ e] s' store_ok_same_core delete_rows_frame(1) by blast
qed

lemma Checklist_UpdateText_ok:
  assumes ok: "store_ok s" and u: "Checklist_UpdateText env s t i x by = Inr s'"
  shows "store_ok s'"
proof -
  from u consider "s' = s"
    | n x' where "NextEventSeq (s\<lparr>db_items := x'\<rparr>) (trim_space t) = Inr n"
      "AppendEvent (tx_evnow env) (s\<lparr>db_items := x'\<rparr>) (trim_space t) n EventChecklistItemUpdated by
         (item_text_json (trim_space i) (trim_space x)) = Inr s'"
    by (auto simp: Checklist_UpdateText_def Let_def if_Inl_Inr_iff split: if_splits)
  then show ?thesis
    by cases (use ok in \<open>auto intro: store_ok_append_event store_ok_same_core[OF same_core_tables(1)]\<close>)
qed

lemma Checklist_SetDone_ok:
  assumes ok: "store_ok s" and u: "Checklist_SetDone env s t i done by = Inr s'"
  shows "store_ok s'"
proof -
  from u consider "s' = s"
    | n x' s2 ch where "NextEventSeq (s\<lparr>db_completions := x'\<rparr>) (trim_space t) = Inr n"
      "AppendEvent (tx_evnow env) (s\<lparr>db_completions := x'\<rparr>) (trim_space t) n EventChecklistItemToggled by
         (item_done_json (trim_space i) done) = Inr s2"
      "syncCriteriaSatisfiedAtInTx (tx_now env) s2 (trim_space t) = Inr (s', ch)"
    by (auto simp: Checklist_SetDone_def Let_def if_Inl_Inr_iff split: if_splits)
  then show ?thesis
    by cases (use ok in \<open>blast intro: store_ok_append_event store_ok_same_core[OF same_core_tables(3)]
      store_ok_same_core[OF sync_frame]\<close>)+
qed

lemma SetDoneWithEvidenceE:
  assumes "SetDoneWithEvidence env s t i ev v r c by = Inr (s', ch)"
  obtains drow n s2 pl where "by = ActorAgent" "validateEvidencePayload ev v r = Inr ()"
    "trim_space t \<in> task_ID ` set (db_tasks s)"
    "NextEventSeq (upsert_completion drow s) (trim_space t) = Inr n"
    "AppendEvent (tx_evnow env) (upsert_completion drow s) (trim_space t) n EventChecklistItemToggled by pl = Inr s2"
    "syncCriteriaSatisfiedAtInTx (tx_now env) s2 (trim_space t) = Inr (s', ch)"
    "cp_TaskID drow = trim_space t" "cp_ItemID drow = trim_space i" "cp_Evidence drow = ev" "cp_VerifiedBy drow = v"
  using assms by (clarsimp simp: SetDoneWithEvidence_def Let_def if_Inl_Inr_iff) (fastforce dest: LoadTask_mem)

lemma SetDoneWithEvidence_ok:
  "store_ok s \<Longrightarrow> SetDoneWithEvidence env s t i ev v r c by = Inr (s', ch) \<Longrightarrow> store_ok s'"
  by (elim SetDoneWithEvidenceE)
     (blast intro: store_ok_append_event store_ok_same_core[OF upsert_completion_frame] store_ok_same_core[OF sync_frame])

lemma ReplaceVerifyCommands_ok: "store_ok s \<Longrightarrow> ReplaceVerifyCommands ids s t i cmds by = Inr s' \<Longrightarrow> store_ok s'"
  by (auto simp: ReplaceVerifyCommands_def Let_def if_Inl_Inr_iff)
     (blast intro: store_ok_same_core dest: replaceCommandsInTx_frame)

text \<open>The sequence number threaded through a loop is the next one at every append.\<close>

lemma AppendEvent_next:
  assumes "NextEventSeq s t = Inr n" "AppendEvent now s t n typ by data = Inr s'" "store_ok s"
  shows "NextEventSeq s' t = Inr (n + 1)"
proof -
  let ?xs = "map ev_Seq (filter (\<lambda>e. ev_TaskID e = t) (db_events s))"
  obtain e where e: "s' = s\<lparr>db_events := db_events s @ [e]\<rparr>" "ev_TaskID e = t" "t \<in> task_ID ` set (db_tasks s)"
    "ev_Seq e = coalesce_max ?xs + 1" "n = ev_Seq e"
    using assms(1,2) by (rule AppendEventD)
  have "coalesce_max (?xs @ [coalesce_max ?xs + 1]) = coalesce_max ?xs + 1" by (rule coalesce_max_snoc)
  then show ?thesis using e by (simp add: NextEventSeq_def image_iff)
qed

lemma NextEventSeq_same_core: "same_core s s' \<Longrightarrow> NextEventSeq s' t = NextEventSeq s t"
  using same_core_task_ids[of s s'] by (simp add: NextEventSeq_def same_core_def)

lemma seed_items_ok:
  "store_ok s \<Longrightarrow> NextEventSeq s t = Inr n \<Longrightarrow> seed_items at iid cid k m n s t items by = Inr s' \<Longrightarrow>
   store_ok s' \<and> (\<exists>n'. NextEventSeq s' t = Inr n')"
proof (induction items arbitrary: k m n s)
  case Nil
  then show ?case by simp
next
  case (Cons raw items)
  show ?case
  proof (cases "trim_space (ccii_Text raw) = []")
    case True
    then show ?thesis using Cons by simp
  next
    case False
    with Cons.prems(3) obtain cmds s1 s2 s3 it where i: "insert_item s it = Inr s1"
      and r: "(if 0 < length cmds then replaceCommandsInTx (cid k) s1 (ci_ID it) cmds else Inr s1) = Inr s2"
      and e: "AppendEvent at s2 t n EventChecklistItemAdded by (item_text_json (ci_ID it) (ci_Text it)) = Inr s3"
      and rest: "seed_items at iid cid (Suc k) (m + 1) (n + 1) s3 t items by = Inr s'"
      by (auto simp: Let_def)
    have core: "same_core s s2" using i r by (auto dest: frame_dests intro: same_core_trans split: if_splits)
    have ok2: "store_ok s2" and n2: "NextEventSeq s2 t = Inr n"
      using core Cons.prems(1,2) store_ok_same_core NextEventSeq_same_core by auto
    show ?thesis
      by (rule Cons.IH[OF store_ok_append_event[OF ok2 n2 e] AppendEvent_next[OF n2 e ok2] rest])
  qed
qed

lemma Seed_ok: "store_ok s \<Longrightarrow> SeedDefinitionItemsAtCreateInTx at iid cid s t items by = Inr s' \<Longrightarrow> store_ok s'"
  by (auto simp: SeedDefinitionItemsAtCreateInTx_def Let_def if_Inl_Inr_iff dest: seed_items_ok split: if_splits)

section \<open>Properties\<close>

text \<open>A completion counts when its verifier is known and, unless it is a legacy row, it carries
  evidence. A checklist is complete when every criterion of the task has such a completion.\<close>

definition completion_valid :: "checklist_completion \<Rightarrow> bool" where
  "completion_valid c \<longleftrightarrow> ValidVerifierKind (cp_VerifiedBy c) \<and>
     (cp_VerifiedBy c = VerifierLegacy \<or> trim_space (cp_Evidence c) \<noteq> [])"

definition checklist_complete :: "db \<Rightarrow> string \<Rightarrow> bool" where
  "checklist_complete s t \<longleftrightarrow>
     (\<forall>i\<in>set (db_items s). ci_TaskID i = t \<longrightarrow>
        (\<exists>c. find_completion s t (ci_ID i) = Some c \<and> completion_valid c))"

lemma check_items_complete_iff:
  "check_items_complete s t items = Inr () \<longleftrightarrow>
   (\<forall>i\<in>set items. \<exists>c. find_completion s t (ci_ID i) = Some c \<and> completion_valid c)"
  by (induction items) (auto simp: completion_valid_def split: option.splits)

lemma DefinitionSource_Inr:
  "i \<in> task_ID ` set (db_tasks s) \<Longrightarrow> trim_space i = i \<Longrightarrow> i \<noteq> [] \<Longrightarrow> DefinitionSourceTaskIDInTx s i = Inr i"
  by (auto simp: DefinitionSourceTaskIDInTx_def filter_empty_conv)

lemma validateChecklistComplete_iff:
  assumes "t \<in> task_ID ` set (db_tasks s)" "trim_space t = t" "t \<noteq> []"
  shows "validateChecklistCompleteInTx s t = Inr () \<longleftrightarrow> checklist_complete s t"
proof -
  have set: "set (itemsForDefinition s t) = {i \<in> set (db_items s). ci_TaskID i = t}"
    by (auto simp: itemsForDefinition_def)
  have "validateChecklistCompleteInTx s t = check_items_complete s t (itemsForDefinition s t)"
    unfolding validateChecklistCompleteInTx_def DefinitionSource_Inr[OF assms] rbind_simps Let_def by simp
  then show ?thesis
    using check_items_complete_iff[of s t "itemsForDefinition s t"] unfolding checklist_complete_def set by auto
qed

lemma store_ok_task_id:
  assumes "store_ok s" "t \<in> task_ID ` set (db_tasks s)"
  shows "trim_space t = t" "t \<noteq> []"
  using assms by (auto simp: store_ok_def task_ids_ok_def)

text \<open>The guard in front of status "done" holds exactly when the checklist is complete: it lets a
  task through if and only if every one of its criteria has a completion row by a known verifier that
  carries evidence (legacy rows excepted). A task without criteria passes.\<close>

theorem done_guard_iff_complete:
  assumes "store_ok s" "t \<in> task_ID ` set (db_tasks s)"
  shows "ValidateCanMarkDoneInTx s t = Inr () \<longleftrightarrow> checklist_complete s t"
  unfolding ValidateCanMarkDoneInTx_def
  by (rule validateChecklistComplete_iff[OF assms(2) store_ok_task_id[OF assms]])

definition sample_item :: checklist_item where
  "sample_item = \<lparr>ci_ID = ''i'', ci_TaskID = ''t'', ci_SortOrder = 1, ci_Text = ''works''\<rparr>"

definition sample_check_db :: db where
  "sample_check_db = sample_db\<lparr>db_items := [sample_item]\<rparr>"

lemma sample_check_db_ok: "store_ok sample_check_db"
proof -
  have "acyclic ({} :: (string \<times> string) set)" by (simp add: wf_acyclic)
  moreover have "cycles_ok sample_check_db"
    using sample_dbs_ok(1) cycles_ok_cong[of sample_check_db sample_db] by (simp add: sample_check_db_def)
  ultimately show ?thesis
    by (simp add: store_ok_def deps_ok_def task_ids_ok_def refs_ok_def dep_edges_def sample_check_db_def sample_defs)
qed

theorem done_guard_iff_complete_witness:
  "ValidateCanMarkDoneInTx sample_check_db ''t'' \<noteq> Inr () \<and> \<not> checklist_complete sample_check_db ''t''"
proof -
  have "\<not> checklist_complete sample_check_db ''t''"
    by (simp add: checklist_complete_def sample_check_db_def sample_item_def find_completion_def sample_defs)
  moreover have "''t'' \<in> task_ID ` set (db_tasks sample_check_db)" by (simp add: sample_check_db_def sample_defs)
  ultimately show ?thesis using done_guard_iff_complete[OF sample_check_db_ok] by blast
qed

lemma find_task_unique:
  assumes "store_ok s" "t \<in> set (db_tasks s)"
  shows "List.find (\<lambda>x. task_ID x = task_ID t) (db_tasks s) = Some t"
proof -
  have "LoadTask s (task_ID t) = Inr t" using LoadTask_unique store_okD(3)[OF assms(1)] assms(2) by blast
  then show ?thesis by (auto simp: LoadTask_def split: option.splits)
qed

lemma set_criteria_flag_complete [simp]: "checklist_complete (set_criteria_flag i v s) t = checklist_complete s t"
  by (simp add: checklist_complete_def set_criteria_flag_def find_completion_def)

lemma sync_flag:
  assumes ok: "store_ok s" and t: "i \<in> task_ID ` set (db_tasks s)"
    and y: "syncCriteriaSatisfiedAtInTx now s i = Inr (s', ch)"
  shows "\<forall>t\<in>set (db_tasks s'). task_ID t = i \<longrightarrow> (task_CriteriaSatisfiedAt t \<noteq> None) = checklist_complete s' i"
proof -
  obtain x where x: "x \<in> set (db_tasks s)" "i = task_ID x" using t by blast
  have f: "List.find (\<lambda>t. task_ID t = i) (db_tasks s) = Some x" using find_task_unique[OF ok x(1)] x(2) by simp
  have uniq: "u = x" if "u \<in> set (db_tasks s)" "task_ID u = i" for u
    using distinct_map_eq[OF task_ids_okD[OF store_okD(3)[OF ok]] that(1) x(1)] that(2) x(2) by simp
  have c: "IsChecklistCompleteInTx s i = checklist_complete s i"
    using validateChecklistComplete_iff[OF t store_ok_task_id[OF ok t]]
    by (auto simp: IsChecklistCompleteInTx_def split: sum.splits)
  have flag: "\<forall>t\<in>set (db_tasks (set_criteria_flag i v s)). task_ID t = i \<longrightarrow> task_CriteriaSatisfiedAt t = v" for v
    by (simp add: set_criteria_flag_def ball_update_where)
  let ?was = "task_CriteriaSatisfiedAt x \<noteq> None"
  consider (set) "checklist_complete s i" "\<not> ?was" "s' = set_criteria_flag i (Some now) s"
    | (clear) "\<not> checklist_complete s i" "?was" "s' = set_criteria_flag i None s"
    | (keep) "checklist_complete s i = ?was" "s' = s"
    using y unfolding syncCriteriaSatisfiedAtInTx_def f option.case Let_def c
    by (cases "checklist_complete s i"; cases ?was; simp)
  then show ?thesis
  proof cases
    case keep
    then show ?thesis using uniq by metis
  qed (use flag in auto)
qed

text \<open>A completion written with evidence leaves the cached flag of the task in agreement with
  its checklist: \<^verbatim>\<open>criteria_satisfied_at\<close> is set exactly when every criterion is completed. Only the
  agent can write it, and only with a known verifier and (unless legacy) evidence of bounded size.\<close>

theorem evidence_write_syncs_flag:
  assumes "store_ok s" "SetDoneWithEvidence env s t i ev v r c by = Inr (s', ch)"
  shows "(\<forall>x\<in>set (db_tasks s'). task_ID x = trim_space t \<longrightarrow>
            (task_CriteriaSatisfiedAt x \<noteq> None) = checklist_complete s' (trim_space t)) \<and>
         by = ActorAgent \<and> ValidVerifierKind v \<and> (v = VerifierLegacy \<or> trim_space ev \<noteq> []) \<and>
         length ev \<le> 16384 \<and> length r \<le> 16384"
proof -
  from assms(2) obtain drow n s2 pl where a: "by = ActorAgent" "validateEvidencePayload ev v r = Inr ()"
    "trim_space t \<in> task_ID ` set (db_tasks s)"
    "NextEventSeq (upsert_completion drow s) (trim_space t) = Inr n"
    "AppendEvent (tx_evnow env) (upsert_completion drow s) (trim_space t) n EventChecklistItemToggled by pl = Inr s2"
    "syncCriteriaSatisfiedAtInTx (tx_now env) s2 (trim_space t) = Inr (s', ch)"
    by (elim SetDoneWithEvidenceE)
  have ok2: "store_ok s2"
    using store_ok_append_event[OF _ a(4,5)] store_ok_same_core[OF upsert_completion_frame assms(1)] by blast
  have "trim_space t \<in> task_ID ` set (db_tasks s2)"
    using a(3) AppendEvent_audited(5)[OF a(4,5)] same_core_task_ids[OF upsert_completion_frame[of s drow]] by simp
  then show ?thesis
    using sync_flag[OF ok2 _ a(6)] a(1,2)
    by (auto simp: validateEvidencePayload_def maxEvidenceBytes_def maxReasoningBytes_def split: if_splits)
qed

definition sample_evidence_write :: "(db \<times> criteria_flag_change) res" where
  "sample_evidence_write = SetDoneWithEvidence (sample_env ''x'') sample_check_db ''t'' ''i'' ''seen''
     VerifierVerifyAgent [] [] ActorAgent"

lemma sample_evidence_write_succeeds:
  "case sample_evidence_write of Inl _ \<Rightarrow> False | Inr (s', ch) \<Rightarrow> cfc_BecameComplete ch \<and>
     map task_CriteriaSatisfiedAt (db_tasks s') = [Some 10]"
  by code_simp

theorem evidence_write_syncs_flag_witness:
  "\<exists>s' ch. sample_evidence_write = Inr (s', ch) \<and>
     (\<forall>x\<in>set (db_tasks s'). task_ID x = trim_space ''t'' \<longrightarrow>
        (task_CriteriaSatisfiedAt x \<noteq> None) = checklist_complete s' (trim_space ''t''))"
proof -
  obtain s' ch where r: "sample_evidence_write = Inr (s', ch)"
    using sample_evidence_write_succeeds by (auto split: sum.splits)
  then show ?thesis
    using evidence_write_syncs_flag[OF sample_check_db_ok] unfolding sample_evidence_write_def by blast
qed

definition criterion_editable :: "db \<Rightarrow> string \<Rightarrow> string \<Rightarrow> bool" where
  "criterion_editable s t i \<longleftrightarrow>
     (\<exists>x. LoadTask s t = Inr x \<and> task_Status x \<noteq> StatusRunning \<and>
        (doneCountForItem s i = 0 \<or> task_Status x = StatusDone))"

text \<open>Criteria are locked while the agent works and once they are satisfied: no criterion is
  added, removed, reworded or given other commands while its task is running, an existing one is
  touched only if nobody has completed it or the task is already done, and a removed criterion takes
  its completions and commands with it.\<close>

theorem criteria_locks:
  "(case Checklist_Add env ids s t x cmds by of Inl _ \<Rightarrow> True
    | Inr (s', it) \<Rightarrow> (\<exists>k. LoadTask s (trim_space t) = Inr k \<and> task_Status k \<noteq> StatusRunning)) \<and>
   (case Checklist_Delete env rep s t i by of Inl _ \<Rightarrow> True
    | Inr s' \<Rightarrow> criterion_editable s (trim_space t) (trim_space i) \<and>
        trim_space i \<notin> ci_ID ` set (db_items s') \<union> cc_ItemID ` set (db_commands s') \<union> cp_ItemID ` set (db_completions s')) \<and>
   (case Checklist_UpdateText env s t i x by of Inl _ \<Rightarrow> True
    | Inr s' \<Rightarrow> criterion_editable s (trim_space t) (trim_space i)) \<and>
   (case ReplaceVerifyCommands ids s t i cmds by of Inl _ \<Rightarrow> True
    | Inr s' \<Rightarrow> criterion_editable s (trim_space t) (trim_space i))"
proof (intro conjI)
  have lock: "criterionLockedByCompletion st n = (n \<noteq> 0 \<and> st \<noteq> StatusDone)" for st n
    by (simp add: criterionLockedByCompletion_def)
  have mut: "ValidateCriteriaMutable k = Inr u \<longleftrightarrow> task_Status k \<noteq> StatusRunning" for k u
    by (simp add: ValidateCriteriaMutable_def)
  show "case Checklist_Add env ids s t x cmds by of Inl _ \<Rightarrow> True
    | Inr (s', it) \<Rightarrow> (\<exists>k. LoadTask s (trim_space t) = Inr k \<and> task_Status k \<noteq> StatusRunning)"
    by (auto simp: Checklist_Add_def Let_def if_Inl_Inr_iff mut split: sum.split)
  show "case Checklist_UpdateText env s t i x by of Inl _ \<Rightarrow> True
    | Inr s' \<Rightarrow> criterion_editable s (trim_space t) (trim_space i)"
    by (auto simp: Checklist_UpdateText_def Let_def if_Inl_Inr_iff mut lock criterion_editable_def split: sum.split)
  show "case ReplaceVerifyCommands ids s t i cmds by of Inl _ \<Rightarrow> True
    | Inr s' \<Rightarrow> criterion_editable s (trim_space t) (trim_space i)"
    by (auto simp: ReplaceVerifyCommands_def loadItemForCommandEdit_def Let_def if_Inl_Inr_iff mut lock
        criterion_editable_def split: sum.split)
  show "case Checklist_Delete env rep s t i by of Inl _ \<Rightarrow> True
    | Inr s' \<Rightarrow> criterion_editable s (trim_space t) (trim_space i) \<and>
        trim_space i \<notin> ci_ID ` set (db_items s') \<union> cc_ItemID ` set (db_commands s') \<union> cp_ItemID ` set (db_completions s')"
  proof (cases "Checklist_Delete env rep s t i by")
    case (Inr s')
    let ?i = "trim_space i"
    from Inr obtain k s1 n s2 pl where k: "LoadTask s (trim_space t) = Inr k" "task_Status k \<noteq> StatusRunning"
      "\<not> (doneCountForItem s ?i \<noteq> 0 \<and> task_Status k \<noteq> StatusDone)"
      and s1: "s1 = (if 0 < doneCountForItem s ?i then delete_completions_of_item s ?i else s)"
      and e: "NextEventSeq s1 (trim_space t) = Inr n"
        "AppendEvent (tx_evnow env) s1 (trim_space t) n EventChecklistItemRemoved by pl = Inr s2"
      and s': "s' = delete_item_rows s2 ?i"
      by (auto simp: Checklist_Delete_def Let_def if_Inl_Inr_iff mut lock)
    have "?i \<notin> cp_ItemID ` set (db_completions s1)"
      by (auto simp: s1 delete_completions_of_item_def doneCountForItem_def filter_empty_conv)
    then have "?i \<notin> cp_ItemID ` set (db_completions s')"
      using AppendEvent_audited(9)[OF e] s' by (simp add: delete_item_rows_def)
    then show ?thesis using Inr k s' by (auto simp: criterion_editable_def delete_item_rows_def)
  qed simp
qed

definition command_ok :: "verify_command_input \<Rightarrow> bool" where
  "command_ok c \<longleftrightarrow> vci_Command c \<noteq> [] \<and> length (vci_Command c) \<le> 512 \<and> length (vci_ExpectedOutcome c) \<le> 2048 \<and>
     trim_space (vci_Command c) = vci_Command c \<and> trim_space (vci_ExpectedOutcome c) = vci_ExpectedOutcome c"

lemma normalizeVerifyCommands_from_ok:
  "list_all command_ok out \<Longrightarrow> normalizeVerifyCommands_from out inp = Inr res \<Longrightarrow> list_all command_ok res \<and> length res \<le> 5"
proof (induction out inp arbitrary: res rule: normalizeVerifyCommands_from.induct)
  case (1 out)
  then show ?case by (auto simp: MaxVerifyCommandsPerItem_def split: if_splits)
next
  case (2 out raw rest)
  then show ?case
    by (auto simp: Let_def command_ok_def MaxVerifyCommandLen_def MaxVerifyExpectedOutcomeLen_def split: if_splits)
qed

text \<open>Accepted verify commands respect the limits of the domain: at most five per criterion,
  none blank, commands of at most 512 and outcomes of at most 2048 bytes, all trimmed.\<close>

theorem verify_commands_bounded:
  "case NormalizeVerifyCommandInputs cmds of Inl _ \<Rightarrow> True
   | Inr out \<Rightarrow> length out \<le> 5 \<and> list_all command_ok out"
  using normalizeVerifyCommands_from_ok[of "[]" cmds]
  by (auto simp: NormalizeVerifyCommandInputs_def split: sum.split)

text \<open>The cached flag can go stale: appending a criterion to a completed checklist does not clear
  it, although the checklist is no longer complete.\<close>

theorem add_leaves_criteria_flag_stale:
  "case sample_evidence_write of Inl _ \<Rightarrow> False
   | Inr (s1, _) \<Rightarrow>
      (case Checklist_Add (sample_env ''p'') (\<lambda>_. []) s1 ''t'' ''c'' [] ActorUser of Inl _ \<Rightarrow> False
       | Inr (s2, it) \<Rightarrow> map task_CriteriaSatisfiedAt (db_tasks s2) = [Some 10] \<and>
           ci_TaskID it = ''t'' \<and> it \<in> set (db_items s2) \<and> find_completion s2 ''t'' (ci_ID it) = None)"
  by code_simp

end
