(* ===== verification/Store_Tasks.thy ===== *)
theory Store_Tasks
  imports Checklist
begin

text \<open>
  \<^verbatim>\<open>pkgs/tasks/store/internal/tasks\<close>: creating, patching, deleting and listing tasks, the worker's
  atomic pickup, the operator's retry request and gate actions. Each operation is one transaction.
  A patch threads the database, the current row and the next audit sequence number.
\<close>

section \<open>Inputs (types.go, retry_request.go, agent_pickup.go)\<close>

record create_input =
  cin_ID :: string
  cin_DraftID :: string
  cin_Title :: string
  cin_InitialPrompt :: string
  cin_Status :: status
  cin_Priority :: priority
  cin_ProjectID :: "string option"
  cin_ProjectContextItemIDs :: "string list"
  cin_Runner :: string
  cin_CursorModel :: string
  cin_PickupNotBefore :: "gotime option"
  cin_Tags :: "string list"
  cin_Milestone :: "string option"
  cin_Gate :: "task_gate option"
  cin_DependsOn :: "dependency_edge list"
  cin_ChecklistItems :: "create_checklist_item_input list"
  cin_WorktreeID :: "string option"

record pickup_not_before_patch =
  pnb_Clear :: bool
  pnb_At :: gotime

record project_field_patch =
  pfp_Clear :: bool
  pfp_ID :: string

record update_input =
  uin_Title :: "string option"
  uin_InitialPrompt :: "string option"
  uin_Status :: "status option"
  uin_Priority :: "priority option"
  uin_Project :: "project_field_patch option"
  uin_ProjectContextItemIDs :: "string list option"
  uin_PickupNotBefore :: "pickup_not_before_patch option"
  uin_CursorModel :: "string option"
  uin_Tags :: "string list option"
  uin_Milestone :: "string option"
  uin_Gate :: "task_gate option option"
  uin_DependsOn :: "dependency_edge list option"
  uin_PendingRetry :: "pending_retry option"
  uin_ClearPendingRetry :: bool
  uin_WorktreeID :: "string option"

record request_retry_input =
  rri_TaskID :: string
  rri_Mode :: retry_mode
  rri_ParentCycleID :: string

record agent_pickup_result =
  apr_Task :: task
  apr_ConsumedRetry :: "pending_retry option"

section \<open>Rows\<close>

text \<open>\<^verbatim>\<open>FromDomainTask\<close> keeps the columns only: dependencies and the creation instant are hydrated.\<close>

definition row_of :: "task \<Rightarrow> task" where
  "row_of t = t\<lparr>task_DependsOn := [], task_CreatedAt := None\<rparr>"

definition save_task :: "db \<Rightarrow> task \<Rightarrow> db" where
  "save_task s t = s\<lparr>db_tasks := update_where (\<lambda>r. task_ID r = task_ID t) (\<lambda>_. row_of t) (db_tasks s)\<rparr>"

definition normalizeOptionalID :: "string option \<Rightarrow> string option" where
  "normalizeOptionalID i =
     (case i of None \<Rightarrow> None | Some v0 \<Rightarrow> let v = trim_space v0 in if v = [] then None else Some v)"

section \<open>Project context selection (project_context_selection.go)\<close>

definition maxSelectedProjectContextItems :: nat where "maxSelectedProjectContextItems = 20"

fun normalizeContextIDs_from :: "string list \<Rightarrow> string list \<Rightarrow> string list \<Rightarrow> string list res" where
  "normalizeContextIDs_from seen out [] = Inr out"
| "normalizeContextIDs_from seen out (value # raw) =
     (let i = trim_space value in
      if i = [] then Inl (ErrInvalidInput ''project_context_item_ids contains empty id'')
      else if i \<in> set seen then normalizeContextIDs_from seen out raw
      else normalizeContextIDs_from (i # seen) (out @ [i]) raw)"

definition normalizeProjectContextItemIDs :: "string list \<Rightarrow> string list res" where
  "normalizeProjectContextItemIDs raw =
     (if maxSelectedProjectContextItems < length raw then Inl (ErrInvalidInput ''project_context_item_ids max'')
      else normalizeContextIDs_from [] [] raw)"

definition validateProjectContextSelection :: "db \<Rightarrow> string \<Rightarrow> string list \<Rightarrow> unit res" where
  "validateProjectContextSelection s projectID ids =
     (if length (filter (\<lambda>c. pci_ProjectID c = trim_space projectID \<and> pci_ID c \<in> set ids) (db_context_items s)) \<noteq> length ids
      then Inl (ErrInvalidInput ''project context item not found'') else Inr ())"

definition active_project :: "db \<Rightarrow> string \<Rightarrow> bool" where
  "active_project s pid =
     (0 < length (filter (\<lambda>p. proj_ID p = pid \<and> proj_Status p = ProjectStatusActive) (db_projects s)))"

definition check_context_selection :: "db \<Rightarrow> string option \<Rightarrow> string list \<Rightarrow> unit res" where
  "check_context_selection s projectID contextIDs =
     (if 0 < length contextIDs
      then (case projectID of
              None \<Rightarrow> Inl (ErrInvalidInput ''project_id required for project context selection'')
            | Some p \<Rightarrow> if trim_space p = []
                        then Inl (ErrInvalidInput ''project_id required for project context selection'')
                        else validateProjectContextSelection s p contextIDs)
      else Inr ())"

section \<open>Patches (patches.go, task_model_patches.go)\<close>

type_synonym patch_state = "db \<times> task \<times> int"

definition append_patch_event ::
  "gotime \<Rightarrow> string \<Rightarrow> actor \<Rightarrow> event_type \<Rightarrow> string \<Rightarrow> string \<Rightarrow> (task \<Rightarrow> task) \<Rightarrow> patch_state \<Rightarrow> patch_state res" where
  "append_patch_event at taskID by typ from_s to_s upd st =
     (case st of (s, cur, seq) \<Rightarrow>
        rbind (AppendEvent at s taskID seq typ by (EventPairJSON from_s to_s)) (\<lambda>s'. Inr (s', upd cur, seq + 1)))"

definition applyTitlePatch :: "gotime \<Rightarrow> string \<Rightarrow> actor \<Rightarrow> string option \<Rightarrow> patch_state \<Rightarrow> patch_state res" where
  "applyTitlePatch at taskID by title st =
     (case title of
        None \<Rightarrow> Inr st
      | Some v0 \<Rightarrow>
          let v = trim_space v0; cur = fst (snd st) in
          if v = [] then Inl (ErrInvalidInput ''title'')
          else if v = task_Title cur then Inr st
          else append_patch_event at taskID by EventMessageAdded (task_Title cur) v (\<lambda>t. t\<lparr>task_Title := v\<rparr>) st)"

definition applyInitialPromptPatch :: "gotime \<Rightarrow> string \<Rightarrow> actor \<Rightarrow> string option \<Rightarrow> patch_state \<Rightarrow> patch_state res" where
  "applyInitialPromptPatch at taskID by prompt st =
     (case prompt of
        None \<Rightarrow> Inr st
      | Some v \<Rightarrow>
          let cur = fst (snd st) in
          if v = task_InitialPrompt cur then Inr st
          else append_patch_event at taskID by EventPromptAppended (task_InitialPrompt cur) v
                 (\<lambda>t. t\<lparr>task_InitialPrompt := v\<rparr>) st)"

definition applyPriorityPatch :: "gotime \<Rightarrow> string \<Rightarrow> actor \<Rightarrow> priority option \<Rightarrow> patch_state \<Rightarrow> patch_state res" where
  "applyPriorityPatch at taskID by pr st =
     (case pr of
        None \<Rightarrow> Inr st
      | Some p \<Rightarrow>
          let cur = fst (snd st) in
          if \<not> ValidPriority p then Inl (ErrInvalidInput ''priority'')
          else if p = task_Priority cur then Inr st
          else append_patch_event at taskID by EventPriorityChanged (priority_str (task_Priority cur)) (priority_str p)
                 (\<lambda>t. t\<lparr>task_Priority := p\<rparr>) st)"

definition applyProjectPatch :: "project_field_patch option \<Rightarrow> patch_state \<Rightarrow> patch_state res" where
  "applyProjectPatch project st =
     (case (project, st) of
        (None, _) \<Rightarrow> Inr st
      | (Some p, (s, cur, seq)) \<Rightarrow>
          if pfp_Clear p then Inr (s, cur\<lparr>task_ProjectID := None, task_ProjectContextItemIDs := []\<rparr>, seq)
          else let pid = trim_space (pfp_ID p) in
          if pid = [] then Inl (ErrInvalidInput ''project_id'')
          else if \<not> active_project s pid then Inl (ErrInvalidInput ''project not found'')
          else Inr (s, cur\<lparr>task_ProjectID := Some pid, task_ProjectContextItemIDs := []\<rparr>, seq))"

definition applyProjectContextSelectionPatch :: "string list option \<Rightarrow> patch_state \<Rightarrow> patch_state res" where
  "applyProjectContextSelectionPatch ids st =
     (case (ids, st) of
        (None, _) \<Rightarrow> Inr st
      | (Some raw, (s, cur, seq)) \<Rightarrow>
          rbind (normalizeProjectContextItemIDs raw) (\<lambda>contextIDs.
          rbind (check_context_selection s (task_ProjectID cur) contextIDs) (\<lambda>_.
          Inr (s, cur\<lparr>task_ProjectContextItemIDs := contextIDs\<rparr>, seq))))"

definition applyStatusPatch :: "gotime \<Rightarrow> string \<Rightarrow> actor \<Rightarrow> status option \<Rightarrow> patch_state \<Rightarrow> patch_state res" where
  "applyStatusPatch at taskID by sp st =
     (case sp of
        None \<Rightarrow> Inr st
      | Some v \<Rightarrow>
          let cur = fst (snd st) in
          if \<not> ValidStatus v then Inl (ErrInvalidInput ''status'')
          else if v = task_Status cur then Inr st
          else
          rbind (if v = StatusDone then ValidateCanMarkDoneInTx (fst st) taskID else Inr ()) (\<lambda>_.
          append_patch_event at taskID by EventStatusChanged (status_str (task_Status cur)) (status_str v)
            (\<lambda>t. t\<lparr>task_Status := v\<rparr>) st))"

definition applyPickupNotBeforePatch :: "pickup_not_before_patch option \<Rightarrow> task \<Rightarrow> task" where
  "applyPickupNotBeforePatch p cur =
     (case p of
        None \<Rightarrow> cur
      | Some q \<Rightarrow> if pnb_Clear q then cur\<lparr>task_PickupNotBefore := None\<rparr>
                  else cur\<lparr>task_PickupNotBefore := Some (pnb_At q)\<rparr>)"

definition maxTaskCursorModelLen :: nat where "maxTaskCursorModelLen = 256"

definition applyCursorModelPatch :: "string option \<Rightarrow> task \<Rightarrow> task res" where
  "applyCursorModelPatch p cur =
     (case p of
        None \<Rightarrow> Inr cur
      | Some v0 \<Rightarrow>
          let v = trim_space v0 in
          if maxTaskCursorModelLen < length v then Inl (ErrInvalidInput ''cursor_model too long (max 256)'')
          else Inr (cur\<lparr>task_CursorModel := v\<rparr>))"

definition applyTagsPatch :: "string list option \<Rightarrow> task \<Rightarrow> task res" where
  "applyTagsPatch tags cur =
     (case tags of
        None \<Rightarrow> Inr cur
      | Some ts \<Rightarrow> let normalized = NormalizeTaskTags ts in
          rbind (ValidateTaskTags normalized) (\<lambda>_. Inr (cur\<lparr>task_Tags := normalized\<rparr>)))"

definition applyMilestonePatch :: "string option \<Rightarrow> task \<Rightarrow> task res" where
  "applyMilestonePatch milestone cur =
     (case milestone of
        None \<Rightarrow> Inr cur
      | Some m0 \<Rightarrow> let m = trim_space m0 in
          if m = [] then Inr (cur\<lparr>task_Milestone := None\<rparr>)
          else rbind (ValidateTaskMilestone m) (\<lambda>_. Inr (cur\<lparr>task_Milestone := Some m\<rparr>)))"

definition applyGatePatch :: "task_gate option option \<Rightarrow> task \<Rightarrow> task" where
  "applyGatePatch gate cur = (case gate of None \<Rightarrow> cur | Some g \<Rightarrow> cur\<lparr>task_Gate := g\<rparr>)"

definition applyDependsOnPatch ::
  "gotime \<Rightarrow> string \<Rightarrow> dependency_edge list option \<Rightarrow> patch_state \<Rightarrow> patch_state res" where
  "applyDependsOnPatch now taskID dependsOn st =
     (case (dependsOn, st) of
        (None, _) \<Rightarrow> Inr st
      | (Some es, (s, cur, seq)) \<Rightarrow>
          rbind (setDependenciesInTx now s taskID es) (\<lambda>s'.
          Inr (s', cur\<lparr>task_DependsOn := listDependencyEdges s' taskID\<rparr>, seq)))"

definition applyPendingRetryPatch :: "pending_retry option \<Rightarrow> bool \<Rightarrow> task \<Rightarrow> task res" where
  "applyPendingRetryPatch set_p clear cur =
     (if set_p \<noteq> None \<and> clear then Inl (ErrInvalidInput ''pending_retry set and clear'')
      else if clear then Inr (cur\<lparr>task_PendingRetry := None\<rparr>)
      else (case set_p of
              None \<Rightarrow> Inr cur
            | Some p \<Rightarrow> rbind (PendingRetry_Validate (Some p)) (\<lambda>cp. Inr (cur\<lparr>task_PendingRetry := Some cp\<rparr>))))"

definition applyWorktreePatch :: "string option \<Rightarrow> task \<Rightarrow> task" where
  "applyWorktreePatch worktreeID cur =
     (case worktreeID of None \<Rightarrow> cur | Some _ \<Rightarrow> cur\<lparr>task_WorktreeID := normalizeOptionalID worktreeID\<rparr>)"

definition on_cur :: "(task \<Rightarrow> task res) \<Rightarrow> patch_state \<Rightarrow> patch_state res" where
  "on_cur f st = (case st of (s, cur, seq) \<Rightarrow> rbind (f cur) (\<lambda>cur'. Inr (s, cur', seq)))"

definition applyTaskPatches ::
  "txenv \<Rightarrow> string \<Rightarrow> update_input \<Rightarrow> actor \<Rightarrow> patch_state \<Rightarrow> patch_state res" where
  "applyTaskPatches env taskID inp by st0 =
     rbind (applyTitlePatch (tx_evnow env) taskID by (uin_Title inp) st0) (\<lambda>st1.
     rbind (applyInitialPromptPatch (tx_evnow env) taskID by (uin_InitialPrompt inp) st1) (\<lambda>st2.
     rbind (applyPriorityPatch (tx_evnow env) taskID by (uin_Priority inp) st2) (\<lambda>st3.
     rbind (applyProjectPatch (uin_Project inp) st3) (\<lambda>st4.
     rbind (applyProjectContextSelectionPatch (uin_ProjectContextItemIDs inp) st4) (\<lambda>st5.
     rbind (applyStatusPatch (tx_evnow env) taskID by (uin_Status inp) st5) (\<lambda>st6.
     rbind (on_cur (\<lambda>c. Inr (applyPickupNotBeforePatch (uin_PickupNotBefore inp) c)) st6) (\<lambda>st7.
     rbind (on_cur (applyCursorModelPatch (uin_CursorModel inp)) st7) (\<lambda>st8.
     rbind (on_cur (applyTagsPatch (uin_Tags inp)) st8) (\<lambda>st9.
     rbind (on_cur (applyMilestonePatch (uin_Milestone inp)) st9) (\<lambda>st10.
     rbind (on_cur (\<lambda>c. Inr (applyGatePatch (uin_Gate inp) c)) st10) (\<lambda>st11.
     rbind (applyDependsOnPatch (tx_now env) taskID (uin_DependsOn inp) st11) (\<lambda>st12.
     rbind (on_cur (applyPendingRetryPatch (uin_PendingRetry inp) (uin_ClearPendingRetry inp)) st12) (\<lambda>st13.
     on_cur (\<lambda>c. Inr (applyWorktreePatch (uin_WorktreeID inp) c)) st13)))))))))))))"

section \<open>Operations (crud.go)\<close>

definition no_fields :: "update_input \<Rightarrow> bool" where
  "no_fields inp \<longleftrightarrow>
     uin_Title inp = None \<and> uin_InitialPrompt inp = None \<and> uin_Status inp = None \<and> uin_Priority inp = None \<and>
     uin_Project inp = None \<and> uin_ProjectContextItemIDs inp = None \<and> uin_PickupNotBefore inp = None \<and>
     uin_CursorModel inp = None \<and> uin_Tags inp = None \<and> uin_Milestone inp = None \<and> uin_Gate inp = None \<and>
     uin_DependsOn inp = None \<and> uin_PendingRetry inp = None \<and> \<not> uin_ClearPendingRetry inp"

definition Task_Update :: "txenv \<Rightarrow> db \<Rightarrow> string \<Rightarrow> update_input \<Rightarrow> actor \<Rightarrow> (db \<times> task \<times> status) res" where
  "Task_Update env s id0 inp by =
     rbind (ValidateActor by) (\<lambda>_.
     let i = trim_space id0 in
     if i = [] then Inl (ErrInvalidInput ''id'')
     else if no_fields inp then Inl (ErrInvalidInput ''no fields to update'')
     else
     rbind (LoadTask s i) (\<lambda>dcur.
     rbind (NextEventSeq s i) (\<lambda>nextSeq.
     rbind (applyTaskPatches env i inp by (s, dcur, nextSeq)) (\<lambda>(s1, dcur', seq').
     let s2 = save_task s1 dcur' in
     rbind (hydrateDependsOn s2 dcur') (\<lambda>updated.
     Inr (s2, updated, task_Status dcur))))))"

text \<open>Deleting the row cascades along the foreign keys of the schema: cycles, their phases and stream
  events, audit events, dependency edges at either end and context snapshots go, and the source of a
  context item is set to null. Checklist rows carry no such key.\<close>

definition cascade_delete_task :: "db \<Rightarrow> string \<Rightarrow> db" where
  "cascade_delete_task s i =
     (let gone = map cycle_ID (filter (\<lambda>c. cycle_TaskID c = i) (db_cycles s)) in
      s\<lparr>db_tasks := filter (\<lambda>t. task_ID t \<noteq> i) (db_tasks s),
        db_cycles := filter (\<lambda>c. cycle_TaskID c \<noteq> i) (db_cycles s),
        db_phases := filter (\<lambda>p. ph_CycleID p \<notin> set gone) (db_phases s),
        db_events := filter (\<lambda>e. ev_TaskID e \<noteq> i) (db_events s),
        db_streams := filter (\<lambda>e. se_TaskID e \<noteq> i \<and> se_CycleID e \<notin> set gone) (db_streams s),
        db_deps := filter (\<lambda>r. td_TaskID r \<noteq> i \<and> td_DependsOnTaskID r \<noteq> i) (db_deps s),
        db_snapshots := filter (\<lambda>x. snap_TaskID x \<noteq> i \<and> snap_CycleID x \<notin> set gone) (db_snapshots s),
        db_context_items := map (\<lambda>c. c\<lparr>pci_SourceTaskID := (if pci_SourceTaskID c = Some i then None else pci_SourceTaskID c),
          pci_SourceCycleID := (case pci_SourceCycleID c of Some x \<Rightarrow> if x \<in> set gone then None else Some x | None \<Rightarrow> None)\<rparr>)
          (db_context_items s)\<rparr>)"

definition Task_Delete :: "db \<Rightarrow> string \<Rightarrow> actor \<Rightarrow> (db \<times> string list) res" where
  "Task_Delete s id0 by =
     rbind (ValidateActor by) (\<lambda>_.
     let i = trim_space id0 in
     if i = [] then Inl (ErrInvalidInput ''id'')
     else if length (filter (\<lambda>t. task_ID t = i) (db_tasks s)) = 0 then Inl ErrNotFound
     else Inr (cascade_delete_task s i, [i]))"

definition DefaultRunner :: string where "DefaultRunner = ''cursor''"

definition normalizeCreateTaskModelFields :: "task \<Rightarrow> create_input \<Rightarrow> task res" where
  "normalizeCreateTaskModelFields t inp =
     (let tags = NormalizeTaskTags (cin_Tags inp) in
      rbind (ValidateTaskTags tags) (\<lambda>_.
      let t1 = t\<lparr>task_Tags := tags\<rparr> in
      rbind (case cin_Milestone inp of
               None \<Rightarrow> Inr t1
             | Some m0 \<Rightarrow> let m = trim_space m0 in
                 if m = [] then Inr (t1\<lparr>task_Milestone := None\<rparr>)
                 else rbind (ValidateTaskMilestone m) (\<lambda>_. Inr (t1\<lparr>task_Milestone := Some m\<rparr>)))
        (\<lambda>t2. Inr (t2\<lparr>task_Gate := cin_Gate inp\<rparr>))))"

definition buildCreateTaskFromInput :: "txenv \<Rightarrow> create_input \<Rightarrow> actor \<Rightarrow> task res" where
  "buildCreateTaskFromInput env inp by =
     rbind (ValidateActor by) (\<lambda>_.
     let title = trim_space (cin_Title inp) in
     if title = [] then Inl (ErrInvalidInput ''title required'')
     else
     let st = (if cin_Status inp = StatusOther [] then StatusReady else cin_Status inp) in
     if \<not> ValidClientWritableStatus st then Inl (ErrInvalidInput ''status'')
     else if cin_Priority inp = PriorityOther [] then Inl (ErrInvalidInput ''priority required'')
     else if \<not> ValidPriority (cin_Priority inp) then Inl (ErrInvalidInput ''priority'')
     else
     let i = ResolveID (tx_uuid env) (cin_ID inp);
         projectID = (case cin_ProjectID inp of
                        None \<Rightarrow> None | Some p0 \<Rightarrow> let p = trim_space p0 in if p = [] then None else Some p);
         runner0 = trim_space (cin_Runner inp);
         runner = (if runner0 = [] then DefaultRunner else runner0) in
     normalizeCreateTaskModelFields
       \<lparr>task_ID = i, task_Title = title, task_InitialPrompt = cin_InitialPrompt inp, task_Status = st,
        task_Priority = cin_Priority inp, task_ProjectID = projectID, task_ProjectContextItemIDs = [],
        task_Tags = [], task_Milestone = None, task_Gate = None, task_DependsOn = [], task_Runner = runner,
        task_CursorModel = cin_CursorModel inp, task_RunnerConfig = [],
        task_PickupNotBefore = cin_PickupNotBefore inp, task_CriteriaSatisfiedAt = None,
        task_PendingRetry = None, task_CreatedAt = None,
        task_WorktreeID = normalizeOptionalID (cin_WorktreeID inp)\<rparr> inp)"

text \<open>A duplicate primary key is reported as a conflict.\<close>

definition map_task_insert_error :: "db res \<Rightarrow> db res" where
  "map_task_insert_error r =
     (case r of
        Inl (ErrDB d) \<Rightarrow> if d = ''tasks_pkey'' then Inl (ErrConflict ''task id already exists'') else Inl (ErrDB d)
      | _ \<Rightarrow> r)"

definition delete_draft :: "db \<Rightarrow> string \<Rightarrow> db" where
  "delete_draft s i0 =
     (let i = trim_space i0 in
      if i = [] then s else s\<lparr>db_drafts := filter (\<lambda>d. nr_ID d \<noteq> i) (db_drafts s)\<rparr>)"

definition createTaskInTx ::
  "txenv \<Rightarrow> (nat \<Rightarrow> string) \<Rightarrow> (nat \<Rightarrow> nat \<Rightarrow> string) \<Rightarrow> db \<Rightarrow> task \<Rightarrow> create_input \<Rightarrow> actor \<Rightarrow> (db \<times> task) res" where
  "createTaskInTx env iid cid s t inp by =
     rbind (case task_ProjectID t of
              None \<Rightarrow> Inr ()
            | Some p \<Rightarrow> if active_project s p then Inr () else Inl (ErrInvalidInput ''project not found'')) (\<lambda>_.
     rbind (normalizeProjectContextItemIDs (cin_ProjectContextItemIDs inp)) (\<lambda>contextIDs.
     rbind (check_context_selection s (task_ProjectID t) contextIDs) (\<lambda>_.
     let t1 = t\<lparr>task_ProjectContextItemIDs := contextIDs\<rparr> in
     rbind (map_task_insert_error (insert_task s (row_of t1))) (\<lambda>s1.
     rbind (if 0 < length (cin_DependsOn inp) then setDependenciesInTx (tx_now env) s1 (task_ID t1) (cin_DependsOn inp)
            else Inr s1) (\<lambda>s2.
     let s3 = delete_draft s2 (cin_DraftID inp) in
     rbind (AppendEvent (tx_evnow env) s3 (task_ID t1) 1 EventTaskCreated by PBlank) (\<lambda>s4.
     rbind (if 0 < length (cin_ChecklistItems inp)
            then SeedDefinitionItemsAtCreateInTx (tx_evnow env) iid cid s4 (task_ID t1) (cin_ChecklistItems inp) by
            else Inr s4) (\<lambda>s5.
     rbind (if task_Status t1 = StatusDone then ValidateCanMarkDoneInTx s5 (task_ID t1) else Inr ()) (\<lambda>_.
     Inr (s5, t1)))))))))"

definition Task_Create ::
  "txenv \<Rightarrow> (nat \<Rightarrow> string) \<Rightarrow> (nat \<Rightarrow> nat \<Rightarrow> string) \<Rightarrow> db \<Rightarrow> create_input \<Rightarrow> actor \<Rightarrow> (db \<times> task) res" where
  "Task_Create env iid cid s inp by =
     rbind (buildCreateTaskFromInput env inp by) (\<lambda>t.
     rbind (createTaskInTx env iid cid s t inp by) (\<lambda>(s', t').
     rbind (hydrateDependsOn s' t') (\<lambda>t2. Inr (s', hydrateCreatedAt s' t2))))"

section \<open>Pickup, retry and gate actions (agent_pickup.go, retry_request.go, task_gate_action.go)\<close>

definition AgentPickup :: "txenv \<Rightarrow> db \<Rightarrow> string \<Rightarrow> actor \<Rightarrow> (db \<times> agent_pickup_result) res" where
  "AgentPickup env s taskID0 by =
     rbind (ValidateActor by) (\<lambda>_.
     let taskID = trim_space taskID0 in
     if taskID = [] then Inl (ErrInvalidInput ''id'')
     else
     rbind (LoadTask s taskID) (\<lambda>dcur.
     if task_Status dcur \<noteq> StatusReady then Inl (ErrInvalidInput ''task status, want ready'')
     else
     let consumed = task_PendingRetry dcur;
         dcur1 = dcur\<lparr>task_PendingRetry := None\<rparr> in
     rbind (NextEventSeq s taskID) (\<lambda>nextSeq.
     rbind (applyStatusPatch (tx_evnow env) taskID by (Some StatusRunning) (s, dcur1, nextSeq)) (\<lambda>(s1, dcur2, seq').
     let s2 = save_task s1 dcur2 in
     rbind (hydrateDependsOn s2 dcur2) (\<lambda>t. Inr (s2, \<lparr>apr_Task = t, apr_ConsumedRetry = consumed\<rparr>))))))"

definition resolveRetryParentCycle :: "db \<Rightarrow> string \<Rightarrow> string \<Rightarrow> string res" where
  "resolveRetryParentCycle s taskID explicit0 =
     (let explicit = trim_space explicit0 in
      if explicit \<noteq> [] then
        rbind (loadByID s explicit) (\<lambda>dc.
        if cycle_TaskID dc \<noteq> taskID then Inl (ErrInvalidInput ''parent_cycle_id does not belong to this task'')
        else if \<not> TerminalCycleStatus (cycle_Status dc) then Inl (ErrInvalidInput ''parent cycle is not terminal'')
        else Inr (cycle_ID dc))
      else
        (case List.find (\<lambda>c. TerminalCycleStatus (cycle_Status c))
                (take 50 (sort_key (\<lambda>c. - cycle_AttemptSeq c) (filter (\<lambda>c. cycle_TaskID c = taskID) (db_cycles s)))) of
           None \<Rightarrow> Inl (ErrInvalidInput ''no terminal cycle to retry from'')
         | Some c \<Rightarrow> Inr (cycle_ID c)))"

definition retry_payload :: "pending_retry \<Rightarrow> payload" where
  "retry_payload p =
     PDoc (JObj [(''mode'', JStr (retry_mode_str (pr_Mode p))), (''parent_cycle_id'', JStr (pr_ParentCycleID p))])"

definition RequestTaskRetry :: "txenv \<Rightarrow> db \<Rightarrow> request_retry_input \<Rightarrow> actor \<Rightarrow> (db \<times> task \<times> status) res" where
  "RequestTaskRetry env s inp by =
     rbind (ValidateActor by) (\<lambda>_.
     let taskID = trim_space (rri_TaskID inp) in
     if taskID = [] then Inl (ErrInvalidInput ''id'')
     else
     rbind (LoadTask s taskID) (\<lambda>dcur.
     rbind (resolveRetryParentCycle s taskID (trim_space (rri_ParentCycleID inp))) (\<lambda>parentID.
     rbind (PendingRetry_Validate (Some \<lparr>pr_Mode = rri_Mode inp, pr_ParentCycleID = parentID\<rparr>)) (\<lambda>intent.
     if task_Status dcur = StatusReady \<and> task_PendingRetry dcur \<noteq> None
     then (if PendingRetry_Equal (task_PendingRetry dcur) (Some intent) then Inr (s, dcur, task_Status dcur)
           else Inl (ErrConflict ''task already queued with different retry intent''))
     else if task_Status dcur \<noteq> StatusFailed then Inl (ErrInvalidInput ''task status, want failed'')
     else
     rbind (NextEventSeq s taskID) (\<lambda>nextSeq.
     rbind (AppendEvent (tx_evnow env) s taskID nextSeq EventTaskRetryRequested by (retry_payload intent)) (\<lambda>s1.
     let dcur1 = dcur\<lparr>task_PendingRetry := Some intent\<rparr> in
     rbind (applyStatusPatch (tx_evnow env) taskID by (Some StatusReady) (s1, dcur1, nextSeq + 1)) (\<lambda>(s2, dcur2, seq').
     let s3 = save_task s2 dcur2 in
     rbind (hydrateDependsOn s3 dcur2) (\<lambda>t. Inr (s3, t, task_Status dcur)))))))))"

text \<open>\<^verbatim>\<open>strings.ToLower\<close> as far as it matters: no letter outside ASCII lowers to a letter of an action name.\<close>

definition lower_ascii :: "char \<Rightarrow> char" where
  "lower_ascii c = (if byte_in 0x41 0x5A c then char_of ((of_char c :: nat) + 32) else c)"

definition empty_update :: update_input where
  "empty_update = \<lparr>uin_Title = None, uin_InitialPrompt = None, uin_Status = None, uin_Priority = None,
     uin_Project = None, uin_ProjectContextItemIDs = None, uin_PickupNotBefore = None, uin_CursorModel = None,
     uin_Tags = None, uin_Milestone = None, uin_Gate = None, uin_DependsOn = None, uin_PendingRetry = None,
     uin_ClearPendingRetry = False, uin_WorktreeID = None\<rparr>"

definition gate_after_action :: "gotime \<Rightarrow> string \<Rightarrow> task_gate \<Rightarrow> task_gate res" where
  "gate_after_action now action g =
     (if action = ''release'' then Inr (g\<lparr>gate_Status := GateStatusReleased, gate_Hold := False\<rparr>)
      else if action = ''hold'' then
        (if gate_Status g \<noteq> GateStatusPendingRelease
         then Inl (ErrInvalidInput ''hold only applies while gate is pending_release'')
         else Inr (g\<lparr>gate_Hold := True\<rparr>))
      else if action = ''clear_hold'' then
        (let g1 = g\<lparr>gate_Hold := False\<rparr> in
         case gate_PendingReleaseDeadlineUTC g1 of
           None \<Rightarrow> Inr g1
         | Some d \<Rightarrow> if gate_Status g1 = GateStatusPendingRelease \<and> \<not> now < d
                     then Inr (g1\<lparr>gate_Status := GateStatusReleased\<rparr>) else Inr g1)
      else Inl (ErrInvalidInput ''invalid gate action''))"

definition ApplyTaskGateAction :: "txenv \<Rightarrow> db \<Rightarrow> string \<Rightarrow> string \<Rightarrow> actor \<Rightarrow> (db \<times> task \<times> status) res" where
  "ApplyTaskGateAction env s taskID action0 by =
     (let action = trim_space (map lower_ascii action0) in
      if action = [] then Inl (ErrInvalidInput ''action required'')
      else
      rbind (Task_Get s taskID) (\<lambda>t.
      case task_Gate t of
        None \<Rightarrow> Inl (ErrInvalidInput ''task has no gate'')
      | Some g \<Rightarrow>
          rbind (gate_after_action (tx_now env) action g) (\<lambda>g'.
          Task_Update env s taskID (empty_update\<lparr>uin_Gate := Some (Some g')\<rparr>) by)))"

section \<open>Listing (list.go, list_created.go, list_filter.go)\<close>

record list_filter =
  lf_Tag :: "string option"
  lf_Milestone :: "string option"

definition filter_matches :: "list_filter option \<Rightarrow> task \<Rightarrow> bool" where
  "filter_matches f t =
     (case f of
        None \<Rightarrow> True
      | Some lf \<Rightarrow>
          (case lf_Tag lf of None \<Rightarrow> True
           | Some tag0 \<Rightarrow> let tag = trim_space tag0 in tag = [] \<or> tag \<in> set (task_Tags t)) \<and>
          (case lf_Milestone lf of None \<Rightarrow> True
           | Some m0 \<Rightarrow> let m = trim_space m0 in m = [] \<or> task_Milestone t = Some m))"

text \<open>The inner join with the creation event, newest first, ties by greater id first.\<close>

definition created_rows :: "db \<Rightarrow> list_filter option \<Rightarrow> (gotime \<times> task) list" where
  "created_rows s f =
     concat (map (\<lambda>t. if filter_matches f t
                      then map (\<lambda>e. (ev_At e, t))
                             (filter (\<lambda>e. ev_TaskID e = task_ID t \<and> ev_Seq e = 1 \<and> ev_Type e = EventTaskCreated) (db_events s))
                      else []) (db_tasks s))"

definition created_desc :: "(gotime \<times> task) list \<Rightarrow> (gotime \<times> task) list" where
  "created_desc rows = rev (sort_key fst (sort_key (\<lambda>r. task_ID (snd r)) rows))"

fun hydrate_all :: "db \<Rightarrow> (gotime \<times> task) list \<Rightarrow> task list res" where
  "hydrate_all s [] = Inr []"
| "hydrate_all s ((at, t) # rows) =
     rbind (hydrateDependsOn s (t\<lparr>task_CreatedAt := Some at\<rparr>)) (\<lambda>t'.
     rbind (hydrate_all s rows) (\<lambda>ts. Inr (t' # ts)))"

definition clamp_limit :: "int \<Rightarrow> int" where
  "clamp_limit limit = (let l = (if limit \<le> 0 then 50 else limit) in if 200 < l then 200 else l)"

definition ListFlat :: "db \<Rightarrow> int \<Rightarrow> int \<Rightarrow> list_filter option \<Rightarrow> task list res" where
  "ListFlat s limit offset f =
     hydrate_all s (take (nat (clamp_limit limit)) (drop (nat (if offset < 0 then 0 else offset)) (created_desc (created_rows s f))))"

definition page_of :: "db \<Rightarrow> int \<Rightarrow> (gotime \<times> task) list \<Rightarrow> (task list \<times> bool) res" where
  "page_of s limit rows0 =
     (let rows = take (nat (limit + 1)) rows0;
          hasMore = (limit < int (length rows)) in
      rbind (hydrate_all s (if hasMore then take (nat limit) rows else rows)) (\<lambda>ts. Inr (ts, hasMore)))"

definition ListFlatPage :: "db \<Rightarrow> int \<Rightarrow> int \<Rightarrow> list_filter option \<Rightarrow> (task list \<times> bool) res" where
  "ListFlatPage s limit offset f =
     page_of s (clamp_limit limit) (drop (nat (if offset < 0 then 0 else offset)) (created_desc (created_rows s f)))"

definition ListFlatAfter :: "db \<Rightarrow> int \<Rightarrow> string \<Rightarrow> (task list \<times> bool) res" where
  "ListFlatAfter s limit afterID0 =
     (let afterID = trim_space afterID0 in
      if afterID = [] then Inl (ErrInvalidInput ''after_id'')
      else (case created_at_of s afterID of
              None \<Rightarrow> Inl ErrNotFound
            | Some cursorAt \<Rightarrow>
                page_of s (clamp_limit limit)
                  (created_desc (filter (\<lambda>r. fst r < cursorAt \<or> fst r = cursorAt \<and> task_ID (snd r) < afterID)
                                   (created_rows s None)))))"

end
