(* ===== verification/Event_Log.thy ===== *)
theory Event_Log
  imports Store_Tasks
begin

text \<open>
  \<^verbatim>\<open>pkgs/tasks/store/internal/events\<close>: the audit log of a task. \<open>Events_Append\<close> adds a row,
  the queries read the log whole, by number or in keyset pages, and \<open>AppendResponseMessage\<close> adds a
  message to the thread of one event, the only update the log knows. Message bodies are texts that
  survive JSON encoding (valid UTF-8).
\<close>

section \<open>Appending (events.go)\<close>

definition Events_Append :: "txenv \<Rightarrow> db \<Rightarrow> string \<Rightarrow> event_type \<Rightarrow> actor \<Rightarrow> payload \<Rightarrow> db res" where
  "Events_Append env s taskID0 typ by data =
     rbind (ValidateActor by) (\<lambda>_.
     let taskID = trim_space taskID0 in
     if taskID = [] then Inl (ErrInvalidInput ''id'')
     else if \<not> list_ex (\<lambda>t. task_ID t = taskID) (db_tasks s) then Inl ErrNotFound
     else rbind (NextEventSeq s taskID) (\<lambda>seq. AppendEvent (tx_evnow env) s taskID seq typ by data))"

section \<open>Reading the log (query.go)\<close>

definition events_of :: "db \<Rightarrow> string \<Rightarrow> task_event list" where
  "events_of s taskID = filter (\<lambda>e. ev_TaskID e = taskID) (db_events s)"

definition Events_List :: "db \<Rightarrow> string \<Rightarrow> task_event list res" where
  "Events_List s taskID0 =
     (let taskID = trim_space taskID0 in
      if taskID = [] then Inl (ErrInvalidInput ''id'')
      else Inr (sort_key ev_Seq (events_of s taskID)))"

definition Events_Count :: "db \<Rightarrow> string \<Rightarrow> int res" where
  "Events_Count s taskID0 =
     (let taskID = trim_space taskID0 in
      if taskID = [] then Inl (ErrInvalidInput ''id'')
      else Inr (int (length (events_of s taskID))))"

definition LastSeq :: "db \<Rightarrow> string \<Rightarrow> int res" where
  "LastSeq s taskID0 =
     (let taskID = trim_space taskID0 in
      if taskID = [] then Inl (ErrInvalidInput ''id'')
      else Inr (coalesce_max (map ev_Seq (events_of s taskID))))"

definition find_event :: "db \<Rightarrow> string \<Rightarrow> int \<Rightarrow> task_event option" where
  "find_event s taskID seq = List.find (\<lambda>e. ev_TaskID e = taskID \<and> ev_Seq e = seq) (db_events s)"

definition Events_Get :: "db \<Rightarrow> string \<Rightarrow> int \<Rightarrow> task_event res" where
  "Events_Get s taskID0 seq =
     (let taskID = trim_space taskID0 in
      if taskID = [] then Inl (ErrInvalidInput ''id'')
      else if seq < 1 then Inl (ErrInvalidInput ''seq'')
      else (case find_event s taskID seq of None \<Rightarrow> Inl ErrNotFound | Some e \<Rightarrow> Inr e))"

section \<open>Pages and the pending approval (page.go)\<close>

record event_page =
  pg_Events :: "task_event list"
  pg_Total :: int
  pg_RangeStart :: int
  pg_RangeEnd :: int
  pg_HasMoreNewer :: bool
  pg_HasMoreOlder :: bool

definition validatePageInputs :: "string \<Rightarrow> int \<Rightarrow> int option \<Rightarrow> int option \<Rightarrow> (string \<times> int) res" where
  "validatePageInputs taskID0 limit0 beforeSeq afterSeq =
     (let taskID = trim_space taskID0;
          limit1 = (if limit0 \<le> 0 then 50 else limit0);
          limit = (if limit1 > 200 then 200 else limit1)
      in if taskID = [] then Inl (ErrInvalidInput ''id'')
         else if beforeSeq \<noteq> None \<and> afterSeq \<noteq> None
         then Inl (ErrInvalidInput ''before_seq and after_seq are mutually exclusive'')
         else if (case beforeSeq of None \<Rightarrow> False | Some b \<Rightarrow> b < 1)
         then Inl (ErrInvalidInput ''before_seq must be a positive integer'')
         else if (case afterSeq of None \<Rightarrow> False | Some a \<Rightarrow> a < 1)
         then Inl (ErrInvalidInput ''after_seq must be a positive integer'')
         else Inr (taskID, limit))"

definition fillPageBounds :: "db \<Rightarrow> string \<Rightarrow> event_page \<Rightarrow> event_page" where
  "fillPageBounds s taskID out =
     (let rows = pg_Events out in
      if rows = [] then out
      else let maxSeq = ev_Seq (hd rows);
               minSeq = ev_Seq (last rows);
               newerThanMax = int (length (filter (\<lambda>e. ev_Seq e > maxSeq) (events_of s taskID)));
               olderThanMin = int (length (filter (\<lambda>e. ev_Seq e < minSeq) (events_of s taskID)))
           in out\<lparr>pg_RangeStart := newerThanMax + 1, pg_RangeEnd := newerThanMax + int (length rows),
                  pg_HasMoreNewer := newerThanMax > 0, pg_HasMoreOlder := olderThanMin > 0\<rparr>)"

definition page_window :: "int option \<Rightarrow> int option \<Rightarrow> task_event \<Rightarrow> bool" where
  "page_window beforeSeq afterSeq e =
     (case beforeSeq of Some b \<Rightarrow> ev_Seq e < b
      | None \<Rightarrow> (case afterSeq of Some a \<Rightarrow> ev_Seq e > a | None \<Rightarrow> True))"

definition PageCursor :: "db \<Rightarrow> string \<Rightarrow> int \<Rightarrow> int option \<Rightarrow> int option \<Rightarrow> event_page res" where
  "PageCursor s taskID0 limit0 beforeSeq afterSeq =
     rbind (validatePageInputs taskID0 limit0 beforeSeq afterSeq) (\<lambda>(taskID, limit).
     let n = int (length (events_of s taskID));
         rows = take (nat limit) (sort_key (\<lambda>e. - ev_Seq e) (filter (page_window beforeSeq afterSeq) (events_of s taskID)))
     in Inr (fillPageBounds s taskID
          \<lparr>pg_Events = rows, pg_Total = n, pg_RangeStart = 0, pg_RangeEnd = 0,
           pg_HasMoreNewer = False, pg_HasMoreOlder = False\<rparr>))"

definition ApprovalPending :: "db \<Rightarrow> string \<Rightarrow> bool res" where
  "ApprovalPending s taskID0 =
     (let taskID = trim_space taskID0 in
      if taskID = [] then Inl (ErrInvalidInput ''id'')
      else (case arg_max_row ev_Seq (filter (\<lambda>e. ev_Type e = EventApprovalRequested \<or> ev_Type e = EventApprovalGranted)
                   (events_of s taskID)) of
              None \<Rightarrow> Inr False
            | Some row \<Rightarrow> Inr (ev_Type row = EventApprovalRequested)))"

section \<open>Message threads (thread.go)\<close>

definition maxTaskEventMessageBytes :: nat where
  "maxTaskEventMessageBytes = 10000"

definition maxResponseThreadEntries :: nat where
  "maxResponseThreadEntries = 200"

definition parseResponseThreadJSON :: "thread_entry list option \<Rightarrow> thread_entry list" where
  "parseResponseThreadJSON raw = (case raw of None \<Rightarrow> [] | Some out \<Rightarrow> out)"

text \<open>The answer of a row from before threads existed: the user's response as a thread of one message.\<close>

definition legacy_thread :: "gotime \<Rightarrow> task_event \<Rightarrow> thread_entry list" where
  "legacy_thread now ev =
     (case ev_UserResponse ev of
        None \<Rightarrow> []
      | Some r \<Rightarrow>
          (let u = trim_space r in
           if u = [] then []
           else [\<lparr>te_At = (case ev_UserResponseAt ev of Some t \<Rightarrow> t | None \<Rightarrow> now), te_By = ActorUser, te_Body = u\<rparr>]))"

definition ThreadEntriesForDisplay :: "gotime \<Rightarrow> task_event option \<Rightarrow> thread_entry list" where
  "ThreadEntriesForDisplay now evp =
     (case evp of None \<Rightarrow> []
      | Some ev \<Rightarrow>
          (let thread = parseResponseThreadJSON (ev_ResponseThread ev) in
           if thread \<noteq> [] then thread else legacy_thread now ev))"

text \<open>The loop from the end of the thread to the latest message of the user.\<close>

definition latest_user :: "thread_entry list \<Rightarrow> thread_entry option" where
  "latest_user thread = List.find (\<lambda>m. te_By m = ActorUser) (rev thread)"

definition appendResponseMessageInTx :: "txenv \<Rightarrow> db \<Rightarrow> string \<Rightarrow> int \<Rightarrow> string \<Rightarrow> actor \<Rightarrow> db res" where
  "appendResponseMessageInTx env s tid seq msg by =
     (case find_event s tid seq of
        None \<Rightarrow> Inl ErrNotFound
      | Some ev \<Rightarrow>
          if \<not> EventTypeAcceptsUserResponse (ev_Type ev)
          then Inl (ErrInvalidInput ''this event type does not accept thread messages'')
          else
            let stored = parseResponseThreadJSON (ev_ResponseThread ev);
                thread = (if stored = [] then legacy_thread (tx_now env) ev else stored)
            in if length thread \<ge> maxResponseThreadEntries
               then Inl (ErrInvalidInput ''thread is full (max 200 messages)'')
               else
                 let thread' = thread @ [\<lparr>te_At = tx_evnow env, te_By = by, te_Body = msg\<rparr>];
                     user = latest_user thread'
                 in Inr (s\<lparr>db_events := update_where (\<lambda>e. ev_TaskID e = tid \<and> ev_Seq e = seq)
                      (\<lambda>e. e\<lparr>ev_ResponseThread := Some thread', ev_UserResponse := map_option te_Body user,
                             ev_UserResponseAt := map_option te_At user\<rparr>) (db_events s)\<rparr>))"

definition AppendResponseMessage :: "txenv \<Rightarrow> db \<Rightarrow> string \<Rightarrow> int \<Rightarrow> string \<Rightarrow> actor \<Rightarrow> db res" where
  "AppendResponseMessage env s taskID seq msg0 by =
     (if by \<noteq> ActorUser \<and> by \<noteq> ActorAgent then Inl (ErrInvalidInput ''by must be user or agent'')
      else
        let msg = trim_space msg0; tid = trim_space taskID in
        if msg = [] then Inl (ErrInvalidInput ''message cannot be empty'')
        else if length msg > maxTaskEventMessageBytes
        then Inl (ErrInvalidInput ''message too long (max 10000 bytes)'')
        else if tid = [] then Inl (ErrInvalidInput ''id'')
        else if seq < 1 then Inl (ErrInvalidInput ''seq'')
        else appendResponseMessageInTx env s tid seq msg by)"

section \<open>The two writes keep the store invariant\<close>

lemma Events_AppendE:
  assumes "Events_Append env s t typ by data = Inr s'"
  obtains n where "NextEventSeq s (trim_space t) = Inr n"
    "AppendEvent (tx_evnow env) s (trim_space t) n typ by data = Inr s'"
  using assms by (auto simp: Events_Append_def Let_def if_Inl_Inr_iff split: if_splits)

lemma Events_Append_store_ok: "store_ok s \<Longrightarrow> Events_Append env s t typ by data = Inr s' \<Longrightarrow> store_ok s'"
  by (elim Events_AppendE) (rule store_ok_append_event)

text \<open>A change of event rows that keeps task and number of every row is invisible to the invariant.\<close>

lemma store_ok_events_update:
  assumes "store_ok s" "\<And>e. ev_TaskID (f e) = ev_TaskID e" "\<And>e. ev_Seq (f e) = ev_Seq e"
  shows "store_ok (s\<lparr>db_events := update_where P f (db_events s)\<rparr>)" (is "store_ok ?s")
proof -
  note ok = store_okD[OF assms(1)]
  have "numbered_by ev_TaskID ev_Seq (update_where P f (db_events s))"
    by (rule numbered_by_update_where[OF cycles_okD(5)[OF ok(1)]]) (simp_all add: assms)
  then have "cycles_ok ?s" using ok(1) by (simp add: cycles_ok_def cycle_phases_def)
  moreover have "deps_ok ?s" using ok(2) deps_ok_cong[of ?s s] by simp
  moreover have "task_ids_ok ?s" using ok(3) task_ids_ok_map[of ?s s] by simp
  moreover have "refs_ok ?s" using ok(4) by (simp add: refs_ok_def ball_update_where assms(2))
  ultimately show ?thesis by (simp add: store_ok_def)
qed

lemma AppendResponseMessageE:
  assumes "AppendResponseMessage env s t seq msg by = Inr s'"
  obtains "by = ActorUser \<or> by = ActorAgent" "trim_space msg \<noteq> []" "length (trim_space msg) \<le> maxTaskEventMessageBytes"
    "trim_space t \<noteq> []" "1 \<le> seq" "appendResponseMessageInTx env s (trim_space t) seq (trim_space msg) by = Inr s'"
  using assms by (auto simp: AppendResponseMessage_def Let_def if_Inl_Inr_iff split: if_splits)

lemma appendResponseMessageInTxE:
  assumes "appendResponseMessageInTx env s tid seq msg by = Inr s'"
  obtains ev thread where "find_event s tid seq = Some ev" "EventTypeAcceptsUserResponse (ev_Type ev)"
    "thread = ThreadEntriesForDisplay (tx_now env) (Some ev)" "length thread < maxResponseThreadEntries"
    "s' = s\<lparr>db_events := update_where (\<lambda>e. ev_TaskID e = tid \<and> ev_Seq e = seq)
       (\<lambda>e. e\<lparr>ev_ResponseThread := Some (thread @ [\<lparr>te_At = tx_evnow env, te_By = by, te_Body = msg\<rparr>]),
              ev_UserResponse := map_option te_Body (latest_user (thread @ [\<lparr>te_At = tx_evnow env, te_By = by, te_Body = msg\<rparr>])),
              ev_UserResponseAt := map_option te_At (latest_user (thread @ [\<lparr>te_At = tx_evnow env, te_By = by, te_Body = msg\<rparr>]))\<rparr>)
       (db_events s)\<rparr>"
  using assms
  by (auto simp: appendResponseMessageInTx_def ThreadEntriesForDisplay_def Let_def split: option.splits if_splits)

lemma AppendResponseMessage_store_ok:
  "store_ok s \<Longrightarrow> AppendResponseMessage env s t seq msg by = Inr s' \<Longrightarrow> store_ok s'"
  by (elim AppendResponseMessageE appendResponseMessageInTxE) (simp add: store_ok_events_update)

lemma AppendResponseMessage_frame:
  assumes "AppendResponseMessage env s t seq msg by = Inr s'"
  shows "\<exists>es. s' = s\<lparr>db_events := es\<rparr>"
  using assms by (elim AppendResponseMessageE appendResponseMessageInTxE) auto

end
