(* ===== verification/Store_System.thy ===== *)
theory Store_System
  imports Event_Log
begin

text \<open>
  The store as a whole: every operation of the cycle, checklist, dependency, event and task packages is a
  step of \<open>store_step\<close>, \<open>store_reachable\<close> is closed under steps from the empty database, and
  \<open>store_ok\<close> holds in every reachable state. The properties that span the components follow.
\<close>

section \<open>Frame rules for task rows\<close>

lemma row_of_simps [simp]: "task_ID (row_of t) = task_ID t" "task_Status (row_of t) = task_Status t"
  "task_PendingRetry (row_of t) = task_PendingRetry t"
  by (simp_all add: row_of_def)

lemma save_task_frame: "same_core s (save_task s t)"
  by (simp add: same_core_def save_task_def update_where_def)

lemma insert_edges_frame:
  "insert_edges now s t es = Inr s' \<Longrightarrow> \<exists>ds. s' = s\<lparr>db_deps := ds\<rparr>"
proof (induction es arbitrary: s)
  case Nil
  then show ?case by (intro exI[of _ "db_deps s"]) simp
next
  case (Cons e es)
  then obtain s1 where "insert_dep s (newDependencyRow t (de_TaskID e) (de_Satisfies e) now) = Inr s1"
    "insert_edges now s1 t es = Inr s'" by auto
  then show ?case using Cons.IH insert_depD(1) by fastforce
qed

lemma deps_update_ok: "store_ok s \<Longrightarrow> deps_ok (s\<lparr>db_deps := ds\<rparr>) \<Longrightarrow> store_ok (s\<lparr>db_deps := ds\<rparr>)"
  using cycles_ok_cong[of "s\<lparr>db_deps := ds\<rparr>" s] task_ids_ok_map[of "s\<lparr>db_deps := ds\<rparr>" s]
  by (simp add: store_ok_def refs_ok_def)

lemma setDependenciesInTx_frame: "setDependenciesInTx now s t es = Inr s' \<Longrightarrow> \<exists>ds. s' = s\<lparr>db_deps := ds\<rparr>"
  by (auto simp: setDependenciesInTx_def clear_deps_def dest!: insert_edges_frame)

lemma setDependenciesInTx_store_ok: "store_ok s \<Longrightarrow> setDependenciesInTx now s t es = Inr s' \<Longrightarrow> store_ok s'"
  using setDependenciesInTx_frame setDependenciesInTx_ok store_okD(2) deps_update_ok by metis

lemma SetDependencies_store_ok: "store_ok s \<Longrightarrow> SetDependencies now s t es = Inr s' \<Longrightarrow> store_ok s'"
proof -
  assume ok: "store_ok s" and st: "SetDependencies now s t es = Inr s'"
  then have "\<exists>ds. s' = s\<lparr>db_deps := ds\<rparr>"
    by (auto simp: SetDependencies_def Let_def if_Inl_Inr_iff clear_deps_def dest!: insert_edges_frame)
  then show ?thesis using SetDependencies_ok[OF store_okD(2)[OF ok] st] deps_update_ok[OF ok] by auto
qed

lemma AddDependency_store_ok:
  assumes "store_ok s" "AddDependency now s t d sat = Inr s'"
  shows "store_ok s'"
proof -
  have "\<exists>ds. s' = s\<lparr>db_deps := ds\<rparr>"
    using assms(2) insert_depD(1)
    by (fastforce simp: AddDependency_def Let_def if_Inl_Inr_iff split: sum.splits err.splits if_splits
        intro: exI[of _ "db_deps s"])
  then show ?thesis using AddDependency_ok[OF store_okD(2)[OF assms(1)] assms(2)] deps_update_ok[OF assms(1)] by auto
qed

lemma RemoveDependency_store_ok:
  assumes "store_ok s" "RemoveDependency s t d = Inr s'"
  shows "store_ok s'"
proof -
  have "\<exists>ds. s' = s\<lparr>db_deps := ds\<rparr>"
    using assms(2) by (auto simp: RemoveDependency_def Let_def if_Inl_Inr_iff)
  then show ?thesis using RemoveDependency_ok[OF store_okD(2)[OF assms(1)] assms(2)] deps_update_ok[OF assms(1)] by auto
qed

section \<open>Patches\<close>

text \<open>The invariant threaded through a patch: the database is well formed, the row keeps its
  identity and the sequence number is the next one.\<close>

definition patch_ok :: "string \<Rightarrow> patch_state \<Rightarrow> bool" where
  "patch_ok i st \<longleftrightarrow> (case st of (s, cur, seq) \<Rightarrow> store_ok s \<and> task_ID cur = i \<and> NextEventSeq s i = Inr seq)"

named_theorems patch \<open>steps of a patch keep patch_ok\<close>

lemma append_patch_event_ok [patch]:
  assumes "append_patch_event at i by typ f t upd st = Inr st'" "patch_ok i st" "\<And>x. task_ID (upd x) = task_ID x"
  shows "patch_ok i st'"
proof -
  obtain s cur seq where st: "st = (s, cur, seq)" by (cases st)
  with assms(1) obtain s' where e: "AppendEvent at s i seq typ by (EventPairJSON f t) = Inr s'"
    and st': "st' = (s', upd cur, seq + 1)" by (auto simp: append_patch_event_def)
  have n: "NextEventSeq s i = Inr seq" and ok: "store_ok s" using assms(2) st by (simp_all add: patch_ok_def)
  show ?thesis
    using store_ok_append_event[OF ok n e] AppendEvent_next[OF n e ok] assms(2,3) st st' by (simp add: patch_ok_def)
qed

lemma on_cur_ok [patch]:
  assumes "on_cur f st = Inr st'" "patch_ok i st" "\<And>x y. f x = Inr y \<Longrightarrow> task_ID y = task_ID x"
  shows "patch_ok i st'"
  using assms by (auto simp: on_cur_def patch_ok_def split: prod.splits)

lemma applyTitlePatch_ok: "applyTitlePatch at i by x st = Inr st' \<Longrightarrow> patch_ok i st \<Longrightarrow> patch_ok i st'"
  by (auto simp: applyTitlePatch_def Let_def split: option.splits if_splits dest!: append_patch_event_ok)

lemma applyInitialPromptPatch_ok: "applyInitialPromptPatch at i by x st = Inr st' \<Longrightarrow> patch_ok i st \<Longrightarrow> patch_ok i st'"
  by (auto simp: applyInitialPromptPatch_def Let_def split: option.splits if_splits dest!: append_patch_event_ok)

lemma applyPriorityPatch_ok: "applyPriorityPatch at i by x st = Inr st' \<Longrightarrow> patch_ok i st \<Longrightarrow> patch_ok i st'"
  by (auto simp: applyPriorityPatch_def Let_def split: option.splits if_splits dest!: append_patch_event_ok)

lemma applyStatusPatch_ok: "applyStatusPatch at i by x st = Inr st' \<Longrightarrow> patch_ok i st \<Longrightarrow> patch_ok i st'"
  by (auto simp: applyStatusPatch_def Let_def split: option.splits if_splits dest!: append_patch_event_ok)

lemma applyProjectPatch_ok: "applyProjectPatch x st = Inr st' \<Longrightarrow> patch_ok i st \<Longrightarrow> patch_ok i st'"
  by (auto simp: applyProjectPatch_def patch_ok_def Let_def split: option.splits if_splits prod.splits)

lemma applyProjectContextSelectionPatch_ok:
  "applyProjectContextSelectionPatch x st = Inr st' \<Longrightarrow> patch_ok i st \<Longrightarrow> patch_ok i st'"
  by (auto simp: applyProjectContextSelectionPatch_def patch_ok_def split: option.splits prod.splits)

lemma NextEventSeq_deps [simp]: "NextEventSeq (s\<lparr>db_deps := ds\<rparr>) t = NextEventSeq s t"
  by (simp add: NextEventSeq_def)

lemma applyDependsOnPatch_ok: "applyDependsOnPatch now i x st = Inr st' \<Longrightarrow> patch_ok i st \<Longrightarrow> patch_ok i st'"
proof -
  assume a: "applyDependsOnPatch now i x st = Inr st'" and ok: "patch_ok i st"
  obtain s cur seq where st: "st = (s, cur, seq)" by (cases st)
  show ?thesis
  proof (cases x)
    case (Some es)
    with a st obtain s1 where s1: "setDependenciesInTx now s i es = Inr s1"
      and st': "st' = (s1, cur\<lparr>task_DependsOn := listDependencyEdges s1 i\<rparr>, seq)"
      by (auto simp: applyDependsOnPatch_def)
    have "store_ok s1" using setDependenciesInTx_store_ok[OF _ s1] ok st by (simp add: patch_ok_def)
    then show ?thesis using setDependenciesInTx_frame[OF s1] ok st st' by (auto simp: patch_ok_def)
  qed (use a ok in \<open>simp add: applyDependsOnPatch_def\<close>)
qed

lemma task_patch_ids:
  "applyCursorModelPatch a x = Inr y \<Longrightarrow> task_ID y = task_ID x"
  "applyTagsPatch b x = Inr y \<Longrightarrow> task_ID y = task_ID x"
  "applyMilestonePatch c x = Inr y \<Longrightarrow> task_ID y = task_ID x"
  "applyPendingRetryPatch d e x = Inr y \<Longrightarrow> task_ID y = task_ID x"
  by (auto simp: applyCursorModelPatch_def applyTagsPatch_def applyMilestonePatch_def applyPendingRetryPatch_def
      Let_def split: option.splits if_splits)

lemma pure_patch_ids [simp]:
  "task_ID (applyPickupNotBeforePatch f x) = task_ID x" "task_ID (applyGatePatch g x) = task_ID x"
  "task_ID (applyWorktreePatch h x) = task_ID x"
  by (auto simp: applyPickupNotBeforePatch_def applyGatePatch_def applyWorktreePatch_def split: option.splits)

lemma on_cur_patches:
  "on_cur (\<lambda>c. Inr (applyPickupNotBeforePatch p c)) st = Inr st' \<Longrightarrow> patch_ok i st \<Longrightarrow> patch_ok i st'"
  "on_cur (applyCursorModelPatch a) st = Inr st' \<Longrightarrow> patch_ok i st \<Longrightarrow> patch_ok i st'"
  "on_cur (applyTagsPatch b) st = Inr st' \<Longrightarrow> patch_ok i st \<Longrightarrow> patch_ok i st'"
  "on_cur (applyMilestonePatch c) st = Inr st' \<Longrightarrow> patch_ok i st \<Longrightarrow> patch_ok i st'"
  "on_cur (\<lambda>c. Inr (applyGatePatch g c)) st = Inr st' \<Longrightarrow> patch_ok i st \<Longrightarrow> patch_ok i st'"
  "on_cur (applyPendingRetryPatch d e) st = Inr st' \<Longrightarrow> patch_ok i st \<Longrightarrow> patch_ok i st'"
  "on_cur (\<lambda>c. Inr (applyWorktreePatch w c)) st = Inr st' \<Longrightarrow> patch_ok i st \<Longrightarrow> patch_ok i st'"
  by (erule (1) on_cur_ok, force dest: task_patch_ids)+

lemmas patch_steps = applyTitlePatch_ok applyInitialPromptPatch_ok applyPriorityPatch_ok applyStatusPatch_ok
  applyProjectPatch_ok applyProjectContextSelectionPatch_ok applyDependsOnPatch_ok on_cur_patches

lemma applyTaskPatches_ok:
  "applyTaskPatches env i inp by st = Inr st' \<Longrightarrow> patch_ok i st \<Longrightarrow> patch_ok i st'"
  unfolding applyTaskPatches_def by (elim rbind_InrE) (drule (1) patch_steps)+


section \<open>The task operations\<close>

lemma store_ok_save_task: "store_ok s \<Longrightarrow> store_ok (save_task s t)"
  by (rule store_ok_same_core[OF save_task_frame])

lemma Task_UpdateE:
  assumes "Task_Update env s i inp by = Inr (s', t, prev)"
  obtains dcur n s1 dcur' n' where "ValidateActor by = Inr ()" "\<not> no_fields inp" "trim_space i \<noteq> []"
    "LoadTask s (trim_space i) = Inr dcur" "prev = task_Status dcur"
    "NextEventSeq s (trim_space i) = Inr n"
    "applyTaskPatches env (trim_space i) inp by (s, dcur, n) = Inr (s1, dcur', n')"
    "s' = save_task s1 dcur'" "hydrateDependsOn s' dcur' = Inr t"
  using assms by (clarsimp simp: Task_Update_def Let_def if_Inl_Inr_iff)

lemma Task_Update_store_ok:
  assumes ok: "store_ok s" and u: "Task_Update env s i inp by = Inr (s', t, prev)"
  shows "store_ok s'"
proof -
  from u obtain dcur n s1 dcur' n' where l: "LoadTask s (trim_space i) = Inr dcur" "NextEventSeq s (trim_space i) = Inr n"
    and p: "applyTaskPatches env (trim_space i) inp by (s, dcur, n) = Inr (s1, dcur', n')" and s': "s' = save_task s1 dcur'"
    by (elim Task_UpdateE)
  have "patch_ok (trim_space i) (s, dcur, n)" using ok l LoadTaskD(2) by (simp add: patch_ok_def)
  then show ?thesis using applyTaskPatches_ok[OF p] s' store_ok_save_task by (simp add: patch_ok_def)
qed

lemma AgentPickupE:
  assumes "AgentPickup env s i by = Inr (s', r)"
  obtains dcur n s1 dcur' n' where "ValidateActor by = Inr ()" "LoadTask s (trim_space i) = Inr dcur"
    "task_Status dcur = StatusReady" "NextEventSeq s (trim_space i) = Inr n"
    "applyStatusPatch (tx_evnow env) (trim_space i) by (Some StatusRunning) (s, dcur\<lparr>task_PendingRetry := None\<rparr>, n)
       = Inr (s1, dcur', n')"
    "s' = save_task s1 dcur'" "hydrateDependsOn s' dcur' = Inr (apr_Task r)"
    "apr_ConsumedRetry r = task_PendingRetry dcur"
  using assms by (clarsimp simp: AgentPickup_def Let_def if_Inl_Inr_iff)

lemma AgentPickup_store_ok:
  assumes ok: "store_ok s" and u: "AgentPickup env s i by = Inr (s', r)"
  shows "store_ok s'"
proof -
  from u obtain dcur n s1 dcur' n' where l: "LoadTask s (trim_space i) = Inr dcur" "NextEventSeq s (trim_space i) = Inr n"
    and p: "applyStatusPatch (tx_evnow env) (trim_space i) by (Some StatusRunning) (s, dcur\<lparr>task_PendingRetry := None\<rparr>, n)
       = Inr (s1, dcur', n')" and s': "s' = save_task s1 dcur'"
    by (elim AgentPickupE)
  have "patch_ok (trim_space i) (s, dcur\<lparr>task_PendingRetry := None\<rparr>, n)" using ok l LoadTaskD(2) by (simp add: patch_ok_def)
  then show ?thesis using applyStatusPatch_ok[OF p] s' store_ok_save_task by (simp add: patch_ok_def)
qed

lemma RequestTaskRetryE:
  assumes "RequestTaskRetry env s inp by = Inr (s', t, prev)"
  obtains dcur parentID intent where "ValidateActor by = Inr ()" "LoadTask s (trim_space (rri_TaskID inp)) = Inr dcur"
    "prev = task_Status dcur" "resolveRetryParentCycle s (trim_space (rri_TaskID inp)) (trim_space (rri_ParentCycleID inp)) = Inr parentID"
    "PendingRetry_Validate (Some \<lparr>pr_Mode = rri_Mode inp, pr_ParentCycleID = parentID\<rparr>) = Inr intent"
    "(s' = s \<and> t = dcur \<and> prev = StatusReady \<and> PendingRetry_Equal (task_PendingRetry dcur) (Some intent)) \<or>
     (prev = StatusFailed \<and>
      (\<exists>n s1 s2 dcur' n'. NextEventSeq s (trim_space (rri_TaskID inp)) = Inr n \<and>
        AppendEvent (tx_evnow env) s (trim_space (rri_TaskID inp)) n EventTaskRetryRequested by (retry_payload intent) = Inr s1 \<and>
        applyStatusPatch (tx_evnow env) (trim_space (rri_TaskID inp)) by (Some StatusReady)
          (s1, dcur\<lparr>task_PendingRetry := Some intent\<rparr>, n + 1) = Inr (s2, dcur', n') \<and>
        s' = save_task s2 dcur' \<and> hydrateDependsOn s' dcur' = Inr t))"
  using assms by (clarsimp simp: RequestTaskRetry_def Let_def if_Inl_Inr_iff split: if_splits)

lemma RequestTaskRetry_store_ok:
  assumes ok: "store_ok s" and u: "RequestTaskRetry env s inp by = Inr (s', t, prev)"
  shows "store_ok s'"
  using u
proof (rule RequestTaskRetryE)
  fix dcur parentID intent
  let ?i = "trim_space (rri_TaskID inp)"
  assume l: "LoadTask s ?i = Inr dcur"
  assume "(s' = s \<and> t = dcur \<and> prev = StatusReady \<and> PendingRetry_Equal (task_PendingRetry dcur) (Some intent)) \<or>
     (prev = StatusFailed \<and>
      (\<exists>n s1 s2 dcur' n'. NextEventSeq s ?i = Inr n \<and>
        AppendEvent (tx_evnow env) s ?i n EventTaskRetryRequested by (retry_payload intent) = Inr s1 \<and>
        applyStatusPatch (tx_evnow env) ?i by (Some StatusReady)
          (s1, dcur\<lparr>task_PendingRetry := Some intent\<rparr>, n + 1) = Inr (s2, dcur', n') \<and>
        s' = save_task s2 dcur' \<and> hydrateDependsOn s' dcur' = Inr t))"
  then show "store_ok s'"
  proof (elim disjE conjE exE)
    fix n s1 s2 dcur' n'
    assume n: "NextEventSeq s ?i = Inr n" and e: "AppendEvent (tx_evnow env) s ?i n EventTaskRetryRequested by (retry_payload intent) = Inr s1"
      and p: "applyStatusPatch (tx_evnow env) ?i by (Some StatusReady)
          (s1, dcur\<lparr>task_PendingRetry := Some intent\<rparr>, n + 1) = Inr (s2, dcur', n')" and s': "s' = save_task s2 dcur'"
    have "patch_ok ?i (s1, dcur\<lparr>task_PendingRetry := Some intent\<rparr>, n + 1)"
      using store_ok_append_event[OF ok n e] AppendEvent_next[OF n e ok] LoadTaskD(2)[OF l] by (simp add: patch_ok_def)
    then show ?thesis using applyStatusPatch_ok[OF p] s' store_ok_save_task by (simp add: patch_ok_def)
  qed (use ok in simp)
qed

lemma ApplyTaskGateAction_store_ok:
  "store_ok s \<Longrightarrow> ApplyTaskGateAction env s i a by = Inr (s', t, prev) \<Longrightarrow> store_ok s'"
  by (auto simp: ApplyTaskGateAction_def Let_def if_Inl_Inr_iff split: option.splits dest: Task_Update_store_ok)

text \<open>Deleting a task keeps whole groups of every numbered table.\<close>

lemma task_ids_ok_filter: "task_ids_ok s \<Longrightarrow> task_ids_ok (s\<lparr>db_tasks := filter P (db_tasks s)\<rparr>)"
  by (simp add: task_ids_ok_def distinct_map_filter)

lemma length_filter_filter: "length (filter Q (filter P xs)) \<le> length (filter Q xs)"
  by (induction xs) auto

lemma cycles_ok_delete:
  assumes ok: "store_ok s"
  shows "cycles_ok (cascade_delete_task s i)" (is "cycles_ok ?s")
proof (rule cycles_okI)
  note d = cycles_okD[OF store_okD(1)[OF ok]]
  let ?gone = "cycle_ID ` {c \<in> set (db_cycles s). cycle_TaskID c = i}"
  have tabs: "db_cycles ?s = filter (\<lambda>c. cycle_TaskID c \<noteq> i) (db_cycles s)"
    "db_phases ?s = filter (\<lambda>p. ph_CycleID p \<notin> ?gone) (db_phases s)"
    "db_events ?s = filter (\<lambda>e. ev_TaskID e \<noteq> i) (db_events s)"
    by (simp_all add: cascade_delete_task_def Let_def)
  show "distinct (map cycle_ID (db_cycles ?s))" "distinct (map ph_ID (db_phases ?s))"
    using d(1,2) by (simp_all add: tabs distinct_map_filter)
  show "numbered_by cycle_TaskID cycle_AttemptSeq (db_cycles ?s)" unfolding tabs by (rule numbered_by_filter_groups[OF d(3)]) simp
  show "numbered_by ph_CycleID ph_PhaseSeq (db_phases ?s)" unfolding tabs by (rule numbered_by_filter_groups[OF d(4)]) simp
  show "numbered_by ev_TaskID ev_Seq (db_events ?s)" unfolding tabs by (rule numbered_by_filter_groups[OF d(5)]) simp
  show "numbered_by se_CycleID se_StreamSeq (db_streams ?s)"
  proof -
    have owner: "se_TaskID e = i \<longrightarrow> se_CycleID e \<in> ?gone" if "e \<in> set (db_streams s)" for e
      using store_okD(4)[OF ok] that by (fastforce simp: refs_ok_def)
    have "db_streams ?s = filter (\<lambda>e. se_TaskID e \<noteq> i \<and> se_CycleID e \<notin> ?gone) (db_streams s)"
      by (simp add: cascade_delete_task_def Let_def)
    also have "\<dots> = filter (\<lambda>e. se_CycleID e \<notin> ?gone) (db_streams s)"
      using owner by (intro filter_cong refl) blast
    finally show ?thesis using numbered_by_filter_groups[OF d(6)] by simp
  qed
  show "cycle_status_ok c" if "c \<in> set (db_cycles ?s)" for c using that d(7) by (simp add: tabs)
  show "phase_status_ok p" if "p \<in> set (db_phases ?s)" for p using that d(8) by (simp add: tabs)
  show "length (filter (\<lambda>c. cycle_TaskID c = t \<and> cycle_Status c = CycleStatusRunning) (db_cycles ?s)) \<le> 1" for t
    unfolding tabs by (rule le_trans[OF length_filter_filter d(9)[of t]])
  show "phase_path None (cycle_phases ?s j)" for j
  proof -
    have "cycle_phases ?s j = (if j \<in> ?gone then [] else cycle_phases s j)"
      by (auto simp: cycle_phases_def tabs filter_empty_conv intro!: filter_cong)
    then show ?thesis using d(10)[of j] by simp
  qed
  show "\<exists>c\<in>set (db_cycles ?s). cycle_ID c = ph_CycleID p \<and> cycle_Status c = CycleStatusRunning"
    if "p \<in> set (db_phases ?s)" "ph_Status p = PhaseStatusRunning" for p
  proof -
    have "p \<in> set (db_phases s)" using that(1) by (simp add: tabs)
    from d(11)[OF this that(2)]
    obtain c where c: "c \<in> set (db_cycles s)" "cycle_ID c = ph_CycleID p" "cycle_Status c = CycleStatusRunning"
      by blast
    have "cycle_TaskID c \<noteq> i"
    proof
      assume "cycle_TaskID c = i"
      then have "cycle_ID c \<in> ?gone" using c(1) by blast
      then show False using that(1) c(2) by (simp add: tabs)
    qed
    with c show ?thesis by (auto simp: tabs)
  qed
qed
lemma deps_ok_delete: "deps_ok s \<Longrightarrow> deps_ok (cascade_delete_task s i)"
proof -
  assume ok: "deps_ok s"
  let ?P = "\<lambda>r. td_TaskID r \<noteq> i \<and> td_DependsOnTaskID r \<noteq> i"
  have f: "deps_ok (s\<lparr>db_deps := filter ?P (db_deps s)\<rparr>)" by (rule deps_ok_filter(1)[OF ok])
  have tasks: "task_ID ` set (db_tasks (cascade_delete_task s i)) = task_ID ` set (db_tasks s) - {i}"
    "db_deps (cascade_delete_task s i) = filter ?P (db_deps s)"
    by (auto simp: cascade_delete_task_def Let_def)
  show ?thesis using f by (simp add: deps_ok_def dep_edges_def dep_row_ok_def tasks)
qed

lemma refs_ok_delete: "refs_ok s \<Longrightarrow> refs_ok (cascade_delete_task s i)"
proof -
  assume ok: "refs_ok s"
  let ?gone = "cycle_ID ` {c \<in> set (db_cycles s). cycle_TaskID c = i}"
  have tabs: "set (db_cycles (cascade_delete_task s i)) = {c \<in> set (db_cycles s). cycle_TaskID c \<noteq> i}"
    "set (db_phases (cascade_delete_task s i)) = {p \<in> set (db_phases s). ph_CycleID p \<notin> ?gone}"
    "set (db_events (cascade_delete_task s i)) = {e \<in> set (db_events s). ev_TaskID e \<noteq> i}"
    "set (db_streams (cascade_delete_task s i)) = {e \<in> set (db_streams s). se_TaskID e \<noteq> i \<and> se_CycleID e \<notin> ?gone}"
    "task_ID ` set (db_tasks (cascade_delete_task s i)) = task_ID ` set (db_tasks s) - {i}"
    by (auto simp: cascade_delete_task_def Let_def)
  show ?thesis using ok unfolding refs_ok_def tabs by (auto simp: image_iff) (metis (lifting))+
qed

lemma Task_Delete_store_ok: "store_ok s \<Longrightarrow> Task_Delete s i by = Inr (s', ids) \<Longrightarrow> store_ok s'"
proof -
  assume ok: "store_ok s" and d: "Task_Delete s i by = Inr (s', ids)"
  have s': "s' = cascade_delete_task s (trim_space i)"
    using d by (auto simp: Task_Delete_def Let_def if_Inl_Inr_iff)
  have "task_ids_ok s'" using task_ids_ok_filter[OF store_okD(3)[OF ok]]
    by (simp add: s' cascade_delete_task_def Let_def task_ids_ok_def)
  then show ?thesis
    using cycles_ok_delete[OF ok] deps_ok_delete refs_ok_delete store_okD[OF ok] s' by (simp add: store_ok_def)
qed

text \<open>Creation. \<open>uuid_ok\<close> is what \<^verbatim>\<open>uuid.NewString\<close> promises: a nonempty string without white space.\<close>

definition uuid_ok :: "txenv \<Rightarrow> bool" where
  "uuid_ok env \<longleftrightarrow> trim_space (tx_uuid env) = tx_uuid env \<and> tx_uuid env \<noteq> []"

lemma ResolveID_ok: "uuid_ok env \<Longrightarrow> trim_space (ResolveID (tx_uuid env) i) = ResolveID (tx_uuid env) i \<and> ResolveID (tx_uuid env) i \<noteq> []"
  by (simp add: ResolveID_def uuid_ok_def Let_def)

lemma normalizeCreateTaskModelFields_core:
  "normalizeCreateTaskModelFields t inp = Inr t' \<Longrightarrow>
   task_ID t' = task_ID t \<and> task_Status t' = task_Status t \<and> task_Title t' = task_Title t \<and>
   task_Priority t' = task_Priority t \<and> task_PendingRetry t' = task_PendingRetry t \<and> task_ProjectID t' = task_ProjectID t"
  by (auto simp: normalizeCreateTaskModelFields_def Let_def split: option.splits if_splits)

lemma buildCreateTaskFromInput_core:
  assumes "buildCreateTaskFromInput env inp by = Inr t"
  shows "task_ID t = ResolveID (tx_uuid env) (cin_ID inp)" "task_Title t = trim_space (cin_Title inp)"
    "task_Title t \<noteq> []" "ValidStatus (task_Status t)" "ValidPriority (task_Priority t)" "task_PendingRetry t = None"
  using assms
  by (auto simp: buildCreateTaskFromInput_def Let_def if_Inl_Inr_iff ValidClientWritableStatus_def
      dest!: normalizeCreateTaskModelFields_core)

lemma insert_taskD:
  assumes "map_task_insert_error (insert_task s t) = Inr s'"
  shows "s' = s\<lparr>db_tasks := db_tasks s @ [t]\<rparr>" "task_ID t \<notin> task_ID ` set (db_tasks s)"
  using assms by (auto simp: map_task_insert_error_def insert_task_def split: if_splits)

lemma store_ok_insert_task:
  assumes ok: "store_ok s" and i: "map_task_insert_error (insert_task s t) = Inr s'"
    and tr: "trim_space (task_ID t) = task_ID t" "task_ID t \<noteq> []"
  shows "store_ok s'" "NextEventSeq s' (task_ID t) = Inr 1"
proof -
  note d = insert_taskD[OF i]
  have "cycles_ok s'" using cycles_ok_cong[of s' s] store_okD(1)[OF ok] d(1) by simp
  moreover have "deps_ok s'" by (rule deps_ok_mono[OF store_okD(2)[OF ok]]) (auto simp: d(1))
  moreover have "task_ids_ok s'" using store_okD(3)[OF ok] d tr by (simp add: task_ids_ok_def)
  moreover have "refs_ok s'" using store_okD(4)[OF ok] d(1) by (simp add: refs_ok_def)
  ultimately show "store_ok s'" by (simp add: store_ok_def)
  have "filter (\<lambda>e. ev_TaskID e = task_ID t) (db_events s) = []"
    using store_okD(4)[OF ok] d(2) unfolding refs_ok_def filter_empty_conv by metis
  then show "NextEventSeq s' (task_ID t) = Inr 1" using d(1) by (simp add: NextEventSeq_def coalesce_max_def)
qed

lemma createTaskInTxE:
  assumes "createTaskInTx env iid cid s t inp by = Inr (s', t')"
  obtains ctx s1 s2 s4 where "t' = t\<lparr>task_ProjectContextItemIDs := ctx\<rparr>"
    "map_task_insert_error (insert_task s (row_of t')) = Inr s1"
    "(if 0 < length (cin_DependsOn inp) then setDependenciesInTx (tx_now env) s1 (task_ID t) (cin_DependsOn inp) else Inr s1) = Inr s2"
    "AppendEvent (tx_evnow env) (delete_draft s2 (cin_DraftID inp)) (task_ID t) 1 EventTaskCreated by PBlank = Inr s4"
    "(if 0 < length (cin_ChecklistItems inp)
      then SeedDefinitionItemsAtCreateInTx (tx_evnow env) iid cid s4 (task_ID t) (cin_ChecklistItems inp) by else Inr s4) = Inr s'"
    "task_Status t = StatusDone \<longrightarrow> ValidateCanMarkDoneInTx s' (task_ID t) = Inr ()"
  using assms by (clarsimp simp: createTaskInTx_def Let_def split: if_splits)

lemma delete_draft_frame: "same_core s (delete_draft s i)"
  by (simp add: delete_draft_def Let_def frame)

lemma Task_CreateE:
  assumes "Task_Create env iid cid s inp by = Inr (s', t)"
  obtains t0 t1 t2 where "buildCreateTaskFromInput env inp by = Inr t0" "createTaskInTx env iid cid s t0 inp by = Inr (s', t1)"
    "hydrateDependsOn s' t1 = Inr t2" "t = hydrateCreatedAt s' t2"
  using assms by (auto simp: Task_Create_def)

lemma Task_Create_store_ok:
  assumes ok: "store_ok s" and u: "uuid_ok env" and c: "Task_Create env iid cid s inp by = Inr (s', t)"
  shows "store_ok s'"
proof -
  from c obtain t0 t1 where b: "buildCreateTaskFromInput env inp by = Inr t0"
    and x: "createTaskInTx env iid cid s t0 inp by = Inr (s', t1)" by (elim Task_CreateE)
  have i: "trim_space (task_ID t0) = task_ID t0" "task_ID t0 \<noteq> []"
    using buildCreateTaskFromInput_core(1)[OF b] ResolveID_ok[OF u] by simp_all
  from x obtain ctx s1 s2 s4 where t1: "t1 = t0\<lparr>task_ProjectContextItemIDs := ctx\<rparr>"
    and s1: "map_task_insert_error (insert_task s (row_of t1)) = Inr s1"
    and s2: "(if 0 < length (cin_DependsOn inp) then setDependenciesInTx (tx_now env) s1 (task_ID t0) (cin_DependsOn inp) else Inr s1) = Inr s2"
    and s4: "AppendEvent (tx_evnow env) (delete_draft s2 (cin_DraftID inp)) (task_ID t0) 1 EventTaskCreated by PBlank = Inr s4"
    and s5: "(if 0 < length (cin_ChecklistItems inp)
      then SeedDefinitionItemsAtCreateInTx (tx_evnow env) iid cid s4 (task_ID t0) (cin_ChecklistItems inp) by else Inr s4) = Inr s'"
    by (elim createTaskInTxE)
  have ok1: "store_ok s1" "NextEventSeq s1 (task_ID t0) = Inr 1"
    using store_ok_insert_task[OF ok s1] i t1 by simp_all
  have ok2: "store_ok s2" "NextEventSeq s2 (task_ID t0) = Inr 1"
    using s2 ok1 setDependenciesInTx_store_ok[OF ok1(1)] by (auto dest: setDependenciesInTx_frame split: if_splits)
  have ok3: "store_ok (delete_draft s2 (cin_DraftID inp))" "NextEventSeq (delete_draft s2 (cin_DraftID inp)) (task_ID t0) = Inr 1"
    using ok2 store_ok_same_core[OF delete_draft_frame] NextEventSeq_same_core[OF delete_draft_frame] by simp_all
  have "store_ok s4" by (rule store_ok_append_event[OF ok3 s4])
  then show ?thesis using s5 Seed_ok by (auto split: if_splits)
qed

section \<open>The cycle operations keep the references\<close>

lemma audited_events:
  "audited s s' t typ by \<Longrightarrow> e \<in> set (db_events s') \<Longrightarrow> e \<in> set (db_events s) \<or> ev_TaskID e \<in> task_ID ` set (db_tasks s)"
  by (auto simp: audited_def)

lemma refs_okI:
  assumes "refs_ok s"
    "task_ID ` set (db_tasks s) \<subseteq> task_ID ` set (db_tasks s')"
    "(\<lambda>c. (cycle_ID c, cycle_TaskID c)) ` set (db_cycles s) \<subseteq> (\<lambda>c. (cycle_ID c, cycle_TaskID c)) ` set (db_cycles s')"
    "\<And>c. c \<in> set (db_cycles s') \<Longrightarrow> cycle_TaskID c \<in> cycle_TaskID ` set (db_cycles s) \<or> cycle_TaskID c \<in> task_ID ` set (db_tasks s')"
    "\<And>p. p \<in> set (db_phases s') \<Longrightarrow> ph_CycleID p \<in> ph_CycleID ` set (db_phases s) \<or> ph_CycleID p \<in> cycle_ID ` set (db_cycles s')"
    "\<And>e. e \<in> set (db_events s') \<Longrightarrow> e \<in> set (db_events s) \<or> ev_TaskID e \<in> task_ID ` set (db_tasks s')"
    "\<And>e. e \<in> set (db_streams s') \<Longrightarrow> e \<in> set (db_streams s) \<or>
       (se_CycleID e, se_TaskID e) \<in> (\<lambda>c. (cycle_ID c, cycle_TaskID c)) ` set (db_cycles s')"
  shows "refs_ok s'"
proof -
  note r = assms(1)[unfolded refs_ok_def]
  have cyc: "cycle_ID ` set (db_cycles s) \<subseteq> cycle_ID ` set (db_cycles s')"
    using image_mono[OF assms(3), of fst] by (simp add: image_image)
  have own: "cycle_TaskID ` set (db_cycles s) \<subseteq> task_ID ` set (db_tasks s)"
    and ph: "ph_CycleID ` set (db_phases s) \<subseteq> cycle_ID ` set (db_cycles s)"
    using r by (simp_all add: image_subset_iff)
  show ?thesis
    unfolding refs_ok_def
  proof (intro conjI ballI)
    show "cycle_TaskID c \<in> task_ID ` set (db_tasks s')" if "c \<in> set (db_cycles s')" for c
      using assms(4)[OF that] own assms(2) by blast
    show "ph_CycleID p \<in> cycle_ID ` set (db_cycles s')" if "p \<in> set (db_phases s')" for p
      using assms(5)[OF that] ph cyc by blast
    show "ev_TaskID e \<in> task_ID ` set (db_tasks s')" if "e \<in> set (db_events s')" for e
      using assms(6)[OF that] r assms(2) by blast
    show "(se_CycleID e, se_TaskID e) \<in> (\<lambda>c. (cycle_ID c, cycle_TaskID c)) ` set (db_cycles s')"
      if "e \<in> set (db_streams s')" for e
      using assms(7)[OF that] r assms(3) by blast
  qed
qed

text \<open>No cycle operation writes the task and dependency tables.\<close>

lemma set_event_seq_deps [simp]: "db_deps (set_event_seq i n s) = db_deps s" "db_tasks (set_event_seq i n s) = db_tasks s"
  by (simp_all add: set_event_seq_def)

lemma Start_frame: "Start env s inp = Inr (s', c) \<Longrightarrow> db_deps s' = db_deps s \<and> db_tasks s' = db_tasks s"
  by (elim StartE) (auto dest!: insert_cycleD(1) dest: AppendEvent_audited(5,6))

lemma Terminate_frame: "Terminate env s i st r by = Inr (s', c) \<Longrightarrow> db_deps s' = db_deps s \<and> db_tasks s' = db_tasks s"
  by (elim TerminateE) (auto dest: AppendEvent_audited(5,6))

lemma StartPhase_frame: "StartPhase env s i ph by = Inr (s', p) \<Longrightarrow> db_deps s' = db_deps s \<and> db_tasks s' = db_tasks s"
  by (elim StartPhaseE) (auto dest!: insert_phaseD(1) dest: AppendEvent_audited(5,6))

lemma CompletePhase_frame: "CompletePhase env s inp = Inr (s', p) \<Longrightarrow> db_deps s' = db_deps s \<and> db_tasks s' = db_tasks s"
  by (elim CompletePhaseE) (auto dest: AppendEvent_audited(5,6))

lemma Start_store_ok:
  assumes ok: "store_ok s" and st: "Start env s inp = Inr (s', c)"
  shows "store_ok s'"
proof -
  note a = Start_audit[OF st]
  have "refs_ok s'"
    by (rule refs_okI[OF store_okD(4)[OF ok]])
       (use a audited_events[OF a(1)] in \<open>auto simp: audited_def\<close>)
  moreover have "deps_ok s'" "task_ids_ok s'"
    using ok deps_ok_cong[of s' s] task_ids_ok_map[of s' s] Start_frame[OF st] a(4) by (simp_all add: store_ok_def)
  ultimately show ?thesis using Start_ok[OF store_okD(1)[OF ok] st] by (simp add: store_ok_def)
qed

lemma cycle_frame_store_ok:
  assumes "store_ok s" "cycles_ok s'" "refs_ok s'" "db_deps s' = db_deps s \<and> db_tasks s' = db_tasks s"
  shows "store_ok s'"
  using assms deps_ok_cong[of s' s] task_ids_ok_map[of s' s] by (simp add: store_ok_def)

lemma image_update_where: "(\<And>r. g (f r) = g r) \<Longrightarrow> g ` set (update_where P f rs) = g ` set rs"
  by (metis list.set_map map_update_where)

lemma cycle_keys_update [simp]:
  "(\<lambda>c. (cycle_ID c, cycle_TaskID c)) ` set (db_cycles (set_cycle_status i st at s)) =
   (\<lambda>c. (cycle_ID c, cycle_TaskID c)) ` set (db_cycles s)"
  "cycle_TaskID ` set (db_cycles (set_cycle_status i st at s)) = cycle_TaskID ` set (db_cycles s)"
  by (simp_all add: set_cycle_status_def image_update_where)

lemma Terminate_store_ok:
  assumes ok: "store_ok s" and t: "Terminate env s i st r by = Inr (s', c)"
  shows "store_ok s'"
proof -
  note a = Terminate_audit[OF t] and f = Terminate_frame[OF t]
  have "refs_ok s'"
  proof (rule refs_okI[OF store_okD(4)[OF ok]])
    show "cycle_TaskID x \<in> cycle_TaskID ` set (db_cycles s) \<or> cycle_TaskID x \<in> task_ID ` set (db_tasks s')"
      if "x \<in> set (db_cycles s')" for x using that a(2) cycle_keys_update(2) by (metis imageI)
  qed (use f a in \<open>auto dest: audited_events\<close>)
  then show ?thesis using cycle_frame_store_ok[OF ok Terminate_ok[OF store_okD(1)[OF ok] t]] f by blast
qed

lemma StartPhase_store_ok:
  assumes ok: "store_ok s" and t: "StartPhase env s i ph by = Inr (s', p)"
  shows "store_ok s'"
proof -
  note a = StartPhase_audit[OF t] and f = StartPhase_frame[OF t]
  obtain c where c: "c \<in> set (db_cycles s)" "cycle_ID c = ph_CycleID p" "audited s s' (cycle_TaskID c) EventPhaseStarted by"
    using a(1) by blast
  obtain n row where row: "db_phases s' = update_where (\<lambda>x. ph_ID x = ph_ID row) (\<lambda>p. p\<lparr>ph_EventSeq := Some n\<rparr>) (db_phases s @ [row])"
    "p = row\<lparr>ph_EventSeq := Some n\<rparr>" using a(5) by blast
  have keys: "ph_CycleID ` set (db_phases s') = insert (ph_CycleID p) (ph_CycleID ` set (db_phases s))"
    unfolding row(1) using row(2) by (subst image_update_where) auto
  have "refs_ok s'"
  proof (rule refs_okI[OF store_okD(4)[OF ok]])
    show "ph_CycleID x \<in> ph_CycleID ` set (db_phases s) \<or> ph_CycleID x \<in> cycle_ID ` set (db_cycles s')"
      if "x \<in> set (db_phases s')" for x
      using keys that c(1,2) a(2) by (metis imageI insert_iff)
  qed (use f a audited_events[OF c(3)] in auto)
  then show ?thesis using cycle_frame_store_ok[OF ok StartPhase_ok[OF store_okD(1)[OF ok] t]] f by blast
qed

lemma CompletePhase_store_ok:
  assumes ok: "store_ok s" and t: "CompletePhase env s inp = Inr (s', p)"
  shows "store_ok s'"
proof -
  note a = CompletePhase_audit[OF t] and f = CompletePhase_frame[OF t]
  from a(5) obtain q :: cycle_phase and m n where q: "db_phases s' = update_where (\<lambda>x. ph_ID x = ph_ID q)
         (\<lambda>x. (complete_update inp (tx_now env) m x)\<lparr>ph_EventSeq := Some n\<rparr>) (db_phases s)" by (elim exE conjE) (rule that)
  have keys: "ph_CycleID ` set (db_phases s') = ph_CycleID ` set (db_phases s)" unfolding q by (rule image_update_where) simp
  have "refs_ok s'"
  proof (rule refs_okI[OF store_okD(4)[OF ok]])
    show "ph_CycleID x \<in> ph_CycleID ` set (db_phases s) \<or> ph_CycleID x \<in> cycle_ID ` set (db_cycles s')"
      if "x \<in> set (db_phases s')" for x using keys that by blast
    show "e \<in> set (db_events s) \<or> ev_TaskID e \<in> task_ID ` set (db_tasks s')" if "e \<in> set (db_events s')" for e
      using a(1) f that audited_events by metis
  qed (use f a in auto)
  then show ?thesis using cycle_frame_store_ok[OF ok CompletePhase_ok[OF store_okD(1)[OF ok] t]] f by blast
qed

lemma AppendStreamEvent_store_ok:
  assumes ok: "store_ok s" and t: "AppendStreamEvent env s inp = Inr (s', e)"
  shows "store_ok s'"
proof -
  from t obtain c p where i: "insert_stream s e = Inr s'" and l: "loadByID s (se_CycleID e) = Inr c" "cycle_TaskID c = se_TaskID e"
    by (elim AppendStreamEventE)
  note d = insert_streamD[OF i]
  have "(se_CycleID e, se_TaskID e) \<in> (\<lambda>c. (cycle_ID c, cycle_TaskID c)) ` set (db_cycles s)"
    using loadByIDD[OF l(1)] l(2) by (metis (mono_tags, lifting) imageI)
  then have "refs_ok s'" by (intro refs_okI[OF store_okD(4)[OF ok]]) (auto simp: d)
  then show ?thesis using cycle_frame_store_ok[OF ok AppendStreamEvent_ok[OF store_okD(1)[OF ok] t]] d by simp
qed

section \<open>The step relation of the store\<close>

inductive store_step :: "db \<Rightarrow> db \<Rightarrow> bool" where
  create_task: "uuid_ok env \<Longrightarrow> Task_Create env iid cid s inp by = Inr (s', t) \<Longrightarrow> store_step s s'"
| update_task: "Task_Update env s i upd by = Inr (s', r) \<Longrightarrow> store_step s s'"
| delete_task: "Task_Delete s i by = Inr (s', ids) \<Longrightarrow> store_step s s'"
| agent_pickup: "AgentPickup env s i by = Inr (s', apr) \<Longrightarrow> store_step s s'"
| request_retry: "RequestTaskRetry env s rri by = Inr (s', r) \<Longrightarrow> store_step s s'"
| gate_action: "ApplyTaskGateAction env s i a by = Inr (s', r) \<Longrightarrow> store_step s s'"
| add_dependency: "AddDependency at s i d sat = Inr s' \<Longrightarrow> store_step s s'"
| remove_dependency: "RemoveDependency s i d = Inr s' \<Longrightarrow> store_step s s'"
| set_dependencies: "SetDependencies at s i es = Inr s' \<Longrightarrow> store_step s s'"
| add_criterion: "Checklist_Add env ids s t x cmds by = Inr (s', it) \<Longrightarrow> store_step s s'"
| delete_criterion: "Checklist_Delete env rep s t i by = Inr s' \<Longrightarrow> store_step s s'"
| edit_criterion: "Checklist_UpdateText env s t i x by = Inr s' \<Longrightarrow> store_step s s'"
| toggle_criterion: "Checklist_SetDone env s t i done by = Inr s' \<Longrightarrow> store_step s s'"
| evidence: "SetDoneWithEvidence env s t i ev v r c by = Inr (s', ch) \<Longrightarrow> store_step s s'"
| verify_commands: "ReplaceVerifyCommands ids s t i cmds by = Inr s' \<Longrightarrow> store_step s s'"
| event_appended: "Events_Append env s i typ by data = Inr s' \<Longrightarrow> store_step s s'"
| thread_message: "AppendResponseMessage env s i seq msg by = Inr s' \<Longrightarrow> store_step s s'"
| cycle_op: "cycle_step s s' \<Longrightarrow> store_step s s'"

inductive store_reachable :: "db \<Rightarrow> bool" where
  reachable_empty: "store_reachable empty_db"
| reachable_step: "store_reachable s \<Longrightarrow> store_step s s' \<Longrightarrow> store_reachable s'"

lemma cycle_step_store_ok: "cycle_step s s' \<Longrightarrow> store_ok s \<Longrightarrow> store_ok s'"
  by (induction rule: cycle_step.induct)
     (auto intro: Start_store_ok Terminate_store_ok StartPhase_store_ok CompletePhase_store_ok AppendStreamEvent_store_ok)

lemma store_step_ok: "store_step s s' \<Longrightarrow> store_ok s \<Longrightarrow> store_ok s'"
proof (induction rule: store_step.induct)
  case (update_task env s i upd actor s' r)
  then show ?case by (cases r) (auto intro: Task_Update_store_ok)
next
  case (request_retry env s rri actor s' r)
  then show ?case by (cases r) (auto intro: RequestTaskRetry_store_ok)
next
  case (gate_action env s i a actor s' r)
  then show ?case by (cases r) (auto intro: ApplyTaskGateAction_store_ok)
qed (blast intro: Task_Create_store_ok Task_Delete_store_ok AgentPickup_store_ok AddDependency_store_ok
       RemoveDependency_store_ok SetDependencies_store_ok Checklist_Add_ok Checklist_Delete_ok Checklist_UpdateText_ok
       Checklist_SetDone_ok SetDoneWithEvidence_ok ReplaceVerifyCommands_ok Events_Append_store_ok
       AppendResponseMessage_store_ok cycle_step_store_ok)+

lemma empty_db_store_ok: "store_ok empty_db"
proof -
  have "acyclic ({} :: (string \<times> string) set)" by (simp add: wf_acyclic)
  then show ?thesis using empty_db_cycles_ok
    by (simp add: store_ok_def deps_ok_def task_ids_ok_def refs_ok_def dep_edges_def empty_db_def)
qed

lemma store_reachable_ok: "store_reachable s \<Longrightarrow> store_ok s"
  by (induction rule: store_reachable.induct) (auto intro: empty_db_store_ok store_step_ok)

end
