(* ===== verification/System_Properties.thy ===== *)
theory System_Properties
  imports Store_System
begin

text \<open>
  Properties of the store as a system: what holds in every reachable database, the worker's
  pickup, the operator's retry, the gate actions, completion through an update and the clean-up
  done by a delete.
\<close>

section \<open>Reading back a saved row\<close>

lemma find_update_where:
  "P y \<Longrightarrow> List.find P (update_where P (\<lambda>_. y) rs) = map_option (\<lambda>_. y) (List.find P rs)"
  by (induction rs) (auto simp: update_where_def)

lemma LoadTask_save:
  assumes "LoadTask s (task_ID t) = Inr u"
  shows "LoadTask (save_task s t) (task_ID t) = Inr (row_of t)"
  using assms find_update_where[of "\<lambda>r. task_ID r = task_ID t" "row_of t" "db_tasks s"]
  by (auto simp: LoadTask_def save_task_def split: option.splits)

lemma AppendEvent_LoadTask: "AppendEvent now s t n typ by data = Inr s' \<Longrightarrow> LoadTask s' i = LoadTask s i"
  by (auto simp: AppendEvent_def insert_event_def LoadTask_def split: sum.splits if_splits)

lemma applyStatusPatchE:
  assumes "applyStatusPatch at i by (Some v) (s, cur, n) = Inr (s1, cur', n')"
  obtains "ValidStatus v" "cur' = cur\<lparr>task_Status := v\<rparr>" "s1 = s" "n' = n" "v = task_Status cur"
  | "ValidStatus v" "cur' = cur\<lparr>task_Status := v\<rparr>" "v \<noteq> task_Status cur" "n' = n + 1"
    "v = StatusDone \<longrightarrow> ValidateCanMarkDoneInTx s i = Inr ()"
    "AppendEvent at s i n EventStatusChanged by (EventPairJSON (status_str (task_Status cur)) (status_str v)) = Inr s1"
proof (cases "v = task_Status cur")
  case True
  then have "cur' = cur\<lparr>task_Status := v\<rparr>" "s1 = s" "n' = n" "ValidStatus v"
    using assms by (auto simp: applyStatusPatch_def if_Inl_Inr_iff)
  then show ?thesis using that(1) True by blast
next
  case False
  have "ValidStatus v" "cur' = cur\<lparr>task_Status := v\<rparr>" "n' = n + 1"
    "v = StatusDone \<longrightarrow> ValidateCanMarkDoneInTx s i = Inr ()"
    "AppendEvent at s i n EventStatusChanged by (EventPairJSON (status_str (task_Status cur)) (status_str v)) = Inr s1"
    using assms False by (auto simp: applyStatusPatch_def append_patch_event_def if_Inl_Inr_iff Let_def)
  then show ?thesis using that(2) False by blast
qed

lemma EventPairJSON_normalizes: "\<exists>obj. NormalizeJSONObject (EventPairJSON a b) f = Inr obj"
  by (simp add: NormalizeJSONObject_def EventPairJSON_def)

section \<open>What every reachable database satisfies\<close>

definition running_cycles :: "db \<Rightarrow> string \<Rightarrow> task_cycle list" where
  "running_cycles s t = filter (\<lambda>c. cycle_TaskID c = t \<and> cycle_Status c = CycleStatusRunning) (db_cycles s)"

definition running_phases :: "db \<Rightarrow> string \<Rightarrow> cycle_phase list" where
  "running_phases s i = filter (\<lambda>p. ph_CycleID p = i \<and> ph_Status p = PhaseStatusRunning) (db_phases s)"

definition audit_numbers :: "db \<Rightarrow> string \<Rightarrow> int list" where
  "audit_numbers s t = map ev_Seq (filter (\<lambda>e. ev_TaskID e = t) (db_events s))"

lemma running_phases_le_1:
  assumes "cycles_ok s"
  shows "length (running_phases s i) \<le> 1"
proof (cases "running_phases s i")
  case (Cons p ps)
  have f: "running_phases s i = filter (\<lambda>p. ph_Status p = PhaseStatusRunning) (cycle_phases s i)"
    by (simp add: running_phases_def cycle_phases_def conj_commute)
  have p: "p \<in> set (cycle_phases s i)" "ph_Status p = PhaseStatusRunning"
  proof -
    have "p \<in> set (filter (\<lambda>p. ph_Status p = PhaseStatusRunning) (cycle_phases s i))"
      unfolding f[symmetric] Cons by (rule list.set_intros(1))
    then show "p \<in> set (cycle_phases s i)" "ph_Status p = PhaseStatusRunning"
      unfolding set_filter mem_Collect_eq by (rule conjunct1, rule conjunct2)
  qed
  obtain qs where qs: "cycle_phases s i = qs @ [p]"
    using phase_path_running_last[OF cycles_okD(10)[OF assms] p(1)] p(2) by auto
  have "q \<notin> set qs \<or> ph_Status q \<noteq> PhaseStatusRunning" for q
  proof (rule ccontr)
    assume q: "\<not> (q \<notin> set qs \<or> ph_Status q \<noteq> PhaseStatusRunning)"
    then obtain rs where "cycle_phases s i = rs @ [q]"
      using phase_path_running_last[OF cycles_okD(10)[OF assms], of q i] qs by auto
    then have "q = p" using qs by simp
    moreover have "distinct (map ph_ID (cycle_phases s i))"
      unfolding cycle_phases_def using cycles_okD(2)[OF assms] by (simp add: distinct_map_filter)
    ultimately show False using q qs by auto
  qed
  then have "filter (\<lambda>p. ph_Status p = PhaseStatusRunning) qs = []" unfolding filter_empty_conv by blast
  then show ?thesis unfolding f qs by simp
qed simp

text \<open>C1. In every database the store can reach from an empty one, whatever the order of task,
  checklist, dependency and cycle operations: a task has at most one running cycle, a cycle at most
  one running phase, the audit log of a task is numbered 1, 2, 3, ... without gaps, the dependency
  graph is acyclic, and no cycle, phase, audit row or stream row outlives its task.\<close>

theorem reachable_store_invariant:
  assumes "store_reachable s"
  shows "length (running_cycles s t) \<le> 1 \<and> length (running_phases s i) \<le> 1 \<and>
    audit_numbers s t = map int [1..<Suc (length (audit_numbers s t))] \<and>
    acyclic (set (dep_edges s)) \<and> refs_ok s"
proof -
  note ok = store_reachable_ok[OF assms] and c = cycles_okD[OF store_okD(1)[OF store_reachable_ok[OF assms]]]
  have "numbered (audit_numbers s t)" using c(5) by (simp add: numbered_by_def audit_numbers_def)
  moreover have "acyclic (set (dep_edges s))" using store_okD(2)[OF ok] by (simp add: deps_ok_def)
  ultimately show ?thesis
    using c(9)[of t] running_phases_le_1[OF store_okD(1)[OF ok]] store_okD(4)[OF ok]
    unfolding running_cycles_def numbered_def by blast
qed

definition sample_create :: create_input where
  "sample_create = \<lparr>cin_ID = ''t'', cin_DraftID = [], cin_Title = ''Title'', cin_InitialPrompt = ''do'', cin_Status = StatusOther [],
     cin_Priority = PriorityMedium, cin_ProjectID = None, cin_ProjectContextItemIDs = [], cin_Runner = [], cin_CursorModel = [],
     cin_PickupNotBefore = None, cin_Tags = [''a'', '' a '', ''b''], cin_Milestone = None, cin_Gate = None, cin_DependsOn = [],
     cin_ChecklistItems = [\<lparr>ccii_Text = ''works'', ccii_VerifyCommands = []\<rparr>], cin_WorktreeID = None\<rparr>"

definition sample_created :: "(db \<times> task) res" where
  "sample_created = Task_Create (sample_env ''u'') (\<lambda>_. ''i'') (\<lambda>_ _. ''k'') empty_db sample_create ActorUser"

definition created_db :: db where
  "created_db = (case sample_created of Inl _ \<Rightarrow> empty_db | Inr (s, _) \<Rightarrow> s)"

lemma sample_created_ok:
  "case sample_created of Inl _ \<Rightarrow> False | Inr (s, t) \<Rightarrow>
     task_Status t = StatusReady \<and> task_Tags t = [''a'', ''b''] \<and> map ev_Seq (db_events s) = [1, 2] \<and>
     length (db_tasks s) = 1 \<and> trim_space ''u'' = ''u''"
  by code_simp

lemma created_db_reachable: "store_reachable created_db"
proof -
  obtain s t where st: "sample_created = Inr (s, t)" "trim_space ''u'' = ''u''"
    using sample_created_ok by (auto split: sum.splits)
  have "store_step empty_db s"
    by (rule store_step.create_task[OF _ st(1)[unfolded sample_created_def]])
       (use st(2) in \<open>simp add: uuid_ok_def sample_env_def\<close>)
  then have "store_reachable s" by (rule reachable_step[OF reachable_empty])
  then show ?thesis unfolding created_db_def st(1) by simp
qed

theorem reachable_store_invariant_witness:
  "length (running_cycles created_db ''t'') \<le> 1 \<and> length (running_phases created_db ''c'') \<le> 1 \<and>
    audit_numbers created_db ''t'' = map int [1..<Suc (length (audit_numbers created_db ''t''))] \<and>
    acyclic (set (dep_edges created_db)) \<and> refs_ok created_db"
  by (rule reachable_store_invariant[OF created_db_reachable])

section \<open>Pickup\<close>

lemma hydrateDependsOn_succeeds:
  "trim_space (task_ID t) \<noteq> [] \<Longrightarrow> \<exists>es. hydrateDependsOn s t = Inr (t\<lparr>task_DependsOn := es\<rparr>)"
  unfolding hydrateDependsOn_def ListDependencyEdges_def Let_def if_not_P rbind_simps by blast

lemma hydrateDependsOn_row:
  assumes "hydrateDependsOn s t = Inr u"
  shows "\<exists>es. u = t\<lparr>task_DependsOn := es\<rparr>"
  using assms unfolding hydrateDependsOn_def 
  by (elim rbind_InrE) (drule sum.inject(2)[THEN iffD1], rule exI, erule sym)

lemma LoadTask_trim: "store_ok s \<Longrightarrow> LoadTask s i = Inr t \<Longrightarrow> trim_space i = i \<and> i \<noteq> []"
  using store_ok_task_id(1,2)[OF _ LoadTask_mem] by (intro conjI)

lemma applyStatusPatch_succeeds:
  assumes "store_ok s" "i \<in> task_ID ` set (db_tasks s)" "NextEventSeq s i = Inr n" "ValidStatus v" "v \<noteq> StatusDone"
  shows "\<exists>s1 n'. applyStatusPatch at i by (Some v) (s, cur, n) = Inr (s1, cur\<lparr>task_Status := v\<rparr>, n')"
proof (cases "v = task_Status cur")
  case True
  then show ?thesis using assms(4) by (simp add: applyStatusPatch_def)
next
  case False
  obtain obj where "NormalizeJSONObject (EventPairJSON (status_str (task_Status cur)) (status_str v)) ''data'' = Inr obj"
    using EventPairJSON_normalizes by blast
  from insert_event_succeeds[OF store_okD(1)[OF assms(1)] assms(2) this, of at EventStatusChanged "by"]
  obtain s1 where "AppendEvent at s i n EventStatusChanged by (EventPairJSON (status_str (task_Status cur)) (status_str v)) = Inr s1"
    using assms(3) by auto
  then show ?thesis using False assms(4,5) by (simp add: applyStatusPatch_def append_patch_event_def Let_def)
qed

lemma NextEventSeq_ex: "i \<in> task_ID ` set (db_tasks s) \<Longrightarrow> \<exists>n. NextEventSeq s i = Inr n"
  by (auto simp: NextEventSeq_def)

lemma agent_pickup_succeeds_cond:
  assumes "store_ok s" and r: "ValidateActor by = Inr () \<and> (\<exists>t. LoadTask s (trim_space i) = Inr t \<and> task_Status t = StatusReady)"
  shows "\<exists>s' r. AgentPickup env s i by = Inr (s', r)"
proof -
  from r obtain t where t: "LoadTask s (trim_space i) = Inr t" "task_Status t = StatusReady" by blast
  have ne: "trim_space i \<noteq> []" using LoadTask_trim[OF assms(1) t(1)] by blast
  obtain n where n: "NextEventSeq s (trim_space i) = Inr n" using NextEventSeq_ex LoadTask_mem[OF t(1)] by blast
  let ?cur = "t\<lparr>task_PendingRetry := None\<rparr>"
  have "ValidStatus StatusRunning" by simp
  then obtain s1 n' where p: "applyStatusPatch (tx_evnow env) (trim_space i) by (Some StatusRunning) (s, ?cur, n) =
      Inr (s1, ?cur\<lparr>task_Status := StatusRunning\<rparr>, n')"
    using applyStatusPatch_succeeds[OF assms(1) LoadTask_mem[OF t(1)] n] by blast
  obtain es where h: "hydrateDependsOn (save_task s1 (?cur\<lparr>task_Status := StatusRunning\<rparr>)) (?cur\<lparr>task_Status := StatusRunning\<rparr>)
      = Inr (?cur\<lparr>task_Status := StatusRunning, task_DependsOn := es\<rparr>)"
    using hydrateDependsOn_succeeds[of "?cur\<lparr>task_Status := StatusRunning\<rparr>"] ne LoadTaskD(2)[OF t(1)] by auto
  show ?thesis
    using r t ne n p h by (simp add: AgentPickup_def)
qed

text \<open>The worker's pickup of a task succeeds exactly when the actor is a known one and the task
  exists with status ready; every other state of the row is refused without a write.\<close>

theorem agent_pickup_succeeds_iff:
  assumes "store_ok s"
  shows "(\<exists>s' r. AgentPickup env s i by = Inr (s', r)) \<longleftrightarrow>
     ValidateActor by = Inr () \<and> (\<exists>t. LoadTask s (trim_space i) = Inr t \<and> task_Status t = StatusReady)"
proof
  assume "\<exists>s' r. AgentPickup env s i by = Inr (s', r)"
  then show "ValidateActor by = Inr () \<and> (\<exists>t. LoadTask s (trim_space i) = Inr t \<and> task_Status t = StatusReady)"
    by (elim exE AgentPickupE) blast
qed (use agent_pickup_succeeds_cond[OF assms] in blast)

lemma created_db_ok: "store_ok created_db"
  by (rule store_reachable_ok[OF created_db_reachable])

lemma created_db_ready: "case LoadTask created_db (trim_space ''t'') of Inl _ \<Rightarrow> False | Inr t \<Rightarrow> task_Status t = StatusReady"
  by code_simp

theorem agent_pickup_succeeds_iff_witness:
  "\<exists>s' r. AgentPickup (sample_env ''x'') created_db ''t'' ActorAgent = Inr (s', r)"
  unfolding agent_pickup_succeeds_iff[OF created_db_ok]
  using created_db_ready by (auto split: sum.splits)

text \<open>C10. A pickup happens once: it turns the row to running, hands out the pending retry of the row
  and clears it, logs one status change, and no later pickup of the same task succeeds until the
  status is changed again.\<close>

theorem agent_pickup_once:
  assumes "store_ok s" "AgentPickup env s i by = Inr (s', r)"
  shows "(\<exists>t. LoadTask s (trim_space i) = Inr t \<and> task_Status t = StatusReady \<and> apr_ConsumedRetry r = task_PendingRetry t) \<and>
    (\<exists>t'. LoadTask s' (trim_space i) = Inr t' \<and> task_Status t' = StatusRunning \<and> task_PendingRetry t' = None) \<and>
    audited s s' (trim_space i) EventStatusChanged by \<and>
    (\<forall>env2 by2. \<nexists>q. AgentPickup env2 s' i by2 = Inr q)"
proof -
  from assms(2) obtain dcur n s1 dcur' n' where l: "LoadTask s (trim_space i) = Inr dcur" "task_Status dcur = StatusReady"
    and n: "NextEventSeq s (trim_space i) = Inr n"
    and p: "applyStatusPatch (tx_evnow env) (trim_space i) by (Some StatusRunning) (s, dcur\<lparr>task_PendingRetry := None\<rparr>, n)
       = Inr (s1, dcur', n')" and s': "s' = save_task s1 dcur'" and c: "apr_ConsumedRetry r = task_PendingRetry dcur"
    by (elim AgentPickupE)
  have p': "AppendEvent (tx_evnow env) s (trim_space i) n EventStatusChanged by
        (EventPairJSON (status_str StatusReady) (status_str StatusRunning)) = Inr s1"
    "dcur' = dcur\<lparr>task_PendingRetry := None, task_Status := StatusRunning\<rparr>"
    using p l(2) by (auto elim!: applyStatusPatchE)
  have id': "task_ID dcur' = trim_space i" using LoadTaskD(2)[OF l(1)] p'(2) by simp
  have "LoadTask s1 (task_ID dcur') = Inr dcur" using AppendEvent_LoadTask[OF p'(1)] l(1) id' by simp
  then have l': "LoadTask s' (trim_space i) = Inr (row_of dcur')" using LoadTask_save id' s' by metis
  moreover have "task_Status (row_of dcur') = StatusRunning" "task_PendingRetry (row_of dcur') = None" using p'(2) by simp_all
  moreover have "audited s s' (trim_space i) EventStatusChanged by"
    using AppendEvent_audited(1)[OF n p'(1)] s' by (simp add: audited_def save_task_def)
  moreover have "\<nexists>q. AgentPickup env2 s' i by2 = Inr q" for env2 by2
  proof
    assume "\<exists>q. AgentPickup env2 s' i by2 = Inr q"
    then obtain t where "LoadTask s' (trim_space i) = Inr t" "task_Status t = StatusReady"
      by (auto elim!: AgentPickupE)
    then show False using l' \<open>task_Status (row_of dcur') = StatusRunning\<close> by simp
  qed
  ultimately show ?thesis using l c by blast
qed

theorem agent_pickup_once_witness:
  "\<exists>s' r. AgentPickup (sample_env ''x'') created_db ''t'' ActorAgent = Inr (s', r) \<and>
     (\<nexists>q. AgentPickup (sample_env ''y'') s' ''t'' ActorAgent = Inr q)"
proof -
  obtain t where "LoadTask created_db (trim_space ''t'') = Inr t" "task_Status t = StatusReady"
    using created_db_ready by (auto split: sum.splits)
  then obtain s' r where "AgentPickup (sample_env ''x'') created_db ''t'' ActorAgent = Inr (s', r)"
    using agent_pickup_succeeds_cond[OF created_db_ok, of ActorAgent "''t''"] by fastforce
  then show ?thesis using agent_pickup_once[OF created_db_ok] by blast
qed

section \<open>The operator's retry\<close>

lemma resolveRetryParentCycle_spec:
  assumes "resolveRetryParentCycle s i e = Inr p"
  shows "\<exists>c\<in>set (db_cycles s). cycle_TaskID c = i \<and> TerminalCycleStatus (cycle_Status c) \<and> cycle_ID c = p"
proof (cases "trim_space e = []")
  case True
  let ?rows = "take 50 (sort_key (\<lambda>c. - cycle_AttemptSeq c) (filter (\<lambda>c. cycle_TaskID c = i) (db_cycles s)))"
  obtain c where c: "List.find (\<lambda>c. TerminalCycleStatus (cycle_Status c)) ?rows = Some c" "cycle_ID c = p"
    using assms True by (auto simp: resolveRetryParentCycle_def Let_def split: option.splits)
  have "c \<in> set ?rows" "TerminalCycleStatus (cycle_Status c)"
    using c(1) unfolding find_Some_iff by (metis nth_mem)+
  moreover have "set ?rows \<subseteq> {c \<in> set (db_cycles s). cycle_TaskID c = i}" by (rule order_trans[OF set_take_subset]) simp
  ultimately show ?thesis using c(2) by blast
next
  case False
  obtain c where "loadByID s (trim_space e) = Inr c" "cycle_TaskID c = i" "TerminalCycleStatus (cycle_Status c)" "cycle_ID c = p"
    using assms False by (auto simp: resolveRetryParentCycle_def Let_def if_Inl_Inr_iff split: if_splits)
  then show ?thesis using loadByIDD(1) by blast
qed

lemma resolveRetryParentCycle_cong:
  "db_cycles s' = db_cycles s \<Longrightarrow> resolveRetryParentCycle s' i e = resolveRetryParentCycle s i e"
  by (simp add: resolveRetryParentCycle_def loadByID_def Let_def)

lemma PendingRetry_ValidateD:
  "PendingRetry_Validate (Some \<lparr>pr_Mode = m, pr_ParentCycleID = p\<rparr>) = Inr r \<Longrightarrow>
   m \<in> {RetryFresh, RetryResume} \<and> r = \<lparr>pr_Mode = m, pr_ParentCycleID = trim_space p\<rparr>"
  by (auto simp: PendingRetry_Validate_def Let_def split: if_splits)

lemma PendingRetry_Equal_iff: "PendingRetry_Equal p q \<longleftrightarrow> p = q"
  for p q :: "pending_retry option"
  by (cases p; cases q) (auto simp: PendingRetry_Equal_def)

text \<open>The row a successful request leaves behind, and the database it leaves.\<close>

lemma RequestTaskRetry_row:
  assumes ok: "store_ok s" and u: "RequestTaskRetry env s inp by = Inr (s', t, prev)"
  defines "i \<equiv> trim_space (rri_TaskID inp)"
  obtains parent intent row where "ValidateActor by = Inr ()" "resolveRetryParentCycle s i (trim_space (rri_ParentCycleID inp)) = Inr parent"
    "PendingRetry_Validate (Some \<lparr>pr_Mode = rri_Mode inp, pr_ParentCycleID = parent\<rparr>) = Inr intent"
    "LoadTask s' i = Inr row" "task_Status row = StatusReady" "task_PendingRetry row = Some intent"
    "db_cycles s' = db_cycles s" "i \<noteq> []"
proof -
  obtain dcur parent intent where v: "ValidateActor by = Inr ()" and l: "LoadTask s i = Inr dcur"
    and prev: "prev = task_Status dcur" and res: "resolveRetryParentCycle s i (trim_space (rri_ParentCycleID inp)) = Inr parent"
    and val: "PendingRetry_Validate (Some \<lparr>pr_Mode = rri_Mode inp, pr_ParentCycleID = parent\<rparr>) = Inr intent"
    and alt: "(s' = s \<and> t = dcur \<and> prev = StatusReady \<and> task_PendingRetry dcur = Some intent) \<or>
     (prev = StatusFailed \<and> (\<exists>n s1 s2 dcur' n'. NextEventSeq s i = Inr n \<and>
        AppendEvent (tx_evnow env) s i n EventTaskRetryRequested by (retry_payload intent) = Inr s1 \<and>
        applyStatusPatch (tx_evnow env) i by (Some StatusReady) (s1, dcur\<lparr>task_PendingRetry := Some intent\<rparr>, n + 1)
          = Inr (s2, dcur', n') \<and> s' = save_task s2 dcur' \<and> hydrateDependsOn s' dcur' = Inr t))"
    by (rule RequestTaskRetryE[OF u, folded i_def, unfolded PendingRetry_Equal_iff]) (rule that)
  have ne: "i \<noteq> []" using LoadTask_trim[OF ok l] by blast
  have "\<exists>row. LoadTask s' i = Inr row \<and> task_Status row = StatusReady \<and> task_PendingRetry row = Some intent \<and>
      db_cycles s' = db_cycles s"
    using alt
  proof (elim disjE conjE exE)
    assume "s' = s" "prev = StatusReady" "task_PendingRetry dcur = Some intent"
    then show ?thesis using l prev by simp
  next
    fix n s1 s2 dcur' n'
    assume e: "NextEventSeq s i = Inr n" "AppendEvent (tx_evnow env) s i n EventTaskRetryRequested by (retry_payload intent) = Inr s1"
      and p: "applyStatusPatch (tx_evnow env) i by (Some StatusReady) (s1, dcur\<lparr>task_PendingRetry := Some intent\<rparr>, n + 1)
          = Inr (s2, dcur', n')" and s': "s' = save_task s2 dcur'" and f: "prev = StatusFailed"
    have p': "AppendEvent (tx_evnow env) s1 i (n + 1) EventStatusChanged by
        (EventPairJSON (status_str StatusFailed) (status_str StatusReady)) = Inr s2"
      "dcur' = dcur\<lparr>task_PendingRetry := Some intent, task_Status := StatusReady\<rparr>"
      using p f prev by (auto elim!: applyStatusPatchE)
    have n1: "NextEventSeq s1 i = Inr (n + 1)" by (rule AppendEvent_next[OF e ok])
    have i': "task_ID dcur' = i" using LoadTaskD(2)[OF l] p'(2) by simp
    have "LoadTask s2 (task_ID dcur') = Inr dcur" using AppendEvent_LoadTask[OF p'(1)] AppendEvent_LoadTask[OF e(2)] l i' by simp
    then have "LoadTask s' i = Inr (row_of dcur')" using LoadTask_save i' s' by metis
    moreover have "db_cycles s' = db_cycles s"
      using AppendEvent_audited(2)[OF e] AppendEvent_audited(2)[OF n1 p'(1)] s' by (simp add: save_task_def)
    ultimately show ?thesis using p'(2) by simp
  qed
  then show ?thesis using that[OF v res val] ne by blast
qed

text \<open>A successful retry request leaves the task ready with the requested mode and a terminal
  cycle of that task as parent. Repeating it changes nothing more (an operator may click twice), a
  different intent is refused, and the next pickup hands exactly this intent to the worker.\<close>

theorem retry_request_effect:
  assumes "store_ok s" "RequestTaskRetry env s inp by = Inr (s', t, prev)"
  shows "\<exists>u intent. LoadTask s' (trim_space (rri_TaskID inp)) = Inr u \<and> task_Status u = StatusReady \<and>
     task_PendingRetry u = Some intent \<and> pr_Mode intent = rri_Mode inp \<and>
     (\<exists>c\<in>set (db_cycles s). cycle_TaskID c = trim_space (rri_TaskID inp) \<and> TerminalCycleStatus (cycle_Status c) \<and>
        pr_ParentCycleID intent = trim_space (cycle_ID c)) \<and>
     (\<forall>env2. RequestTaskRetry env2 s' inp by = Inr (s', u, StatusReady)) \<and>
     (\<forall>env2 m. m \<noteq> rri_Mode inp \<longrightarrow> (\<exists>e. RequestTaskRetry env2 s' (inp\<lparr>rri_Mode := m\<rparr>) by = Inl e)) \<and>
     (\<forall>env2. \<exists>s2 r. AgentPickup env2 s' (rri_TaskID inp) by = Inr (s2, r) \<and> apr_ConsumedRetry r = Some intent)"
proof -
  let ?i = "trim_space (rri_TaskID inp)"
  from RequestTaskRetry_row[OF assms] obtain parent intent row where v: "ValidateActor by = Inr ()"
    and res: "resolveRetryParentCycle s ?i (trim_space (rri_ParentCycleID inp)) = Inr parent"
    and val: "PendingRetry_Validate (Some \<lparr>pr_Mode = rri_Mode inp, pr_ParentCycleID = parent\<rparr>) = Inr intent"
    and row: "LoadTask s' ?i = Inr row" "task_Status row = StatusReady" "task_PendingRetry row = Some intent"
    and cyc: "db_cycles s' = db_cycles s" and ne: "?i \<noteq> []" by metis
  note it = PendingRetry_ValidateD[OF val] and res' = resolveRetryParentCycle_cong[OF cyc, THEN trans, OF res]
  have again: "RequestTaskRetry env2 s' inp by = Inr (s', row, StatusReady)" for env2
    using v ne row val res' by (simp add: RequestTaskRetry_def PendingRetry_Equal_iff Let_def)
  have other: "\<exists>e. RequestTaskRetry env2 s' (inp\<lparr>rri_Mode := m\<rparr>) by = Inl e" if "m \<noteq> rri_Mode inp" for env2 m
  proof (cases "PendingRetry_Validate (Some \<lparr>pr_Mode = m, pr_ParentCycleID = parent\<rparr>)")
    case (Inr intent')
    then have "intent' \<noteq> intent" using PendingRetry_ValidateD[OF Inr] it that by auto
    then show ?thesis using v ne row res' Inr by (simp add: RequestTaskRetry_def PendingRetry_Equal_iff Let_def)
  qed (use v ne row res' in \<open>simp add: RequestTaskRetry_def Let_def\<close>)
  have ok': "store_ok s'" by (rule RequestTaskRetry_store_ok[OF assms])
  have pick: "\<exists>s2 r. AgentPickup env2 s' (rri_TaskID inp) by = Inr (s2, r) \<and> apr_ConsumedRetry r = Some intent" for env2
  proof -
    obtain s2 r where p: "AgentPickup env2 s' (rri_TaskID inp) by = Inr (s2, r)"
      using agent_pickup_succeeds_cond[OF ok'] v row by metis
    then show ?thesis using row by (auto elim!: AgentPickupE)
  qed
  show ?thesis
    using row resolveRetryParentCycle_spec[OF res] it again other pick
    by (intro exI[of _ row] exI[of _ intent]) (auto 0 3)
qed

text \<open>A run of the store: the created task is picked up, its attempt fails, the task is set to failed.\<close>

definition failed_run :: "db res" where
  "failed_run =
     rbind (AgentPickup (sample_env ''x'') created_db ''t'' ActorAgent) (\<lambda>(s1, _).
     rbind (Start (sample_env ''c'') s1 \<lparr>sci_TaskID = ''t'', sci_TriggeredBy = ActorAgent, sci_ParentCycleID = None, sci_Meta = PBlank\<rparr>)
       (\<lambda>(s2, _).
     rbind (Terminate (sample_env ''y'') s2 ''c'' CycleStatusFailed ''boom'' ActorAgent) (\<lambda>(s3, _).
     rbind (Task_Update (sample_env ''z'') s3 ''t'' (empty_update\<lparr>uin_Status := Some StatusFailed\<rparr>) ActorAgent) (\<lambda>(s4, _).
     Inr s4))))"

lemma failed_run_reachable: "failed_run = Inr s \<Longrightarrow> store_reachable s"
  unfolding failed_run_def
  by (auto intro!: reachable_step[OF reachable_step[OF reachable_step[OF reachable_step[OF created_db_reachable]]]]
      intro: store_step.agent_pickup store_step.update_task store_step.cycle_op cycle_step.intros)

definition sample_retry :: request_retry_input where
  "sample_retry = \<lparr>rri_TaskID = ''t'', rri_Mode = RetryResume, rri_ParentCycleID = []\<rparr>"

lemma failed_run_retry:
  "case failed_run of Inl _ \<Rightarrow> False | Inr s \<Rightarrow>
     (case RequestTaskRetry (sample_env ''r'') s sample_retry ActorUser of Inl _ \<Rightarrow> False | Inr _ \<Rightarrow> True)"
  by code_simp

theorem retry_request_effect_witness:
  "\<exists>s s' t prev u intent. failed_run = Inr s \<and> RequestTaskRetry (sample_env ''r'') s sample_retry ActorUser = Inr (s', t, prev) \<and>
     LoadTask s' (trim_space (rri_TaskID sample_retry)) = Inr u \<and> task_PendingRetry u = Some intent \<and>
     pr_Mode intent = rri_Mode sample_retry"
proof -
  obtain s s' t prev where r: "failed_run = Inr s" "RequestTaskRetry (sample_env ''r'') s sample_retry ActorUser = Inr (s', t, prev)"
    using failed_run_retry by (auto split: sum.splits)
  from retry_request_effect[OF store_reachable_ok[OF failed_run_reachable[OF r(1)]] r(2)] r show ?thesis by blast
qed

section \<open>Gate actions\<close>

lemma Task_Update_gate:
  assumes "Task_Update env s i (empty_update\<lparr>uin_Gate := Some g\<rparr>) by = Inr (s', t, prev)"
  shows "\<exists>u. LoadTask s (trim_space i) = Inr u \<and> s' = save_task s (u\<lparr>task_Gate := g\<rparr>)"
proof -
  from assms obtain dcur n s1 dcur' n' where l: "LoadTask s (trim_space i) = Inr dcur"
    and p: "applyTaskPatches env (trim_space i) (empty_update\<lparr>uin_Gate := Some g\<rparr>) by (s, dcur, n) = Inr (s1, dcur', n')"
    and s': "s' = save_task s1 dcur'" by (elim Task_UpdateE)
  have "applyTaskPatches env (trim_space i) (empty_update\<lparr>uin_Gate := Some g\<rparr>) by (s, dcur, n) = Inr (s, dcur\<lparr>task_Gate := g\<rparr>, n)"
    by (simp add: applyTaskPatches_def empty_update_def applyTitlePatch_def applyInitialPromptPatch_def applyPriorityPatch_def
        applyProjectPatch_def applyProjectContextSelectionPatch_def applyStatusPatch_def on_cur_def applyPickupNotBeforePatch_def
        applyCursorModelPatch_def applyTagsPatch_def applyMilestonePatch_def applyGatePatch_def applyDependsOnPatch_def
        applyPendingRetryPatch_def applyWorktreePatch_def)
  then show ?thesis using l p s' by auto
qed

text \<open>Whether a gate still blocks after an operator action: release opens it, hold keeps a pending one
  closed, clearing the hold opens a pending gate whose deadline has passed and changes nothing else.\<close>

definition blocks_after :: "gotime \<Rightarrow> string \<Rightarrow> task_gate \<Rightarrow> bool" where
  "blocks_after now action g =
     (if action = ''release'' then False
      else if action = ''hold'' then True
      else gate_Status g \<noteq> GateStatusReleased \<and>
           \<not> (gate_Status g = GateStatusPendingRelease \<and> (\<exists>d. gate_PendingReleaseDeadlineUTC g = Some d \<and> d \<le> now)))"

lemma gate_after_action_spec:
  assumes "gate_after_action now action g = Inr g'"
  shows "action \<in> {''release'', ''hold'', ''clear_hold''} \<and> GateBlocksWorker (Some g') = blocks_after now action g \<and>
    gate_Hold g' = (action = ''hold'') \<and> gate_Kind g' = gate_Kind g \<and> gate_Criteria g' = gate_Criteria g"
  using assms
  by (auto simp: gate_after_action_def blocks_after_def GateBlocksWorker_def Let_def split: if_splits option.splits)

text \<open>A gate action is one of release, hold and clear_hold (after trimming and lower-casing), it
  needs a gate, writes only the gate of the row, appends no audit row, and decides whether the worker
  stays blocked as \<open>blocks_after\<close> says.\<close>

theorem gate_action_effect:
  assumes "ApplyTaskGateAction env s i a by = Inr (s', t, prev)"
  shows "\<exists>u g g'. LoadTask s (trim_space i) = Inr u \<and> task_Gate u = Some g \<and>
     s' = save_task s (u\<lparr>task_Gate := Some g'\<rparr>) \<and>
     trim_space (map lower_ascii a) \<in> {''release'', ''hold'', ''clear_hold''} \<and>
     GateBlocksWorker (Some g') = blocks_after (tx_now env) (trim_space (map lower_ascii a)) g \<and>
     gate_Hold g' = (trim_space (map lower_ascii a) = ''hold'') \<and> db_events s' = db_events s"
proof -
  from assms obtain v g g' where v: "Task_Get s i = Inr v" "task_Gate v = Some g"
    and g': "gate_after_action (tx_now env) (trim_space (map lower_ascii a)) g = Inr g'"
    and u: "Task_Update env s i (empty_update\<lparr>uin_Gate := Some (Some g')\<rparr>) by = Inr (s', t, prev)"
    by (auto simp: ApplyTaskGateAction_def Let_def if_Inl_Inr_iff split: option.splits)
  from Task_Update_gate[OF u] obtain w where w: "LoadTask s (trim_space i) = Inr w" "s' = save_task s (w\<lparr>task_Gate := Some g'\<rparr>)"
    by blast
  have "task_Gate w = Some g"
    using v w(1) by (auto simp: Task_Get_def Let_def if_Inl_Inr_iff dest!: hydrateDependsOn_row)
  then show ?thesis
    using w gate_after_action_spec[OF g'] by (intro exI[of _ w] exI[of _ g] exI[of _ g']) (auto simp: save_task_def)
qed

definition sample_gated_db :: db where
  "sample_gated_db = sample_db\<lparr>db_tasks := [(sample_task ''t'')\<lparr>task_Gate := Some \<lparr>gate_Kind = GateKindManualApproval,
     gate_Status = GateStatusPendingRelease, gate_Hold = True, gate_PendingReleaseDeadlineUTC = Some 9, gate_Criteria = []\<rparr>\<rparr>]\<rparr>"

lemma sample_gate_clears:
  "case ApplyTaskGateAction (sample_env ''x'') sample_gated_db ''t'' '' Clear_Hold'' ActorUser of
     Inl _ \<Rightarrow> False | Inr (s', t, prev) \<Rightarrow> \<not> GateBlocksWorker (task_Gate t)"
  by code_simp

theorem gate_action_effect_witness:
  "\<exists>s' t prev u g. ApplyTaskGateAction (sample_env ''x'') sample_gated_db ''t'' '' Clear_Hold'' ActorUser = Inr (s', t, prev) \<and>
     LoadTask sample_gated_db (trim_space ''t'') = Inr u \<and> task_Gate u = Some g \<and> db_events s' = db_events sample_gated_db"
proof -
  obtain s' t prev where r: "ApplyTaskGateAction (sample_env ''x'') sample_gated_db ''t'' '' Clear_Hold'' ActorUser = Inr (s', t, prev)"
    using sample_gate_clears by (auto split: sum.splits)
  from gate_action_effect[OF r] r show ?thesis by blast
qed

end
