(* ===== verification/Done_Gate.thy ===== *)
theory Done_Gate
  imports System_Properties
begin

text \<open>
  No operation of the store turns a task done unless its checklist is complete: the frame rules on
  task statuses, then the theorem over every step. Also what a delete and a create leave behind.
\<close>

section \<open>Which operations touch a status\<close>

definition status_of :: "db \<Rightarrow> string \<Rightarrow> status option" where
  "status_of s i = map_option task_Status (List.find (\<lambda>t. task_ID t = i) (db_tasks s))"

definition same_status :: "db \<Rightarrow> db \<Rightarrow> bool" where
  "same_status s s' \<longleftrightarrow> map (\<lambda>t. (task_ID t, task_Status t)) (db_tasks s') = map (\<lambda>t. (task_ID t, task_Status t)) (db_tasks s)"

lemma same_status_tasks: "db_tasks s' = db_tasks s \<Longrightarrow> same_status s s'"
  by (simp add: same_status_def)

lemma same_status_trans: "same_status s s' \<Longrightarrow> same_status s' s'' \<Longrightarrow> same_status s s''"
  by (simp add: same_status_def)

lemma find_pair: "map_option g (List.find (\<lambda>t. f t = i) ts) = map_option snd (List.find (\<lambda>p. fst p = i) (map (\<lambda>t. (f t, g t)) ts))"
  by (induction ts) auto

lemma status_of_same: "same_status s s' \<Longrightarrow> status_of s' i = status_of s i"
  by (simp only: status_of_def same_status_def find_pair[where f = task_ID and g = task_Status])

lemma status_of_LoadTask: "LoadTask s i = Inr t \<Longrightarrow> status_of s i = Some (task_Status t)"
  by (auto simp: status_of_def LoadTask_def split: option.splits)

lemma status_of_save:
  "status_of (save_task s t) i = (if i = task_ID t then map_option (\<lambda>_. task_Status t) (status_of s i) else status_of s i)"
proof (cases "i = task_ID t")
  case True
  then show ?thesis using find_update_where[of "\<lambda>r. task_ID r = task_ID t" "row_of t" "db_tasks s"]
    by (simp add: status_of_def save_task_def option.map_comp comp_def)
next
  case False
  have "map_option task_Status (List.find (\<lambda>r. task_ID r = i) (update_where (\<lambda>r. task_ID r = task_ID t) (\<lambda>_. row_of t) rs)) =
        map_option task_Status (List.find (\<lambda>r. task_ID r = i) rs)" for rs
    using False by (induction rs) (simp_all add: update_where_def)
  then show ?thesis using False by (simp add: status_of_def save_task_def)
qed

lemma status_of_filter: "status_of (s\<lparr>db_tasks := filter (\<lambda>t. task_ID t \<noteq> j) (db_tasks s)\<rparr>) i = (if i = j then None else status_of s i)"
proof -
  have "List.find (\<lambda>t. task_ID t = i) (filter (\<lambda>t. task_ID t \<noteq> j) rs) = (if i = j then None else List.find (\<lambda>t. task_ID t = i) rs)"
    for rs :: "task list"
    by (cases "i = j") (induction rs; simp)+
  then show ?thesis by (simp add: status_of_def)
qed

lemma AppendEvent_status: "AppendEvent now s t n typ by data = Inr s' \<Longrightarrow> same_status s s'"
  by (auto simp: AppendEvent_def insert_event_def same_status_def split: sum.splits if_splits)

lemma set_criteria_flag_status: "same_status s (set_criteria_flag i v s)"
  by (simp add: same_status_def set_criteria_flag_def)

lemma sync_status: "syncCriteriaSatisfiedAtInTx now s i = Inr (s', ch) \<Longrightarrow> same_status s s'"
  by (auto simp: syncCriteriaSatisfiedAtInTx_def Let_def set_criteria_flag_status same_status_tasks split: option.splits if_splits)

lemma insert_item_status: "insert_item s i = Inr s' \<Longrightarrow> same_status s s'"
  by (auto simp: insert_item_def same_status_def split: if_splits)

lemma insert_commands_from_status: "insert_commands_from ids i s itemID cs = Inr s' \<Longrightarrow> db_tasks s' = db_tasks s"
proof (induction cs arbitrary: i s)
  case (Cons c cs)
  then show ?case by (fastforce simp: insert_command_def split: if_splits)
qed simp

lemma replaceCommandsInTx_status: "replaceCommandsInTx ids s itemID cmds = Inr s' \<Longrightarrow> same_status s s'"
  unfolding replaceCommandsInTx_def by (rule same_status_tasks) (drule insert_commands_from_status, simp)

lemmas status_frames = AppendEvent_status sync_status insert_item_status replaceCommandsInTx_status

lemma upsert_completion_tasks [simp]: "db_tasks (upsert_completion c s) = db_tasks s"
  by (simp add: upsert_completion_def)

lemma checklist_delete_tasks [simp]: "db_tasks (delete_item_rows s i) = db_tasks s" "db_tasks (delete_completions_of_item s i) = db_tasks s"
  by (simp_all add: delete_item_rows_def delete_completions_of_item_def)

lemma Checklist_Add_status: "Checklist_Add env ids s t x cmds by = Inr (s', it) \<Longrightarrow> same_status s s'"
  by (auto simp: Checklist_Add_def Let_def if_Inl_Inr_iff) (blast intro: same_status_trans dest: status_frames)

lemma Checklist_Delete_status: "Checklist_Delete env rep s t i by = Inr s' \<Longrightarrow> same_status s s'"
  by (auto simp: Checklist_Delete_def Let_def if_Inl_Inr_iff same_status_def dest!: AppendEvent_status)

lemma Checklist_UpdateText_status: "Checklist_UpdateText env s t i x by = Inr s' \<Longrightarrow> same_status s s'"
  by (auto simp: Checklist_UpdateText_def Let_def if_Inl_Inr_iff same_status_def split: if_splits dest!: AppendEvent_status)

lemma same_status_completions: "same_status (s\<lparr>db_completions := x\<rparr>) s' = same_status s s'"
  by (simp add: same_status_def)

lemma Checklist_SetDone_status: "Checklist_SetDone env s t i done by = Inr s' \<Longrightarrow> same_status s s'"
  by (auto simp: Checklist_SetDone_def Let_def if_Inl_Inr_iff same_status_tasks split: if_splits dest!: AppendEvent_status sync_status)
     (auto simp: same_status_completions intro: same_status_trans)

lemma SetDoneWithEvidence_status: "SetDoneWithEvidence env s t i ev v r c by = Inr (s', ch) \<Longrightarrow> same_status s s'"
  by (elim SetDoneWithEvidenceE) (drule AppendEvent_status sync_status, simp add: same_status_def)+

lemma ReplaceVerifyCommands_status: "ReplaceVerifyCommands ids s t i cmds by = Inr s' \<Longrightarrow> same_status s s'"
  by (auto simp: ReplaceVerifyCommands_def Let_def if_Inl_Inr_iff dest: replaceCommandsInTx_status)

lemma insert_edges_status: "insert_edges now s t es = Inr s' \<Longrightarrow> db_tasks s' = db_tasks s"
  using insert_edges_frame by fastforce

lemma dependency_status:
  "AddDependency at s i d sat = Inr s' \<Longrightarrow> same_status s s'"
  "RemoveDependency s i d = Inr s' \<Longrightarrow> same_status s s'"
  "SetDependencies at s i es = Inr s' \<Longrightarrow> same_status s s'"
proof -
  show "AddDependency at s i d sat = Inr s' \<Longrightarrow> same_status s s'"
    by (rule same_status_tasks)
       (auto simp: AddDependency_def insert_dep_def Let_def if_Inl_Inr_iff split: sum.splits err.splits if_splits)
  show "RemoveDependency s i d = Inr s' \<Longrightarrow> same_status s s'"
    by (rule same_status_tasks) (auto simp: RemoveDependency_def Let_def if_Inl_Inr_iff)
  show "SetDependencies at s i es = Inr s' \<Longrightarrow> same_status s s'"
    by (rule same_status_tasks) (auto simp: SetDependencies_def clear_deps_def Let_def if_Inl_Inr_iff dest!: insert_edges_status)
qed

lemma cycle_step_status: "cycle_step s s' \<Longrightarrow> same_status s s'"
  by (rule same_status_tasks, induction rule: cycle_step.induct)
     (auto dest: Start_frame Terminate_frame StartPhase_frame CompletePhase_frame elim!: AppendStreamEventE dest!: insert_streamD)

section \<open>Frames of the patches\<close>

definition patch_frame :: "patch_state \<Rightarrow> patch_state \<Rightarrow> bool" where
  "patch_frame st st' \<longleftrightarrow> db_items (fst st') = db_items (fst st) \<and> db_completions (fst st') = db_completions (fst st) \<and>
     db_tasks (fst st') = db_tasks (fst st) \<and> task_Status (fst (snd st')) = task_Status (fst (snd st))"

lemma patch_frame_refl: "patch_frame st st"
  by (simp add: patch_frame_def)

lemma patch_frame_trans: "patch_frame a b \<Longrightarrow> patch_frame b c \<Longrightarrow> patch_frame a c"
  by (simp add: patch_frame_def)

lemma AppendEvent_tables: "AppendEvent now s t n typ by data = Inr s' \<Longrightarrow>
    db_items s' = db_items s \<and> db_completions s' = db_completions s \<and> db_tasks s' = db_tasks s"
  by (auto simp: AppendEvent_def insert_event_def split: sum.splits if_splits)

lemma append_patch_event_frame:
  assumes "append_patch_event at i by typ f t upd st = Inr st'" "\<And>x. task_Status (upd x) = task_Status x"
  shows "patch_frame st st'"
  using assms by (auto simp: append_patch_event_def patch_frame_def split: prod.splits dest: AppendEvent_tables)

lemma event_patches_frame:
  "applyTitlePatch at i by a st = Inr st' \<Longrightarrow> patch_frame st st'"
  "applyInitialPromptPatch at i by b st = Inr st' \<Longrightarrow> patch_frame st st'"
  "applyPriorityPatch at i by c st = Inr st' \<Longrightarrow> patch_frame st st'"
  by (auto simp: applyTitlePatch_def applyInitialPromptPatch_def applyPriorityPatch_def Let_def
      split: option.splits if_splits dest: append_patch_event_frame intro: patch_frame_refl)

lemma project_patches_frame:
  "applyProjectPatch p st = Inr st' \<Longrightarrow> patch_frame st st'"
  "applyProjectContextSelectionPatch ids st = Inr st' \<Longrightarrow> patch_frame st st'"
  by (auto simp: applyProjectPatch_def applyProjectContextSelectionPatch_def Let_def patch_frame_def
      split: option.splits if_splits prod.splits)

lemma applyDependsOnPatch_frame: "applyDependsOnPatch now i es st = Inr st' \<Longrightarrow> patch_frame st st'"
  by (auto simp: applyDependsOnPatch_def patch_frame_def split: option.splits prod.splits dest!: setDependenciesInTx_frame)

lemma on_cur_frame: "on_cur f st = Inr st' \<Longrightarrow> (\<And>x y. f x = Inr y \<Longrightarrow> task_Status y = task_Status x) \<Longrightarrow> patch_frame st st'"
  by (auto simp: on_cur_def patch_frame_def split: prod.splits)

lemma field_patch_status:
  "applyCursorModelPatch a x = Inr y \<Longrightarrow> task_Status y = task_Status x"
  "applyTagsPatch b x = Inr y \<Longrightarrow> task_Status y = task_Status x"
  "applyMilestonePatch c x = Inr y \<Longrightarrow> task_Status y = task_Status x"
  "applyPendingRetryPatch d e x = Inr y \<Longrightarrow> task_Status y = task_Status x"
  by (auto simp: applyCursorModelPatch_def applyTagsPatch_def applyMilestonePatch_def applyPendingRetryPatch_def
      Let_def split: option.splits if_splits)

lemma pure_patch_status [simp]:
  "task_Status (applyPickupNotBeforePatch f x) = task_Status x" "task_Status (applyGatePatch g x) = task_Status x"
  "task_Status (applyWorktreePatch h x) = task_Status x"
  by (auto simp: applyPickupNotBeforePatch_def applyGatePatch_def applyWorktreePatch_def split: option.splits)

lemma on_cur_patches_frame:
  "on_cur (\<lambda>c. Inr (applyPickupNotBeforePatch p c)) st = Inr st' \<Longrightarrow> patch_frame st st'"
  "on_cur (applyCursorModelPatch a) st = Inr st' \<Longrightarrow> patch_frame st st'"
  "on_cur (applyTagsPatch b) st = Inr st' \<Longrightarrow> patch_frame st st'"
  "on_cur (applyMilestonePatch c) st = Inr st' \<Longrightarrow> patch_frame st st'"
  "on_cur (\<lambda>c. Inr (applyGatePatch g c)) st = Inr st' \<Longrightarrow> patch_frame st st'"
  "on_cur (applyPendingRetryPatch d e) st = Inr st' \<Longrightarrow> patch_frame st st'"
  "on_cur (\<lambda>c. Inr (applyWorktreePatch w c)) st = Inr st' \<Longrightarrow> patch_frame st st'"
  by (erule on_cur_frame, force dest: field_patch_status)+

lemma applyTaskPatches_split:
  assumes "applyTaskPatches env i inp by st0 = Inr st" "patch_ok i st0"
  obtains st5 st6 where "patch_frame st0 st5" "patch_ok i st5"
    "applyStatusPatch (tx_evnow env) i by (uin_Status inp) st5 = Inr st6" "patch_frame st6 st"
proof -
  from assms(1) obtain st1 st2 st3 st4 st5 st6 st7 st8 st9 st10 st11 st12 st13 where
    a: "applyTitlePatch (tx_evnow env) i by (uin_Title inp) st0 = Inr st1"
       "applyInitialPromptPatch (tx_evnow env) i by (uin_InitialPrompt inp) st1 = Inr st2"
       "applyPriorityPatch (tx_evnow env) i by (uin_Priority inp) st2 = Inr st3"
       "applyProjectPatch (uin_Project inp) st3 = Inr st4"
       "applyProjectContextSelectionPatch (uin_ProjectContextItemIDs inp) st4 = Inr st5"
    and stat: "applyStatusPatch (tx_evnow env) i by (uin_Status inp) st5 = Inr st6"
    and b: "on_cur (\<lambda>c. Inr (applyPickupNotBeforePatch (uin_PickupNotBefore inp) c)) st6 = Inr st7"
       "on_cur (applyCursorModelPatch (uin_CursorModel inp)) st7 = Inr st8" "on_cur (applyTagsPatch (uin_Tags inp)) st8 = Inr st9"
       "on_cur (applyMilestonePatch (uin_Milestone inp)) st9 = Inr st10"
       "on_cur (\<lambda>c. Inr (applyGatePatch (uin_Gate inp) c)) st10 = Inr st11"
       "applyDependsOnPatch (tx_now env) i (uin_DependsOn inp) st11 = Inr st12"
       "on_cur (applyPendingRetryPatch (uin_PendingRetry inp) (uin_ClearPendingRetry inp)) st12 = Inr st13"
       "on_cur (\<lambda>c. Inr (applyWorktreePatch (uin_WorktreeID inp) c)) st13 = Inr st"
    unfolding applyTaskPatches_def by (elim rbind_InrE) (rule that)
  have "patch_frame st0 st5"
    by (intro patch_frame_trans[OF event_patches_frame(1)[OF a(1)]] patch_frame_trans[OF event_patches_frame(2)[OF a(2)]]
        patch_frame_trans[OF event_patches_frame(3)[OF a(3)]] patch_frame_trans[OF project_patches_frame(1)[OF a(4)]]
        project_patches_frame(2)[OF a(5)])
  moreover have "patch_ok i st5"
    by (rule applyProjectContextSelectionPatch_ok[OF a(5) applyProjectPatch_ok[OF a(4) applyPriorityPatch_ok[OF a(3)
        applyInitialPromptPatch_ok[OF a(2) applyTitlePatch_ok[OF a(1) assms(2)]]]]])
  moreover have "patch_frame st6 st"
    using on_cur_patches_frame(1)[OF b(1)] on_cur_patches_frame(2)[OF b(2)] on_cur_patches_frame(3)[OF b(3)]
      on_cur_patches_frame(4)[OF b(4)] on_cur_patches_frame(5)[OF b(5)] applyDependsOnPatch_frame[OF b(6)]
      on_cur_patches_frame(6)[OF b(7)] on_cur_patches_frame(7)[OF b(8)] patch_frame_trans by meson
  ultimately show thesis using that stat by blast
qed

lemma checklist_complete_cong:
  "db_items s' = db_items s \<Longrightarrow> db_completions s' = db_completions s \<Longrightarrow> checklist_complete s' i = checklist_complete s i"
  by (simp add: checklist_complete_def find_completion_def)

lemma done_guard_lemma:
  "store_ok s \<Longrightarrow> t \<in> task_ID ` set (db_tasks s) \<Longrightarrow> ValidateCanMarkDoneInTx s t = Inr () \<Longrightarrow> checklist_complete s t"
  using validateChecklistComplete_iff store_ok_task_id by (simp add: ValidateCanMarkDoneInTx_def)

text \<open>An update never completes a task whose checklist is open.\<close>

lemma Task_Update_done:
  assumes ok: "store_ok s" and u: "Task_Update env s i inp by = Inr (s', t, prev)"
    and d: "status_of s' j = Some StatusDone" "status_of s j \<noteq> Some StatusDone"
  shows "checklist_complete s' j"
proof -
  let ?i = "trim_space i"
  from u obtain dcur n s1 dcur' n' where l: "LoadTask s ?i = Inr dcur" "NextEventSeq s ?i = Inr n"
    and p: "applyTaskPatches env ?i inp by (s, dcur, n) = Inr (s1, dcur', n')" and s': "s' = save_task s1 dcur'"
    by (elim Task_UpdateE)
  have ok0: "patch_ok ?i (s, dcur, n)" using ok l LoadTaskD(2) by (simp add: patch_ok_def)
  obtain st5 st6 where f5: "patch_frame (s, dcur, n) st5" and ok5: "patch_ok ?i st5"
    and st: "applyStatusPatch (tx_evnow env) ?i by (uin_Status inp) st5 = Inr st6" and f6: "patch_frame st6 (s1, dcur', n')"
    by (rule applyTaskPatches_split[OF p ok0])
  obtain s5 c5 n5 where st5: "st5 = (s5, c5, n5)" by (cases st5)
  have id': "task_ID dcur' = ?i" using applyTaskPatches_ok[OF p ok0] by (simp add: patch_ok_def)
  have stat: "(db_tasks (fst st6) = db_tasks s5 \<and> task_Status (fst (snd st6)) = task_Status c5) \<or>
     (db_tasks (fst st6) = db_tasks s5 \<and>
      (task_Status (fst (snd st6)) = StatusDone \<longrightarrow> ValidateCanMarkDoneInTx s5 ?i = Inr () \<and>
        db_items (fst st6) = db_items s5 \<and> db_completions (fst st6) = db_completions s5))"
    using st st5 by (auto simp: applyStatusPatch_def append_patch_event_def Let_def split: option.splits if_splits
        dest: AppendEvent_tables)
  have same: "same_status s s1" using f5 f6 stat st5 by (auto simp: patch_frame_def intro: same_status_tasks)
  have "j = ?i \<and> task_Status dcur' = StatusDone \<and> task_Status dcur \<noteq> StatusDone"
    using d s' status_of_save[of s1 dcur' j] status_of_same[OF same] id' status_of_LoadTask[OF l(1)]
    by (auto split: if_splits)
  then have v: "ValidateCanMarkDoneInTx s5 ?i = Inr ()" "db_items s1 = db_items s5" "db_completions s1 = db_completions s5"
    and j: "j = ?i" using stat f5 f6 st5 by (auto simp: patch_frame_def)
  have "?i \<in> task_ID ` set (db_tasks s5)" using LoadTask_mem[OF l(1)] f5 st5 by (simp add: patch_frame_def)
  then have "checklist_complete s5 ?i"
    using done_guard_lemma ok5 v(1) st5 by (simp add: patch_ok_def)
  then show ?thesis using checklist_complete_cong[of s' s5] v(2,3) s' j by (simp add: save_task_def)
qed

lemma AgentPickup_done:
  assumes u: "AgentPickup env s i by = Inr (s', r)" and d: "status_of s' j = Some StatusDone"
  shows "status_of s j = Some StatusDone"
proof -
  from u obtain dcur n s1 dcur' n' where
    p: "applyStatusPatch (tx_evnow env) (trim_space i) by (Some StatusRunning) (s, dcur\<lparr>task_PendingRetry := None\<rparr>, n)
       = Inr (s1, dcur', n')" and s': "s' = save_task s1 dcur'" by (elim AgentPickupE)
  have "same_status s s1" "task_Status dcur' = StatusRunning"
    using p by (auto elim!: applyStatusPatchE simp: AppendEvent_status same_status_tasks)
  then show ?thesis using d s' status_of_save[of s1 dcur' j] status_of_same by (auto split: if_splits)
qed

lemma RequestTaskRetry_done:
  assumes u: "RequestTaskRetry env s inp by = Inr (s', t, prev)" and d: "status_of s' j = Some StatusDone"
  shows "status_of s j = Some StatusDone"
  using u
proof (rule RequestTaskRetryE)
  fix dcur parentID intent
  let ?i = "trim_space (rri_TaskID inp)"
  assume "(s' = s \<and> t = dcur \<and> prev = StatusReady \<and> PendingRetry_Equal (task_PendingRetry dcur) (Some intent)) \<or>
     (prev = StatusFailed \<and>
      (\<exists>n s1 s2 dcur' n'. NextEventSeq s ?i = Inr n \<and>
        AppendEvent (tx_evnow env) s ?i n EventTaskRetryRequested by (retry_payload intent) = Inr s1 \<and>
        applyStatusPatch (tx_evnow env) ?i by (Some StatusReady)
          (s1, dcur\<lparr>task_PendingRetry := Some intent\<rparr>, n + 1) = Inr (s2, dcur', n') \<and>
        s' = save_task s2 dcur' \<and> hydrateDependsOn s' dcur' = Inr t))"
  then show "status_of s j = Some StatusDone"
  proof (elim disjE conjE exE)
    fix n s1 s2 dcur' n'
    assume e: "AppendEvent (tx_evnow env) s ?i n EventTaskRetryRequested by (retry_payload intent) = Inr s1"
      and p: "applyStatusPatch (tx_evnow env) ?i by (Some StatusReady)
          (s1, dcur\<lparr>task_PendingRetry := Some intent\<rparr>, n + 1) = Inr (s2, dcur', n')" and s': "s' = save_task s2 dcur'"
    have "same_status s1 s2" "task_Status dcur' = StatusReady"
      using p by (auto elim!: applyStatusPatchE simp: AppendEvent_status same_status_tasks)
    then show ?thesis
      using d s' status_of_save[of s2 dcur' j] status_of_same[of s1 s2] status_of_same[OF AppendEvent_status[OF e]]
      by (auto split: if_splits)
  qed (use d in simp)
qed

lemma seed_items_tasks: "seed_items at iid cid k m n s t items by = Inr s' \<Longrightarrow> same_status s s'"
proof (induction items arbitrary: k m n s)
  case Nil
  then show ?case by (simp add: same_status_def)
next
  case (Cons raw items)
  show ?case
  proof (cases "trim_space (ccii_Text raw) = []")
    case False
    with Cons.prems obtain cmds s1 s2 s3 it where "insert_item s it = Inr s1"
      "(if 0 < length cmds then replaceCommandsInTx (cid k) s1 (ci_ID it) cmds else Inr s1) = Inr s2"
      "AppendEvent at s2 t n EventChecklistItemAdded by (item_text_json (ci_ID it) (ci_Text it)) = Inr s3"
      "seed_items at iid cid (Suc k) (m + 1) (n + 1) s3 t items by = Inr s'"
      by (auto simp: Let_def)
    then show ?thesis using Cons.IH same_status_trans status_frames by (metis (no_types, lifting) sum.inject(2))
  qed (use Cons in simp)
qed

lemma Seed_status: "SeedDefinitionItemsAtCreateInTx at iid cid s t items by = Inr s' \<Longrightarrow> same_status s s'"
  by (auto simp: SeedDefinitionItemsAtCreateInTx_def Let_def if_Inl_Inr_iff same_status_tasks dest: seed_items_tasks split: if_splits)

lemma status_of_append: "task_ID t \<notin> task_ID ` set (db_tasks s) \<Longrightarrow>
    status_of (s\<lparr>db_tasks := db_tasks s @ [t]\<rparr>) i = (if i = task_ID t then Some (task_Status t) else status_of s i)"
proof -
  assume f: "task_ID t \<notin> task_ID ` set (db_tasks s)"
  have "List.find (\<lambda>u. task_ID u = i) (ts @ [t]) =
      (case List.find (\<lambda>u. task_ID u = i) ts of None \<Rightarrow> if i = task_ID t then Some t else None | Some u \<Rightarrow> Some u)" for ts
    by (induction ts) auto
  moreover have "List.find (\<lambda>u. task_ID u = task_ID t) (db_tasks s) = None" unfolding find_None_iff using f by (metis imageI)
  ultimately show ?thesis by (simp add: status_of_def split: option.split)
qed

lemma createTaskInTx_status:
  assumes "createTaskInTx env iid cid s t inp by = Inr (s', t')"
  shows "status_of s' j = (if j = task_ID t then Some (task_Status t) else status_of s j)"
    "task_Status t = StatusDone \<Longrightarrow> ValidateCanMarkDoneInTx s' (task_ID t) = Inr ()"
proof -
  from assms obtain ctx s1 s2 s4 where t': "t' = t\<lparr>task_ProjectContextItemIDs := ctx\<rparr>"
    and s1: "map_task_insert_error (insert_task s (row_of t')) = Inr s1"
    and s2: "(if 0 < length (cin_DependsOn inp) then setDependenciesInTx (tx_now env) s1 (task_ID t) (cin_DependsOn inp) else Inr s1) = Inr s2"
    and s4: "AppendEvent (tx_evnow env) (delete_draft s2 (cin_DraftID inp)) (task_ID t) 1 EventTaskCreated by PBlank = Inr s4"
    and s5: "(if 0 < length (cin_ChecklistItems inp)
      then SeedDefinitionItemsAtCreateInTx (tx_evnow env) iid cid s4 (task_ID t) (cin_ChecklistItems inp) by else Inr s4) = Inr s'"
    and v: "task_Status t = StatusDone \<longrightarrow> ValidateCanMarkDoneInTx s' (task_ID t) = Inr ()"
    by (elim createTaskInTxE)
  have "same_status s1 s2" using s2 by (auto split: if_splits dest!: setDependenciesInTx_frame intro: same_status_tasks)
  moreover have "same_status s2 (delete_draft s2 (cin_DraftID inp))" by (simp add: delete_draft_def Let_def same_status_def)
  moreover have "same_status s4 s'" using s5 by (auto split: if_splits dest: Seed_status intro: same_status_tasks)
  ultimately have "same_status s1 s'" using AppendEvent_status[OF s4] same_status_trans by blast
  then show "status_of s' j = (if j = task_ID t then Some (task_Status t) else status_of s j)"
    using status_of_append[OF insert_taskD(2)[OF s1], of j] insert_taskD(1)[OF s1] status_of_same t' by simp
  show "task_Status t = StatusDone \<Longrightarrow> ValidateCanMarkDoneInTx s' (task_ID t) = Inr ()" using v by simp
qed

lemma status_of_mem: "status_of s i = Some x \<Longrightarrow> i \<in> task_ID ` set (db_tasks s)"
  unfolding status_of_def by (auto simp: find_Some_iff)

lemma Task_Create_done:
  assumes ok: "store_ok s" and u: "uuid_ok env" and c: "Task_Create env iid cid s inp by = Inr (s', t)"
    and d: "status_of s' j = Some StatusDone" "status_of s j \<noteq> Some StatusDone"
  shows "checklist_complete s' j"
proof -
  from c obtain t0 t1 where x: "createTaskInTx env iid cid s t0 inp by = Inr (s', t1)" by (elim Task_CreateE)
  have "j = task_ID t0" "task_Status t0 = StatusDone" using createTaskInTx_status(1)[OF x, of j] d by (auto split: if_splits)
  then show ?thesis
    using createTaskInTx_status(2)[OF x] done_guard_lemma[OF Task_Create_store_ok[OF ok u c] status_of_mem[OF d(1)]] by simp
qed

lemma event_status:
  "Events_Append env s t typ by data = Inr s' \<Longrightarrow> same_status s s'"
  "AppendResponseMessage env s t seq msg by = Inr s' \<Longrightarrow> same_status s s'"
  using AppendResponseMessage_frame by (fastforce elim: Events_AppendE intro: AppendEvent_status simp: same_status_tasks)+

section \<open>Over every step\<close>

text \<open>C2. No operation of the store completes a task with open criteria: if a step leaves a task done
  that was not done before (or did not exist), every criterion of that task has a valid completion
  row in the database the step leaves.\<close>

theorem done_needs_complete_checklist:
  assumes "store_ok s" "store_step s s'" "status_of s' j = Some StatusDone" "status_of s j \<noteq> Some StatusDone"
  shows "checklist_complete s' j"
  using assms(2)
proof cases
  case (create_task env iid cid inp actor t)
  then show ?thesis using Task_Create_done[OF assms(1)] assms(3,4) by blast
next
  case (update_task env i upd actor r)
  then show ?thesis using Task_Update_done[OF assms(1)] assms(3,4) by (cases r) blast
next
  case (delete_task i actor ids)
  then have "s' = cascade_delete_task s (trim_space i)"
    by (auto simp: Task_Delete_def Let_def if_Inl_Inr_iff)
  then have "status_of s' j = (if j = trim_space i then None else status_of s j)"
    using status_of_filter[where s = s and j = "trim_space i" and i = j] by (simp add: status_of_def cascade_delete_task_def Let_def)
  then show ?thesis using assms(3,4) by (auto split: if_splits)
next
  case (agent_pickup env i actor apr)
  then show ?thesis using AgentPickup_done assms(3,4) by blast
next
  case (request_retry env rri actor r)
  then show ?thesis using RequestTaskRetry_done assms(3,4) by (cases r) blast
next
  case (gate_action env i a actor r)
  then obtain upd t prev where "Task_Update env s i upd actor = Inr (s', t, prev)"
    by (cases r) (auto simp: ApplyTaskGateAction_def Let_def if_Inl_Inr_iff split: option.splits)
  then show ?thesis using Task_Update_done[OF assms(1)] assms(3,4) by blast
qed (use assms(3,4) status_of_same dependency_status event_status Checklist_Add_status Checklist_Delete_status Checklist_UpdateText_status
      Checklist_SetDone_status SetDoneWithEvidence_status ReplaceVerifyCommands_status cycle_step_status in metis)+

text \<open>The created task with its one criterion proved.\<close>

definition proved_run :: "db res" where
  "proved_run = rbind (SetDoneWithEvidence (sample_env ''e'') created_db ''t'' ''i'' ''log'' VerifierVerifyAgent [] ''c'' ActorAgent)
     (\<lambda>(s, _). Inr s)"

definition done_update :: "db \<Rightarrow> (db \<times> task \<times> status) res" where
  "done_update s = Task_Update (sample_env ''z'') s ''t'' (empty_update\<lparr>uin_Status := Some StatusDone\<rparr>) ActorAgent"

lemma done_update_runs:
  "(case done_update created_db of Inl _ \<Rightarrow> True | Inr _ \<Rightarrow> False) \<and>
   (case proved_run of Inl _ \<Rightarrow> False | Inr s \<Rightarrow> status_of s ''t'' = Some StatusReady \<and>
     (case done_update s of Inl _ \<Rightarrow> False | Inr (s', _) \<Rightarrow> status_of s' ''t'' = Some StatusDone))"
  by code_simp

theorem done_needs_complete_checklist_witness:
  "\<exists>s s' r. proved_run = Inr s \<and> done_update s = Inr (s', r) \<and> checklist_complete s' ''t''"
proof -
  obtain s s' r where r: "proved_run = Inr s" "status_of s ''t'' = Some StatusReady" "done_update s = Inr (s', r)"
    "status_of s' ''t'' = Some StatusDone"
    using done_update_runs by (auto split: sum.splits)
  have "store_step created_db s"
    using r(1) unfolding proved_run_def by (auto intro: store_step.evidence)
  then have ok: "store_ok s" using created_db_ok store_step_ok by blast
  have "store_step s s'" using r(3) unfolding done_update_def by (rule store_step.update_task)
  then show ?thesis using done_needs_complete_checklist[OF ok] r by auto
qed

section \<open>Delete and create\<close>

text \<open>Deleting a task succeeds exactly for a known actor and an existing task; it reports that one
  id and removes every row of the task and of its cycles (cycles, phases, stream and audit rows,
  dependency edges at either end), and nothing that belongs to another task.\<close>

theorem task_delete_effect:
  "case Task_Delete s i by of
     Inl _ \<Rightarrow> \<not> (ValidateActor by = Inr () \<and> trim_space i \<noteq> [] \<and> trim_space i \<in> task_ID ` set (db_tasks s))
   | Inr (s', ids) \<Rightarrow> ids = [trim_space i] \<and>
       (let mine = {c \<in> set (db_cycles s). cycle_TaskID c = trim_space i} in
        set (db_tasks s') = {t \<in> set (db_tasks s). task_ID t \<noteq> trim_space i} \<and>
        set (db_cycles s') = set (db_cycles s) - mine \<and>
        set (db_phases s') = {p \<in> set (db_phases s). ph_CycleID p \<notin> cycle_ID ` mine} \<and>
        set (db_streams s') = {e \<in> set (db_streams s). se_TaskID e \<noteq> trim_space i \<and> se_CycleID e \<notin> cycle_ID ` mine} \<and>
        set (db_events s') = {e \<in> set (db_events s). ev_TaskID e \<noteq> trim_space i} \<and>
        set (db_deps s') = {d \<in> set (db_deps s). td_TaskID d \<noteq> trim_space i \<and> td_DependsOnTaskID d \<noteq> trim_space i})"
proof (cases "Task_Delete s i by")
  case (Inl e)
  then show ?thesis
    by (auto simp: Task_Delete_def Let_def filter_empty_conv split: if_splits)
next
  case (Inr r)
  then obtain s' ids where r: "r = (s', ids)" "s' = cascade_delete_task s (trim_space i)" "ids = [trim_space i]"
    by (auto simp: Task_Delete_def Let_def if_Inl_Inr_iff)
  show ?thesis unfolding Inr r(1) sum.case prod.case r(2,3) cascade_delete_task_def Let_def
    by (simp add: set_diff_eq) blast
qed

text \<open>The checklist tables have no foreign key to the task: their rows outlive it.\<close>

theorem delete_keeps_checklist_rows:
  "case Task_Delete s i by of Inl _ \<Rightarrow> True
   | Inr (s', _) \<Rightarrow> db_items s' = db_items s \<and> db_completions s' = db_completions s"
  by (auto simp: Task_Delete_def cascade_delete_task_def Let_def split: sum.split if_splits)
     

text \<open>A patch that only moves the task to another worktree is refused as empty.\<close>

theorem worktree_only_patch_rejected:
  "\<nexists>r. Task_Update env s i (empty_update\<lparr>uin_WorktreeID := w\<rparr>) by = Inr r"
  by (auto simp: Task_Update_def no_fields_def empty_update_def Let_def if_Inl_Inr_iff)

end
