(* ===== verification/Verify_Reports.thy ===== *)
theory Verify_Reports
  imports Checklist
begin

text \<open>
  \<^verbatim>\<open>pkgs/tasks/store/internal/reports\<close>: the mirrored criteria and verify reports, one row per criterion and
  attempt of a cycle, written by one multi-row \<^verbatim>\<open>INSERT ... ON CONFLICT DO UPDATE\<close>. The two tables are
  written the same way, so the upsert and its laws are stated once over the key of a row. The foreign
  keys of the tables need the cycle and the criterion to exist.
\<close>

section \<open>Rows\<close>

record criteria_entry =
  en_CriterionID :: string
  en_ClaimedDone :: bool
  en_Evidence :: string

record verify_entry =
  vn_CriterionID :: string
  vn_Verified :: bool
  vn_VerifierKind :: verifier_kind
  vn_Reasoning :: string

record criteria_report =
  cr_ID :: string
  cr_CycleID :: string
  cr_AttemptSeq :: int
  cr_CriterionID :: string
  cr_ClaimedDone :: bool
  cr_Evidence :: string
  cr_WrittenAt :: gotime

record verify_report =
  vr_ID :: string
  vr_CycleID :: string
  vr_AttemptSeq :: int
  vr_CriterionID :: string
  vr_Verified :: bool
  vr_VerifierKind :: verifier_kind
  vr_Reasoning :: string
  vr_WrittenAt :: gotime

type_synonym report_key = "string \<times> int \<times> string"

definition cr_key :: "criteria_report \<Rightarrow> report_key" where
  "cr_key r = (cr_CycleID r, cr_AttemptSeq r, cr_CriterionID r)"

definition vr_key :: "verify_report \<Rightarrow> report_key" where
  "vr_key r = (vr_CycleID r, vr_AttemptSeq r, vr_CriterionID r)"

section \<open>Upsert\<close>

text \<open>\<open>assign old new\<close> is the \<^verbatim>\<open>DO UPDATE SET\<close> part: the columns taken from the new row.\<close>

definition upsert_row :: "('r \<Rightarrow> 'k) \<Rightarrow> ('r \<Rightarrow> 'r \<Rightarrow> 'r) \<Rightarrow> 'r \<Rightarrow> 'r list \<Rightarrow> 'r list" where
  "upsert_row key assign r rs =
     (if list_ex (\<lambda>x. key x = key r) rs then update_where (\<lambda>x. key x = key r) (\<lambda>x. assign x r) rs else rs @ [r])"

definition upsert_rows :: "('r \<Rightarrow> 'k) \<Rightarrow> ('r \<Rightarrow> 'r \<Rightarrow> 'r) \<Rightarrow> 'r list \<Rightarrow> 'r list \<Rightarrow> 'r list" where
  "upsert_rows key assign new rs = fold (upsert_row key assign) new rs"

text \<open>The loop that builds the batch: blank and repeated criterion ids are refused.\<close>

fun batch_ids :: "string list \<Rightarrow> string list \<Rightarrow> string list res" where
  "batch_ids seen [] = Inr []"
| "batch_ids seen (i0 # is) =
     (let i = trim_space i0 in
      if i = [] then Inl (ErrInvalidInput ''criterion_id'')
      else if i \<in> set seen then Inl (ErrInvalidInput ''duplicate criterion_id'')
      else rbind (batch_ids (i # seen) is) (\<lambda>r. Inr (i # r)))"

definition report_fk_ok :: "db \<Rightarrow> string \<Rightarrow> string list \<Rightarrow> bool" where
  "report_fk_ok s cycleID ids \<longleftrightarrow>
     list_ex (\<lambda>c. cycle_ID c = cycleID) (db_cycles s) \<and> list_all (\<lambda>i. list_ex (\<lambda>it. ci_ID it = i) (db_items s)) ids"

definition assign_criteria :: "criteria_report \<Rightarrow> criteria_report \<Rightarrow> criteria_report" where
  "assign_criteria old new =
     old\<lparr>cr_ClaimedDone := cr_ClaimedDone new, cr_Evidence := cr_Evidence new, cr_WrittenAt := cr_WrittenAt new\<rparr>"

definition assign_verify :: "verify_report \<Rightarrow> verify_report \<Rightarrow> verify_report" where
  "assign_verify old new =
     old\<lparr>vr_Verified := vr_Verified new, vr_VerifierKind := vr_VerifierKind new, vr_Reasoning := vr_Reasoning new,
         vr_WrittenAt := vr_WrittenAt new\<rparr>"

text \<open>\<open>ids k\<close> is the identifier minted for the \<open>k\<close>-th row.\<close>

definition UpsertCriteriaReports ::
  "gotime \<Rightarrow> (nat \<Rightarrow> string) \<Rightarrow> db \<Rightarrow> criteria_report list \<Rightarrow> string \<Rightarrow> int \<Rightarrow> criteria_entry list \<Rightarrow> criteria_report list res" where
  "UpsertCriteriaReports now ids s rows cycleID0 attemptSeq entries =
     (let cycleID = trim_space cycleID0 in
      if cycleID = [] then Inl (ErrInvalidInput ''cycle_id'')
      else if attemptSeq \<le> 0 then Inl (ErrInvalidInput ''attempt_seq must be positive'')
      else if length entries = 0 then Inr rows
      else rbind (batch_ids [] (map en_CriterionID entries)) (\<lambda>cids.
        if \<not> report_fk_ok s cycleID cids then Inl (ErrDB ''fk_task_cycle_criteria_reports'')
        else Inr (upsert_rows cr_key assign_criteria
               (map (\<lambda>(k, i, e). \<lparr>cr_ID = ids k, cr_CycleID = cycleID, cr_AttemptSeq = attemptSeq, cr_CriterionID = i,
                     cr_ClaimedDone = en_ClaimedDone e, cr_Evidence = en_Evidence e, cr_WrittenAt = now\<rparr>)
                  (zip [0..<length entries] (zip cids entries))) rows)))"

definition UpsertVerifyReports ::
  "gotime \<Rightarrow> (nat \<Rightarrow> string) \<Rightarrow> db \<Rightarrow> verify_report list \<Rightarrow> string \<Rightarrow> int \<Rightarrow> verify_entry list \<Rightarrow> verify_report list res" where
  "UpsertVerifyReports now ids s rows cycleID0 attemptSeq entries =
     (let cycleID = trim_space cycleID0 in
      if cycleID = [] then Inl (ErrInvalidInput ''cycle_id'')
      else if attemptSeq \<le> 0 then Inl (ErrInvalidInput ''attempt_seq must be positive'')
      else if length entries = 0 then Inr rows
      else rbind (batch_ids [] (map vn_CriterionID entries)) (\<lambda>cids.
        if \<not> report_fk_ok s cycleID cids then Inl (ErrDB ''fk_task_cycle_verify_reports'')
        else Inr (upsert_rows vr_key assign_verify
               (map (\<lambda>(k, i, e). \<lparr>vr_ID = ids k, vr_CycleID = cycleID, vr_AttemptSeq = attemptSeq, vr_CriterionID = i,
                     vr_Verified = vn_Verified e, vr_VerifierKind = vn_VerifierKind e, vr_Reasoning = vn_Reasoning e,
                     vr_WrittenAt = now\<rparr>)
                  (zip [0..<length entries] (zip cids entries))) rows)))"

section \<open>Queries\<close>

definition ListCriteriaReportsForCycle :: "criteria_report list \<Rightarrow> string \<Rightarrow> criteria_report list res" where
  "ListCriteriaReportsForCycle rows cycleID0 =
     (let cycleID = trim_space cycleID0 in
      if cycleID = [] then Inl (ErrInvalidInput ''cycle_id'')
      else Inr (sort_key cr_AttemptSeq (sort_key cr_CriterionID (filter (\<lambda>r. cr_CycleID r = cycleID) rows))))"

definition ListVerifyReportsForCycle :: "verify_report list \<Rightarrow> string \<Rightarrow> verify_report list res" where
  "ListVerifyReportsForCycle rows cycleID0 =
     (let cycleID = trim_space cycleID0 in
      if cycleID = [] then Inl (ErrInvalidInput ''cycle_id'')
      else Inr (sort_key vr_AttemptSeq (sort_key vr_CriterionID (filter (\<lambda>r. vr_CycleID r = cycleID) rows))))"

definition GetCriteriaReport :: "criteria_report list \<Rightarrow> string \<Rightarrow> int \<Rightarrow> string \<Rightarrow> criteria_report res" where
  "GetCriteriaReport rows cycleID0 attemptSeq criterionID0 =
     (let cycleID = trim_space cycleID0; criterionID = trim_space criterionID0 in
      if cycleID = [] \<or> criterionID = [] \<or> attemptSeq \<le> 0 then Inl (ErrInvalidInput ''report key'')
      else (case List.find (\<lambda>r. cr_CycleID r = cycleID \<and> cr_AttemptSeq r = attemptSeq \<and> cr_CriterionID r = criterionID) rows of
              None \<Rightarrow> Inl ErrNotFound | Some r \<Rightarrow> Inr r))"

section \<open>The upsert\<close>

text \<open>A table with unique keys is a map from keys to rows.\<close>

definition row_at :: "('r \<Rightarrow> 'k) \<Rightarrow> 'r list \<Rightarrow> 'k \<Rightarrow> 'r option" where
  "row_at key rs k = List.find (\<lambda>r. key r = k) rs"

locale upsert_table =
  fixes key :: "'r \<Rightarrow> 'k" and assign :: "'r \<Rightarrow> 'r \<Rightarrow> 'r"
  assumes assign_key: "key (assign old new) = key old"
begin

lemma upsert_row_alt:
  "upsert_row key assign r rs =
     (if key r \<in> set (map key rs) then update_where (\<lambda>x. key x = key r) (\<lambda>x. assign x r) rs else rs @ [r])"
proof -
  have "list_ex (\<lambda>x. key x = key r) rs \<longleftrightarrow> key r \<in> set (map key rs)" by (induction rs) auto
  then show ?thesis by (simp add: upsert_row_def)
qed

lemma row_at_Nil [simp]: "row_at key [] k = None" and
  row_at_Cons: "row_at key (r # rs) k = (if key r = k then Some r else row_at key rs k)"
  by (simp_all add: row_at_def)

lemma keys_upsert_row: "map key (upsert_row key assign r rs) = (if key r \<in> set (map key rs) then map key rs else map key rs @ [key r])"
proof -
  have "map key (update_where (\<lambda>x. key x = key r) (\<lambda>x. assign x r) rs) = map key rs"
    by (simp add: update_where_def assign_key)
  then show ?thesis by (simp add: upsert_row_alt)
qed

lemma upsert_row_distinct: "distinct (map key rs) \<Longrightarrow> distinct (map key (upsert_row key assign r rs))"
  unfolding keys_upsert_row by auto

lemma row_at_update:
  "row_at key (update_where (\<lambda>x. key x = key r) (\<lambda>x. assign x r) rs) k =
     (if k = key r then map_option (\<lambda>x. assign x r) (row_at key rs k) else row_at key rs k)"
  by (induction rs) (auto simp: row_at_def update_where_def assign_key)

lemma row_at_append: "row_at key (rs @ [r]) k =
    (case row_at key rs k of None \<Rightarrow> if key r = k then Some r else None | Some x \<Rightarrow> Some x)"
  by (induction rs) (auto simp: row_at_def)

lemma row_at_None: "row_at key rs k = None \<longleftrightarrow> k \<notin> set (map key rs)"
  by (auto simp: row_at_def find_None_iff)

lemma row_at_upsert_row:
  "row_at key (upsert_row key assign r rs) k =
     (if k = key r then Some (case row_at key rs k of None \<Rightarrow> r | Some old \<Rightarrow> assign old r) else row_at key rs k)"
proof (cases "key r \<in> set (map key rs)")
  case True
  then have u: "upsert_row key assign r rs = update_where (\<lambda>x. key x = key r) (\<lambda>x. assign x r) rs"
    by (simp add: upsert_row_alt)
  obtain old where "row_at key rs (key r) = Some old" using True row_at_None by (cases "row_at key rs (key r)") auto
  then show ?thesis unfolding u row_at_update by auto
next
  case False
  then have u: "upsert_row key assign r rs = rs @ [r]" by (simp add: upsert_row_alt)
  have "row_at key rs (key r) = None" using False row_at_None by blast
  then show ?thesis unfolding u row_at_append by (auto split: option.splits)
qed

text \<open>A batch with distinct keys: every row of the batch is found under its key, the others are as before.\<close>

lemma row_at_upsert_rows:
  "distinct (map key new) \<Longrightarrow>
   row_at key (upsert_rows key assign new rs) k =
     (case row_at key new k of None \<Rightarrow> row_at key rs k
      | Some r \<Rightarrow> Some (case row_at key rs k of None \<Rightarrow> r | Some old \<Rightarrow> assign old r))"
proof (induction new arbitrary: rs)
  case Nil
  then show ?case by (simp add: upsert_rows_def)
next
  case (Cons r new)
  have step: "upsert_rows key assign (r # new) rs = upsert_rows key assign new (upsert_row key assign r rs)"
    by (simp add: upsert_rows_def)
  have n: "row_at key new (key r) = None" using Cons.prems by (simp add: row_at_None)
  have d: "distinct (map key new)" using Cons.prems by simp
  show ?case unfolding step Cons.IH[OF d] row_at_Cons row_at_upsert_row using n by auto
qed

lemma upsert_rows_distinct: "distinct (map key rs) \<Longrightarrow> distinct (map key (upsert_rows key assign new rs))"
  unfolding upsert_rows_def by (induction new arbitrary: rs) (simp_all add: upsert_row_distinct)

end

interpretation crt: upsert_table cr_key assign_criteria
  by unfold_locales (simp add: cr_key_def assign_criteria_def)

interpretation vrt: upsert_table vr_key assign_verify
  by unfold_locales (simp add: vr_key_def assign_verify_def)

section \<open>Reading back what was written\<close>

lemma batch_ids_Inr:
  "batch_ids seen is = Inr cids \<Longrightarrow> cids = map trim_space is \<and> distinct cids \<and> set cids \<inter> set seen = {}"
proof (induction "is" arbitrary: seen cids)
  case (Cons i "is")
  then obtain r where "trim_space i \<notin> set seen" "batch_ids (trim_space i # seen) is = Inr r" "cids = trim_space i # r"
    by (auto simp: Let_def split: if_splits)
  moreover note Cons.IH[OF this(2)]
  ultimately show ?case by fastforce
qed simp

definition new_verify_rows :: "gotime \<Rightarrow> (nat \<Rightarrow> string) \<Rightarrow> string \<Rightarrow> int \<Rightarrow> verify_entry list \<Rightarrow> verify_report list" where
  "new_verify_rows now ids cycleID attemptSeq entries =
     map (\<lambda>(k, e). \<lparr>vr_ID = ids k, vr_CycleID = cycleID, vr_AttemptSeq = attemptSeq,
           vr_CriterionID = trim_space (vn_CriterionID e), vr_Verified = vn_Verified e, vr_VerifierKind = vn_VerifierKind e,
           vr_Reasoning = vn_Reasoning e, vr_WrittenAt = now\<rparr>) (zip [0..<length entries] entries)"

lemma UpsertVerifyReportsE:
  assumes "UpsertVerifyReports now ids s rows c n entries = Inr rows'"
  obtains "trim_space c \<noteq> []" "0 < n" "distinct (map vr_key (new_verify_rows now ids (trim_space c) n entries))"
    "rows' = upsert_rows vr_key assign_verify (new_verify_rows now ids (trim_space c) n entries) rows"
proof (cases "entries = []")
  case True
  then show ?thesis using assms that by (auto simp: UpsertVerifyReports_def Let_def new_verify_rows_def upsert_rows_def split: if_splits)
next
  case False
  with assms obtain cids where c: "trim_space c \<noteq> []" "0 < n" "batch_ids [] (map vn_CriterionID entries) = Inr cids"
    and r: "rows' = upsert_rows vr_key assign_verify
               (map (\<lambda>(k, i, e). \<lparr>vr_ID = ids k, vr_CycleID = trim_space c, vr_AttemptSeq = n, vr_CriterionID = i,
                     vr_Verified = vn_Verified e, vr_VerifierKind = vn_VerifierKind e, vr_Reasoning = vn_Reasoning e,
                     vr_WrittenAt = now\<rparr>)
                  (zip [0..<length entries] (zip cids entries))) rows"
    by (auto simp: UpsertVerifyReports_def Let_def split: if_splits)
  have cids: "cids = map (\<lambda>e. trim_space (vn_CriterionID e)) entries" "distinct cids" using batch_ids_Inr[OF c(3)] by (auto simp: comp_def)
  have "map (\<lambda>(k, i, e). \<lparr>vr_ID = ids k, vr_CycleID = trim_space c, vr_AttemptSeq = n, vr_CriterionID = i,
                     vr_Verified = vn_Verified e, vr_VerifierKind = vn_VerifierKind e, vr_Reasoning = vn_Reasoning e,
                     vr_WrittenAt = now\<rparr>) (zip [0..<length entries] (zip cids entries)) =
        new_verify_rows now ids (trim_space c) n entries"
    by (rule nth_equalityI) (simp_all add: new_verify_rows_def cids(1))
  moreover have "map vr_key (new_verify_rows now ids (trim_space c) n entries) = map (\<lambda>i. (trim_space c, n, i)) cids"
    by (rule nth_equalityI) (simp_all add: new_verify_rows_def cids(1) vr_key_def)
  moreover have "distinct (map (\<lambda>i. (trim_space c, n, i)) cids)" using cids(2) by (simp add: distinct_map inj_on_def)
  ultimately show ?thesis using that c r by simp
qed

lemma row_at_distinct:
  "distinct (map key rs) \<Longrightarrow> row_at key rs k = Some r \<longleftrightarrow> r \<in> set rs \<and> key r = k"
proof (induction rs)
  case (Cons x rs)
  show ?case
  proof (cases "key x = k")
    case True
    then have "r \<notin> set rs" if "key r = k" using Cons.prems that by (auto simp: image_iff)
    then show ?thesis using True by (auto simp: row_at_def)
  qed (use Cons in \<open>auto simp: row_at_def\<close>)
qed (simp add: row_at_def)

text \<open>C18. What the harness mirrors is what a later resume reads: after a batch of verify verdicts is
  written, the list of the cycle holds every verdict of the batch under its attempt and criterion, the
  rows of the other attempts are unchanged, and a repeated write of the batch still leaves one row per key.\<close>

theorem verify_reports_roundtrip:
  assumes "distinct (map vr_key rows)" "UpsertVerifyReports now ids s rows c n entries = Inr rows'"
  shows "distinct (map vr_key rows') \<and>
    (\<exists>out. ListVerifyReportsForCycle rows' c = Inr out \<and>
       list_all (\<lambda>e. list_ex (\<lambda>r. vr_AttemptSeq r = n \<and> vr_CriterionID r = trim_space (vn_CriterionID e) \<and>
           vr_Verified r = vn_Verified e \<and> vr_VerifierKind r = vn_VerifierKind e \<and> vr_Reasoning r = vn_Reasoning e) out) entries \<and>
       {r \<in> set out. vr_AttemptSeq r \<noteq> n} = {r \<in> set rows. vr_CycleID r = trim_space c \<and> vr_AttemptSeq r \<noteq> n})"
  using assms(2)
proof (rule UpsertVerifyReportsE)
  let ?new = "new_verify_rows now ids (trim_space c) n entries"
  assume c: "trim_space c \<noteq> []" "0 < n" and d: "distinct (map vr_key ?new)"
    and r: "rows' = upsert_rows vr_key assign_verify ?new rows"
  have d': "distinct (map vr_key rows')" unfolding r by (rule vrt.upsert_rows_distinct[OF assms(1)])
  note at = vrt.row_at_upsert_rows[OF d, of rows, folded r]
  define out where "out = sort_key vr_AttemptSeq (sort_key vr_CriterionID (filter (\<lambda>r. vr_CycleID r = trim_space c) rows'))"
  have o: "ListVerifyReportsForCycle rows' c = Inr out" using c by (simp add: ListVerifyReportsForCycle_def out_def)
  have mem: "x \<in> set out \<longleftrightarrow> x \<in> set rows' \<and> vr_CycleID x = trim_space c" for x by (auto simp: out_def)
  have "list_all (\<lambda>e. list_ex (\<lambda>r. vr_AttemptSeq r = n \<and> vr_CriterionID r = trim_space (vn_CriterionID e) \<and>
           vr_Verified r = vn_Verified e \<and> vr_VerifierKind r = vn_VerifierKind e \<and> vr_Reasoning r = vn_Reasoning e) out) entries"
    unfolding list_all_iff list_ex_iff
  proof
    fix e assume "e \<in> set entries"
    then obtain k where k: "k < length entries" "entries ! k = e" by (auto simp: in_set_conv_nth)
    let ?x = "?new ! k"
    have x: "?x \<in> set ?new" "vr_key ?x = (trim_space c, n, trim_space (vn_CriterionID e))" "vr_Verified ?x = vn_Verified e"
      "vr_VerifierKind ?x = vn_VerifierKind e" "vr_Reasoning ?x = vn_Reasoning e"
    proof -
      have "k < length ?new" using k(1) by (simp add: new_verify_rows_def)
      then show "?x \<in> set ?new" by (rule nth_mem)
    qed (use k in \<open>simp_all add: new_verify_rows_def vr_key_def\<close>)
    have "row_at vr_key ?new (vr_key ?x) = Some ?x" using row_at_distinct[OF d] x(1) by blast
    then obtain y where y: "row_at vr_key rows' (vr_key ?x) = Some y" "y = ?x \<or> (\<exists>old. y = assign_verify old ?x)"
      unfolding at by (cases "row_at vr_key rows (vr_key ?x)") auto
    then have "y \<in> set rows'" "vr_key y = vr_key ?x" using row_at_distinct[OF d'] by blast+
    moreover have "vr_Verified y = vn_Verified e" "vr_VerifierKind y = vn_VerifierKind e" "vr_Reasoning y = vn_Reasoning e"
      using y(2) x by (auto simp: assign_verify_def)
    ultimately show "\<exists>r\<in>set out. vr_AttemptSeq r = n \<and> vr_CriterionID r = trim_space (vn_CriterionID e) \<and>
           vr_Verified r = vn_Verified e \<and> vr_VerifierKind r = vn_VerifierKind e \<and> vr_Reasoning r = vn_Reasoning e"
      using x(2) mem by (intro bexI[of _ y]) (auto simp: vr_key_def)
  qed
  moreover have "{r \<in> set out. vr_AttemptSeq r \<noteq> n} = {r \<in> set rows. vr_CycleID r = trim_space c \<and> vr_AttemptSeq r \<noteq> n}"
  proof -
    have "x \<in> set rows' \<longleftrightarrow> x \<in> set rows" if "vr_AttemptSeq x \<noteq> n" for x
    proof -
      have "row_at vr_key ?new (vr_key x) = None"
        unfolding row_at_def find_None_iff using that by (auto simp: new_verify_rows_def vr_key_def set_zip)
      then have "row_at vr_key rows' (vr_key x) = row_at vr_key rows (vr_key x)" unfolding at by simp
      then show ?thesis using row_at_distinct[OF d', of "vr_key x" x] row_at_distinct[OF assms(1), of "vr_key x" x] by simp
    qed
    then show ?thesis using mem by blast
  qed
  ultimately show ?thesis using d' o by blast
qed

definition sample_reports_db :: db where
  "sample_reports_db = empty_db\<lparr>db_cycles := [\<lparr>cycle_ID = ''c'', cycle_TaskID = ''t'', cycle_AttemptSeq = 1,
     cycle_Status = CycleStatusRunning, cycle_StartedAt = 1, cycle_EndedAt = None, cycle_TriggeredBy = ActorAgent,
     cycle_ParentCycleID = None, cycle_MetaJSON = []\<rparr>],
     db_items := [\<lparr>ci_ID = ''i'', ci_TaskID = ''t'', ci_SortOrder = 1, ci_Text = ''works''\<rparr>]\<rparr>"

definition sample_verify_write :: "verify_report list res" where
  "sample_verify_write = UpsertVerifyReports 5 (\<lambda>_. ''r'') sample_reports_db [] ''c'' 1
     [\<lparr>vn_CriterionID = '' i'', vn_Verified = True, vn_VerifierKind = VerifierVerifyAgent, vn_Reasoning = ''ok''\<rparr>]"

lemma sample_verify_write_ok: "case sample_verify_write of Inl _ \<Rightarrow> False | Inr rows \<Rightarrow> length rows = 1"
  by code_simp

theorem verify_reports_roundtrip_witness:
  "\<exists>rows out. sample_verify_write = Inr rows \<and> ListVerifyReportsForCycle rows ''c'' = Inr out \<and>
     list_ex (\<lambda>r. vr_AttemptSeq r = 1 \<and> vr_Verified r) out"
proof -
  obtain rows where rows: "sample_verify_write = Inr rows" using sample_verify_write_ok by (auto split: sum.splits)
  from verify_reports_roundtrip[OF _ rows[unfolded sample_verify_write_def]]
  obtain out where "ListVerifyReportsForCycle rows ''c'' = Inr out" "list_ex (\<lambda>r. vr_AttemptSeq r = 1 \<and> vr_Verified r) out"
    by (auto simp: list_ex_iff)
  then show ?thesis using rows by blast
qed

end
