(* ===== verification/Store_Commits.thy ===== *)
theory Store_Commits
  imports Verify_Reports
begin

text \<open>
  \<^verbatim>\<open>pkgs/tasks/store/internal/commits\<close>: the git commits the worker indexes for a cycle, one row per cycle
  and commit hash. The batch is written by the upsert of \<open>Verify_Reports\<close>; the list for a task keeps
  one row per hash, the earliest one.
\<close>

record commit_entry =
  ce_PhaseSeq :: int
  ce_Seq :: int
  ce_Repo :: string
  ce_Worktree :: string
  ce_Branch :: string
  ce_SHA :: string
  ce_CommittedAt :: gotime
  ce_Message :: string

record cycle_commit =
  cc_ID :: string
  cc_TaskID :: string
  cc_CycleID :: string
  cc_PhaseSeq :: int
  cc_Seq :: int
  cc_Repo :: string
  cc_Worktree :: string
  cc_Branch :: string
  cc_SHA :: string
  cc_CommittedAt :: gotime
  cc_Message :: string
  cc_RecordedAt :: gotime

definition cc_key :: "cycle_commit \<Rightarrow> string \<times> string" where
  "cc_key r = (cc_CycleID r, cc_SHA r)"

definition assign_commit :: "cycle_commit \<Rightarrow> cycle_commit \<Rightarrow> cycle_commit" where
  "assign_commit old new =
     old\<lparr>cc_PhaseSeq := cc_PhaseSeq new, cc_Seq := cc_Seq new, cc_Repo := cc_Repo new, cc_Worktree := cc_Worktree new,
         cc_Branch := cc_Branch new, cc_CommittedAt := cc_CommittedAt new, cc_Message := cc_Message new,
         cc_RecordedAt := cc_RecordedAt new\<rparr>"

text \<open>The loop that builds the batch: blank hashes, non-positive numbers and repeated hashes are refused.\<close>

fun commit_rows ::
  "gotime \<Rightarrow> (nat \<Rightarrow> string) \<Rightarrow> nat \<Rightarrow> string \<Rightarrow> string \<Rightarrow> string list \<Rightarrow> commit_entry list \<Rightarrow> cycle_commit list res" where
  "commit_rows now ids k taskID cycleID seen [] = Inr []"
| "commit_rows now ids k taskID cycleID seen (e # es) =
     (let sha = trim_space (ce_SHA e) in
      if sha = [] then Inl (ErrInvalidInput ''sha'')
      else if ce_PhaseSeq e \<le> 0 \<or> ce_Seq e \<le> 0 then Inl (ErrInvalidInput ''phase_seq and seq must be positive'')
      else if sha \<in> set seen then Inl (ErrInvalidInput ''duplicate sha'')
      else rbind (commit_rows now ids (Suc k) taskID cycleID (sha # seen) es) (\<lambda>rows.
        Inr (\<lparr>cc_ID = ids k, cc_TaskID = taskID, cc_CycleID = cycleID, cc_PhaseSeq = ce_PhaseSeq e, cc_Seq = ce_Seq e,
              cc_Repo = trim_space (ce_Repo e), cc_Worktree = trim_space (ce_Worktree e),
              cc_Branch = trim_space (ce_Branch e), cc_SHA = sha, cc_CommittedAt = ce_CommittedAt e,
              cc_Message = ce_Message e, cc_RecordedAt = now\<rparr> # rows)))"

definition UpsertCycleCommits ::
  "gotime \<Rightarrow> (nat \<Rightarrow> string) \<Rightarrow> db \<Rightarrow> cycle_commit list \<Rightarrow> string \<Rightarrow> string \<Rightarrow> commit_entry list \<Rightarrow> cycle_commit list res" where
  "UpsertCycleCommits now ids s rows taskID0 cycleID0 entries =
     (let taskID = trim_space taskID0; cycleID = trim_space cycleID0 in
      if cycleID = [] then Inl (ErrInvalidInput ''cycle_id'')
      else if taskID = [] then Inl (ErrInvalidInput ''task_id'')
      else if length entries = 0 then Inr rows
      else rbind (commit_rows now ids 0 taskID cycleID [] entries) (\<lambda>new.
        if \<not> list_ex (\<lambda>c. cycle_ID c = cycleID) (db_cycles s) \<or> \<not> list_ex (\<lambda>t. task_ID t = taskID) (db_tasks s)
        then Inl (ErrDB ''fk_task_cycle_commits'')
        else Inr (upsert_rows cc_key assign_commit new rows)))"

definition ListCommitsForCycle :: "cycle_commit list \<Rightarrow> string \<Rightarrow> cycle_commit list res" where
  "ListCommitsForCycle rows cycleID0 =
     (let cycleID = trim_space cycleID0 in
      if cycleID = [] then Inl (ErrInvalidInput ''cycle_id'')
      else Inr (sort_key cc_Seq (filter (\<lambda>r. cc_CycleID r = cycleID) rows)))"

text \<open>The first row of every hash, in the order of first occurrence; rows without a hash are skipped.\<close>

fun dedupeCommitsBySHA :: "string list \<Rightarrow> cycle_commit list \<Rightarrow> cycle_commit list" where
  "dedupeCommitsBySHA seen [] = []"
| "dedupeCommitsBySHA seen (r # rs) =
     (let sha = trim_space (cc_SHA r) in
      if sha = [] then dedupeCommitsBySHA seen rs
      else if sha \<in> set seen then dedupeCommitsBySHA seen rs
      else r # dedupeCommitsBySHA (sha # seen) rs)"

definition ListCommitsForTask :: "cycle_commit list \<Rightarrow> string \<Rightarrow> cycle_commit list res" where
  "ListCommitsForTask rows taskID0 =
     (let taskID = trim_space taskID0 in
      if taskID = [] then Inl (ErrInvalidInput ''task_id'')
      else Inr (dedupeCommitsBySHA []
             (sort_key cc_CommittedAt (sort_key cc_Seq (sort_key cc_RecordedAt (filter (\<lambda>r. cc_TaskID r = taskID) rows))))))"

interpretation cmt: upsert_table cc_key assign_commit
  by unfold_locales (simp add: cc_key_def assign_commit_def)

text \<open>A stored hash is trimmed and not empty, and a cycle holds it once.\<close>

definition commits_ok :: "cycle_commit list \<Rightarrow> bool" where
  "commits_ok rows \<longleftrightarrow> distinct (map cc_key rows) \<and> list_all (\<lambda>r. cc_SHA r \<noteq> []) rows"

lemma commit_rows_ok:
  "commit_rows now ids k t c seen es = Inr rows \<Longrightarrow>
     distinct (map cc_SHA rows) \<and> set (map cc_SHA rows) \<inter> set seen = {} \<and> list_all (\<lambda>r. cc_SHA r \<noteq> [] \<and> cc_CycleID r = c) rows"
proof (induction es arbitrary: k seen rows)
  case (Cons e es)
  then obtain rs where "commit_rows now ids (Suc k) t c (trim_space (ce_SHA e) # seen) es = Inr rs"
    "trim_space (ce_SHA e) \<noteq> []" "trim_space (ce_SHA e) \<notin> set seen" "map cc_SHA rows = trim_space (ce_SHA e) # map cc_SHA rs"
    "list_all (\<lambda>r. cc_SHA r \<noteq> [] \<and> cc_CycleID r = c) rs \<longrightarrow> list_all (\<lambda>r. cc_SHA r \<noteq> [] \<and> cc_CycleID r = c) rows"
    by (auto simp: Let_def split: if_splits)
  with Cons.IH[OF this(1)] show ?case by auto
qed simp

lemma dedupe_distinct:
  "distinct (map (\<lambda>r. trim_space (cc_SHA r)) (dedupeCommitsBySHA seen rs)) \<and>
   set (map (\<lambda>r. trim_space (cc_SHA r)) (dedupeCommitsBySHA seen rs)) =
     {trim_space (cc_SHA r) |r. r \<in> set rs \<and> trim_space (cc_SHA r) \<noteq> []} - set seen"
  by (induction rs arbitrary: seen) (auto simp: Let_def)

end
