(* ===== verification/Orchestration.thy ===== *)
theory Orchestration
  imports Hamix_Domain
begin

text \<open>
  \<^verbatim>\<open>pkgs/agents/harness/internal/orchestration\<close>: the pure decisions of the execute/verify loop, with the
  adapter that builds their inputs (\<^verbatim>\<open>cycle_execute_adapter.go\<close>, \<^verbatim>\<open>verify_retry_eligibility.go\<close>). The zero
  value of a Go enum field is the empty constructor (\<open>StatusOther []\<close>); termination reasons are the strings
  that are persisted.
\<close>

section \<open>Outcomes and reasons (outcomes.go, events.go, execute_inputs.go)\<close>

datatype verify_result = VerifyResultPass | VerifyResultFailRetryable | VerifyResultFailTampered

definition ReasonVerifyTampered :: string where "ReasonVerifyTampered = ''verify_tampered''"
definition ReasonRunnerTimeout :: string where "ReasonRunnerTimeout = ''runner_timeout''"
definition ReasonRunnerNonZeroExit :: string where "ReasonRunnerNonZeroExit = ''runner_non_zero_exit''"
definition ReasonRunnerInvalidOutput :: string where "ReasonRunnerInvalidOutput = ''runner_invalid_output''"
definition ReasonRunnerError :: string where "ReasonRunnerError = ''runner_error''"
definition ReasonRunnerStale :: string where "ReasonRunnerStale = ''runner_stale''"
definition ReasonExecuteInvalidCommit :: string where "ReasonExecuteInvalidCommit = ''execute_invalid_commit''"
definition ReasonCancelledByOperator :: string where "ReasonCancelledByOperator = ''cancelled_by_operator''"
definition ReasonChecklistCompletionFailed :: string where
  "ReasonChecklistCompletionFailed = ''checklist_completion_failed''"

record verify_effects =
  ve_RetryLoop :: bool
  ve_SkipNextExecute :: bool
  ve_TerminalFailure :: bool
  ve_Tampered :: bool

record execute_effects =
  ee_ContinueToVerify :: bool
  ee_StopLoop :: bool
  ee_TerminateFailed :: bool
  ee_TransitionTask :: status
  ee_Reason :: string
  ee_ResultSummary :: string

record finalize_effects =
  fe_CycleStatus :: cycle_status
  fe_TaskStatus :: status
  fe_Reason :: string

definition no_verify_effects :: verify_effects where
  "no_verify_effects = \<lparr>ve_RetryLoop = False, ve_SkipNextExecute = False, ve_TerminalFailure = False, ve_Tampered = False\<rparr>"

definition no_execute_effects :: execute_effects where
  "no_execute_effects = \<lparr>ee_ContinueToVerify = False, ee_StopLoop = False, ee_TerminateFailed = False,
     ee_TransitionTask = StatusOther [], ee_Reason = [], ee_ResultSummary = []\<rparr>"

datatype runner_outcome = RunnerOK | RunnerTimeout | RunnerNonZeroExit | RunnerInvalidOutput | RunnerError

record commit_ingest_summary =
  cs_GitSnapshotSkipped :: bool
  cs_IngestAttempted :: bool
  cs_IngestErr :: bool
  cs_FailReason :: string

record execute_post_run_input =
  xi_RunnerOutcome :: runner_outcome
  xi_OperatorCancelled :: bool
  xi_ContextCancelled :: bool
  xi_EvidenceRecovery :: bool
  xi_CommitIngest :: commit_ingest_summary

section \<open>After the execute phase (execute.go)\<close>

definition terminalExecute :: "status \<Rightarrow> string \<Rightarrow> execute_effects" where
  "terminalExecute taskStatus reason =
     no_execute_effects\<lparr>ee_TerminateFailed := True, ee_TransitionTask := taskStatus, ee_Reason := reason\<rparr>"

fun executeEffectsFromRunner :: "runner_outcome \<Rightarrow> execute_effects" where
  "executeEffectsFromRunner RunnerOK = no_execute_effects\<lparr>ee_ContinueToVerify := True\<rparr>"
| "executeEffectsFromRunner RunnerTimeout = terminalExecute StatusFailed ReasonRunnerTimeout"
| "executeEffectsFromRunner RunnerNonZeroExit = terminalExecute StatusFailed ReasonRunnerNonZeroExit"
| "executeEffectsFromRunner RunnerInvalidOutput = terminalExecute StatusFailed ReasonRunnerInvalidOutput"
| "executeEffectsFromRunner RunnerError = terminalExecute StatusFailed ReasonRunnerError"

definition overlayOperatorCancel :: "bool \<Rightarrow> execute_effects \<Rightarrow> execute_effects" where
  "overlayOperatorCancel operatorCancelled e =
     (if \<not> operatorCancelled then e
      else let e1 = e\<lparr>ee_Reason := ReasonCancelledByOperator\<rparr> in
        if ee_ResultSummary e1 = [] then e1\<lparr>ee_ResultSummary := ''cancelled by operator''\<rparr> else e1)"

definition failed_with :: "string \<Rightarrow> string \<Rightarrow> execute_effects" where
  "failed_with reason summary =
     no_execute_effects\<lparr>ee_TerminateFailed := True, ee_TransitionTask := StatusFailed, ee_Reason := reason,
       ee_ResultSummary := summary\<rparr>"

definition decideExecuteAfterEvidenceRecovery :: "execute_post_run_input \<Rightarrow> execute_effects" where
  "decideExecuteAfterEvidenceRecovery inp =
     (let ci = xi_CommitIngest inp in
      if xi_OperatorCancelled inp then failed_with ReasonCancelledByOperator ''cancelled by operator''
      else if cs_GitSnapshotSkipped ci \<or> \<not> cs_IngestAttempted ci then no_execute_effects\<lparr>ee_ContinueToVerify := True\<rparr>
      else if cs_IngestErr ci then failed_with ReasonExecuteInvalidCommit ReasonExecuteInvalidCommit
      else if cs_FailReason ci \<noteq> []
      then (let reason = cs_FailReason ci; reason' = (if reason = [] then ReasonRunnerStale else reason) in
            failed_with reason' (cs_FailReason ci))
      else no_execute_effects\<lparr>ee_ContinueToVerify := True\<rparr>)"

definition DecideExecutePostRun :: "execute_post_run_input \<Rightarrow> execute_effects" where
  "DecideExecutePostRun inp =
     (if xi_ContextCancelled inp then no_execute_effects\<lparr>ee_StopLoop := True\<rparr>
      else if xi_EvidenceRecovery inp then decideExecuteAfterEvidenceRecovery inp
      else let effects = executeEffectsFromRunner (xi_RunnerOutcome inp); ci = xi_CommitIngest inp in
      if ee_TerminateFailed effects then overlayOperatorCancel (xi_OperatorCancelled inp) effects
      else if xi_OperatorCancelled inp then failed_with ReasonCancelledByOperator ''cancelled by operator''
      else if cs_GitSnapshotSkipped ci \<or> \<not> cs_IngestAttempted ci then no_execute_effects\<lparr>ee_ContinueToVerify := True\<rparr>
      else if cs_IngestErr ci then failed_with ReasonExecuteInvalidCommit ReasonExecuteInvalidCommit
      else if cs_FailReason ci \<noteq> [] then failed_with (cs_FailReason ci) (cs_FailReason ci)
      else no_execute_effects\<lparr>ee_ContinueToVerify := True\<rparr>)"

section \<open>After the verify phase (machine.go, loop.go)\<close>

fun DecideVerifyRetry :: "int \<Rightarrow> int \<Rightarrow> verify_result \<Rightarrow> verify_effects" where
  "DecideVerifyRetry attempt maxRetries VerifyResultPass = no_verify_effects"
| "DecideVerifyRetry attempt maxRetries VerifyResultFailTampered =
     no_verify_effects\<lparr>ve_TerminalFailure := True, ve_Tampered := True\<rparr>"
| "DecideVerifyRetry attempt maxRetries VerifyResultFailRetryable =
     (if attempt < maxRetries then no_verify_effects\<lparr>ve_RetryLoop := True\<rparr>
      else no_verify_effects\<lparr>ve_TerminalFailure := True\<rparr>)"

definition DecideVerifyRetryWithValidity :: "int \<Rightarrow> int \<Rightarrow> verify_result \<Rightarrow> bool \<Rightarrow> verify_effects" where
  "DecideVerifyRetryWithValidity attempt maxRetries result executeStillValid =
     (let effects = DecideVerifyRetry attempt maxRetries result in
      if ve_RetryLoop effects \<and> executeStillValid then effects\<lparr>ve_SkipNextExecute := True\<rparr> else effects)"

definition VerifyDisabled :: "bool \<Rightarrow> bool" where
  "VerifyDisabled enabled = (\<not> enabled)"

text \<open>The argument of the next two is whether the error is non-nil.\<close>

definition DecideVerifyDisabledLegacy :: "bool \<Rightarrow> verify_effects" where
  "DecideVerifyDisabledLegacy checklistErr =
     (if checklistErr then no_verify_effects\<lparr>ve_TerminalFailure := True\<rparr> else no_verify_effects)"

definition DecideFinalizeSuccess :: "bool \<Rightarrow> finalize_effects" where
  "DecideFinalizeSuccess completionErr =
     (if completionErr
      then \<lparr>fe_CycleStatus = CycleStatusFailed, fe_TaskStatus = StatusFailed, fe_Reason = ReasonChecklistCompletionFailed\<rparr>
      else \<lparr>fe_CycleStatus = CycleStatusSucceeded, fe_TaskStatus = StatusDone, fe_Reason = []\<rparr>)"

section \<open>Which retry (retry_mode.go)\<close>

datatype loop_retry_mode = RetryModeVerifyOnly | RetryModeFullReexecute

datatype reason_code = ReasonVerifyOnlyInfra | ReasonFullReexecuteImplementation | ReasonFullReexecuteReportInvalid
  | ReasonFullReexecuteHeadChanged | ReasonFullReexecuteIngestFailed | ReasonFullReexecuteExecuteNotReady

datatype failure_class = FailureClassInfra | FailureClassImplementation

record classify_verdict =
  cv_Passed :: bool
  cv_Verifier :: verifier_kind

record classify_input =
  cl_FailureClass :: failure_class
  cl_CriteriaReportValid :: bool
  cl_GitHeadMatchesAnchor :: bool
  cl_CommitIngestOK :: bool
  cl_ExecuteReachedVerify :: bool

fun ClassifyFailureClass :: "classify_verdict list \<Rightarrow> bool \<Rightarrow> failure_class" where
  "ClassifyFailureClass [] pipelineFailed =
     (if pipelineFailed then FailureClassInfra else FailureClassImplementation)"
| "ClassifyFailureClass (v # vs) pipelineFailed =
     (if cv_Passed v then ClassifyFailureClass vs pipelineFailed
      else if cv_Verifier v = VerifierAgentSelf \<or> cv_Verifier v = VerifierVerifyAgent then FailureClassImplementation
      else ClassifyFailureClass vs pipelineFailed)"

definition ClassifyVerifyRetryMode :: "classify_input \<Rightarrow> loop_retry_mode \<times> reason_code" where
  "ClassifyVerifyRetryMode inp =
     (if \<not> cl_ExecuteReachedVerify inp then (RetryModeFullReexecute, ReasonFullReexecuteExecuteNotReady)
      else if \<not> cl_CriteriaReportValid inp then (RetryModeFullReexecute, ReasonFullReexecuteReportInvalid)
      else if \<not> cl_GitHeadMatchesAnchor inp then (RetryModeFullReexecute, ReasonFullReexecuteHeadChanged)
      else if \<not> cl_CommitIngestOK inp then (RetryModeFullReexecute, ReasonFullReexecuteIngestFailed)
      else if cl_FailureClass inp = FailureClassImplementation
      then (RetryModeFullReexecute, ReasonFullReexecuteImplementation)
      else (RetryModeVerifyOnly, ReasonVerifyOnlyInfra))"

section \<open>The adapter (cycle_execute_adapter.go, verify_retry_eligibility.go)\<close>

text \<open>The runner error classes the harness tells apart.\<close>

datatype runner_err = ErrStale | ErrTimeout | ErrNonZeroExit | ErrInvalidOutput | ErrResumeSession | ErrRunnerOther

fun mapRunnerOutcome :: "runner_err option \<Rightarrow> runner_outcome" where
  "mapRunnerOutcome None = RunnerOK"
| "mapRunnerOutcome (Some ErrStale) = RunnerOK"
| "mapRunnerOutcome (Some ErrTimeout) = RunnerTimeout"
| "mapRunnerOutcome (Some ErrNonZeroExit) = RunnerNonZeroExit"
| "mapRunnerOutcome (Some ErrInvalidOutput) = RunnerInvalidOutput"
| "mapRunnerOutcome (Some _) = RunnerError"

text \<open>The result of the commit ingest: \<^verbatim>\<open>FailReason\<close>, \<^verbatim>\<open>CommitCount\<close> and whether an error came back.\<close>

record commit_ingest =
  ci_FailReason :: string
  ci_CommitCount :: nat
  ci_Err :: bool

definition no_ingest :: commit_ingest where
  "no_ingest = \<lparr>ci_FailReason = [], ci_CommitCount = 0, ci_Err = False\<rparr>"

definition buildExecutePostRunInput ::
  "bool \<Rightarrow> runner_err option \<Rightarrow> bool \<Rightarrow> bool \<Rightarrow> bool \<Rightarrow> commit_ingest \<Rightarrow> execute_post_run_input" where
  "buildExecutePostRunInput ctxDone runErr operatorCancelled snapSkipped ingestAttempted ingest =
     (let evidenceRecovery = (runErr = Some ErrStale);
          inp = \<lparr>xi_RunnerOutcome = mapRunnerOutcome runErr, xi_OperatorCancelled = operatorCancelled,
                 xi_ContextCancelled = ctxDone, xi_EvidenceRecovery = evidenceRecovery,
                 xi_CommitIngest = \<lparr>cs_GitSnapshotSkipped = snapSkipped, cs_IngestAttempted = False,
                                    cs_IngestErr = False, cs_FailReason = []\<rparr>\<rparr>;
          shouldIngest = (runErr = None \<or> evidenceRecovery) \<and> \<not> operatorCancelled \<and> \<not> snapSkipped in
      if shouldIngest
      then inp\<lparr>xi_CommitIngest := (xi_CommitIngest inp)\<lparr>cs_IngestAttempted := ingestAttempted,
                 cs_IngestErr := ingestAttempted \<and> ci_Err ingest,
                 cs_FailReason := (if ingestAttempted then ci_FailReason ingest else [])\<rparr>\<rparr>
      else inp)"

definition executePhaseStatusFromEffects :: "execute_effects \<Rightarrow> phase_status" where
  "executePhaseStatusFromEffects e =
     (if ee_ContinueToVerify e then PhaseStatusSucceeded else PhaseStatusFailed)"

definition has_prefix :: "string \<Rightarrow> string \<Rightarrow> bool" where
  "has_prefix p s \<longleftrightarrow> take (length p) s = p"

definition overlayOperatorCancelOnResult :: "string \<Rightarrow> bool \<Rightarrow> execute_effects \<Rightarrow> string" where
  "overlayOperatorCancelOnResult summary operatorCancelled e =
     (if \<not> operatorCancelled then summary
      else if summary = [] \<or> has_prefix ''cursor: timeout'' summary
      then (if ee_ResultSummary e = [] then ''cancelled by operator'' else ee_ResultSummary e)
      else summary)"

definition commitIngestOK :: "bool \<Rightarrow> bool \<Rightarrow> commit_ingest \<Rightarrow> bool" where
  "commitIngestOK snapSkipped ingestAttempted ingest =
     (if snapSkipped then True
      else if \<not> ingestAttempted then True
      else if ci_Err ingest then False
      else ci_FailReason ingest = [])"

section \<open>What the decisions guarantee\<close>

lemmas effects_defs = no_execute_effects_def no_verify_effects_def terminalExecute_def failed_with_def
  overlayOperatorCancel_def decideExecuteAfterEvidenceRecovery_def DecideExecutePostRun_def

lemma executeEffects_cases:
  "executeEffectsFromRunner o1 =
     (if o1 = RunnerOK then no_execute_effects\<lparr>ee_ContinueToVerify := True\<rparr>
      else terminalExecute StatusFailed (ee_Reason (executeEffectsFromRunner o1)))"
  by (cases o1) (simp_all add: terminalExecute_def)

text \<open>Exactly one of stop, continue and fail; a failure names a reason and moves the task to failed.\<close>

definition one_of :: "bool \<Rightarrow> bool \<Rightarrow> bool \<Rightarrow> bool" where
  "one_of a b c \<longleftrightarrow> (a \<and> \<not> b \<and> \<not> c) \<or> (\<not> a \<and> b \<and> \<not> c) \<or> (\<not> a \<and> \<not> b \<and> c)"

lemma post_run_exclusive:
  "one_of (ee_StopLoop (DecideExecutePostRun inp)) (ee_ContinueToVerify (DecideExecutePostRun inp))
     (ee_TerminateFailed (DecideExecutePostRun inp))"
  by (cases "xi_RunnerOutcome inp") (auto simp: effects_defs one_of_def Let_def)

lemma post_run_failed:
  "ee_TerminateFailed (DecideExecutePostRun inp) \<Longrightarrow>
     ee_TransitionTask (DecideExecutePostRun inp) = StatusFailed \<and> ee_Reason (DecideExecutePostRun inp) \<noteq> []"
  by (cases "xi_RunnerOutcome inp")
     (auto simp: effects_defs Let_def ReasonRunnerTimeout_def ReasonRunnerNonZeroExit_def ReasonRunnerInvalidOutput_def
       ReasonRunnerError_def ReasonCancelledByOperator_def ReasonExecuteInvalidCommit_def split: if_splits)

lemma verify_effects_sel:
  "ve_RetryLoop (DecideVerifyRetryWithValidity a m result v) \<longleftrightarrow> result = VerifyResultFailRetryable \<and> a < m"
  "ve_SkipNextExecute (DecideVerifyRetryWithValidity a m result v) \<longleftrightarrow> result = VerifyResultFailRetryable \<and> a < m \<and> v"
  "ve_TerminalFailure (DecideVerifyRetryWithValidity a m result v) \<longleftrightarrow>
     result = VerifyResultFailTampered \<or> result = VerifyResultFailRetryable \<and> m \<le> a"
  "ve_Tampered (DecideVerifyRetryWithValidity a m result v) \<longleftrightarrow> result = VerifyResultFailTampered"
  by (cases result; cases "a < m"; cases v; simp add: DecideVerifyRetryWithValidity_def no_verify_effects_def)+

text \<open>Verify-only is chosen exactly when the execute artefacts are still good and nothing failed on its
  own merits.\<close>

lemma ClassifyFailureClass_iff:
  "ClassifyFailureClass vs f = FailureClassInfra \<longleftrightarrow>
     f \<and> (\<forall>v\<in>set vs. \<not> cv_Passed v \<longrightarrow> cv_Verifier v \<noteq> VerifierAgentSelf \<and> cv_Verifier v \<noteq> VerifierVerifyAgent)"
  by (induction vs) auto

lemma ClassifyVerifyRetryMode_iff:
  "fst (ClassifyVerifyRetryMode inp) = RetryModeVerifyOnly \<longleftrightarrow>
     cl_ExecuteReachedVerify inp \<and> cl_CriteriaReportValid inp \<and> cl_GitHeadMatchesAnchor inp \<and>
     cl_CommitIngestOK inp \<and> cl_FailureClass inp = FailureClassInfra"
  by (cases "cl_FailureClass inp") (auto simp: ClassifyVerifyRetryMode_def)

end
