(* ===== verification/Harness_Contract.thy ===== *)
theory Harness_Contract
  imports Done_Gate Store_Commits Orchestration
begin

text \<open>
  The persistence contract of the harness (\<^verbatim>\<open>pkgs/agents/harness/internal/contract/store.go\<close>): the operations
  the worker needs from the store, as a record of functions over a state \<open>'s\<close>. An operation returns its
  result and the state it leaves, also when it fails. \<open>db_store\<close> is the instance the program runs on:
  every call is one transaction on the database with its own clock and identifiers, and any call can be
  made to fail without effect (a lost connection, a deadline).
\<close>

section \<open>The interface (contract/store.go)\<close>

record app_settings =
  as_VerifyMaxRetries :: int
  as_VerifyRunnerModel :: string
  as_VerifyCommandTimeoutSeconds :: int

type_synonym ('s, 'a) call = "'s \<Rightarrow> 'a res \<times> 's"

text \<open>Updates by the harness set the status only, on behalf of the agent; all other calls of the
  harness also act as \<^verbatim>\<open>domain.ActorAgent\<close>.\<close>

record 's store_ops =
  so_Update :: "string \<Rightarrow> status \<Rightarrow> ('s, unit) call"
  so_StartCycle :: "start_cycle_input \<Rightarrow> ('s, task_cycle) call"
  so_GetCycle :: "string \<Rightarrow> ('s, task_cycle) call"
  so_TerminateCycle :: "string \<Rightarrow> cycle_status \<Rightarrow> string \<Rightarrow> ('s, unit) call"
  so_StartPhase :: "string \<Rightarrow> phase \<Rightarrow> ('s, cycle_phase) call"
  so_CompletePhase :: "complete_phase_input \<Rightarrow> ('s, unit) call"
  so_ListPhases :: "string \<Rightarrow> ('s, cycle_phase list) call"
  so_ListCriteriaReports :: "string \<Rightarrow> ('s, criteria_report list) call"
  so_UpsertCriteriaReports :: "string \<Rightarrow> int \<Rightarrow> criteria_entry list \<Rightarrow> ('s, unit) call"
  so_ListVerifyReports :: "string \<Rightarrow> ('s, verify_report list) call"
  so_UpsertVerifyReports :: "string \<Rightarrow> int \<Rightarrow> verify_entry list \<Rightarrow> ('s, unit) call"
  so_ListCommitsForTask :: "string \<Rightarrow> ('s, cycle_commit list) call"
  so_ListCommitsForCycle :: "string \<Rightarrow> ('s, cycle_commit list) call"
  so_UpsertCycleCommits :: "string \<Rightarrow> string \<Rightarrow> commit_entry list \<Rightarrow> ('s, unit) call"
  so_ListChecklistForVerify :: "string \<Rightarrow> ('s, verify_item list) call"
  so_ListChecklistForSubject :: "string \<Rightarrow> ('s, item_view list) call"
  so_SetItemDone :: "string \<Rightarrow> string \<Rightarrow> bool \<Rightarrow> ('s, unit) call"
  so_SetItemDoneWithEvidence :: "string \<Rightarrow> string \<Rightarrow> string \<Rightarrow> verifier_kind \<Rightarrow> string \<Rightarrow> string \<Rightarrow> ('s, unit) call"
  so_GetSettings :: "('s, app_settings) call"
  so_AppendStream :: "append_stream_input \<Rightarrow> ('s, unit) call"
  so_AppendTaskEvent :: "string \<Rightarrow> event_type \<Rightarrow> payload \<Rightarrow> ('s, unit) call"

section \<open>The store the program runs on\<close>

text \<open>\<open>cn_tick\<close> counts the calls. The call with number \<open>n\<close> reads the clock and the identifiers of
  \<open>cn_tx n\<close> and \<open>cn_ids n\<close>, and fails with \<open>ErrDB e\<close> before it does anything when \<open>cn_fault n = Some e\<close>.\<close>

record store_conn =
  cn_db :: db
  cn_criteria :: "criteria_report list"
  cn_verify :: "verify_report list"
  cn_commits :: "cycle_commit list"
  cn_settings :: app_settings
  cn_tick :: nat
  cn_tx :: "nat \<Rightarrow> txenv"
  cn_ids :: "nat \<Rightarrow> nat \<Rightarrow> string"
  cn_fault :: "nat \<Rightarrow> string option"

definition db_call :: "(txenv \<Rightarrow> (nat \<Rightarrow> string) \<Rightarrow> store_conn \<Rightarrow> ('a \<times> store_conn) res) \<Rightarrow> (store_conn, 'a) call" where
  "db_call f s =
     (let n = cn_tick s; s1 = s\<lparr>cn_tick := Suc n\<rparr> in
      case cn_fault s n of
        Some e \<Rightarrow> (Inl (ErrDB e), s1)
      | None \<Rightarrow> (case f (cn_tx s n) (cn_ids s n) s1 of Inl e \<Rightarrow> (Inl e, s1) | Inr (a, s2) \<Rightarrow> (Inr a, s2)))"

definition db_write :: "(txenv \<Rightarrow> db \<Rightarrow> (db \<times> 'a) res) \<Rightarrow> (store_conn, 'a) call" where
  "db_write op = db_call (\<lambda>env _ s. rbind (op env (cn_db s)) (\<lambda>(d, a). Inr (a, s\<lparr>cn_db := d\<rparr>)))"

definition db_read :: "(store_conn \<Rightarrow> 'a res) \<Rightarrow> (store_conn, 'a) call" where
  "db_read op = db_call (\<lambda>_ _ s. rbind (op s) (\<lambda>a. Inr (a, s)))"

definition unit_of :: "('d \<times> 'a) res \<Rightarrow> ('d \<times> unit) res" where
  "unit_of r = rbind r (\<lambda>(d, _). Inr (d, ()))"

definition only_db :: "'d res \<Rightarrow> ('d \<times> unit) res" where
  "only_db r = rbind r (\<lambda>d. Inr (d, ()))"

definition db_store :: "store_conn store_ops" where
  "db_store = \<lparr>
     so_Update = (\<lambda>i st. db_write (\<lambda>env d. unit_of (Task_Update env d i (empty_update\<lparr>uin_Status := Some st\<rparr>) ActorAgent))),
     so_StartCycle = (\<lambda>inp. db_write (\<lambda>env d. Start env d inp)),
     so_GetCycle = (\<lambda>i. db_read (\<lambda>s. Cycle_Get (cn_db s) i)),
     so_TerminateCycle = (\<lambda>i st reason. db_write (\<lambda>env d. unit_of (Terminate env d i st reason ActorAgent))),
     so_StartPhase = (\<lambda>i ph. db_write (\<lambda>env d. StartPhase env d i ph ActorAgent)),
     so_CompletePhase = (\<lambda>inp. db_write (\<lambda>env d. unit_of (CompletePhase env d inp))),
     so_ListPhases = (\<lambda>i. db_read (\<lambda>s. ListPhasesForCycle (cn_db s) i)),
     so_ListCriteriaReports = (\<lambda>i. db_read (\<lambda>s. ListCriteriaReportsForCycle (cn_criteria s) i)),
     so_UpsertCriteriaReports = (\<lambda>i n es. db_call (\<lambda>env ids s.
       rbind (UpsertCriteriaReports (tx_now env) ids (cn_db s) (cn_criteria s) i n es) (\<lambda>rows. Inr ((), s\<lparr>cn_criteria := rows\<rparr>)))),
     so_ListVerifyReports = (\<lambda>i. db_read (\<lambda>s. ListVerifyReportsForCycle (cn_verify s) i)),
     so_UpsertVerifyReports = (\<lambda>i n es. db_call (\<lambda>env ids s.
       rbind (UpsertVerifyReports (tx_now env) ids (cn_db s) (cn_verify s) i n es) (\<lambda>rows. Inr ((), s\<lparr>cn_verify := rows\<rparr>)))),
     so_ListCommitsForTask = (\<lambda>i. db_read (\<lambda>s. ListCommitsForTask (cn_commits s) i)),
     so_ListCommitsForCycle = (\<lambda>i. db_read (\<lambda>s. ListCommitsForCycle (cn_commits s) i)),
     so_UpsertCycleCommits = (\<lambda>t i es. db_call (\<lambda>env ids s.
       rbind (UpsertCycleCommits (tx_now env) ids (cn_db s) (cn_commits s) t i es) (\<lambda>rows. Inr ((), s\<lparr>cn_commits := rows\<rparr>)))),
     so_ListChecklistForVerify = (\<lambda>i. db_read (\<lambda>s. ListForVerify (cn_db s) i)),
     so_ListChecklistForSubject = (\<lambda>i. db_read (\<lambda>s. Checklist_List (cn_db s) i)),
     so_SetItemDone = (\<lambda>t i done. db_write (\<lambda>env d. only_db (Checklist_SetDone env d t i done ActorAgent))),
     so_SetItemDoneWithEvidence = (\<lambda>t i ev v r c. db_write (\<lambda>env d. unit_of (SetDoneWithEvidence env d t i ev v r c ActorAgent))),
     so_GetSettings = db_read (\<lambda>s. Inr (cn_settings s)),
     so_AppendStream = (\<lambda>inp. db_write (\<lambda>env d. unit_of (AppendStreamEvent env d inp))),
     so_AppendTaskEvent = (\<lambda>t typ data. db_write (\<lambda>env d. only_db (Events_Append env d t typ ActorAgent data)))\<rparr>"

end
