(* ===== verification/Harness_Laws.thy ===== *)
theory Harness_Laws
  imports Harness_Contract
begin

text \<open>
  What the harness relies on of its store, as predicates the calls keep: \<open>quiet_store\<close> for the calls that
  neither move an attempt nor the status of the task, \<open>guarded_store\<close> for all calls but marking the task
  done, \<open>fully_guarded_store\<close> for that too. \<open>db_quiet\<close> and \<open>db_guard\<close> give them for \<open>db_store\<close> from the transactions.
\<close>

section \<open>Predicates the calls keep\<close>

text \<open>Reads, reports, completions, stream and audit rows.\<close>

locale quiet_store =
  fixes S :: "'s store_ops" and inv :: "'s \<Rightarrow> bool"
  assumes keep_GetCycle: "inv s \<Longrightarrow> inv (snd (so_GetCycle S c s))"
    and keep_ListPhases: "inv s \<Longrightarrow> inv (snd (so_ListPhases S c s))"
    and keep_ListCriteriaReports: "inv s \<Longrightarrow> inv (snd (so_ListCriteriaReports S c s))"
    and keep_UpsertCriteriaReports: "inv s \<Longrightarrow> inv (snd (so_UpsertCriteriaReports S c n ces s))"
    and keep_ListVerifyReports: "inv s \<Longrightarrow> inv (snd (so_ListVerifyReports S c s))"
    and keep_UpsertVerifyReports: "inv s \<Longrightarrow> inv (snd (so_UpsertVerifyReports S c n ves s))"
    and keep_ListCommitsForTask: "inv s \<Longrightarrow> inv (snd (so_ListCommitsForTask S t s))"
    and keep_ListCommitsForCycle: "inv s \<Longrightarrow> inv (snd (so_ListCommitsForCycle S c s))"
    and keep_UpsertCycleCommits: "inv s \<Longrightarrow> inv (snd (so_UpsertCycleCommits S t c cms s))"
    and keep_ListChecklistForVerify: "inv s \<Longrightarrow> inv (snd (so_ListChecklistForVerify S t s))"
    and keep_ListChecklistForSubject: "inv s \<Longrightarrow> inv (snd (so_ListChecklistForSubject S t s))"
    and keep_SetItemDone: "inv s \<Longrightarrow> inv (snd (so_SetItemDone S t i True s))"
    and keep_SetItemDoneWithEvidence: "inv s \<Longrightarrow> inv (snd (so_SetItemDoneWithEvidence S t i ev vk rs c s))"
    and keep_GetSettings: "inv s \<Longrightarrow> inv (snd (so_GetSettings S s))"
    and keep_AppendStream: "inv s \<Longrightarrow> inv (snd (so_AppendStream S asi s))"
    and keep_AppendTaskEvent: "inv s \<Longrightarrow> inv (snd (so_AppendTaskEvent S t typ data s))"
begin

lemmas quiet_keeps = keep_GetCycle keep_ListPhases keep_ListCriteriaReports keep_UpsertCriteriaReports keep_ListVerifyReports
  keep_UpsertVerifyReports keep_ListCommitsForTask keep_ListCommitsForCycle keep_UpsertCycleCommits keep_ListChecklistForVerify
  keep_ListChecklistForSubject keep_SetItemDone keep_SetItemDoneWithEvidence keep_GetSettings keep_AppendStream
  keep_AppendTaskEvent

end

text \<open>The other calls: those that move an attempt or the status of the task.\<close>

locale guarded_store = quiet_store +
  assumes keep_Update: "inv s \<Longrightarrow> inv (snd (so_Update S t StatusFailed s))"
    and keep_StartCycle: "inv s \<Longrightarrow> inv (snd (so_StartCycle S sci s))"
    and keep_TerminateCycle: "inv s \<Longrightarrow> inv (snd (so_TerminateCycle S c st reason s))"
    and keep_StartPhase: "inv s \<Longrightarrow> inv (snd (so_StartPhase S c ph s))"
    and keep_CompletePhase: "inv s \<Longrightarrow> inv (snd (so_CompletePhase S cpi s))"
begin

lemmas keeps = quiet_keeps keep_Update keep_StartCycle keep_TerminateCycle keep_StartPhase keep_CompletePhase

end

text \<open>A predicate that marking a task done keeps as well.\<close>

locale fully_guarded_store = guarded_store +
  assumes keep_Done: "inv s \<Longrightarrow> inv (snd (so_Update S t StatusDone s))"

section \<open>The calls on the database\<close>

text \<open>A predicate on the connection and the database that a transaction keeps is kept by the call.\<close>

lemma db_call_conn [simp]:
  "cn_tx (snd (db_write op s)) = cn_tx s" "cn_fault (snd (db_write op s)) = cn_fault s"
  "cn_tx (snd (db_read op' s)) = cn_tx s" "cn_fault (snd (db_read op' s)) = cn_fault s" "cn_db (snd (db_read op' s)) = cn_db s"
  by (auto simp: db_write_def db_read_def db_call_def Let_def rbind_Inr_iff split: option.split sum.split)

lemma db_write_keeps:
  assumes "P (cn_db s)" "\<And>env d a. op env (cn_db s) = Inr (d, a) \<Longrightarrow> P d"
  shows "P (cn_db (snd (db_write op s)))"
  using assms by (auto simp: db_write_def db_call_def Let_def split: option.split sum.split)

lemma db_reports_same [simp]:
  "cn_db (snd (so_UpsertCriteriaReports db_store c n ces s)) = cn_db s"
  "cn_tx (snd (so_UpsertCriteriaReports db_store c n ces s)) = cn_tx s"
  "cn_fault (snd (so_UpsertCriteriaReports db_store c n ces s)) = cn_fault s"
  "cn_db (snd (so_UpsertVerifyReports db_store c n ves s)) = cn_db s"
  "cn_tx (snd (so_UpsertVerifyReports db_store c n ves s)) = cn_tx s"
  "cn_fault (snd (so_UpsertVerifyReports db_store c n ves s)) = cn_fault s"
  "cn_db (snd (so_UpsertCycleCommits db_store t c cms s)) = cn_db s"
  "cn_tx (snd (so_UpsertCycleCommits db_store t c cms s)) = cn_tx s"
  "cn_fault (snd (so_UpsertCycleCommits db_store t c cms s)) = cn_fault s"
  by (auto simp: db_store_def db_call_def Let_def split: option.split sum.split)

lemma unit_of_Inr: "unit_of r = Inr (d, u) \<longleftrightarrow> (\<exists>a. r = Inr (d, a))"
  by (cases r) (auto simp: unit_of_def)

lemma only_db_Inr: "only_db r = Inr (d, u) \<longleftrightarrow> r = Inr d"
  by (cases r) (auto simp: only_db_def)

text \<open>A predicate on the database that the transactions keep gives a guard of \<open>db_store\<close>, whatever calls fail.
  It may also speak of the clocks, identifiers and faults of the calls, which never change.\<close>

locale db_quiet =
  fixes P :: "(nat \<Rightarrow> txenv) \<Rightarrow> (nat \<Rightarrow> string option) \<Rightarrow> db \<Rightarrow> bool"
  assumes quiet_item: "P e f d \<Longrightarrow> Checklist_SetDone env d t i True ActorAgent = Inr d' \<Longrightarrow> P e f d'"
    and quiet_evidence: "P e f d \<Longrightarrow> SetDoneWithEvidence env d t i ev v rs c ActorAgent = Inr (d', ch) \<Longrightarrow> P e f d'"
    and quiet_stream: "P e f d \<Longrightarrow> AppendStreamEvent env d asi = Inr (d', row) \<Longrightarrow> P e f d'"
    and quiet_event: "P e f d \<Longrightarrow> Events_Append env d t typ ActorAgent data = Inr d' \<Longrightarrow> P e f d'"

sublocale db_quiet < quiet_store db_store "\<lambda>s. P (cn_tx s) (cn_fault s) (cn_db s)"
proof
  let ?inv = "\<lambda>s. P (cn_tx s) (cn_fault s) (cn_db s)"
  show "?inv (snd (so_SetItemDone db_store t i True s))" if "?inv s" for s t i
    using that unfolding db_store_def store_ops.simps db_call_conn
    by (rule db_write_keeps) (auto simp: only_db_Inr intro: quiet_item[OF that])
  show "?inv (snd (so_SetItemDoneWithEvidence db_store t i ev vk rs c s))" if "?inv s" for s t i ev vk rs c
    using that unfolding db_store_def store_ops.simps db_call_conn
    by (rule db_write_keeps) (auto simp: unit_of_Inr intro: quiet_evidence[OF that])
  show "?inv (snd (so_AppendStream db_store asi s))" if "?inv s" for s asi
    using that unfolding db_store_def store_ops.simps db_call_conn
    by (rule db_write_keeps) (auto simp: unit_of_Inr intro: quiet_stream[OF that])
  show "?inv (snd (so_AppendTaskEvent db_store t ty data s))" if "?inv s" for s t ty data
    using that unfolding db_store_def store_ops.simps db_call_conn
    by (rule db_write_keeps) (auto simp: only_db_Inr intro: quiet_event[OF that])
qed (simp_all add: db_store_def db_reports_same[unfolded db_store_def store_ops.simps])

locale db_guard =
  fixes P :: "db \<Rightarrow> bool"
  assumes guard_failed:
      "P d \<Longrightarrow> Task_Update env d t (empty_update\<lparr>uin_Status := Some StatusFailed\<rparr>) ActorAgent = Inr (d', r) \<Longrightarrow> P d'"
    and guard_cycle: "P d \<Longrightarrow> cycle_step d d' \<Longrightarrow> P d'"
    and guard_item: "P d \<Longrightarrow> Checklist_SetDone env d t i True ActorAgent = Inr d' \<Longrightarrow> P d'"
    and guard_evidence: "P d \<Longrightarrow> SetDoneWithEvidence env d t i ev v rs c ActorAgent = Inr (d', f) \<Longrightarrow> P d'"
    and guard_event: "P d \<Longrightarrow> Events_Append env d t typ ActorAgent data = Inr d' \<Longrightarrow> P d'"

sublocale db_guard < db_quiet "\<lambda>_ _. P"
  by unfold_locales (auto intro: guard_item guard_evidence guard_event guard_cycle step_AppendStreamEvent)

sublocale db_guard < guarded_store db_store "\<lambda>s. P (cn_db s)"
proof
  show "P (cn_db (snd (so_Update db_store t StatusFailed s)))" if "P (cn_db s)" for s t
    using that unfolding db_store_def store_ops.simps
    by (rule db_write_keeps) (auto simp: unit_of_Inr intro: guard_failed[OF that])
  show "P (cn_db (snd (so_StartCycle db_store sci s)))" if "P (cn_db s)" for s sci
    using that unfolding db_store_def store_ops.simps
    by (rule db_write_keeps) (auto intro: guard_cycle[OF that] step_Start)
  show "P (cn_db (snd (so_TerminateCycle db_store c st reason s)))" if "P (cn_db s)" for s c st reason
    using that unfolding db_store_def store_ops.simps
    by (rule db_write_keeps) (auto simp: unit_of_Inr intro: guard_cycle[OF that] step_Terminate)
  show "P (cn_db (snd (so_StartPhase db_store c ph s)))" if "P (cn_db s)" for s c ph
    using that unfolding db_store_def store_ops.simps
    by (rule db_write_keeps) (auto intro: guard_cycle[OF that] step_StartPhase)
  show "P (cn_db (snd (so_CompletePhase db_store cpi s)))" if "P (cn_db s)" for s cpi
    using that unfolding db_store_def store_ops.simps
    by (rule db_write_keeps) (auto simp: unit_of_Inr intro: guard_cycle[OF that] step_CompletePhase)
qed

end
