(* ===== verification/Report_Files.thy ===== *)
theory Report_Files
  imports Store_Commits
begin

text \<open>
  Two leaf packages of the harness: the report files the agents write
  (\<^verbatim>\<open>pkgs/agents/harness/internal/reports/criteria_parse.go\<close>) and the integrity check of the working tree
  around a verify pass (\<^verbatim>\<open>pkgs/agents/harness/internal/git/integrity.go\<close>). A report file is what the
  decoder of the standard library makes of it; git is asked by its commands, whose outputs are values.
\<close>

section \<open>Text helpers\<close>

fun join :: "string \<Rightarrow> string list \<Rightarrow> string" where
  "join sep [] = []"
| "join sep [x] = x"
| "join sep (x # y # xs) = x @ sep @ join sep (y # xs)"

function itoa_loop :: "nat \<Rightarrow> string \<Rightarrow> string" where
  "itoa_loop n acc = (if n = 0 then acc else itoa_loop (n div 10) (char_of (48 + n mod 10) # acc))"
  by auto
termination by (relation "measure fst") auto

declare itoa_loop.simps [simp del]

lemma itoa_loop_0 [simp]: "itoa_loop 0 acc = acc"
  by (subst itoa_loop.simps) simp

definition itoa :: "int \<Rightarrow> string" where
  "itoa n = (if n = 0 then ''0'' else if n < 0 then CHR ''-'' # itoa_loop (nat (- n)) [] else itoa_loop (nat n) [])"

section \<open>Report files (criteria_parse.go)\<close>

datatype report_err =
    ErrCriteriaReportMissing
  | ErrCriteriaReportInvalid string
  | ErrVerifyReportMissing
  | ErrVerifyReportInvalid string
  | ErrReportIO string

definition wrapped :: "string \<Rightarrow> string \<Rightarrow> string" where
  "wrapped base detail = (if detail = [] then base else base @ '': '' @ detail)"

fun report_err_text :: "report_err \<Rightarrow> string" where
  "report_err_text ErrCriteriaReportMissing = ''criteria report missing''"
| "report_err_text (ErrCriteriaReportInvalid d) = wrapped ''criteria report invalid'' d"
| "report_err_text ErrVerifyReportMissing = ''verify report missing''"
| "report_err_text (ErrVerifyReportInvalid d) = wrapped ''verify report invalid'' d"
| "report_err_text (ErrReportIO d) = d"

datatype 'a report_file =
    FileMissing
  | FileIOErr string
  | FileSymlink
  | FileUndecodable string
  | FileDoc 'a

record claim =
  cl_ID :: string
  cl_ClaimedDone :: bool
  cl_Evidence :: string

record judgement =
  jd_ID :: string
  jd_Verified :: bool
  jd_Reasoning :: string

record criteria_doc =
  cd_SchemaVersion :: int
  cd_Criteria :: "claim list"
  cd_Commits :: "(string \<times> string) list"

record verify_doc =
  vd_SchemaVersion :: int
  vd_Criteria :: "judgement list"

definition maxFieldBytes :: nat where "maxFieldBytes = 16 * 1024"
definition minVerifyReasoning :: nat where "minVerifyReasoning = 40"
definition CurrentSchemaVersion :: int where "CurrentSchemaVersion = 1"

fun readJSONFile :: "'a report_file \<Rightarrow> report_err + 'a" where
  "readJSONFile FileMissing = Inl ErrCriteriaReportMissing"
| "readJSONFile (FileIOErr e) = Inl (ErrReportIO e)"
| "readJSONFile FileSymlink = Inl (ErrCriteriaReportInvalid ''symlink not permitted'')"
| "readJSONFile (FileUndecodable e) = Inl (ErrCriteriaReportInvalid e)"
| "readJSONFile (FileDoc d) = Inr d"

definition validateSchemaVersion :: "int \<Rightarrow> report_err option" where
  "validateSchemaVersion v =
     (if v = 0 then None
      else if CurrentSchemaVersion < v then Some (ErrCriteriaReportInvalid (''unsupported schema_version '' @ itoa v))
      else None)"

definition validateVerifyReportSchema :: "verify_doc \<Rightarrow> report_err option" where
  "validateVerifyReportSchema rep =
     (case validateSchemaVersion (vd_SchemaVersion rep) of
        None \<Rightarrow> None
      | Some (ErrCriteriaReportInvalid _) \<Rightarrow> Some (ErrVerifyReportInvalid [])
      | Some e \<Rightarrow> Some e)"

text \<open>A map from trimmed criterion ids to entries is the association list in the order of the file.\<close>

fun collect_claims :: "(string \<times> claim) list \<Rightarrow> claim list \<Rightarrow> report_err + (string \<times> claim) list" where
  "collect_claims out [] = Inr out"
| "collect_claims out (e # es) =
     (let i = trim_space (cl_ID e) in
      if i = [] then Inl (ErrCriteriaReportInvalid ''empty criterion id'')
      else if map_of out i \<noteq> None then Inl (ErrCriteriaReportInvalid (''duplicate criterion id '' @ i))
      else if maxFieldBytes < length (cl_Evidence e) then Inl (ErrCriteriaReportInvalid ''evidence too long'')
      else collect_claims (out @ [(i, e)]) es)"

definition first_missing :: "string list \<Rightarrow> (string \<times> 'e) list \<Rightarrow> string option" where
  "first_missing expected out = List.find (\<lambda>i. map_of out i = None) expected"

definition ParseCriteriaReport :: "criteria_doc report_file \<Rightarrow> string list \<Rightarrow> report_err + (string \<times> claim) list" where
  "ParseCriteriaReport file expected =
     (case readJSONFile file of
        Inl e \<Rightarrow> Inl e
      | Inr rep \<Rightarrow>
          (case validateSchemaVersion (cd_SchemaVersion rep) of
             Some e \<Rightarrow> Inl e
           | None \<Rightarrow>
               (case collect_claims [] (cd_Criteria rep) of
                  Inl e \<Rightarrow> Inl e
                | Inr out \<Rightarrow>
                    (case first_missing expected out of
                       Some i \<Rightarrow> Inl (ErrCriteriaReportInvalid (''missing criterion '' @ i))
                     | None \<Rightarrow> Inr out))))"

text \<open>The partial parse: blank ids are skipped, a later entry replaces an earlier one.\<close>

definition ParseCriteriaReportPartial :: "criteria_doc report_file \<Rightarrow> report_err + (string \<times> claim) list" where
  "ParseCriteriaReportPartial file =
     (case readJSONFile file of
        Inl e \<Rightarrow> Inl e
      | Inr rep \<Rightarrow>
          (case validateSchemaVersion (cd_SchemaVersion rep) of
             Some e \<Rightarrow> Inl e
           | None \<Rightarrow> Inr (foldl (\<lambda>out e. if trim_space (cl_ID e) = [] then out
                                          else AList.update (trim_space (cl_ID e)) e out) [] (cd_Criteria rep))))"

fun collect_commits :: "string list \<Rightarrow> (string \<times> string) list \<Rightarrow> report_err + (string \<times> string) list" where
  "collect_commits seen [] = Inr []"
| "collect_commits seen ((sha0, branch) # cs) =
     (let sha = trim_space sha0 in
      if sha = [] then Inl (ErrCriteriaReportInvalid ''empty commit sha'')
      else if sha \<in> set seen then Inl (ErrCriteriaReportInvalid (''duplicate commit sha '' @ sha))
      else (case collect_commits (sha # seen) cs of
              Inl e \<Rightarrow> Inl e | Inr out \<Rightarrow> Inr ((sha, trim_space branch) # out)))"

definition ParseCriteriaReportCommits :: "criteria_doc report_file \<Rightarrow> report_err + (string \<times> string) list" where
  "ParseCriteriaReportCommits file =
     (case readJSONFile file of
        Inl ErrCriteriaReportMissing \<Rightarrow> Inr []
      | Inl e \<Rightarrow> Inl e
      | Inr rep \<Rightarrow>
          (case validateSchemaVersion (cd_SchemaVersion rep) of
             Some e \<Rightarrow> Inl e
           | None \<Rightarrow> collect_commits [] (cd_Commits rep)))"

fun collect_judgements :: "(string \<times> judgement) list \<Rightarrow> judgement list \<Rightarrow> report_err + (string \<times> judgement) list" where
  "collect_judgements out [] = Inr out"
| "collect_judgements out (e # es) =
     (let i = trim_space (jd_ID e) in
      if i = [] then Inl (ErrVerifyReportInvalid ''empty criterion id'')
      else if map_of out i \<noteq> None then Inl (ErrVerifyReportInvalid (''duplicate criterion id '' @ i))
      else if jd_Verified e \<and> length (trim_space (jd_Reasoning e)) < minVerifyReasoning
      then Inl (ErrVerifyReportInvalid (''reasoning too short for verified criterion '' @ i))
      else if maxFieldBytes < length (jd_Reasoning e) then Inl (ErrVerifyReportInvalid ''reasoning too long'')
      else collect_judgements (out @ [(i, e)]) es)"

definition ParseVerifyReport :: "verify_doc report_file \<Rightarrow> string list \<Rightarrow> report_err + (string \<times> judgement) list" where
  "ParseVerifyReport file expected =
     (case readJSONFile file of
        Inl ErrCriteriaReportMissing \<Rightarrow> Inl ErrVerifyReportMissing
      | Inl e \<Rightarrow> Inl e
      | Inr rep \<Rightarrow>
          (case validateVerifyReportSchema rep of
             Some e \<Rightarrow> Inl e
           | None \<Rightarrow>
               (case collect_judgements [] (vd_Criteria rep) of
                  Inl e \<Rightarrow> Inl e
                | Inr out \<Rightarrow>
                    (case first_missing expected out of
                       Some i \<Rightarrow> Inl (ErrVerifyReportInvalid (''missing criterion '' @ i))
                     | None \<Rightarrow> Inr out))))"

section \<open>Integrity of the working tree (integrity.go)\<close>

text \<open>A finished git command: its standard output, or an error, told apart by what it wrote to standard
  error. \<^verbatim>\<open>gitcore.Run\<close> trims the output.\<close>

datatype git_out = GitOut string | GitNotRepo | GitErr string

fun git_Run :: "git_out \<Rightarrow> git_out" where
  "git_Run (GitOut out) = GitOut (trim_space out)"
| "git_Run r = r"

record integrity_snapshot =
  ig_NotGitRepo :: bool
  ig_Head :: string
  ig_Changed :: "string list"

record integrity_diff =
  gd_HeadChanged :: bool
  gd_AddedPaths :: "string list"

text \<open>\<^verbatim>\<open>strings.Split(out, "\x00")\<close>.\<close>

fun split_nul :: "string \<Rightarrow> string list" where
  "split_nul [] = [[]]"
| "split_nul (c # s) =
     (if c = CHR 0x00 then [] # split_nul s
      else (case split_nul s of [] \<Rightarrow> [[c]] | r # rs \<Rightarrow> (c # r) # rs))"

fun porcelain_paths :: "string list \<Rightarrow> string list" where
  "porcelain_paths [] = []"
| "porcelain_paths (r # rs) =
     (if length r < 3 then porcelain_paths rs
      else let path = trim_space (drop 3 r) in
        if path = [] then porcelain_paths rs
        else if r ! 0 = CHR ''R'' \<or> r ! 1 = CHR ''R''
        then (case rs of
                [] \<Rightarrow> []
              | renamed # rs' \<Rightarrow>
                  (if trim_space renamed = [] then porcelain_paths rs' else trim_space renamed # porcelain_paths rs'))
        else path # porcelain_paths rs)"

text \<open>The result is a set of paths, kept as a list without repetition.\<close>

definition parsePorcelainZ :: "string \<Rightarrow> string list" where
  "parsePorcelainZ out = (if out = [] then [] else remdups (porcelain_paths (split_nul out)))"

definition CaptureIntegritySnapshot :: "git_out \<Rightarrow> git_out \<Rightarrow> string + integrity_snapshot" where
  "CaptureIntegritySnapshot head statusOut =
     (let outside = \<lparr>ig_NotGitRepo = True, ig_Head = [], ig_Changed = []\<rparr> in
      case git_Run head of
        GitNotRepo \<Rightarrow> Inr outside
      | GitErr e \<Rightarrow> Inl e
      | GitOut h \<Rightarrow>
          (case git_Run statusOut of
             GitNotRepo \<Rightarrow> Inr outside
           | GitErr e \<Rightarrow> Inl e
           | GitOut out \<Rightarrow> Inr \<lparr>ig_NotGitRepo = False, ig_Head = trim_space h, ig_Changed = parsePorcelainZ out\<rparr>))"

definition DiffIntegritySnapshots :: "integrity_snapshot \<Rightarrow> integrity_snapshot \<Rightarrow> integrity_diff" where
  "DiffIntegritySnapshots pre post =
     (if ig_NotGitRepo pre \<or> ig_NotGitRepo post then \<lparr>gd_HeadChanged = False, gd_AddedPaths = []\<rparr>
      else \<lparr>gd_HeadChanged = (ig_Head pre \<noteq> ig_Head post),
            gd_AddedPaths = sort (filter (\<lambda>p. p \<notin> set (ig_Changed pre)) (ig_Changed post))\<rparr>)"

definition summariseTamperedPaths :: "string list \<Rightarrow> string" where
  "summariseTamperedPaths paths =
     (if length paths \<le> 5 then ''verifier modified '' @ join '','' paths
      else ''verifier modified '' @ join '','' (take 5 paths) @ '' (+'' @ itoa (int (length paths) - 5) @ '' more)'')"

definition ClassifyIntegrityDiff :: "integrity_diff \<Rightarrow> bool \<times> string" where
  "ClassifyIntegrityDiff diff =
     (if gd_HeadChanged diff then (True, ''HEAD ref moved during verify pass'')
      else if gd_AddedPaths diff = [] then (False, [])
      else (True, summariseTamperedPaths (gd_AddedPaths diff)))"

text \<open>\<open>preErr\<close> is the error of the first snapshot (then \<open>pre\<close> is the zero snapshot); \<open>post\<close> is the
  result of the second.\<close>

definition CheckVerifyIntegrity ::
  "integrity_snapshot \<Rightarrow> string option \<Rightarrow> (string + integrity_snapshot) \<Rightarrow> bool \<times> string" where
  "CheckVerifyIntegrity pre preErr post =
     (if ig_NotGitRepo pre then (False, [])
      else (case preErr of
              Some e \<Rightarrow> (True, ''pre-verify integrity snapshot failed: '' @ e)
            | None \<Rightarrow>
                (case post of
                   Inl e \<Rightarrow> (True, ''post-verify integrity snapshot failed: '' @ e)
                 | Inr p \<Rightarrow>
                     if ig_NotGitRepo p then (True, ''.git directory disappeared during verify pass'')
                     else ClassifyIntegrityDiff (DiffIntegritySnapshots pre p))))"

end
