(* ===== verification/Harness_Git.thy ===== *)
theory Harness_Git
  imports Harness_Contract Report_Files
begin

text \<open>
  \<^verbatim>\<open>pkgs/agents/harness/internal/git\<close>: the anchors taken before an execute phase (\<^verbatim>\<open>snapshots.go\<close>), the ingest
  of the commits the agent declares (\<^verbatim>\<open>commits.go\<close>) and the anchor of a fresh retry (\<^verbatim>\<open>reset.go\<close>). The
  outputs of the git commands are arguments.
\<close>

section \<open>Anchors before a run (snapshots.go)\<close>

record git_snapshot =
  gs_Skipped :: bool
  gs_Repo :: string
  gs_Worktree :: string
  gs_BaseSHA :: string
  gs_CycleBaseSHA :: string
  gs_BaseBranch :: string
  gs_CapturedAt :: string

definition zero_git_snapshot :: git_snapshot where
  "zero_git_snapshot = \<lparr>gs_Skipped = False, gs_Repo = [], gs_Worktree = [], gs_BaseSHA = [], gs_CycleBaseSHA = [],
     gs_BaseBranch = [], gs_CapturedAt = []\<rparr>"

text \<open>The three commands in order: HEAD, the top level, the current branch; \<open>at\<close> is the formatted clock.\<close>

definition CaptureExecuteGitSnapshot ::
  "string \<Rightarrow> string \<Rightarrow> string \<Rightarrow> git_out \<Rightarrow> git_out \<Rightarrow> git_out \<Rightarrow> string \<Rightarrow> git_snapshot option" where
  "CaptureExecuteGitSnapshot repoRoot workdir priorCycleBase head toplevel branch at =
     (if trim_space workdir = [] then Some (zero_git_snapshot\<lparr>gs_Skipped := True\<rparr>)
      else case git_Run head of
        GitNotRepo \<Rightarrow> Some (zero_git_snapshot\<lparr>gs_Skipped := True\<rparr>)
      | GitErr _ \<Rightarrow> None
      | GitOut h \<Rightarrow>
          (case git_Run toplevel of
             GitNotRepo \<Rightarrow> Some (zero_git_snapshot\<lparr>gs_Skipped := True\<rparr>)
           | GitErr _ \<Rightarrow> None
           | GitOut w \<Rightarrow>
               let captured = (\<lambda>b. Some \<lparr>gs_Skipped = False, gs_Repo = trim_space repoRoot, gs_Worktree = w, gs_BaseSHA = h,
                     gs_CycleBaseSHA = (if trim_space priorCycleBase = [] then h else trim_space priorCycleBase),
                     gs_BaseBranch = trim_space b, gs_CapturedAt = at\<rparr>) in
               (case git_Run branch of GitErr _ \<Rightarrow> None | GitNotRepo \<Rightarrow> captured [] | GitOut b \<Rightarrow> captured b)))"

text \<open>Decoding into a struct fails as a whole when one of its fields is no string.\<close>

definition string_field :: "(string \<times> json) list \<Rightarrow> string \<Rightarrow> string option" where
  "string_field obj k = (case map_of obj k of None \<Rightarrow> Some [] | Some JNull \<Rightarrow> Some [] | Some (JStr s) \<Rightarrow> Some s | Some _ \<Rightarrow> None)"

definition CycleBaseFromPhaseDetails :: "(string \<times> json) list \<Rightarrow> string" where
  "CycleBaseFromPhaseDetails details =
     (case map_of details ''git'' of
        Some (JObj meta) \<Rightarrow>
          (case (string_field meta ''cycle_base_sha'', string_field meta ''base_sha'') of
             (Some a, Some b) \<Rightarrow> if trim_space a \<noteq> [] then trim_space a else trim_space b
           | _ \<Rightarrow> [])
      | _ \<Rightarrow> [])"

definition snapshotToMap :: "git_snapshot \<Rightarrow> int \<Rightarrow> (string \<times> json) list" where
  "snapshotToMap g commitCount =
     [(''repo'', JStr (gs_Repo g)), (''worktree'', JStr (gs_Worktree g)), (''base_sha'', JStr (gs_BaseSHA g)),
      (''cycle_base_sha'', JStr (gs_CycleBaseSHA g)), (''base_branch'', JStr (gs_BaseBranch g)),
      (''captured_at'', JStr (gs_CapturedAt g))] @
     (if 0 < commitCount then [(''commit_count'', JNum commitCount)] else []) @
     (if gs_Skipped g then [(''skipped'', JBool True)] else [])"

definition object_of :: "payload \<Rightarrow> (string \<times> json) list" where
  "object_of p = (case p of PDoc (JObj kvs) \<Rightarrow> kvs | _ \<Rightarrow> [])"

definition MergeRunnerDetailsWithGit :: "payload \<Rightarrow> git_snapshot \<Rightarrow> int \<Rightarrow> payload" where
  "MergeRunnerDetailsWithGit base g commitCount =
     (if gs_Skipped g \<and> commitCount = 0 then base
      else PDoc (JObj (AList.update ''git'' (JObj (snapshotToMap g commitCount)) (object_of base))))"

definition CriteriaReportProbeErrFromPhaseDetails :: "(string \<times> json) list \<Rightarrow> string" where
  "CriteriaReportProbeErrFromPhaseDetails details = trim_space (json_string_at details ''criteria_report_probe_err'')"

definition MergeCriteriaReportProbeErr :: "payload \<Rightarrow> string \<Rightarrow> payload" where
  "MergeCriteriaReportProbeErr base probeErr0 =
     (let probeErr = trim_space probeErr0 in
      if probeErr = [] then base
      else PDoc (JObj (AList.update ''criteria_report_probe_err'' (JStr probeErr) (object_of base))))"

text \<open>The probe error survives in the details of the phase row.\<close>

lemma probe_err_roundtrip:
  "trim_space e \<noteq> [] \<Longrightarrow> CriteriaReportProbeErrFromPhaseDetails (object_of (MergeCriteriaReportProbeErr base e)) = trim_space e"
  by (simp add: MergeCriteriaReportProbeErr_def object_of_def CriteriaReportProbeErrFromPhaseDetails_def json_string_at_def
      update_conv)

lemma cycle_base_roundtrip:
  assumes "\<not> gs_Skipped g"
  shows "CycleBaseFromPhaseDetails (object_of (MergeRunnerDetailsWithGit base g n)) =
     (if trim_space (gs_CycleBaseSHA g) = [] then trim_space (gs_BaseSHA g) else trim_space (gs_CycleBaseSHA g))"
  using assms
  by (simp add: MergeRunnerDetailsWithGit_def object_of_def CycleBaseFromPhaseDetails_def update_conv snapshotToMap_def
      string_field_def)

section \<open>Commits the agent declares (commits.go)\<close>

text \<open>What git says of a hash: \<open>None\<close> when there is no such commit; otherwise its message and date
  (\<open>None\<close> when they cannot be read) and a branch that contains it.\<close>

record commit_answer =
  ca_Details :: "(string \<times> gotime) option"
  ca_Branch :: string

fun resolveClaimedCommits ::
  "(string \<Rightarrow> commit_answer option) \<Rightarrow> git_snapshot \<Rightarrow> int \<Rightarrow> int \<Rightarrow> (string \<times> string) list \<Rightarrow> commit_entry list option" where
  "resolveClaimedCommits answers g phaseSeq n [] = Some []"
| "resolveClaimedCommits answers g phaseSeq n ((sha0, branch0) # cs) =
     (let sha = trim_space sha0 in
      case answers sha of
        None \<Rightarrow> None
      | Some a \<Rightarrow>
          (case ca_Details a of
             None \<Rightarrow> None
           | Some (msg, at) \<Rightarrow>
               let b1 = trim_space branch0;
                   b2 = (if b1 = [] then ca_Branch a else b1);
                   b3 = (if b2 = [] then gs_BaseBranch g else b2) in
               map_option (\<lambda>es. \<lparr>ce_PhaseSeq = phaseSeq, ce_Seq = n, ce_Repo = gs_Repo g, ce_Worktree = gs_Worktree g,
                    ce_Branch = b3, ce_SHA = sha, ce_CommittedAt = at, ce_Message = msg\<rparr> # es)
                 (resolveClaimedCommits answers g phaseSeq (n + 1) cs)))"

definition ExecuteInvalidCommitReason :: string where "ExecuteInvalidCommitReason = ''execute_invalid_commit''"

definition IngestExecuteCommits ::
  "'s store_ops \<Rightarrow> criteria_doc report_file \<Rightarrow> (string \<Rightarrow> commit_answer option) \<Rightarrow> string \<Rightarrow> string \<Rightarrow> int \<Rightarrow> git_snapshot \<Rightarrow> 's \<Rightarrow>
   commit_ingest \<times> 's" where
  "IngestExecuteCommits S file answers taskID cycleID phaseSeq snap s =
     (if gs_Skipped snap then (no_ingest, s)
      else case ParseCriteriaReportCommits file of
        Inl (ErrCriteriaReportInvalid _) \<Rightarrow> (no_ingest\<lparr>ci_FailReason := ExecuteInvalidCommitReason, ci_Err := True\<rparr>, s)
      | Inl _ \<Rightarrow> (no_ingest\<lparr>ci_Err := True\<rparr>, s)
      | Inr claims \<Rightarrow>
          (case resolveClaimedCommits answers snap phaseSeq 1 claims of
             None \<Rightarrow> (no_ingest\<lparr>ci_FailReason := ExecuteInvalidCommitReason, ci_Err := True\<rparr>, s)
           | Some entries \<Rightarrow>
               if length entries = 0 then (no_ingest, s)
               else (case so_UpsertCycleCommits S taskID cycleID entries s of
                       (Inl e, s1) \<Rightarrow> (no_ingest\<lparr>ci_Err := True\<rparr>, s1)
                     | (Inr _, s1) \<Rightarrow> (no_ingest\<lparr>ci_CommitCount := length entries\<rparr>, s1))))"

definition first_execute_phase :: "cycle_phase list \<Rightarrow> cycle_phase option" where
  "first_execute_phase phases =
     foldl (\<lambda>first p. if ph_Phase p \<noteq> PhaseExecute then first
                     else (case first of None \<Rightarrow> Some p | Some f \<Rightarrow> if ph_PhaseSeq p < ph_PhaseSeq f then Some p else Some f))
       None phases"

definition PriorCycleBaseSHA :: "'s store_ops \<Rightarrow> string \<Rightarrow> int \<Rightarrow> 's \<Rightarrow> string \<times> 's" where
  "PriorCycleBaseSHA S cycleID currentPhaseSeq s =
     (case so_ListPhases S cycleID s of
        (Inl e, s1) \<Rightarrow> ([], s1)
      | (Inr phases, s1) \<Rightarrow>
          (case first_execute_phase (filter (\<lambda>p. ph_PhaseSeq p < currentPhaseSeq) phases) of
             None \<Rightarrow> ([], s1)
           | Some p \<Rightarrow> (CycleBaseFromPhaseDetails (ph_DetailsJSON p), s1)))"

section \<open>The anchor of a fresh retry (reset.go)\<close>

datatype reset_err = ErrRetryResetAnchorMissing | ErrRetryGitReset | ErrRetryStore

text \<open>\<open>parentOf sha\<close> is the trimmed output of \<^verbatim>\<open>git rev-parse sha^\<close>, \<open>None\<close> when it fails.\<close>

definition resolveFreshRetryAnchor ::
  "'s store_ops \<Rightarrow> (string \<Rightarrow> string option) \<Rightarrow> string \<Rightarrow> 's \<Rightarrow> (reset_err + string) \<times> 's" where
  "resolveFreshRetryAnchor S parentOf parentCycleID0 s =
     (let parentCycleID = trim_space parentCycleID0 in
      if parentCycleID = [] then (Inl ErrRetryResetAnchorMissing, s)
      else case so_ListPhases S parentCycleID s of
        (Inl e, s1) \<Rightarrow> (Inl ErrRetryStore, s1)
      | (Inr phases, s1) \<Rightarrow>
          let anchor = (case first_execute_phase phases of None \<Rightarrow> [] | Some p \<Rightarrow> CycleBaseFromPhaseDetails (ph_DetailsJSON p)) in
          if anchor \<noteq> [] then (Inr anchor, s1)
          else (case so_ListCommitsForCycle S parentCycleID s1 of
                  (Inl e, s2) \<Rightarrow> (Inl ErrRetryStore, s2)
                | (Inr commits, s2) \<Rightarrow>
                    (case commits of
                       [] \<Rightarrow> (Inl ErrRetryResetAnchorMissing, s2)
                     | c # _ \<Rightarrow>
                         if trim_space (cc_SHA c) = [] then (Inl ErrRetryResetAnchorMissing, s2)
                         else (case parentOf (trim_space (cc_SHA c)) of
                                 None \<Rightarrow> (Inl ErrRetryResetAnchorMissing, s2)
                               | Some p \<Rightarrow> (Inr (trim_space p), s2)))))"

text \<open>\<open>head\<close> is the probe of the worktree, \<open>resetOK\<close> whether reset and clean succeed.\<close>

definition ResetForFreshRetry ::
  "'s store_ops \<Rightarrow> string \<Rightarrow> git_out \<Rightarrow> (string \<Rightarrow> string option) \<Rightarrow> (string \<Rightarrow> bool) \<Rightarrow> string \<Rightarrow> 's \<Rightarrow>
   (reset_err + string) \<times> 's" where
  "ResetForFreshRetry S workdir head parentOf resetOK parentCycleID s =
     (if trim_space workdir = [] then (Inr [], s)
      else case git_Run head of
        GitNotRepo \<Rightarrow> (Inr [], s)
      | GitErr _ \<Rightarrow> (Inl ErrRetryGitReset, s)
      | GitOut _ \<Rightarrow>
          (case resolveFreshRetryAnchor S parentOf parentCycleID s of
             (Inl e, s1) \<Rightarrow> (Inl e, s1)
           | (Inr anchor, s1) \<Rightarrow>
               if trim_space anchor = [] then (Inl ErrRetryResetAnchorMissing, s1)
               else if resetOK anchor then (Inr anchor, s1)
               else (Inl ErrRetryGitReset, s1)))"

end
