(* ===== verification/Verify_Service.thy ===== *)
theory Verify_Service
  imports Harness_Git
begin

text \<open>
  \<^verbatim>\<open>pkgs/agents/harness/internal/verify\<close>: the verify phase of one attempt. It opens a phase row, reads the
  self report of the executing agent, runs the verifying agent on the criteria that are claimed done,
  turns its report into verdicts, mirrors them, checks that the working tree was left alone and closes
  the phase row. What the outside world answers in one iteration of the harness loop (the runner, git,
  the report files, an operator) is the record \<open>iteration\<close>.
\<close>

section \<open>What the outside world answers\<close>

record progress_event =
  pe_Kind :: string
  pe_Subtype :: string
  pe_Message :: string
  pe_Tool :: string
  pe_Payload :: payload

text \<open>A run of the agent: the progress it streams, its summary and details (free-form bytes: blank, a JSON
  value or neither), and the class of its error.\<close>

datatype raw_body = RawBlank | RawDoc json | RawBad string

record runner_answer =
  ra_Progress :: "progress_event list"
  ra_Summary :: string
  ra_Details :: raw_body
  ra_Err :: "runner_err option"

datatype head_answer = HeadErr | HeadUnknown | HeadAt string

text \<open>In the order the loop asks: git before the run and the clock, the run and its repetition with a fresh
  session, a cancel by the operator, whether the context was cancelled after the run, the report file after
  the run, what git says of the commits it declares, and HEAD;
  then, in the verify phase, git before, the report file, the error of the verify commands, the verify run
  and its repetition, the verify report, git after; then the report file and HEAD again.\<close>

record iteration =
  it_GitHead :: git_out
  it_GitTop :: git_out
  it_GitBranch :: git_out
  it_GitAt :: string
  it_Run :: runner_answer
  it_RunFallback :: runner_answer
  it_OperatorCancel :: bool
  it_CtxDone :: bool
  it_ReportAfterRun :: "criteria_doc report_file"
  it_CommitAnswers :: "string \<Rightarrow> commit_answer option"
  it_Head :: head_answer
  it_PreHead :: git_out
  it_PreStatus :: git_out
  it_ReportAtVerify :: "criteria_doc report_file"
  it_CommandErr :: "string option"
  it_VerifyRun :: runner_answer
  it_VerifyRunFallback :: runner_answer
  it_VerifyReport :: "verify_doc report_file"
  it_PostHead :: git_out
  it_PostStatus :: git_out
  it_ReportAtRetry :: "criteria_doc report_file"
  it_HeadAtRetry :: head_answer

section \<open>Progress (cycle.go)\<close>

definition progress_json :: "progress_event \<Rightarrow> payload" where
  "progress_json ev = PDoc (JObj (
     [(''kind'', JStr (pe_Kind ev))] @
     (if pe_Subtype ev = [] then [] else [(''subtype'', JStr (pe_Subtype ev))]) @
     (if pe_Message ev = [] then [] else [(''message'', JStr (pe_Message ev))]) @
     (if pe_Tool ev = [] then [] else [(''tool'', JStr (pe_Tool ev))])))"

definition persistProgress :: "'s store_ops \<Rightarrow> string \<Rightarrow> string \<Rightarrow> int \<Rightarrow> progress_event \<Rightarrow> 's \<Rightarrow> 's" where
  "persistProgress S taskID cycleID phaseSeq ev s =
     (if pe_Kind ev = [] then s
      else let payload = (if pe_Payload ev = PBlank then progress_json ev else pe_Payload ev) in
        snd (so_AppendStream S
          \<lparr>asi_TaskID = taskID, asi_CycleID = cycleID, asi_PhaseSeq = phaseSeq, asi_At = None, asi_Source = ''cursor'',
           asi_Kind = pe_Kind ev, asi_Subtype = pe_Subtype ev, asi_Message = pe_Message ev, asi_Tool = pe_Tool ev,
           asi_Payload = payload\<rparr> s))"

definition persist_all :: "'s store_ops \<Rightarrow> string \<Rightarrow> string \<Rightarrow> int \<Rightarrow> progress_event list \<Rightarrow> 's \<Rightarrow> 's" where
  "persist_all S taskID cycleID phaseSeq evs s = fold (persistProgress S taskID cycleID phaseSeq) evs s"

section \<open>Types (types.go)\<close>

record verify_snapshot =
  vs_Enabled :: bool
  vs_MaxRetries :: int
  vs_VerifyCommandTimeoutSeconds :: int
  vs_Criteria :: "verify_item list"
  vs_VerifyModel :: string

definition zero_snapshot :: verify_snapshot where
  "zero_snapshot = \<lparr>vs_Enabled = False, vs_MaxRetries = 0, vs_VerifyCommandTimeoutSeconds = 0, vs_Criteria = [],
     vs_VerifyModel = []\<rparr>"

record verdict =
  vt_ID :: string
  vt_Passed :: bool
  vt_Evidence :: string
  vt_Verifier :: verifier_kind
  vt_Reasoning :: string

text \<open>The map \<^verbatim>\<open>previouslyPassed\<close> from criterion ids to verdicts.\<close>

type_synonym verdict_map = "(string \<times> verdict) list"

datatype verify_err = TamperedError string | VerifyErr string

abbreviation locked :: "verdict_map \<Rightarrow> string \<Rightarrow> bool" where
  "locked pp i \<equiv> map_of pp i \<noteq> None"

section \<open>Gate (gate.go)\<close>

definition DefaultVerifyCommandTimeoutSeconds :: int where "DefaultVerifyCommandTimeoutSeconds = 120"

definition LoadSnapshot :: "'s store_ops \<Rightarrow> string \<Rightarrow> ('s, verify_snapshot) call" where
  "LoadSnapshot S taskID s =
     (case so_GetSettings S s of
        (Inl e, s1) \<Rightarrow> (Inl e, s1)
      | (Inr settings, s1) \<Rightarrow>
          (case so_ListChecklistForVerify S taskID s1 of
             (Inl e, s2) \<Rightarrow> (Inl e, s2)
           | (Inr items, s2) \<Rightarrow>
               let t = as_VerifyCommandTimeoutSeconds settings;
                   timeoutSec = (if t \<le> 0 then DefaultVerifyCommandTimeoutSeconds else t) in
               (Inr \<lparr>vs_Enabled = (0 < length items), vs_MaxRetries = as_VerifyMaxRetries settings,
                     vs_VerifyCommandTimeoutSeconds = timeoutSec, vs_Criteria = items,
                     vs_VerifyModel = trim_space (as_VerifyRunnerModel settings)\<rparr>, s2)))"

fun complete_items :: "'s store_ops \<Rightarrow> string \<Rightarrow> item_view list \<Rightarrow> ('s, unit) call" where
  "complete_items S taskID [] s = (Inr (), s)"
| "complete_items S taskID (it # its) s =
     (if iv_Done it then complete_items S taskID its s
      else (case so_SetItemDone S taskID (iv_ID it) True s of
              (Inl e, s1) \<Rightarrow> (Inl e, s1)
            | (Inr _, s1) \<Rightarrow> complete_items S taskID its s1))"

definition CompleteChecklistLegacy :: "'s store_ops \<Rightarrow> string \<Rightarrow> ('s, unit) call" where
  "CompleteChecklistLegacy S taskID s =
     (case so_ListChecklistForSubject S taskID s of
        (Inl e, s1) \<Rightarrow> (Inl e, s1)
      | (Inr items, s1) \<Rightarrow> complete_items S taskID items s1)"

fun ApplyVerifiedCompletions :: "'s store_ops \<Rightarrow> string \<Rightarrow> string \<Rightarrow> verdict list \<Rightarrow> ('s, unit) call" where
  "ApplyVerifiedCompletions S taskID cycleID [] s = (Inr (), s)"
| "ApplyVerifiedCompletions S taskID cycleID (v # vs) s =
     (if \<not> vt_Passed v then ApplyVerifiedCompletions S taskID cycleID vs s
      else (case so_SetItemDoneWithEvidence S taskID (vt_ID v) (vt_Evidence v) (vt_Verifier v) (vt_Reasoning v) cycleID s of
              (Inr _, s1) \<Rightarrow> ApplyVerifiedCompletions S taskID cycleID vs s1
            | (Inl e, s1) \<Rightarrow> if e = ErrNotFound then ApplyVerifiedCompletions S taskID cycleID vs s1 else (Inl e, s1)))"

section \<open>Reports (persist.go)\<close>

text \<open>The fallback to the mirrored rows keeps the row of each expected criterion.\<close>

definition claims_of_rows :: "criteria_report list \<Rightarrow> int \<Rightarrow> string list \<Rightarrow> (string \<times> claim) list" where
  "claims_of_rows rows attemptSeq expected =
     foldl (\<lambda>out r. AList.update (cr_CriterionID r)
               \<lparr>cl_ID = cr_CriterionID r, cl_ClaimedDone = cr_ClaimedDone r, cl_Evidence = cr_Evidence r\<rparr> out) []
       (filter (\<lambda>r. cr_AttemptSeq r = attemptSeq \<and> cr_CriterionID r \<in> set expected) rows)"

definition loadCriteriaSelfReport ::
  "'s store_ops \<Rightarrow> criteria_doc report_file \<Rightarrow> string \<Rightarrow> int \<Rightarrow> string list \<Rightarrow> 's \<Rightarrow> (verify_err + (string \<times> claim) list) \<times> 's" where
  "loadCriteriaSelfReport S file cycleID attemptSeq expected s =
     (case ParseCriteriaReport file expected of
        Inr out \<Rightarrow> (Inr out, s)
      | Inl ErrCriteriaReportMissing \<Rightarrow>
          (case so_ListCriteriaReports S cycleID s of
             (Inl e, s1) \<Rightarrow> (Inl (VerifyErr ''list criteria reports''), s1)
           | (Inr rows, s1) \<Rightarrow>
               let out = claims_of_rows rows attemptSeq expected in
               (case first_missing expected out of
                  Some i \<Rightarrow> (Inl (VerifyErr (report_err_text ErrCriteriaReportMissing)), s1)
                | None \<Rightarrow> (Inr out, s1)))
      | Inl e \<Rightarrow> (Inl (VerifyErr (report_err_text e)), s))"

definition PersistCriteriaReports ::
  "'s store_ops \<Rightarrow> string \<Rightarrow> int \<Rightarrow> verify_item list \<Rightarrow> verdict_map \<Rightarrow> (string \<times> claim) list \<Rightarrow> ('s, unit) call" where
  "PersistCriteriaReports S cycleID attemptSeq criteria previouslyPassed selfReport =
     so_UpsertCriteriaReports S cycleID attemptSeq
       (List.map_filter (\<lambda>it.
          if locked previouslyPassed (vi_ID it) then None
          else map_option (\<lambda>e. \<lparr>en_CriterionID = vi_ID it, en_ClaimedDone = cl_ClaimedDone e, en_Evidence = cl_Evidence e\<rparr>)
                 (map_of selfReport (vi_ID it))) criteria)"

definition persistVerifyReports ::
  "'s store_ops \<Rightarrow> string \<Rightarrow> int \<Rightarrow> verdict list \<Rightarrow> verdict_map \<Rightarrow> ('s, unit) call" where
  "persistVerifyReports S cycleID attemptSeq verdicts previouslyPassed =
     so_UpsertVerifyReports S cycleID attemptSeq
       (map (\<lambda>v. \<lparr>vn_CriterionID = vt_ID v, vn_Verified = vt_Passed v, vn_VerifierKind = vt_Verifier v,
                  vn_Reasoning = vt_Reasoning v\<rparr>)
          (filter (\<lambda>v. \<not> locked previouslyPassed (vt_ID v)) verdicts))"

section \<open>The verifying agent (llm.go)\<close>

definition runLLMVerifyAgent :: "'s store_ops \<Rightarrow> iteration \<Rightarrow> string \<Rightarrow> string \<Rightarrow> int \<Rightarrow> 's \<Rightarrow> runner_err option \<times> 's" where
  "runLLMVerifyAgent S it taskID cycleID phaseSeq s =
     (let a = it_VerifyRun it; s1 = persist_all S taskID cycleID phaseSeq (ra_Progress a) s in
      if ra_Err a = Some ErrResumeSession
      then (let b = it_VerifyRunFallback it in (ra_Err b, persist_all S taskID cycleID phaseSeq (ra_Progress b) s1))
      else (ra_Err a, s1))"

definition claim_of :: "(string \<times> claim) list \<Rightarrow> string \<Rightarrow> claim" where
  "claim_of selfReport i =
     (case map_of selfReport i of None \<Rightarrow> \<lparr>cl_ID = [], cl_ClaimedDone = False, cl_Evidence = []\<rparr> | Some e \<Rightarrow> e)"

definition judgement_of :: "(string \<times> judgement) list \<Rightarrow> string \<Rightarrow> judgement" where
  "judgement_of rep i =
     (case map_of rep i of None \<Rightarrow> \<lparr>jd_ID = [], jd_Verified = False, jd_Reasoning = []\<rparr> | Some e \<Rightarrow> e)"

definition judge :: "verdict_map \<Rightarrow> (string \<times> claim) list \<Rightarrow> (string \<times> judgement) list \<Rightarrow> verdict \<Rightarrow> verdict" where
  "judge previouslyPassed selfReport vrep v =
     (if locked previouslyPassed (vt_ID v) then v
      else if vt_Verifier v = VerifierAgentSelf then v
      else let vr = judgement_of vrep (vt_ID v) in
        \<lparr>vt_ID = vt_ID v, vt_Passed = jd_Verified vr, vt_Evidence = cl_Evidence (claim_of selfReport (vt_ID v)),
         vt_Verifier = VerifierVerifyAgent, vt_Reasoning = jd_Reasoning vr\<rparr>)"

definition assembleVerdictsFromVerifyReport ::
  "verify_doc report_file \<Rightarrow> string list \<Rightarrow> verdict list \<Rightarrow> (string \<times> claim) list \<Rightarrow> verdict_map \<Rightarrow>
   report_err + verdict list" where
  "assembleVerdictsFromVerifyReport file expected verdicts selfReport previouslyPassed =
     (case ParseVerifyReport file expected of
        Inl e \<Rightarrow> Inl e
      | Inr vrep \<Rightarrow> Inr (map (judge previouslyPassed selfReport vrep) verdicts))"

text \<open>A stale run is forgiven when the report it left parses.\<close>

definition verifyLLMRunError :: "runner_err option \<Rightarrow> report_err option \<Rightarrow> verify_err option" where
  "verifyLLMRunError runErr parseErr =
     (if runErr \<noteq> None \<and> runErr \<noteq> Some ErrStale then Some (VerifyErr ''verify runner'')
      else (case parseErr of
              None \<Rightarrow> None
            | Some e \<Rightarrow>
                if runErr = Some ErrStale then Some (VerifyErr (''verify agent stream idle: '' @ report_err_text e))
                else Some (VerifyErr (report_err_text e))))"

end
