(* ===== verification/Verify_Pipeline.thy ===== *)
theory Verify_Pipeline
  imports Verify_Service Go_Text
begin

text \<open>
  The stages of one verify phase (\<^verbatim>\<open>checks.go\<close>, \<^verbatim>\<open>phase_details.go\<close>, \<^verbatim>\<open>pipeline.go\<close>) and the reason a failed
  attempt is terminated with (\<^verbatim>\<open>reason.go\<close>). The callbacks of the harness act on a state \<open>'p\<close> of its own.
\<close>

section \<open>Checks (checks.go)\<close>

definition expected_ids :: "verify_item list \<Rightarrow> verdict_map \<Rightarrow> string list" where
  "expected_ids criteria previouslyPassed = filter (\<lambda>i. \<not> locked previouslyPassed i) (map vi_ID criteria)"

text \<open>The first pass over the criteria: a locked verdict is kept, an unclaimed criterion fails on the
  word of the executing agent, a claimed one is left for the verifying agent.\<close>

definition first_verdict :: "verdict_map \<Rightarrow> (string \<times> claim) list \<Rightarrow> verify_item \<Rightarrow> verdict" where
  "first_verdict previouslyPassed selfReport it =
     (case map_of previouslyPassed (vi_ID it) of
        Some v \<Rightarrow> v
      | None \<Rightarrow>
          let e = claim_of selfReport (vi_ID it);
              v = \<lparr>vt_ID = vi_ID it, vt_Passed = False, vt_Evidence = cl_Evidence e, vt_Verifier = VerifierOther [], vt_Reasoning = []\<rparr> in
          if cl_ClaimedDone e then v
          else v\<lparr>vt_Verifier := VerifierAgentSelf, vt_Reasoning := ''execute agent did not claim criterion done''\<rparr>)"

definition need_llm_verify :: "verdict_map \<Rightarrow> (string \<times> claim) list \<Rightarrow> verify_item list \<Rightarrow> bool" where
  "need_llm_verify previouslyPassed selfReport criteria =
     list_ex (\<lambda>it. \<not> locked previouslyPassed (vi_ID it) \<and> cl_ClaimedDone (claim_of selfReport (vi_ID it))) criteria"

definition failure_texts :: "verdict list \<Rightarrow> string list" where
  "failure_texts verdicts = map (\<lambda>v. vt_ID v @ '': '' @ vt_Reasoning v) (filter (\<lambda>v. \<not> vt_Passed v) verdicts)"

text \<open>The last part: mirror the verdicts and report the failures.\<close>

definition conclude_checks ::
  "'s store_ops \<Rightarrow> string \<Rightarrow> int \<Rightarrow> verdict_map \<Rightarrow> verdict list \<Rightarrow> 's \<Rightarrow>
   (verdict list \<times> string \<times> verify_err option) \<times> 's" where
  "conclude_checks S cycleID attemptSeq previouslyPassed verdicts s =
     (let s1 = snd (persistVerifyReports S cycleID attemptSeq verdicts previouslyPassed s);
          failures = failure_texts verdicts in
      if 0 < length failures
      then ((verdicts, join ''; '' failures, Some (VerifyErr ''verification failed'')), s1)
      else ((verdicts, [], None), s1))"

definition runVerifyChecks ::
  "'s store_ops \<Rightarrow> iteration \<Rightarrow> string \<Rightarrow> string \<Rightarrow> int \<Rightarrow> int \<Rightarrow> verify_snapshot \<Rightarrow> verdict_map \<Rightarrow> 's \<Rightarrow>
   (verdict list \<times> string \<times> verify_err option) \<times> 's" where
  "runVerifyChecks S it taskID cycleID phaseSeq attemptSeq snap previouslyPassed s =
     (let expected = expected_ids (vs_Criteria snap) previouslyPassed in
      case loadCriteriaSelfReport S (it_ReportAtVerify it) cycleID attemptSeq expected s of
        (Inl e, s1) \<Rightarrow> (([], [], Some e), s1)
      | (Inr selfReport, s1) \<Rightarrow>
          let s2 = snd (PersistCriteriaReports S cycleID attemptSeq (vs_Criteria snap) previouslyPassed selfReport s1);
              verdicts = map (first_verdict previouslyPassed selfReport) (vs_Criteria snap) in
          if need_llm_verify previouslyPassed selfReport (vs_Criteria snap)
          then (case it_CommandErr it of
                  Some e \<Rightarrow> (([], [], Some (VerifyErr e)), s2)
                | None \<Rightarrow>
                    let (runErr, s3) = runLLMVerifyAgent S it taskID cycleID phaseSeq s2;
                        next_verdicts = assembleVerdictsFromVerifyReport (it_VerifyReport it) expected verdicts selfReport previouslyPassed in
                    (case verifyLLMRunError runErr (case next_verdicts of Inl e \<Rightarrow> Some e | Inr _ \<Rightarrow> None) of
                       Some e \<Rightarrow> (([], [], Some e), s3)
                     | None \<Rightarrow>
                         conclude_checks S cycleID attemptSeq previouslyPassed
                           (case next_verdicts of Inl _ \<Rightarrow> [] | Inr vs \<Rightarrow> vs) s3))
          else conclude_checks S cycleID attemptSeq previouslyPassed verdicts s2)"

section \<open>Summary and details of the phase row (phase_details.go)\<close>

definition criterionTextIndex :: "verify_item list \<Rightarrow> string \<Rightarrow> string" where
  "criterionTextIndex items i = (case map_of (rev (map (\<lambda>it. (vi_ID it, vi_Text it)) items)) i of None \<Rightarrow> [] | Some t \<Rightarrow> t)"

definition countVerdictOutcome :: "verdict list \<Rightarrow> int \<times> int" where
  "countVerdictOutcome vs = (int (length (filter vt_Passed vs)), int (length (filter (\<lambda>v. \<not> vt_Passed v) vs)))"

definition em_dash :: string where
  "em_dash = [CHR 0x20, CHR 0xE2, CHR 0x80, CHR 0x94, CHR 0x20]"

definition failed_line :: "verify_item list \<Rightarrow> verdict \<Rightarrow> string" where
  "failed_line criteria v =
     [CHR 0x0A, CHR 0x0A] @ ''- '' @
     (if criterionTextIndex criteria (vt_ID v) = [] then vt_ID v else criterionTextIndex criteria (vt_ID v)) @
     (if vt_Reasoning v = [] then [] else em_dash @ vt_Reasoning v)"

definition FormatPhaseSummary :: "verify_item list \<Rightarrow> verdict list \<Rightarrow> bool \<Rightarrow> string" where
  "FormatPhaseSummary criteria verdicts succeeded =
     (if length verdicts = 0 then (if succeeded then ''verify complete'' else ''verification failed'')
      else let (passed, failed) = countVerdictOutcome verdicts in
        if succeeded then ''All '' @ itoa passed @ '' criteria verified''
        else itoa failed @ '' of '' @ itoa (int (length verdicts)) @ '' criteria failed'' @
          concat (map (failed_line criteria) (filter (\<lambda>v. \<not> vt_Passed v) verdicts)))"

definition criterion_payload :: "verify_item list \<Rightarrow> verdict \<Rightarrow> json" where
  "criterion_payload criteria v = JObj (
     [(''criterion_id'', JStr (vt_ID v))] @
     (if criterionTextIndex criteria (vt_ID v) = [] then [] else [(''text'', JStr (criterionTextIndex criteria (vt_ID v)))]) @
     [(''verified'', JBool (vt_Passed v))] @
     (if verifier_str (vt_Verifier v) = [] then [] else [(''verifier_kind'', JStr (verifier_str (vt_Verifier v)))]) @
     (if vt_Reasoning v = [] then [] else [(''reasoning'', JStr (vt_Reasoning v))]) @
     (if vt_Evidence v = [] then [] else [(''evidence'', JStr (vt_Evidence v))]))"

definition EncodePhaseDetails :: "int \<Rightarrow> verify_item list \<Rightarrow> verdict list \<Rightarrow> payload" where
  "EncodePhaseDetails attemptSeq criteria verdicts =
     (let (passed, failed) = countVerdictOutcome verdicts in
      PDoc (JObj [(''verification'', JObj
        [(''attempt_seq'', JNum attemptSeq), (''passed_count'', JNum passed), (''failed_count'', JNum failed),
         (''criteria'', JArr (map (criterion_payload criteria) verdicts))])]))"

section \<open>The phase (pipeline.go)\<close>

definition RunPipeline ::
  "'s store_ops \<Rightarrow> iteration \<Rightarrow> string \<Rightarrow> string \<Rightarrow> verify_snapshot \<Rightarrow> int \<Rightarrow> verdict_map \<Rightarrow>
   (cycle_phase \<Rightarrow> 'p \<Rightarrow> 'p) \<Rightarrow> ('p \<Rightarrow> 'p) \<Rightarrow> 'p \<Rightarrow> 's \<Rightarrow> (verdict list \<times> string \<times> verify_err option) \<times> 'p \<times> 's" where
  "RunPipeline S it taskID cycleID snap verifyAttempt previouslyPassed onStarted onEnded p s =
     (if \<not> vs_Enabled snap then (([], [], None), p, s)
      else (case so_StartPhase S cycleID PhaseVerify s of
              (Inl e, s1) \<Rightarrow> (([], [], Some (VerifyErr ''start verify phase'')), p, s1)
            | (Inr phase, s1) \<Rightarrow>
                let p1 = onStarted phase p;
                    captured = CaptureIntegritySnapshot (it_PreHead it) (it_PreStatus it);
                    pre = (case captured of Inl _ \<Rightarrow> \<lparr>ig_NotGitRepo = False, ig_Head = [], ig_Changed = []\<rparr> | Inr g \<Rightarrow> g);
                    preErr = (case captured of Inl e \<Rightarrow> Some e | Inr _ \<Rightarrow> None);
                    attemptSeq = verifyAttempt + 1;
                    ((verdicts, feedbackOut, verifyErr), s2) =
                      runVerifyChecks S it taskID cycleID (ph_PhaseSeq phase) attemptSeq snap previouslyPassed s1;
                    (tampered, tamperReason) =
                      CheckVerifyIntegrity pre preErr (CaptureIntegritySnapshot (it_PostHead it) (it_PostStatus it));
                    encoded = EncodePhaseDetails attemptSeq (vs_Criteria snap) verdicts;
                    (phaseStatus, summary, details, verifyErr') =
                      (if tampered then (PhaseStatusFailed, tamperReason, PBlank, Some (TamperedError tamperReason))
                       else if verifyErr \<noteq> None
                       then (PhaseStatusFailed, FormatPhaseSummary (vs_Criteria snap) verdicts False, encoded, verifyErr)
                       else (PhaseStatusSucceeded, FormatPhaseSummary (vs_Criteria snap) verdicts True, encoded, None));
                    s3 = snd (so_CompletePhase S
                      \<lparr>cpi_CycleID = cycleID, cpi_PhaseSeq = ph_PhaseSeq phase, cpi_Status = phaseStatus,
                       cpi_Summary = Some summary, cpi_Details = details, cpi_By = ActorAgent\<rparr> s2) in
                ((verdicts, feedbackOut, verifyErr'), onEnded p1, s3)))"

lemma RunPipeline_started:
  assumes "vs_Enabled snap" "so_StartPhase S c PhaseVerify s = (Inr ph, s1)"
    and "RunPipeline S it t c snap n pp f g p s = ((vs, fb, ve'), p', s')"
  obtains ve s2 st su d where "runVerifyChecks S it t c (ph_PhaseSeq ph) (n + 1) snap pp s1 = ((vs, fb, ve), s2)"
    "p' = g (f ph p)"
    "s' = snd (so_CompletePhase S \<lparr>cpi_CycleID = c, cpi_PhaseSeq = ph_PhaseSeq ph, cpi_Status = st, cpi_Summary = Some su,
       cpi_Details = d, cpi_By = ActorAgent\<rparr> s2)"
    "st = PhaseStatusFailed \<and> ve' \<noteq> None \<or> st = PhaseStatusSucceeded \<and> ve' = None \<and> ve = None"
    "d = PBlank \<or> d = EncodePhaseDetails (n + 1) (vs_Criteria snap) vs"
proof -
  let ?cap = "CaptureIntegritySnapshot (it_PreHead it) (it_PreStatus it)"
  obtain ve s2 where c: "runVerifyChecks S it t c (ph_PhaseSeq ph) (n + 1) snap pp s1 = ((vs, fb, ve), s2)"
    using assms by (simp add: RunPipeline_def Let_def split: prod.splits)
  obtain tam why where t: "CheckVerifyIntegrity (case ?cap of Inl _ \<Rightarrow> \<lparr>ig_NotGitRepo = False, ig_Head = [], ig_Changed = []\<rparr> | Inr g \<Rightarrow> g)
      (case ?cap of Inl e \<Rightarrow> Some e | Inr _ \<Rightarrow> None) (CaptureIntegritySnapshot (it_PostHead it) (it_PostStatus it)) = (tam, why)"
    by (metis surj_pair)
  let ?enc = "EncodePhaseDetails (n + 1) (vs_Criteria snap) vs"
  let ?fin = "if tam then (PhaseStatusFailed, why, PBlank, Some (TamperedError why))
     else if ve \<noteq> None then (PhaseStatusFailed, FormatPhaseSummary (vs_Criteria snap) vs False, ?enc, ve)
     else (PhaseStatusSucceeded, FormatPhaseSummary (vs_Criteria snap) vs True, ?enc, None)"
  obtain st su d e where e: "?fin = (st, su, d, e)" by (metis surj_pair)
  have "p' = g (f ph p)" "ve' = e" "s' = snd (so_CompletePhase S \<lparr>cpi_CycleID = c, cpi_PhaseSeq = ph_PhaseSeq ph, cpi_Status = st,
      cpi_Summary = Some su, cpi_Details = d, cpi_By = ActorAgent\<rparr> s2)"
    using assms c t e by (simp_all add: RunPipeline_def Let_def)
  then show thesis using that[OF c, of st su d] e by (auto split: if_splits)
qed

section \<open>The terminate reason (reason.go)\<close>

definition failedReasonPrefix :: string where "failedReasonPrefix = ''verification_failed''"

text \<open>\<^verbatim>\<open>strings.LastIndex(s, ",")\<close>, when there is one.\<close>

definition last_comma :: "string \<Rightarrow> nat option" where
  "last_comma s = (let n = length (dropWhile (\<lambda>c. c \<noteq> CHR '','') (rev s)) in if n = 0 then None else Some (n - 1))"

definition FormatFailedReason :: "verdict list \<Rightarrow> verdict_map \<Rightarrow> string" where
  "FormatFailedReason finalVerdicts lockedPasses =
     (let failing = sort (remdups (map vt_ID (filter (\<lambda>v. \<not> vt_Passed v \<and> \<not> locked lockedPasses (vt_ID v)) finalVerdicts))) in
      if length failing = 0 then failedReasonPrefix
      else let prefix = failedReasonPrefix @ '':''; body = join '','' failing; full = prefix @ body in
        if length full \<le> 256 then full
        else let budget = min (256 - length prefix - length ellipsis) (length body);
                 trimmed = take budget body;
                 trimmed' = (case last_comma trimmed of None \<Rightarrow> trimmed | Some i \<Rightarrow> if 0 < i then take i trimmed else trimmed) in
          prefix @ trimmed' @ ellipsis)"

section \<open>Bounds and shape\<close>

lemma failed_reason_bounded: "length (FormatFailedReason vs pp) \<le> 256"
proof -
  have l: "length (failedReasonPrefix @ '':'') = 20" "length ellipsis = 3" "length failedReasonPrefix = 19"
    by (simp_all add: failedReasonPrefix_def ellipsis_def)
  show ?thesis unfolding FormatFailedReason_def Let_def using l
    by (auto split: option.splits)
qed

lemma EncodePhaseDetails_normal: "\<exists>obj. NormalizeJSONObject (EncodePhaseDetails n cs vs) f = Inr obj"
  by (simp add: EncodePhaseDetails_def NormalizeJSONObject_def countVerdictOutcome_def)

end
