(* ===== verification/Harness_Cycle.thy ===== *)
theory Harness_Cycle
  imports Verify_Pipeline
begin

text \<open>
  \<^verbatim>\<open>pkgs/agents/harness\<close>, the writes around one attempt: what the harness remembers of its own writes
  (\<^verbatim>\<open>processState\<close>), the close-outs of \<^verbatim>\<open>recovery.go\<close>, the steps of \<^verbatim>\<open>cycle.go\<close>, the details helpers of \<^verbatim>\<open>meta.go\<close>
  and \<^verbatim>\<open>run_idle.go\<close>, and the effects of \<^verbatim>\<open>cycle_effects.go\<close>. Functions act on the
  pair of the process state and the store; metrics, notifications and the scratch directory are left out.
\<close>

section \<open>State\<close>

record process_state =
  ps_cycleID :: string
  ps_cycleStarted :: bool
  ps_runningPhase :: phase
  ps_runningPhaseSeq :: int
  ps_runCorrelationID :: string
  ps_verifySnap :: verify_snapshot
  ps_verifyAttempt :: int
  ps_verifyFeedback :: string
  ps_previouslyPassed :: verdict_map
  ps_gitSnap :: git_snapshot
  ps_postExecuteHeadSHA :: string
  ps_lastCommitIngestOK :: bool
  ps_executeReachedVerify :: bool
  ps_reportParseErr :: string
  ps_lastFailedVerdicts :: "verdict list"
  ps_lastCompletedExecutePhaseSeq :: int
  ps_lastVerifyAfterExecuteSeq :: int
  ps_reportTampered :: bool

definition new_process_state :: process_state where
  "new_process_state = \<lparr>ps_cycleID = [], ps_cycleStarted = False, ps_runningPhase = PhaseNone, ps_runningPhaseSeq = 0,
     ps_runCorrelationID = [], ps_verifySnap = zero_snapshot, ps_verifyAttempt = 0, ps_verifyFeedback = [],
     ps_previouslyPassed = [], ps_gitSnap = zero_git_snapshot, ps_postExecuteHeadSHA = [], ps_lastCommitIngestOK = False,
     ps_executeReachedVerify = False, ps_reportParseErr = [], ps_lastFailedVerdicts = [],
     ps_lastCompletedExecutePhaseSeq = 0, ps_lastVerifyAfterExecuteSeq = 0, ps_reportTampered = False\<rparr>"

text \<open>The identity of the runner that goes into the metadata of the cycle, and the answers per iteration.
  \<open>rw_order\<close> is the order in which Go ranges over the map of passed verdicts;
  \<open>rw_StreamIdleStuck\<close> is a duration in nanoseconds.\<close>

record run_world =
  rw_Name :: string
  rw_Version :: string
  rw_PromptHash :: string
  rw_CycleMeta :: "(string \<times> json) list"
  rw_StreamIdleStuck :: int
  rw_WorkingDir :: string
  rw_order :: "verdict list \<Rightarrow> verdict list"
  rw_iter :: "nat \<Rightarrow> iteration"

type_synonym 's run = "process_state \<times> 's"

section \<open>Reasons (harness.go)\<close>

definition PanicReason :: string where "PanicReason = ''panic''"
definition ShutdownReason :: string where "ShutdownReason = ''shutdown''"
definition completePhaseFailedReason :: string where "completePhaseFailedReason = ''complete_phase_failed''"
definition checklistCompletionFailedReason :: string where
  "checklistCompletionFailedReason = ''checklist_completion_failed''"
definition verifyTamperedReason :: string where "verifyTamperedReason = ''verify_tampered''"

section \<open>Details (meta.go, run_idle.go)\<close>

text \<open>Whatever the runner returned, the result is an object.\<close>

fun detailsBytes :: "raw_body \<Rightarrow> payload" where
  "detailsBytes RawBlank = PDoc (JObj [])"
| "detailsBytes (RawDoc JNull) = PDoc (JObj [])"
| "detailsBytes (RawDoc (JObj kvs)) = PDoc (JObj kvs)"
| "detailsBytes (RawDoc v) = PDoc (JObj [(''value'', v)])"
| "detailsBytes (RawBad text) = PDoc (JObj [(''raw'', JStr text)])"

definition mergeStreamIdleRecoveryDetails :: "payload \<Rightarrow> int \<Rightarrow> payload" where
  "mergeStreamIdleRecoveryDetails base stuck =
     (let out = [(''stream_idle_recovery'', JBool True)] @
                (if 0 < stuck then [(''stream_idle_stuck_seconds'', JNum (stuck div 1000000000))] else []) in
      case base of
        PDoc (JObj kvs) \<Rightarrow> PDoc (JObj (foldl (\<lambda>b kv. AList.update (fst kv) (snd kv) b) kvs out))
      | _ \<Rightarrow> PDoc (JObj out))"

section \<open>Close-outs (recovery.go)\<close>

definition bestEffortFailTask :: "'s store_ops \<Rightarrow> string \<Rightarrow> 's \<Rightarrow> 's" where
  "bestEffortFailTask S taskID s = snd (so_Update S taskID StatusFailed s)"

definition failed_phase_input :: "process_state \<Rightarrow> string \<Rightarrow> complete_phase_input" where
  "failed_phase_input ps summary =
     \<lparr>cpi_CycleID = ps_cycleID ps, cpi_PhaseSeq = ps_runningPhaseSeq ps, cpi_Status = PhaseStatusFailed,
      cpi_Summary = Some summary, cpi_Details = PBlank, cpi_By = ActorAgent\<rparr>"

text \<open>The three close-outs do the same writes with different reasons: the running phase, if any, is
  closed as failed, then the cycle, then the task.\<close>

definition close_out :: "'s store_ops \<Rightarrow> string \<Rightarrow> cycle_status \<Rightarrow> string \<Rightarrow> 's run \<Rightarrow> 's run" where
  "close_out S taskID status reason = (\<lambda>(ps, s).
     let (ps1, s1) =
           (if 0 < ps_runningPhaseSeq ps
            then (ps\<lparr>ps_runningPhase := PhaseNone, ps_runningPhaseSeq := 0\<rparr>,
                  snd (so_CompletePhase S (failed_phase_input ps reason) s))
            else (ps, s));
         (ps2, s2) =
           (if ps_cycleStarted ps1
            then (ps1\<lparr>ps_cycleStarted := False\<rparr>, snd (so_TerminateCycle S (ps_cycleID ps1) status reason s1))
            else (ps1, s1)) in
     (ps2, bestEffortFailTask S taskID s2))"

definition handleShutdownAfterRun :: "'s store_ops \<Rightarrow> string \<Rightarrow> 's run \<Rightarrow> 's run" where
  "handleShutdownAfterRun S taskID = close_out S taskID CycleStatusAborted ShutdownReason"

definition recoverFromPanic :: "'s store_ops \<Rightarrow> string \<Rightarrow> 's run \<Rightarrow> 's run" where
  "recoverFromPanic S taskID = close_out S taskID CycleStatusFailed PanicReason"

definition bestEffortTerminate :: "'s store_ops \<Rightarrow> string \<Rightarrow> string \<Rightarrow> 's run \<Rightarrow> 's run" where
  "bestEffortTerminate S taskID reason = close_out S taskID CycleStatusFailed reason"

section \<open>Steps (cycle.go)\<close>

definition transitionTask :: "'s store_ops \<Rightarrow> string \<Rightarrow> status \<Rightarrow> 's \<Rightarrow> bool \<times> 's" where
  "transitionTask S taskID next s =
     (case so_Update S taskID next s of (Inl e, s1) \<Rightarrow> (False, s1) | (Inr _, s1) \<Rightarrow> (True, s1))"

definition buildCycleMeta :: "run_world \<Rightarrow> retry_mode option \<Rightarrow> payload" where
  "buildCycleMeta W mode = PDoc (JObj (
     let base = foldl (\<lambda>b kv. AList.update (fst kv) (snd kv) b)
                  [(''runner'', JStr (rw_Name W)), (''runner_version'', JStr (rw_Version W)),
                   (''prompt_hash'', JStr (rw_PromptHash W))] (rw_CycleMeta W) in
     case mode of None \<Rightarrow> base | Some m \<Rightarrow> AList.update ''retry_mode'' (JStr (retry_mode_str m)) base))"

definition startCycle ::
  "'s store_ops \<Rightarrow> run_world \<Rightarrow> task \<Rightarrow> string option \<Rightarrow> retry_mode option \<Rightarrow> 's run \<Rightarrow> task_cycle option \<times> 's run" where
  "startCycle S W t parent mode = (\<lambda>(ps, s).
     case so_StartCycle S \<lparr>sci_TaskID = task_ID t, sci_TriggeredBy = ActorAgent, sci_ParentCycleID = parent,
                           sci_Meta = buildCycleMeta W mode\<rparr> s of
       (Inl e, s1) \<Rightarrow> (None, ps, s1)
     | (Inr c, s1) \<Rightarrow> (Some c, ps\<lparr>ps_cycleID := cycle_ID c, ps_cycleStarted := True\<rparr>, s1))"

definition startExecutePhase :: "'s store_ops \<Rightarrow> task_cycle \<Rightarrow> 's run \<Rightarrow> cycle_phase option \<times> 's run" where
  "startExecutePhase S c = (\<lambda>(ps, s).
     case so_StartPhase S (cycle_ID c) PhaseExecute s of
       (Inl e, s1) \<Rightarrow> (None, ps, s1)
     | (Inr p, s1) \<Rightarrow>
         (Some p, ps\<lparr>ps_runningPhase := PhaseExecute, ps_runningPhaseSeq := ph_PhaseSeq p,
                     ps_runCorrelationID := RunCorrelationIDFromDetailsJSON (ph_DetailsJSON p)\<rparr>, s1))"

definition clear_phase :: "process_state \<Rightarrow> process_state" where
  "clear_phase ps = ps\<lparr>ps_runningPhase := PhaseNone, ps_runningPhaseSeq := 0, ps_runCorrelationID := []\<rparr>"

text \<open>The phase pointer is cleared whether or not the row could be closed.\<close>

definition completeExecutePhase ::
  "'s store_ops \<Rightarrow> task_cycle \<Rightarrow> cycle_phase \<Rightarrow> phase_status \<Rightarrow> string \<Rightarrow> payload \<Rightarrow> 's run \<Rightarrow> bool \<times> 's run" where
  "completeExecutePhase S c exec status summary phaseDetails = (\<lambda>(ps, s).
     case so_CompletePhase S \<lparr>cpi_CycleID = cycle_ID c, cpi_PhaseSeq = ph_PhaseSeq exec, cpi_Status = status,
            cpi_Summary = (if summary = [] then None else Some summary), cpi_Details = phaseDetails, cpi_By = ActorAgent\<rparr> s of
       (Inl e, s1) \<Rightarrow> (False, clear_phase ps, s1)
     | (Inr _, s1) \<Rightarrow> (True, clear_phase ps, s1))"

definition terminateCycle :: "'s store_ops \<Rightarrow> cycle_status \<Rightarrow> string \<Rightarrow> 's run \<Rightarrow> bool \<times> 's run" where
  "terminateCycle S status reason = (\<lambda>(ps, s).
     if ps_cycleID ps = [] then (True, ps, s)
     else (case so_TerminateCycle S (ps_cycleID ps) status reason s of
             (Inl e, s1) \<Rightarrow> (False, ps\<lparr>ps_cycleStarted := False\<rparr>, s1)
           | (Inr _, s1) \<Rightarrow> (True, ps\<lparr>ps_cycleStarted := False\<rparr>, s1)))"

text \<open>\<^verbatim>\<open>on_task_done.go\<close>: the audit event with the commits of the cycle.\<close>

definition on_task_done_payload :: "task \<Rightarrow> cycle_commit list \<Rightarrow> payload" where
  "on_task_done_payload t commits = PDoc (JObj (
     (case task_WorktreeID t of None \<Rightarrow> [] | Some w \<Rightarrow> if w = [] then [] else [(''worktree_id'', JStr w)]) @
     [(''commits'', JArr (map (\<lambda>c. JObj ([(''sha'', JStr (cc_SHA c))] @
         (if cc_Message c = [] then [] else [(''message'', JStr (cc_Message c))]))) commits))]))"

definition emitOnTaskDone :: "'s store_ops \<Rightarrow> task \<Rightarrow> string \<Rightarrow> 's \<Rightarrow> 's" where
  "emitOnTaskDone S t cycleID s =
     (case so_ListCommitsForCycle S cycleID s of
        (r, s1) \<Rightarrow>
          snd (so_AppendTaskEvent S (task_ID t) EventOnTaskDone
                 (on_task_done_payload t (case r of Inl _ \<Rightarrow> [] | Inr rows \<Rightarrow> rows)) s1))"

section \<open>Effects (cycle_effects.go)\<close>

text \<open>Terminate the cycle, then move the task; the second write is skipped when the first one fails.\<close>

definition settle :: "'s store_ops \<Rightarrow> task \<Rightarrow> cycle_status \<Rightarrow> string \<Rightarrow> status \<Rightarrow> 's run \<Rightarrow> bool \<times> 's run" where
  "settle S t status reason next r =
     (case terminateCycle S status reason r of
        (False, r1) \<Rightarrow> (False, r1)
      | (True, ps1, s1) \<Rightarrow> (case transitionTask S (task_ID t) next s1 of (ok, s2) \<Rightarrow> (ok, ps1, s2)))"

definition applyExecuteEffects ::
  "'s store_ops \<Rightarrow> run_world \<Rightarrow> task \<Rightarrow> task_cycle \<Rightarrow> cycle_phase \<Rightarrow> runner_answer \<Rightarrow> execute_effects \<Rightarrow> int \<Rightarrow>
   git_snapshot \<Rightarrow> bool \<Rightarrow> bool \<Rightarrow> 's run \<Rightarrow> bool \<times> 's run" where
  "applyExecuteEffects S W t c exec result effects commitCount snap operatorCancelled streamIdleRecovery r =
     (if ee_StopLoop effects then (False, handleShutdownAfterRun S (task_ID t) r)
      else
      let summary0 = overlayOperatorCancelOnResult (ra_Summary result) operatorCancelled effects;
          summary = (if ee_TerminateFailed effects \<and> ee_ResultSummary effects \<noteq> [] then ee_ResultSummary effects else summary0);
          d1 = MergeRunnerDetailsWithGit (detailsBytes (ra_Details result)) snap commitCount;
          d2 = MergeCriteriaReportProbeErr d1 (ps_reportParseErr (fst r));
          d3 = (if streamIdleRecovery \<and> ee_ContinueToVerify effects
                then mergeStreamIdleRecoveryDetails d2 (rw_StreamIdleStuck W) else d2) in
      case completeExecutePhase S c exec (executePhaseStatusFromEffects effects) summary d3 r of
        (False, r1) \<Rightarrow> (False, bestEffortTerminate S (task_ID t) completePhaseFailedReason r1)
      | (True, r1) \<Rightarrow>
          if ee_ContinueToVerify effects then (True, r1)
          else if \<not> ee_TerminateFailed effects then (False, r1)
          else if ee_TransitionTask effects = StatusFailed
          then (False, snd (settle S t CycleStatusFailed (ee_Reason effects) (ee_TransitionTask effects) r1))
          else (False, snd (terminateCycle S CycleStatusFailed (ee_Reason effects) r1)))"

text \<open>The results are whether to go round the loop again and whether the run has ended.\<close>

definition applyVerifyEffects :: "'s store_ops \<Rightarrow> task \<Rightarrow> verify_effects \<Rightarrow> string \<Rightarrow> 's run \<Rightarrow> (bool \<times> bool) \<times> 's run" where
  "applyVerifyEffects S t effects terminalReason r =
     (if ve_Tampered effects then ((False, True), snd (settle S t CycleStatusFailed verifyTamperedReason StatusFailed r))
      else if ve_RetryLoop effects
      then ((True, False), (fst r)\<lparr>ps_verifyAttempt := ps_verifyAttempt (fst r) + 1\<rparr>, snd r)
      else if ve_TerminalFailure effects
      then ((False, True), snd (settle S t CycleStatusFailed terminalReason StatusFailed r))
      else ((False, False), r))"

definition applyFinalizeEffects :: "'s store_ops \<Rightarrow> task \<Rightarrow> task_cycle \<Rightarrow> finalize_effects \<Rightarrow> 's run \<Rightarrow> bool \<times> 's run" where
  "applyFinalizeEffects S t c effects r =
     (case settle S t (fe_CycleStatus effects) (fe_Reason effects) (fe_TaskStatus effects) r of
        (False, r1) \<Rightarrow> (False, r1)
      | (True, ps1, s1) \<Rightarrow>
          (True, ps1, if fe_TaskStatus effects = StatusDone then emitOnTaskDone S t (cycle_ID c) s1 else s1))"

end
