(* ===== verification/Harness_Loop.thy ===== *)
theory Harness_Loop
  imports Harness_Cycle
begin

text \<open>
  The execute/verify loop of one attempt (\<^verbatim>\<open>cycle_loop.go\<close>, \<^verbatim>\<open>verify_retry_eligibility.go\<close>, \<^verbatim>\<open>criteria_probe.go\<close>)
  up to the loop itself. What the agent does with its prompt is its answer; the prompts are in \<open>Session_Resume\<close>.
\<close>

section \<open>Probe and anchors\<close>

text \<open>\<^verbatim>\<open>criteria_probe.go\<close>: the parse error of the report, for the criteria that are not locked.\<close>

definition probeCriteriaReport :: "criteria_doc report_file \<Rightarrow> process_state \<Rightarrow> process_state" where
  "probeCriteriaReport file ps =
     (let ps0 = ps\<lparr>ps_reportParseErr := []\<rparr>; snap = ps_verifySnap ps;
          expected = expected_ids (vs_Criteria snap) (ps_previouslyPassed ps) in
      if \<not> vs_Enabled snap \<or> length (vs_Criteria snap) = 0 then ps0
      else if length expected = 0 then ps0
      else (case ParseCriteriaReport file expected of
              Inr _ \<Rightarrow> ps0
            | Inl e \<Rightarrow> ps0\<lparr>ps_reportParseErr := report_err_text e\<rparr>))"

definition resolveCurrentHeadSHA :: "git_snapshot \<Rightarrow> head_answer \<Rightarrow> head_answer" where
  "resolveCurrentHeadSHA snap answer = (if gs_Skipped snap then HeadUnknown else answer)"

definition anchorPostExecuteState ::
  "int \<Rightarrow> git_snapshot \<Rightarrow> bool \<Rightarrow> commit_ingest \<Rightarrow> head_answer \<Rightarrow> process_state \<Rightarrow> process_state" where
  "anchorPostExecuteState execPhaseSeq snap ingestAttempted ingest answer ps =
     (let ps1 = ps\<lparr>ps_executeReachedVerify := True,
                   ps_lastCommitIngestOK := commitIngestOK (gs_Skipped snap) ingestAttempted ingest\<rparr> in
      case resolveCurrentHeadSHA snap answer of
        HeadErr \<Rightarrow> ps1
      | HeadUnknown \<Rightarrow> ps1\<lparr>ps_lastCompletedExecutePhaseSeq := execPhaseSeq\<rparr>
      | HeadAt h \<Rightarrow> ps1\<lparr>ps_postExecuteHeadSHA := trim_space h, ps_lastCompletedExecutePhaseSeq := execPhaseSeq\<rparr>)"

definition equal_fold :: "string \<Rightarrow> string \<Rightarrow> bool" where
  "equal_fold a b \<longleftrightarrow> map lower_ascii a = map lower_ascii b"

definition gatherRetryClassifyInput ::
  "iteration \<Rightarrow> verdict list \<Rightarrow> bool \<Rightarrow> process_state \<Rightarrow> classify_input \<times> process_state" where
  "gatherRetryClassifyInput it verdicts pipelineFailed ps0 =
     (let ps = probeCriteriaReport (it_ReportAtRetry it) ps0;
          headMatches =
            (if ps_postExecuteHeadSHA ps = [] then True
             else (case resolveCurrentHeadSHA (ps_gitSnap ps) (it_HeadAtRetry it) of
                     HeadErr \<Rightarrow> False
                   | HeadUnknown \<Rightarrow> True
                   | HeadAt h \<Rightarrow> equal_fold (trim_space h) (trim_space (ps_postExecuteHeadSHA ps)))) in
      (\<lparr>cl_FailureClass = ClassifyFailureClass (map (\<lambda>v. \<lparr>cv_Passed = vt_Passed v, cv_Verifier = vt_Verifier v\<rparr>) verdicts) pipelineFailed,
        cl_CriteriaReportValid = (ps_reportParseErr ps = []), cl_GitHeadMatchesAnchor = headMatches,
        cl_CommitIngestOK = ps_lastCommitIngestOK ps, cl_ExecuteReachedVerify = ps_executeReachedVerify ps\<rparr>, ps))"

section \<open>Passed verdicts\<close>

definition recordPassedCriterionVerdicts :: "verdict list \<Rightarrow> verdict_map \<Rightarrow> verdict_map" where
  "recordPassedCriterionVerdicts verdicts pp =
     foldl (\<lambda>pp v. if \<not> vt_Passed v then pp else if locked pp (vt_ID v) then pp else pp @ [(vt_ID v, v)]) pp verdicts"

definition unionPreviouslyPassedVerdicts :: "run_world \<Rightarrow> process_state \<Rightarrow> verdict list" where
  "unionPreviouslyPassedVerdicts W ps = rw_order W (map snd (ps_previouslyPassed ps))"

section \<open>Execute\<close>

definition streamIdleRecoveredEvent :: progress_event where
  "streamIdleRecoveredEvent = \<lparr>pe_Kind = ''run_state'', pe_Subtype = ''idle_recovered'',
     pe_Message = ''Agent went silent; recovered from saved evidence'', pe_Tool = [], pe_Payload = PBlank\<rparr>"

text \<open>The run of the agent, repeated with a fresh session when the session could not be resumed.\<close>

definition run_agent :: "'s store_ops \<Rightarrow> iteration \<Rightarrow> string \<Rightarrow> task_cycle \<Rightarrow> int \<Rightarrow> 's \<Rightarrow> runner_answer \<times> 's" where
  "run_agent S it taskID c phaseSeq s =
     (let a = it_Run it; s1 = persist_all S taskID (cycle_ID c) phaseSeq (ra_Progress a) s in
      if ra_Err a = Some ErrResumeSession
      then (let b = it_RunFallback it in (b, persist_all S taskID (cycle_ID c) phaseSeq (ra_Progress b) s1))
      else (a, s1))"

definition runCycleLoopExecute ::
  "'s store_ops \<Rightarrow> run_world \<Rightarrow> nat \<Rightarrow> task \<Rightarrow> task_cycle \<Rightarrow> 's run \<Rightarrow> bool \<times> 's run" where
  "runCycleLoopExecute S W k t c r =
     (let it = rw_iter W k in
      case startExecutePhase S c r of
        (None, r1) \<Rightarrow> (False, bestEffortTerminate S (task_ID t) ''execute_phase_start_failed'' r1)
      | (Some exec, r1) \<Rightarrow>
      let (ps1, s0) = r1;
          (priorBase, s1) = PriorCycleBaseSHA S (cycle_ID c) (ph_PhaseSeq exec) s0 in
      (case CaptureExecuteGitSnapshot (trim_space (rw_WorkingDir W)) (rw_WorkingDir W) priorBase
              (it_GitHead it) (it_GitTop it) (it_GitBranch it) (it_GitAt it) of
        None \<Rightarrow> (False, bestEffortTerminate S (task_ID t) ''execute_git_snapshot_failed'' (ps1, s1))
      | Some snap \<Rightarrow>
      let ps2 = ps1\<lparr>ps_gitSnap := snap\<rparr>;
          (result, s2) = run_agent S it (task_ID t) c (ph_PhaseSeq exec) s1;
          runErr = ra_Err result; cancelled = it_OperatorCancel it in
      if it_CtxDone it
      then applyExecuteEffects S W t c exec result
             (DecideExecutePostRun \<lparr>xi_RunnerOutcome = RunnerOK, xi_OperatorCancelled = False, xi_ContextCancelled = True,
                xi_EvidenceRecovery = False, xi_CommitIngest = \<lparr>cs_GitSnapshotSkipped = False, cs_IngestAttempted = False,
                cs_IngestErr = False, cs_FailReason = []\<rparr>\<rparr>)
             0 snap cancelled False (ps2, s2)
      else
      let stale = (runErr = Some ErrStale);
          ingestAttempted = ((runErr = None \<or> stale) \<and> \<not> cancelled \<and> \<not> gs_Skipped snap);
          (ingest, s3) =
            (if ingestAttempted
             then IngestExecuteCommits S (it_ReportAfterRun it) (it_CommitAnswers it) (task_ID t) (cycle_ID c) (ph_PhaseSeq exec) snap s2
             else (no_ingest, s2));
          commitCount = (if ingestAttempted \<and> \<not> ci_Err ingest \<and> ci_FailReason ingest = [] then int (ci_CommitCount ingest) else 0);
          effects = DecideExecutePostRun
            (buildExecutePostRunInput False runErr cancelled (gs_Skipped snap) ingestAttempted ingest);
          s4 = (if stale \<and> ee_ContinueToVerify effects
                then persistProgress S (task_ID t) (cycle_ID c) (ph_PhaseSeq exec) streamIdleRecoveredEvent s3 else s3);
          ps3 = probeCriteriaReport (it_ReportAfterRun it) ps2 in
      (case applyExecuteEffects S W t c exec result effects commitCount snap cancelled stale (ps3, s4) of
         (False, r5) \<Rightarrow> (False, r5)
       | (True, ps5, s5) \<Rightarrow>
           (True, anchorPostExecuteState (ph_PhaseSeq exec) snap ingestAttempted ingest (it_Head it) ps5, s5))))"

section \<open>Verify\<close>

definition verify_started :: "cycle_phase \<Rightarrow> process_state \<Rightarrow> process_state" where
  "verify_started p ps = ps\<lparr>ps_runningPhase := PhaseVerify, ps_runningPhaseSeq := ph_PhaseSeq p,
     ps_runCorrelationID := RunCorrelationIDFromDetailsJSON (ph_DetailsJSON p)\<rparr>"

definition verify_ended :: "process_state \<Rightarrow> process_state" where
  "verify_ended ps = (clear_phase ps)\<lparr>ps_lastVerifyAfterExecuteSeq := ps_lastCompletedExecutePhaseSeq ps\<rparr>"

definition verify_outcome :: "verify_err option \<Rightarrow> verify_result" where
  "verify_outcome e = (case e of None \<Rightarrow> VerifyResultPass | Some (TamperedError _) \<Rightarrow> VerifyResultFailTampered
     | Some (VerifyErr _) \<Rightarrow> VerifyResultFailRetryable)"

text \<open>What the process state keeps of a verify pass.\<close>

definition after_pipeline :: "verdict list \<Rightarrow> string \<Rightarrow> verify_err option \<Rightarrow> process_state \<Rightarrow> process_state" where
  "after_pipeline verdicts feedback verifyErr ps =
     (let ps1 = (if verifyErr \<noteq> None \<and> feedback \<noteq> [] then ps\<lparr>ps_verifyFeedback := feedback\<rparr> else ps);
          ps2 = ps1\<lparr>ps_previouslyPassed := recordPassedCriterionVerdicts verdicts (ps_previouslyPassed ps1)\<rparr> in
      if verifyErr = None then ps2
      else let ps3 = ps2\<lparr>ps_lastFailedVerdicts := verdicts\<rparr> in
        if verify_outcome verifyErr = VerifyResultFailTampered then ps3\<lparr>ps_reportTampered := True\<rparr> else ps3)"

text \<open>The results: go round again, the run has ended, skip the next execute phase.\<close>

definition runCycleLoopVerify ::
  "'s store_ops \<Rightarrow> run_world \<Rightarrow> nat \<Rightarrow> task \<Rightarrow> task_cycle \<Rightarrow> 's run \<Rightarrow> (bool \<times> bool \<times> bool) \<times> 's run" where
  "runCycleLoopVerify S W k t c r =
     (let it = rw_iter W k; (ps, s) = r in
      if VerifyDisabled (vs_Enabled (ps_verifySnap ps))
      then (let (res, s1) = CompleteChecklistLegacy S (task_ID t) s;
                effects = DecideVerifyDisabledLegacy (case res of Inl _ \<Rightarrow> True | Inr _ \<Rightarrow> False);
                ((retry, term), r1) = applyVerifyEffects S t effects checklistCompletionFailedReason (ps, s1) in
            ((retry, term, False), r1))
      else
      let ((verdicts, feedback, verifyErr), ps1, s1) =
            RunPipeline S it (task_ID t) (cycle_ID c) (ps_verifySnap ps) (ps_verifyAttempt ps) (ps_previouslyPassed ps)
              verify_started verify_ended ps s;
          ps2 = after_pipeline verdicts feedback verifyErr ps1 in
      if verifyErr = None then ((False, False, False), ps2, s1)
      else
      let (classifyIn, ps3) = gatherRetryClassifyInput it verdicts True ps2;
          executeStillValid = (fst (ClassifyVerifyRetryMode classifyIn) = RetryModeVerifyOnly);
          effects = DecideVerifyRetryWithValidity (ps_verifyAttempt ps3) (vs_MaxRetries (ps_verifySnap ps3))
                      (verify_outcome verifyErr) executeStillValid;
          terminalReason = FormatFailedReason verdicts (ps_previouslyPassed ps3);
          ((retry, term), r4) = applyVerifyEffects S t effects terminalReason (ps3, s1) in
      ((retry, term, ve_SkipNextExecute effects), r4))"

section \<open>Finalize and the loop\<close>

definition runCycleLoopFinalizeSuccess :: "'s store_ops \<Rightarrow> run_world \<Rightarrow> task \<Rightarrow> task_cycle \<Rightarrow> 's run \<Rightarrow> 's run" where
  "runCycleLoopFinalizeSuccess S W t c r =
     (let (ps, s) = r;
          (res, s1) = ApplyVerifiedCompletions S (task_ID t) (cycle_ID c) (unionPreviouslyPassedVerdicts W ps) s in
      snd (applyFinalizeEffects S t c (DecideFinalizeSuccess (case res of Inl _ \<Rightarrow> True | Inr _ \<Rightarrow> False)) (ps, s1)))"

section \<open>The shape of a round\<close>

text \<open>Once the phase row is open and the anchors are taken, an execute round runs the agent, perhaps ingests
  its commits, perhaps records the recovery, and applies the decided effects.\<close>

lemma execute_round:
  assumes st: "startExecutePhase S c r = (Some exec, ps1, s0)"
    and base: "PriorCycleBaseSHA S (cycle_ID c) (ph_PhaseSeq exec) s0 = (base, s1)"
    and snap: "CaptureExecuteGitSnapshot (trim_space (rw_WorkingDir W)) (rw_WorkingDir W) base (it_GitHead (rw_iter W k))
        (it_GitTop (rw_iter W k)) (it_GitBranch (rw_iter W k)) (it_GitAt (rw_iter W k)) = Some snap"
    and run: "run_agent S (rw_iter W k) (task_ID t) c (ph_PhaseSeq exec) s1 = (res, s2)"
  obtains inp n oc si ps' s3 s4 ok ps5 s5 where
    "s3 = s2 \<or> (\<exists>f a ci. IngestExecuteCommits S f a (task_ID t) (cycle_ID c) (ph_PhaseSeq exec) snap s2 = (ci, s3))"
    "s4 = s3 \<or> s4 = persistProgress S (task_ID t) (cycle_ID c) (ph_PhaseSeq exec) streamIdleRecoveredEvent s3"
    "ps' = ps1\<lparr>ps_gitSnap := snap\<rparr> \<or> (\<exists>f. ps' = probeCriteriaReport f (ps1\<lparr>ps_gitSnap := snap\<rparr>))"
    "applyExecuteEffects S W t c exec res (DecideExecutePostRun inp) n snap oc si (ps', s4) = (ok, ps5, s5)"
    "if ok then \<exists>ia ci hd. runCycleLoopExecute S W k t c r = (True, anchorPostExecuteState (ph_PhaseSeq exec) snap ia ci hd ps5, s5)
     else runCycleLoopExecute S W k t c r = (False, ps5, s5)"
proof -
  let ?it = "rw_iter W k"
  let ?ps2 = "ps1\<lparr>ps_gitSnap := snap\<rparr>"
  show thesis
  proof (cases "it_CtxDone ?it")
    case True
    let ?inp = "\<lparr>xi_RunnerOutcome = RunnerOK, xi_OperatorCancelled = False, xi_ContextCancelled = True,
       xi_EvidenceRecovery = False, xi_CommitIngest = \<lparr>cs_GitSnapshotSkipped = False, cs_IngestAttempted = False,
       cs_IngestErr = False, cs_FailReason = []\<rparr>\<rparr>"
    obtain ok ps5 s5 where a: "applyExecuteEffects S W t c exec res (DecideExecutePostRun ?inp) 0 snap
        (it_OperatorCancel ?it) False (?ps2, s2) = (ok, ps5, s5)" by (metis surj_pair)
    moreover have "\<not> ok" using a by (simp add: applyExecuteEffects_def DecideExecutePostRun_def no_execute_effects_def)
    moreover have "runCycleLoopExecute S W k t c r = (ok, ps5, s5)"
      using st base snap run True a by (simp add: runCycleLoopExecute_def Let_def)
    ultimately show thesis using that[of s2 s2 ?ps2] by simp
  next
    case False
    let ?stale = "ra_Err res = Some ErrStale"
    let ?att = "(ra_Err res = None \<or> ?stale) \<and> \<not> it_OperatorCancel ?it \<and> \<not> gs_Skipped snap"
    obtain ing s3 where ing: "(if ?att then IngestExecuteCommits S (it_ReportAfterRun ?it) (it_CommitAnswers ?it) (task_ID t)
        (cycle_ID c) (ph_PhaseSeq exec) snap s2 else (no_ingest, s2)) = (ing, s3)" by (metis surj_pair)
    let ?inp = "buildExecutePostRunInput False (ra_Err res) (it_OperatorCancel ?it) (gs_Skipped snap) ?att ing"
    let ?s4 = "if ?stale \<and> ee_ContinueToVerify (DecideExecutePostRun ?inp)
       then persistProgress S (task_ID t) (cycle_ID c) (ph_PhaseSeq exec) streamIdleRecoveredEvent s3 else s3"
    let ?n = "if ?att \<and> \<not> ci_Err ing \<and> ci_FailReason ing = [] then int (ci_CommitCount ing) else 0"
    let ?ps3 = "probeCriteriaReport (it_ReportAfterRun ?it) ?ps2"
    obtain ok ps5 s5 where a: "applyExecuteEffects S W t c exec res (DecideExecutePostRun ?inp) ?n snap
        (it_OperatorCancel ?it) ?stale (?ps3, ?s4) = (ok, ps5, s5)" by (metis surj_pair)
    have e: "runCycleLoopExecute S W k t c r =
       (if ok then (True, anchorPostExecuteState (ph_PhaseSeq exec) snap ?att ing (it_Head ?it) ps5, s5) else (False, ps5, s5))"
      using st base snap run False ing a by (simp add: runCycleLoopExecute_def Let_def split: bool.split)
    have "s3 = s2 \<or> (\<exists>f a ci. IngestExecuteCommits S f a (task_ID t) (cycle_ID c) (ph_PhaseSeq exec) snap s2 = (ci, s3))"
      using ing by (auto split: if_splits)
    then show thesis by (rule that[OF _ _ _ a]) (use e in auto)
  qed
qed

text \<open>A verify round with criteria runs the pipeline, and decides on its outcome when it failed.\<close>

lemma verify_round:
  assumes "vs_Enabled (ps_verifySnap ps)" "runCycleLoopVerify S W k t c (ps, s) = ((retry, term, skp), r')"
  obtains vs fb ve ps1 s1 where
    "RunPipeline S (rw_iter W k) (task_ID t) (cycle_ID c) (ps_verifySnap ps) (ps_verifyAttempt ps) (ps_previouslyPassed ps)
       verify_started verify_ended ps s = ((vs, fb, ve), ps1, s1)"
    "if ve = None then \<not> retry \<and> \<not> term \<and> r' = (after_pipeline vs fb ve ps1, s1)
     else \<exists>ps3 f v reason. ps3 = probeCriteriaReport f (after_pipeline vs fb ve ps1) \<and>
       applyVerifyEffects S t (DecideVerifyRetryWithValidity (ps_verifyAttempt ps3) (vs_MaxRetries (ps_verifySnap ps3))
         (verify_outcome ve) v) reason (ps3, s1) = ((retry, term), r')"
proof -
  let ?it = "rw_iter W k"
  obtain vs fb ve ps1 s1 where p: "RunPipeline S ?it (task_ID t) (cycle_ID c) (ps_verifySnap ps) (ps_verifyAttempt ps)
     (ps_previouslyPassed ps) verify_started verify_ended ps s = ((vs, fb, ve), ps1, s1)" by (metis surj_pair)
  show thesis
  proof (rule that[OF p], cases "ve = None")
    case True
    then show "if ve = None then \<not> retry \<and> \<not> term \<and> r' = (after_pipeline vs fb ve ps1, s1)
     else \<exists>ps3 f v reason. ps3 = probeCriteriaReport f (after_pipeline vs fb ve ps1) \<and>
       applyVerifyEffects S t (DecideVerifyRetryWithValidity (ps_verifyAttempt ps3) (vs_MaxRetries (ps_verifySnap ps3))
         (verify_outcome ve) v) reason (ps3, s1) = ((retry, term), r')"
      using assms p by (auto simp: runCycleLoopVerify_def VerifyDisabled_def)
  next
    case False
    obtain ci ps3 where g: "gatherRetryClassifyInput ?it vs True (after_pipeline vs fb ve ps1) = (ci, ps3)" by (metis surj_pair)
    then have ps3: "ps3 = probeCriteriaReport (it_ReportAtRetry ?it) (after_pipeline vs fb ve ps1)"
      by (simp add: gatherRetryClassifyInput_def Let_def)
    obtain rt tm r4 where a: "applyVerifyEffects S t (DecideVerifyRetryWithValidity (ps_verifyAttempt ps3)
        (vs_MaxRetries (ps_verifySnap ps3)) (verify_outcome ve) (fst (ClassifyVerifyRetryMode ci) = RetryModeVerifyOnly))
        (FormatFailedReason vs (ps_previouslyPassed ps3)) (ps3, s1) = ((rt, tm), r4)" by (metis surj_pair)
    then have "(retry, term, r') = (rt, tm, r4)"
      using assms p g False by (simp add: runCycleLoopVerify_def VerifyDisabled_def Let_def)
    then show "if ve = None then \<not> retry \<and> \<not> term \<and> r' = (after_pipeline vs fb ve ps1, s1)
     else \<exists>ps3 f v reason. ps3 = probeCriteriaReport f (after_pipeline vs fb ve ps1) \<and>
       applyVerifyEffects S t (DecideVerifyRetryWithValidity (ps_verifyAttempt ps3) (vs_MaxRetries (ps_verifySnap ps3))
         (verify_outcome ve) v) reason (ps3, s1) = ((retry, term), r')"
      using False ps3 a by auto
  qed
qed

end
