(* ===== verification/Harness_Resume.thy ===== *)
theory Harness_Resume
  imports Verify_Service
begin

text \<open>
  \<^verbatim>\<open>pkgs/agents/harness/internal/resume\<close>: the state a run continues from, rebuilt from the rows of the store
  alone: after a restart from the phases and verdicts of the running cycle (\<^verbatim>\<open>checkpoint.go\<close>), for an
  operator's retry from those of the terminal parent (\<^verbatim>\<open>continuation_bundle.go\<close>, \<^verbatim>\<open>retry_helpers.go\<close>).
\<close>

section \<open>Types (types.go)\<close>

datatype resume_entry = EntryExecute | EntryVerifyOnly | EntryAfterExecuteSuccess

datatype parent_failure = FailureClassRunner | FailureClassExecuteGate | FailureClassVerify
  | FailureClassInfrastructure | FailureClassOperator | FailureClassUnset

record continuation_bundle =
  cb_Entry :: resume_entry
  cb_LineageAttempt :: int
  cb_ParentCycleID :: string
  cb_FailureClass :: parent_failure
  cb_FailureReason :: string
  cb_FailurePhase :: phase
  cb_Commits :: "cycle_commit list"
  cb_CriteriaEvidence :: "criteria_report list"
  cb_PreviouslyPassed :: verdict_map
  cb_VerifyFeedback :: string
  cb_ExecuteFeedback :: string
  cb_CriteriaReportProbeErr :: string
  cb_RunnerFeedback :: string
  cb_Sufficient :: bool

record checkpoint =
  rk_Entry :: resume_entry
  rk_PreviouslyPassed :: verdict_map
  rk_VerifyAttempt :: int
  rk_VerifyFeedback :: string
  rk_KnownCommits :: "cycle_commit list"
  rk_Continuation :: "continuation_bundle option"

section \<open>Reading the rows (checkpoint.go)\<close>

definition isInterruptPhase :: "cycle_phase \<Rightarrow> bool" where
  "isInterruptPhase p \<longleftrightarrow> ph_Status p = PhaseStatusFailed \<and> ph_Summary p = Some PhaseInterruptReason"

definition buildVerifyFeedbackFromRows :: "verify_report list \<Rightarrow> int \<Rightarrow> string" where
  "buildVerifyFeedbackFromRows rows attemptSeq =
     join ''; '' (map (\<lambda>r. vr_CriterionID r @ '': '' @ vr_Reasoning r)
       (filter (\<lambda>r. vr_AttemptSeq r = attemptSeq \<and> \<not> vr_Verified r) rows))"

text \<open>The evidence is not mirrored in the verify rows, so a rebuilt verdict has none.\<close>

definition verdict_of_row :: "verify_report \<Rightarrow> verdict" where
  "verdict_of_row r = \<lparr>vt_ID = vr_CriterionID r, vt_Passed = True, vt_Evidence = [], vt_Verifier = vr_VerifierKind r,
     vt_Reasoning = vr_Reasoning r\<rparr>"

definition passed_of_rows :: "verify_report list \<Rightarrow> verdict_map" where
  "passed_of_rows rows =
     foldl (\<lambda>pp r. if \<not> vr_Verified r then pp else if locked pp (vr_CriterionID r) then pp
                   else pp @ [(vr_CriterionID r, verdict_of_row r)]) [] rows"

definition loadVerifyCheckpointData :: "'s store_ops \<Rightarrow> string \<Rightarrow> ('s, verdict_map \<times> int \<times> string) call" where
  "loadVerifyCheckpointData S cycleID s =
     (case so_ListVerifyReports S cycleID s of
        (Inl e, s1) \<Rightarrow> (Inl e, s1)
      | (Inr rows, s1) \<Rightarrow>
          let maxAttempt = foldl (\<lambda>m r. if m < vr_AttemptSeq r then vr_AttemptSeq r else m) 0 rows in
          (Inr (passed_of_rows rows, maxAttempt,
                if 0 < maxAttempt then buildVerifyFeedbackFromRows rows maxAttempt else []), s1))"

definition resume_error :: "string \<Rightarrow> err" where
  "resume_error d = ErrInvalidInput d"

text \<open>Where the loop continues, from the last phase.\<close>

definition checkpoint_entry :: "cycle_phase \<Rightarrow> resume_entry res" where
  "checkpoint_entry p =
     (if isInterruptPhase p
      then (if ph_Phase p = PhaseExecute then Inr EntryExecute
            else if ph_Phase p = PhaseVerify then Inr EntryVerifyOnly
            else Inl (resume_error ''unexpected interrupted phase''))
      else if ph_Phase p = PhaseExecute \<and> ph_Status p = PhaseStatusSucceeded then Inr EntryAfterExecuteSuccess
      else Inl (resume_error ''cannot continue''))"

definition ReconstructCheckpoint :: "'s store_ops \<Rightarrow> task_cycle \<Rightarrow> ('s, checkpoint) call" where
  "ReconstructCheckpoint S c s =
     (if cycle_Status c \<noteq> CycleStatusRunning then (Inl (resume_error ''cycle status is not running''), s)
      else case so_ListPhases S (cycle_ID c) s of
        (Inl e, s1) \<Rightarrow> (Inl e, s1)
      | (Inr phases, s1) \<Rightarrow>
          if phases = [] then (Inl (resume_error ''cycle has no phases''), s1)
          else if list_ex (\<lambda>p. ph_Status p = PhaseStatusRunning) phases
          then (Inl (resume_error ''phase still running after finalize''), s1)
          else (case checkpoint_entry (last phases) of
             Inl e \<Rightarrow> (Inl e, s1)
           | Inr entry \<Rightarrow>
          (case loadVerifyCheckpointData S (cycle_ID c) s1 of
             (Inl e, s2) \<Rightarrow> (Inl e, s2)
           | (Inr (passed, maxAttempt, feedback), s2) \<Rightarrow>
          (case so_ListCommitsForTask S (cycle_TaskID c) s2 of
             (Inl e, s3) \<Rightarrow> (Inl e, s3)
           | (Inr commits, s3) \<Rightarrow>
               (Inr \<lparr>rk_Entry = entry, rk_PreviouslyPassed = passed,
                     rk_VerifyAttempt = (if 0 < maxAttempt then maxAttempt else 0),
                     rk_VerifyFeedback = (if 0 < maxAttempt then feedback else []),
                     rk_KnownCommits = commits, rk_Continuation = None\<rparr>, s3)))))"

section \<open>The bundle of a terminal parent (continuation_bundle.go)\<close>

definition has_suffix :: "string \<Rightarrow> string \<Rightarrow> bool" where
  "has_suffix p s \<longleftrightarrow> has_prefix (rev p) (rev s)"

fun contains :: "string \<Rightarrow> string \<Rightarrow> bool" where
  "contains p [] = (p = [])"
| "contains p (c # s) = (has_prefix p (c # s) \<or> contains p s)"

definition phaseSummary :: "cycle_phase \<Rightarrow> string" where
  "phaseSummary p = (case ph_Summary p of None \<Rightarrow> [] | Some s \<Rightarrow> trim_space s)"

definition lastExecutePhase :: "cycle_phase list \<Rightarrow> cycle_phase option" where
  "lastExecutePhase phases =
     foldl (\<lambda>lst p. if ph_Phase p \<noteq> PhaseExecute then lst
                    else (case lst of None \<Rightarrow> Some p | Some q \<Rightarrow> if ph_PhaseSeq q < ph_PhaseSeq p then Some p else Some q))
       None phases"

text \<open>The summary of the latest failed phase that has one; the last phase comes first in both loops.\<close>

definition parentFailureReason :: "cycle_phase list \<Rightarrow> string" where
  "parentFailureReason phases =
     (case List.find (\<lambda>p. ph_Status p = PhaseStatusFailed \<and> phaseSummary p \<noteq> []) (rev phases) of
        None \<Rightarrow> [] | Some p \<Rightarrow> phaseSummary p)"

definition failure_text :: "cycle_phase list \<Rightarrow> cycle_phase \<Rightarrow> string" where
  "failure_text phases lastPhase =
     (if parentFailureReason phases = [] then phaseSummary lastPhase else parentFailureReason phases)"

definition classifyParentFailure :: "cycle_phase list \<Rightarrow> cycle_phase \<Rightarrow> parent_failure" where
  "classifyParentFailure phases lastPhase =
     (let reason = failure_text phases lastPhase in
      if reason = ''cancelled_by_operator'' then FailureClassOperator
      else if has_prefix ''verification_failed'' reason \<or> ph_Phase lastPhase = PhaseVerify then FailureClassVerify
      else if has_prefix ''runner_'' reason \<or> contains ''runner_'' reason then FailureClassRunner
      else if ph_Phase lastPhase = PhaseExecute \<and> ph_Status lastPhase = PhaseStatusFailed then FailureClassRunner
      else FailureClassInfrastructure)"

definition routeResumeEntry ::
  "cycle_phase list \<Rightarrow> cycle_phase option \<Rightarrow> cycle_phase \<Rightarrow> task_cycle \<Rightarrow> bool \<Rightarrow> resume_entry" where
  "routeResumeEntry phases lastExecute lastPhase c hasCommits =
     (case lastExecute of
        None \<Rightarrow> EntryExecute
      | Some e \<Rightarrow>
          if ph_Status e = PhaseStatusSucceeded \<and> cycle_Status c = CycleStatusFailed \<and>
             (ph_Phase lastPhase = PhaseVerify \<or> has_prefix ''verification_failed'' (failure_text phases lastPhase)) \<and> hasCommits
          then EntryVerifyOnly else EntryExecute)"

definition runnerFeedbackFromPhase :: "cycle_phase \<Rightarrow> string" where
  "runnerFeedbackFromPhase p =
     (let s = phaseSummary p in if 512 < length s then take 512 s @ [CHR 0xE2, CHR 0x80, CHR 0xA6] else s)"

definition continuationSufficient :: "continuation_bundle \<Rightarrow> task_cycle \<Rightarrow> bool" where
  "continuationSufficient b c \<longleftrightarrow>
     (if cycle_ID c = [] then False
      else if 0 < length (cb_PreviouslyPassed b) \<or> 0 < length (cb_Commits b) \<or> 0 < length (cb_CriteriaEvidence b) then True
      else if cb_FailureReason b \<noteq> [] \<or> cb_FailurePhase b \<noteq> PhaseNone then True
      else TerminalCycleStatus (cycle_Status c))"

definition ExecuteCriteriaReportAttemptSeq :: int where "ExecuteCriteriaReportAttemptSeq = 1000000"

text \<open>The part that is read off the phases of the parent.\<close>

definition bundle_of_phases :: "string \<Rightarrow> task_cycle \<Rightarrow> cycle_phase list \<Rightarrow> cycle_commit list \<Rightarrow> continuation_bundle" where
  "bundle_of_phases parentID c phases commits =
     (let b = \<lparr>cb_Entry = EntryExecute, cb_LineageAttempt = cycle_AttemptSeq c, cb_ParentCycleID = parentID,
               cb_FailureClass = FailureClassUnset, cb_FailureReason = parentFailureReason phases, cb_FailurePhase = PhaseNone,
               cb_Commits = commits, cb_CriteriaEvidence = [], cb_PreviouslyPassed = [], cb_VerifyFeedback = [],
               cb_ExecuteFeedback = [], cb_CriteriaReportProbeErr = [], cb_RunnerFeedback = [], cb_Sufficient = False\<rparr> in
      if phases = [] then b
      else let lastPhase = last phases; lastExecute = lastExecutePhase phases;
               b1 = b\<lparr>cb_FailurePhase := ph_Phase lastPhase, cb_FailureClass := classifyParentFailure phases lastPhase,
                      cb_Entry := routeResumeEntry phases lastExecute lastPhase c (0 < length commits)\<rparr> in
        (case lastExecute of
           None \<Rightarrow> b1
         | Some e \<Rightarrow>
             let b2 = b1\<lparr>cb_RunnerFeedback := runnerFeedbackFromPhase e,
                         cb_CriteriaReportProbeErr := CriteriaReportProbeErrFromPhaseDetails (ph_DetailsJSON e)\<rparr> in
             if ph_Status e = PhaseStatusFailed \<and> phaseSummary e \<noteq> []
             then b2\<lparr>cb_ExecuteFeedback := ''Prior execute attempt failed: '' @ phaseSummary e\<rparr> else b2))"

definition LoadContinuationBundle :: "'s store_ops \<Rightarrow> string \<Rightarrow> ('s, continuation_bundle) call" where
  "LoadContinuationBundle S parentCycleID0 s =
     (let parentID = trim_space parentCycleID0 in
      if parentID = [] then (Inl (resume_error ''empty parent cycle id''), s)
      else case so_GetCycle S parentID s of
        (Inl e, s1) \<Rightarrow> (Inl e, s1)
      | (Inr c, s1) \<Rightarrow>
      if \<not> TerminalCycleStatus (cycle_Status c) then (Inl (resume_error ''parent cycle is not terminal''), s1)
      else (case so_ListPhases S parentID s1 of
        (Inl e, s2) \<Rightarrow> (Inl e, s2)
      | (Inr phases, s2) \<Rightarrow>
      (case so_ListCommitsForTask S (cycle_TaskID c) s2 of
        (Inl e, s3) \<Rightarrow> (Inl e, s3)
      | (Inr commits, s3) \<Rightarrow>
      (case loadVerifyCheckpointData S parentID s3 of
        (Inl e, s4) \<Rightarrow> (Inl e, s4)
      | (Inr (passed, _, feedback), s4) \<Rightarrow>
      (case so_ListCriteriaReports S parentID s4 of
        (Inl e, s5) \<Rightarrow> (Inl e, s5)
      | (Inr rows, s5) \<Rightarrow>
          let b = (bundle_of_phases parentID c phases commits)
                    \<lparr>cb_PreviouslyPassed := passed, cb_VerifyFeedback := feedback,
                     cb_CriteriaEvidence := filter (\<lambda>r. cr_AttemptSeq r = ExecuteCriteriaReportAttemptSeq) rows\<rparr> in
          (Inr (b\<lparr>cb_Sufficient := continuationSufficient b c\<rparr>), s5))))))"

definition bundleToCheckpoint :: "continuation_bundle \<Rightarrow> checkpoint" where
  "bundleToCheckpoint b = \<lparr>rk_Entry = cb_Entry b, rk_PreviouslyPassed = cb_PreviouslyPassed b, rk_VerifyAttempt = 0,
     rk_VerifyFeedback = cb_VerifyFeedback b, rk_KnownCommits = cb_Commits b, rk_Continuation = Some b\<rparr>"

definition LoadCheckpointFromParent :: "'s store_ops \<Rightarrow> string \<Rightarrow> ('s, checkpoint) call" where
  "LoadCheckpointFromParent S parentCycleID s =
     (case LoadContinuationBundle S parentCycleID s of
        (Inl e, s1) \<Rightarrow> (Inl e, s1)
      | (Inr b, s1) \<Rightarrow>
          if \<not> cb_Sufficient b then (Inl (resume_error ''insufficient data''), s1) else (Inr (bundleToCheckpoint b), s1))"

section \<open>Preparing a verify-only retry (retry_helpers.go)\<close>

definition crossCycleExecuteCarriedForward :: string where
  "crossCycleExecuteCarriedForward = ''cross_cycle_execute_carried_forward''"

definition SeedCrossCycleExecuteFromParent :: "'s store_ops \<Rightarrow> task_cycle \<Rightarrow> string \<Rightarrow> ('s, unit) call" where
  "SeedCrossCycleExecuteFromParent S c parentCycleID s =
     (case so_ListPhases S parentCycleID s of
        (Inl e, s1) \<Rightarrow> (Inl e, s1)
      | (Inr phases, s1) \<Rightarrow>
          (case lastExecutePhase phases of
             None \<Rightarrow> (Inl (resume_error ''parent has no succeeded execute phase''), s1)
           | Some p \<Rightarrow>
               if ph_Status p \<noteq> PhaseStatusSucceeded then (Inl (resume_error ''parent has no succeeded execute phase''), s1)
               else (case so_StartPhase S (cycle_ID c) PhaseExecute s1 of
                       (Inl e, s2) \<Rightarrow> (Inl e, s2)
                     | (Inr exec, s2) \<Rightarrow>
                         so_CompletePhase S \<lparr>cpi_CycleID = cycle_ID c, cpi_PhaseSeq = ph_PhaseSeq exec,
                           cpi_Status = PhaseStatusSucceeded, cpi_Summary = Some crossCycleExecuteCarriedForward,
                           cpi_Details = PDoc (JObj (ph_DetailsJSON p)), cpi_By = ActorAgent\<rparr> s2)))"

text \<open>The rows of the parent, grouped by attempt; Go leaves the order of the groups open, the model takes
  the order of first occurrence.\<close>

definition entries_of_attempt :: "criteria_report list \<Rightarrow> int \<Rightarrow> criteria_entry list" where
  "entries_of_attempt rows n =
     map (\<lambda>r. \<lparr>en_CriterionID = cr_CriterionID r, en_ClaimedDone = cr_ClaimedDone r, en_Evidence = cr_Evidence r\<rparr>)
       (filter (\<lambda>r. cr_AttemptSeq r = n) rows)"

fun mirror_attempts :: "'s store_ops \<Rightarrow> string \<Rightarrow> criteria_report list \<Rightarrow> int list \<Rightarrow> ('s, unit) call" where
  "mirror_attempts S childCycleID rows [] s = (Inr (), s)"
| "mirror_attempts S childCycleID rows (n # ns) s =
     (case so_UpsertCriteriaReports S childCycleID n (entries_of_attempt rows n) s of
        (Inl e, s1) \<Rightarrow> (Inl e, s1)
      | (Inr _, s1) \<Rightarrow> mirror_attempts S childCycleID rows ns s1)"

definition MirrorParentCriteriaForVerifyOnly :: "'s store_ops \<Rightarrow> string \<Rightarrow> string \<Rightarrow> ('s, unit) call" where
  "MirrorParentCriteriaForVerifyOnly S childCycleID parentCycleID s =
     (case so_ListCriteriaReports S parentCycleID s of
        (Inl e, s1) \<Rightarrow> (Inl e, s1)
      | (Inr rows, s1) \<Rightarrow> mirror_attempts S childCycleID rows (remdups (map cr_AttemptSeq rows)) s1)"

definition FailTaskAfterRetryPrep :: "'s store_ops \<Rightarrow> string \<Rightarrow> 's \<Rightarrow> 's" where
  "FailTaskAfterRetryPrep S taskID s = snd (so_Update S taskID StatusFailed s)"

text \<open>The map is rebuilt under the id of the verdict, or its old key when that is empty.\<close>

definition harnessVerdictsFromResume :: "verdict_map \<Rightarrow> verdict_map" where
  "harnessVerdictsFromResume m =
     foldl (\<lambda>out (i, v). let k = (if vt_ID v = [] then i else vt_ID v) in AList.update k (v\<lparr>vt_ID := k\<rparr>) out) [] m"

end
