(* ===== verification/Harness_Run.thy ===== *)
theory Harness_Run
  imports Harness_Loop Harness_Resume
begin

text \<open>
  The loop of one attempt (\<^verbatim>\<open>runCycleLoop\<close>) and the three ways into it: a fresh cycle, an operator's
  retry, and the continuation of a running cycle after a restart. Every round of the loop but the last
  raises the attempt counter, which the retry decision keeps below the configured maximum, so the loop
  ends.
\<close>

section \<open>The loop ends\<close>

definition loop_measure :: "process_state \<Rightarrow> nat" where
  "loop_measure ps = nat (vs_MaxRetries (ps_verifySnap ps) - ps_verifyAttempt ps)"

text \<open>Between two rounds the snapshot and the attempt counter stay, no passed verdict is lost, and what is
  added are passes under their own id.\<close>

definition own_passes :: "(string \<times> verdict) set" where
  "own_passes = {(vt_ID v, v) | v. vt_Passed v}"

definition carried :: "process_state \<Rightarrow> process_state \<Rightarrow> bool" where
  "carried ps ps' \<longleftrightarrow> ps_verifySnap ps' = ps_verifySnap ps \<and> ps_verifyAttempt ps' = ps_verifyAttempt ps \<and>
     set (ps_previouslyPassed ps) \<subseteq> set (ps_previouslyPassed ps') \<and>
     set (ps_previouslyPassed ps') \<subseteq> set (ps_previouslyPassed ps) \<union> own_passes"

lemma recordPassed_grows:
  "set pp \<subseteq> set (recordPassedCriterionVerdicts vs pp) \<and> set (recordPassedCriterionVerdicts vs pp) \<subseteq> set pp \<union> own_passes"
proof (induction vs arbitrary: pp)
  case (Cons v vs)
  define pp' where "pp' = (if \<not> vt_Passed v then pp else if locked pp (vt_ID v) then pp else pp @ [(vt_ID v, v)])"
  have "set pp \<subseteq> set pp' \<and> set pp' \<subseteq> set pp \<union> own_passes" by (auto simp: pp'_def own_passes_def)
  moreover have "recordPassedCriterionVerdicts (v # vs) pp = recordPassedCriterionVerdicts vs pp'"
    by (simp add: recordPassedCriterionVerdicts_def pp'_def)
  ultimately show ?case using Cons.IH[of pp'] by auto
qed (simp add: recordPassedCriterionVerdicts_def)

lemma carried_refl [simp]: "carried ps ps"
  by (simp add: carried_def)

lemma close_out_carried: "carried (fst r) (fst (close_out S t st reason r))"
  by (cases r) (simp add: close_out_def carried_def)

lemma settle_carried: "carried (fst r) (fst (snd (settle S t st reason nx r)))"
  by (cases r) (auto simp: settle_def terminateCycle_def transitionTask_def carried_def split: prod.split sum.split bool.split)

lemma terminateCycle_carried: "carried (fst r) (fst (snd (terminateCycle S st reason r)))"
  by (cases r) (auto simp: terminateCycle_def carried_def split: prod.split sum.split)

lemma completeExecutePhase_carried: "carried (fst r) (fst (snd (completeExecutePhase S c e st su d r)))"
  by (cases r) (auto simp: completeExecutePhase_def clear_phase_def carried_def split: prod.split sum.split)

lemma startExecutePhase_carried: "carried (fst r) (fst (snd (startExecutePhase S c r)))"
  by (cases r) (auto simp: startExecutePhase_def carried_def split: prod.split sum.split)

lemma carried_trans: "carried a b \<Longrightarrow> carried b c \<Longrightarrow> carried a c"
  by (auto simp: carried_def)

lemmas carries = close_out_carried settle_carried terminateCycle_carried completeExecutePhase_carried startExecutePhase_carried

lemma applyExecuteEffects_carried:
  "carried (fst r) (fst (snd (applyExecuteEffects S W t c e res eff n snap oc si r)))"
proof (cases "ee_StopLoop eff")
  case True
  then show ?thesis by (simp add: applyExecuteEffects_def handleShutdownAfterRun_def close_out_carried)
next
  case False
  let ?su = "if ee_TerminateFailed eff \<and> ee_ResultSummary eff \<noteq> [] then ee_ResultSummary eff
     else overlayOperatorCancelOnResult (ra_Summary res) oc eff"
  let ?d2 = "MergeCriteriaReportProbeErr (MergeRunnerDetailsWithGit (detailsBytes (ra_Details res)) snap n) (ps_reportParseErr (fst r))"
  let ?d3 = "if si \<and> ee_ContinueToVerify eff then mergeStreamIdleRecoveryDetails ?d2 (rw_StreamIdleStuck W) else ?d2"
  obtain ok r1 where q: "completeExecutePhase S c e (executePhaseStatusFromEffects eff) ?su ?d3 r = (ok, r1)"
    by (metis surj_pair)
  have b: "carried (fst r) (fst r1)" using completeExecutePhase_carried[of r S c e] q by (metis snd_conv)
  have "snd (applyExecuteEffects S W t c e res eff n snap oc si r) \<in>
      {r1, bestEffortTerminate S (task_ID t) completePhaseFailedReason r1,
       snd (settle S t CycleStatusFailed (ee_Reason eff) (ee_TransitionTask eff) r1),
       snd (terminateCycle S CycleStatusFailed (ee_Reason eff) r1)}"
    using False q by (simp add: applyExecuteEffects_def Let_def split: bool.split)
  then show ?thesis
    using carried_trans[OF b] b settle_carried[of r1] terminateCycle_carried[of r1] close_out_carried[of r1]
    unfolding bestEffortTerminate_def by (metis empty_iff insert_iff)
qed


lemma verdict_state_carried:
  "carried ps (probeCriteriaReport f ps)" "carried ps (anchorPostExecuteState n g a i h ps)"
  "carried ps (verify_ended (verify_started p ps))" "carried ps (after_pipeline vs fb e ps)"
  "carried ps (snd (gatherRetryClassifyInput it vs b ps))"
  by (auto simp: carried_def probeCriteriaReport_def anchorPostExecuteState_def verify_ended_def verify_started_def
      clear_phase_def after_pipeline_def gatherRetryClassifyInput_def Let_def split: sum.split head_answer.split
      dest: recordPassed_grows[THEN conjunct1, THEN subsetD] recordPassed_grows[THEN conjunct2, THEN subsetD])

lemma RunPipeline_ps:
  "fst (snd (RunPipeline S it t c snap a pp f g p s)) = p \<or> (\<exists>ph. fst (snd (RunPipeline S it t c snap a pp f g p s)) = g (f ph p))"
  by (auto simp: RunPipeline_def Let_def split: prod.split sum.split)

lemma RunPipeline_carried:
  "RunPipeline S it t c snap a pp verify_started verify_ended ps s = (res, ps', s') \<Longrightarrow> carried ps ps'"
  using RunPipeline_ps[of S it t c snap a pp verify_started verify_ended ps s] verdict_state_carried(3) by auto

lemma runCycleLoopExecute_carried: "carried (fst r) (fst (snd (runCycleLoopExecute S W k t c r)))"
proof -
  obtain eo ps1 s0 where st: "startExecutePhase S c r = (eo, ps1, s0)" by (metis surj_pair)
  have b1: "carried (fst r) ps1" using startExecutePhase_carried[of r S c] st by simp
  have closed: "carried (fst r) (fst (close_out S (task_ID t) st reason (ps1, s')))" for st reason s'
    using carried_trans[OF b1] close_out_carried[of "(ps1, s')"] by simp
  show ?thesis
  proof (cases eo)
    case None
    then show ?thesis using st closed by (simp add: runCycleLoopExecute_def bestEffortTerminate_def)
  next
    case (Some exec)
    obtain base s1 where base: "PriorCycleBaseSHA S (cycle_ID c) (ph_PhaseSeq exec) s0 = (base, s1)" by (metis surj_pair)
    obtain res s2 where run: "run_agent S (rw_iter W k) (task_ID t) c (ph_PhaseSeq exec) s1 = (res, s2)" by (metis surj_pair)
    show ?thesis
    proof (cases "CaptureExecuteGitSnapshot (trim_space (rw_WorkingDir W)) (rw_WorkingDir W) base (it_GitHead (rw_iter W k))
        (it_GitTop (rw_iter W k)) (it_GitBranch (rw_iter W k)) (it_GitAt (rw_iter W k))")
      case None
      then show ?thesis using st Some base closed by (simp add: runCycleLoopExecute_def bestEffortTerminate_def)
    next
      case snap: (Some snap)
      have b2: "carried (fst r) (ps1\<lparr>ps_gitSnap := snap\<rparr>)" using b1 by (simp add: carried_def)
      show ?thesis
      proof (rule execute_round[OF st[unfolded Some] base snap run])
        fix inp n oc si ps' s3 s4 ok ps5 s5
        assume ps': "ps' = ps1\<lparr>ps_gitSnap := snap\<rparr> \<or> (\<exists>f. ps' = probeCriteriaReport f (ps1\<lparr>ps_gitSnap := snap\<rparr>))"
          and a: "applyExecuteEffects S W t c exec res (DecideExecutePostRun inp) n snap oc si (ps', s4) = (ok, ps5, s5)"
          and r: "if ok then \<exists>ia ci hd. runCycleLoopExecute S W k t c r = (True, anchorPostExecuteState (ph_PhaseSeq exec) snap ia ci hd ps5, s5)
            else runCycleLoopExecute S W k t c r = (False, ps5, s5)"
        have "carried (fst r) ps'" using ps' b2 carried_trans[OF b2 verdict_state_carried(1)] by blast
        moreover have "carried ps' ps5" using applyExecuteEffects_carried[of "(ps', s4)"] a by (metis fst_conv snd_conv)
        ultimately have "carried (fst r) ps5" by (rule carried_trans)
        then show ?thesis using r carried_trans[OF _ verdict_state_carried(2)] by (auto split: if_splits)
      qed
    qed
  qed
qed

text \<open>Another round means the attempt counter was below the maximum and has been raised.\<close>

lemma applyVerifyEffects_carried:
  assumes "applyVerifyEffects S t eff reason r = ((retry, term), r')"
  shows "if retry then ve_RetryLoop eff \<and> \<not> ve_Tampered eff \<and> r' = ((fst r)\<lparr>ps_verifyAttempt := ps_verifyAttempt (fst r) + 1\<rparr>, snd r)
         else carried (fst r) (fst r')"
  using assms settle_carried[of r S t] by (auto simp: applyVerifyEffects_def split: if_splits)

lemma runCycleLoopVerify_carried:
  assumes "runCycleLoopVerify S W k t c r = ((retry, term, skp), r')"
  shows "if retry then ps_verifySnap (fst r') = ps_verifySnap (fst r) \<and> ps_verifyAttempt (fst r') = ps_verifyAttempt (fst r) + 1 \<and>
           ps_verifyAttempt (fst r) < vs_MaxRetries (ps_verifySnap (fst r)) \<and>
           set (ps_previouslyPassed (fst r)) \<subseteq> set (ps_previouslyPassed (fst r')) \<and>
           set (ps_previouslyPassed (fst r')) \<subseteq> set (ps_previouslyPassed (fst r)) \<union> own_passes
         else carried (fst r) (fst r')"
proof -
  obtain ps s where r: "r = (ps, s)" by (cases r)
  show ?thesis
  proof (cases "vs_Enabled (ps_verifySnap ps)")
    case False
    obtain res s1 where l: "CompleteChecklistLegacy S (task_ID t) s = (res, s1)" by (metis surj_pair)
    let ?eff = "DecideVerifyDisabledLegacy (case res of Inl _ \<Rightarrow> True | Inr _ \<Rightarrow> False)"
    obtain rt tm r1 where a: "applyVerifyEffects S t ?eff checklistCompletionFailedReason (ps, s1) = ((rt, tm), r1)"
      by (metis surj_pair)
    have "\<not> ve_RetryLoop ?eff" by (simp add: DecideVerifyDisabledLegacy_def no_verify_effects_def)
    then show ?thesis using assms r False l a applyVerifyEffects_carried[OF a]
      by (auto simp: runCycleLoopVerify_def VerifyDisabled_def split: if_splits)
  next
    case True
    let ?it = "rw_iter W k"
    obtain vs fb ve ps1 s1 where p: "RunPipeline S ?it (task_ID t) (cycle_ID c) (ps_verifySnap ps) (ps_verifyAttempt ps)
       (ps_previouslyPassed ps) verify_started verify_ended ps s = ((vs, fb, ve), ps1, s1)" by (metis surj_pair)
    have b2: "carried ps (after_pipeline vs fb ve ps1)"
      using carried_trans[OF RunPipeline_carried[OF p] verdict_state_carried(4)] .
    show ?thesis
    proof (cases "ve = None")
      case True
      then show ?thesis using assms r \<open>vs_Enabled _\<close> p b2 by (auto simp: runCycleLoopVerify_def VerifyDisabled_def)
    next
      case False
      obtain ci ps3 where g: "gatherRetryClassifyInput ?it vs True (after_pipeline vs fb ve ps1) = (ci, ps3)" by (metis surj_pair)
      have b3: "carried ps ps3"
        using carried_trans[OF b2] verdict_state_carried(5)[of "after_pipeline vs fb ve ps1" ?it vs True] g by simp
      let ?eff = "DecideVerifyRetryWithValidity (ps_verifyAttempt ps3) (vs_MaxRetries (ps_verifySnap ps3)) (verify_outcome ve)
         (fst (ClassifyVerifyRetryMode ci) = RetryModeVerifyOnly)"
      obtain rt tm r4 where a: "applyVerifyEffects S t ?eff (FormatFailedReason vs (ps_previouslyPassed ps3)) (ps3, s1) = ((rt, tm), r4)"
        by (metis surj_pair)
      have "retry = rt" "r' = r4" using assms r \<open>vs_Enabled _\<close> p False g a by (auto simp: runCycleLoopVerify_def VerifyDisabled_def)
      then show ?thesis using applyVerifyEffects_carried[OF a] b3 r carried_trans[OF b3]
        by (auto simp: carried_def verify_effects_sel split: if_splits)
    qed
  qed
qed

section \<open>The loop (cycle_loop.go)\<close>

lemma loop_descends:
  assumes e: "(if skipExecute then (True, r) else runCycleLoopExecute S W k t c r) = (True, r1)"
    and v: "runCycleLoopVerify S W k t c r1 = ((True, tm, sk), r2)"
  shows "loop_measure (fst r2) < loop_measure (fst r)"
proof -
  have "carried (fst r) (fst r1)"
    using e runCycleLoopExecute_carried[of r S W k t c] by (auto split: if_splits)
  then show ?thesis using runCycleLoopVerify_carried[OF v] by (simp add: carried_def loop_measure_def)
qed

function runCycleLoop ::
  "'s store_ops \<Rightarrow> run_world \<Rightarrow> nat \<Rightarrow> bool \<Rightarrow> task \<Rightarrow> task_cycle \<Rightarrow> 's run \<Rightarrow> 's run" where
  "runCycleLoop S W k skipExecute t c r =
     (case (if skipExecute then (True, r) else runCycleLoopExecute S W k t c r) of
        (False, r1) \<Rightarrow> r1
      | (True, r1) \<Rightarrow>
          (case runCycleLoopVerify S W k t c r1 of
             ((True, _, skipNext), r2) \<Rightarrow> runCycleLoop S W (Suc k) skipNext t c r2
           | ((False, True, _), r2) \<Rightarrow> r2
           | ((False, False, _), r2) \<Rightarrow> runCycleLoopFinalizeSuccess S W t c r2))"
  by auto
termination
proof (relation "measure (\<lambda>(S, W, k, skp, t, c, r). loop_measure (fst r))", goal_cases)
  case (2 S W k skp t c r)
  then show ?case by (simp only: in_measure case_prod_conv) (metis loop_descends)
qed simp


declare runCycleLoop.simps [simp del]

lemma loop_round:
  assumes "(if skp then (True, r) else runCycleLoopExecute S W k t c r) = (go, r1)"
    and "runCycleLoopVerify S W k t c r1 = ((retry, trm, skn), r2)"
  shows "runCycleLoop S W k skp t c r =
     (if \<not> go then r1 else if retry then runCycleLoop S W (Suc k) skn t c r2
      else if trm then r2 else runCycleLoopFinalizeSuccess S W t c r2)"
  by (subst runCycleLoop.simps) (simp add: assms split: bool.split)

lemma finalize_carried: "carried (fst r) (fst (runCycleLoopFinalizeSuccess S W t c r))"
proof -
  obtain ps s where r: "r = (ps, s)" by (cases r)
  obtain x s1 where a: "ApplyVerifiedCompletions S (task_ID t) (cycle_ID c) (unionPreviouslyPassedVerdicts W ps) s = (x, s1)"
    by (metis surj_pair)
  have b: "carried ps ps'" if "settle S t st reason nx (ps, s1) = (ok, ps', s')" for st reason nx ok ps' s'
    using settle_carried[of "(ps, s1)" S t st reason nx] that by simp
  show ?thesis using r a
    by (auto simp: runCycleLoopFinalizeSuccess_def applyFinalizeEffects_def split: prod.split bool.split dest: b)
qed

lemma runCycleLoop_attempts:
  "ps_verifyAttempt (fst (runCycleLoop S W k skp t c r)) \<le> max (ps_verifyAttempt (fst r)) (vs_MaxRetries (ps_verifySnap (fst r)))"
proof (induction "loop_measure (fst r)" arbitrary: k skp r rule: less_induct)
  case less
  obtain go r1 where e: "(if skp then (True, r) else runCycleLoopExecute S W k t c r) = (go, r1)" by (metis surj_pair)
  have b1: "carried (fst r) (fst r1)" using e runCycleLoopExecute_carried[of r S W k t c] by (auto split: if_splits)
  obtain retry trm skn r2 where v: "runCycleLoopVerify S W k t c r1 = ((retry, trm, skn), r2)" by (metis surj_pair)
  note b2 = runCycleLoopVerify_carried[OF v]
  show ?case
  proof (cases "go \<and> retry")
    case True
    then have "loop_measure (fst r2) < loop_measure (fst r)" using loop_descends e v by metis
    from less.hyps[OF this, of "Suc k" skn] show ?thesis using True b1 b2
      by (auto simp: loop_round[OF e v] carried_def)
  next
    case False
    then show ?thesis using b1 b2 finalize_carried[of r2 S W t c]
      by (auto simp: loop_round[OF e v] carried_def)
  qed
qed

text \<open>The probe error of the parent seeds the report error of the first round.\<close>

definition enter_loop ::
  "'s store_ops \<Rightarrow> run_world \<Rightarrow> bool \<Rightarrow> continuation_bundle option \<Rightarrow> task \<Rightarrow> task_cycle \<Rightarrow> 's run \<Rightarrow> 's run" where
  "enter_loop S W skipFirstExecute continuation t c = (\<lambda>(ps, s).
     runCycleLoop S W 0 skipFirstExecute t c
       (case continuation of None \<Rightarrow> ps | Some b \<Rightarrow> ps\<lparr>ps_reportParseErr := trim_space (cb_CriteriaReportProbeErr b)\<rparr>, s))"

text \<open>The error of the snapshot is dropped; the zero snapshot stands in.\<close>

definition load_snapshot :: "'s store_ops \<Rightarrow> task \<Rightarrow> 's run \<Rightarrow> 's run" where
  "load_snapshot S t = (\<lambda>(ps, s).
     case LoadSnapshot S (task_ID t) s of
       (Inl e, s1) \<Rightarrow> (ps\<lparr>ps_verifySnap := zero_snapshot\<rparr>, s1)
     | (Inr snap, s1) \<Rightarrow> (ps\<lparr>ps_verifySnap := snap\<rparr>, s1))"

section \<open>A fresh cycle and an operator's retry (retry_run.go)\<close>

definition runFreshCycle ::
  "'s store_ops \<Rightarrow> run_world \<Rightarrow> task \<Rightarrow> string option \<Rightarrow> retry_mode option \<Rightarrow> 's \<Rightarrow> 's run" where
  "runFreshCycle S W t parent mode s =
     (case startCycle S W t parent mode (new_process_state, s) of
        (None, ps1, s1) \<Rightarrow> (ps1, bestEffortFailTask S (task_ID t) s1)
      | (Some c, r1) \<Rightarrow> enter_loop S W False None t c (load_snapshot S t r1))"

text \<open>What git answers when a fresh retry resets the worktree.\<close>

record reset_world =
  zw_Head :: git_out
  zw_ParentOf :: "string \<Rightarrow> string option"
  zw_ResetOK :: "string \<Rightarrow> bool"

definition runFreshRetry :: "'s store_ops \<Rightarrow> run_world \<Rightarrow> reset_world \<Rightarrow> task \<Rightarrow> pending_retry \<Rightarrow> 's \<Rightarrow> 's run" where
  "runFreshRetry S W Z t intent s =
     (case ResetForFreshRetry S (rw_WorkingDir W) (zw_Head Z) (zw_ParentOf Z) (zw_ResetOK Z) (pr_ParentCycleID intent) s of
        (Inl e, s1) \<Rightarrow> (new_process_state, FailTaskAfterRetryPrep S (task_ID t) s1)
      | (Inr _, s1) \<Rightarrow> runFreshCycle S W t (Some (pr_ParentCycleID intent)) (Some RetryFresh) s1)"

definition runResumeRetry :: "'s store_ops \<Rightarrow> run_world \<Rightarrow> task \<Rightarrow> pending_retry \<Rightarrow> 's \<Rightarrow> 's run" where
  "runResumeRetry S W t intent s =
     (case LoadCheckpointFromParent S (pr_ParentCycleID intent) s of
        (Inl e, s1) \<Rightarrow> (new_process_state, FailTaskAfterRetryPrep S (task_ID t) s1)
      | (Inr cp, s1) \<Rightarrow>
          let ps = new_process_state\<lparr>ps_previouslyPassed := harnessVerdictsFromResume (rk_PreviouslyPassed cp),
                     ps_verifyFeedback := rk_VerifyFeedback cp\<rparr> in
          (case startCycle S W t (Some (pr_ParentCycleID intent)) (Some RetryResume) (ps, s1) of
             (None, ps2, s2) \<Rightarrow> (ps2, bestEffortFailTask S (task_ID t) s2)
           | (Some c, ps2, s2) \<Rightarrow>
               let go = (\<lambda>s'. enter_loop S W (rk_Entry cp = EntryVerifyOnly) (rk_Continuation cp) t c (load_snapshot S t (ps2, s'))) in
               if rk_Entry cp \<noteq> EntryVerifyOnly then go s2
               else (case SeedCrossCycleExecuteFromParent S c (pr_ParentCycleID intent) s2 of
                       (Inl e, s3) \<Rightarrow> (ps2, FailTaskAfterRetryPrep S (task_ID t) s3)
                     | (Inr _, s3) \<Rightarrow>
                         (case MirrorParentCriteriaForVerifyOnly S (cycle_ID c) (pr_ParentCycleID intent) s3 of
                            (Inl e, s4) \<Rightarrow> (ps2, FailTaskAfterRetryPrep S (task_ID t) s4)
                          | (Inr _, s4) \<Rightarrow> go s4))))"

definition RunWithRetry :: "'s store_ops \<Rightarrow> run_world \<Rightarrow> reset_world \<Rightarrow> task \<Rightarrow> pending_retry option \<Rightarrow> 's \<Rightarrow> 's run" where
  "RunWithRetry S W Z t intent s =
     (case intent of
        None \<Rightarrow> runFreshCycle S W t None None s
      | Some _ \<Rightarrow>
          (case PendingRetry_Validate intent of
             Inl e \<Rightarrow> (new_process_state, FailTaskAfterRetryPrep S (task_ID t) s)
           | Inr i \<Rightarrow>
               if pr_Mode i = RetryFresh then runFreshRetry S W Z t i s
               else if pr_Mode i = RetryResume then runResumeRetry S W t i s
               else (new_process_state, FailTaskAfterRetryPrep S (task_ID t) s)))"

section \<open>After a restart (resume.go)\<close>

definition Resume :: "'s store_ops \<Rightarrow> run_world \<Rightarrow> task \<Rightarrow> task_cycle \<Rightarrow> 's \<Rightarrow> 's run" where
  "Resume S W t c s =
     (case ReconstructCheckpoint S c s of
        (Inl e, s1) \<Rightarrow> (new_process_state, bestEffortFailTask S (task_ID t) s1)
      | (Inr cp, s1) \<Rightarrow>
          let ps = new_process_state\<lparr>ps_cycleID := cycle_ID c, ps_cycleStarted := True,
                     ps_previouslyPassed := harnessVerdictsFromResume (rk_PreviouslyPassed cp),
                     ps_verifyAttempt := rk_VerifyAttempt cp, ps_verifyFeedback := rk_VerifyFeedback cp\<rparr> in
          enter_loop S W (rk_Entry cp = EntryVerifyOnly \<or> rk_Entry cp = EntryAfterExecuteSuccess) None t c
            (load_snapshot S t (ps, s1)))"

end
