(* ===== verification/Harness_Guard.thy ===== *)
theory Harness_Guard
  imports Harness_Laws Harness_Run
begin

text \<open>
  Whatever the runner, git, the report files and the store answer, a run of the harness keeps a predicate
  that each of its store calls keeps: the client lemmas of the locales \<open>quiet_store\<close> (the functions between the
  steps of an attempt), \<open>guarded_store\<close> (which does not allow the task to be marked done) and
  \<open>fully_guarded_store\<close>, function by function.
\<close>

lemma snd_law: "Q (snd p) \<Longrightarrow> p = (r, s') \<Longrightarrow> Q s'"
  by simp

context quiet_store
begin

lemmas snd_inv = snd_law[where Q = inv]

lemmas quiet_kept = quiet_keeps[THEN snd_inv, rotated]

section \<open>Quiet functions\<close>

lemma persistProgress_keeps [intro]: "inv s \<Longrightarrow> inv (persistProgress S t c n ev s)"
  by (simp add: persistProgress_def Let_def quiet_keeps)

lemma persist_all_keeps [intro]: "inv s \<Longrightarrow> inv (persist_all S t c n evs s)"
  by (induction evs arbitrary: s) (simp_all add: persist_all_def persistProgress_keeps)

lemma LoadSnapshot_keeps: "inv s \<Longrightarrow> inv (snd (LoadSnapshot S t s))"
  by (auto simp: LoadSnapshot_def Let_def split: prod.split sum.split dest: quiet_kept)

lemma complete_items_keeps: "inv s \<Longrightarrow> inv (snd (complete_items S t its s))"
  by (induction its arbitrary: s) (auto split: prod.split sum.split dest: quiet_kept)

lemma CompleteChecklistLegacy_keeps: "inv s \<Longrightarrow> inv (snd (CompleteChecklistLegacy S t s))"
  by (auto simp: CompleteChecklistLegacy_def split: prod.split sum.split dest: quiet_kept intro: complete_items_keeps)

lemma ApplyVerifiedCompletions_keeps: "inv s \<Longrightarrow> inv (snd (ApplyVerifiedCompletions S t c vs s))"
  by (induction vs arbitrary: s) (auto split: prod.split sum.split dest: quiet_kept)

lemma loadCriteriaSelfReport_keeps: "inv s \<Longrightarrow> inv (snd (loadCriteriaSelfReport S f c n xs s))"
  by (auto simp: loadCriteriaSelfReport_def Let_def split: prod.split sum.split option.split report_err.split dest: quiet_kept)

lemma runLLMVerifyAgent_keeps: "inv s \<Longrightarrow> inv (snd (runLLMVerifyAgent S it t c n s))"
  by (auto simp: runLLMVerifyAgent_def Let_def)

lemma conclude_checks_keeps: "inv s \<Longrightarrow> inv (snd (conclude_checks S c n pp vs s))"
  by (simp add: conclude_checks_def Let_def persistVerifyReports_def quiet_keeps)

lemma runVerifyChecks_keeps:
  assumes "inv s" shows "inv (snd (runVerifyChecks S it t c n m snap pp s))"
proof -
  obtain rep s1 where l: "loadCriteriaSelfReport S (it_ReportAtVerify it) c m (expected_ids (vs_Criteria snap) pp) s = (rep, s1)"
    by (metis surj_pair)
  have i1: "inv s1" using loadCriteriaSelfReport_keeps[OF assms] l by (metis snd_conv)
  then have i2: "inv (snd (PersistCriteriaReports S c m (vs_Criteria snap) pp sr s1))" for sr
    by (simp add: PersistCriteriaReports_def quiet_keeps)
  have i3: "inv s3" if "runLLMVerifyAgent S it t c n (snd (PersistCriteriaReports S c m (vs_Criteria snap) pp sr s1)) = (e, s3)" for sr e s3
    using runLLMVerifyAgent_keeps[OF i2] that by (metis snd_conv)
  show ?thesis using l i1 i2
    by (auto simp: runVerifyChecks_def Let_def conclude_checks_keeps split: sum.split option.split prod.split dest: i3)
qed

lemma emitOnTaskDone_keeps: "inv s \<Longrightarrow> inv (emitOnTaskDone S t c s)"
  by (auto simp: emitOnTaskDone_def split: prod.split dest: quiet_kept intro: quiet_keeps)

lemma IngestExecuteCommits_keeps: "inv s \<Longrightarrow> inv (snd (IngestExecuteCommits S f a t c n g s))"
  by (auto simp: IngestExecuteCommits_def split: sum.split report_err.split option.split prod.split dest: quiet_kept)

lemma PriorCycleBaseSHA_keeps: "inv s \<Longrightarrow> inv (snd (PriorCycleBaseSHA S c n s))"
  by (auto simp: PriorCycleBaseSHA_def split: sum.split option.split prod.split dest: quiet_kept)

lemma run_agent_keeps: "inv s \<Longrightarrow> inv (snd (run_agent S it t c n s))"
  by (auto simp: run_agent_def Let_def)

lemma resolveFreshRetryAnchor_keeps: "inv s \<Longrightarrow> inv (snd (resolveFreshRetryAnchor S f p s))"
  by (auto simp: resolveFreshRetryAnchor_def Let_def split: prod.split sum.split list.split option.split dest: quiet_kept)

lemma ResetForFreshRetry_keeps: "inv s \<Longrightarrow> inv (snd (ResetForFreshRetry S w h f ok p s))"
  by (auto simp: ResetForFreshRetry_def split: prod.split sum.split git_out.split
      dest: resolveFreshRetryAnchor_keeps[THEN snd_inv, rotated])

end

context guarded_store
begin

lemmas kept = keeps[THEN snd_inv, rotated]

lemma run_inv: "inv (snd (snd p)) \<Longrightarrow> p = (x, ps, s) \<Longrightarrow> inv s"
  by simp

section \<open>The verify phase\<close>

lemma RunPipeline_keeps:
  assumes "inv s" "RunPipeline S it t c snap n pp f g p s = (x, p', s')" shows "inv s'"
proof (cases "vs_Enabled snap")
  case True
  obtain rp s1 where q: "so_StartPhase S c PhaseVerify s = (rp, s1)" by (metis surj_pair)
  have i1: "inv s1" using q assms(1) by (rule kept)
  show ?thesis
  proof (cases rp)
    case (Inl e)
    then show ?thesis using q assms(2) True i1 by (simp add: RunPipeline_def)
  next
    case (Inr ph)
    obtain vs fb ve' where x: "x = (vs, fb, ve')" by (cases x)
    show ?thesis by (rule RunPipeline_started[OF True q[unfolded Inr] assms(2)[unfolded x]])
        (metis runVerifyChecks_keeps[OF i1] keep_CompletePhase snd_conv)
  qed
qed (use assms in \<open>simp add: RunPipeline_def\<close>)

section \<open>Steps\<close>

lemma bestEffortFailTask_keeps [intro]: "inv s \<Longrightarrow> inv (bestEffortFailTask S t s)"
  by (simp add: bestEffortFailTask_def keeps)

lemma close_out_keeps: "inv (snd r) \<Longrightarrow> inv (snd (close_out S t st reason r))"
  by (cases r) (auto simp: close_out_def Let_def keeps)

lemma startCycle_keeps: "inv (snd r) \<Longrightarrow> inv (snd (snd (startCycle S W t p m r)))"
  by (cases r) (auto simp: startCycle_def split: prod.split sum.split dest: kept)

lemma startExecutePhase_keeps: "inv (snd r) \<Longrightarrow> inv (snd (snd (startExecutePhase S c r)))"
  by (cases r) (auto simp: startExecutePhase_def split: prod.split sum.split dest: kept)

lemma completeExecutePhase_keeps: "inv (snd r) \<Longrightarrow> inv (snd (snd (completeExecutePhase S c e st su d r)))"
  by (cases r) (auto simp: completeExecutePhase_def split: prod.split sum.split dest: kept)

lemma terminateCycle_keeps: "inv (snd r) \<Longrightarrow> inv (snd (snd (terminateCycle S st reason r)))"
  by (cases r) (auto simp: terminateCycle_def split: prod.split sum.split dest: kept)

lemma settle_failed_keeps:
  assumes "inv (snd r)" shows "inv (snd (snd (settle S t st reason StatusFailed r)))"
  using terminateCycle_keeps[OF assms, of st reason]
  by (auto simp: settle_def transitionTask_def split: prod.split sum.split bool.split dest: kept)

lemma applyExecuteEffects_keeps:
  assumes "inv (snd r)"
  shows "inv (snd (snd (applyExecuteEffects S W t c e res eff n snap oc si r)))"
proof (cases "ee_StopLoop eff")
  case True
  then show ?thesis using assms by (simp add: applyExecuteEffects_def handleShutdownAfterRun_def close_out_keeps)
next
  case False
  let ?su = "if ee_TerminateFailed eff \<and> ee_ResultSummary eff \<noteq> [] then ee_ResultSummary eff
     else overlayOperatorCancelOnResult (ra_Summary res) oc eff"
  let ?d2 = "MergeCriteriaReportProbeErr (MergeRunnerDetailsWithGit (detailsBytes (ra_Details res)) snap n) (ps_reportParseErr (fst r))"
  let ?d3 = "if si \<and> ee_ContinueToVerify eff then mergeStreamIdleRecoveryDetails ?d2 (rw_StreamIdleStuck W) else ?d2"
  obtain ok r1 where q: "completeExecutePhase S c e (executePhaseStatusFromEffects eff) ?su ?d3 r = (ok, r1)"
    by (metis surj_pair)
  have "inv (snd r1)" using completeExecutePhase_keeps[OF assms(1)] q by (metis snd_conv)
  then show ?thesis using False q
    by (simp add: applyExecuteEffects_def Let_def bestEffortTerminate_def close_out_keeps settle_failed_keeps terminateCycle_keeps
        split: bool.split)
qed

lemma applyVerifyEffects_keeps: "inv (snd r) \<Longrightarrow> inv (snd (snd (applyVerifyEffects S t eff reason r)))"
  by (simp add: applyVerifyEffects_def settle_failed_keeps)

lemma runCycleLoopExecute_keeps:
  assumes "inv (snd r)" shows "inv (snd (snd (runCycleLoopExecute S W k t c r)))"
proof -
  let ?it = "rw_iter W k"
  obtain eo ps1 s0 where st: "startExecutePhase S c r = (eo, ps1, s0)" by (metis surj_pair)
  have i0: "inv s0" using startExecutePhase_keeps[OF assms, of c] st by simp
  show ?thesis
  proof (cases eo)
    case None
    then show ?thesis using st i0 by (simp add: runCycleLoopExecute_def bestEffortTerminate_def close_out_keeps)
  next
    case (Some exec)
    obtain base s1 where base: "PriorCycleBaseSHA S (cycle_ID c) (ph_PhaseSeq exec) s0 = (base, s1)" by (metis surj_pair)
    have i1: "inv s1" using PriorCycleBaseSHA_keeps[OF i0] base by (metis snd_conv)
    show ?thesis
    proof (cases "CaptureExecuteGitSnapshot (trim_space (rw_WorkingDir W)) (rw_WorkingDir W) base (it_GitHead ?it)
        (it_GitTop ?it) (it_GitBranch ?it) (it_GitAt ?it)")
      case None
      then show ?thesis using st Some base i1 by (simp add: runCycleLoopExecute_def bestEffortTerminate_def close_out_keeps)
    next
      case snap: (Some snap)
      obtain res s2 where run: "run_agent S ?it (task_ID t) c (ph_PhaseSeq exec) s1 = (res, s2)" by (metis surj_pair)
      have i2: "inv s2" using run_agent_keeps[OF i1] run by (metis snd_conv)
      show ?thesis
        by (rule execute_round[OF st[unfolded Some] base snap run])
           (metis IngestExecuteCommits_keeps[OF i2] i2 persistProgress_keeps applyExecuteEffects_keeps snd_conv)
    qed
  qed
qed

lemma runCycleLoopVerify_keeps:
  assumes "inv (snd r)" "runCycleLoopVerify S W k t c r = ((retry, term, skp), r')" shows "inv (snd r')"
proof -
  obtain ps s where r: "r = (ps, s)" by (cases r)
  show ?thesis
  proof (cases "vs_Enabled (ps_verifySnap ps)")
    case True
    show ?thesis
      by (rule verify_round[OF True assms(2)[unfolded r]])
         (metis RunPipeline_keeps applyVerifyEffects_keeps assms(1) r snd_conv)
  next
    case False
    obtain x s1 where l: "CompleteChecklistLegacy S (task_ID t) s = (x, s1)" by (metis surj_pair)
    then have "inv s1" using CompleteChecklistLegacy_keeps[of s "task_ID t"] assms(1) r by simp
    then have "inv (snd (snd (applyVerifyEffects S t eff reason (ps, s1))))" for eff reason
      by (simp add: applyVerifyEffects_keeps)
    then show ?thesis using assms(2) l False r
      by (simp add: runCycleLoopVerify_def VerifyDisabled_def Let_def split: prod.splits) (metis snd_conv)
  qed
qed


section \<open>Checkpoints (internal/resume, internal/git/reset.go)\<close>

lemma loadVerifyCheckpointData_keeps: "inv s \<Longrightarrow> inv (snd (loadVerifyCheckpointData S c s))"
  by (auto simp: loadVerifyCheckpointData_def Let_def split: prod.split sum.split dest: kept)

lemma ReconstructCheckpoint_keeps: "inv s \<Longrightarrow> inv (snd (ReconstructCheckpoint S c s))"
  by (auto simp: ReconstructCheckpoint_def split: prod.split sum.split
      dest: kept loadVerifyCheckpointData_keeps[THEN snd_inv, rotated])

lemma LoadContinuationBundle_keeps: "inv s \<Longrightarrow> inv (snd (LoadContinuationBundle S c s))"
  by (auto simp: LoadContinuationBundle_def Let_def split: prod.split sum.split)
     (blast dest: kept loadVerifyCheckpointData_keeps[THEN snd_inv, rotated])+

lemma LoadCheckpointFromParent_keeps: "inv s \<Longrightarrow> inv (snd (LoadCheckpointFromParent S c s))"
  by (auto simp: LoadCheckpointFromParent_def split: prod.split sum.split
      dest: LoadContinuationBundle_keeps[THEN snd_inv, rotated])

lemma SeedCrossCycleExecuteFromParent_keeps: "inv s \<Longrightarrow> inv (snd (SeedCrossCycleExecuteFromParent S c p s))"
  by (auto simp: SeedCrossCycleExecuteFromParent_def split: prod.split sum.split option.split dest: kept intro: keeps)

lemma mirror_attempts_keeps: "inv s \<Longrightarrow> inv (snd (mirror_attempts S c rows ns s))"
  by (induction ns arbitrary: s) (auto split: prod.split sum.split dest: kept)

lemma MirrorParentCriteriaForVerifyOnly_keeps: "inv s \<Longrightarrow> inv (snd (MirrorParentCriteriaForVerifyOnly S c p s))"
  by (auto simp: MirrorParentCriteriaForVerifyOnly_def split: prod.split sum.split dest: kept intro: mirror_attempts_keeps)

lemma FailTaskAfterRetryPrep_keeps: "inv s \<Longrightarrow> inv (FailTaskAfterRetryPrep S t s)"
  by (simp add: FailTaskAfterRetryPrep_def keeps)

lemma load_snapshot_keeps: "inv (snd r) \<Longrightarrow> inv (snd (load_snapshot S t r))"
  by (cases r) (auto simp: load_snapshot_def split: prod.split sum.split dest: LoadSnapshot_keeps[THEN snd_inv, rotated])

end

context fully_guarded_store
begin

section \<open>Whole runs\<close>

lemma runCycleLoopFinalizeSuccess_keeps:
  assumes "inv (snd r)" shows "inv (snd (runCycleLoopFinalizeSuccess S W t c r))"
proof -
  obtain ps s where r: "r = (ps, s)" by (cases r)
  obtain x s1 where a: "ApplyVerifiedCompletions S (task_ID t) (cycle_ID c) (unionPreviouslyPassedVerdicts W ps) s = (x, s1)"
    by (metis surj_pair)
  have i1: "inv s1" using ApplyVerifiedCompletions_keeps a assms r by (metis snd_conv)
  let ?eff = "DecideFinalizeSuccess (case x of Inl _ \<Rightarrow> True | Inr _ \<Rightarrow> False)"
  have "inv (snd (snd (settle S t st reason nx (ps, s1))))" if "nx = StatusDone \<or> nx = StatusFailed" for st reason nx
    using terminateCycle_keeps[of "(ps, s1)" st reason] i1 that
    by (auto simp: settle_def transitionTask_def split: prod.split sum.split bool.split
        dest: kept keep_Done[THEN snd_inv, rotated])
  moreover have "fe_TaskStatus ?eff = StatusDone \<or> fe_TaskStatus ?eff = StatusFailed" by (simp add: DecideFinalizeSuccess_def)
  ultimately have "inv (snd (snd (applyFinalizeEffects S t c ?eff (ps, s1))))"
    by (simp add: applyFinalizeEffects_def split: prod.split bool.split) (metis emitOnTaskDone_keeps snd_conv)
  then show ?thesis using r a by (simp add: runCycleLoopFinalizeSuccess_def)
qed

lemma runCycleLoop_keeps: "inv (snd r) \<Longrightarrow> inv (snd (runCycleLoop S W k skp t c r))"
proof (induction "loop_measure (fst r)" arbitrary: r k skp rule: less_induct)
  case less
  obtain go r1 where e: "(if skp then (True, r) else runCycleLoopExecute S W k t c r) = (go, r1)" by (metis surj_pair)
  have i1: "inv (snd r1)" using e less.prems runCycleLoopExecute_keeps by (metis snd_conv)
  obtain retry trm skn r2 where v: "runCycleLoopVerify S W k t c r1 = ((retry, trm, skn), r2)" by (metis surj_pair)
  have i2: "inv (snd r2)" using runCycleLoopVerify_keeps[OF i1 v] .
  show ?case
  proof (cases "go \<and> retry")
    case True
    then have "loop_measure (fst r2) < loop_measure (fst r)" using loop_descends e v by metis
    then have "inv (snd (runCycleLoop S W (Suc k) skn t c r2))" using less.hyps i2 by blast
    then show ?thesis using True by (simp add: loop_round[OF e v])
  next
    case False
    then show ?thesis using i1 i2 runCycleLoopFinalizeSuccess_keeps[OF i2] by (simp add: loop_round[OF e v])
  qed
qed

lemma enter_loop_keeps: "inv (snd r) \<Longrightarrow> inv (snd (enter_loop S W skp b t c r))"
  by (cases r) (simp add: enter_loop_def runCycleLoop_keeps)

lemma runFreshCycle_keeps:
  assumes "inv s" shows "inv (snd (runFreshCycle S W t p m s))"
proof -
  obtain co r1 where q: "startCycle S W t p m (new_process_state, s) = (co, r1)" by (metis surj_pair)
  have "inv (snd r1)" using startCycle_keeps[of "(new_process_state, s)"] assms q by (metis snd_conv)
  then show ?thesis using q
    by (cases r1) (auto simp: runFreshCycle_def enter_loop_keeps load_snapshot_keeps split: option.split)
qed

lemma runFreshRetry_keeps:
  assumes "inv s" shows "inv (snd (runFreshRetry S W Z t i s))"
  using assms ResetForFreshRetry_keeps[THEN snd_inv, rotated]
  by (auto simp: runFreshRetry_def FailTaskAfterRetryPrep_keeps runFreshCycle_keeps split: prod.split sum.split)

lemma startCycle_inv: "startCycle S W t p m (ps0, s) = (co, ps, s') \<Longrightarrow> inv s \<Longrightarrow> inv s'"
  using startCycle_keeps[of "(ps0, s)" W t p m] by simp

lemma runResumeRetry_keeps:
  assumes "inv s" shows "inv (snd (runResumeRetry S W t i s))"
proof -
  have go: "inv s' \<Longrightarrow> inv (snd (enter_loop S W b k t c (load_snapshot S t (ps, s'))))" for b k c ps s'
    by (simp add: enter_loop_keeps load_snapshot_keeps)
  note laws = LoadCheckpointFromParent_keeps[THEN snd_inv, rotated] SeedCrossCycleExecuteFromParent_keeps[THEN snd_inv, rotated]
    MirrorParentCriteriaForVerifyOnly_keeps[THEN snd_inv, rotated] startCycle_inv
  show ?thesis using assms
    by (simp add: runResumeRetry_def Let_def split: prod.split sum.split option.split)
       (blast dest: laws intro: go FailTaskAfterRetryPrep_keeps bestEffortFailTask_keeps)
qed

lemma RunWithRetry_keeps: "inv s \<Longrightarrow> inv (snd (RunWithRetry S W Z t intent s))"
  by (auto simp: RunWithRetry_def runFreshCycle_keeps runFreshRetry_keeps runResumeRetry_keeps FailTaskAfterRetryPrep_keeps
      split: option.split sum.split)

lemma Resume_keeps: "inv s \<Longrightarrow> inv (snd (Resume S W t c s))"
  by (auto simp: Resume_def Let_def split: prod.split sum.split intro!: enter_loop_keeps load_snapshot_keeps
      dest: ReconstructCheckpoint_keeps[THEN snd_inv, rotated])

end

section \<open>Passes without evidence\<close>

text \<open>A store that refuses a completion without evidence (unless it is a legacy one), and not with
  \<open>ErrNotFound\<close>, which the harness skips.\<close>

locale evidence_store = guarded_store +
  assumes evidence_required:
    "vk \<noteq> VerifierLegacy \<Longrightarrow> \<exists>e s'. so_SetItemDoneWithEvidence S t i [] vk rs c s = (Inl e, s') \<and> e \<noteq> ErrNotFound"

definition unproved :: "verdict \<Rightarrow> bool" where
  "unproved v \<longleftrightarrow> vt_Passed v \<and> vt_Evidence v = [] \<and> vt_Verifier v \<noteq> VerifierLegacy"

definition unproved_pass :: "process_state \<Rightarrow> bool" where
  "unproved_pass ps \<longleftrightarrow> (\<exists>v \<in> snd ` set (ps_previouslyPassed ps). unproved v)"

lemma unproved_pass_carried: "unproved_pass ps \<Longrightarrow> set (ps_previouslyPassed ps) \<subseteq> set (ps_previouslyPassed ps') \<Longrightarrow> unproved_pass ps'"
  by (auto simp: unproved_pass_def)

context evidence_store
begin

lemma ApplyVerifiedCompletions_refused:
  "\<exists>v\<in>set vs. unproved v \<Longrightarrow> \<exists>e s'. ApplyVerifiedCompletions S t c vs s = (Inl e, s')"
proof (induction vs arbitrary: s)
  case (Cons v vs)
  obtain x s1 where x: "so_SetItemDoneWithEvidence S t (vt_ID v) (vt_Evidence v) (vt_Verifier v) (vt_Reasoning v) c s = (x, s1)"
    by (metis surj_pair)
  show ?case
  proof (cases "unproved v")
    case True
    then have "\<exists>e. x = Inl e \<and> e \<noteq> ErrNotFound"
      using evidence_required[of "vt_Verifier v" t "vt_ID v" "vt_Reasoning v" c s] x by (auto simp: unproved_def)
    moreover have "vt_Passed v" using True by (simp add: unproved_def)
    ultimately show ?thesis using x by auto
  next
    case False
    then show ?thesis using Cons x by (auto split: sum.split)
  qed
qed simp

text \<open>With such a pass the run can only end with the task failed.\<close>

lemma runCycleLoopFinalizeSuccess_refused:
  assumes "inv (snd r)" "unproved_pass (fst r)" "\<And>xs. set xs \<subseteq> set (rw_order W xs)"
  shows "inv (snd (runCycleLoopFinalizeSuccess S W t c r))"
proof -
  obtain ps s where r: "r = (ps, s)" by (cases r)
  have "\<exists>v\<in>set (unionPreviouslyPassedVerdicts W ps). unproved v"
    using assms(2) assms(3)[of "map snd (ps_previouslyPassed ps)"] r
    by (auto simp: unproved_pass_def unionPreviouslyPassedVerdicts_def)
  then obtain e s1 where a: "ApplyVerifiedCompletions S (task_ID t) (cycle_ID c) (unionPreviouslyPassedVerdicts W ps) s = (Inl e, s1)"
    using ApplyVerifiedCompletions_refused by blast
  then have "inv s1" using ApplyVerifiedCompletions_keeps assms(1) r by (metis snd_conv)
  then have "inv (snd (snd (settle S t st reason StatusFailed (ps, s1))))" for st reason by (simp add: settle_failed_keeps)
  then show ?thesis using r a
    by (auto simp: runCycleLoopFinalizeSuccess_def applyFinalizeEffects_def DecideFinalizeSuccess_def split: prod.split bool.split)
       (metis snd_conv)+
qed

lemma runCycleLoop_refused:
  "inv (snd r) \<Longrightarrow> unproved_pass (fst r) \<Longrightarrow> (\<And>xs. set xs \<subseteq> set (rw_order W xs)) \<Longrightarrow> inv (snd (runCycleLoop S W k skp t c r))"
proof (induction "loop_measure (fst r)" arbitrary: r k skp rule: less_induct)
  case less
  obtain go r1 where e: "(if skp then (True, r) else runCycleLoopExecute S W k t c r) = (go, r1)" by (metis surj_pair)
  have i1: "inv (snd r1)" using e less.prems(1) runCycleLoopExecute_keeps by (metis snd_conv)
  have "carried (fst r) (fst r1)" using e runCycleLoopExecute_carried[of r S W k t c] by (auto split: if_splits)
  then have u1: "unproved_pass (fst r1)" using unproved_pass_carried less.prems(2) by (auto simp: carried_def)
  obtain retry trm skn r2 where v: "runCycleLoopVerify S W k t c r1 = ((retry, trm, skn), r2)" by (metis surj_pair)
  have i2: "inv (snd r2)" using runCycleLoopVerify_keeps[OF i1 v] .
  have u2: "unproved_pass (fst r2)"
    using runCycleLoopVerify_carried[OF v] unproved_pass_carried[OF u1] by (auto simp: carried_def split: if_splits)
  show ?case
  proof (cases "go \<and> retry")
    case True
    then have "loop_measure (fst r2) < loop_measure (fst r)" using loop_descends e v by metis
    then have "inv (snd (runCycleLoop S W (Suc k) skn t c r2))" using less.hyps i2 u2 less.prems(3) by blast
    then show ?thesis using True by (simp add: loop_round[OF e v])
  next
    case False
    then show ?thesis using i1 i2 runCycleLoopFinalizeSuccess_refused[OF i2 u2 less.prems(3)] by (simp add: loop_round[OF e v])
  qed
qed

end

end
