(* ===== verification/Harness_Attempts.thy ===== *)
theory Harness_Attempts
  imports Harness_Guard
begin

text \<open>
  On a store whose calls succeed when the protocol of cycles and phases allows them, a run of the harness
  settles the task: whatever the agents, git and the report files answer, at the end no cycle of the task
  is running and the task is failed or done. \<open>attempt_store\<close> states what the harness relies on for one task,
  abstractly: the state of its attempt (idle, a cycle open, a phase of it busy), its status, its criteria and
  which of them have a valid completion.
\<close>

section \<open>The contract\<close>

datatype attempt = Idle | Opened string | Busy string int

definition normal_details :: "payload \<Rightarrow> bool" where
  "normal_details d \<longleftrightarrow> (\<exists>obj. NormalizeJSONObject d ''details'' = Inr obj)"

text \<open>A verify pass without error has a passed verdict for every criterion.\<close>

lemma conclude_checks_pass:
  "conclude_checks S c m pp vs0 s = ((vs, fb, None), s') \<Longrightarrow> vs = vs0 \<and> (\<forall>v\<in>set vs. vt_Passed v)"
  by (auto simp: conclude_checks_def Let_def failure_texts_def filter_empty_conv split: if_splits)

lemma first_verdict_ids:
  assumes "set pp \<subseteq> own_passes" shows "vt_ID (first_verdict pp sr it) = vi_ID it"
  using assms map_of_SomeD[of pp "vi_ID it"] by (fastforce simp: first_verdict_def own_passes_def Let_def split: option.split)

lemma judge_id [simp]: "vt_ID (judge pp sr vrep v) = vt_ID v"
  by (simp add: judge_def Let_def)

lemma runVerifyChecks_pass:
  assumes own: "set pp \<subseteq> own_passes" and p: "runVerifyChecks S it t c n m snap pp s = ((vs, fb, None), s')"
  shows "map vt_ID vs = map vi_ID (vs_Criteria snap) \<and> (\<forall>v\<in>set vs. vt_Passed v)"
proof -
  have f: "map vt_ID (map (first_verdict pp sr) cs) = map vi_ID cs" for sr cs using first_verdict_ids[OF own] by simp
  have j: "map vt_ID vs1 = map vi_ID (vs_Criteria snap)"
    if "assembleVerdictsFromVerifyReport doc ids (map (first_verdict pp sr) (vs_Criteria snap)) sr pp = Inr vs1" for doc ids sr vs1
    using that f by (auto simp: assembleVerdictsFromVerifyReport_def comp_def split: sum.splits)
  have e: "verifyLLMRunError re (Some x) \<noteq> None" for re x by (simp add: verifyLLMRunError_def)
  from p obtain sr s1 vs0 where c: "conclude_checks S c m pp vs0 s1 = ((vs, fb, None), s')"
    "vs0 = map (first_verdict pp sr) (vs_Criteria snap) \<or>
     (\<exists>doc ids. assembleVerdictsFromVerifyReport doc ids (map (first_verdict pp sr) (vs_Criteria snap)) sr pp = Inr vs0)"
    by (auto simp: runVerifyChecks_def Let_def e split: prod.splits sum.splits if_splits option.splits) blast
  then have "map vt_ID vs0 = map vi_ID (vs_Criteria snap)" using f j by blast
  then show ?thesis using conclude_checks_pass[OF c(1)] by simp
qed

lemma recordPassed_locks:
  "v \<in> set vs \<Longrightarrow> vt_Passed v \<Longrightarrow> locked (recordPassedCriterionVerdicts vs pp) (vt_ID v)"
proof (induction vs arbitrary: pp)
  case (Cons w vs)
  define pp' where "pp' = (if \<not> vt_Passed w then pp else if locked pp (vt_ID w) then pp else pp @ [(vt_ID w, w)])"
  have r: "recordPassedCriterionVerdicts (w # vs) pp = recordPassedCriterionVerdicts vs pp'"
    by (simp add: recordPassedCriterionVerdicts_def pp'_def)
  show ?case
  proof (cases "v = w")
    case True
    then have "locked pp' (vt_ID v)" using Cons.prems(2) by (auto simp: pp'_def map_of_eq_None_iff)
    then show ?thesis using recordPassed_grows[of pp' vs] unfolding r by (auto simp: map_of_eq_None_iff)
  next
    case False
    then show ?thesis using Cons unfolding r by simp
  qed
qed simp

text \<open>What the functions of the loop leave alone in the process state.\<close>

definition pointers :: "process_state \<Rightarrow> string \<times> bool \<times> int" where
  "pointers ps = (ps_cycleID ps, ps_cycleStarted ps, ps_runningPhaseSeq ps)"

lemma pointers_same [simp]:
  "pointers (ps\<lparr>ps_gitSnap := g\<rparr>) = pointers ps"
  "pointers (probeCriteriaReport f ps) = pointers ps"
  "pointers (anchorPostExecuteState n g' a i h ps) = pointers ps"
  "pointers (after_pipeline vs fb e ps) = pointers ps"
  by (auto simp: pointers_def probeCriteriaReport_def anchorPostExecuteState_def after_pipeline_def Let_def
      split: sum.split head_answer.split)

text \<open>\<open>I\<close> are the ids of the criteria of task \<open>t\<close>, \<open>has s i\<close> that criterion \<open>i\<close> has a valid completion.\<close>

locale attempt_store =
  fixes S :: "'s store_ops" and t :: string and I :: "string set"
    and ok :: "'s \<Rightarrow> bool" and att :: "'s \<Rightarrow> attempt" and stat :: "'s \<Rightarrow> status option" and has :: "'s \<Rightarrow> string \<Rightarrow> bool"
  assumes quiet: "quiet_store S (\<lambda>s. ok s \<and> att s = A \<and> stat s = X \<and> (\<forall>i\<in>H. has s i))"
    and update_failed: "ok s \<Longrightarrow>
      \<exists>s'. so_Update S t StatusFailed s = (Inr (), s') \<and> ok s' \<and> att s' = att s \<and> stat s' = Some StatusFailed"
    and update_done: "ok s \<Longrightarrow> \<forall>i\<in>I. has s i \<Longrightarrow>
      \<exists>s'. so_Update S t StatusDone s = (Inr (), s') \<and> ok s' \<and> att s' = att s \<and> stat s' = Some StatusDone"
    and start_cycle: "ok s \<Longrightarrow> att s = Idle \<Longrightarrow> sci_TaskID sci = t \<Longrightarrow> so_StartCycle S sci s = (rc, s') \<Longrightarrow>
      ok s' \<and> (case rc of Inl _ \<Rightarrow> att s' = Idle | Inr c \<Rightarrow> cycle_ID c \<noteq> [] \<and> att s' = Opened (cycle_ID c))"
    and start_phase: "ok s \<Longrightarrow> att s = Opened c \<Longrightarrow> so_StartPhase S c ph s = (rp, s') \<Longrightarrow>
      ok s' \<and> (case rp of Inl _ \<Rightarrow> att s' = Opened c | Inr p \<Rightarrow> 0 < ph_PhaseSeq p \<and> att s' = Busy c (ph_PhaseSeq p))"
    and complete_phase: "ok s \<Longrightarrow> att s = Busy c n \<Longrightarrow> TerminalPhaseStatus st \<Longrightarrow> normal_details d \<Longrightarrow>
      \<exists>s'. so_CompletePhase S \<lparr>cpi_CycleID = c, cpi_PhaseSeq = n, cpi_Status = st, cpi_Summary = su, cpi_Details = d,
        cpi_By = ActorAgent\<rparr> s = (Inr (), s') \<and> ok s' \<and> att s' = Opened c"
    and terminate_cycle: "ok s \<Longrightarrow> att s = Opened c \<Longrightarrow> TerminalCycleStatus cs \<Longrightarrow>
      \<exists>s'. so_TerminateCycle S c cs reason s = (Inr (), s') \<and> ok s' \<and> att s' = Idle \<and> (\<forall>i. has s i \<longrightarrow> has s' i)"
    and settings: "ok s \<Longrightarrow> \<exists>x s'. so_GetSettings S s = (Inr x, s')"
    and criteria: "ok s \<Longrightarrow> \<exists>its s'. so_ListChecklistForVerify S t s = (Inr its, s') \<and> vi_ID ` set its = I"
    and subject: "ok s \<Longrightarrow> \<exists>its s'. so_ListChecklistForSubject S t s = (Inr its, s') \<and> iv_ID ` set its = I"
    and evidence: "ok s \<Longrightarrow> so_SetItemDoneWithEvidence S t i ev vk rs c s = (Inr (), s') \<Longrightarrow> has s' i"
    and known: "ok s \<Longrightarrow> i \<in> I \<Longrightarrow> so_SetItemDoneWithEvidence S t i ev vk rs c s \<noteq> (Inl ErrNotFound, s')"
begin

definition calm :: "'s \<Rightarrow> 's \<Rightarrow> bool" where
  "calm s s' \<longleftrightarrow> ok s' \<and> att s' = att s \<and> stat s' = stat s \<and> (\<forall>i. has s i \<longrightarrow> has s' i)"

text \<open>What every quiet predicate keeps does not disturb the attempt.\<close>

lemma calmI: "ok s \<Longrightarrow> (\<And>inv. quiet_store S inv \<Longrightarrow> inv s \<Longrightarrow> inv s') \<Longrightarrow> calm s s'"
proof -
  assume ok: "ok s" and keep: "\<And>inv. quiet_store S inv \<Longrightarrow> inv s \<Longrightarrow> inv s'"
  from keep[OF quiet[where A = "att s" and X = "stat s" and H = "{i. has s i}"]] ok show "calm s s'" by (simp add: calm_def)
qed

lemma calm_trans: "calm a b \<Longrightarrow> calm b c \<Longrightarrow> calm a c"
  by (simp add: calm_def)

text \<open>The harness remembers the attempt as it is.\<close>

definition linked :: "process_state \<Rightarrow> 's \<Rightarrow> bool" where
  "linked ps s \<longleftrightarrow> ok s \<and> ps_cycleStarted ps \<and> ps_cycleID ps \<noteq> [] \<and>
     att s = (if 0 < ps_runningPhaseSeq ps then Busy (ps_cycleID ps) (ps_runningPhaseSeq ps) else Opened (ps_cycleID ps))"

lemma linked_pointers: "linked ps s \<Longrightarrow> pointers ps' = pointers ps \<Longrightarrow> linked ps' s"
  by (simp add: linked_def pointers_def)

lemma linked_calm: "linked ps s \<Longrightarrow> calm s s' \<Longrightarrow> linked ps s'"
  by (simp add: linked_def calm_def)

definition settled :: "'s \<Rightarrow> bool" where
  "settled s \<longleftrightarrow> ok s \<and> att s = Idle \<and> (stat s = Some StatusFailed \<or> stat s = Some StatusDone)"

section \<open>Closing an attempt\<close>

lemma fail_settles: "ok s \<Longrightarrow> att s = Idle \<Longrightarrow> settled (bestEffortFailTask S t s)"
  using update_failed[of s] by (auto simp: bestEffortFailTask_def settled_def)

lemma close_out_settles:
  assumes "linked ps s" "TerminalCycleStatus cs"
  shows "settled (snd (close_out S t cs reason (ps, s)))"
proof -
  let ?c = "ps_cycleID ps"
  let ?s1 = "if 0 < ps_runningPhaseSeq ps then snd (so_CompletePhase S (failed_phase_input ps reason) s) else s"
  have "normal_details PBlank" by (simp add: normal_details_def NormalizeJSONObject_def)
  then have s1: "ok ?s1" "att ?s1 = Opened ?c"
    using assms(1) complete_phase[of s ?c "ps_runningPhaseSeq ps" PhaseStatusFailed PBlank "Some reason"]
    by (auto simp: linked_def failed_phase_input_def)
  from terminate_cycle[OF s1 assms(2), of reason] obtain s2 where
    s2: "so_TerminateCycle S ?c cs reason ?s1 = (Inr (), s2)" "ok s2" "att s2 = Idle" by blast
  have "snd (close_out S t cs reason (ps, s)) = bestEffortFailTask S t s2"
    using s2(1) assms(1) by (simp add: close_out_def linked_def split: if_splits)
  then show ?thesis using fail_settles s2 by simp
qed

lemma settle_settles:
  assumes l: "linked ps s" "\<not> 0 < ps_runningPhaseSeq ps" and tk: "task_ID tk = t" and cs: "TerminalCycleStatus cs"
    and nx: "nx = StatusFailed \<or> nx = StatusDone \<and> (\<forall>i\<in>I. has s i)"
  shows "\<exists>ps' s'. settle S tk cs reason nx (ps, s) = (True, ps', s') \<and> settled s'"
proof -
  have o: "ok s" "att s = Opened (ps_cycleID ps)" "ps_cycleID ps \<noteq> []" using l by (auto simp: linked_def)
  from terminate_cycle[OF o(1,2) cs, of reason] obtain s1 where
    s1: "so_TerminateCycle S (ps_cycleID ps) cs reason s = (Inr (), s1)" "ok s1" "att s1 = Idle" "\<forall>i. has s i \<longrightarrow> has s1 i" by blast
  then have "\<exists>s2. so_Update S t nx s1 = (Inr (), s2) \<and> ok s2 \<and> att s2 = Idle \<and> stat s2 = Some nx"
    using nx update_failed[of s1] update_done[of s1] by auto
  then show ?thesis using s1 o nx tk
    by (auto simp: settle_def terminateCycle_def transitionTask_def settled_def)
qed

section \<open>Execute\<close>

lemma step_details_normal:
  "normal_details (let d2 = MergeCriteriaReportProbeErr (MergeRunnerDetailsWithGit (detailsBytes b) g n) e in
     if si then mergeStreamIdleRecoveryDetails d2 k else d2)"
proof -
  have "\<exists>kvs. detailsBytes b = PDoc (JObj kvs)" by (cases b rule: detailsBytes.cases) auto
  then have "\<exists>kvs. MergeRunnerDetailsWithGit (detailsBytes b) g n = PDoc (JObj kvs)" by (auto simp: MergeRunnerDetailsWithGit_def)
  then have "\<exists>kvs. MergeCriteriaReportProbeErr (MergeRunnerDetailsWithGit (detailsBytes b) g n) e = PDoc (JObj kvs)"
    by (auto simp: MergeCriteriaReportProbeErr_def Let_def)
  then show ?thesis by (auto simp: Let_def mergeStreamIdleRecoveryDetails_def normal_details_def NormalizeJSONObject_def)
qed

lemma executePhaseStatus_terminal: "TerminalPhaseStatus (executePhaseStatusFromEffects eff)"
  by (simp add: executePhaseStatusFromEffects_def)

lemma applyExecuteEffects_settles:
  assumes l: "linked ps s" "0 < ps_runningPhaseSeq ps" and c: "ps_cycleID ps = cycle_ID c" "ps_runningPhaseSeq ps = ph_PhaseSeq e"
    and tk: "task_ID tk = t"
    and a: "applyExecuteEffects S W tk c e res (DecideExecutePostRun inp) n snap oc si (ps, s) = (go, ps', s')"
  shows "if go then linked ps' s' \<and> \<not> 0 < ps_runningPhaseSeq ps' \<and> ps_cycleID ps' = cycle_ID c else settled s'"
proof (cases "ee_StopLoop (DecideExecutePostRun inp)")
  case True
  then show ?thesis using a close_out_settles[OF l(1), of CycleStatusAborted ShutdownReason] tk
    by (auto simp: applyExecuteEffects_def handleShutdownAfterRun_def)
next
  case False
  let ?eff = "DecideExecutePostRun inp"
  let ?d = "let d2 = MergeCriteriaReportProbeErr (MergeRunnerDetailsWithGit (detailsBytes (ra_Details res)) snap n) (ps_reportParseErr ps) in
     if si \<and> ee_ContinueToVerify ?eff then mergeStreamIdleRecoveryDetails d2 (rw_StreamIdleStuck W) else d2"
  let ?su = "if ee_TerminateFailed ?eff \<and> ee_ResultSummary ?eff \<noteq> [] then ee_ResultSummary ?eff
     else overlayOperatorCancelOnResult (ra_Summary res) oc ?eff"
  have "att s = Busy (cycle_ID c) (ph_PhaseSeq e)" "ok s" using l c by (auto simp: linked_def)
  from complete_phase[OF this(2,1) executePhaseStatus_terminal step_details_normal, of ?eff "if ?su = [] then None else Some ?su"]
  obtain s1 where s1: "so_CompletePhase S \<lparr>cpi_CycleID = cycle_ID c, cpi_PhaseSeq = ph_PhaseSeq e,
      cpi_Status = executePhaseStatusFromEffects ?eff, cpi_Summary = (if ?su = [] then None else Some ?su),
      cpi_Details = ?d, cpi_By = ActorAgent\<rparr> s = (Inr (), s1)" "ok s1" "att s1 = Opened (cycle_ID c)"
    by blast
  have q: "completeExecutePhase S c e (executePhaseStatusFromEffects ?eff) ?su ?d (ps, s) = (True, clear_phase ps, s1)"
    using s1(1) by (simp add: completeExecutePhase_def)
  have l1: "linked (clear_phase ps) s1" "\<not> 0 < ps_runningPhaseSeq (clear_phase ps)" "ps_cycleID (clear_phase ps) = cycle_ID c"
    using s1 l c by (auto simp: linked_def clear_phase_def)
  have e: "applyExecuteEffects S W tk c e res ?eff n snap oc si (ps, s) =
     (if ee_ContinueToVerify ?eff then (True, clear_phase ps, s1)
      else if \<not> ee_TerminateFailed ?eff then (False, clear_phase ps, s1)
      else if ee_TransitionTask ?eff = StatusFailed
      then (False, snd (settle S tk CycleStatusFailed (ee_Reason ?eff) (ee_TransitionTask ?eff) (clear_phase ps, s1)))
      else (False, snd (terminateCycle S CycleStatusFailed (ee_Reason ?eff) (clear_phase ps, s1))))"
    using False q by (simp add: applyExecuteEffects_def Let_def)
  have x: "one_of (ee_StopLoop ?eff) (ee_ContinueToVerify ?eff) (ee_TerminateFailed ?eff)" by (rule post_run_exclusive)
  show ?thesis
  proof (cases "ee_ContinueToVerify ?eff")
    case True
    then show ?thesis using a e l1 by auto
  next
    case False
    then have f: "ee_TerminateFailed ?eff" using x \<open>\<not> ee_StopLoop ?eff\<close> by (auto simp: one_of_def)
    then have tr: "ee_TransitionTask ?eff = StatusFailed" using post_run_failed by blast
    obtain ps2 s2 where "settle S tk CycleStatusFailed (ee_Reason ?eff) StatusFailed (clear_phase ps, s1) = (True, ps2, s2)" "settled s2"
      using settle_settles[OF l1(1,2) tk, of CycleStatusFailed StatusFailed "ee_Reason ?eff"] by auto
    then show ?thesis using a e False f tr by auto
  qed
qed

text \<open>Between rounds the cycle \<open>c\<close> is open and no phase of it runs.\<close>

definition between :: "string \<Rightarrow> 's run \<Rightarrow> bool" where
  "between c r \<longleftrightarrow> linked (fst r) (snd r) \<and> \<not> 0 < ps_runningPhaseSeq (fst r) \<and> ps_cycleID (fst r) = c"

lemma between_pointers: "between c (ps, s) \<Longrightarrow> pointers ps' = pointers ps \<Longrightarrow> between c (ps', s)"
  using linked_pointers[of ps s ps'] by (simp add: between_def pointers_def)

lemma between_calm: "between c (ps, s) \<Longrightarrow> calm s s' \<Longrightarrow> between c (ps, s')"
  by (auto simp: between_def intro: linked_calm)

lemma runCycleLoopExecute_settles:
  assumes b: "between (cycle_ID c) r" and tk: "task_ID tk = t" and x: "runCycleLoopExecute S W k tk c r = (go, r')"
  shows "if go then between (cycle_ID c) r' else settled (snd r')"
proof -
  obtain ps s where r: "r = (ps, s)" by (cases r)
  have p: "ps_cycleStarted ps" "ps_cycleID ps = cycle_ID c" "cycle_ID c \<noteq> []" "\<not> 0 < ps_runningPhaseSeq ps"
    and o: "ok s" "att s = Opened (cycle_ID c)"
    using b unfolding r by (auto simp: between_def linked_def)
  obtain rp s0 where q: "so_StartPhase S (cycle_ID c) PhaseExecute s = (rp, s0)" by (metis surj_pair)
  note ph = start_phase[OF o q]
  show ?thesis
  proof (cases rp)
    case (Inl e)
    have "between (cycle_ID c) (ps, s0)" using p ph Inl by (simp add: between_def linked_def)
    then have "settled (snd (close_out S t CycleStatusFailed ''execute_phase_start_failed'' (ps, s0)))"
      using close_out_settles by (simp add: between_def)
    then show ?thesis using x q r Inl tk
      by (auto simp: runCycleLoopExecute_def startExecutePhase_def bestEffortTerminate_def)
  next
    case (Inr exec)
    define ps1 where "ps1 = ps\<lparr>ps_runningPhase := PhaseExecute, ps_runningPhaseSeq := ph_PhaseSeq exec,
       ps_runCorrelationID := RunCorrelationIDFromDetailsJSON (ph_DetailsJSON exec)\<rparr>"
    have st: "startExecutePhase S c r = (Some exec, ps1, s0)" using q r Inr by (simp add: startExecutePhase_def ps1_def)
    have seq: "0 < ph_PhaseSeq exec" "pointers ps1 = (cycle_ID c, True, ph_PhaseSeq exec)"
      using ph Inr p by (auto simp: ps1_def pointers_def)
    have l1: "linked ps1 s0" using ph Inr p by (auto simp: linked_def ps1_def)
    obtain base s1 where base: "PriorCycleBaseSHA S (cycle_ID c) (ph_PhaseSeq exec) s0 = (base, s1)" by (metis surj_pair)
    have c1: "calm s0 s1" using l1 base
      by (intro calmI) (simp add: linked_def, metis quiet_store.PriorCycleBaseSHA_keeps snd_conv)
    obtain res s2 where run: "run_agent S (rw_iter W k) (task_ID tk) c (ph_PhaseSeq exec) s1 = (res, s2)" by (metis surj_pair)
    show ?thesis
    proof (cases "CaptureExecuteGitSnapshot (trim_space (rw_WorkingDir W)) (rw_WorkingDir W) base (it_GitHead (rw_iter W k))
        (it_GitTop (rw_iter W k)) (it_GitBranch (rw_iter W k)) (it_GitAt (rw_iter W k))")
      case None
      have "settled (snd (close_out S t CycleStatusFailed ''execute_git_snapshot_failed'' (ps1, s1)))"
        using close_out_settles linked_calm[OF l1 c1] by simp
      then show ?thesis using x st base None tk by (auto simp: runCycleLoopExecute_def bestEffortTerminate_def)
    next
      case snap: (Some snap)
      show ?thesis
      proof (rule execute_round[OF st base snap run])
        fix inp n oc si ps' s3 s4 go' ps5 s5
        assume s3: "s3 = s2 \<or> (\<exists>f a ci. IngestExecuteCommits S f a (task_ID tk) (cycle_ID c) (ph_PhaseSeq exec) snap s2 = (ci, s3))"
          and s4: "s4 = s3 \<or> s4 = persistProgress S (task_ID tk) (cycle_ID c) (ph_PhaseSeq exec) streamIdleRecoveredEvent s3"
          and ps': "ps' = ps1\<lparr>ps_gitSnap := snap\<rparr> \<or> (\<exists>f. ps' = probeCriteriaReport f (ps1\<lparr>ps_gitSnap := snap\<rparr>))"
          and a: "applyExecuteEffects S W tk c exec res (DecideExecutePostRun inp) n snap oc si (ps', s4) = (go', ps5, s5)"
          and e: "if go' then \<exists>ia ci hd. runCycleLoopExecute S W k tk c r = (True, anchorPostExecuteState (ph_PhaseSeq exec) snap ia ci hd ps5, s5)
            else runCycleLoopExecute S W k tk c r = (False, ps5, s5)"
        have "calm s1 s4"
        proof (rule calmI)
          fix inv assume i: "quiet_store S inv" "inv s1"
          then have "inv s2" using run quiet_store.run_agent_keeps by (metis snd_conv)
          then have "inv s3" using s3 quiet_store.IngestExecuteCommits_keeps[OF i(1)] by (metis snd_conv)
          then show "inv s4" using s4 quiet_store.persistProgress_keeps[OF i(1)] by blast
        qed (use c1 in \<open>simp add: calm_def\<close>)
        then have "linked ps1 s4" using linked_calm l1 c1 calm_trans by blast
        moreover have p: "pointers ps' = pointers ps1" using ps' by auto
        ultimately have "linked ps' s4" using linked_pointers by blast
        moreover have "0 < ps_runningPhaseSeq ps'" "ps_cycleID ps' = cycle_ID c" "ps_runningPhaseSeq ps' = ph_PhaseSeq exec"
          using p seq by (auto simp: pointers_def)
        ultimately have "if go' then between (cycle_ID c) (ps5, s5) else settled s5"
          using applyExecuteEffects_settles[OF _ _ _ _ tk a] by (simp add: between_def)
        then show ?thesis using e x between_pointers[of "cycle_ID c" ps5 s5] by (auto split: if_splits)
      qed
    qed
  qed
qed

section \<open>Verify\<close>

text \<open>The snapshot is that of the criteria, and every criterion has a locked pass.\<close>

definition snap_of :: "verify_snapshot \<Rightarrow> bool" where
  "snap_of snap \<longleftrightarrow> vs_Enabled snap = (I \<noteq> {}) \<and> vi_ID ` set (vs_Criteria snap) = I"

definition covered :: "process_state \<Rightarrow> bool" where
  "covered ps \<longleftrightarrow> (\<forall>i\<in>I. locked (ps_previouslyPassed ps) i)"

lemma RunPipeline_settles:
  assumes b: "between c (ps, s)" and own: "set pp \<subseteq> own_passes" and en: "vs_Enabled snap"
    and x: "RunPipeline S it t c snap n pp verify_started verify_ended ps s = ((vs, fb, ve), ps', s')"
  shows "between c (ps', s')" "ve = None \<Longrightarrow> map vt_ID vs = map vi_ID (vs_Criteria snap) \<and> (\<forall>v\<in>set vs. vt_Passed v)"
proof -
  have p: "ps_cycleStarted ps" "ps_cycleID ps = c" "c \<noteq> []" "\<not> 0 < ps_runningPhaseSeq ps" and o: "ok s" "att s = Opened c"
    using b by (auto simp: between_def linked_def)
  obtain rp s1 where q: "so_StartPhase S c PhaseVerify s = (rp, s1)" by (metis surj_pair)
  note ph = start_phase[OF o q]
  have "between c (ps', s') \<and> (ve = None \<longrightarrow> map vt_ID vs = map vi_ID (vs_Criteria snap) \<and> (\<forall>v\<in>set vs. vt_Passed v))"
  proof (cases rp)
    case (Inl e)
    then have "ps' = ps" "s' = s1" "ve \<noteq> None" using x q en by (auto simp: RunPipeline_def)
    then show ?thesis using p ph Inl by (auto simp: between_def linked_def)
  next
    case (Inr phase)
    show ?thesis
    proof (rule RunPipeline_started[OF en q[unfolded Inr] x])
      fix ve0 s2 st su d
      assume ch: "runVerifyChecks S it t c (ph_PhaseSeq phase) (n + 1) snap pp s1 = ((vs, fb, ve0), s2)"
        and ps': "ps' = verify_ended (verify_started phase ps)"
        and s': "s' = snd (so_CompletePhase S \<lparr>cpi_CycleID = c, cpi_PhaseSeq = ph_PhaseSeq phase, cpi_Status = st,
          cpi_Summary = Some su, cpi_Details = d, cpi_By = ActorAgent\<rparr> s2)"
        and st: "st = PhaseStatusFailed \<and> ve \<noteq> None \<or> st = PhaseStatusSucceeded \<and> ve = None \<and> ve0 = None"
        and d: "d = PBlank \<or> d = EncodePhaseDetails (n + 1) (vs_Criteria snap) vs"
      have "calm s1 s2"
        by (rule calmI) (use ph Inr ch quiet_store.runVerifyChecks_keeps in \<open>simp, metis snd_conv\<close>)
      then have b2: "ok s2" "att s2 = Busy c (ph_PhaseSeq phase)" using ph Inr by (auto simp: calm_def)
      have "TerminalPhaseStatus st" using st by auto
      moreover have "normal_details d"
        using d EncodePhaseDetails_normal by (auto simp: normal_details_def NormalizeJSONObject_def)
      ultimately obtain s3 where "s' = s3" "ok s3" "att s3 = Opened c"
        using complete_phase[OF b2, of st d "Some su"] s' by auto
      then have "between c (ps', s')"
        using p by (auto simp: ps' between_def linked_def verify_ended_def verify_started_def clear_phase_def)
      moreover have "map vt_ID vs = map vi_ID (vs_Criteria snap) \<and> (\<forall>v\<in>set vs. vt_Passed v)" if "ve = None"
        using runVerifyChecks_pass[OF own] ch st that by simp
      ultimately show ?thesis by simp
    qed
  qed
  then show "between c (ps', s')" "ve = None \<Longrightarrow> map vt_ID vs = map vi_ID (vs_Criteria snap) \<and> (\<forall>v\<in>set vs. vt_Passed v)"
    by auto
qed

lemma applyVerifyEffects_settles:
  assumes b: "between c r" and tk: "task_ID tk = t" and ve: "ve \<noteq> None"
    and x: "applyVerifyEffects S tk (DecideVerifyRetryWithValidity n m (verify_outcome ve) v) reason r = ((retry, trm), r')"
  shows "if retry then between c r' else trm \<and> settled (snd r')"
proof -
  obtain ps s where r: "r = (ps, s)" by (cases r)
  let ?eff = "DecideVerifyRetryWithValidity n m (verify_outcome ve) v"
  have l: "linked ps s" "\<not> 0 < ps_runningPhaseSeq ps" using b r by (auto simp: between_def)
  have set: "settled (snd (snd (settle S tk CycleStatusFailed why StatusFailed r)))" for why
    using settle_settles[OF l tk, of CycleStatusFailed StatusFailed why] r by auto
  have o: "verify_outcome ve = VerifyResultFailTampered \<or> verify_outcome ve = VerifyResultFailRetryable"
    using ve by (auto simp: verify_outcome_def split: verify_err.split)
  show ?thesis
  proof (cases "ve_RetryLoop ?eff")
    case True
    then have "r' = (ps\<lparr>ps_verifyAttempt := ps_verifyAttempt ps + 1\<rparr>, s)" "retry"
      using x r by (auto simp: applyVerifyEffects_def verify_effects_sel)
    then show ?thesis using b r between_pointers[of c ps s "ps\<lparr>ps_verifyAttempt := ps_verifyAttempt ps + 1\<rparr>"]
      by (simp add: pointers_def)
  next
    case False
    then show ?thesis using x o set by (auto simp: applyVerifyEffects_def verify_effects_sel split: if_splits)
  qed
qed

lemma runCycleLoopVerify_settles:
  assumes b: "between (cycle_ID c) r" and tk: "task_ID tk = t" and sn: "snap_of (ps_verifySnap (fst r))"
    and own: "set (ps_previouslyPassed (fst r)) \<subseteq> own_passes"
    and x: "runCycleLoopVerify S W k tk c r = ((retry, trm, skp), r')"
  shows "if retry then between (cycle_ID c) r' else if trm then settled (snd r')
     else between (cycle_ID c) r' \<and> covered (fst r')"
proof -
  obtain ps s where r: "r = (ps, s)" by (cases r)
  show ?thesis
  proof (cases "vs_Enabled (ps_verifySnap ps)")
    case True
    show ?thesis
    proof (rule verify_round[OF True x[unfolded r]])
      fix vs fb ve ps1 s1
      assume p: "RunPipeline S (rw_iter W k) (task_ID tk) (cycle_ID c) (ps_verifySnap ps) (ps_verifyAttempt ps)
          (ps_previouslyPassed ps) verify_started verify_ended ps s = ((vs, fb, ve), ps1, s1)"
        and e: "if ve = None then \<not> retry \<and> \<not> trm \<and> r' = (after_pipeline vs fb ve ps1, s1)
          else \<exists>ps3 f v reason. ps3 = probeCriteriaReport f (after_pipeline vs fb ve ps1) \<and>
            applyVerifyEffects S tk (DecideVerifyRetryWithValidity (ps_verifyAttempt ps3) (vs_MaxRetries (ps_verifySnap ps3))
              (verify_outcome ve) v) reason (ps3, s1) = ((retry, trm), r')"
      have own': "set (ps_previouslyPassed ps) \<subseteq> own_passes" using own r by simp
      note rp = RunPipeline_settles[OF b[unfolded r] own' True p[unfolded tk]]
      show ?thesis
      proof (cases "ve = None")
        case None: True
        have "covered (after_pipeline vs fb ve ps1)" unfolding covered_def
        proof
          fix i assume "i \<in> I"
          then have "i \<in> set (map vt_ID vs)" using rp(2)[OF None] sn r by (auto simp only: snap_of_def fst_conv set_map[symmetric])
          then obtain v where "v \<in> set vs" "vt_ID v = i" "vt_Passed v" using rp(2)[OF None] unfolding set_map by blast
          then show "locked (ps_previouslyPassed (after_pipeline vs fb ve ps1)) i"
            using recordPassed_locks None by (auto simp: after_pipeline_def Let_def)
        qed
        then show ?thesis using e None rp(1) between_pointers[OF rp(1)] by simp
      next
        case False
        then obtain ps3 f v reason where ps3: "ps3 = probeCriteriaReport f (after_pipeline vs fb ve ps1)"
          and a: "applyVerifyEffects S tk (DecideVerifyRetryWithValidity (ps_verifyAttempt ps3) (vs_MaxRetries (ps_verifySnap ps3))
              (verify_outcome ve) v) reason (ps3, s1) = ((retry, trm), r')" using e by auto
        have "between (cycle_ID c) (ps3, s1)" using between_pointers[OF rp(1)] ps3 by simp
        from applyVerifyEffects_settles[OF this tk False a] show ?thesis by (auto split: if_splits)
      qed
    qed
  next
    case False
    then have "I = {}" using sn r by (simp add: snap_of_def)
    moreover have o: "ok s" using b r by (simp add: between_def linked_def)
    ultimately obtain its s1 where l: "so_ListChecklistForSubject S t s = (Inr its, s1)" "its = []"
      using subject[of s] by auto
    have "calm s s1" by (rule calmI[OF o]) (use l quiet_store.keep_ListChecklistForSubject in \<open>metis snd_conv\<close>)
    then have "between (cycle_ID c) (ps, s1)" using between_calm b r by simp
    moreover have "r' = (ps, s1) \<and> \<not> retry \<and> \<not> trm"
      using x r False l tk
      by (auto simp: runCycleLoopVerify_def VerifyDisabled_def CompleteChecklistLegacy_def DecideVerifyDisabledLegacy_def
          applyVerifyEffects_def no_verify_effects_def)
    moreover have "covered ps" unfolding covered_def using \<open>I = {}\<close> by blast
    ultimately show ?thesis by simp
  qed
qed

section \<open>Finalize\<close>

text \<open>When all completions are written, every criterion among them has one.\<close>

lemma ApplyVerifiedCompletions_has:
  "ok s \<Longrightarrow> ApplyVerifiedCompletions S t c vs s = (Inr (), s') \<Longrightarrow>
    calm s s' \<and> (\<forall>v\<in>set vs. vt_Passed v \<and> vt_ID v \<in> I \<longrightarrow> has s' (vt_ID v))"
proof (induction vs arbitrary: s)
  case Nil
  then show ?case by (simp add: calm_def)
next
  case (Cons v vs)
  show ?case
  proof (cases "vt_Passed v")
    case False
    then show ?thesis using Cons by simp
  next
    case True
    obtain x s1 where x: "so_SetItemDoneWithEvidence S t (vt_ID v) (vt_Evidence v) (vt_Verifier v) (vt_Reasoning v) c s = (x, s1)"
      by (metis surj_pair)
    have c1: "calm s s1"
      by (rule calmI[OF Cons.prems(1)]) (use x quiet_store.keep_SetItemDoneWithEvidence in \<open>metis snd_conv\<close>)
    have r: "x = Inr () \<or> x = Inl ErrNotFound" "ApplyVerifiedCompletions S t c vs s1 = (Inr (), s')"
      using Cons.prems(2) x True by (auto split: sum.splits if_splits)
    have h: "vt_ID v \<in> I \<Longrightarrow> has s1 (vt_ID v)"
      using r(1) x evidence[OF Cons.prems(1)] known[OF Cons.prems(1)] by auto
    from Cons.IH[OF _ r(2)] c1 have "calm s1 s' \<and> (\<forall>v\<in>set vs. vt_Passed v \<and> vt_ID v \<in> I \<longrightarrow> has s' (vt_ID v))"
      by (simp add: calm_def)
    then show ?thesis using c1 h by (auto simp: calm_def)
  qed
qed

lemma runCycleLoopFinalizeSuccess_settles:
  assumes b: "between (cycle_ID c) r" and tk: "task_ID tk = t" and cv: "covered (fst r)"
    and own: "set (ps_previouslyPassed (fst r)) \<subseteq> own_passes" and order: "\<And>xs. set xs \<subseteq> set (rw_order W xs)"
  shows "settled (snd (runCycleLoopFinalizeSuccess S W tk c r))"
proof -
  obtain ps s where r: "r = (ps, s)" by (cases r)
  have ok: "ok s" using b r by (simp add: between_def linked_def)
  obtain x s1 where a: "ApplyVerifiedCompletions S t (cycle_ID c) (unionPreviouslyPassedVerdicts W ps) s = (x, s1)"
    by (metis surj_pair)
  have "calm s s1" by (rule calmI[OF ok]) (use a quiet_store.ApplyVerifiedCompletions_keeps in \<open>metis snd_conv\<close>)
  then have b1: "between (cycle_ID c) (ps, s1)" using between_calm b r by simp
  then have l1: "linked ps s1" "\<not> 0 < ps_runningPhaseSeq ps" by (auto simp: between_def)
  have all: "\<forall>i\<in>I. has s1 i" if "x = Inr ()"
  proof
    fix i assume i: "i \<in> I"
    then obtain v where "(i, v) \<in> set (ps_previouslyPassed ps)"
      using cv r map_of_SomeD[of "ps_previouslyPassed ps" i] by (auto simp: covered_def)
    then have "v \<in> set (unionPreviouslyPassedVerdicts W ps)" "vt_ID v = i" "vt_Passed v"
      using own order[of "map snd (ps_previouslyPassed ps)"] r
      by (force simp: unionPreviouslyPassedVerdicts_def own_passes_def)+
    then show "has s1 i" using ApplyVerifiedCompletions_has[OF ok] a i that by blast
  qed
  show ?thesis
  proof (cases x)
    case (Inl e)
    obtain ps2 s2 where "settle S tk CycleStatusFailed ReasonChecklistCompletionFailed StatusFailed (ps, s1) = (True, ps2, s2)" "settled s2"
      using settle_settles[OF l1 tk, of CycleStatusFailed StatusFailed ReasonChecklistCompletionFailed] by auto
    then show ?thesis using r a tk Inl
      by (simp add: runCycleLoopFinalizeSuccess_def applyFinalizeEffects_def DecideFinalizeSuccess_def)
  next
    case (Inr u)
    obtain ps2 s2 where s2: "settle S tk CycleStatusSucceeded [] StatusDone (ps, s1) = (True, ps2, s2)" "settled s2"
      using settle_settles[OF l1 tk, of CycleStatusSucceeded StatusDone "[]"] all Inr by auto
    have "calm s2 (emitOnTaskDone S tk (cycle_ID c) s2)"
      by (rule calmI) (use s2 in \<open>auto simp: settled_def intro: quiet_store.emitOnTaskDone_keeps\<close>)
    then show ?thesis using r a tk Inr s2
      by (simp add: runCycleLoopFinalizeSuccess_def applyFinalizeEffects_def DecideFinalizeSuccess_def settled_def calm_def)
  qed
qed

section \<open>Whole runs\<close>

lemma runCycleLoop_settles:
  "between (cycle_ID c) r \<Longrightarrow> snap_of (ps_verifySnap (fst r)) \<Longrightarrow> set (ps_previouslyPassed (fst r)) \<subseteq> own_passes \<Longrightarrow>
   task_ID tk = t \<Longrightarrow> (\<And>xs. set xs \<subseteq> set (rw_order W xs)) \<Longrightarrow> settled (snd (runCycleLoop S W k skp tk c r))"
proof (induction "loop_measure (fst r)" arbitrary: r k skp rule: less_induct)
  case less
  note tk = less.prems(4)
  obtain go r1 where e: "(if skp then (True, r) else runCycleLoopExecute S W k tk c r) = (go, r1)" by (metis surj_pair)
  have s1: "if go then between (cycle_ID c) r1 else settled (snd r1)"
    using e less.prems(1) runCycleLoopExecute_settles[OF less.prems(1) tk] by (cases skp) auto
  have c1: "carried (fst r) (fst r1)" using e runCycleLoopExecute_carried[of r S W k tk c] by (auto split: if_splits)
  have i1: "snap_of (ps_verifySnap (fst r1))" "set (ps_previouslyPassed (fst r1)) \<subseteq> own_passes"
    using c1 less.prems(2,3) by (auto simp: carried_def)
  obtain retry trm skn r2 where v: "runCycleLoopVerify S W k tk c r1 = ((retry, trm, skn), r2)" by (metis surj_pair)
  have i2: "snap_of (ps_verifySnap (fst r2))" "set (ps_previouslyPassed (fst r2)) \<subseteq> own_passes"
    using runCycleLoopVerify_carried[OF v] i1 by (auto simp: carried_def split: if_splits)
  show ?case
  proof (cases go)
    case False
    then show ?thesis using s1 by (simp add: loop_round[OF e v])
  next
    case True
    note s2 = runCycleLoopVerify_settles[OF _ tk i1 v]
    show ?thesis
    proof (cases retry)
      case retry: True
      then have "loop_measure (fst r2) < loop_measure (fst r)" using loop_descends e v True by metis
      moreover have "between (cycle_ID c) r2" using s2 s1 True retry by simp
      ultimately have "settled (snd (runCycleLoop S W (Suc k) skn tk c r2))"
        using less.hyps i2 tk less.prems(5) by blast
      then show ?thesis using True retry by (simp add: loop_round[OF e v])
    next
      case False
      then show ?thesis using s2 s1 True runCycleLoopFinalizeSuccess_settles[OF _ tk _ i2(2) less.prems(5)]
        by (auto simp: loop_round[OF e v] split: if_splits)
    qed
  qed
qed

lemma load_snapshot_of:
  assumes b: "between c (ps, s)" and tk: "task_ID tk = t"
  shows "between c (load_snapshot S tk (ps, s))" "snap_of (ps_verifySnap (fst (load_snapshot S tk (ps, s))))"
    "ps_previouslyPassed (fst (load_snapshot S tk (ps, s))) = ps_previouslyPassed ps"
proof -
  have ok: "ok s" using b by (simp add: between_def linked_def)
  obtain x s1 where g: "so_GetSettings S s = (Inr x, s1)" using settings[OF ok] by blast
  have c1: "calm s s1" by (rule calmI[OF ok]) (use g quiet_store.keep_GetSettings in \<open>metis snd_conv\<close>)
  then obtain its s2 where l: "so_ListChecklistForVerify S t s1 = (Inr its, s2)" "vi_ID ` set its = I"
    using criteria[of s1] unfolding calm_def by blast
  then have ok1: "ok s1" using c1 by (simp add: calm_def)
  have "calm s1 s2" by (rule calmI[OF ok1]) (use l quiet_store.keep_ListChecklistForVerify in \<open>metis snd_conv\<close>)
  then have "calm s s2" using c1 calm_trans by blast
  then have b2: "between c (ps, s2)" using between_calm b by blast
  have e: "\<exists>snap. load_snapshot S tk (ps, s) = (ps\<lparr>ps_verifySnap := snap\<rparr>, s2) \<and> snap_of snap"
    using g l tk by (auto simp: load_snapshot_def LoadSnapshot_def Let_def snap_of_def)
  then show "snap_of (ps_verifySnap (fst (load_snapshot S tk (ps, s))))"
    "ps_previouslyPassed (fst (load_snapshot S tk (ps, s))) = ps_previouslyPassed ps" by auto
  from e obtain snap where "load_snapshot S tk (ps, s) = (ps\<lparr>ps_verifySnap := snap\<rparr>, s2)" by blast
  then show "between c (load_snapshot S tk (ps, s))"
    using between_pointers[OF b2, of "ps\<lparr>ps_verifySnap := snap\<rparr>"] by (simp add: pointers_def)
qed

lemma runFreshCycle_settles:
  assumes s: "ok s" "att s = Idle" and tk: "task_ID tk = t" and order: "\<And>xs. set xs \<subseteq> set (rw_order W xs)"
  shows "settled (snd (runFreshCycle S W tk p m s))"
proof -
  let ?sci = "\<lparr>sci_TaskID = task_ID tk, sci_TriggeredBy = ActorAgent, sci_ParentCycleID = p, sci_Meta = buildCycleMeta W m\<rparr>"
  obtain rc s1 where q: "so_StartCycle S ?sci s = (rc, s1)" by (metis surj_pair)
  have i: "sci_TaskID ?sci = t" using tk by simp
  note st = start_cycle[OF s i q]
  show ?thesis
  proof (cases rc)
    case (Inl e)
    then show ?thesis using q st fail_settles tk by (simp add: runFreshCycle_def startCycle_def)
  next
    case (Inr c)
    let ?ps = "new_process_state\<lparr>ps_cycleID := cycle_ID c, ps_cycleStarted := True\<rparr>"
    have b: "between (cycle_ID c) (?ps, s1)" using st Inr by (simp add: between_def linked_def new_process_state_def)
    obtain ps2 s2 where l: "load_snapshot S tk (?ps, s1) = (ps2, s2)" by (metis surj_pair)
    have "ps_previouslyPassed ps2 = []" using load_snapshot_of(3)[OF b tk] l by (simp add: new_process_state_def)
    then have "settled (snd (runCycleLoop S W 0 False tk c (ps2, s2)))"
      using runCycleLoop_settles[of c "(ps2, s2)" tk W 0 False] load_snapshot_of(1,2)[OF b tk] l tk order by simp
    then show ?thesis using q Inr l by (simp add: runFreshCycle_def startCycle_def enter_loop_def)
  qed
qed

text \<open>Without an operator's intent to resume, a run starts from a fresh cycle (or only fails the task).\<close>

lemma RunWithRetry_settles:
  assumes s: "ok s" "att s = Idle" and tk: "task_ID tk = t" and order: "\<And>xs. set xs \<subseteq> set (rw_order W xs)"
    and fresh: "\<forall>i. intent = Some i \<longrightarrow> pr_Mode i \<noteq> RetryResume"
  shows "settled (snd (RunWithRetry S W Z tk intent s))"
proof -
  have fail: "settled (FailTaskAfterRetryPrep S t s')" if "calm s s'" for s'
    using fail_settles[of s'] that s by (simp add: calm_def FailTaskAfterRetryPrep_def bestEffortFailTask_def)
  have retry: "settled (snd (runFreshRetry S W Z tk i s))" for i
  proof -
    obtain x s1 where r: "ResetForFreshRetry S (rw_WorkingDir W) (zw_Head Z) (zw_ParentOf Z) (zw_ResetOK Z) (pr_ParentCycleID i) s = (x, s1)"
      by (metis surj_pair)
    have "calm s s1" by (rule calmI[OF s(1)]) (use r quiet_store.ResetForFreshRetry_keeps in \<open>metis snd_conv\<close>)
    then show ?thesis using r fail[of s1] tk runFreshCycle_settles[OF _ _ tk order, of s1] s
      by (cases x) (auto simp: runFreshRetry_def calm_def)
  qed
  have "calm s s" using s by (simp add: calm_def)
  then show ?thesis
    using fail[of s] retry runFreshCycle_settles[OF s tk order] fresh tk
    by (cases intent) (auto simp: RunWithRetry_def PendingRetry_Validate_def Let_def split: sum.split if_splits)
qed

end

end
