(* ===== verification/Harness_Store.thy ===== *)
theory Harness_Store
  imports Harness_Guard
begin

text \<open>
  The database under the harness: what a status write of the harness does and when it succeeds, and the
  interpretations of \<open>guarded_store\<close> on \<open>db_store\<close>. \<open>done_ok\<close> says that every task that is done has a complete
  checklist; a whole run keeps it, whatever calls fail.
\<close>

section \<open>A status write\<close>

lemma applyTaskPatches_status:
  "applyTaskPatches env i (empty_update\<lparr>uin_Status := Some v\<rparr>) by st = applyStatusPatch (tx_evnow env) i by (Some v) st"
proof -
  obtain s cur n where st: "st = (s, cur, n)" by (cases st)
  show ?thesis unfolding st
    by (cases "applyStatusPatch (tx_evnow env) i by (Some v) (s, cur, n)")
      (auto simp: applyTaskPatches_def empty_update_def applyTitlePatch_def applyInitialPromptPatch_def applyPriorityPatch_def
        applyProjectPatch_def applyProjectContextSelectionPatch_def on_cur_def applyPickupNotBeforePatch_def
        applyCursorModelPatch_def applyTagsPatch_def applyMilestonePatch_def applyGatePatch_def applyDependsOnPatch_def
        applyPendingRetryPatch_def applyWorktreePatch_def)
qed

lemma status_writeE:
  assumes "Task_Update env s i (empty_update\<lparr>uin_Status := Some v\<rparr>) by = Inr (s', t, prev)"
  obtains dcur n s1 n' where "LoadTask s (trim_space i) = Inr dcur" "NextEventSeq s (trim_space i) = Inr n"
    "applyStatusPatch (tx_evnow env) (trim_space i) by (Some v) (s, dcur, n) = Inr (s1, dcur\<lparr>task_Status := v\<rparr>, n')"
    "s' = save_task s1 (dcur\<lparr>task_Status := v\<rparr>)"
proof -
  from assms obtain dcur n s1 dcur' n' where l: "LoadTask s (trim_space i) = Inr dcur" "NextEventSeq s (trim_space i) = Inr n"
    and p: "applyStatusPatch (tx_evnow env) (trim_space i) by (Some v) (s, dcur, n) = Inr (s1, dcur', n')"
    and s': "s' = save_task s1 dcur'"
    by (elim Task_UpdateE) (simp add: applyTaskPatches_status)
  have "dcur' = dcur\<lparr>task_Status := v\<rparr>" using p by (elim applyStatusPatchE) auto
  then show thesis using that l p s' by blast
qed

text \<open>It changes the status of the one task and appends at most one audit row.\<close>

definition work_frame :: "db \<Rightarrow> db \<Rightarrow> bool" where
  "work_frame s s' \<longleftrightarrow> db_items s' = db_items s \<and> db_completions s' = db_completions s \<and> db_cycles s' = db_cycles s \<and>
     db_phases s' = db_phases s"

lemma AppendEvent_work: "AppendEvent now s t n typ by data = Inr s' \<Longrightarrow> work_frame s s'"
  by (auto simp: AppendEvent_def insert_event_def work_frame_def split: sum.splits if_splits)

lemma status_write_effect:
  assumes "Task_Update env s i (empty_update\<lparr>uin_Status := Some v\<rparr>) by = Inr (s', t, prev)"
  shows "work_frame s s'" "status_of s' j = (if j = trim_space i then Some v else status_of s j)"
    "status_of s (trim_space i) \<noteq> None"
proof -
  from assms obtain dcur n s1 n' where l: "LoadTask s (trim_space i) = Inr dcur"
    and p: "applyStatusPatch (tx_evnow env) (trim_space i) by (Some v) (s, dcur, n) = Inr (s1, dcur\<lparr>task_Status := v\<rparr>, n')"
    and s': "s' = save_task s1 (dcur\<lparr>task_Status := v\<rparr>)" by (elim status_writeE)
  have f: "work_frame s s1 \<and> same_status s s1"
    using p by (elim applyStatusPatchE) (auto simp: work_frame_def same_status_def dest: AppendEvent_work AppendEvent_status)
  then show "work_frame s s'" by (simp add: s' work_frame_def save_task_def)
  show "status_of s (trim_space i) \<noteq> None" using status_of_LoadTask[OF l] by simp
  show "status_of s' j = (if j = trim_space i then Some v else status_of s j)"
    using f status_of_save[of s1 "dcur\<lparr>task_Status := v\<rparr>" j] status_of_same[of s s1] status_of_LoadTask[OF l]
      LoadTaskD(2)[OF l] by (simp add: s')
qed

text \<open>It succeeds for an existing task and a valid status; "done" needs a complete checklist.\<close>

lemma status_write_succeeds:
  assumes ok: "store_ok s" and v: "ValidStatus v" "v = StatusDone \<longrightarrow> checklist_complete s i"
    and i: "i \<in> task_ID ` set (db_tasks s)" "trim_space i = i"
  shows "\<exists>s' r. Task_Update env s i (empty_update\<lparr>uin_Status := Some v\<rparr>) ActorAgent = Inr (s', r)"
proof -
  obtain dcur where l: "LoadTask s i = Inr dcur"
    using LoadTask_ex i(1) by blast
  have ne: "i \<noteq> []" using store_ok_task_id[OF ok i(1)] by simp
  have g: "v = StatusDone \<Longrightarrow> ValidateCanMarkDoneInTx s i = Inr ()"
    using v(2) validateChecklistComplete_iff[OF i(1) store_ok_task_id[OF ok i(1)]] by (simp add: ValidateCanMarkDoneInTx_def)
  obtain obj where "NormalizeJSONObject (EventPairJSON (status_str (task_Status dcur)) (status_str v)) ''data'' = Inr obj"
    using EventPairJSON_normalizes by blast
  from insert_event_succeeds[OF store_okD(1)[OF ok] i(1) this, of "tx_evnow env" EventStatusChanged ActorAgent]
  obtain n s1 where n: "NextEventSeq s i = Inr n" and e: "AppendEvent (tx_evnow env) s i n EventStatusChanged ActorAgent
      (EventPairJSON (status_str (task_Status dcur)) (status_str v)) = Inr s1" by blast
  have "\<exists>s1 n'. applyStatusPatch (tx_evnow env) i ActorAgent (Some v) (s, dcur, n) = Inr (s1, dcur\<lparr>task_Status := v\<rparr>, n')"
    using e g v(1) by (auto simp: applyStatusPatch_def append_patch_event_def Let_def)
  then obtain s2 n' where p: "applyStatusPatch (tx_evnow env) i ActorAgent (Some v) (s, dcur, n) = Inr (s2, dcur\<lparr>task_Status := v\<rparr>, n')"
    by blast
  obtain es where h: "hydrateDependsOn (save_task s2 (dcur\<lparr>task_Status := v\<rparr>)) (dcur\<lparr>task_Status := v\<rparr>)
      = Inr (dcur\<lparr>task_Status := v, task_DependsOn := es\<rparr>)"
    using hydrateDependsOn_succeeds[of "dcur\<lparr>task_Status := v\<rparr>"] ne LoadTaskD(2)[OF l] i(2) by auto
  have "\<not> no_fields (empty_update\<lparr>uin_Status := Some v\<rparr>)" by (simp add: no_fields_def)
  then show ?thesis using l n p h ne i(2)
    by (simp add: Task_Update_def Let_def applyTaskPatches_status)
qed

section \<open>Done tasks have a complete checklist\<close>

definition done_ok :: "db \<Rightarrow> bool" where
  "done_ok s \<longleftrightarrow> (\<forall>j. status_of s j = Some StatusDone \<longrightarrow> checklist_complete s j)"

text \<open>A write that keeps the statuses and the criteria, and every valid completion, keeps \<open>done_ok\<close>.\<close>

definition completions_grow :: "db \<Rightarrow> db \<Rightarrow> bool" where
  "completions_grow s s' \<longleftrightarrow> db_items s' = db_items s \<and>
     (\<forall>t i c. find_completion s t i = Some c \<and> completion_valid c \<longrightarrow>
        (\<exists>c'. find_completion s' t i = Some c' \<and> completion_valid c'))"

lemma completions_grow_complete: "completions_grow s s' \<Longrightarrow> checklist_complete s j \<Longrightarrow> checklist_complete s' j"
  by (fastforce simp: completions_grow_def checklist_complete_def)

lemma done_ok_grow: "done_ok s \<Longrightarrow> same_status s s' \<Longrightarrow> completions_grow s s' \<Longrightarrow> done_ok s'"
  by (auto simp: done_ok_def status_of_same intro: completions_grow_complete)

lemma work_frame_grow: "work_frame s s' \<Longrightarrow> completions_grow s s'"
  by (auto simp: work_frame_def completions_grow_def find_completion_def)

lemma find_completion_append:
  "find_completion (s\<lparr>db_completions := db_completions s @ [c]\<rparr>) t i =
     (case find_completion s t i of None \<Rightarrow> if cp_TaskID c = t \<and> cp_ItemID c = i then Some c else None | Some d \<Rightarrow> Some d)"
proof -
  have "List.find P (xs @ [c]) = (case List.find P xs of None \<Rightarrow> if P c then Some c else None | Some d \<Rightarrow> Some d)" for P xs
    by (induction xs) auto
  then show ?thesis by (simp add: find_completion_def)
qed

lemma find_completion_upsert:
  "find_completion (upsert_completion c s) t i = (if t = cp_TaskID c \<and> i = cp_ItemID c then Some c else find_completion s t i)"
proof (cases "find_completion s (cp_TaskID c) (cp_ItemID c)")
  case None
  then show ?thesis by (auto simp: upsert_completion_def find_completion_append split: option.split)
next
  case (Some d)
  let ?Q = "\<lambda>r. cp_TaskID r = cp_TaskID c \<and> cp_ItemID r = cp_ItemID c"
  have "List.find (\<lambda>r. cp_TaskID r = t \<and> cp_ItemID r = i) (update_where ?Q (\<lambda>_. c) xs) =
      (if t = cp_TaskID c \<and> i = cp_ItemID c then map_option (\<lambda>_. c) (List.find ?Q xs)
       else List.find (\<lambda>r. cp_TaskID r = t \<and> cp_ItemID r = i) xs)" for xs
    by (induction xs) (auto simp: update_where_def)
  then show ?thesis using Some by (simp add: upsert_completion_def find_completion_def)
qed

lemma upsert_completion_grow: "completion_valid c \<Longrightarrow> completions_grow s (upsert_completion c s)"
  unfolding completions_grow_def find_completion_upsert by (auto simp: upsert_completion_def)

lemma validateEvidencePayload_valid: "validateEvidencePayload ev v r = Inr () \<Longrightarrow> ValidVerifierKind v \<and> (v = VerifierLegacy \<or> trim_space ev \<noteq> [])"
  by (auto simp: validateEvidencePayload_def split: if_splits)

lemma sync_work: "syncCriteriaSatisfiedAtInTx now s i = Inr (s', ch) \<Longrightarrow> work_frame s s'"
  by (auto simp: syncCriteriaSatisfiedAtInTx_def Let_def set_criteria_flag_def work_frame_def split: option.splits if_splits)

lemma completions_grow_trans: "completions_grow a b \<Longrightarrow> completions_grow b c \<Longrightarrow> completions_grow a c"
  unfolding completions_grow_def by metis

lemma SetDoneWithEvidence_effect:
  assumes "SetDoneWithEvidence env s t i ev v r c ActorAgent = Inr (s', ch)"
  shows "completions_grow s s'" "\<exists>d. find_completion s' (trim_space t) (trim_space i) = Some d \<and> completion_valid d"
proof -
  from assms obtain drow n s2 pl where v: "validateEvidencePayload ev v r = Inr ()"
    and a: "AppendEvent (tx_evnow env) (upsert_completion drow s) (trim_space t) n EventChecklistItemToggled ActorAgent pl = Inr s2"
    and y: "syncCriteriaSatisfiedAtInTx (tx_now env) s2 (trim_space t) = Inr (s', ch)"
    and drow: "cp_TaskID drow = trim_space t" "cp_ItemID drow = trim_space i" "cp_Evidence drow = ev" "cp_VerifiedBy drow = v"
    by (elim SetDoneWithEvidenceE)
  have val: "completion_valid drow" using validateEvidencePayload_valid[OF v] drow by (simp add: completion_valid_def)
  have g: "completions_grow (upsert_completion drow s) s'"
    using AppendEvent_work[OF a] sync_work[OF y] work_frame_grow completions_grow_trans by blast
  then show "completions_grow s s'" using upsert_completion_grow[OF val] completions_grow_trans by blast
  have "find_completion (upsert_completion drow s) (trim_space t) (trim_space i) = Some drow"
    by (simp add: find_completion_upsert drow)
  then show "\<exists>d. find_completion s' (trim_space t) (trim_space i) = Some d \<and> completion_valid d"
    using g val unfolding completions_grow_def by blast
qed

lemma Checklist_SetDone_grow:
  assumes "Checklist_SetDone env s t i True ActorAgent = Inr s'" shows "completions_grow s s'"
proof -
  let ?c = "\<lparr>cp_TaskID = trim_space t, cp_ItemID = trim_space i, cp_At = tx_now env, cp_By = ActorAgent, cp_Evidence = [],
     cp_VerifiedBy = VerifierLegacy, cp_VerifierReasoning = [], cp_CycleID = []\<rparr>"
  let ?s1 = "s\<lparr>db_completions := db_completions s @ [?c]\<rparr>"
  have "s' = s \<or> (\<exists>n s2 ch pl. AppendEvent (tx_evnow env) ?s1 (trim_space t) n EventChecklistItemToggled ActorAgent pl = Inr s2 \<and>
      syncCriteriaSatisfiedAtInTx (tx_now env) s2 (trim_space t) = Inr (s', ch))"
    using assms by (clarsimp simp: Checklist_SetDone_def Let_def if_Inl_Inr_iff split: if_splits) blast
  moreover have "completions_grow s ?s1" by (auto simp: completions_grow_def find_completion_append split: option.split)
  moreover have "completions_grow s s" by (simp add: work_frame_grow work_frame_def)
  ultimately show ?thesis by (meson AppendEvent_work sync_work work_frame_grow completions_grow_trans)
qed

text \<open>Cycles, phases and stream rows do not touch the checklist.\<close>

lemma cycle_step_checklist: "cycle_step s s' \<Longrightarrow> db_items s' = db_items s \<and> db_completions s' = db_completions s"
proof (induction rule: cycle_step.induct)
  case (step_Start env s inp s' c)
  then show ?case by (elim StartE) (auto dest!: insert_cycleD(1) dest: AppendEvent_tables)
next
  case (step_Terminate env s i st r actor s' c)
  then show ?case by (elim TerminateE) (auto dest: AppendEvent_tables)
next
  case (step_StartPhase env s i ph actor s' p)
  then show ?case by (elim StartPhaseE) (auto dest!: insert_phaseD(1) dest: AppendEvent_tables)
next
  case (step_CompletePhase env s inp s' p)
  then show ?case by (elim CompletePhaseE) (auto dest: AppendEvent_tables)
next
  case (step_AppendStreamEvent env s inp s' r)
  then show ?case by (elim AppendStreamEventE) (auto dest!: insert_streamD)
qed

lemma cycle_step_grow: "cycle_step s s' \<Longrightarrow> completions_grow s s'"
  by (auto simp: completions_grow_def find_completion_def dest: cycle_step_checklist)

section \<open>The guards of the database\<close>

definition sound_db :: "db \<Rightarrow> bool" where
  "sound_db d \<longleftrightarrow> store_ok d \<and> done_ok d"

lemma status_write_sound:
  assumes "sound_db d" "Task_Update env d t (empty_update\<lparr>uin_Status := Some v\<rparr>) ActorAgent = Inr (d', r)"
  shows "sound_db d'"
proof -
  obtain u prev where r: "r = (u, prev)" by (cases r)
  have ok: "store_ok d'" using Task_Update_store_ok assms unfolding r sound_db_def by blast
  have "checklist_complete d' j" if "status_of d' j = Some StatusDone" for j
  proof (cases "status_of d j = Some StatusDone")
    case True
    then have "checklist_complete d j" using assms(1) by (simp add: sound_db_def done_ok_def)
    moreover have "work_frame d d'" using status_write_effect(1) assms(2) unfolding r by blast
    ultimately show ?thesis using completions_grow_complete[OF work_frame_grow] by blast
  next
    case False
    then show ?thesis using Task_Update_done that assms unfolding r sound_db_def by blast
  qed
  then show ?thesis using ok by (simp add: sound_db_def done_ok_def)
qed

interpretation sound: db_guard sound_db
proof
  fix d d' env t r
  assume "sound_db d" "Task_Update env d t (empty_update\<lparr>uin_Status := Some StatusFailed\<rparr>) ActorAgent = Inr (d', r)"
  then show "sound_db d'" by (rule status_write_sound)
next
  fix d d'
  assume "sound_db d" "cycle_step d d'"
  then show "sound_db d'"
    by (auto simp: sound_db_def intro: cycle_step_store_ok done_ok_grow cycle_step_grow cycle_step_status)
next
  fix d d' env t i
  assume "sound_db d" "Checklist_SetDone env d t i True ActorAgent = Inr d'"
  then show "sound_db d'"
    by (auto simp: sound_db_def intro: Checklist_SetDone_ok done_ok_grow Checklist_SetDone_grow Checklist_SetDone_status)
next
  fix d d' env t i ev v rs c f
  assume "sound_db d" "SetDoneWithEvidence env d t i ev v rs c ActorAgent = Inr (d', f)"
  then show "sound_db d'"
    by (auto simp: sound_db_def intro: SetDoneWithEvidence_ok done_ok_grow SetDoneWithEvidence_effect(1) SetDoneWithEvidence_status)
next
  fix d d' env t ty data
  assume d: "sound_db d" and e: "Events_Append env d t ty ActorAgent data = Inr d'"
  from e obtain n where "NextEventSeq d (trim_space t) = Inr n"
    "AppendEvent (tx_evnow env) d (trim_space t) n ty ActorAgent data = Inr d'" by (elim Events_AppendE)
  then show "sound_db d'" using d
    by (auto simp: sound_db_def intro: store_ok_append_event done_ok_grow AppendEvent_status work_frame_grow AppendEvent_work)
qed

interpretation sound_run: fully_guarded_store db_store "\<lambda>s. sound_db (cn_db s)"
proof
  show "sound_db (cn_db (snd (so_Update db_store t StatusDone s)))" if "sound_db (cn_db s)" for s t
    using that unfolding db_store_def store_ops.simps
    by (rule db_write_keeps) (auto simp: unit_of_Inr intro: status_write_sound[OF that])
qed

text \<open>No transaction of the harness but the last status write makes a task done, and a completion without
  evidence is refused before anything is looked up.\<close>

interpretation undone: db_guard "\<lambda>d. status_of d j \<noteq> Some StatusDone" for j
proof
  fix d d' env t r
  assume "status_of d j \<noteq> Some StatusDone"
    and u: "Task_Update env d t (empty_update\<lparr>uin_Status := Some StatusFailed\<rparr>) ActorAgent = Inr (d', r)"
  then show "status_of d' j \<noteq> Some StatusDone"
    using status_write_effect(2)[of env d t StatusFailed ActorAgent d' "fst r" "snd r" j] by simp
next
  fix d d' env t ty data
  assume d: "status_of d j \<noteq> Some StatusDone" and e: "Events_Append env d t ty ActorAgent data = Inr d'"
  from e obtain n where "AppendEvent (tx_evnow env) d (trim_space t) n ty ActorAgent data = Inr d'" by (elim Events_AppendE)
  then show "status_of d' j \<noteq> Some StatusDone" using d by (simp add: status_of_same[OF AppendEvent_status])
qed (simp_all add: status_of_same[OF cycle_step_status] status_of_same[OF Checklist_SetDone_status]
      status_of_same[OF SetDoneWithEvidence_status])

interpretation undone_run: evidence_store db_store "\<lambda>s. status_of (cn_db s) j \<noteq> Some StatusDone" for j
proof
  fix vk t i rs c and s :: store_conn
  assume "vk \<noteq> VerifierLegacy"
  then have "\<exists>d. SetDoneWithEvidence (cn_tx s (cn_tick s)) (cn_db s) t i [] vk rs c ActorAgent = Inl (ErrInvalidInput d)"
    by (simp add: SetDoneWithEvidence_def validateEvidencePayload_def)
  then show "\<exists>e s'. so_SetItemDoneWithEvidence db_store t i [] vk rs c s = (Inl e, s') \<and> e \<noteq> ErrNotFound"
    by (auto simp: db_store_def db_write_def db_call_def unit_of_def Let_def split: option.split)
qed

end
