(* ===== verification/Harness_Properties.thy ===== *)
theory Harness_Properties
  imports Harness_Store
begin

text \<open>
  What whole runs of the harness guarantee, on the database and whatever the runner, git and the report
  files answer and whichever store calls fail; and the sample run the properties are tried on.
\<close>

section \<open>A sample run\<close>

text \<open>Call \<open>n\<close> has clock \<open>n\<close> and identifiers of its own.\<close>

definition sample_conn :: "db \<Rightarrow> (nat \<Rightarrow> string option) \<Rightarrow> store_conn" where
  "sample_conn d fault = \<lparr>cn_db = d, cn_criteria = [], cn_verify = [], cn_commits = [],
     cn_settings = \<lparr>as_VerifyMaxRetries = 1, as_VerifyRunnerModel = [], as_VerifyCommandTimeoutSeconds = 0\<rparr>,
     cn_tick = 0, cn_tx = (\<lambda>n. \<lparr>tx_now = int n, tx_evnow = int n, tx_uuid = replicate (Suc n) CHR ''x'', tx_uuid2 = ''corr''\<rparr>),
     cn_ids = (\<lambda>n k. replicate (Suc n) CHR ''r'' @ replicate k CHR ''q''), cn_fault = fault\<rparr>"

definition sample_answer :: runner_answer where
  "sample_answer = \<lparr>ra_Progress = [], ra_Summary = ''did it'', ra_Details = RawBlank, ra_Err = None\<rparr>"

definition sample_claims :: "criteria_doc report_file" where
  "sample_claims = FileDoc \<lparr>cd_SchemaVersion = 1, cd_Criteria = [\<lparr>cl_ID = ''i'', cl_ClaimedDone = True, cl_Evidence = ''log''\<rparr>],
     cd_Commits = []\<rparr>"

definition sample_judgement :: "bool \<Rightarrow> verify_doc report_file" where
  "sample_judgement ok = FileDoc \<lparr>vd_SchemaVersion = 1,
     vd_Criteria = [\<lparr>jd_ID = ''i'', jd_Verified = ok, jd_Reasoning = replicate 40 CHR ''y''\<rparr>]\<rparr>"

definition sample_iteration :: "bool \<Rightarrow> iteration" where
  "sample_iteration ok = \<lparr>it_GitHead = GitNotRepo, it_GitTop = GitNotRepo, it_GitBranch = GitNotRepo, it_GitAt = [],
     it_Run = sample_answer, it_RunFallback = sample_answer, it_OperatorCancel = False, it_CtxDone = False,
     it_ReportAfterRun = sample_claims, it_CommitAnswers = (\<lambda>_. None), it_Head = HeadUnknown, it_PreHead = GitNotRepo,
     it_PreStatus = GitNotRepo, it_ReportAtVerify = sample_claims, it_CommandErr = None, it_VerifyRun = sample_answer,
     it_VerifyRunFallback = sample_answer, it_VerifyReport = sample_judgement ok, it_PostHead = GitNotRepo,
     it_PostStatus = GitNotRepo, it_ReportAtRetry = sample_claims, it_HeadAtRetry = HeadUnknown\<rparr>"

text \<open>The verifying agent rejects the first \<open>n\<close> rounds.\<close>

definition sample_world :: "nat \<Rightarrow> run_world" where
  "sample_world n = \<lparr>rw_Name = ''fake'', rw_Version = [], rw_PromptHash = [], rw_CycleMeta = [], rw_StreamIdleStuck = 0,
     rw_WorkingDir = [], rw_order = (\<lambda>vs. vs), rw_iter = (\<lambda>k. sample_iteration (n \<le> k))\<rparr>"

definition sample_reset :: reset_world where
  "sample_reset = \<lparr>zw_Head = GitNotRepo, zw_ParentOf = (\<lambda>_. None), zw_ResetOK = (\<lambda>_. True)\<rparr>"

definition the_task :: task where
  "the_task = (case LoadTask created_db ''t'' of Inl _ \<Rightarrow> sample_task ''t'' | Inr t \<Rightarrow> t)"

definition sample_run :: "nat \<Rightarrow> (nat \<Rightarrow> string option) \<Rightarrow> store_conn run" where
  "sample_run n fault = RunWithRetry db_store (sample_world n) sample_reset the_task None (sample_conn created_db fault)"


section \<open>Every run leaves a sound database\<close>

text \<open>C3. Whatever the runner, git, the report files and an operator answer and whichever store calls fail,
  a run of the harness (a fresh cycle, an operator's retry, or a continuation after a restart) keeps the
  database sound: all invariants of the store hold, and every task that is done has a valid completion
  for each of its criteria.\<close>

theorem harness_runs_sound:
  assumes "sound_db (cn_db s)"
  shows "sound_db (cn_db (snd (RunWithRetry db_store W Z t intent s))) \<and> sound_db (cn_db (snd (Resume db_store W t c s)))"
  using sound_run.RunWithRetry_keeps[OF assms] sound_run.Resume_keeps[OF assms] by simp

lemma created_db_sound: "sound_db created_db"
proof -
  have "map task_Status (db_tasks created_db) = [StatusReady]" by code_simp
  then have "status_of created_db j \<noteq> Some StatusDone" for j by (auto simp: status_of_def split: if_splits)
  then show ?thesis using created_db_ok by (simp add: sound_db_def done_ok_def)
qed

theorem harness_runs_sound_witness:
  "sound_db (cn_db (snd (RunWithRetry db_store (sample_world 1) sample_reset the_task None (sample_conn created_db (\<lambda>_. None))))) \<and>
   sound_db (cn_db (snd (Resume db_store (sample_world 1) the_task sample_cycle (sample_conn created_db (\<lambda>n. if n = 1 then Some ''lost'' else None)))))"
  using harness_runs_sound[of "sample_conn created_db (\<lambda>_. None)"]
    harness_runs_sound[of "sample_conn created_db (\<lambda>n. if n = 1 then Some ''lost'' else None)"] created_db_sound
  by (simp add: sample_conn_def)

section \<open>Rounds are bounded\<close>

text \<open>The answers of the other rounds do not matter to a round.\<close>

lemma round_local:
  assumes "f k = rw_iter W k"
  shows "runCycleLoopExecute S (W\<lparr>rw_iter := f\<rparr>) k t c r = runCycleLoopExecute S W k t c r"
    "runCycleLoopVerify S (W\<lparr>rw_iter := f\<rparr>) k t c r = runCycleLoopVerify S W k t c r"
    "runCycleLoopFinalizeSuccess S (W\<lparr>rw_iter := f\<rparr>) t c r = runCycleLoopFinalizeSuccess S W t c r"
proof -
  let ?W = "W\<lparr>rw_iter := f\<rparr>"
  have w: "rw_StreamIdleStuck ?W = rw_StreamIdleStuck W" "rw_WorkingDir ?W = rw_WorkingDir W" "rw_iter ?W k = rw_iter W k"
    "rw_order ?W = rw_order W"
    using assms by simp_all
  have a: "applyExecuteEffects S ?W = applyExecuteEffects S W"
    by (intro ext) (simp only: applyExecuteEffects_def w)
  show "runCycleLoopExecute S ?W k t c r = runCycleLoopExecute S W k t c r"
    by (simp only: runCycleLoopExecute_def a w)
  show "runCycleLoopVerify S ?W k t c r = runCycleLoopVerify S W k t c r"
    by (simp only: runCycleLoopVerify_def w)
  show "runCycleLoopFinalizeSuccess S ?W t c r = runCycleLoopFinalizeSuccess S W t c r"
    by (simp only: runCycleLoopFinalizeSuccess_def unionPreviouslyPassedVerdicts_def w)
qed

lemma loop_local:
  "(\<And>i. k \<le> i \<Longrightarrow> i \<le> k + loop_measure (fst r) \<Longrightarrow> f i = rw_iter W i) \<Longrightarrow>
   runCycleLoop S (W\<lparr>rw_iter := f\<rparr>) k skp t c r = runCycleLoop S W k skp t c r"
proof (induction "loop_measure (fst r)" arbitrary: k skp r rule: less_induct)
  case less
  have "f k = rw_iter W k" by (rule less.prems) simp_all
  note local = round_local[where f = f and k = k and W = W, OF this]
  obtain go r1 where e: "(if skp then (True, r) else runCycleLoopExecute S W k t c r) = (go, r1)" by (metis surj_pair)
  obtain retry trm skn r2 where v: "runCycleLoopVerify S W k t c r1 = ((retry, trm, skn), r2)" by (metis surj_pair)
  have "runCycleLoop S (W\<lparr>rw_iter := f\<rparr>) (Suc k) skn t c r2 = runCycleLoop S W (Suc k) skn t c r2" if "go" "retry"
  proof (rule less.hyps)
    show l: "loop_measure (fst r2) < loop_measure (fst r)" using loop_descends e v that by metis
    show "f i = rw_iter W i" if "Suc k \<le> i" "i \<le> Suc k + loop_measure (fst r2)" for i
      using less.prems[of i] that l by simp
  qed
  moreover have "(if skp then (True, r) else runCycleLoopExecute S (W\<lparr>rw_iter := f\<rparr>) k t c r) = (go, r1)"
    "runCycleLoopVerify S (W\<lparr>rw_iter := f\<rparr>) k t c r1 = ((retry, trm, skn), r2)"
    using e v by (auto simp: local)
  ultimately show ?case
    by (simp add: loop_round[OF e v] loop_round[of skp r S "W\<lparr>rw_iter := f\<rparr>" k t c go r1 retry trm skn r2] local)
qed

text \<open>C19. A run goes through at most as many more rounds as its verify attempts are below the configured
  maximum: with \<open>k\<close> the current round, no answer after round \<open>k + loop_measure ps\<close> is ever asked for, so
  changing those answers changes nothing. The attempt counter never passes the maximum it is given.\<close>

theorem harness_rounds_bounded:
  "runCycleLoop S (W\<lparr>rw_iter := \<lambda>i. if i \<le> k + loop_measure (fst r) then rw_iter W i else other i\<rparr>) k skip t c r =
     runCycleLoop S W k skip t c r \<and>
   ps_verifyAttempt (fst (runCycleLoop S W k skip t c r)) \<le> max (ps_verifyAttempt (fst r)) (vs_MaxRetries (ps_verifySnap (fst r)))"
proof
  show "runCycleLoop S (W\<lparr>rw_iter := \<lambda>i. if i \<le> k + loop_measure (fst r) then rw_iter W i else other i\<rparr>) k skip t c r =
     runCycleLoop S W k skip t c r"
    by (rule loop_local) simp
  show "ps_verifyAttempt (fst (runCycleLoop S W k skip t c r)) \<le> max (ps_verifyAttempt (fst r)) (vs_MaxRetries (ps_verifySnap (fst r)))"
    by (rule runCycleLoop_attempts)
qed

section \<open>Continuations that cannot succeed\<close>

lemma db_read_inv: "db_read op s = (r, s') \<Longrightarrow> s' = s\<lparr>cn_tick := Suc (cn_tick s)\<rparr> \<and> (\<forall>a. r = Inr a \<longrightarrow> op (s\<lparr>cn_tick := Suc (cn_tick s)\<rparr>) = Inr a)"
  by (auto simp: db_read_def db_call_def Let_def split: option.splits sum.splits)

lemma ReconstructCheckpoint_db:
  assumes "ReconstructCheckpoint db_store c s = (Inr cp, s1)"
  shows "\<exists>rows. ListVerifyReportsForCycle (cn_verify s) (cycle_ID c) = Inr rows \<and> rk_PreviouslyPassed cp = passed_of_rows rows"
    "\<exists>p \<in> set (db_phases (cn_db s)). ph_CycleID p = trim_space (cycle_ID c)" "cn_db s1 = cn_db s"
proof -
  from assms obtain phases s2 rows s3 m fb commits where
    a: "so_ListPhases db_store (cycle_ID c) s = (Inr phases, s2)" "phases \<noteq> []"
    and b: "so_ListVerifyReports db_store (cycle_ID c) s2 = (Inr rows, s3)" "rk_PreviouslyPassed cp = passed_of_rows rows"
    and d: "so_ListCommitsForTask db_store (cycle_TaskID c) s3 = (Inr commits, s1)"
    by (auto simp: ReconstructCheckpoint_def loadVerifyCheckpointData_def Let_def split: if_splits prod.splits sum.splits)
  have s2: "cn_verify s2 = cn_verify s" "cn_db s2 = cn_db s" and "ListPhasesForCycle (cn_db s) (cycle_ID c) = Inr phases"
    using a(1) by (auto simp: db_store_def dest!: db_read_inv)
  then have p: "set phases = set (cycle_phases (cn_db s) (trim_space (cycle_ID c)))"
    by (auto simp: ListPhasesForCycle_def Let_def if_Inl_Inr_iff)
  obtain x where "x \<in> set phases" using a(2) by (cases phases) auto
  then show "\<exists>p \<in> set (db_phases (cn_db s)). ph_CycleID p = trim_space (cycle_ID c)"
    unfolding p by (auto simp: cycle_phases_def)
  show "\<exists>rows. ListVerifyReportsForCycle (cn_verify s) (cycle_ID c) = Inr rows \<and> rk_PreviouslyPassed cp = passed_of_rows rows"
    using b s2 by (auto simp: db_store_def dest!: db_read_inv)
  show "cn_db s1 = cn_db s" using b(1) d s2 by (auto simp: db_store_def dest!: db_read_inv)
qed

lemma foldl_keeps: "Q a \<Longrightarrow> (\<And>a x. Q a \<Longrightarrow> x \<in> set xs \<Longrightarrow> Q (f a x)) \<Longrightarrow> Q (foldl f a xs)"
  by (induction xs arbitrary: a) auto

lemma passed_of_rows_unproved:
  assumes "r \<in> set rows" "vr_Verified r" "\<forall>r\<in>set rows. vr_Verified r \<longrightarrow> vr_VerifierKind r \<noteq> VerifierLegacy"
  shows "passed_of_rows rows \<noteq> []" "\<forall>v \<in> snd ` set (passed_of_rows rows). unproved v"
proof -
  let ?f = "\<lambda>pp r. if \<not> vr_Verified r then pp else if locked pp (vr_CriterionID r) then pp else pp @ [(vr_CriterionID r, verdict_of_row r)]"
  obtain ys zs where rows: "rows = ys @ r # zs" using assms(1) by (meson split_list)
  have "?f pp r \<noteq> []" for pp using assms(2) by (cases pp) auto
  then have "foldl ?f (?f (foldl ?f [] ys) r) zs \<noteq> []" by (rule foldl_keeps[where Q = "\<lambda>pp. pp \<noteq> []"]) (auto split: if_splits)
  then show "passed_of_rows rows \<noteq> []" unfolding passed_of_rows_def rows foldl_append foldl_Cons .
  have "\<forall>v \<in> snd ` set (foldl ?f [] rows). unproved v"
    by (rule foldl_keeps) (use assms(3) in \<open>auto simp: unproved_def verdict_of_row_def\<close>)
  then show "\<forall>v \<in> snd ` set (passed_of_rows rows). unproved v" unfolding passed_of_rows_def .
qed

lemma update_unproved:
  assumes "\<forall>v \<in> snd ` set out. unproved v" "unproved w"
  shows "\<forall>v \<in> snd ` set (AList.update k w out). unproved v" "AList.update k w out \<noteq> []"
  using assms by (induction out) auto

lemma harnessVerdicts_unproved:
  assumes "m \<noteq> []" "\<forall>v \<in> snd ` set m. unproved v"
  shows "\<exists>v \<in> snd ` set (harnessVerdictsFromResume m). unproved v"
proof -
  let ?f = "\<lambda>out (i, v). let k = (if vt_ID v = [] then i else vt_ID v) in AList.update k (v\<lparr>vt_ID := k\<rparr>) out"
  have u: "unproved v \<Longrightarrow> unproved (v\<lparr>vt_ID := k\<rparr>)" for v k by (simp add: unproved_def)
  let ?Q = "\<lambda>out. out \<noteq> [] \<and> (\<forall>v \<in> snd ` set out. unproved v)"
  have f: "?Q (?f out x)" if "\<forall>v \<in> snd ` set out. unproved v" "x \<in> set m" for out x
  proof -
    obtain i v where x: "x = (i, v)" by (cases x)
    have "unproved v" using assms(2) that(2) x by force
    then show ?thesis unfolding x Let_def prod.case using update_unproved[OF that(1) u] by blast
  qed
  obtain x xs where m: "m = x # xs" using assms(1) by (cases m) auto
  have "?Q (foldl ?f (?f [] x) xs)"
  proof (rule foldl_keeps[where Q = ?Q])
    show "?Q (?f [] x)" by (rule f) (simp_all add: m)
    show "?Q (?f out y)" if "?Q out" "y \<in> set xs" for out y by (rule f) (use that m in simp_all)
  qed
  then have "?Q (harnessVerdictsFromResume m)" by (simp add: harnessVerdictsFromResume_def m)
  then show ?thesis by (metis image_eqI list.set_intros(1) list.exhaust)
qed

lemma bestEffortFailTask_work: "work_frame (cn_db s) (cn_db (bestEffortFailTask db_store t s))"
  unfolding bestEffortFailTask_def db_store_def store_ops.simps
proof (rule db_write_keeps)
  show "work_frame (cn_db s) d" if "unit_of (Task_Update env (cn_db s) t (empty_update\<lparr>uin_Status := Some StatusFailed\<rparr>) ActorAgent) = Inr (d, a)"
    for env d a
    using that status_write_effect(1) by (auto simp: unit_of_Inr)
qed (simp add: work_frame_def)

text \<open>C20. A pass that a restart rebuilds from the verify reports has no evidence, and the store refuses a
  completion without evidence. So once a criterion of the running cycle has been verified (by any verifier
  but a legacy one), a continuation after a restart cannot make the task done, whatever the agents, git and
  the store answer: the run can only end failed or be cut off.\<close>

theorem resume_with_verified_row_never_done:
  assumes rows: "\<exists>r \<in> set (cn_verify s). vr_CycleID r = trim_space (cycle_ID c) \<and> vr_Verified r"
      "\<forall>r \<in> set (cn_verify s). vr_CycleID r = trim_space (cycle_ID c) \<and> vr_Verified r \<longrightarrow> vr_VerifierKind r \<noteq> VerifierLegacy"
    and order: "\<And>xs. set xs \<subseteq> set (rw_order W xs)"
    and undone: "status_of (cn_db s) (task_ID t) \<noteq> Some StatusDone"
  shows "status_of (cn_db (snd (Resume db_store W t c s))) (task_ID t) \<noteq> Some StatusDone"
proof (cases "ReconstructCheckpoint db_store c s")
  case (Pair x s1)
  have i1: "status_of (cn_db s1) (task_ID t) \<noteq> Some StatusDone"
    using undone.ReconstructCheckpoint_keeps[of s "task_ID t" c] undone Pair by simp
  show ?thesis
  proof (cases x)
    case (Inl e)
    then show ?thesis using undone.bestEffortFailTask_keeps[OF i1] Pair by (simp add: Resume_def)
  next
    case (Inr cp)
    obtain out where out: "ListVerifyReportsForCycle (cn_verify s) (cycle_ID c) = Inr out" "rk_PreviouslyPassed cp = passed_of_rows out"
      using ReconstructCheckpoint_db(1) Pair Inr by blast
    have mem: "r \<in> set out \<longleftrightarrow> r \<in> set (cn_verify s) \<and> vr_CycleID r = trim_space (cycle_ID c)" for r
      using out(1) by (auto simp: ListVerifyReportsForCycle_def Let_def if_Inl_Inr_iff)
    obtain r where "r \<in> set out" "vr_Verified r" using rows(1) mem by blast
    from passed_of_rows_unproved[OF this] rows(2) mem
    have "\<exists>v \<in> snd ` set (harnessVerdictsFromResume (rk_PreviouslyPassed cp)). unproved v"
      unfolding out(2) by (intro harnessVerdicts_unproved) blast+
    then have u: "unproved_pass (new_process_state\<lparr>ps_cycleID := cycle_ID c, ps_cycleStarted := True,
                     ps_previouslyPassed := harnessVerdictsFromResume (rk_PreviouslyPassed cp),
                     ps_verifyAttempt := rk_VerifyAttempt cp, ps_verifyFeedback := rk_VerifyFeedback cp\<rparr>)" (is "unproved_pass ?ps")
      by (simp add: unproved_pass_def)
    obtain ps2 s2 where l: "load_snapshot db_store t (?ps, s1) = (ps2, s2)" by (metis surj_pair)
    have "status_of (cn_db s2) (task_ID t) \<noteq> Some StatusDone"
      using undone.load_snapshot_keeps[of "(?ps, s1)" "task_ID t" t] i1 l by simp
    moreover have "unproved_pass ps2"
      using l u by (auto simp: load_snapshot_def unproved_pass_def split: prod.splits sum.splits)
    ultimately have "status_of (cn_db (snd (enter_loop db_store W b None t c (ps2, s2)))) (task_ID t) \<noteq> Some StatusDone" for b
      using undone_run.runCycleLoop_refused[of "(ps2, s2)" "task_ID t" W 0 b t c] order by (simp add: enter_loop_def)
    then show ?thesis using Pair Inr l by (simp add: Resume_def Let_def)
  qed
qed

text \<open>The worker died after the verify phase of the first attempt had passed criterion i and failed another:
  the execute phase before it had been closed, the verify phase by the sweep.\<close>

definition swept_db :: db where
  "swept_db = sample_db1\<lparr>db_phases :=
     [sample_phase\<lparr>ph_Status := PhaseStatusSucceeded, ph_EndedAt := Some 12\<rparr>,
      sample_phase\<lparr>ph_ID := ''q'', ph_Phase := PhaseVerify, ph_PhaseSeq := 2, ph_Status := PhaseStatusFailed,
        ph_EndedAt := Some 14, ph_Summary := Some PhaseInterruptReason\<rparr>],
     db_items := [sample_item]\<rparr>"

definition swept_conn :: "(nat \<Rightarrow> string option) \<Rightarrow> store_conn" where
  "swept_conn fault = (sample_conn swept_db fault)\<lparr>cn_verify :=
     [\<lparr>vr_ID = ''v'', vr_CycleID = ''c'', vr_AttemptSeq = 1, vr_CriterionID = ''i'', vr_Verified = True,
       vr_VerifierKind = VerifierVerifyAgent, vr_Reasoning = [], vr_WrittenAt = 13\<rparr>]\<rparr>"

theorem resume_with_verified_row_never_done_witness:
  "status_of (cn_db (snd (Resume db_store (sample_world 0) (sample_task ''t'') sample_cycle (swept_conn (\<lambda>_. None))))) (task_ID (sample_task ''t''))
     \<noteq> Some StatusDone"
  by (rule resume_with_verified_row_never_done)
     (simp_all add: swept_conn_def sample_conn_def sample_world_def swept_db_def status_of_def sample_defs)

text \<open>A crash between StartCycle and StartPhase leaves a running cycle without phases. The continuation
  after the restart then only fails the task: cycles and phases stay as they are, so from then on every
  StartCycle for the task is refused.\<close>

theorem resume_without_phases_wedges:
  assumes c: "c \<in> set (db_cycles (cn_db s))" "cycle_Status c = CycleStatusRunning"
    and none: "\<And>p. p \<in> set (db_phases (cn_db s)) \<Longrightarrow> ph_CycleID p \<noteq> trim_space (cycle_ID c)"
  shows "db_cycles (cn_db (snd (Resume db_store W t c s))) = db_cycles (cn_db s) \<and>
     db_phases (cn_db (snd (Resume db_store W t c s))) = db_phases (cn_db s) \<and>
     (\<forall>env inp. trim_space (sci_TaskID inp) = cycle_TaskID c \<longrightarrow> (\<nexists>r. Start env (cn_db (snd (Resume db_store W t c s))) inp = Inr r))"
proof -
  obtain x s1 where r: "ReconstructCheckpoint db_store c s = (x, s1)" by (metis surj_pair)
  have "\<nexists>cp. x = Inr cp" using ReconstructCheckpoint_db(2) r none by blast
  then have res: "snd (Resume db_store W t c s) = bestEffortFailTask db_store (task_ID t) s1" using r
    by (cases x) (auto simp: Resume_def)
  have "cn_db s1 = cn_db s"
    using r by (auto simp: ReconstructCheckpoint_def loadVerifyCheckpointData_def db_store_def Let_def
        split: if_splits prod.splits sum.splits dest!: db_read_inv)
  then have f: "db_cycles (cn_db (snd (Resume db_store W t c s))) = db_cycles (cn_db s) \<and>
     db_phases (cn_db (snd (Resume db_store W t c s))) = db_phases (cn_db s)"
    using bestEffortFailTask_work[of s1 "task_ID t"] unfolding res by (simp add: work_frame_def)
  have "\<nexists>r. Start env d inp = Inr r"
    if "trim_space (sci_TaskID inp) = cycle_TaskID c" "db_cycles d = db_cycles (cn_db s)" for env d inp
  proof
    assume "\<exists>r. Start env d inp = Inr r"
    then obtain d' c' where "Start env d inp = Inr (d', c')" by auto
    then have "assertNoRunningCycleForTask d (cycle_TaskID c) = Inr ()" using that(1) by (elim StartE) simp
    then show False using c that(2) by (auto simp: assertNoRunningCycleForTask_def filter_empty_conv split: if_splits)
  qed
  then show ?thesis using f by blast
qed

theorem resume_without_phases_wedges_witness:
  "db_cycles (cn_db (snd (Resume db_store (sample_world 0) (sample_task ''t'') sample_cycle (sample_conn sample_db1 (\<lambda>_. None)))))
     = [sample_cycle] \<and>
   (\<nexists>r. Start (sample_env ''d'') (cn_db (snd (Resume db_store (sample_world 0) (sample_task ''t'') sample_cycle (sample_conn sample_db1 (\<lambda>_. None)))))
      \<lparr>sci_TaskID = ''t'', sci_TriggeredBy = ActorAgent, sci_ParentCycleID = None, sci_Meta = PBlank\<rparr> = Inr r)"
  using resume_without_phases_wedges[of sample_cycle "sample_conn sample_db1 (\<lambda>_. None)" "sample_world 0" "sample_task ''t''"]
  by (simp add: sample_conn_def sample_defs)

end
