(* ===== verification/Harness_Healthy.thy ===== *)
theory Harness_Healthy
  imports Harness_Attempts Harness_Properties
begin

text \<open>
  The database as the store of one task's attempts: while no call fails, \<open>db_store\<close> keeps the contract
  \<open>attempt_store\<close>, so a run of the harness on a healthy store settles its task.
\<close>

section \<open>The attempt in the tables\<close>

definition attempt_of :: "string \<Rightarrow> db \<Rightarrow> attempt" where
  "attempt_of t d =
     (case List.find (\<lambda>c. cycle_TaskID c = t \<and> cycle_Status c = CycleStatusRunning) (db_cycles d) of
        None \<Rightarrow> Idle
      | Some c \<Rightarrow>
          (case List.find (\<lambda>p. ph_CycleID p = cycle_ID c \<and> ph_Status p = PhaseStatusRunning) (db_phases d) of
             None \<Rightarrow> Opened (cycle_ID c) | Some p \<Rightarrow> Busy (cycle_ID c) (ph_PhaseSeq p)))"

definition cycle_open :: "string \<Rightarrow> db \<Rightarrow> string \<Rightarrow> bool" where
  "cycle_open t d i \<longleftrightarrow> (\<exists>c\<in>set (db_cycles d). cycle_ID c = i \<and> cycle_TaskID c = t \<and> cycle_Status c = CycleStatusRunning)"

definition phase_open :: "db \<Rightarrow> string \<Rightarrow> int \<Rightarrow> bool" where
  "phase_open d i n \<longleftrightarrow> (\<exists>p\<in>set (db_phases d). ph_CycleID p = i \<and> ph_PhaseSeq p = n \<and> ph_Status p = PhaseStatusRunning)"

lemma find_unique:
  assumes "length (filter P xs) \<le> 1" shows "List.find P xs = Some x \<longleftrightarrow> x \<in> set xs \<and> P x"
proof
  assume x: "x \<in> set xs \<and> P x"
  then obtain y where y: "List.find P xs = Some y" using find_None_iff[of P xs] by fast
  then have "y \<in> set (filter P xs)" "x \<in> set (filter P xs)" using x by (auto simp: find_Some_iff)
  moreover obtain z where "set (filter P xs) \<subseteq> {z}" using assms by (cases "filter P xs") auto
  ultimately show "List.find P xs = Some x" using y by auto
qed (auto simp: find_Some_iff)

lemma attempt_iff:
  assumes ok: "cycles_ok d"
  shows "attempt_of t d = Idle \<longleftrightarrow> (\<forall>i. \<not> cycle_open t d i)"
    "attempt_of t d = Opened i \<longleftrightarrow> cycle_open t d i \<and> (\<forall>n. \<not> phase_open d i n)"
    "attempt_of t d = Busy i n \<longleftrightarrow> cycle_open t d i \<and> phase_open d i n"
proof -
  note cyc = find_unique[OF cycles_okD(9)[OF ok, of t]]
  note ph = find_unique[OF running_phases_le_1[OF ok, unfolded running_phases_def]]
  let ?R = "List.find (\<lambda>c. cycle_TaskID c = t \<and> cycle_Status c = CycleStatusRunning) (db_cycles d)"
  let ?P = "\<lambda>i. List.find (\<lambda>p. ph_CycleID p = i \<and> ph_Status p = PhaseStatusRunning) (db_phases d)"
  have c: "cycle_open t d i \<longleftrightarrow> (\<exists>c. ?R = Some c \<and> cycle_ID c = i)" for i by (auto simp: cycle_open_def cyc)
  have p: "phase_open d i n \<longleftrightarrow> (\<exists>p. ?P i = Some p \<and> ph_PhaseSeq p = n)" for i n by (auto simp: phase_open_def ph)
  show "attempt_of t d = Idle \<longleftrightarrow> (\<forall>i. \<not> cycle_open t d i)"
    unfolding c attempt_of_def by (cases ?R) (auto split: option.splits)
  show "attempt_of t d = Opened i \<longleftrightarrow> cycle_open t d i \<and> (\<forall>n. \<not> phase_open d i n)"
    unfolding c p attempt_of_def by (cases ?R) (auto split: option.splits)
  show "attempt_of t d = Busy i n \<longleftrightarrow> cycle_open t d i \<and> phase_open d i n"
    unfolding c p attempt_of_def by (cases ?R) (auto split: option.splits)
qed

section \<open>Transactions move the attempt\<close>

text \<open>\<open>healthy\<close>: no call fails, fresh identifiers are usable, and the tables are sound with \<open>I\<close> the criteria of \<open>t\<close>.\<close>

definition healthy :: "string \<Rightarrow> string set \<Rightarrow> (nat \<Rightarrow> txenv) \<Rightarrow> (nat \<Rightarrow> string option) \<Rightarrow> db \<Rightarrow> bool" where
  "healthy t I tx fault d \<longleftrightarrow>
     fault = (\<lambda>_. None) \<and> (\<forall>n. uuid_ok (tx n)) \<and> sound_db d \<and> t \<in> task_ID ` set (db_tasks d) \<and>
     ci_ID ` {i \<in> set (db_items d). ci_TaskID i = t} = I \<and> (\<forall>i\<in>I. trim_space i = i \<and> i \<noteq> []) \<and>
     (\<forall>c\<in>set (db_cycles d). trim_space (cycle_ID c) = cycle_ID c \<and> cycle_ID c \<noteq> [])"

definition proved :: "string \<Rightarrow> db \<Rightarrow> string \<Rightarrow> bool" where
  "proved t d i \<longleftrightarrow> (\<exists>c. find_completion d t (trim_space i) = Some c \<and> completion_valid c)"

lemma healthyD:
  assumes "healthy t I tx fault d"
  shows "fault n = None" "uuid_ok (tx n)" "sound_db d" "store_ok d" "cycles_ok d" "refs_ok d" "t \<in> task_ID ` set (db_tasks d)"
    "trim_space t = t" "t \<noteq> []" "ci_ID ` {i \<in> set (db_items d). ci_TaskID i = t} = I"
    "i \<in> I \<Longrightarrow> trim_space i = i \<and> i \<noteq> []"
    "c \<in> set (db_cycles d) \<Longrightarrow> trim_space (cycle_ID c) = cycle_ID c \<and> cycle_ID c \<noteq> []"
  using assms store_ok_task_id[of d t] store_okD[of d] by (auto simp: healthy_def sound_db_def)

text \<open>A transaction that keeps the cycles but for fresh identifiers keeps the store healthy.\<close>

lemma healthy_step:
  assumes "healthy t I tx fault d" "sound_db d'" "status_of d' t \<noteq> None" "db_items d' = db_items d"
    "\<And>c. c \<in> set (db_cycles d') \<Longrightarrow> trim_space (cycle_ID c) = cycle_ID c \<and> cycle_ID c \<noteq> []"
  shows "healthy t I tx fault d'"
  using assms status_of_mem[of d' t] by (auto simp: healthy_def)

lemma healthy_status: "healthy t I tx fault d \<Longrightarrow> status_of d t \<noteq> None"
  by (auto simp: healthy_def status_of_def find_None_iff)

text \<open>What leaves cycles and phases alone leaves the attempt alone.\<close>

definition calm_tables :: "db \<Rightarrow> db \<Rightarrow> bool" where
  "calm_tables d d' \<longleftrightarrow> db_cycles d' = db_cycles d \<and> db_phases d' = db_phases d \<and> same_status d d' \<and> completions_grow d d'"

lemma calm_tables_keep:
  assumes h: "healthy t I tx fault d" and s: "sound_db d'" and c: "calm_tables d d'"
  shows "healthy t I tx fault d'" "attempt_of t d' = attempt_of t d" "status_of d' t = status_of d t" "proved t d i \<Longrightarrow> proved t d' i"
proof -
  show "attempt_of t d' = attempt_of t d" using c unfolding calm_tables_def attempt_of_def by metis
  show st: "status_of d' t = status_of d t" using c by (simp add: calm_tables_def status_of_same)
  show "healthy t I tx fault d'"
    by (rule healthy_step[OF h s]) (use st h c healthyD(12)[OF h] healthy_status[OF h] in \<open>auto simp: calm_tables_def completions_grow_def\<close>)
  show "proved t d i \<Longrightarrow> proved t d' i" using c by (fastforce simp: calm_tables_def completions_grow_def proved_def)
qed

lemma work_calm: "work_frame d d' \<Longrightarrow> same_status d d' \<Longrightarrow> calm_tables d d'"
  by (auto simp: calm_tables_def work_frame_def intro: work_frame_grow[unfolded work_frame_def, OF conjI])

lemma quiet_calm:
  "Checklist_SetDone env d t i True ActorAgent = Inr d1 \<Longrightarrow> calm_tables d d1"
  "SetDoneWithEvidence env d t i ev v rs c ActorAgent = Inr (d2, ch) \<Longrightarrow> calm_tables d d2"
  "AppendStreamEvent env d asi = Inr (d3, row) \<Longrightarrow> calm_tables d d3"
  "Events_Append env d t typ ActorAgent data = Inr d4 \<Longrightarrow> calm_tables d d4"
proof -
  show "calm_tables d d1" if e: "Checklist_SetDone env d t i True ActorAgent = Inr d1"
  proof -
    have "db_cycles d1 = db_cycles d \<and> db_phases d1 = db_phases d"
      using e by (clarsimp simp: Checklist_SetDone_def Let_def if_Inl_Inr_iff split: if_splits)
        (auto simp: work_frame_def dest!: AppendEvent_work sync_work)
    then show ?thesis using Checklist_SetDone_status[OF e] Checklist_SetDone_grow[OF e] by (simp add: calm_tables_def)
  qed
  show "calm_tables d d2" if e: "SetDoneWithEvidence env d t i ev v rs c ActorAgent = Inr (d2, ch)"
  proof -
    have "db_cycles d2 = db_cycles d \<and> db_phases d2 = db_phases d"
      using e by (elim SetDoneWithEvidenceE) (auto simp: work_frame_def upsert_completion_def dest!: AppendEvent_work sync_work)
    then show ?thesis using SetDoneWithEvidence_status[OF e] SetDoneWithEvidence_effect(1)[OF e] by (simp add: calm_tables_def)
  qed
  show "calm_tables d d3" if e: "AppendStreamEvent env d asi = Inr (d3, row)"
  proof -
    have "cycle_step d d3" using e by (rule step_AppendStreamEvent)
    moreover have "db_cycles d3 = db_cycles d \<and> db_phases d3 = db_phases d"
      using e by (elim AppendStreamEventE) (auto dest!: insert_streamD)
    ultimately show ?thesis by (simp add: calm_tables_def cycle_step_status cycle_step_grow)
  qed
  show "calm_tables d d4" if e: "Events_Append env d t typ ActorAgent data = Inr d4"
    using e by (elim Events_AppendE) (rule work_calm, rule AppendEvent_work, assumption, rule AppendEvent_status, assumption)
qed

lemma Start_opens:
  assumes h: "healthy t I tx fault d" and idle: "attempt_of t d = Idle" and st: "Start (tx n) d inp = Inr (d', c)" "sci_TaskID inp = t"
  shows "healthy t I tx fault d' \<and> attempt_of t d' = Opened (cycle_ID c) \<and> cycle_ID c \<noteq> []"
proof -
  note a = Start_audit[OF st(1)]
  have id: "cycle_ID c = tx_uuid (tx n)" "cycle_TaskID c = t" "cycle_Status c = CycleStatusRunning"
    using st healthyD(8)[OF h] by (auto elim!: StartE)
  have u: "trim_space (cycle_ID c) = cycle_ID c" "cycle_ID c \<noteq> []" using healthyD(2)[OF h, of n] by (auto simp: uuid_ok_def id)
  have cs: "cycle_step d d'" using st(1) by (rule step_Start)
  have snd: "sound_db d'" using sound.guard_cycle[OF healthyD(3)[OF h] cs] .
  have h': "healthy t I tx fault d'"
    by (rule healthy_step[OF h snd])
      (use u a(2) healthyD(12)[OF h] healthy_status[OF h] status_of_same[OF cycle_step_status[OF cs]] cycle_step_checklist[OF cs] in auto)
  have "\<forall>i. \<not> cycle_open t d i" using idle attempt_iff(1)[OF healthyD(5)[OF h]] by simp
  then have "cycle_open t d' (cycle_ID c)" using a(2) id by (auto simp: cycle_open_def)
  moreover have "\<not> phase_open d' (cycle_ID c) m" for m
    using healthyD(6)[OF h] a(3,6) unfolding phase_open_def refs_ok_def by metis
  ultimately show ?thesis using h' u attempt_iff(2)[OF healthyD(5)[OF h']] by simp
qed

lemma phase_seq_pos: "cycles_ok d \<Longrightarrow> p \<in> set (db_phases d) \<Longrightarrow> 0 < ph_PhaseSeq p"
proof -
  assume ok: "cycles_ok d" and p: "p \<in> set (db_phases d)"
  let ?xs = "map ph_PhaseSeq (filter (\<lambda>q. ph_CycleID q = ph_CycleID p) (db_phases d))"
  have n: "numbered ?xs" using cycles_okD(4)[OF ok] by (simp add: numbered_by_def)
  have "ph_PhaseSeq p \<in> set ?xs" using p by simp
  then obtain k where "k < length ?xs" "?xs ! k = ph_PhaseSeq p" by (metis in_set_conv_nth)
  then show ?thesis using numbered_nth[OF n, of k] by simp
qed

text \<open>A cycle step that keeps the cycle rows.\<close>

lemma healthy_phase_step:
  assumes h: "healthy t I tx fault d" and cs: "cycle_step d d'" and c: "db_cycles d' = db_cycles d"
  shows "healthy t I tx fault d'"
  by (rule healthy_step[OF h sound.guard_cycle[OF healthyD(3)[OF h] cs]])
    (use healthyD(12)[OF h] healthy_status[OF h] status_of_same[OF cycle_step_status[OF cs]] cycle_step_checklist[OF cs] c in auto)

lemma StartPhase_busies:
  assumes h: "healthy t I tx fault d" and att: "attempt_of t d = Opened i" and st: "StartPhase env d i ph ActorAgent = Inr (d', p)"
  shows "healthy t I tx fault d' \<and> attempt_of t d' = Busy i (ph_PhaseSeq p) \<and> 0 < ph_PhaseSeq p"
proof -
  note a = StartPhase_audit[OF st]
  have op: "cycle_open t d i" using att attempt_iff(2)[OF healthyD(5)[OF h]] by simp
  have i: "ph_CycleID p = i" using a(6) op healthyD(12)[OF h] by (auto simp: cycle_open_def)
  have h': "healthy t I tx fault d'" using healthy_phase_step[OF h step_StartPhase[OF st] a(2)] .
  have run: "ph_Status p = PhaseStatusRunning" using st by (auto elim!: StartPhaseE)
  obtain m row where ps: "db_phases d' = update_where (\<lambda>x. ph_ID x = ph_ID row) (\<lambda>p. p\<lparr>ph_EventSeq := Some m\<rparr>) (db_phases d @ [row])"
    and p: "p = row\<lparr>ph_EventSeq := Some m\<rparr>" using a(5) by blast
  have mem: "p \<in> set (db_phases d')" unfolding ps by (auto simp: set_update_where p)
  then have "phase_open d' i (ph_PhaseSeq p)" using i run by (auto simp: phase_open_def)
  moreover have "cycle_open t d' i" using op a(2) by (simp add: cycle_open_def)
  ultimately show ?thesis using h' mem phase_seq_pos[OF healthyD(5)[OF h']] attempt_iff(3)[OF healthyD(5)[OF h']] by simp
qed

lemma CompletePhase_opens:
  assumes h: "healthy t I tx fault d" and att: "attempt_of t d = Busy i n"
    and st: "TerminalPhaseStatus (cpi_Status inp)" "normal_details (cpi_Details inp)"
    and inp: "cpi_CycleID inp = i" "cpi_PhaseSeq inp = n" "cpi_By inp = ActorAgent"
  shows "\<exists>d' p. CompletePhase env d inp = Inr (d', p) \<and> healthy t I tx fault d' \<and> attempt_of t d' = Opened i"
proof -
  note ok = healthyD(5)[OF h]
  have op: "cycle_open t d i" "phase_open d i n" using att attempt_iff(3)[OF ok] by simp_all
  then obtain c q0 where c: "c \<in> set (db_cycles d)" "cycle_ID c = i" "cycle_TaskID c = t"
    and q0: "q0 \<in> set (db_phases d)" "ph_CycleID q0 = i" "ph_PhaseSeq q0 = n" "ph_Status q0 = PhaseStatusRunning"
    by (auto simp: cycle_open_def phase_open_def)
  have i: "trim_space i = i" "i \<noteq> []" using healthyD(12)[OF h c(1)] c(2) by auto
  have "complete_phase_pre d inp"
    using st inp i c q0 phase_seq_pos[OF ok q0(1)] healthyD(7)[OF h]
    by (auto simp: complete_phase_pre_def normal_details_def)
  then obtain d' p where e: "CompletePhase env d inp = Inr (d', p)" using CompletePhase_succeeds[OF ok] by blast
  note a = CompletePhase_audit[OF e]
  have h': "healthy t I tx fault d'" using healthy_phase_step[OF h step_CompletePhase[OF e] a(2)] .
  obtain q m k where q: "q \<in> set (db_phases d)" "ph_CycleID q = ph_CycleID p" "ph_PhaseSeq q = cpi_PhaseSeq inp"
      "\<not> TerminalPhaseStatus (ph_Status q)"
    and ps: "db_phases d' = update_where (\<lambda>x. ph_ID x = ph_ID q)
         (\<lambda>x. (complete_update inp (tx_now env) m x)\<lparr>ph_EventSeq := Some k\<rparr>) (db_phases d)" using a(5) by blast
  have pi: "ph_CycleID p = i" using e by (elim CompletePhaseE) (use i inp in \<open>simp add: loadPhaseByCycleSeqD\<close>)
  have "\<not> phase_open d' i m'" for m'
  proof
    assume "phase_open d' i m'"
    then obtain x where x: "x \<in> set (db_phases d')" "ph_CycleID x = i" "ph_Status x = PhaseStatusRunning"
      by (auto simp: phase_open_def)
    then have x': "x \<in> set (db_phases d)" "ph_ID x \<noteq> ph_ID q" using st(1) unfolding ps by (auto simp: set_update_where)
    then have "phase_open d i (ph_PhaseSeq x)" using x by (auto simp: phase_open_def)
    then have "attempt_of t d = Busy i (ph_PhaseSeq x)" using op attempt_iff(3)[OF ok] by simp
    then have "ph_PhaseSeq x = ph_PhaseSeq q" using att q inp by simp
    then show False using numbered_by_inj[OF cycles_okD(4)[OF ok], of x q] x' x q pi by auto
  qed
  moreover have "cycle_open t d' i" using op a(2) by (simp add: cycle_open_def)
  ultimately show ?thesis using e h' attempt_iff(2)[OF healthyD(5)[OF h']] by blast
qed

lemma Terminate_idles:
  assumes h: "healthy t I tx fault d" and att: "attempt_of t d = Opened i" and st: "TerminalCycleStatus st"
  shows "\<exists>d' c. Terminate env d i st reason ActorAgent = Inr (d', c) \<and> healthy t I tx fault d' \<and> attempt_of t d' = Idle \<and>
    db_completions d' = db_completions d"
proof -
  note ok = healthyD(5)[OF h]
  have op: "cycle_open t d i" "\<forall>n. \<not> phase_open d i n" using att attempt_iff(2)[OF ok] by simp_all
  then obtain c where c: "c \<in> set (db_cycles d)" "cycle_ID c = i" "cycle_TaskID c = t" "cycle_Status c = CycleStatusRunning"
    by (auto simp: cycle_open_def)
  have i: "trim_space i = i" "i \<noteq> []" using healthyD(12)[OF h c(1)] c(2) by auto
  have "terminate_pre d i st ActorAgent"
    using st c i op(2) healthyD(7)[OF h] by (auto simp: terminate_pre_def phase_open_def)
  then obtain d' c' where e: "Terminate env d i st reason ActorAgent = Inr (d', c')" using Terminate_succeeds[OF ok] by blast
  note a = Terminate_audit[OF e]
  have cs: "cycle_step d d'" using e by (rule step_Terminate)
  have cy: "x \<in> set (db_cycles d') \<Longrightarrow> (x \<in> set (db_cycles d) \<and> cycle_ID x \<noteq> i) \<or>
      (cycle_Status x = st \<and> cycle_ID x = i)" for x
    using a(6) i unfolding a(2) set_cycle_status_def by (auto simp: set_update_where)
  have h': "healthy t I tx fault d'"
    by (rule healthy_step[OF h sound.guard_cycle[OF healthyD(3)[OF h] cs]])
      (use healthyD(12)[OF h] i healthy_status[OF h] status_of_same[OF cycle_step_status[OF cs]] cycle_step_checklist[OF cs] cy in auto)
  have "\<not> cycle_open t d' j" for j
  proof
    assume "cycle_open t d' j"
    then obtain x where x: "x \<in> set (db_cycles d')" "cycle_ID x = j" "cycle_TaskID x = t" "cycle_Status x = CycleStatusRunning"
      by (auto simp: cycle_open_def)
    then have "x \<in> set (db_cycles d)" "j \<noteq> i" using cy[OF x(1)] st by auto
    then have "cycle_open t d j" using x by (auto simp: cycle_open_def)
    then have "attempt_of t d \<noteq> Idle" "attempt_of t d = Opened j \<or> (\<exists>n. attempt_of t d = Busy j n)"
      using attempt_iff[OF ok] by auto
    then show False using att \<open>j \<noteq> i\<close> by auto
  qed
  then show ?thesis using e h' attempt_iff(1)[OF healthyD(5)[OF h']] cycle_step_checklist[OF cs] by blast
qed

section \<open>The contract on the database\<close>

lemma db_write_runs:
  "cn_fault s = (\<lambda>_. None) \<Longrightarrow> db_write op s =
     (case op (cn_tx s (cn_tick s)) (cn_db s) of
        Inl e \<Rightarrow> (Inl e, s\<lparr>cn_tick := Suc (cn_tick s)\<rparr>)
      | Inr (d, a) \<Rightarrow> (Inr a, s\<lparr>cn_tick := Suc (cn_tick s), cn_db := d\<rparr>))"
  by (auto simp: db_write_def db_call_def Let_def split: sum.split)

lemma db_read_runs:
  "cn_fault s = (\<lambda>_. None) \<Longrightarrow> op (s\<lparr>cn_tick := Suc (cn_tick s)\<rparr>) = Inr a \<Longrightarrow>
     db_read op s = (Inr a, s\<lparr>cn_tick := Suc (cn_tick s)\<rparr>)"
  by (simp add: db_read_def db_call_def Let_def)

lemma healthy_no_fault: "healthy t I tx fault d \<Longrightarrow> fault = (\<lambda>_. None)"
  by (simp add: healthy_def)

lemma criteria_listed:
  assumes h: "healthy t I tx fault d"
  shows "\<exists>its. ListForVerify d t = Inr its \<and> vi_ID ` set its = I" "\<exists>its. Checklist_List d t = Inr its \<and> iv_ID ` set its = I"
proof -
  note t = healthyD(7,8,9)[OF h]
  obtain tk where l: "LoadTask d t = Inr tk" using LoadTask_ex t(1) by blast
  have set: "ci_ID ` set (itemsForDefinition d t) = I" using healthyD(10)[OF h] by (auto simp: itemsForDefinition_def)
  have id: "iv_ID (item_view_of d t it) = ci_ID it" for it by (simp add: item_view_of_def Let_def split: option.split)
  show "\<exists>its. ListForVerify d t = Inr its \<and> vi_ID ` set its = I"
    using set l t by (auto simp: ListForVerify_def Let_def DefinitionSource_Inr image_image)
  show "\<exists>its. Checklist_List d t = Inr its \<and> iv_ID ` set its = I"
    using set l t id by (auto simp: Checklist_List_def Let_def DefinitionSource_Inr image_image)
qed

lemma AppendEvent_not_found: "AppendEvent now s t n typ by data \<noteq> Inl ErrNotFound"
  by (auto simp: AppendEvent_def insert_event_def NormalizeJSONObject_def split: payload.split json.split)

lemma evidence_of_known_item:
  assumes h: "healthy t I tx fault d" and i: "i \<in> I"
  shows "SetDoneWithEvidence env d t i ev v r c ActorAgent \<noteq> Inl ErrNotFound"
proof -
  note t = healthyD(7,8,9)[OF h] and ti = healthyD(11)[OF h i]
  obtain tk where l: "LoadTask d t = Inr tk" using LoadTask_ex t(1) by blast
  obtain it where "it \<in> set (db_items d)" "ci_ID it = i \<and> ci_TaskID it = t" using i healthyD(10)[OF h] by auto
  then obtain it' where it': "List.find (\<lambda>x. ci_ID x = i \<and> ci_TaskID x = t) (db_items d) = Some it'"
    using find_None_iff[of "\<lambda>x. ci_ID x = i \<and> ci_TaskID x = t" "db_items d"] by fast
  have "validateEvidencePayload ev v r \<noteq> Inl ErrNotFound" by (simp add: validateEvidencePayload_def)
  moreover have "NextEventSeq s t \<noteq> Inl ErrNotFound" for s by (simp add: NextEventSeq_def)
  moreover have "syncCriteriaSatisfiedAtInTx n s t \<noteq> Inl ErrNotFound" for n s
    by (auto simp: syncCriteriaSatisfiedAtInTx_def Let_def split: option.split)
  ultimately show ?thesis
    using l t ti it' AppendEvent_not_found
    by (auto simp: SetDoneWithEvidence_def Let_def rbind_def loadItem_def DefinitionSource_Inr split: sum.split)
qed

definition held :: "string \<Rightarrow> string set \<Rightarrow> attempt \<Rightarrow> status option \<Rightarrow> string set \<Rightarrow>
    (nat \<Rightarrow> txenv) \<Rightarrow> (nat \<Rightarrow> string option) \<Rightarrow> db \<Rightarrow> bool" where
  "held t I A X H tx fault d \<longleftrightarrow>
     healthy t I tx fault d \<and> attempt_of t d = A \<and> status_of d t = X \<and> (\<forall>i\<in>H. proved t d i)"

lemma held_calm: "held t I A X H tx fault d \<Longrightarrow> sound_db d' \<Longrightarrow> calm_tables d d' \<Longrightarrow> held t I A X H tx fault d'"
  using calm_tables_keep[of t I tx fault d d'] by (simp add: held_def)

lemma held_sound: "held t I A X H tx fault d \<Longrightarrow> sound_db d"
  by (simp add: held_def healthy_def)

interpretation kept: db_quiet "held t I A X H" for t I A X H
proof
  fix e f d d' env u i
  assume h: "held t I A X H e f d" and op: "Checklist_SetDone env d u i True ActorAgent = Inr d'"
  show "held t I A X H e f d'" by (rule held_calm[OF h sound.quiet_item[OF held_sound[OF h] op] quiet_calm(1)[OF op]])
next
  fix e f d d' env u i ev v rs c ch
  assume h: "held t I A X H e f d" and op: "SetDoneWithEvidence env d u i ev v rs c ActorAgent = Inr (d', ch)"
  show "held t I A X H e f d'" by (rule held_calm[OF h sound.quiet_evidence[OF held_sound[OF h] op] quiet_calm(2)[OF op]])
next
  fix e f d d' env asi row
  assume h: "held t I A X H e f d" and op: "AppendStreamEvent env d asi = Inr (d', row)"
  show "held t I A X H e f d'" by (rule held_calm[OF h sound.quiet_stream[OF held_sound[OF h] op] quiet_calm(3)[OF op]])
next
  fix e f d d' env u ty data
  assume h: "held t I A X H e f d" and op: "Events_Append env d u ty ActorAgent data = Inr d'"
  show "held t I A X H e f d'" by (rule held_calm[OF h sound.quiet_event[OF held_sound[OF h] op] quiet_calm(4)[OF op]])
qed

lemma status_write_healthy:
  assumes h: "healthy t I tx fault d" and v: "v = StatusFailed \<or> v = StatusDone \<and> (\<forall>i\<in>I. proved t d i)"
  shows "\<exists>d' r. Task_Update env d t (empty_update\<lparr>uin_Status := Some v\<rparr>) ActorAgent = Inr (d', r) \<and>
    healthy t I tx fault d' \<and> attempt_of t d' = attempt_of t d \<and> status_of d' t = Some v"
proof -
  note t = healthyD(7,8)[OF h]
  have "ValidStatus v" using v by auto
  moreover have "v = StatusDone \<longrightarrow> checklist_complete d t"
    using v healthyD(10,11)[OF h] by (fastforce simp: checklist_complete_def proved_def)
  ultimately obtain d' r where e: "Task_Update env d t (empty_update\<lparr>uin_Status := Some v\<rparr>) ActorAgent = Inr (d', r)"
    using status_write_succeeds[OF healthyD(4)[OF h] _ _ t] by blast
  obtain u prev where r: "r = (u, prev)" by (cases r)
  note eff = status_write_effect[OF e[unfolded r]]
  have s: "status_of d' t = Some v" using eff(2) t by simp
  have "healthy t I tx fault d'"
    by (rule healthy_step[OF h status_write_sound[OF healthyD(3)[OF h] e]])
      (use s eff(1) healthyD(12)[OF h] in \<open>auto simp: work_frame_def\<close>)
  moreover have "attempt_of t d' = attempt_of t d" using eff(1) unfolding work_frame_def attempt_of_def by metis
  ultimately show ?thesis using e s by blast
qed

interpretation settling: attempt_store db_store t I "\<lambda>s. healthy t I (cn_tx s) (cn_fault s) (cn_db s)"
    "\<lambda>s. attempt_of t (cn_db s)" "\<lambda>s. status_of (cn_db s) t" "\<lambda>s. proved t (cn_db s)" for t I
proof (rule attempt_store.intro)
  let ?ok = "\<lambda>s. healthy t I (cn_tx s) (cn_fault s) (cn_db s)"
  fix A X H
  show "quiet_store db_store (\<lambda>s. ?ok s \<and> attempt_of t (cn_db s) = A \<and> status_of (cn_db s) t = X \<and> (\<forall>i\<in>H. proved t (cn_db s) i))"
    using kept.quiet_store_axioms[of t I A X H] by (simp only: held_def)
next
  fix s :: store_conn assume h: "healthy t I (cn_tx s) (cn_fault s) (cn_db s)"
  note run = db_write_runs[OF healthy_no_fault[OF h]]
  show "\<exists>s'. so_Update db_store t StatusFailed s = (Inr (), s') \<and> healthy t I (cn_tx s') (cn_fault s') (cn_db s') \<and>
      attempt_of t (cn_db s') = attempt_of t (cn_db s) \<and> status_of (cn_db s') t = Some StatusFailed"
    using status_write_healthy[OF h, of StatusFailed "cn_tx s (cn_tick s)"]
    by (auto simp: db_store_def run unit_of_def)
  show "\<exists>s'. so_Update db_store t StatusDone s = (Inr (), s') \<and> healthy t I (cn_tx s') (cn_fault s') (cn_db s') \<and>
      attempt_of t (cn_db s') = attempt_of t (cn_db s) \<and> status_of (cn_db s') t = Some StatusDone"
    if "\<forall>i\<in>I. proved t (cn_db s) i"
    using status_write_healthy[OF h, of StatusDone "cn_tx s (cn_tick s)"] that
    by (auto simp: db_store_def run unit_of_def)
next
  fix s s' :: store_conn and sci rc
  assume h: "healthy t I (cn_tx s) (cn_fault s) (cn_db s)" and idle: "attempt_of t (cn_db s) = Idle" and t: "sci_TaskID sci = t"
    and e: "so_StartCycle db_store sci s = (rc, s')"
  show "healthy t I (cn_tx s') (cn_fault s') (cn_db s') \<and> (case rc of Inl _ \<Rightarrow> attempt_of t (cn_db s') = Idle
      | Inr c \<Rightarrow> cycle_ID c \<noteq> [] \<and> attempt_of t (cn_db s') = Opened (cycle_ID c))"
    using e h idle Start_opens[OF h idle _ t, of "cn_tick s"]
    by (auto simp: db_store_def db_write_runs[OF healthy_no_fault[OF h]] split: sum.splits)
next
  fix s s' :: store_conn and c ph rp
  assume h: "healthy t I (cn_tx s) (cn_fault s) (cn_db s)" and att: "attempt_of t (cn_db s) = Opened c"
    and e: "so_StartPhase db_store c ph s = (rp, s')"
  show "healthy t I (cn_tx s') (cn_fault s') (cn_db s') \<and> (case rp of Inl _ \<Rightarrow> attempt_of t (cn_db s') = Opened c
      | Inr p \<Rightarrow> 0 < ph_PhaseSeq p \<and> attempt_of t (cn_db s') = Busy c (ph_PhaseSeq p))"
    using e h att StartPhase_busies[OF h att, of "cn_tx s (cn_tick s)"]
    by (auto simp: db_store_def db_write_runs[OF healthy_no_fault[OF h]] split: sum.splits)
next
  fix s :: store_conn and c n st su d
  assume h: "healthy t I (cn_tx s) (cn_fault s) (cn_db s)" and att: "attempt_of t (cn_db s) = Busy c n"
    and st: "TerminalPhaseStatus st" "normal_details d"
  let ?inp = "\<lparr>cpi_CycleID = c, cpi_PhaseSeq = n, cpi_Status = st, cpi_Summary = su, cpi_Details = d, cpi_By = ActorAgent\<rparr>"
  obtain d' p where "CompletePhase (cn_tx s (cn_tick s)) (cn_db s) ?inp = Inr (d', p)"
    "healthy t I (cn_tx s) (cn_fault s) d'" "attempt_of t d' = Opened c"
    using CompletePhase_opens[OF h att, of ?inp "cn_tx s (cn_tick s)"] st by auto
  then show "\<exists>s'. so_CompletePhase db_store ?inp s = (Inr (), s') \<and> healthy t I (cn_tx s') (cn_fault s') (cn_db s') \<and>
      attempt_of t (cn_db s') = Opened c"
    by (simp add: db_store_def db_write_runs[OF healthy_no_fault[OF h]] unit_of_def)
next
  fix s :: store_conn and c cs reason
  assume h: "healthy t I (cn_tx s) (cn_fault s) (cn_db s)" and att: "attempt_of t (cn_db s) = Opened c" and cs: "TerminalCycleStatus cs"
  obtain d' r where "Terminate (cn_tx s (cn_tick s)) (cn_db s) c cs reason ActorAgent = Inr (d', r)"
    "healthy t I (cn_tx s) (cn_fault s) d'" "attempt_of t d' = Idle" "db_completions d' = db_completions (cn_db s)"
    using Terminate_idles[OF h att cs] by blast
  then show "\<exists>s'. so_TerminateCycle db_store c cs reason s = (Inr (), s') \<and> healthy t I (cn_tx s') (cn_fault s') (cn_db s') \<and>
      attempt_of t (cn_db s') = Idle \<and> (\<forall>i. proved t (cn_db s) i \<longrightarrow> proved t (cn_db s') i)"
    by (simp add: db_store_def db_write_runs[OF healthy_no_fault[OF h]] unit_of_def proved_def find_completion_def)
next
  fix s :: store_conn assume h: "healthy t I (cn_tx s) (cn_fault s) (cn_db s)"
  note run = db_read_runs[OF healthy_no_fault[OF h]]
  show "\<exists>x s'. so_GetSettings db_store s = (Inr x, s')" by (simp add: db_store_def run)
  show "\<exists>its s'. so_ListChecklistForVerify db_store t s = (Inr its, s') \<and> vi_ID ` set its = I"
    using criteria_listed(1)[OF h] by (auto simp: db_store_def run)
  show "\<exists>its s'. so_ListChecklistForSubject db_store t s = (Inr its, s') \<and> iv_ID ` set its = I"
    using criteria_listed(2)[OF h] by (auto simp: db_store_def run)
next
  fix s s' :: store_conn and i ev vk rs c
  assume h: "healthy t I (cn_tx s) (cn_fault s) (cn_db s)"
  note run = db_write_runs[OF healthy_no_fault[OF h]]
  show "proved t (cn_db s') i" if "so_SetItemDoneWithEvidence db_store t i ev vk rs c s = (Inr (), s')"
    using that SetDoneWithEvidence_effect(2)[of _ _ t i ev vk rs c] healthyD(8)[OF h]
    by (auto simp: db_store_def run unit_of_def proved_def rbind_Inr_iff split: sum.splits)
  show "so_SetItemDoneWithEvidence db_store t i ev vk rs c s \<noteq> (Inl ErrNotFound, s')" if "i \<in> I"
    using evidence_of_known_item[OF h that, of "cn_tx s (cn_tick s)" ev vk rs c]
    by (auto simp: db_store_def run unit_of_def rbind_def split: sum.split sum.splits)
qed

section \<open>A run settles its task\<close>

text \<open>C4. On a healthy store, a run of the harness that does not resume an interrupted cycle settles an idle
  task, whatever the runner, git, the report files and the operator answer in whichever round: when it
  returns, no cycle of the task is left running and the task is failed or done. (The order in which the
  passed verdicts are written is that of a Go map: it may be any order, but it leaves none out.)\<close>

theorem harness_run_settles:
  assumes "healthy (task_ID tk) I (cn_tx s) (cn_fault s) (cn_db s)"
    and "\<forall>c\<in>set (db_cycles (cn_db s)). cycle_TaskID c = task_ID tk \<longrightarrow> cycle_Status c \<noteq> CycleStatusRunning"
    and "\<And>xs. set xs \<subseteq> set (rw_order W xs)" and "\<forall>i. intent = Some i \<longrightarrow> pr_Mode i \<noteq> RetryResume"
  shows "let d = cn_db (snd (RunWithRetry db_store W Z tk intent s)) in
    (\<forall>c\<in>set (db_cycles d). cycle_TaskID c = task_ID tk \<longrightarrow> cycle_Status c \<noteq> CycleStatusRunning) \<and>
    (status_of d (task_ID tk) = Some StatusFailed \<or> status_of d (task_ID tk) = Some StatusDone)"
proof -
  let ?t = "task_ID tk"
  have "attempt_of ?t (cn_db s) = Idle" using assms(2) attempt_iff(1)[OF healthyD(5)[OF assms(1)]] by (auto simp: cycle_open_def)
  then have s: "settling.settled ?t I (snd (RunWithRetry db_store W Z tk intent s))"
    using settling.RunWithRetry_settles[OF assms(1) _ refl assms(3,4)] by blast
  then show ?thesis
    using attempt_iff(1)[OF healthyD(5), of ?t I _ _ _ ?t] by (auto simp: settling.settled_def Let_def cycle_open_def)
qed

lemma trim_space_x: "trim_space (replicate (Suc n) CHR ''x'') = replicate (Suc n) CHR ''x''"
proof -
  have f: "trim_front_fuel encs m (replicate k CHR ''x'') = replicate k CHR ''x''"
    if "list_all (\<lambda>w. hd w \<noteq> CHR ''x'' \<and> w \<noteq> []) encs" for encs m k
  proof -
    have "\<not> take (length w) (replicate k CHR ''x'') = w" if "w \<in> set encs" for w
      using \<open>list_all _ encs\<close> that by (cases w; cases k) (auto simp: list_all_iff)
    then have "space_width encs (replicate k CHR ''x'') = 0"
      by (cases k) (auto simp: space_width_def ascii_spaces_def find_None_iff split: option.split dest!: find_Some_iff[THEN iffD1])
    then show ?thesis by (cases m) auto
  qed
  have "list_all (\<lambda>w. hd w \<noteq> CHR ''x'' \<and> w \<noteq> []) space_encodings"
    "list_all (\<lambda>w. hd w \<noteq> CHR ''x'' \<and> w \<noteq> []) (map rev space_encodings)" by code_simp+
  then show ?thesis using f by (simp only: trim_space_def trim_left_def trim_right_def rev_replicate)
qed

theorem harness_run_settles_witness:
  "let d = cn_db (snd (RunWithRetry db_store (sample_world 1) sample_reset the_task None (sample_conn created_db (\<lambda>_. None)))) in
    (\<forall>c\<in>set (db_cycles d). cycle_TaskID c = ''t'' \<longrightarrow> cycle_Status c \<noteq> CycleStatusRunning) \<and>
    (status_of d ''t'' = Some StatusFailed \<or> status_of d ''t'' = Some StatusDone)"
proof -
  have d: "map task_ID (db_tasks created_db) = [''t'']" "db_cycles created_db = []"
    "map (\<lambda>i. (ci_ID i, ci_TaskID i)) (db_items created_db) = [(''i'', ''t'')]" "task_ID the_task = ''t''" by code_simp+
  have i: "ci_ID ` {i \<in> set (db_items created_db). ci_TaskID i = ''t''} = {''i''}" using d(3) by auto
  have t: "''t'' \<in> task_ID ` set (db_tasks created_db)" using d(1) by (metis list.set_intros(1) list.set_map)
  have u: "uuid_ok (cn_tx (sample_conn db0 fault) n)" for db0 fault n
    using trim_space_x[of n] by (simp add: uuid_ok_def sample_conn_def del: replicate_Suc)
  have c: "cn_db (sample_conn db0 fault) = db0" "cn_fault (sample_conn db0 fault) = fault" for db0 fault
    by (simp_all add: sample_conn_def)
  have "trim_space ''i'' = ''i''" by code_simp
  then have "healthy (task_ID the_task) {''i''} (cn_tx (sample_conn created_db (\<lambda>_. None))) (cn_fault (sample_conn created_db (\<lambda>_. None)))
      (cn_db (sample_conn created_db (\<lambda>_. None)))"
    unfolding healthy_def c d(4) using u i t created_db_sound d(2) by simp
  from harness_run_settles[OF this, of "sample_world 1" None sample_reset] show ?thesis
    unfolding c d by (simp add: sample_world_def)
qed

end
