(* ===== verification/Worker_Pool.thy ===== *)
theory Worker_Pool
  imports Harness_Healthy Memory_Queue
begin

text \<open>
  \<^verbatim>\<open>pkgs/agents/worker\<close>: admission of a dequeued task, the gate that serialises runs per worktree, the pool of
  slots that share queue, gate and database, and the clean-up at start-up. \<open>processOne\<close> is cut at its store
  calls and at its lock: a slot stands at a \<open>stage\<close>, and \<open>stage_step\<close> does what the code does from there to the
  next one. Slots interleave between stages; what others do to the database while a harness run is under way
  is a function applied before each of its calls.
\<close>

section \<open>Answers of git (git_run.go, store_task_git.go)\<close>

text \<open>The rows of the git tables and the checkout are outside: what \<^verbatim>\<open>ResolveTaskGitContext\<close>, \<^verbatim>\<open>os.Stat\<close> and
  \<^verbatim>\<open>WorktreeCurrentBranch\<close> answer. Git errors carry a code.\<close>

datatype git_code = GitCodeWorktreeNotFound | GitCodeBranchNotFound | GitCodeOther string

datatype prep_error = MissingTaskBinding | WorktreeMissing | BranchMissing | BranchMismatch | PrepOther string

record git_context =
  gc_WorktreeID :: string
  gc_BranchID :: string
  gc_WorktreePath :: string
  gc_BranchName :: string

datatype branch_answer = OnBranch string | NotARepository | BranchErr string

record git_answers =
  ga_Resolve :: "string \<Rightarrow> git_code + git_context"
  ga_PathExists :: "string \<Rightarrow> bool"
  ga_Head :: "string \<Rightarrow> branch_answer"

definition taskHasBinding :: "task \<Rightarrow> bool" where
  "taskHasBinding t = (case task_WorktreeID t of None \<Rightarrow> False | Some w \<Rightarrow> trim_space w \<noteq> [])"

definition mapResolveGitContextError :: "git_code \<Rightarrow> prep_error" where
  "mapResolveGitContextError c =
     (case c of GitCodeWorktreeNotFound \<Rightarrow> WorktreeMissing | GitCodeBranchNotFound \<Rightarrow> BranchMissing | GitCodeOther e \<Rightarrow> PrepOther e)"

definition resolveTaskGitBinding :: "git_answers \<Rightarrow> task \<Rightarrow> prep_error + git_context" where
  "resolveTaskGitBinding G t =
     (case task_WorktreeID t of
        None \<Rightarrow> Inl MissingTaskBinding
      | Some w \<Rightarrow>
          if \<not> taskHasBinding t then Inl MissingTaskBinding
          else (case ga_Resolve G (trim_space w) of
            Inl c \<Rightarrow> Inl (mapResolveGitContextError c)
          | Inr b \<Rightarrow> if ga_PathExists G (gc_WorktreePath b) then Inr b else Inl WorktreeMissing))"

text \<open>The path the harness works in afterwards.\<close>

definition prepareGitRun :: "git_answers \<Rightarrow> git_context \<Rightarrow> prep_error + string" where
  "prepareGitRun G b =
     (case ga_Head G (gc_WorktreePath b) of
        NotARepository \<Rightarrow> Inl WorktreeMissing
      | BranchErr e \<Rightarrow> Inl (PrepOther e)
      | OnBranch head \<Rightarrow> if head \<noteq> gc_BranchName b then Inl BranchMismatch else Inr (gc_WorktreePath b))"

text \<open>The decision of \<^verbatim>\<open>runWithGitPrep\<close>: run in this path, or abort.\<close>

definition runWithGitPrep :: "git_answers \<Rightarrow> task \<Rightarrow> prep_error + string" where
  "runWithGitPrep G t = (case resolveTaskGitBinding G t of Inl e \<Rightarrow> Inl e | Inr b \<Rightarrow> prepareGitRun G b)"

section \<open>The gate (worktree_gate.go)\<close>

text \<open>The worktrees whose mutex is held.\<close>

type_synonym gate = "string set"

definition TryLock :: "string \<Rightarrow> gate \<Rightarrow> gate option" where
  "TryLock wt g = (if wt \<in> g then None else Some (insert wt g))"

definition unlock :: "string \<Rightarrow> gate \<Rightarrow> gate" where
  "unlock wt g = g - {wt}"

section \<open>Store calls of the worker (admission.go)\<close>

definition reloadTask :: "string \<Rightarrow> (store_conn, task) call" where
  "reloadTask taskID = db_read (\<lambda>s. Task_Get (cn_db s) taskID)"

text \<open>\<open>at\<close> is the clock of the worker plus the delay.\<close>

definition deferTaskPickup :: "string \<Rightarrow> gotime \<Rightarrow> store_conn \<Rightarrow> store_conn" where
  "deferTaskPickup taskID at s =
     snd (db_write (\<lambda>env d. unit_of (Task_Update env d taskID
       (empty_update\<lparr>uin_PickupNotBefore := Some \<lparr>pnb_Clear = False, pnb_At = at\<rparr>\<rparr>) ActorAgent)) s)"

definition transitionTaskToRunning :: "string \<Rightarrow> (store_conn, agent_pickup_result) call" where
  "transitionTaskToRunning taskID = db_write (\<lambda>env d. AgentPickup env d taskID ActorAgent)"

text \<open>The list is scanned from its end.\<close>

definition openRunningCycle :: "string \<Rightarrow> store_conn \<Rightarrow> task_cycle option \<times> store_conn" where
  "openRunningCycle taskID s =
     (case db_read (\<lambda>s. ListForTask (cn_db s) taskID 0) s of
        (Inl e, s1) \<Rightarrow> (None, s1)
      | (Inr cycles, s1) \<Rightarrow> (List.find (\<lambda>c. cycle_Status c = CycleStatusRunning) (rev cycles), s1))"

definition fail_task :: "string \<Rightarrow> store_conn \<Rightarrow> store_conn" where
  "fail_task taskID s = snd (so_Update db_store taskID StatusFailed s)"

definition abortRunningFromGitPrep :: "string \<Rightarrow> store_conn \<Rightarrow> store_conn" where
  "abortRunningFromGitPrep taskID s = fail_task taskID s"

text \<open>What is left of a panic during admission.\<close>

definition recoverAdmissionPanic :: "string \<Rightarrow> store_conn \<Rightarrow> store_conn" where
  "recoverAdmissionPanic taskID s = fail_task taskID s"

section \<open>Processing one task (admission.go)\<close>

datatype job = JobResume task task_cycle | JobRun task "pending_retry option"

definition job_task :: "job \<Rightarrow> task" where
  "job_task j = (case j of JobResume t c \<Rightarrow> t | JobRun t i \<Rightarrow> t)"

definition run_job :: "'s store_ops \<Rightarrow> run_world \<Rightarrow> reset_world \<Rightarrow> job \<Rightarrow> 's \<Rightarrow> 's" where
  "run_job S W Z j s =
     (case j of JobResume t c \<Rightarrow> snd (Resume S W t c s) | JobRun t intent \<Rightarrow> snd (RunWithRetry S W Z t intent s))"

datatype stage =
    AtReload
  | AtListCycles task
  | AtLock task task_cycle string
  | AtReadiness task
  | AtDefer int
  | AtTryLock string
  | AtPickup string
  | AtPrep job string
  | AtRun job string string
  | AtUnlock string
  | AtAck

text \<open>What the outside answers to a slot: its clock, git, the agents, and what others do to the connection
  before each store call of a run.\<close>

record worker_answers =
  wa_Now :: gotime
  wa_Git :: git_answers
  wa_World :: run_world
  wa_Reset :: reset_world
  wa_Others :: "store_conn \<Rightarrow> store_conn"

definition interfere :: "('s \<Rightarrow> 's) \<Rightarrow> 's store_ops \<Rightarrow> 's store_ops" where
  "interfere e S = \<lparr>
     so_Update = (\<lambda>i st s. so_Update S i st (e s)),
     so_StartCycle = (\<lambda>inp s. so_StartCycle S inp (e s)),
     so_GetCycle = (\<lambda>i s. so_GetCycle S i (e s)),
     so_TerminateCycle = (\<lambda>i st reason s. so_TerminateCycle S i st reason (e s)),
     so_StartPhase = (\<lambda>i ph s. so_StartPhase S i ph (e s)),
     so_CompletePhase = (\<lambda>inp s. so_CompletePhase S inp (e s)),
     so_ListPhases = (\<lambda>i s. so_ListPhases S i (e s)),
     so_ListCriteriaReports = (\<lambda>i s. so_ListCriteriaReports S i (e s)),
     so_UpsertCriteriaReports = (\<lambda>i n es s. so_UpsertCriteriaReports S i n es (e s)),
     so_ListVerifyReports = (\<lambda>i s. so_ListVerifyReports S i (e s)),
     so_UpsertVerifyReports = (\<lambda>i n es s. so_UpsertVerifyReports S i n es (e s)),
     so_ListCommitsForTask = (\<lambda>i s. so_ListCommitsForTask S i (e s)),
     so_ListCommitsForCycle = (\<lambda>i s. so_ListCommitsForCycle S i (e s)),
     so_UpsertCycleCommits = (\<lambda>t i es s. so_UpsertCycleCommits S t i es (e s)),
     so_ListChecklistForVerify = (\<lambda>i s. so_ListChecklistForVerify S i (e s)),
     so_ListChecklistForSubject = (\<lambda>i s. so_ListChecklistForSubject S i (e s)),
     so_SetItemDone = (\<lambda>t i done s. so_SetItemDone S t i done (e s)),
     so_SetItemDoneWithEvidence = (\<lambda>t i ev v r c s. so_SetItemDoneWithEvidence S t i ev v r c (e s)),
     so_GetSettings = (\<lambda>s. so_GetSettings S (e s)),
     so_AppendStream = (\<lambda>inp s. so_AppendStream S inp (e s)),
     so_AppendTaskEvent = (\<lambda>t typ data s. so_AppendTaskEvent S t typ data (e s))\<rparr>"

definition second :: int where "second = 1000000000"

text \<open>From one stage to the next; None while the lock is taken by another, and at the end. \<open>i\<close> is the id of
  the task as it was queued.\<close>

fun stage_step :: "worker_answers \<Rightarrow> string \<Rightarrow> gate \<Rightarrow> stage \<Rightarrow> store_conn \<Rightarrow> (stage \<times> gate \<times> store_conn) option" where
  "stage_step A i g AtReload s =
     (case reloadTask i s of
        (Inl e, s1) \<Rightarrow> Some (AtAck, g, s1)
      | (Inr fresh, s1) \<Rightarrow>
          Some (if task_Status fresh = StatusRunning then AtListCycles fresh
                else if task_Status fresh = StatusReady then AtReadiness fresh else AtAck, g, s1))"
| "stage_step A i g (AtListCycles fresh) s =
     (case openRunningCycle (task_ID fresh) s of
        (None, s1) \<Rightarrow> Some (AtAck, g, s1)
      | (Some c, s1) \<Rightarrow>
          Some (case task_WorktreeID fresh of
                  Some w \<Rightarrow> if taskHasBinding fresh then AtLock fresh c (trim_space w) else AtAck
                | None \<Rightarrow> AtAck, g, s1))"
| "stage_step A i g (AtLock fresh c wt) s =
     (case TryLock wt g of None \<Rightarrow> None | Some g' \<Rightarrow> Some (AtPrep (JobResume fresh c) wt, g', s))"
| "stage_step A i g (AtReadiness fresh) s =
     (case db_read (\<lambda>s. ReadyForAgentPickup (cn_db s) (Some fresh) (wa_Now A)) s of
        (Inl e, s1) \<Rightarrow> Some (AtAck, g, s1)
      | (Inr (ready, failed), s1) \<Rightarrow>
          Some (if \<not> ready then AtDefer (60 * second)
                else case task_WorktreeID fresh of
                  Some w \<Rightarrow> if taskHasBinding fresh then AtTryLock (trim_space w) else AtDefer (60 * second)
                | None \<Rightarrow> AtDefer (60 * second), g, s1))"
| "stage_step A i g (AtDefer d) s = Some (AtAck, g, deferTaskPickup i (wa_Now A + d) s)"
| "stage_step A i g (AtTryLock wt) s =
     (case TryLock wt g of None \<Rightarrow> Some (AtDefer (5 * second), g, s) | Some g' \<Rightarrow> Some (AtPickup wt, g', s))"
| "stage_step A i g (AtPickup wt) s =
     (case transitionTaskToRunning i s of
        (Inl e, s1) \<Rightarrow> Some (AtUnlock wt, g, s1)
      | (Inr r, s1) \<Rightarrow> Some (AtPrep (JobRun (apr_Task r) (apr_ConsumedRetry r)) wt, g, s1))"
| "stage_step A i g (AtPrep j wt) s =
     (case runWithGitPrep (wa_Git A) (job_task j) of
        Inl e \<Rightarrow> Some (AtUnlock wt, g, abortRunningFromGitPrep (task_ID (job_task j)) s)
      | Inr path \<Rightarrow> Some (AtRun j wt path, g, s))"
| "stage_step A i g (AtRun j wt path) s =
     Some (AtUnlock wt, g, run_job (interfere (wa_Others A) db_store) ((wa_World A)\<lparr>rw_WorkingDir := path\<rparr>) (wa_Reset A) j s)"
| "stage_step A i g (AtUnlock wt) s = Some (AtAck, unlock wt g, s)"
| "stage_step A i g AtAck s = None"

text \<open>Each stage is nearer to the end than the one before.\<close>

fun stage_rank :: "stage \<Rightarrow> nat" where
  "stage_rank AtReload = 11"
| "stage_rank (AtListCycles t) = 10"
| "stage_rank (AtLock t c wt) = 9"
| "stage_rank (AtReadiness t) = 10"
| "stage_rank (AtTryLock wt) = 9"
| "stage_rank (AtPickup wt) = 8"
| "stage_rank (AtPrep j wt) = 7"
| "stage_rank (AtRun j wt p) = 6"
| "stage_rank (AtUnlock wt) = 5"
| "stage_rank (AtDefer d) = 4"
| "stage_rank AtAck = 0"

lemma stage_descends: "stage_step A i g st s = Some (st', g', s') \<Longrightarrow> stage_rank st' < stage_rank st"
  by (cases st) (auto split: prod.splits sum.splits option.splits if_splits)

text \<open>One task processed while no other slot moves: \<open>processOne\<close> up to its deferred acknowledgement.\<close>

function drive :: "worker_answers \<Rightarrow> string \<Rightarrow> gate \<Rightarrow> stage \<Rightarrow> store_conn \<Rightarrow> stage \<times> gate \<times> store_conn" where
  "drive A i g st s =
     (case stage_step A i g st s of None \<Rightarrow> (st, g, s) | Some (st', g', s') \<Rightarrow> drive A i g' st' s')"
  by auto
termination
  by (relation "measure (\<lambda>(A, i, g, st, s). stage_rank st)") (auto dest: stage_descends)

declare drive.simps [simp del]

definition processOne :: "worker_answers \<Rightarrow> task \<Rightarrow> gate \<Rightarrow> store_conn \<Rightarrow> stage \<times> gate \<times> store_conn" where
  "processOne A t g s = drive A (task_ID t) g AtReload s"

section \<open>Start-up (sweep.go)\<close>

text \<open>\<open>done\<close> is \<^verbatim>\<open>ctx.Err() \<noteq> nil\<close> before the phase with that position; the count is the number of rows closed.\<close>

fun finalize_phases :: "(nat \<Rightarrow> bool) \<Rightarrow> nat \<Rightarrow> cycle_phase list \<Rightarrow> nat \<Rightarrow> store_conn \<Rightarrow> bool \<times> nat \<times> store_conn" where
  "finalize_phases done k [] n s = (True, n, s)"
| "finalize_phases done k (p # ps) n s =
     (if done k then (False, n, s)
      else case so_CompletePhase db_store \<lparr>cpi_CycleID = ph_CycleID p, cpi_PhaseSeq = ph_PhaseSeq p, cpi_Status = PhaseStatusFailed,
             cpi_Summary = Some PhaseInterruptReason, cpi_Details = PBlank, cpi_By = ActorAgent\<rparr> s of
        (Inl e, s1) \<Rightarrow> finalize_phases done (Suc k) ps n s1
      | (Inr _, s1) \<Rightarrow> finalize_phases done (Suc k) ps (Suc n) s1)"

text \<open>The flag says whether it ended without error.\<close>

definition FinalizeInterruptedPhases :: "(nat \<Rightarrow> bool) \<Rightarrow> store_conn \<Rightarrow> bool \<times> nat \<times> store_conn" where
  "FinalizeInterruptedPhases done s =
     (case db_read (\<lambda>s. Inr (ListRunningPhases (cn_db s))) s of
        (Inl e, s1) \<Rightarrow> (False, 0, s1)
      | (Inr phases, s1) \<Rightarrow> finalize_phases done 0 phases 0 s1)"

section \<open>The pool (pool.go, worker.go)\<close>

text \<open>\<open>Received t\<close>: taken from the channel, its mark not dropped yet.\<close>

datatype slot = Idle | Received task | Busy string stage

record pool =
  pl_queue :: mem_queue
  pl_conn :: store_conn
  pl_gate :: gate
  pl_slots :: "slot list"

definition NewPool :: "int \<Rightarrow> mem_queue \<Rightarrow> store_conn \<Rightarrow> pool" where
  "NewPool concurrency q s =
     (let n = (if concurrency < 1 then 1 else if 32 < concurrency then 32 else concurrency) in
      \<lparr>pl_queue = q, pl_conn = s, pl_gate = {}, pl_slots = replicate (nat n) Idle\<rparr>)"

text \<open>What operators, the HTTP handlers and the other slots may do to the connection: any operations of the
  store, and any writes to the report tables.\<close>

definition others_move :: "store_conn \<Rightarrow> store_conn \<Rightarrow> bool" where
  "others_move s s' \<longleftrightarrow> store_step\<^sup>*\<^sup>* (cn_db s) (cn_db s') \<and> cn_tx s' = cn_tx s \<and> cn_fault s' = cn_fault s"

inductive pool_step :: "pool \<Rightarrow> pool \<Rightarrow> bool" where
  pool_take: "k < length (pl_slots y) \<Longrightarrow> pl_slots y ! k = Idle \<Longrightarrow> recv_take (pl_queue y) = Some (t, q) \<Longrightarrow>
     pool_step y (y\<lparr>pl_queue := q, pl_slots := (pl_slots y)[k := Received t]\<rparr>)"
| pool_unmark: "k < length (pl_slots y) \<Longrightarrow> pl_slots y ! k = Received t \<Longrightarrow>
     pool_step y (y\<lparr>pl_queue := recv_unmark (task_ID t) (pl_queue y), pl_slots := (pl_slots y)[k := Busy (task_ID t) AtReload]\<rparr>)"
| pool_stage: "k < length (pl_slots y) \<Longrightarrow> pl_slots y ! k = Busy i st \<Longrightarrow> (\<And>s. others_move s (wa_Others A s)) \<Longrightarrow>
     stage_step A i (pl_gate y) st (pl_conn y) = Some (st', g, s) \<Longrightarrow>
     pool_step y (y\<lparr>pl_gate := g, pl_conn := s, pl_slots := (pl_slots y)[k := Busy i st']\<rparr>)"
| pool_ack: "k < length (pl_slots y) \<Longrightarrow> pl_slots y ! k = Busy i AtAck \<Longrightarrow>
     pool_step y (y\<lparr>pl_queue := AckAfterRecv i (pl_queue y), pl_slots := (pl_slots y)[k := Idle]\<rparr>)"
| pool_reconcile_running: "ReconcileRunningTasksNotQueued (NotifyReadyTask False) (cn_db (pl_conn y)) (pl_queue y) = (err, r, q) \<Longrightarrow>
     pool_step y (y\<lparr>pl_queue := q\<rparr>)"
| pool_notify: "NotifyReadyTask False (pl_queue y) t = Inr q \<Longrightarrow> pool_step y (y\<lparr>pl_queue := q\<rparr>)"
| pool_outside: "others_move (pl_conn y) s \<Longrightarrow> pool_step y (y\<lparr>pl_conn := s\<rparr>)"

text \<open>A start: any database the store can hold, an empty queue and idle slots.\<close>

inductive pool_reachable :: "int \<Rightarrow> int \<Rightarrow> pool \<Rightarrow> bool" for cap n where
  pool_init: "NewMemoryQueue cap = Some q \<Longrightarrow> store_ok (cn_db s) \<Longrightarrow> pool_reachable cap n (NewPool n q s)"
| pool_next: "pool_reachable cap n y \<Longrightarrow> pool_step y y' \<Longrightarrow> pool_reachable cap n y'"

end
