(* ===== verification/Worker_Properties.thy ===== *)
theory Worker_Properties
  imports Worker_Pool
begin

text \<open>
  Runs keep the store invariant whatever happens between their calls; slots never hold one worktree together;
  a task is processed to its end; and a slot that waited for a worktree with the rows it had read before
  undoes the work of the run it waited for.
\<close>

section \<open>Runs with others in between\<close>

lemma guarded_interfered:
  assumes g: "fully_guarded_store S P" and e: "\<And>s. P s \<Longrightarrow> P (e s)"
  shows "fully_guarded_store (interfere e S) P"
proof -
  have g': "guarded_store S P" and q: "quiet_store S P"
    using g by (simp_all add: fully_guarded_store_def guarded_store_def)
  note keep = quiet_store.quiet_keeps[OF q] guarded_store.keeps[OF g'] fully_guarded_store.keep_Done[OF g]
  show ?thesis by unfold_locales (simp_all add: interfere_def keep e)
qed

lemma interfere_id: "interfere (\<lambda>s. s) S = S"
  by (simp add: interfere_def)

text \<open>The plain store invariant is a guard of the database.\<close>

interpretation plain: db_guard store_ok
proof
  fix d d' env t r
  assume "store_ok d" "Task_Update env d t (empty_update\<lparr>uin_Status := Some StatusFailed\<rparr>) ActorAgent = Inr (d', r)"
  then show "store_ok d'" by (cases r) (auto intro: Task_Update_store_ok)
next
  fix d d' env t ty data
  assume d: "store_ok d" and e: "Events_Append env d t ty ActorAgent data = Inr d'"
  from e obtain n where "NextEventSeq d (trim_space t) = Inr n"
    "AppendEvent (tx_evnow env) d (trim_space t) n ty ActorAgent data = Inr d'" by (elim Events_AppendE)
  then show "store_ok d'" using d by (auto intro: store_ok_append_event)
qed (auto intro: cycle_step_store_ok Checklist_SetDone_ok SetDoneWithEvidence_ok)

interpretation plain_run: fully_guarded_store db_store "\<lambda>s. store_ok (cn_db s)"
proof
  show "store_ok (cn_db (snd (so_Update db_store t StatusDone s)))" if "store_ok (cn_db s)" for s t
    using that unfolding db_store_def store_ops.simps
    by (rule db_write_keeps) (auto simp: unit_of_Inr dest: Task_Update_store_ok[OF that])
qed

text \<open>No call changes which calls fail.\<close>

interpretation same_faults: fully_guarded_store db_store "\<lambda>s. cn_fault s = F" for F
  by unfold_locales (simp_all add: db_store_def db_reports_same[unfolded db_store_def store_ops.simps])

lemma others_store_ok: "others_move s s' \<Longrightarrow> store_ok (cn_db s) \<Longrightarrow> store_ok (cn_db s')"
proof -
  have "store_step\<^sup>*\<^sup>* d d' \<Longrightarrow> store_ok d \<Longrightarrow> store_ok d'" for d d'
    by (induction rule: rtranclp_induct) (auto intro: store_step_ok)
  then show "others_move s s' \<Longrightarrow> store_ok (cn_db s) \<Longrightarrow> store_ok (cn_db s')" by (auto simp: others_move_def)
qed

lemma run_job_keeps:
  assumes "fully_guarded_store S P" "P s"
  shows "P (run_job S W Z j s)"
  using fully_guarded_store.RunWithRetry_keeps[OF assms(1), of s] fully_guarded_store.Resume_keeps[OF assms(1), of s] assms(2)
  by (auto simp: run_job_def split: job.split)

text \<open>So is every stage of a slot.\<close>

lemma write_keeps_store:
  "store_ok (cn_db s) \<Longrightarrow> (\<And>env d d' a. op env d = Inr (d', a) \<Longrightarrow> store_ok d \<Longrightarrow> store_ok d') \<Longrightarrow>
   store_ok (cn_db (snd (db_write op s)))"
  by (rule db_write_keeps) auto

lemma read_same: "db_read op s = (x, s1) \<Longrightarrow> cn_db s1 = cn_db s \<and> cn_fault s1 = cn_fault s"
  using db_call_conn(4,5)[of op s] by simp

lemma stage_step_store_ok:
  assumes step: "stage_step A i g st s = Some (st', g', s')" and A: "\<And>s. others_move s (wa_Others A s)" and ok: "store_ok (cn_db s)"
  shows "store_ok (cn_db s')"
proof -
  have upd: "store_ok (cn_db (snd (db_write (\<lambda>env d. unit_of (Task_Update env d j u ActorAgent)) s)))" for j u
    using ok by (rule write_keeps_store) (auto simp: unit_of_Inr intro: Task_Update_store_ok)
  show ?thesis
  proof (cases st)
    case (AtPickup wt)
    have "store_ok (cn_db (snd (transitionTaskToRunning i s)))" unfolding transitionTaskToRunning_def
      using ok by (rule write_keeps_store) (auto intro: AgentPickup_store_ok)
    then show ?thesis using step AtPickup by (auto split: prod.splits sum.splits)
  next
    case (AtRun j wt path)
    have "store_ok (cn_db (run_job (interfere (wa_Others A) db_store) W Z j s))" for W Z
      by (rule run_job_keeps[OF guarded_interfered[OF plain_run.fully_guarded_store_axioms]])
         (auto intro: others_store_ok A ok)
    then show ?thesis using step AtRun by auto
  next
    case (AtPrep j wt)
    then show ?thesis using step ok plain.keep_Update[OF ok]
      by (auto simp: abortRunningFromGitPrep_def fail_task_def split: sum.splits)
  next
    case (AtDefer d)
    then show ?thesis using step upd by (auto simp: deferTaskPickup_def)
  qed (use step ok in \<open>auto simp: reloadTask_def openRunningCycle_def dest: read_same split: prod.splits sum.splits option.splits if_splits\<close>)
qed

section \<open>The pool\<close>

text \<open>The worktree whose lock a slot has.\<close>

fun held_by :: "slot \<Rightarrow> string option" where
  "held_by (Busy i (AtPickup wt)) = Some wt"
| "held_by (Busy i (AtPrep j wt)) = Some wt"
| "held_by (Busy i (AtRun j wt path)) = Some wt"
| "held_by (Busy i (AtUnlock wt)) = Some wt"
| "held_by _ = None"

definition locks :: "slot list \<Rightarrow> string list" where
  "locks ss = List.map_filter held_by ss"

definition gate_ok :: "gate \<Rightarrow> slot list \<Rightarrow> bool" where
  "gate_ok g ss \<longleftrightarrow> g = set (locks ss) \<and> distinct (locks ss)"

lemma locks_simps [simp]: "locks [] = []" "locks (x # xs) = (case held_by x of None \<Rightarrow> [] | Some wt \<Rightarrow> [wt]) @ locks xs"
  "locks (xs @ ys) = locks xs @ locks ys"
  by (auto simp: locks_def map_filter_simps map_filter_def split: option.split)

lemma locks_idle: "locks (replicate n Idle) = []"
  by (induction n) simp_all

lemma locks_at:
  assumes "k < length ss"
  obtains as bs where "locks ss = as @ (case held_by (ss ! k) of None \<Rightarrow> [] | Some wt \<Rightarrow> [wt]) @ bs"
    "\<And>x. locks (ss[k := x]) = as @ (case held_by x of None \<Rightarrow> [] | Some wt \<Rightarrow> [wt]) @ bs"
proof -
  have "ss = take k ss @ ss ! k # drop (Suc k) ss" "\<And>x. ss[k := x] = take k ss @ x # drop (Suc k) ss"
    using assms by (simp_all add: id_take_nth_drop[symmetric] upd_conv_take_nth_drop)
  then show thesis using that[of "locks (take k ss)" "locks (drop (Suc k) ss)"] by (metis locks_simps(2,3))
qed

text \<open>A stage keeps the lock it has, takes one that is free, or gives up its own.\<close>

lemma stage_step_gate:
  "stage_step A i g st s = Some (st', g', s') \<Longrightarrow>
     (held_by (Busy i st') = held_by (Busy i st) \<and> g' = g) \<or>
     (held_by (Busy i st) = None \<and> (\<exists>wt. held_by (Busy i st') = Some wt \<and> wt \<notin> g \<and> g' = insert wt g)) \<or>
     (held_by (Busy i st') = None \<and> (\<exists>wt. held_by (Busy i st) = Some wt \<and> g' = g - {wt}))"
  by (cases st) (auto simp: TryLock_def unlock_def split: prod.splits sum.splits option.splits if_splits)

lemma gate_ok_move:
  assumes ok: "gate_ok g ss" and k: "k < length ss" and st: "stage_step A i g st s = Some (st', g', s')" "ss ! k = Busy i st"
  shows "gate_ok g' (ss[k := Busy i st'])"
proof -
  obtain as bs where l: "locks ss = as @ (case held_by (Busy i st) of None \<Rightarrow> [] | Some wt \<Rightarrow> [wt]) @ bs"
    "locks (ss[k := Busy i st']) = as @ (case held_by (Busy i st') of None \<Rightarrow> [] | Some wt \<Rightarrow> [wt]) @ bs"
    using locks_at[OF k] st(2) by metis
  from stage_step_gate[OF st(1)] show ?thesis
    using ok unfolding gate_ok_def l by (elim disjE) (auto split: option.splits)
qed

lemma gate_ok_same:
  assumes "gate_ok g ss" "k < length ss" "held_by x = held_by (ss ! k)"
  shows "gate_ok g (ss[k := x])"
proof -
  obtain as bs where "locks ss = as @ (case held_by (ss ! k) of None \<Rightarrow> [] | Some wt \<Rightarrow> [wt]) @ bs"
    "locks (ss[k := x]) = as @ (case held_by x of None \<Rightarrow> [] | Some wt \<Rightarrow> [wt]) @ bs"
    using locks_at[OF assms(2)] by metis
  then show ?thesis using assms(1,3) by (simp add: gate_ok_def)
qed

lemma pool_step_ok:
  "pool_step y y' \<Longrightarrow> store_ok (cn_db (pl_conn y)) \<and> gate_ok (pl_gate y) (pl_slots y) \<Longrightarrow>
   store_ok (cn_db (pl_conn y')) \<and> gate_ok (pl_gate y') (pl_slots y')"
proof (induction rule: pool_step.induct)
  case (pool_stage k y i st A st' g s)
  then have "gate_ok g ((pl_slots y)[k := Busy i st'])" using gate_ok_move by blast
  then show ?case using stage_step_store_ok[OF pool_stage.hyps(4,3)] pool_stage.prems by simp
next
  case (pool_outside y s)
  then show ?case using others_store_ok by simp
qed (simp_all add: gate_ok_same)

lemma pool_reachable_ok: "pool_reachable cap n y \<Longrightarrow> store_ok (cn_db (pl_conn y)) \<and> gate_ok (pl_gate y) (pl_slots y)"
proof (induction rule: pool_reachable.induct)
  case (pool_init q s)
  then show ?case by (simp add: NewPool_def gate_ok_def locks_idle)
next
  case (pool_next y y')
  then show ?case using pool_step_ok by blast
qed

text \<open>C5. (invariant) In every reachable pool, whatever the slots, the runs, the queue and everybody else do and in
  whatever order, the database satisfies every store invariant, the gate holds exactly the worktrees of the slots
  between lock and unlock, and no two slots hold one worktree together.\<close>

theorem pool_runs_exclusive:
  assumes "pool_reachable cap n y"
  shows "store_ok (cn_db (pl_conn y)) \<and> gate_ok (pl_gate y) (pl_slots y)"
  by (rule pool_reachable_ok[OF assms])

section \<open>A task is processed to its end\<close>

definition owns :: "stage \<Rightarrow> gate \<Rightarrow> gate \<Rightarrow> bool" where
  "owns st g g0 \<longleftrightarrow> (case held_by (Busy [] st) of None \<Rightarrow> g = g0 | Some wt \<Rightarrow> wt \<notin> g0 \<and> g = insert wt g0)"

lemma held_by_id: "held_by (Busy i st) = held_by (Busy [] st)"
  by (cases st) simp_all

lemma owns_step: "stage_step A i g st s = Some (st', g', s') \<Longrightarrow> owns st g g0 \<Longrightarrow> owns st' g' g0"
  using stage_step_gate[of A i g st s st' g' s'] unfolding owns_def held_by_id[of i]
  by (auto split: option.splits)

lemma owns_blocked: "stage_step A i g st s = None \<Longrightarrow> owns st g g0 \<Longrightarrow> g = g0 \<and> (st = AtAck \<or> (\<exists>fresh c wt. st = AtLock fresh c wt \<and> wt \<in> g0))"
  by (cases st) (auto simp: owns_def TryLock_def split: prod.splits sum.splits option.splits if_splits)

lemma drive_ends:
  "drive A i g st s = (st', g', s') \<Longrightarrow> owns st g g0 \<Longrightarrow> g' = g0 \<and> (st' = AtAck \<or> (\<exists>fresh c wt. st' = AtLock fresh c wt \<and> wt \<in> g0))"
proof (induction A i g st s arbitrary: st' g' s' rule: drive.induct)
  case (1 A i g st s)
  show ?case
  proof (cases "stage_step A i g st s")
    case None
    then have "st' = st" "g' = g" using 1(2) by (simp_all add: drive.simps[of A i g st s])
    then show ?thesis using owns_blocked[OF None 1(3)] by simp
  next
    case (Some x)
    then obtain st1 g1 s1 where x: "stage_step A i g st s = Some (st1, g1, s1)" by (cases x) auto
    have d: "drive A i g1 st1 s1 = (st', g', s')" using 1(2) x by (simp add: drive.simps[of A i g st s])
    show ?thesis by (rule 1(1)[OF x refl refl d owns_step[OF x 1(3)]])
  qed
qed

text \<open>Processing a task ends: by the acknowledgement, with every lock it took given back, or in
  front of the lock of a worktree that another slot holds.\<close>

theorem processOne_ends:
  "case processOne A t g s of (st, g', s') \<Rightarrow>
     g' = g \<and> (st = AtAck \<or> (\<exists>fresh c wt. st = AtLock fresh c wt \<and> wt \<in> g))"
proof -
  obtain st g' s' where d: "drive A (task_ID t) g AtReload s = (st, g', s')" by (metis surj_pair)
  show ?thesis using drive_ends[OF d, of g] d by (simp add: processOne_def owns_def)
qed

section \<open>A second slot undoes a finished run\<close>

text \<open>Continuing a cycle whose last phase is a verify phase that succeeded is refused, and the task is failed,
  whatever its status is by now: the cycle in hand is the row read before the wait.\<close>

lemma stale_resume_fails:
  assumes ok: "store_ok (cn_db s)" and f: "cn_fault s = (\<lambda>_. None)" and t: "task_ID t \<in> task_ID ` set (db_tasks (cn_db s))"
    and ph: "ListPhasesForCycle (cn_db s) (cycle_ID c) = Inr ps" "ps \<noteq> []" "ph_Phase (last ps) = PhaseVerify"
      "ph_Status (last ps) = PhaseStatusSucceeded"
  shows "status_of (cn_db (snd (Resume db_store W t c s))) (task_ID t) = Some StatusFailed"
proof -
  have no: "checkpoint_entry (last ps) = Inl (resume_error ''cannot continue'')"
    using ph(3,4) by (simp add: checkpoint_entry_def isInterruptPhase_def)
  have "so_ListPhases db_store (cycle_ID c) s = (Inr ps, s\<lparr>cn_tick := Suc (cn_tick s)\<rparr>)"
    using f ph(1) by (simp add: db_store_def db_read_def db_call_def Let_def)
  then have "\<exists>e s1. ReconstructCheckpoint db_store c s = (Inl e, s1) \<and> cn_db s1 = cn_db s \<and> cn_fault s1 = cn_fault s"
    using ph(2) no by (simp add: ReconstructCheckpoint_def)
  then obtain e s1 where r: "ReconstructCheckpoint db_store c s = (Inl e, s1)" "cn_db s1 = cn_db s" "cn_fault s1 = cn_fault s"
    by blast
  have tt: "trim_space (task_ID t) = task_ID t" using store_ok_task_id[OF ok t] by simp
  obtain d' u where up: "Task_Update (cn_tx s1 (cn_tick s1)) (cn_db s) (task_ID t) (empty_update\<lparr>uin_Status := Some StatusFailed\<rparr>) ActorAgent
      = Inr (d', u)"
    using status_write_succeeds[OF ok _ _ t tt, of StatusFailed "cn_tx s1 (cn_tick s1)"] by auto
  have "cn_db (bestEffortFailTask db_store (task_ID t) s1) = d'"
    using up r f by (cases u) (simp add: bestEffortFailTask_def db_store_def db_write_def db_call_def unit_of_def Let_def)
  moreover have "status_of d' (task_ID t) = Some StatusFailed"
    using status_write_effect(2)[of "cn_tx s1 (cn_tick s1)" "cn_db s" "task_ID t" StatusFailed ActorAgent d' "fst u" "snd u" "task_ID t"] up tt
    by simp
  ultimately show ?thesis using r(1) by (simp add: Resume_def)
qed

text \<open>C6. (safety) A slot that found a running task while another slot ran it waits for the worktree with the task
  and cycle rows in its hand and never reads them again. If the run it waited for finished the task, the three
  steps from the lock to the end of the continuation turn the done task failed.\<close>

theorem stale_resume_undoes_done:
  assumes y: "k < length (pl_slots y)" "pl_slots y ! k = Busy i (AtLock fresh c wt)" "wt \<notin> pl_gate y" "store_ok (cn_db (pl_conn y))"
    and f: "cn_fault (pl_conn y) = (\<lambda>_. None)" and d: "status_of (cn_db (pl_conn y)) (task_ID fresh) = Some StatusDone"
    and ph: "ListPhasesForCycle (cn_db (pl_conn y)) (cycle_ID c) = Inr ps" "ps \<noteq> []" "ph_Phase (last ps) = PhaseVerify"
      "ph_Status (last ps) = PhaseStatusSucceeded"
    and git: "runWithGitPrep (wa_Git (A :: worker_answers)) fresh = Inr path" "wa_Others A = (\<lambda>s. s)"
  shows "\<exists>y'. pool_step\<^sup>*\<^sup>* y y' \<and> status_of (cn_db (pl_conn y')) (task_ID fresh) = Some StatusFailed"
proof -
  let ?s = "pl_conn y" and ?g = "insert wt (pl_gate y)" and ?W = "(wa_World A)\<lparr>rw_WorkingDir := path\<rparr>"
  let ?j = "JobResume fresh c"
  let ?s' = "snd (Resume db_store ?W fresh c ?s)"
  define at where "at st g s = y\<lparr>pl_gate := g, pl_conn := s, pl_slots := (pl_slots y)[k := Busy i st]\<rparr>" for st g s
  have A: "\<And>s. others_move s (wa_Others A s)" using git(2) by (simp add: others_move_def)
  have go: "pool_step (at st g s) (at st' g' s')" if "stage_step A i g st s = Some (st', g', s')" for st g s st' g' s'
    using pool_stage[of k "at st g s" i st A st' g' s'] that y(1) A by (simp add: at_def)
  have y0: "y = at (AtLock fresh c wt) (pl_gate y) ?s" using list_update_id[of "pl_slots y" k] unfolding y(2) by (simp add: at_def)
  have 1: "pool_step y (at (AtPrep ?j wt) ?g ?s)"
    by (subst (1) y0, rule go) (simp add: TryLock_def y(3))
  have 2: "pool_step (at (AtPrep ?j wt) ?g ?s) (at (AtRun ?j wt path) ?g ?s)"
    by (rule go) (simp add: git(1) job_task_def)
  have 3: "pool_step (at (AtRun ?j wt path) ?g ?s) (at (AtUnlock wt) ?g ?s')"
    by (rule go) (simp add: run_job_def git(2) interfere_id)
  have t: "task_ID fresh \<in> task_ID ` set (db_tasks (cn_db ?s))" using status_of_mem d by blast
  have "status_of (cn_db ?s') (task_ID fresh) = Some StatusFailed" by (rule stale_resume_fails[OF y(4) f t ph])
  moreover have "pool_step\<^sup>*\<^sup>* y (at (AtUnlock wt) ?g ?s')" using 1 2 3 by (meson rtranclp.rtrancl_into_rtrancl rtranclp.rtrancl_refl)
  ultimately show ?thesis by (intro exI[of _ "at (AtUnlock wt) ?g ?s'"]) (simp add: at_def)
qed

text \<open>A slot reads the running task while another run has verified its attempt; the last two calls of that run
  follow as moves of others: the cycle succeeds, the task is done.\<close>

definition task_w :: task where
  "task_w = (sample_task ''t'')\<lparr>task_Status := StatusRunning, task_WorktreeID := Some ''w''\<rparr>"

definition verified_db :: db where
  "verified_db = sample_db1\<lparr>db_tasks := [task_w], db_phases :=
     [sample_phase\<lparr>ph_Status := PhaseStatusSucceeded, ph_EndedAt := Some 12\<rparr>,
      sample_phase\<lparr>ph_ID := ''q'', ph_Phase := PhaseVerify, ph_PhaseSeq := 2, ph_Status := PhaseStatusSucceeded, ph_EndedAt := Some 14\<rparr>]\<rparr>"

definition ended_db :: "db res" where
  "ended_db = rbind (Terminate (sample_env ''e'') verified_db ''c'' CycleStatusSucceeded [] ActorAgent) (\<lambda>(d, _). Inr d)"

definition finished_db :: "db \<Rightarrow> db res" where
  "finished_db d = rbind (Task_Update (sample_env ''e'') d ''t'' (empty_update\<lparr>uin_Status := Some StatusDone\<rparr>) ActorAgent) (\<lambda>(d, _). Inr d)"

lemma finish_run_done:
  "case rbind ended_db finished_db of Inl e \<Rightarrow> False | Inr d \<Rightarrow> status_of d ''t'' = Some StatusDone \<and>
     (case ListPhasesForCycle d ''c'' of Inl e \<Rightarrow> False
      | Inr ps \<Rightarrow> ps \<noteq> [] \<and> ph_Phase (last ps) = PhaseVerify \<and> ph_Status (last ps) = PhaseStatusSucceeded)"
  by code_simp

lemma finish_run_moves: "rbind ended_db finished_db = Inr d \<Longrightarrow> store_step\<^sup>*\<^sup>* verified_db d"
proof -
  assume "rbind ended_db finished_db = Inr d"
  then obtain d1 where d: "ended_db = Inr d1" "finished_db d1 = Inr d" by (auto simp: rbind_Inr_iff)
  have "store_step verified_db d1"
    using d(1) by (auto simp: ended_db_def rbind_Inr_iff intro: store_step.cycle_op cycle_step.step_Terminate)
  moreover have "store_step d1 d" using d(2) by (auto simp: finished_db_def rbind_Inr_iff intro: store_step.update_task)
  ultimately show "store_step\<^sup>*\<^sup>* verified_db d" by (meson rtranclp.rtrancl_into_rtrancl rtranclp.rtrancl_refl)
qed

lemma verified_db_ok: "store_ok verified_db"
proof -
  have "acyclic ({} :: (string \<times> string) set)" by (simp add: wf_acyclic)
  moreover have "cycles_ok verified_db"
    by (rule cycles_okI)
       (auto simp: verified_db_def sample_defs cycle_phases_def numbered_by_def numbered_def cycle_status_ok_def phase_status_ok_def phase_allowed_def)
  ultimately show ?thesis
    by (simp add: store_ok_def deps_ok_def task_ids_ok_def refs_ok_def dep_edges_def verified_db_def task_w_def sample_defs)
qed

definition sample_answers :: worker_answers where
  "sample_answers = \<lparr>wa_Now = 0,
     wa_Git = \<lparr>ga_Resolve = \<lambda>w. Inr \<lparr>gc_WorktreeID = w, gc_BranchID = ''b'', gc_WorktreePath = ''/w'', gc_BranchName = ''main''\<rparr>,
       ga_PathExists = \<lambda>_. True, ga_Head = \<lambda>_. OnBranch ''main''\<rparr>,
     wa_World = sample_world 0, wa_Reset = sample_reset, wa_Others = \<lambda>s. s\<rparr>"

definition sample_pool :: "mem_queue \<Rightarrow> nat \<Rightarrow> slot \<Rightarrow> pool" where
  "sample_pool q n x = \<lparr>pl_queue = q, pl_conn = (sample_conn verified_db (\<lambda>_. None))\<lparr>cn_tick := n\<rparr>, pl_gate = {}, pl_slots = [x, Idle]\<rparr>"

lemma verified_reads:
  "Task_Get verified_db ''t'' = Inr task_w" "ListForTask verified_db ''t'' 0 = Inr [sample_cycle]" "ListRunning verified_db = [sample_cycle]"
  "task_Status task_w = StatusRunning" "taskHasBinding task_w" "task_ID task_w = ''t''" "task_WorktreeID task_w = Some ''w''"
  "trim_space ''w'' = ''w''" "cycle_TaskID sample_cycle = ''t''" "cycle_Status sample_cycle = CycleStatusRunning"
  by code_simp+

lemma sample_pool_reaches: "pool_reachable 4 2 (sample_pool \<lparr>mq_bufCap = 4, mq_pending = {}, mq_ch = []\<rparr> 2 (Busy ''t'' (AtLock task_w sample_cycle ''w'')))"
proof -
  let ?e = "\<lparr>mq_bufCap = 4, mq_pending = {}, mq_ch = []\<rparr>" and ?R = "pool_reachable 4 2"
  let ?q = "\<lparr>mq_bufCap = 4, mq_pending = {''t''}, mq_ch = [task_w]\<rparr>"
  have others: "\<And>s. others_move s (wa_Others sample_answers s)" by (simp add: sample_answers_def others_move_def)
  have c: "cn_db (sample_conn d f) = d" "cn_fault (sample_conn d f) = f" for d f by (simp_all add: sample_conn_def)
  have 0: "?R (sample_pool ?e 0 Idle)"
    using pool_init[of 4 ?e "sample_conn verified_db (\<lambda>_. None)" 2] verified_db_ok
    by (simp add: NewMemoryQueue_def NewPool_def sample_pool_def sample_conn_def eval_nat_numeral)
  let ?r = "no_result\<lparr>rec_Scanned := 1, rec_Enqueued := 1\<rparr>"
  have "pool_step (sample_pool ?e 0 Idle) (sample_pool ?q 0 Idle)"
    using pool_reconcile_running[of "sample_pool ?e 0 Idle" None ?r ?q]
    by (simp add: sample_pool_def ReconcileRunningTasksNotQueued_def NotifyReadyTask_def tryEnqueue_def verified_reads c no_result_def)
  note 1 = pool_next[OF 0 this]
  have "pool_step (sample_pool ?q 0 Idle) (sample_pool (?q\<lparr>mq_ch := []\<rparr>) 0 (Received task_w))"
    using pool_take[of 0 "sample_pool ?q 0 Idle" task_w "?q\<lparr>mq_ch := []\<rparr>"] by (simp add: sample_pool_def recv_take_def)
  note 2 = pool_next[OF 1 this]
  have "pool_step (sample_pool (?q\<lparr>mq_ch := []\<rparr>) 0 (Received task_w)) (sample_pool ?e 0 (Busy ''t'' AtReload))"
    using pool_unmark[of 0 "sample_pool (?q\<lparr>mq_ch := []\<rparr>) 0 (Received task_w)" task_w]
    by (simp add: sample_pool_def recv_unmark_def verified_reads)
  note 3 = pool_next[OF 2 this]
  have "pool_step (sample_pool ?e 0 (Busy ''t'' AtReload)) (sample_pool ?e 1 (Busy ''t'' (AtListCycles task_w)))"
    using pool_stage[of 0 "sample_pool ?e 0 (Busy ''t'' AtReload)" "''t''" AtReload sample_answers "AtListCycles task_w" "{}"
        "(sample_conn verified_db (\<lambda>_. None))\<lparr>cn_tick := 1\<rparr>"] others
    by (simp add: sample_pool_def reloadTask_def db_read_def db_call_def Let_def verified_reads c)
  note 4 = pool_next[OF 3 this]
  have "pool_step (sample_pool ?e 1 (Busy ''t'' (AtListCycles task_w))) (sample_pool ?e 2 (Busy ''t'' (AtLock task_w sample_cycle ''w'')))"
    using pool_stage[of 0 "sample_pool ?e 1 (Busy ''t'' (AtListCycles task_w))" "''t''" "AtListCycles task_w" sample_answers
        "AtLock task_w sample_cycle ''w''" "{}" "(sample_conn verified_db (\<lambda>_. None))\<lparr>cn_tick := 2\<rparr>"] others
    by (simp add: sample_pool_def openRunningCycle_def db_read_def db_call_def Let_def verified_reads c)
  note pool_next[OF 4 this]
  then show ?thesis .
qed

theorem stale_resume_undoes_done_witness:
  "\<exists>y y'. pool_reachable 4 2 y \<and> status_of (cn_db (pl_conn y)) ''t'' = Some StatusDone \<and> pool_step\<^sup>*\<^sup>* y y' \<and>
     status_of (cn_db (pl_conn y')) ''t'' = Some StatusFailed"
proof -
  let ?e = "\<lparr>mq_bufCap = 4, mq_pending = {}, mq_ch = []\<rparr>" and ?st = "AtLock task_w sample_cycle ''w''"
  let ?y = "sample_pool ?e 2 (Busy ''t'' ?st)"
  obtain d ps where d: "rbind ended_db finished_db = Inr d" "status_of d ''t'' = Some StatusDone"
    and ps: "ListPhasesForCycle d ''c'' = Inr ps" "ps \<noteq> []" "ph_Phase (last ps) = PhaseVerify" "ph_Status (last ps) = PhaseStatusSucceeded"
    using finish_run_done by (auto split: sum.splits)
  let ?y1 = "?y\<lparr>pl_conn := (pl_conn ?y)\<lparr>cn_db := d\<rparr>\<rparr>"
  have "others_move (pl_conn ?y) ((pl_conn ?y)\<lparr>cn_db := d\<rparr>)"
    using finish_run_moves[OF d(1)] by (simp add: others_move_def sample_pool_def sample_conn_def)
  then have "pool_step ?y ?y1" by (rule pool_outside)
  then have reach: "pool_reachable 4 2 ?y1" using sample_pool_reaches pool_next by blast
  then have ok: "store_ok (cn_db (pl_conn ?y1))" using pool_reachable_ok by blast
  have "runWithGitPrep (wa_Git sample_answers) task_w = Inr ''/w''"
    by (simp add: runWithGitPrep_def resolveTaskGitBinding_def prepareGitRun_def sample_answers_def verified_reads)
  then have "\<exists>y'. pool_step\<^sup>*\<^sup>* ?y1 y' \<and> status_of (cn_db (pl_conn y')) (task_ID task_w) = Some StatusFailed"
    using ok d ps
    by (intro stale_resume_undoes_done[of 0 ?y1 "''t''" task_w sample_cycle "''w''" ps sample_answers "''/w''"])
       (simp_all add: sample_pool_def sample_conn_def sample_answers_def verified_reads, simp_all add: sample_cycle_def)
  then obtain y' where "pool_step\<^sup>*\<^sup>* ?y1 y'" "status_of (cn_db (pl_conn y')) ''t'' = Some StatusFailed"
    unfolding verified_reads by blast
  moreover have "status_of (cn_db (pl_conn ?y1)) ''t'' = Some StatusDone" using d(2) by simp
  ultimately show ?thesis using reach by blast
qed

text \<open>The same database for the other property of the pool.\<close>

theorem pool_runs_exclusive_witness:
  "store_ok verified_db \<and> gate_ok {} [Busy ''t'' (AtLock task_w sample_cycle ''w''), Idle]"
  using pool_runs_exclusive[OF sample_pool_reaches] by (simp add: sample_pool_def sample_conn_def)

section \<open>Start-up closes interrupted phases\<close>

definition interrupt_input :: "cycle_phase \<Rightarrow> complete_phase_input" where
  "interrupt_input p = \<lparr>cpi_CycleID = ph_CycleID p, cpi_PhaseSeq = ph_PhaseSeq p, cpi_Status = PhaseStatusFailed,
     cpi_Summary = Some PhaseInterruptReason, cpi_Details = PBlank, cpi_By = ActorAgent\<rparr>"

text \<open>How a phase row is closed: as interrupted, all else but the details, the end and the audit number kept.\<close>

definition interrupted_as :: "cycle_phase \<Rightarrow> cycle_phase \<Rightarrow> bool" where
  "interrupted_as x y \<longleftrightarrow> isInterruptPhase y \<and> ph_ID y = ph_ID x \<and> ph_CycleID y = ph_CycleID x \<and> ph_Phase y = ph_Phase x \<and>
     ph_PhaseSeq y = ph_PhaseSeq x \<and> ph_StartedAt y = ph_StartedAt x"

lemma close_phase:
  assumes ok: "store_ok (cn_db s)" and f: "cn_fault s = (\<lambda>_. None)" and p: "p \<in> set (db_phases (cn_db s))" "ph_Status p = PhaseStatusRunning"
    and tr: "\<forall>c\<in>set (db_cycles (cn_db s)). trim_space (cycle_ID c) = cycle_ID c \<and> cycle_ID c \<noteq> []"
  shows "\<exists>s' F. so_CompletePhase db_store (interrupt_input p) s = (Inr (), s') \<and> store_ok (cn_db s') \<and> cn_fault s' = cn_fault s \<and>
     db_cycles (cn_db s') = db_cycles (cn_db s) \<and> db_tasks (cn_db s') = db_tasks (cn_db s) \<and>
     db_phases (cn_db s') = map F (db_phases (cn_db s)) \<and>
     (\<forall>x\<in>set (db_phases (cn_db s)). if ph_ID x = ph_ID p then interrupted_as x (F x) else F x = x)"
proof -
  let ?d = "cn_db s" and ?env = "cn_tx s (cn_tick s)"
  note cok = store_okD(1)[OF ok]
  obtain c where c: "c \<in> set (db_cycles ?d)" "cycle_ID c = ph_CycleID p"
    using store_okD(4)[OF ok] p(1) by (auto simp: refs_ok_def image_iff)
  have ci: "trim_space (ph_CycleID p) = ph_CycleID p" "ph_CycleID p \<noteq> []" using tr c by metis+
  have "cycle_TaskID c \<in> task_ID ` set (db_tasks ?d)" using store_okD(4)[OF ok] c(1) by (simp add: refs_ok_def)
  then have "complete_phase_pre ?d (interrupt_input p)"
    using c p ci phase_seq_pos[OF cok p(1)]
    by (auto simp: complete_phase_pre_def interrupt_input_def NormalizeJSONObject_def intro!: bexI[of _ c] bexI[of _ p])
  then obtain d' r where e: "CompletePhase ?env ?d (interrupt_input p) = Inr (d', r)" using CompletePhase_succeeds[OF cok] by blast
  note a = CompletePhase_audit[OF e]
  obtain q m n where q: "q \<in> set (db_phases ?d)" "ph_CycleID q = ph_CycleID r" "ph_PhaseSeq q = ph_PhaseSeq p"
    and ps: "db_phases d' = update_where (\<lambda>x. ph_ID x = ph_ID q)
         (\<lambda>x. (complete_update (interrupt_input p) (tx_now ?env) m x)\<lparr>ph_EventSeq := Some n\<rparr>) (db_phases ?d)"
    using a(5) by (auto simp: interrupt_input_def)
  have "ph_CycleID r = ph_CycleID p" using e by (elim CompletePhaseE) (use ci in \<open>simp add: loadPhaseByCycleSeqD interrupt_input_def\<close>)
  then have qp: "q = p" using numbered_by_inj[OF cycles_okD(4)[OF cok], of q p] q p(1) by simp
  have ok': "store_ok d'" using CompletePhase_store_ok[OF ok e] .
  let ?F = "\<lambda>x. if ph_ID x = ph_ID p then (complete_update (interrupt_input p) (tx_now ?env) m x)\<lparr>ph_EventSeq := Some n\<rparr> else x"
  have F: "\<forall>x\<in>set (db_phases ?d). if ph_ID x = ph_ID p then interrupted_as x (?F x) else ?F x = x"
    by (auto simp: interrupted_as_def isInterruptPhase_def complete_update_def interrupt_input_def)
  have "so_CompletePhase db_store (interrupt_input p) s = (Inr (), s\<lparr>cn_tick := Suc (cn_tick s), cn_db := d'\<rparr>)"
    using e f by (simp add: db_store_def db_write_def db_call_def unit_of_def Let_def)
  then show ?thesis using ok' a(2,3) ps F unfolding qp
    by (intro exI[of _ "s\<lparr>cn_tick := Suc (cn_tick s), cn_db := d'\<rparr>"] exI[of _ ?F]) (simp add: update_where_def)
qed

lemma finalize_closes:
  "store_ok (cn_db s) \<Longrightarrow> cn_fault s = (\<lambda>_. None) \<Longrightarrow>
   \<forall>c\<in>set (db_cycles (cn_db s)). trim_space (cycle_ID c) = cycle_ID c \<and> cycle_ID c \<noteq> [] \<Longrightarrow>
   \<forall>p\<in>set ps. p \<in> set (db_phases (cn_db s)) \<and> ph_Status p = PhaseStatusRunning \<Longrightarrow> distinct (map ph_ID ps) \<Longrightarrow>
   \<exists>s' F. finalize_phases (\<lambda>_. False) k ps n s = (True, n + length ps, s') \<and> db_cycles (cn_db s') = db_cycles (cn_db s) \<and>
     db_tasks (cn_db s') = db_tasks (cn_db s) \<and> db_phases (cn_db s') = map F (db_phases (cn_db s)) \<and>
     (\<forall>x\<in>set (db_phases (cn_db s)). if ph_ID x \<in> ph_ID ` set ps then interrupted_as x (F x) else F x = x)"
proof (induction ps arbitrary: k n s)
  case Nil
  then show ?case by (intro exI[of _ s] exI[of _ "\<lambda>x. x"]) simp
next
  case (Cons p ps)
  obtain s1 F where c: "so_CompletePhase db_store (interrupt_input p) s = (Inr (), s1)" "store_ok (cn_db s1)" "cn_fault s1 = cn_fault s"
    "db_cycles (cn_db s1) = db_cycles (cn_db s)" "db_tasks (cn_db s1) = db_tasks (cn_db s)" "db_phases (cn_db s1) = map F (db_phases (cn_db s))"
    and F: "\<forall>x\<in>set (db_phases (cn_db s)). if ph_ID x = ph_ID p then interrupted_as x (F x) else F x = x"
    using close_phase[OF Cons.prems(1,2), of p] Cons.prems(3,4) by auto
  have ps: "\<forall>x\<in>set ps. x \<in> set (db_phases (cn_db s1)) \<and> ph_Status x = PhaseStatusRunning"
  proof
    fix x assume x: "x \<in> set ps"
    then have "x \<in> set (db_phases (cn_db s))" "ph_Status x = PhaseStatusRunning" "ph_ID x \<noteq> ph_ID p"
      using Cons.prems(4,5) by (auto simp: image_iff)
    then show "x \<in> set (db_phases (cn_db s1)) \<and> ph_Status x = PhaseStatusRunning" using F unfolding c(6) by (auto intro: rev_image_eqI)
  qed
  obtain s' G where g: "finalize_phases (\<lambda>_. False) (Suc k) ps (Suc n) s1 = (True, Suc n + length ps, s')"
    "db_cycles (cn_db s') = db_cycles (cn_db s1)" "db_tasks (cn_db s') = db_tasks (cn_db s1)" "db_phases (cn_db s') = map G (db_phases (cn_db s1))"
    and G: "\<forall>x\<in>set (db_phases (cn_db s1)). if ph_ID x \<in> ph_ID ` set ps then interrupted_as x (G x) else G x = x"
    using Cons.IH[OF c(2), of "Suc k" "Suc n"] c ps Cons.prems by auto
  have ids: "ph_ID (F x) = ph_ID x" if "x \<in> set (db_phases (cn_db s))" for x using F that by (auto simp: interrupted_as_def split: if_splits)
  have "if ph_ID x \<in> ph_ID ` set (p # ps) then interrupted_as x (G (F x)) else G (F x) = x" if "x \<in> set (db_phases (cn_db s))" for x
  proof -
    have "F x \<in> set (db_phases (cn_db s1))" using that c(6) by simp
    then have "if ph_ID x \<in> ph_ID ` set ps then interrupted_as (F x) (G (F x)) else G (F x) = F x" using G ids[OF that] by metis
    moreover have "if ph_ID x = ph_ID p then interrupted_as x (F x) else F x = x" using F that by blast
    moreover have "ph_ID p \<notin> ph_ID ` set ps" using Cons.prems(5) by simp
    ultimately show ?thesis by (auto split: if_splits)
  qed
  then show ?case using c g unfolding interrupt_input_def
    by (intro exI[of _ s'] exI[of _ "G \<circ> F"]) (simp add: interrupt_input_def)
qed

text \<open>When no call fails, start-up closes every phase a crash left running, as interrupted, and
  counts them; every other phase, every cycle and every task stays as it was. So no continuation is refused
  because of a phase still running.\<close>

theorem startup_closes_running_phases:
  assumes "store_ok (cn_db s)" "cn_fault s = (\<lambda>_. None)"
    "\<forall>c\<in>set (db_cycles (cn_db s)). trim_space (cycle_ID c) = cycle_ID c \<and> cycle_ID c \<noteq> []"
  shows "\<exists>s' F. FinalizeInterruptedPhases (\<lambda>_. False) s = (True, length (ListRunningPhases (cn_db s)), s') \<and>
     ListRunningPhases (cn_db s') = [] \<and> db_cycles (cn_db s') = db_cycles (cn_db s) \<and> db_tasks (cn_db s') = db_tasks (cn_db s) \<and>
     db_phases (cn_db s') = map F (db_phases (cn_db s)) \<and>
     (\<forall>x\<in>set (db_phases (cn_db s)). if ph_Status x = PhaseStatusRunning then interrupted_as x (F x) else F x = x)"
proof -
  let ?ps = "ListRunningPhases (cn_db s)" and ?s = "s\<lparr>cn_tick := Suc (cn_tick s)\<rparr>"
  have run: "set ?ps = {p \<in> set (db_phases (cn_db s)). ph_Status p = PhaseStatusRunning}" by (simp add: ListRunningPhases_def)
  have d: "distinct (map ph_ID (db_phases (cn_db s)))" using cycles_okD(2)[OF store_okD(1)[OF assms(1)]] .
  have inj: "inj_on ph_ID (set ?ps)" using d run by (auto simp: distinct_map intro: inj_on_subset)
  have "distinct ?ps" using d by (simp add: ListRunningPhases_def distinct_map)
  then have dist: "distinct (map ph_ID ?ps)" using inj by (simp add: distinct_map)
  obtain s' F where f: "finalize_phases (\<lambda>_. False) 0 ?ps 0 ?s = (True, 0 + length ?ps, s')" "db_cycles (cn_db s') = db_cycles (cn_db s)"
    "db_tasks (cn_db s') = db_tasks (cn_db s)" "db_phases (cn_db s') = map F (db_phases (cn_db s))"
    and F: "\<forall>x\<in>set (db_phases (cn_db s)). if ph_ID x \<in> ph_ID ` set ?ps then interrupted_as x (F x) else F x = x"
    using finalize_closes[of ?s ?ps 0 0] assms run dist by auto
  have mem: "ph_ID x \<in> ph_ID ` set ?ps \<longleftrightarrow> ph_Status x = PhaseStatusRunning" if "x \<in> set (db_phases (cn_db s))" for x
  proof
    assume "ph_ID x \<in> ph_ID ` set ?ps"
    then obtain p where "p \<in> set ?ps" "ph_ID x = ph_ID p" by auto
    then show "ph_Status x = PhaseStatusRunning" using run d that by (auto simp: distinct_map dest: inj_onD)
  qed (use run that in blast)
  have none: "ListRunningPhases (cn_db s') = []"
  proof -
    have "ph_Status (F x) \<noteq> PhaseStatusRunning" if x: "x \<in> set (db_phases (cn_db s))" for x
      using F mem[OF x] x by (cases "ph_Status x = PhaseStatusRunning") (auto simp: interrupted_as_def isInterruptPhase_def)
    then have "filter (\<lambda>p. ph_Status p = PhaseStatusRunning) (db_phases (cn_db s')) = []" unfolding f(4) by (auto simp: filter_empty_conv)
    then show ?thesis unfolding ListRunningPhases_def by (simp only: sort_key_simps)
  qed
  have "FinalizeInterruptedPhases (\<lambda>_. False) s = (True, length ?ps, s')"
    using f(1) assms(2) by (simp add: FinalizeInterruptedPhases_def db_read_def db_call_def Let_def)
  then show ?thesis using none f F mem by (intro exI[of _ s'] exI[of _ F]) simp
qed

theorem startup_closes_running_phases_witness:
  "\<exists>s'. FinalizeInterruptedPhases (\<lambda>_. False) (sample_conn sample_db2 (\<lambda>_. None)) = (True, 1, s') \<and> ListRunningPhases (cn_db s') = []"
proof -
  have ok: "store_ok sample_db2"
  proof -
    have "acyclic ({} :: (string \<times> string) set)" by (simp add: wf_acyclic)
    then show ?thesis using sample_dbs_ok(3)
      by (simp add: store_ok_def deps_ok_def task_ids_ok_def refs_ok_def dep_edges_def sample_defs)
  qed
  have n: "length (ListRunningPhases sample_db2) = 1" by (simp add: ListRunningPhases_def sample_defs)
  show ?thesis
    using startup_closes_running_phases[of "sample_conn sample_db2 (\<lambda>_. None)"] ok n
    by (auto simp: sample_conn_def sample_db2_def sample_db1_def sample_db_def sample_cycle_def empty_db_def)
qed

end
