(* ===== verification/Go_Strconv.thy ===== *)
theory Go_Strconv
  imports Hamix_Prelude
begin

text \<open>
  The number parsers of Go's \<^verbatim>\<open>strconv\<close> that the HTTP layer uses, with their range checks, and the lower case
  of ASCII letters.
\<close>

definition digit_val :: "char \<Rightarrow> nat option" where
  "digit_val c = (if CHR ''0'' \<le> c \<and> c \<le> CHR ''9'' then Some (of_char c - of_char CHR ''0'') else None)"

text \<open>\<^verbatim>\<open>strconv.ParseUint(v, 10, 64)\<close>: decimal digits only, out of range is an error.\<close>

fun parse_digits :: "nat \<Rightarrow> string \<Rightarrow> nat option" where
  "parse_digits acc [] = Some acc"
| "parse_digits acc (c # cs) =
     (case digit_val c of
        None \<Rightarrow> None
      | Some d \<Rightarrow> if 2 ^ 64 \<le> acc * 10 + d then None else parse_digits (acc * 10 + d) cs)"

definition ParseUint64 :: "string \<Rightarrow> nat option" where
  "ParseUint64 v = (if v = [] then None else parse_digits 0 v)"

text \<open>\<^verbatim>\<open>strconv.Atoi\<close>: an optional sign and digits, in the range of a 64 bit integer.\<close>

definition Atoi :: "string \<Rightarrow> int option" where
  "Atoi s =
     (let neg = (s \<noteq> [] \<and> hd s = CHR ''-'');
          ds = (if s \<noteq> [] \<and> (hd s = CHR ''-'' \<or> hd s = CHR ''+'') then tl s else s) in
      case ParseUint64 ds of
        None \<Rightarrow> None
      | Some n \<Rightarrow>
          if neg then (if n \<le> 2 ^ 63 then Some (- int n) else None)
          else (if n < 2 ^ 63 then Some (int n) else None))"

text \<open>\<^verbatim>\<open>strings.EqualFold\<close> against an ASCII text without \<^verbatim>\<open>k\<close> and \<^verbatim>\<open>s\<close> (the two letters that fold with other code points).\<close>

definition lower_letter :: "char \<Rightarrow> char" where
  "lower_letter c = (if CHR ''A'' \<le> c \<and> c \<le> CHR ''Z'' then char_of (of_char c + 32 :: nat) else c)"

definition fold_equal :: "string \<Rightarrow> string \<Rightarrow> bool" where
  "fold_equal a b \<longleftrightarrow> map lower_letter a = map lower_letter b"

lemma parse_digits_bound: "parse_digits acc cs = Some n \<Longrightarrow> acc < 2 ^ 64 \<Longrightarrow> n < 2 ^ 64"
  by (induction cs arbitrary: acc) (auto split: option.splits if_splits)

lemma ParseUint64_bound: "ParseUint64 v = Some n \<Longrightarrow> n < 2 ^ 64"
  using parse_digits_bound[of 0 v n] by (simp add: ParseUint64_def split: if_splits)

lemma Atoi_bounds: "Atoi s = Some n \<Longrightarrow> - (2 ^ 63) \<le> n \<and> n < 2 ^ 63"
  by (auto simp: Atoi_def Let_def split: option.splits if_splits)

end
