(* ===== verification/SSE_Hub.thy ===== *)
theory SSE_Hub
  imports Go_Strconv "HOL-Library.Multiset"
begin

text \<open>
  \<^verbatim>\<open>pkgs/tasks/realtime\<close> and \<^verbatim>\<open>pkgs/tasks/handler/sse_hub.go\<close>, \<^verbatim>\<open>sse_stream.go\<close>: the hub that fans change
  events out to browsers, with its replay ring, coalescing and eviction of slow subscribers. \<open>Publish\<close> is
  not one critical section: the coalescing check, the allocation of the id, the append to the ring with the
  copy of the subscriber set, and each delivery are steps of their own, and publishers interleave between
  them. The ring is shown to hold the latest events of the log of appended ones.
\<close>

section \<open>Events on the wire (realtime/wire.go, coalesce.go)\<close>

datatype change_type = TaskCreated | TaskUpdated | TaskDeleted | TaskGateChanged | TaskDependencyChanged
  | TaskCycleChanged | AgentRunProgress | ProjectCreated | ProjectUpdated | ProjectDeleted | ProjectContextChanged
  | SettingsChanged | AgentRunCancelled | Resync | ChangeOther string

fun change_type_str :: "change_type \<Rightarrow> string" where
  "change_type_str TaskCreated = ''task_created''"
| "change_type_str TaskUpdated = ''task_updated''"
| "change_type_str TaskDeleted = ''task_deleted''"
| "change_type_str TaskGateChanged = ''task_gate_changed''"
| "change_type_str TaskDependencyChanged = ''task_dependency_changed''"
| "change_type_str TaskCycleChanged = ''task_cycle_changed''"
| "change_type_str AgentRunProgress = ''agent_run_progress''"
| "change_type_str ProjectCreated = ''project_created''"
| "change_type_str ProjectUpdated = ''project_updated''"
| "change_type_str ProjectDeleted = ''project_deleted''"
| "change_type_str ProjectContextChanged = ''project_context_changed''"
| "change_type_str SettingsChanged = ''settings_changed''"
| "change_type_str AgentRunCancelled = ''agent_run_cancelled''"
| "change_type_str Resync = ''resync''"
| "change_type_str (ChangeOther s) = s"

record run_progress_payload =
  rp_Kind :: string
  rp_Subtype :: string
  rp_Message :: string
  rp_Tool :: string

text \<open>\<open>Data\<close> is any Go value; \<^verbatim>\<open>json.Marshal\<close> refuses some (channels, functions).\<close>

datatype wire_data = NoData | DataJSON json | DataUnsupported

record wire_event =
  we_Type :: change_type
  we_ID :: string
  we_CycleID :: string
  we_PhaseSeq :: int
  we_RunCorrelationID :: string
  we_Progress :: "run_progress_payload option"
  we_Data :: wire_data

definition CoalesceKey :: "wire_event \<Rightarrow> string" where
  "CoalesceKey ev =
     (if we_Type ev = TaskCycleChanged \<or> we_Type ev = AgentRunProgress then []
      else if we_Data ev \<noteq> NoData then []
      else change_type_str (we_Type ev) @ '':'' @ we_ID ev)"

definition omit_empty :: "string \<Rightarrow> string \<Rightarrow> (string \<times> json) list" where
  "omit_empty k s = (if s = [] then [] else [(k, JStr s)])"

definition progress_payload_json :: "run_progress_payload \<Rightarrow> json" where
  "progress_payload_json p = JObj ([(''kind'', JStr (rp_Kind p))] @ omit_empty ''subtype'' (rp_Subtype p) @
     omit_empty ''message'' (rp_Message p) @ omit_empty ''tool'' (rp_Tool p))"

text \<open>\<^verbatim>\<open>json.Marshal(ev)\<close> with the tags of the struct.\<close>

definition marshal_event :: "wire_event \<Rightarrow> json option" where
  "marshal_event ev =
     (if we_Data ev = DataUnsupported then None
      else Some (JObj ([(''type'', JStr (change_type_str (we_Type ev))), (''id'', JStr (we_ID ev))] @
        omit_empty ''cycle_id'' (we_CycleID ev) @
        (if we_PhaseSeq ev = 0 then [] else [(''phase_seq'', JNum (we_PhaseSeq ev))]) @
        omit_empty ''run_correlation_id'' (we_RunCorrelationID ev) @
        (case we_Progress ev of None \<Rightarrow> [] | Some p \<Rightarrow> [(''progress'', progress_payload_json p)]) @
        (case we_Data ev of DataJSON d \<Rightarrow> [(''data'', d)] | _ \<Rightarrow> []))))"

section \<open>The hub\<close>

text \<open>Event ids are \<^verbatim>\<open>uint64\<close>: numbers below \<open>2 ^ 64\<close>, with wrap-around written out.\<close>

definition sub64 :: "nat \<Rightarrow> nat \<Rightarrow> nat" where "sub64 a b = (a + 2 ^ 64 - b) mod 2 ^ 64"

record buffered_event =
  be_id :: nat
  be_line :: json
  be_at :: gotime

definition zero_event :: buffered_event where
  "zero_event = \<lparr>be_id = 0, be_line = JNull, be_at = 0\<rparr>"

text \<open>A subscriber is its position in \<open>hub_objs\<close>; it outlives its registration in \<open>hub_subs\<close>, because a
  publisher may still hold it. \<open>sub_cancelled\<close> says its cancel channel is closed. A legacy subscriber is
  sent the line of an event only.\<close>

record subscriber =
  sub_ch :: "buffered_event list"
  sub_cap :: nat
  sub_legacy :: bool
  sub_cancelled :: bool

record sse_hub =
  hub_objs :: "subscriber list"
  hub_subs :: "nat list"
  hub_ring :: "buffered_event list"
  hub_ringHead :: nat
  hub_ringFilled :: bool
  hub_nextID :: nat
  hub_coalesceWindow :: int
  hub_lastEmitted :: "string \<rightharpoonup> gotime"
  hub_subBuf :: nat
  hub_heartbeatPeriod :: int

record hub_options =
  ho_RingSize :: int
  ho_SubscriberBuffer :: int
  ho_CoalesceWindow :: int
  ho_HeartbeatPeriod :: int

text \<open>Durations are in nanoseconds.\<close>

definition DefaultSSEHubOptions :: hub_options where
  "DefaultSSEHubOptions = \<lparr>ho_RingSize = 1024, ho_SubscriberBuffer = 256, ho_CoalesceWindow = 50 * 1000000,
     ho_HeartbeatPeriod = 15 * 1000000000\<rparr>"

definition NewSSEHubWith :: "hub_options \<Rightarrow> sse_hub" where
  "NewSSEHubWith opts =
     (let ringSize = (if ho_RingSize opts \<le> 0 then ho_RingSize DefaultSSEHubOptions else ho_RingSize opts);
          subBuf = (if ho_SubscriberBuffer opts \<le> 0 then ho_SubscriberBuffer DefaultSSEHubOptions
                    else ho_SubscriberBuffer opts) in
      \<lparr>hub_objs = [], hub_subs = [], hub_ring = replicate (nat ringSize) zero_event, hub_ringHead = 0, hub_ringFilled = False,
       hub_nextID = 0, hub_coalesceWindow = (if ho_CoalesceWindow opts < 0 then 0 else ho_CoalesceWindow opts),
       hub_lastEmitted = Map.empty, hub_subBuf = nat subBuf,
       hub_heartbeatPeriod = (if ho_HeartbeatPeriod opts < 0 then 0 else ho_HeartbeatPeriod opts)\<rparr>)"

definition NewSSEHub :: sse_hub where
  "NewSSEHub = NewSSEHubWith (DefaultSSEHubOptions\<lparr>ho_CoalesceWindow := 0\<rparr>)"

text \<open>The entries of the ring from the oldest on.\<close>

definition ring_window :: "sse_hub \<Rightarrow> buffered_event list" where
  "ring_window h =
     (let size = length (hub_ring h); start = (if hub_ringFilled h then hub_ringHead h else 0);
          count = (if hub_ringFilled h then size else hub_ringHead h) in
      map (\<lambda>i. hub_ring h ! ((start + i) mod size)) [0..<count])"

definition snapshotSinceLocked :: "nat \<Rightarrow> sse_hub \<Rightarrow> buffered_event list \<times> bool" where
  "snapshotSinceLocked sinceID h =
     (if \<not> hub_ringFilled h \<and> hub_ringHead h = 0 then ([], False)
      else
      let w = ring_window h;
          oldestID = (case w of [] \<Rightarrow> 0 | e # _ \<Rightarrow> be_id e) in
      (filter (\<lambda>e. sinceID < be_id e) w, sinceID < sub64 oldestID 1 \<or> (sinceID = 0 \<and> 1 < oldestID)))"

definition appendRingLocked :: "buffered_event \<Rightarrow> sse_hub \<Rightarrow> sse_hub" where
  "appendRingLocked ev h =
     (let h1 = h\<lparr>hub_ring := (hub_ring h)[hub_ringHead h := ev], hub_ringHead := Suc (hub_ringHead h)\<rparr> in
      if hub_ringHead h1 = length (hub_ring h1) then h1\<lparr>hub_ringHead := 0, hub_ringFilled := True\<rparr> else h1)"

section \<open>Subscribing\<close>

definition subscribe :: "nat \<Rightarrow> sse_hub \<Rightarrow> (nat \<times> buffered_event list \<times> bool) \<times> sse_hub" where
  "subscribe sinceID h =
     (let i = length (hub_objs h);
          (replay, hadGap) = (if 0 < sinceID then snapshotSinceLocked sinceID h else ([], False)) in
      ((i, replay, hadGap),
       h\<lparr>hub_objs := hub_objs h @ [\<lparr>sub_ch = [], sub_cap = hub_subBuf h, sub_legacy = False, sub_cancelled = False\<rparr>],
         hub_subs := hub_subs h @ [i]\<rparr>))"

definition legacySubscribeBuffer :: nat where "legacySubscribeBuffer = 32"

definition Subscribe :: "sse_hub \<Rightarrow> nat \<times> sse_hub" where
  "Subscribe h =
     (let i = length (hub_objs h) in
      (i, h\<lparr>hub_objs := hub_objs h @ [\<lparr>sub_ch = [], sub_cap = legacySubscribeBuffer, sub_legacy = True, sub_cancelled = False\<rparr>],
            hub_subs := hub_subs h @ [i]\<rparr>))"

text \<open>The cancel function a subscriber is given.\<close>

definition cancel_sub :: "nat \<Rightarrow> sse_hub \<Rightarrow> sse_hub" where
  "cancel_sub i h = h\<lparr>hub_subs := filter (\<lambda>j. j \<noteq> i) (hub_subs h)\<rparr>"

definition evictSubscriber :: "nat \<Rightarrow> sse_hub \<Rightarrow> sse_hub" where
  "evictSubscriber i h =
     (if i \<in> set (hub_subs h)
      then h\<lparr>hub_subs := filter (\<lambda>j. j \<noteq> i) (hub_subs h),
             hub_objs := (hub_objs h)[i := (hub_objs h ! i)\<lparr>sub_cancelled := True\<rparr>]\<rparr>
      else h)"

section \<open>Publishing\<close>

text \<open>The first critical section: is the event dropped as a duplicate?\<close>

definition coalesce :: "gotime \<Rightarrow> wire_event \<Rightarrow> sse_hub \<Rightarrow> bool \<times> sse_hub" where
  "coalesce now ev h =
     (if 0 < hub_coalesceWindow h \<and> CoalesceKey ev \<noteq> []
      then (case hub_lastEmitted h (CoalesceKey ev) of
              Some prev \<Rightarrow> if now - prev < hub_coalesceWindow h then (True, h)
                           else (False, h\<lparr>hub_lastEmitted := (hub_lastEmitted h)(CoalesceKey ev \<mapsto> now)\<rparr>)
            | None \<Rightarrow> (False, h\<lparr>hub_lastEmitted := (hub_lastEmitted h)(CoalesceKey ev \<mapsto> now)\<rparr>))
      else (False, h))"

text \<open>\<^verbatim>\<open>h.nextID.Add(1)\<close>.\<close>

definition alloc_id :: "sse_hub \<Rightarrow> nat \<times> sse_hub" where
  "alloc_id h = (let n = (hub_nextID h + 1) mod 2 ^ 64 in (n, h\<lparr>hub_nextID := n\<rparr>))"

text \<open>The second critical section: append to the ring and copy the subscribers.\<close>

definition append_event :: "buffered_event \<Rightarrow> sse_hub \<Rightarrow> nat list \<times> sse_hub" where
  "append_event be h = (hub_subs h, appendRingLocked be h)"

text \<open>The send with a default branch: a full legacy channel drops the line, any other full channel evicts.\<close>

definition deliver :: "buffered_event \<Rightarrow> nat \<Rightarrow> sse_hub \<Rightarrow> sse_hub" where
  "deliver be i h =
     (let s = hub_objs h ! i in
      if length (sub_ch s) < sub_cap s
      then h\<lparr>hub_objs := (hub_objs h)[i := s\<lparr>sub_ch := sub_ch s @ [be]\<rparr>]\<rparr>
      else if sub_legacy s then h
      else evictSubscriber i h)"

text \<open>Alone, without another publisher in between.\<close>

definition Publish :: "gotime \<Rightarrow> wire_event \<Rightarrow> sse_hub \<Rightarrow> sse_hub" where
  "Publish now ev h =
     (let (dup, h1) = coalesce now ev h in
      if dup then h1
      else case marshal_event ev of
        None \<Rightarrow> h1
      | Some line \<Rightarrow>
          let (n, h2) = alloc_id h1;
              be = \<lparr>be_id = n, be_line = line, be_at = now\<rparr>;
              (out, h3) = append_event be h2 in
          foldl (\<lambda>hh i. deliver be i hh) h3 out)"

definition LastEventID :: "sse_hub \<Rightarrow> nat" where "LastEventID h = hub_nextID h"

section \<open>The stream of one client (sse_stream.go)\<close>

datatype frame = FRetry | FResync | FEvent nat json | FHeartbeat

definition parseLastEventIDHeader :: "string \<Rightarrow> nat" where
  "parseLastEventIDHeader v = (if v = [] then 0 else case ParseUint64 v of None \<Rightarrow> 0 | Some n \<Rightarrow> n)"

definition event_frame :: "buffered_event \<Rightarrow> frame" where
  "event_frame e = FEvent (be_id e) (be_line e)"

text \<open>What is written before the live loop.\<close>

definition stream_open :: "string \<Rightarrow> sse_hub \<Rightarrow> (nat \<times> frame list) \<times> sse_hub" where
  "stream_open header h =
     (let ((i, replay, hadGap), h1) = subscribe (parseLastEventIDHeader header) h in
      ((i, FRetry # (if hadGap then [FResync] else map event_frame replay)), h1))"

definition take_event :: "nat \<Rightarrow> sse_hub \<Rightarrow> (buffered_event \<times> sse_hub) option" where
  "take_event i h =
     (case sub_ch (hub_objs h ! i) of
        [] \<Rightarrow> None
      | e # es \<Rightarrow> Some (e, h\<lparr>hub_objs := (hub_objs h)[i := (hub_objs h ! i)\<lparr>sub_ch := es\<rparr>]\<rparr>))"

text \<open>One round of the live loop; when several cases of the select are ready any of them may be taken.\<close>

datatype stream_case = CaseDone | CaseCancel | CaseEvent | CaseHeartbeat

text \<open>The frames written, whether the stream goes on, and the hub; None when the case is not ready.\<close>

definition stream_select :: "stream_case \<Rightarrow> nat \<Rightarrow> sse_hub \<Rightarrow> (frame list \<times> bool \<times> sse_hub) option" where
  "stream_select k i h =
     (case k of
        CaseDone \<Rightarrow> Some ([], False, cancel_sub i h)
      | CaseCancel \<Rightarrow> if sub_cancelled (hub_objs h ! i) then Some ([FResync], False, cancel_sub i h) else None
      | CaseEvent \<Rightarrow>
          (case take_event i h of None \<Rightarrow> None | Some (e, h1) \<Rightarrow> Some ([event_frame e], True, h1))
      | CaseHeartbeat \<Rightarrow> if 0 < hub_heartbeatPeriod h then Some ([FHeartbeat], True, h) else None)"

section \<open>The ring holds the latest events\<close>

definition latest :: "nat \<Rightarrow> 'a list \<Rightarrow> 'a list" where
  "latest n xs = drop (length xs - n) xs"

text \<open>A bounded log: \<open>view\<close> is what it holds, and a push keeps the latest \<open>cap\<close> entries.\<close>

locale bounded_log =
  fixes good :: "'s \<Rightarrow> bool" and cap :: "'s \<Rightarrow> nat" and view :: "'s \<Rightarrow> 'a list" and push :: "'a \<Rightarrow> 's \<Rightarrow> 's"
  assumes push_good: "good s \<Longrightarrow> good (push x s)" and push_cap: "good s \<Longrightarrow> cap (push x s) = cap s"
    and push_view: "good s \<Longrightarrow> view (push x s) = latest (cap s) (view s @ [x])"
begin

lemma holds_latest: "good s \<Longrightarrow> view s = latest (cap s) hist \<Longrightarrow> view (push x s) = latest (cap s) (hist @ [x])"
  by (cases "cap s \<le> length hist") (auto simp: push_view latest_def Suc_diff_le)

lemma pushes: "good s \<Longrightarrow> view s = latest (cap s) hist \<Longrightarrow> view (foldl (\<lambda>s x. push x s) s xs) = latest (cap s) (hist @ xs)"
proof (induction xs arbitrary: s hist)
  case (Cons x xs)
  show ?case using Cons.IH[where s = "push x s" and hist = "hist @ [x]", OF push_good[OF Cons.prems(1)]] push_cap[OF Cons.prems(1)] holds_latest[OF Cons.prems] by simp
qed simp

end

definition ring_ok :: "sse_hub \<Rightarrow> bool" where
  "ring_ok h \<longleftrightarrow> hub_ringHead h < length (hub_ring h)"

lemma map_rotate: "k < length xs \<Longrightarrow> map (\<lambda>i. xs ! ((k + i) mod length xs)) [0..<length xs] = drop k xs @ take k xs"
  by (rule nth_equalityI) (auto simp: nth_append mod_if add.commute)

lemma ring_window_eq:
  "ring_ok h \<Longrightarrow> ring_window h =
     (if hub_ringFilled h then drop (hub_ringHead h) (hub_ring h) else []) @ take (hub_ringHead h) (hub_ring h)"
proof -
  assume ok: "ring_ok h"
  have "map (\<lambda>i. hub_ring h ! (i mod length (hub_ring h))) [0..<hub_ringHead h] = take (hub_ringHead h) (hub_ring h)"
    using ok by (intro nth_equalityI) (auto simp: ring_ok_def)
  then show ?thesis using ok map_rotate[of "hub_ringHead h" "hub_ring h"] by (simp add: ring_window_def ring_ok_def Let_def)
qed

interpretation ring: bounded_log ring_ok "\<lambda>h. length (hub_ring h)" ring_window appendRingLocked
proof
  fix h x assume ok: "ring_ok h"
  show ok': "ring_ok (appendRingLocked x h)" using ok by (auto simp: ring_ok_def appendRingLocked_def Let_def)
  show "length (hub_ring (appendRingLocked x h)) = length (hub_ring h)" by (simp add: appendRingLocked_def Let_def)
  let ?r = "hub_ring h" and ?k = "hub_ringHead h"
  have k: "?k < length ?r" using ok by (simp add: ring_ok_def)
  have up: "take (Suc ?k) (?r[?k := x]) = take ?k ?r @ [x]" "drop (Suc ?k) (?r[?k := x]) = drop (Suc ?k) ?r"
    using k by (simp_all add: take_Suc_conv_app_nth)
  have one: "Suc (Suc (length ?r - Suc 0)) - length ?r = Suc 0" using k by arith
  have full: "drop ?k ?r = ?r ! ?k # drop (Suc ?k) ?r" using k by (simp add: Cons_nth_drop_Suc)
  show "ring_window (appendRingLocked x h) = latest (length ?r) (ring_window h @ [x])"
    unfolding ring_window_eq[OF ok] ring_window_eq[OF ok'] using k up full one
    by (auto simp: appendRingLocked_def latest_def Let_def min_def)
qed

section \<open>Publishers, subscribers and streams interleaved\<close>

text \<open>Where a publisher stands between its critical sections.\<close>

datatype publisher = Passed gotime json | Allocated buffered_event | Delivering buffered_event "nat list"

text \<open>\<open>sys_log\<close> is the sequence of events appended so far; \<open>sys_from\<close> and \<open>sys_got\<close> record for each subscriber
  how long the log was when it subscribed and what it has taken from its channel.\<close>

record hub_sys =
  sys_hub :: sse_hub
  sys_pubs :: "publisher list"
  sys_log :: "buffered_event list"
  sys_from :: "nat list"
  sys_got :: "buffered_event list list"

definition hub_start :: "hub_options \<Rightarrow> hub_sys" where
  "hub_start opts = \<lparr>sys_hub = NewSSEHubWith opts, sys_pubs = [], sys_log = [], sys_from = [], sys_got = []\<rparr>"

inductive hub_step :: "hub_sys \<Rightarrow> hub_sys \<Rightarrow> bool" where
  hub_pass: "coalesce now ev (sys_hub y) = (False, h) \<Longrightarrow> marshal_event ev = Some line \<Longrightarrow>
     hub_step y (y\<lparr>sys_hub := h, sys_pubs := sys_pubs y @ [Passed now line]\<rparr>)"
| hub_drop: "coalesce now ev (sys_hub y) = (dup, h) \<Longrightarrow> dup \<or> marshal_event ev = None \<Longrightarrow> hub_step y (y\<lparr>sys_hub := h\<rparr>)"
| hub_alloc: "k < length (sys_pubs y) \<Longrightarrow> sys_pubs y ! k = Passed now line \<Longrightarrow> alloc_id (sys_hub y) = (n, h) \<Longrightarrow>
     hub_step y (y\<lparr>sys_hub := h, sys_pubs := (sys_pubs y)[k := Allocated \<lparr>be_id = n, be_line = line, be_at = now\<rparr>]\<rparr>)"
| hub_append: "k < length (sys_pubs y) \<Longrightarrow> sys_pubs y ! k = Allocated be \<Longrightarrow> append_event be (sys_hub y) = (out, h) \<Longrightarrow>
     hub_step y (y\<lparr>sys_hub := h, sys_pubs := (sys_pubs y)[k := Delivering be out], sys_log := sys_log y @ [be]\<rparr>)"
| hub_deliver: "k < length (sys_pubs y) \<Longrightarrow> sys_pubs y ! k = Delivering be (i # out) \<Longrightarrow>
     hub_step y (y\<lparr>sys_hub := deliver be i (sys_hub y), sys_pubs := (sys_pubs y)[k := Delivering be out]\<rparr>)"
| hub_subscribe: "subscribe since (sys_hub y) = ((i, replay, gap), h) \<Longrightarrow>
     hub_step y (y\<lparr>sys_hub := h, sys_from := sys_from y @ [length (sys_log y)], sys_got := sys_got y @ [[]]\<rparr>)"
| hub_legacy: "Subscribe (sys_hub y) = (i, h) \<Longrightarrow>
     hub_step y (y\<lparr>sys_hub := h, sys_from := sys_from y @ [length (sys_log y)], sys_got := sys_got y @ [[]]\<rparr>)"
| hub_cancel: "hub_step y (y\<lparr>sys_hub := cancel_sub i (sys_hub y)\<rparr>)"
| hub_take: "i < length (hub_objs (sys_hub y)) \<Longrightarrow> take_event i (sys_hub y) = Some (e, h) \<Longrightarrow>
     hub_step y (y\<lparr>sys_hub := h, sys_got := (sys_got y)[i := sys_got y ! i @ [e]]\<rparr>)"

inductive hub_reachable :: "hub_options \<Rightarrow> hub_sys \<Rightarrow> bool" for opts where
  hub_init: "hub_reachable opts (hub_start opts)"
| hub_next: "hub_reachable opts y \<Longrightarrow> hub_step y y' \<Longrightarrow> hub_reachable opts y'"

text \<open>What is on its way to subscriber \<open>i\<close>.\<close>

fun in_flight :: "nat \<Rightarrow> publisher \<Rightarrow> buffered_event list" where
  "in_flight i (Delivering be out) = (if i \<in> set out then [be] else [])"
| "in_flight i _ = []"

definition flying :: "nat \<Rightarrow> publisher list \<Rightarrow> buffered_event multiset" where
  "flying i ps = mset (concat (map (in_flight i) ps))"

lemma flying_simps [simp]: "flying i (ps @ [p]) = flying i ps + mset (in_flight i p)" "flying i [] = {#}"
  by (simp_all add: flying_def)

lemma flying_update: "k < length ps \<Longrightarrow> flying i (ps[k := q]) + mset (in_flight i (ps ! k)) = flying i ps + mset (in_flight i q)"
proof (induction ps arbitrary: k)
  case (Cons p ps)
  then show ?case by (cases k) (auto simp: flying_def add_ac)
qed simp

section \<open>The invariant\<close>

definition hub_typed :: "sse_hub \<Rightarrow> bool" where
  "hub_typed h \<longleftrightarrow> ring_ok h \<and> distinct (hub_subs h) \<and> (\<forall>i\<in>set (hub_subs h). i < length (hub_objs h) \<and> \<not> sub_cancelled (hub_objs h ! i)) \<and>
     (\<forall>s\<in>set (hub_objs h). length (sub_ch s) \<le> sub_cap s)"

definition delivery_ok :: "nat \<Rightarrow> publisher \<Rightarrow> bool" where
  "delivery_ok n p = (case p of Delivering be out \<Rightarrow> distinct out \<and> (\<forall>i\<in>set out. i < n) | _ \<Rightarrow> True)"

text \<open>Subscriber \<open>i\<close> has or will get exactly the events appended since it subscribed.\<close>

definition owed :: "hub_sys \<Rightarrow> nat \<Rightarrow> bool" where
  "owed y i \<longleftrightarrow> mset (sys_got y ! i) + mset (sub_ch (hub_objs (sys_hub y) ! i)) + flying i (sys_pubs y) =
     mset (drop (sys_from y ! i) (sys_log y))"

definition hub_inv :: "hub_sys \<Rightarrow> bool" where
  "hub_inv y \<longleftrightarrow> (let h = sys_hub y; n = length (hub_objs h) in
     hub_typed h \<and> ring_window h = latest (length (hub_ring h)) (sys_log y) \<and>
     length (sys_from y) = n \<and> length (sys_got y) = n \<and> (\<forall>j<n. sys_from y ! j \<le> length (sys_log y)) \<and>
     (\<forall>p\<in>set (sys_pubs y). delivery_ok n p) \<and>
     (\<forall>i\<in>set (hub_subs h). \<not> sub_legacy (hub_objs h ! i) \<longrightarrow> owed y i))"

lemma hub_invI:
  assumes "hub_typed (sys_hub y)" "ring_window (sys_hub y) = latest (length (hub_ring (sys_hub y))) (sys_log y)"
    "length (sys_from y) = length (hub_objs (sys_hub y))" "length (sys_got y) = length (hub_objs (sys_hub y))"
    "\<And>j. j < length (hub_objs (sys_hub y)) \<Longrightarrow> sys_from y ! j \<le> length (sys_log y)"
    "\<And>p. p \<in> set (sys_pubs y) \<Longrightarrow> delivery_ok (length (hub_objs (sys_hub y))) p"
    "\<And>i. i \<in> set (hub_subs (sys_hub y)) \<Longrightarrow> \<not> sub_legacy (hub_objs (sys_hub y) ! i) \<Longrightarrow> owed y i"
  shows "hub_inv y"
  using assms by (simp add: hub_inv_def Let_def)

lemma hub_invD:
  assumes "hub_inv y"
  shows "hub_typed (sys_hub y)" "ring_window (sys_hub y) = latest (length (hub_ring (sys_hub y))) (sys_log y)"
    "length (sys_from y) = length (hub_objs (sys_hub y))" "length (sys_got y) = length (hub_objs (sys_hub y))"
    "j < length (hub_objs (sys_hub y)) \<Longrightarrow> sys_from y ! j \<le> length (sys_log y)"
    "p \<in> set (sys_pubs y) \<Longrightarrow> delivery_ok (length (hub_objs (sys_hub y))) p"
    "i \<in> set (hub_subs (sys_hub y)) \<Longrightarrow> \<not> sub_legacy (hub_objs (sys_hub y) ! i) \<Longrightarrow> owed y i"
    "i \<in> set (hub_subs (sys_hub y)) \<Longrightarrow> i < length (hub_objs (sys_hub y))"
  using assms by (auto simp: hub_inv_def hub_typed_def Let_def)

text \<open>What touches neither ring nor subscribers.\<close>

definition hub_core :: "sse_hub \<Rightarrow> subscriber list \<times> nat list \<times> buffered_event list \<times> nat \<times> bool" where
  "hub_core h = (hub_objs h, hub_subs h, hub_ring h, hub_ringHead h, hub_ringFilled h)"

lemma coalesce_core: "coalesce now ev h = (dup, h') \<Longrightarrow> hub_core h' = hub_core h"
  by (auto simp: coalesce_def hub_core_def split: if_splits option.splits)

lemma alloc_core: "alloc_id h = (n, h') \<Longrightarrow> hub_core h' = hub_core h"
  by (auto simp: alloc_id_def hub_core_def Let_def)

lemma core_eq:
  assumes "hub_core h' = hub_core h"
  shows "hub_objs h' = hub_objs h" "hub_subs h' = hub_subs h" "hub_ring h' = hub_ring h" "hub_typed h' = hub_typed h"
    "ring_window h' = ring_window h"
  using assms by (auto simp: hub_core_def hub_typed_def ring_ok_def ring_window_def Let_def)

lemma ring_window_same:
  "hub_ring h' = hub_ring h \<Longrightarrow> hub_ringHead h' = hub_ringHead h \<Longrightarrow> hub_ringFilled h' = hub_ringFilled h \<Longrightarrow>
   ring_window h' = ring_window h"
  by (simp add: ring_window_def)

lemma hub_start_inv: "hub_inv (hub_start opts)"
  by (rule hub_invI) (auto simp: hub_start_def NewSSEHubWith_def hub_typed_def ring_ok_def ring_window_def latest_def Let_def
      DefaultSSEHubOptions_def)

text \<open>A step that keeps the hub but for its ids and replaces one publisher by one with the same deliveries.\<close>

lemma hub_inv_core:
  assumes i: "hub_inv y" and c: "hub_core h = hub_core (sys_hub y)"
    and fl: "\<And>j. flying j ps = flying j (sys_pubs y)" and d: "\<And>p. p \<in> set ps \<Longrightarrow> delivery_ok (length (hub_objs (sys_hub y))) p"
  shows "hub_inv (y\<lparr>sys_hub := h, sys_pubs := ps\<rparr>)"
  by (rule hub_invI) (use hub_invD[OF i] d fl in \<open>auto simp: core_eq[OF c] owed_def\<close>)

lemma step_append:
  assumes i: "hub_inv y" and k: "k < length (sys_pubs y)" "sys_pubs y ! k = Allocated be"
    and a: "append_event be (sys_hub y) = (out, h)"
  shows "hub_inv (y\<lparr>sys_hub := h, sys_pubs := (sys_pubs y)[k := Delivering be out], sys_log := sys_log y @ [be]\<rparr>)"
proof (rule hub_invI)
  have h: "out = hub_subs (sys_hub y)" "h = appendRingLocked be (sys_hub y)" using a by (auto simp: append_event_def)
  have same: "hub_objs h = hub_objs (sys_hub y)" "hub_subs h = hub_subs (sys_hub y)" by (simp_all add: h appendRingLocked_def Let_def)
  have ring: "ring_ok (sys_hub y)" using hub_invD(1)[OF i] by (simp add: hub_typed_def)
  let ?y = "y\<lparr>sys_hub := h, sys_pubs := (sys_pubs y)[k := Delivering be out], sys_log := sys_log y @ [be]\<rparr>"
  show "hub_typed (sys_hub ?y)" using hub_invD(1)[OF i] ring.push_good[OF ring, of be] same by (simp add: hub_typed_def h)
  show "ring_window (sys_hub ?y) = latest (length (hub_ring (sys_hub ?y))) (sys_log ?y)"
    using ring.holds_latest[OF ring hub_invD(2)[OF i], of be] ring.push_cap[OF ring, of be] by (simp add: h)
  show "length (sys_from ?y) = length (hub_objs (sys_hub ?y))" "length (sys_got ?y) = length (hub_objs (sys_hub ?y))"
    using hub_invD(3,4)[OF i] same by simp_all
  show "sys_from ?y ! j \<le> length (sys_log ?y)" if "j < length (hub_objs (sys_hub ?y))" for j
    using hub_invD(5)[OF i] that same by (simp add: le_SucI)
  show "delivery_ok (length (hub_objs (sys_hub ?y))) p" if "p \<in> set (sys_pubs ?y)" for p
    using that hub_invD(1,6,8)[OF i] same h(1) set_update_subset_insert[of "sys_pubs y" k "Delivering be out"]
    by (fastforce simp: delivery_ok_def hub_typed_def)
  show "owed ?y j" if "j \<in> set (hub_subs (sys_hub ?y))" "\<not> sub_legacy (hub_objs (sys_hub ?y) ! j)" for j
  proof -
    have j: "j \<in> set out" "owed y j" "sys_from y ! j \<le> length (sys_log y)" using that same h(1) hub_invD(5,7,8)[OF i] by auto
    have "flying j ((sys_pubs y)[k := Delivering be out]) = flying j (sys_pubs y) + {#be#}"
      using flying_update[OF k(1), of j "Delivering be out"] k(2) j(1) by simp
    then show ?thesis using j same by (simp add: owed_def)
  qed
qed

lemma in_flight_hd: "distinct (i # out) \<Longrightarrow>
    mset (in_flight j (Delivering be (i # out))) = mset (in_flight j (Delivering be out)) + (if j = i then {#be#} else {#})"
  by auto

lemma step_deliver:
  assumes i: "hub_inv y" and k: "k < length (sys_pubs y)" "sys_pubs y ! k = Delivering be (j # out)"
  shows "hub_inv (y\<lparr>sys_hub := deliver be j (sys_hub y), sys_pubs := (sys_pubs y)[k := Delivering be out]\<rparr>)"
proof (rule hub_invI)
  let ?h = "sys_hub y" let ?h' = "deliver be j ?h" let ?s = "hub_objs ?h ! j"
  let ?y = "y\<lparr>sys_hub := ?h', sys_pubs := (sys_pubs y)[k := Delivering be out]\<rparr>"
  have "delivery_ok (length (hub_objs ?h)) (Delivering be (j # out))" using hub_invD(6)[OF i] k nth_mem by metis
  then have dist: "distinct (j # out)" "j < length (hub_objs ?h)" "\<forall>l\<in>set out. l < length (hub_objs ?h)" by (auto simp: delivery_ok_def)
  have len: "length (hub_objs ?h') = length (hub_objs ?h)" by (simp add: deliver_def evictSubscriber_def Let_def)
  have rg: "hub_ring ?h' = hub_ring ?h" "ring_window ?h' = ring_window ?h" "ring_ok ?h' = ring_ok ?h"
    by (simp_all add: deliver_def evictSubscriber_def ring_window_def ring_ok_def Let_def)
  have sb: "set (hub_subs ?h') \<subseteq> set (hub_subs ?h)" by (auto simp: deliver_def evictSubscriber_def Let_def)
  have objs: "l \<noteq> j \<Longrightarrow> hub_objs ?h' ! l = hub_objs ?h ! l" for l by (simp add: deliver_def evictSubscriber_def Let_def)
  have room: "hub_objs ?h' ! j = ?s\<lparr>sub_ch := sub_ch ?s @ [be]\<rparr> \<and> length (sub_ch ?s) < sub_cap ?s"
    if "j \<in> set (hub_subs ?h')" "\<not> sub_legacy (hub_objs ?h' ! j)"
    using that dist(2) by (auto simp: deliver_def evictSubscriber_def Let_def split: if_splits)
  show "hub_typed (sys_hub ?y)"
  proof -
    have t: "hub_typed ?h" using hub_invD(1)[OF i] .
    have "set (hub_objs ?h') \<subseteq> insert (hub_objs ?h' ! j) (set (hub_objs ?h))"
    proof
      fix s assume "s \<in> set (hub_objs ?h')"
      then obtain l where "l < length (hub_objs ?h)" "s = hub_objs ?h' ! l" using len by (metis in_set_conv_nth)
      then show "s \<in> insert (hub_objs ?h' ! j) (set (hub_objs ?h))" using objs[of l] by (cases "l = j") auto
    qed
    moreover have "length (sub_ch (hub_objs ?h' ! j)) \<le> sub_cap (hub_objs ?h' ! j)"
      using t dist(2) by (auto simp: hub_typed_def deliver_def evictSubscriber_def Let_def)
    ultimately have "\<forall>s\<in>set (hub_objs ?h'). length (sub_ch s) \<le> sub_cap s" using t by (auto simp: hub_typed_def)
    moreover have "distinct (hub_subs ?h')" using t by (simp add: hub_typed_def deliver_def evictSubscriber_def Let_def)
    moreover have "\<not> sub_cancelled (hub_objs ?h' ! l)" if "l \<in> set (hub_subs ?h')" for l
      using that t dist(2) by (cases "l = j") (auto simp: hub_typed_def deliver_def evictSubscriber_def Let_def split: if_splits)
    ultimately show ?thesis using t rg(3) sb len by (auto simp: hub_typed_def)
  qed
  show "ring_window (sys_hub ?y) = latest (length (hub_ring (sys_hub ?y))) (sys_log ?y)" using hub_invD(2)[OF i] rg by simp
  show "length (sys_from ?y) = length (hub_objs (sys_hub ?y))" "length (sys_got ?y) = length (hub_objs (sys_hub ?y))"
    using hub_invD(3,4)[OF i] len by simp_all
  show "sys_from ?y ! l \<le> length (sys_log ?y)" if "l < length (hub_objs (sys_hub ?y))" for l
    using hub_invD(5)[OF i] that len by simp
  show "delivery_ok (length (hub_objs (sys_hub ?y))) p" if "p \<in> set (sys_pubs ?y)" for p
    using that hub_invD(6)[OF i] dist len set_update_subset_insert[of "sys_pubs y" k "Delivering be out"]
    by (fastforce simp: delivery_ok_def)
  show "owed ?y l" if "l \<in> set (hub_subs (sys_hub ?y))" "\<not> sub_legacy (hub_objs (sys_hub ?y) ! l)" for l
  proof -
    have fl: "flying l ((sys_pubs y)[k := Delivering be out]) + (if l = j then {#be#} else {#}) = flying l (sys_pubs y)"
      using flying_update[OF k(1), of l "Delivering be out"] k(2) in_flight_hd[OF dist(1), of l be] by (simp add: add_ac split: if_splits)
    show ?thesis
    proof (cases "l = j")
      case True
      then have r: "hub_objs ?h' ! l = (hub_objs ?h ! l)\<lparr>sub_ch := sub_ch (hub_objs ?h ! l) @ [be]\<rparr>" using room that by simp
      then have "owed y l" using that sb True hub_invD(7)[OF i, of l] by auto
      moreover have "flying l (sys_pubs y) = flying l ((sys_pubs y)[k := Delivering be out]) + {#be#}" using fl True by simp
      ultimately show ?thesis using r by (simp add: owed_def add_ac)
    next
      case False
      then have "owed y l" using that sb hub_invD(7)[OF i, of l] objs by auto
      then show ?thesis using fl objs False by (simp add: owed_def)
    qed
  qed
qed

lemma step_new_subscriber:
  assumes i: "hub_inv y" and h: "h = (sys_hub y)\<lparr>hub_objs := hub_objs (sys_hub y) @ [new], hub_subs := hub_subs (sys_hub y) @ [length (hub_objs (sys_hub y))]\<rparr>"
    and new: "sub_ch new = []" "\<not> sub_cancelled new"
  shows "hub_inv (y\<lparr>sys_hub := h, sys_from := sys_from y @ [length (sys_log y)], sys_got := sys_got y @ [[]]\<rparr>)"
proof (rule hub_invI)
  let ?n = "length (hub_objs (sys_hub y))"
  let ?y = "y\<lparr>sys_hub := h, sys_from := sys_from y @ [length (sys_log y)], sys_got := sys_got y @ [[]]\<rparr>"
  note D = hub_invD[OF i]
  have lt: "j \<in> set (hub_subs (sys_hub y)) \<Longrightarrow> j < ?n" for j using D(8) .
  show "hub_typed (sys_hub ?y)" using D(1) lt new by (auto simp: hub_typed_def ring_ok_def h nth_append less_SucI)
  show "ring_window (sys_hub ?y) = latest (length (hub_ring (sys_hub ?y))) (sys_log ?y)"
    using D(2) ring_window_same[of h "sys_hub y"] by (simp add: h)
  show "length (sys_from ?y) = length (hub_objs (sys_hub ?y))" "length (sys_got ?y) = length (hub_objs (sys_hub ?y))"
    using D(3,4) by (simp_all add: h)
  show "sys_from ?y ! j \<le> length (sys_log ?y)" if "j < length (hub_objs (sys_hub ?y))" for j
    using D(3,5) that by (auto simp: h nth_append)
  show "delivery_ok (length (hub_objs (sys_hub ?y))) p" if "p \<in> set (sys_pubs ?y)" for p
    using D(6) that by (fastforce simp: h delivery_ok_def split: publisher.splits)
  have none: "flying ?n (sys_pubs y) = {#}"
  proof -
    have "in_flight ?n p = []" if "p \<in> set (sys_pubs y)" for p using D(6)[OF that] by (cases p) (auto simp: delivery_ok_def)
    then show ?thesis by (simp add: flying_def)
  qed
  show "owed ?y j" if "j \<in> set (hub_subs (sys_hub ?y))" "\<not> sub_legacy (hub_objs (sys_hub ?y) ! j)" for j
  proof (cases "j = ?n")
    case True
    then show ?thesis using D(3,4) none new by (simp add: owed_def h nth_append)
  next
    case False
    then have "j < ?n" "owed y j" using that lt D(7) by (auto simp: h nth_append)
    then show ?thesis using D(3,4) by (simp add: owed_def h nth_append)
  qed
qed

lemma step_cancel:
  assumes i: "hub_inv y" shows "hub_inv (y\<lparr>sys_hub := cancel_sub i (sys_hub y)\<rparr>)"
proof (rule hub_invI)
  note D = hub_invD[OF assms]
  let ?y = "y\<lparr>sys_hub := cancel_sub i (sys_hub y)\<rparr>"
  show "hub_typed (sys_hub ?y)" using D(1) by (auto simp: hub_typed_def cancel_sub_def ring_ok_def)
  show "ring_window (sys_hub ?y) = latest (length (hub_ring (sys_hub ?y))) (sys_log ?y)"
    using D(2) ring_window_same[of "cancel_sub i (sys_hub y)" "sys_hub y"] by (simp add: cancel_sub_def)
  show "owed ?y j" if "j \<in> set (hub_subs (sys_hub ?y))" "\<not> sub_legacy (hub_objs (sys_hub ?y) ! j)" for j
    using D(7)[of j] that by (simp add: cancel_sub_def owed_def)
qed (use hub_invD[OF assms] in \<open>auto simp: cancel_sub_def\<close>)

lemma step_take:
  assumes i: "hub_inv y" and l: "j < length (hub_objs (sys_hub y))" and t: "take_event j (sys_hub y) = Some (e, h)"
  shows "hub_inv (y\<lparr>sys_hub := h, sys_got := (sys_got y)[j := sys_got y ! j @ [e]]\<rparr>)"
proof (rule hub_invI)
  note D = hub_invD[OF i]
  let ?s = "hub_objs (sys_hub y) ! j" let ?y = "y\<lparr>sys_hub := h, sys_got := (sys_got y)[j := sys_got y ! j @ [e]]\<rparr>"
  obtain es where es: "sub_ch ?s = e # es" "h = (sys_hub y)\<lparr>hub_objs := (hub_objs (sys_hub y))[j := ?s\<lparr>sub_ch := es\<rparr>]\<rparr>"
    using t by (auto simp: take_event_def split: list.splits)
  have s: "?s \<in> set (hub_objs (sys_hub y))" using l by simp
  have "length es \<le> sub_cap ?s" using D(1) s es(1) by (fastforce simp: hub_typed_def)
  then show "hub_typed (sys_hub ?y)"
    using D(1) l set_update_subset_insert[of "hub_objs (sys_hub y)" j "?s\<lparr>sub_ch := es\<rparr>"]
    by (auto simp: hub_typed_def es(2) ring_ok_def nth_list_update)
  show "ring_window (sys_hub ?y) = latest (length (hub_ring (sys_hub ?y))) (sys_log ?y)"
    using D(2) ring_window_same[of h "sys_hub y"] by (simp add: es(2))
  show "owed ?y k" if "k \<in> set (hub_subs (sys_hub ?y))" "\<not> sub_legacy (hub_objs (sys_hub ?y) ! k)" for k
    using D(7)[of k] D(4) that l es by (cases "k = j") (auto simp: owed_def)
qed (use hub_invD[OF i] t in \<open>auto simp: take_event_def split: list.splits\<close>)

lemma hub_step_inv: "hub_step y y' \<Longrightarrow> hub_inv y \<Longrightarrow> hub_inv y'"
proof (induction rule: hub_step.induct)
  case (hub_pass now ev y h line)
  then show ?case using hub_invD(6)[OF hub_pass(3)]
    by (intro hub_inv_core) (auto simp: coalesce_core delivery_ok_def)
next
  case (hub_drop now ev y dup h)
  then show ?case using hub_inv_core[OF hub_drop(3) coalesce_core[OF hub_drop(1)], of "sys_pubs y"] hub_invD(6)[OF hub_drop(3)] by simp
next
  case (hub_alloc k y now line n h)
  let ?p = "Allocated \<lparr>be_id = n, be_line = line, be_at = now\<rparr>"
  show ?case
  proof (rule hub_inv_core[OF hub_alloc(4) alloc_core[OF hub_alloc(3)]])
    show "flying j ((sys_pubs y)[k := ?p]) = flying j (sys_pubs y)" for j
      using flying_update[OF hub_alloc(1), of j ?p] hub_alloc(2) by simp
    show "delivery_ok (length (hub_objs (sys_hub y))) p" if "p \<in> set ((sys_pubs y)[k := ?p])" for p
      using that hub_invD(6)[OF hub_alloc(4)] set_update_subset_insert[of "sys_pubs y" k ?p] by (auto simp: delivery_ok_def)
  qed
next
  case (hub_append k y be out h)
  then show ?case by (intro step_append)
next
  case (hub_deliver k y be i out)
  then show ?case by (intro step_deliver)
next
  case (hub_subscribe since y i replay gap h)
  then show ?case by (intro step_new_subscriber) (auto simp: subscribe_def Let_def split: prod.splits)
next
  case (hub_legacy y i h)
  then show ?case by (intro step_new_subscriber) (auto simp: Subscribe_def Let_def)
next
  case (hub_cancel y i)
  then show ?case by (rule step_cancel)
next
  case (hub_take i y e h)
  then show ?case by (intro step_take)
qed

lemma hub_reachable_inv: "hub_reachable opts y \<Longrightarrow> hub_inv y"
  by (induction rule: hub_reachable.induct) (auto intro: hub_start_inv hub_step_inv)

end
