(* ===== verification/SSE_Properties.thy ===== *)
theory SSE_Properties
  imports SSE_Hub
begin

text \<open>
  What clients of the hub can rely on, under every interleaving of publishers, streams and disconnects:
  the shape of the hub, that no frame is dropped silently, when a replay is complete, and a schedule of two
  publishers after which it is not.
\<close>

section \<open>Runs\<close>

lemma reachable_step: "hub_reachable opts y \<Longrightarrow> hub_step y y' \<Longrightarrow> hub_reachable opts y'"
  by (rule hub_next)

text \<open>A hint that is never coalesced.\<close>

definition hint :: "string \<Rightarrow> wire_event" where
  "hint i = \<lparr>we_Type = TaskCycleChanged, we_ID = i, we_CycleID = ''c'', we_PhaseSeq = 0, we_RunCorrelationID = [], we_Progress = None,
     we_Data = NoData\<rparr>"

definition hint_line :: "string \<Rightarrow> json" where
  "hint_line i = JObj [(''type'', JStr ''task_cycle_changed''), (''id'', JStr i), (''cycle_id'', JStr ''c'')]"

lemma hint_passes: "coalesce now (hint i) h = (False, h)" "marshal_event (hint i) = Some (hint_line i)"
  by (simp_all add: coalesce_def CoalesceKey_def marshal_event_def hint_def hint_line_def omit_empty_def)

lemma deliver_out: "hub_reachable opts y \<Longrightarrow> k < length (sys_pubs y) \<Longrightarrow> sys_pubs y ! k = Delivering be out \<Longrightarrow>
    hub_reachable opts (y\<lparr>sys_hub := foldl (\<lambda>h i. deliver be i h) (sys_hub y) out, sys_pubs := (sys_pubs y)[k := Delivering be []]\<rparr>)"
proof (induction out arbitrary: y)
  case Nil
  then have "(sys_pubs y)[k := Delivering be []] = sys_pubs y" by (metis list_update_id)
  then show ?case using Nil by simp
next
  case (Cons i out)
  have "hub_step y (y\<lparr>sys_hub := deliver be i (sys_hub y), sys_pubs := (sys_pubs y)[k := Delivering be out]\<rparr>)"
    by (rule hub_deliver[OF Cons.prems(2,3)])
  from Cons.IH[OF hub_next[OF Cons.prems(1) this]] show ?case using Cons.prems(2) by simp
qed

text \<open>A publisher that runs alone does what \<open>Publish\<close> says, and a published event is appended to the log.\<close>

lemma Publish_reachable:
  assumes "hub_reachable opts y" "coalesce now ev (sys_hub y) = (False, h1)" "marshal_event ev = Some line"
  shows "\<exists>y'. hub_reachable opts y' \<and> sys_hub y' = Publish now ev (sys_hub y) \<and>
    sys_log y' = sys_log y @ [\<lparr>be_id = (hub_nextID h1 + 1) mod 2 ^ 64, be_line = line, be_at = now\<rparr>]"
proof -
  let ?be = "\<lparr>be_id = (hub_nextID h1 + 1) mod 2 ^ 64, be_line = line, be_at = now\<rparr>" and ?k = "length (sys_pubs y)"
  let ?y1 = "y\<lparr>sys_hub := h1, sys_pubs := sys_pubs y @ [Passed now line]\<rparr>"
  have r1: "hub_reachable opts ?y1" using assms by (blast intro: hub_next hub_pass)
  obtain n h2 where a: "alloc_id h1 = (n, h2)" by (metis surj_pair)
  then have n: "n = be_id ?be" by (auto simp: alloc_id_def Let_def)
  let ?y2 = "?y1\<lparr>sys_hub := h2, sys_pubs := (sys_pubs ?y1)[?k := Allocated ?be]\<rparr>"
  have r2: "hub_reachable opts ?y2"
    using hub_next[OF r1 hub_alloc[of ?k ?y1 now line n h2]] a n by simp
  obtain out h3 where b: "append_event ?be h2 = (out, h3)" by (metis surj_pair)
  let ?y3 = "?y2\<lparr>sys_hub := h3, sys_pubs := (sys_pubs ?y2)[?k := Delivering ?be out], sys_log := sys_log ?y2 @ [?be]\<rparr>"
  have r3: "hub_reachable opts ?y3"
    using hub_next[OF r2 hub_append[of ?k ?y2 ?be out h3]] b by simp
  let ?y4 = "?y3\<lparr>sys_hub := foldl (\<lambda>h i. deliver ?be i h) (sys_hub ?y3) out, sys_pubs := (sys_pubs ?y3)[?k := Delivering ?be []]\<rparr>"
  have "hub_reachable opts ?y4" by (rule deliver_out[OF r3]) simp_all
  moreover have "sys_hub ?y4 = Publish now ev (sys_hub y)" using assms(2,3) a b n by (simp add: Publish_def Let_def)
  ultimately show ?thesis by (intro exI[of _ ?y4]) simp
qed

lemma deliver_keeps: "hub_nextID (deliver be i h) = hub_nextID h" "length (hub_ring (deliver be i h)) = length (hub_ring h)"
  by (simp_all add: deliver_def evictSubscriber_def Let_def)

lemma delivers_keep:
  "hub_nextID (foldl (\<lambda>h i. deliver be i h) h is) = hub_nextID h"
  "length (hub_ring (foldl (\<lambda>h i. deliver be i h) h is)) = length (hub_ring h)"
  by (induction "is" arbitrary: h) (simp_all add: deliver_keeps)

lemma Publish_hint:
  "hub_nextID (Publish now (hint i) h) = (hub_nextID h + 1) mod 2 ^ 64"
  "length (hub_ring (Publish now (hint i) h)) = length (hub_ring h)"
  by (simp_all add: Publish_def hint_passes alloc_id_def append_event_def appendRingLocked_def delivers_keep Let_def)

definition small_opts :: hub_options where
  "small_opts = \<lparr>ho_RingSize = 1, ho_SubscriberBuffer = 2, ho_CoalesceWindow = 0, ho_HeartbeatPeriod = 0\<rparr>"

text \<open>A hub with a ring of one entry after two events.\<close>

lemma two_events:
  obtains y where "hub_reachable small_opts y" "map be_id (sys_log y) = [1, 2]" "length (hub_ring (sys_hub y)) = 1"
proof -
  obtain y1 where y1: "hub_reachable small_opts y1" "sys_hub y1 = Publish 0 (hint ''a'') (NewSSEHubWith small_opts)"
      "sys_log y1 = [\<lparr>be_id = 1, be_line = hint_line ''a'', be_at = 0\<rparr>]"
    using Publish_reachable[OF hub_init[of small_opts] hint_passes, of 0 "''a''"]
    unfolding hub_start_def hub_sys.simps by (auto simp: NewSSEHubWith_def)
  have n: "hub_nextID (Publish 0 (hint ''a'') (NewSSEHubWith small_opts)) = 1" unfolding Publish_hint by (simp add: NewSSEHubWith_def)
  obtain y2 where y2: "hub_reachable small_opts y2" "sys_hub y2 = Publish 0 (hint ''b'') (Publish 0 (hint ''a'') (NewSSEHubWith small_opts))"
      "sys_log y2 = sys_log y1 @ [\<lparr>be_id = 2, be_line = hint_line ''b'', be_at = 0\<rparr>]"
    using Publish_reachable[OF y1(1) hint_passes, of 0 "''b''"] unfolding n y1(2) by auto
  have "length (hub_ring (sys_hub y2)) = 1" unfolding y2(2) Publish_hint by (simp add: NewSSEHubWith_def small_opts_def)
  then show thesis using that[OF y2(1)] y1(3) y2(3) by simp
qed

section \<open>Properties\<close>

text \<open>C22. Whatever the interleaving, the hub keeps its shape: the ring position is inside the ring, a
  subscriber is registered at most once and exists, a registered subscriber has not been evicted, and no
  channel holds more than its capacity.\<close>

theorem sse_hub_well_typed: "hub_reachable opts y \<Longrightarrow> hub_typed (sys_hub y)"
  by (rule hub_invD(1)[OF hub_reachable_inv])

theorem sse_hub_well_typed_witness: "\<exists>y. hub_reachable small_opts y \<and> hub_nextID (sys_hub y) = 1 \<and> hub_typed (sys_hub y)"
proof -
  obtain y1 where y1: "hub_reachable small_opts y1" "sys_hub y1 = Publish 0 (hint ''a'') (NewSSEHubWith small_opts)"
    using Publish_reachable[OF hub_init[of small_opts] hint_passes, of 0 "''a''"] by (auto simp: hub_start_def)
  have "hub_nextID (sys_hub y1) = 1" unfolding y1(2) Publish_hint by (simp add: NewSSEHubWith_def)
  then show ?thesis using y1(1) sse_hub_well_typed by blast
qed

text \<open>C21. No frame is dropped silently. Under every interleaving, the frames a registered stream has written,
  those in its channel and those a publisher is about to send it are exactly the events appended since it
  subscribed, each once. A step that takes a stream off the list either is its own disconnect or closes its
  cancel channel, on which the stream writes a resync directive and ends.\<close>

theorem sse_no_silent_drop:
  assumes "hub_reachable opts y" "i \<in> set (hub_subs (sys_hub y))" "\<not> sub_legacy (hub_objs (sys_hub y) ! i)"
  shows "mset (sys_got y ! i) + mset (sub_ch (hub_objs (sys_hub y) ! i)) + flying i (sys_pubs y) =
      mset (drop (sys_from y ! i) (sys_log y)) \<and>
    (\<forall>y'. hub_step y y' \<and> i \<notin> set (hub_subs (sys_hub y')) \<longrightarrow>
       sys_hub y' = cancel_sub i (sys_hub y) \<or>
       (\<exists>h. stream_select CaseCancel i (sys_hub y') = Some ([FResync], False, h)))"
proof
  show "mset (sys_got y ! i) + mset (sub_ch (hub_objs (sys_hub y) ! i)) + flying i (sys_pubs y) =
      mset (drop (sys_from y ! i) (sys_log y))"
    using hub_invD(7)[OF hub_reachable_inv[OF assms(1)] assms(2,3)] by (simp add: owed_def)
  have lt: "i < length (hub_objs (sys_hub y))" using hub_invD(8)[OF hub_reachable_inv[OF assms(1)] assms(2)] .
  have "sys_hub y' = cancel_sub i (sys_hub y) \<or> sub_cancelled (hub_objs (sys_hub y') ! i)"
    if "hub_step y y'" "i \<notin> set (hub_subs (sys_hub y'))" for y'
    using that assms(2) lt
    by (cases rule: hub_step.cases)
      (auto simp: core_eq[OF coalesce_core] core_eq[OF alloc_core] append_event_def appendRingLocked_def subscribe_def Subscribe_def
        cancel_sub_def take_event_def deliver_def evictSubscriber_def Let_def split: if_splits list.splits prod.splits)
  then show "\<forall>y'. hub_step y y' \<and> i \<notin> set (hub_subs (sys_hub y')) \<longrightarrow>
       sys_hub y' = cancel_sub i (sys_hub y) \<or>
       (\<exists>h. stream_select CaseCancel i (sys_hub y') = Some ([FResync], False, h))"
    by (auto simp: stream_select_def)
qed

theorem sse_no_silent_drop_witness:
  "\<exists>y. hub_reachable small_opts y \<and> hub_subs (sys_hub y) = [0] \<and> length (sys_log y) = 1 \<and>
    mset (sys_got y ! 0) + mset (sub_ch (hub_objs (sys_hub y) ! 0)) + flying 0 (sys_pubs y) = mset (drop (sys_from y ! 0) (sys_log y))"
proof -
  obtain h where s: "subscribe 0 (NewSSEHubWith small_opts) = ((0, [], False), h)" and h: "h = snd (subscribe 0 (NewSSEHubWith small_opts))"
    by (simp add: subscribe_def Let_def NewSSEHubWith_def)
  have "subscribe 0 (sys_hub (hub_start small_opts)) = ((0, [], False), h)" using s by (simp add: hub_start_def)
  note r = hub_next[OF hub_init hub_subscribe[OF this]]
  obtain y where y: "hub_reachable small_opts y" "sys_hub y = Publish 0 (hint ''a'') h" "length (sys_log y) = 1"
    using Publish_reachable[OF r hint_passes, of 0 "''a''"] unfolding hub_start_def hub_sys.simps by auto
  have "hub_subs (sys_hub y) = [0]" "\<not> sub_legacy (hub_objs (sys_hub y) ! 0)" unfolding y(2) h
    by (simp_all add: Publish_def hint_passes alloc_id_def append_event_def appendRingLocked_def deliver_def subscribe_def
        NewSSEHubWith_def small_opts_def Let_def)
  then show ?thesis using y(1,3) sse_no_silent_drop[OF y(1), of 0] by auto
qed

text \<open>What a reconnect is answered in terms of the log, whatever the order of the ids in it.\<close>

lemma replay_of_log:
  assumes "hub_reachable opts y" "0 < since"
  shows "let ((i, replay, gap), h) = subscribe since (sys_hub y); kept = latest (length (hub_ring (sys_hub y))) (sys_log y) in
    replay = filter (\<lambda>e. since < be_id e) kept \<and> (gap \<longleftrightarrow> kept \<noteq> [] \<and> since < sub64 (be_id (hd kept)) 1)"
proof -
  let ?h = "sys_hub y"
  note D = hub_invD[OF hub_reachable_inv[OF assms(1)]]
  have "0 < length (hub_ring ?h)" using D(1) by (auto simp: hub_typed_def ring_ok_def)
  then have e: "\<not> hub_ringFilled ?h \<and> hub_ringHead ?h = 0 \<longleftrightarrow> ring_window ?h = []" by (auto simp: ring_window_def Let_def)
  have w: "ring_window ?h = latest (length (hub_ring ?h)) (sys_log y)" using D(2) .
  show ?thesis using assms(2)
    by (cases "ring_window ?h") (auto simp: subscribe_def snapshotSinceLocked_def Let_def e w[symmetric])
qed

lemma replay_in_order:
  assumes "hub_reachable opts y" "map be_id (sys_log y) = [1..<Suc (length (sys_log y))]" "length (sys_log y) < 2 ^ 64" "0 < since"
  shows "let ((i, replay, gap), h) = subscribe since (sys_hub y) in
    (gap \<longleftrightarrow> since < length (sys_log y) - length (hub_ring (sys_hub y))) \<and>
    (\<not> gap \<longrightarrow> replay = drop since (sys_log y)) \<and>
    (length (sys_log y) \<le> since \<longrightarrow> replay = [] \<and> \<not> gap)"
proof -
  let ?h = "sys_hub y" and ?log = "sys_log y"
  let ?n = "length ?log" and ?size = "length (hub_ring (sys_hub y))"
  note D = hub_invD[OF hub_reachable_inv[OF assms(1)]]
  have size: "0 < ?size" using D(1) by (auto simp: hub_typed_def ring_ok_def)
  have w: "ring_window ?h = drop (?n - ?size) ?log" using D(2) by (simp add: latest_def)
  have id: "be_id (?log ! k) = Suc k" if "k < ?n" for k
  proof -
    have "map be_id ?log ! k = [1..<Suc ?n] ! k" using assms(2) by simp
    then show ?thesis using that by (simp del: upt_Suc)
  qed
  have filt: "filter (\<lambda>e. since < be_id e) (drop m ?log) = drop (max m since) ?log" for m
  proof -
    let ?k = "max m since"
    have split: "drop m ?log = take (?k - m) (drop m ?log) @ drop ?k ?log"
      using append_take_drop_id[of "?k - m" "drop m ?log"] by simp
    have "\<not> since < be_id e" if "e \<in> set (take (?k - m) (drop m ?log))" for e
      using that id by (auto simp: in_set_conv_nth max_def split: if_splits)
    moreover have "since < be_id e" if e: "e \<in> set (drop ?k ?log)" for e
    proof -
      from e obtain l where l: "l < ?n - ?k" "e = drop ?k ?log ! l" by (auto simp: in_set_conv_nth)
      then have "?k \<le> ?n" "?k + l < ?n" by auto
      then show ?thesis using id[of "?k + l"] l(2) by (simp del: max_less_iff_conj)
    qed
    moreover have "filter P (drop m ?log) = filter P (take (?k - m) (drop m ?log)) @ filter P (drop ?k ?log)" for P
      using split filter_append by metis
    ultimately show ?thesis by (simp add: filter_False filter_True)
  qed
  show ?thesis
  proof (cases "?log = []")
    case True
    then have "ring_window ?h = []" using w by simp
    then have "\<not> hub_ringFilled ?h \<and> hub_ringHead ?h = 0" using size by (auto simp: ring_window_def Let_def split: if_splits)
    then show ?thesis using True assms(4) by (simp add: subscribe_def snapshotSinceLocked_def Let_def)
  next
    case False
    then have lt: "?n - ?size < ?n" using size by simp
    then have hd: "ring_window ?h = ?log ! (?n - ?size) # drop (Suc (?n - ?size)) ?log" using w by (simp add: Cons_nth_drop_Suc)
    moreover have "ring_window ?h = []" if "\<not> hub_ringFilled ?h" "hub_ringHead ?h = 0" using that by (simp add: ring_window_def)
    ultimately have ne: "\<not> (\<not> hub_ringFilled ?h \<and> hub_ringHead ?h = 0)" by auto
    have old: "sub64 (Suc (?n - ?size)) 1 = ?n - ?size" using assms(3) lt by (simp add: sub64_def)
    have "snapshotSinceLocked since ?h = (drop (max (?n - ?size) since) ?log, since < ?n - ?size)"
      using ne hd id[OF lt] old assms(4) filt[of "?n - ?size"] w by (auto simp: snapshotSinceLocked_def Let_def)
    then show ?thesis using assms(4) by (auto simp: subscribe_def Let_def max_def)
  qed
qed

text \<open>C23. What a client that reconnects with its last id is answered, under every interleaving. It is sent, in
  the order of the ring, exactly the events with a larger id among the latest ones the ring holds, and it is told
  of a gap if and only if the id before that of the oldest of them is beyond its last id. As long as the ring has
  overwritten nothing, these are all the events with a larger id, whatever their order. And provided the events
  were appended in the order of their ids (which concurrent publishers can violate), the answer is exact: a gap
  if and only if an event after the last id has left the ring, otherwise the events after the last id, all and
  in order. An id the hub has not given out yet (from before a restart) is then answered by neither: nothing is
  replayed and no resync is sent.\<close>

theorem sse_replay_exact:
  assumes "hub_reachable opts y" "0 < since"
  shows "let ((i, replay, gap), h) = subscribe since (sys_hub y);
      log = sys_log y; size = length (hub_ring (sys_hub y)); kept = latest size log in
    replay = filter (\<lambda>e. since < be_id e) kept \<and>
    (gap \<longleftrightarrow> kept \<noteq> [] \<and> since < sub64 (be_id (hd kept)) 1) \<and>
    (length log \<le> size \<longrightarrow> replay = filter (\<lambda>e. since < be_id e) log) \<and>
    (map be_id log = [1..<Suc (length log)] \<and> length log < 2 ^ 64 \<longrightarrow>
       (gap \<longleftrightarrow> since < length log - size) \<and> (\<not> gap \<longrightarrow> replay = drop since log) \<and>
       (length log \<le> since \<longrightarrow> replay = [] \<and> \<not> gap))"
  using replay_of_log[OF assms] replay_in_order[OF assms(1) _ _ assms(2)] by (auto simp: Let_def latest_def split: prod.splits)

theorem sse_replay_exact_witness:
  "\<exists>y. hub_reachable small_opts y \<and> map be_id (sys_log y) = [1, 2] \<and>
    (let ((i, replay, gap), h) = subscribe 1 (sys_hub y) in \<not> gap \<and> replay = drop 1 (sys_log y) \<and> length replay = 1)"
proof -
  obtain y where y: "hub_reachable small_opts y" "map be_id (sys_log y) = [1, 2]" "length (hub_ring (sys_hub y)) = 1"
    by (rule two_events)
  have l: "length (sys_log y) = 2" using arg_cong[OF y(2), of length] by simp
  have ord: "map be_id (sys_log y) = [1..<Suc (length (sys_log y))]" unfolding l y(2) by (simp add: upt_rec)
  obtain i replay gap h where s: "subscribe 1 (sys_hub y) = ((i, replay, gap), h)" by (metis surj_pair)
  have "\<not> gap \<and> replay = drop 1 (sys_log y)"
  proof -
    note T = sse_replay_exact[OF y(1), of 1, unfolded s Let_def prod.case, OF zero_less_one]
    have "map be_id (sys_log y) = [1..<Suc (length (sys_log y))] \<and> length (sys_log y) < 2 ^ 64" using ord l by simp
    from mp[OF conjunct2[OF conjunct2[OF conjunct2[OF T]]] this] show ?thesis using l y(3) by simp
  qed
  then show ?thesis using y(1,2) s l by (intro exI[of _ y]) simp
qed

text \<open>Two publishers: the first is given id 1, the second id 2, and the second reaches the ring first. The
  stream of the only client writes the frame with id 2 and the client disconnects.\<close>

lemma reordered_run:
  assumes "2 \<le> ho_RingSize opts"
  obtains y where "hub_reachable opts y" "map be_id (sys_log y) = [2, 1]" "hub_subs (sys_hub y) = []"
    "sys_got y = [[sys_log y ! 0]]" "length (hub_objs (sys_hub y)) = 1" "2 \<le> length (hub_ring (sys_hub y))"
proof -
  define b1 where "b1 = \<lparr>be_id = 1, be_line = hint_line ''t1'', be_at = 0\<rparr>"
  define b2 where "b2 = \<lparr>be_id = 2, be_line = hint_line ''t2'', be_at = 0\<rparr>"
  define y0 where "y0 = snd (subscribe 0 (NewSSEHubWith opts))"
  define w where "w = \<lparr>sub_ch = [], sub_cap = hub_subBuf (NewSSEHubWith opts), sub_legacy = False, sub_cancelled = False\<rparr>"
  define y where "y h ps lg gt = \<lparr>sys_hub = h, sys_pubs = ps, sys_log = lg, sys_from = [0], sys_got = [gt]\<rparr>" for h ps lg gt
  define at where "at n = y0\<lparr>hub_nextID := n\<rparr>" for n
  have cap: "0 < sub_cap w" "hub_subBuf y0 = sub_cap w"
    by (simp_all add: w_def y0_def subscribe_def NewSSEHubWith_def DefaultSSEHubOptions_def Let_def)
  have y0: "hub_objs y0 = [w]" "hub_subs y0 = [0]" "hub_nextID y0 = 0"
    by (simp_all add: y0_def w_def subscribe_def NewSSEHubWith_def Let_def)
  have e: "subscribe 0 (sys_hub (hub_start opts)) = ((0, [], False), y0)"
    by (simp add: y0_def hub_start_def subscribe_def Let_def NewSSEHubWith_def)
  have "hub_step (hub_start opts) (y y0 [] [] [])"
    using hub_subscribe[OF e] by (simp add: y_def hub_start_def)
  note r = hub_next[OF hub_init this]
  have pass: "hub_step (y h ps lg gt) (y h (ps @ [Passed 0 (hint_line i)]) lg gt)" for h ps lg gt i
    using hub_pass[of 0 "hint i" "y h ps lg gt", OF _ hint_passes(2)] hint_passes(1) by (simp add: y_def)
  note r = hub_next[OF hub_next[OF r pass[of _ _ _ _ "''t1''"]] pass[of _ _ _ _ "''t2''"]]
  have "hub_step (y y0 [Passed 0 (hint_line ''t1''), Passed 0 (hint_line ''t2'')] [] []) (y (at 1) [Allocated b1, Passed 0 (hint_line ''t2'')] [] [])"
    using hub_alloc[of 0 "y y0 [Passed 0 (hint_line ''t1''), Passed 0 (hint_line ''t2'')] [] []" 0 "hint_line ''t1''" 1 "at 1"]
    by (simp add: y_def alloc_id_def at_def y0(3) b1_def Let_def)
  note r = hub_next[OF r[simplified append.simps] this]
  have "hub_step (y (at 1) [Allocated b1, Passed 0 (hint_line ''t2'')] [] []) (y (at 2) [Allocated b1, Allocated b2] [] [])"
    using hub_alloc[of 1 "y (at 1) [Allocated b1, Passed 0 (hint_line ''t2'')] [] []" 0 "hint_line ''t2''" 2 "at 2"]
    by (simp add: y_def alloc_id_def at_def b2_def Let_def)
  note r = hub_next[OF r this]
  let ?h2 = "appendRingLocked b2 (at 2)"
  have o2: "hub_objs ?h2 = [w]" "hub_subs ?h2 = [0]" by (simp_all add: appendRingLocked_def at_def y0 Let_def)
  have "hub_step (y (at 2) [Allocated b1, Allocated b2] [] []) (y ?h2 [Allocated b1, Delivering b2 [0]] [b2] [])"
    using hub_append[of 1 "y (at 2) [Allocated b1, Allocated b2] [] []" b2 "[0]" ?h2] o2(2)
    by (simp add: y_def append_event_def at_def y0)
  note r = hub_next[OF r this]
  let ?h3 = "?h2\<lparr>hub_objs := [w\<lparr>sub_ch := [b2]\<rparr>]\<rparr>"
  have d: "deliver b2 0 ?h2 = ?h3" using o2 cap(1) by (simp add: deliver_def w_def Let_def)
  have "hub_step (y ?h2 [Allocated b1, Delivering b2 [0]] [b2] []) (y ?h3 [Allocated b1, Delivering b2 []] [b2] [])"
    using hub_deliver[of 1 "y ?h2 [Allocated b1, Delivering b2 [0]] [b2] []" b2 0 "[]"] d by (simp add: y_def)
  note r = hub_next[OF r this]
  have "hub_step (y ?h3 [Allocated b1, Delivering b2 []] [b2] []) (y ?h2 [Allocated b1, Delivering b2 []] [b2] [b2])"
    using hub_take[of 0 "y ?h3 [Allocated b1, Delivering b2 []] [b2] []" b2 ?h2] o2
    by (simp add: y_def take_event_def w_def)
  note r = hub_next[OF r this]
  let ?h4 = "appendRingLocked b1 ?h2"
  have o4: "hub_objs ?h4 = [w]" "hub_subs ?h4 = [0]" "hub_subBuf ?h4 = sub_cap w"
    using o2 cap(2) by (simp_all add: appendRingLocked_def at_def Let_def)
  have "hub_step (y ?h2 [Allocated b1, Delivering b2 []] [b2] [b2]) (y ?h4 [Delivering b1 [0], Delivering b2 []] [b2, b1] [b2])"
    using hub_append[of 0 "y ?h2 [Allocated b1, Delivering b2 []] [b2] [b2]" b1 "[0]" ?h4] o2(2)
    by (simp add: y_def append_event_def)
  note r = hub_next[OF r this]
  have "hub_step (y ?h4 [Delivering b1 [0], Delivering b2 []] [b2, b1] [b2])
      (y (cancel_sub 0 ?h4) [Delivering b1 [0], Delivering b2 []] [b2, b1] [b2])"
    using hub_cancel[of "y ?h4 [Delivering b1 [0], Delivering b2 []] [b2, b1] [b2]" 0] by (simp add: y_def)
  note r = hub_next[OF r this]
  show thesis
  proof (rule that[OF r])
    have "length (hub_ring ?h4) = nat (ho_RingSize opts)"
      using assms by (simp add: appendRingLocked_def at_def y0_def subscribe_def NewSSEHubWith_def Let_def)
    then show "2 \<le> length (hub_ring (sys_hub (y (cancel_sub 0 ?h4) [Delivering b1 [0], Delivering b2 []] [b2, b1] [b2])))"
      using assms by (simp add: y_def cancel_sub_def)
  qed (use o4 in \<open>simp_all add: y_def cancel_sub_def b1_def b2_def\<close>)
qed

text \<open>C24. Publishers that interleave can defeat the replay: with any ring of at least two entries there is a run
  in which the only client is sent the event with id 2 before the one with id 1 is appended, disconnects, and
  reconnects with \<^verbatim>\<open>Last-Event-ID: 2\<close>. It is sent neither the event with id 1 nor a resync directive.\<close>

theorem sse_reordered_publish_is_lost:
  assumes "2 \<le> ho_RingSize opts"
  shows "\<exists>y e1 e2. hub_reachable opts y \<and> sys_log y = [e2, e1] \<and> be_id e1 = 1 \<and> be_id e2 = 2 \<and>
    sys_got y = [[e2]] \<and> hub_subs (sys_hub y) = [] \<and> fst (stream_open ''2'' (sys_hub y)) = (1, [FRetry])"
proof -
  obtain y where y: "hub_reachable opts y" "map be_id (sys_log y) = [2, 1]" "hub_subs (sys_hub y) = []"
    "sys_got y = [[sys_log y ! 0]]" "length (hub_objs (sys_hub y)) = 1" "2 \<le> length (hub_ring (sys_hub y))"
    using reordered_run[OF assms] by blast
  then obtain e1 e2 where log: "sys_log y = [e2, e1]" "be_id e1 = 1" "be_id e2 = 2" by (auto simp: map_eq_Cons_conv)
  have "ring_window (sys_hub y) = [e2, e1]"
    using hub_invD(2)[OF hub_reachable_inv[OF y(1)]] y(6) log(1) by (simp add: latest_def)
  then have "snapshotSinceLocked 2 (sys_hub y) = ([], False)"
    using log by (auto simp: snapshotSinceLocked_def sub64_def)
  moreover have "parseLastEventIDHeader ''2'' = 2"
    by (simp add: parseLastEventIDHeader_def ParseUint64_def digit_val_def less_eq_char_def)
  ultimately have "fst (stream_open ''2'' (sys_hub y)) = (1, [FRetry])" using y(5) by (simp add: stream_open_def subscribe_def Let_def)
  then show ?thesis using y log by auto
qed

theorem sse_reordered_publish_is_lost_witness:
  "\<exists>y e1 e2. hub_reachable DefaultSSEHubOptions y \<and> sys_log y = [e2, e1] \<and> be_id e1 = 1 \<and> be_id e2 = 2 \<and>
    sys_got y = [[e2]] \<and> hub_subs (sys_hub y) = [] \<and> fst (stream_open ''2'' (sys_hub y)) = (1, [FRetry])"
  by (rule sse_reordered_publish_is_lost) (simp add: DefaultSSEHubOptions_def)

end
