(* ===== verification/HTTP_Middleware.thy ===== *)
theory HTTP_Middleware
  imports Go_Strconv
begin

text \<open>
  \<^verbatim>\<open>pkgs/tasks/middleware\<close>: the limits read from the environment, bearer tokens, the per-client rate limit,
  the cache of idempotent responses and the order in which \<^verbatim>\<open>Stack\<close> applies them. Two libraries are arguments:
  the token bucket of \<^verbatim>\<open>golang.org/x/time/rate\<close> (\<open>new_lim\<close>, \<open>allow_lim\<close>) and the digest of a body (\<^verbatim>\<open>crypto/sha256\<close>,
  \<open>digest\<close>). The client a full table of visitors evicts is the first of a Go map, the argument \<open>victim\<close>. Recovery,
  metrics, access log and the request deadline pass a request through unchanged and are left out.
\<close>

section \<open>Requests and responses\<close>

text \<open>\<open>rq_Body\<close> is None when reading the body fails.\<close>

record http_request =
  rq_Method :: string
  rq_Path :: string
  rq_RemoteAddr :: string
  rq_Authorization :: string
  rq_IdempotencyKey :: string
  rq_ContentLength :: int
  rq_Body :: "string option"

text \<open>An error body is \<^verbatim>\<open>apijson.WriteJSONError\<close> with its message; the request id in it is left out.\<close>

datatype body = Bytes string | JSONError string

record http_response =
  rs_Status :: int
  rs_ContentType :: string
  rs_Body :: body

definition body_bytes :: "body \<Rightarrow> string" where
  "body_bytes b = (case b of Bytes s \<Rightarrow> s | JSONError msg \<Rightarrow> ''{\"error\":\"'' @ msg @ ''\"}'' @ [CHR 0x0A])"

definition WriteJSONError :: "int \<Rightarrow> string \<Rightarrow> http_response" where
  "WriteJSONError code msg = \<lparr>rs_Status = code, rs_ContentType = ''application/json; charset=utf-8'', rs_Body = JSONError msg\<rparr>"

type_synonym 'w handler = "http_request \<Rightarrow> 'w \<Rightarrow> http_response \<times> 'w"

section \<open>Limits from the environment\<close>

text \<open>The shape the limits share: unset, malformed and negative values give the default.\<close>

definition env_limit :: "int \<Rightarrow> string \<Rightarrow> int" where
  "env_limit dflt raw =
     (let s = trim_space raw in
      if s = [] then dflt else case Atoi s of None \<Rightarrow> dflt | Some n \<Rightarrow> if n < 0 then dflt else n)"

definition parseRateLimitPerMinFromEnv :: "string \<Rightarrow> int" where
  "parseRateLimitPerMinFromEnv raw = env_limit 120 raw"

definition MaxRequestBodyBytesConfigured :: "string \<Rightarrow> int" where
  "MaxRequestBodyBytesConfigured raw = env_limit (2 ^ 20) raw"

definition idempotencyMaxEntriesConfigured :: "string \<Rightarrow> int" where
  "idempotencyMaxEntriesConfigured raw = env_limit 2048 raw"

definition idempotencyMaxBytesConfigured :: "string \<Rightarrow> int" where
  "idempotencyMaxBytesConfigured raw = env_limit (8 * 2 ^ 20) raw"

section \<open>Bearer tokens (api_auth.go)\<close>

definition exempt_paths :: "string list" where
  "exempt_paths = [''/health'', ''/health/live'', ''/health/ready'', ''/metrics'']"

definition omitAPIAuth :: "http_request \<Rightarrow> bool" where
  "omitAPIAuth r \<longleftrightarrow> rq_Method r = ''GET'' \<and> rq_Path r \<in> set exempt_paths"

definition HasValidBearerToken :: "string \<Rightarrow> string \<Rightarrow> bool" where
  "HasValidBearerToken rawAuth0 configuredToken =
     (let rawAuth = trim_space rawAuth0; prefix = ''Bearer '' in
      if rawAuth = [] then False
      else if length rawAuth < length prefix \<or> \<not> fold_equal (take (length prefix) rawAuth) prefix then False
      else
      let presented = trim_space (drop (length prefix) rawAuth) in
      if presented = [] \<or> configuredToken = [] then False
      else if length presented \<noteq> length configuredToken then False
      else presented = configuredToken)"

text \<open>\<open>token\<close> is the trimmed \<^verbatim>\<open>HAMIX_API_TOKEN\<close>.\<close>

definition WithAPIAuth :: "string \<Rightarrow> 'w handler \<Rightarrow> 'w handler" where
  "WithAPIAuth token h r w =
     (if token = [] then h r w
      else if omitAPIAuth r then h r w
      else if \<not> HasValidBearerToken (rq_Authorization r) token then (WriteJSONError 401 ''unauthorized'', w)
      else h r w)"

section \<open>Body limit (max_body.go)\<close>

text \<open>A body longer than the limit is cut off by \<^verbatim>\<open>http.MaxBytesReader\<close>: reading it fails.\<close>

definition WithMaxRequestBody :: "int \<Rightarrow> 'w handler \<Rightarrow> 'w handler" where
  "WithMaxRequestBody mx h r w =
     (if mx \<le> 0 then h r w
      else if mx < rq_ContentLength r then (WriteJSONError 413 ''request body too large'', w)
      else h (r\<lparr>rq_Body := (case rq_Body r of None \<Rightarrow> None | Some b \<Rightarrow> if mx < int (length b) then None else Some b)\<rparr>) w)"

section \<open>Rate limit (rate_limit.go)\<close>

definition rateLimitMaxVisitors :: nat where "rateLimitMaxVisitors = 10000"
definition rateLimitVisitorTTL :: int where "rateLimitVisitorTTL = 15 * 60 * 1000000000"
definition rateLimitPruneLen :: nat where "rateLimitPruneLen = 8000"

record 'l visitor =
  vis_lim :: 'l
  vis_lastSeen :: gotime

type_synonym 'l visitors = "(string \<times> 'l visitor) list"

definition omitRateLimit :: "http_request \<Rightarrow> bool" where
  "omitRateLimit r \<longleftrightarrow> rq_Method r = ''GET'' \<and> rq_Path r \<in> set exempt_paths"

text \<open>The position of a byte, and of the last one.\<close>

fun index_byte :: "char \<Rightarrow> string \<Rightarrow> nat option" where
  "index_byte c [] = None"
| "index_byte c (d # ds) = (if d = c then Some 0 else map_option Suc (index_byte c ds))"

definition last_index :: "char \<Rightarrow> string \<Rightarrow> nat option" where
  "last_index c s = map_option (\<lambda>k. length s - 1 - k) (index_byte c (rev s))"

text \<open>The host of \<^verbatim>\<open>net.SplitHostPort\<close>; None is its error.\<close>

definition split_host :: "string \<Rightarrow> string option" where
  "split_host s =
     (case last_index CHR '':'' s of
        None \<Rightarrow> None
      | Some i \<Rightarrow>
          if s \<noteq> [] \<and> hd s = CHR ''['' then
            (case index_byte CHR '']'' s of
               None \<Rightarrow> None
             | Some e \<Rightarrow>
                 if e + 1 = i \<and> index_byte CHR ''['' (drop 1 s) = None \<and> index_byte CHR '']'' (drop (e + 1) s) = None
                 then Some (drop 1 (take e s)) else None)
          else if index_byte CHR '':'' (take i s) \<noteq> None then None
          else if index_byte CHR ''['' s \<noteq> None \<or> index_byte CHR '']'' s \<noteq> None then None
          else Some (take i s))"

definition clientIPForRateLimit :: "http_request \<Rightarrow> string" where
  "clientIPForRateLimit r =
     (let addr = trim_space (rq_RemoteAddr r) in case split_host addr of None \<Rightarrow> addr | Some host \<Rightarrow> host)"

definition prune_visitors :: "gotime \<Rightarrow> 'l visitors \<Rightarrow> 'l visitors" where
  "prune_visitors now vs = filter (\<lambda>(ip, v). \<not> rateLimitVisitorTTL < now - vis_lastSeen v) vs"

definition limiter_allow ::
  "(int \<Rightarrow> 'l) \<Rightarrow> (gotime \<Rightarrow> 'l \<Rightarrow> bool \<times> 'l) \<Rightarrow> (string list \<Rightarrow> string) \<Rightarrow> int \<Rightarrow> gotime \<Rightarrow> string \<Rightarrow> 'l visitors \<Rightarrow> bool \<times> 'l visitors"
  where
  "limiter_allow new_lim allow_lim victim perMin now ip vs0 =
     (let vs1 = (if rateLimitPruneLen < length vs0 then prune_visitors now vs0 else vs0);
          (lim, vs2) =
            (case map_of vs1 ip of
               Some v \<Rightarrow> (vis_lim v, vs1)
             | None \<Rightarrow>
                 let va = (if rateLimitMaxVisitors \<le> length vs1 then prune_visitors now vs1 else vs1);
                     vb = (if rateLimitMaxVisitors \<le> length va then AList.delete (victim (map fst va)) va else va) in
                 (new_lim perMin, vb));
          (ok, lim') = allow_lim now lim in
      (ok, AList.update ip \<lparr>vis_lim = lim', vis_lastSeen = now\<rparr> vs2))"

text \<open>\<open>ok\<close> is the outcome of \<open>limiter_allow\<close>; the table is threaded by the caller.\<close>

definition rate_limited :: http_response where
  "rate_limited = \<lparr>rs_Status = 429, rs_ContentType = ''text/plain; charset=utf-8'',
     rs_Body = Bytes (''rate limit exceeded'' @ [CHR 0x0A, CHR 0x0A])\<rparr>"

section \<open>Idempotent responses (idempotency.go, idempotency_cache.go)\<close>

definition maxIdempotencyKeyLen :: nat where "maxIdempotencyKeyLen = 128"
definition maxIdempotencyBodySize :: int where "maxIdempotencyBodySize = 2 ^ 20"
definition idempotencyPruneMod :: nat where "idempotencyPruneMod = 256"

text \<open>What of a response is kept: status, content type, body.\<close>

record idem_entry =
  ie_until :: gotime
  ie_cap :: http_response
  ie_size :: int
  ie_seq :: nat

record idem_cache =
  ic_items :: "(string \<times> idem_entry) list"
  ic_sets :: nat
  ic_nextSeq :: nat
  ic_totalBytes :: int

definition empty_cache :: idem_cache where
  "empty_cache = \<lparr>ic_items = [], ic_sets = 0, ic_nextSeq = 0, ic_totalBytes = 0\<rparr>"

definition drop_size :: "int \<Rightarrow> int \<Rightarrow> int" where
  "drop_size held n = (if held - n < 0 then 0 else held - n)"

definition cache_get :: "gotime \<Rightarrow> string \<Rightarrow> idem_cache \<Rightarrow> http_response option \<times> idem_cache" where
  "cache_get now key c =
     (case map_of (ic_items c) key of
        None \<Rightarrow> (None, c)
      | Some e \<Rightarrow>
          if ie_until e < now
          then (None, c\<lparr>ic_items := AList.delete key (ic_items c), ic_totalBytes := drop_size (ic_totalBytes c) (ie_size e)\<rparr>)
          else (Some (ie_cap e), c))"

definition cache_remove :: "string \<Rightarrow> idem_entry \<Rightarrow> idem_cache \<Rightarrow> idem_cache" where
  "cache_remove key e c = c\<lparr>ic_items := AList.delete key (ic_items c), ic_totalBytes := drop_size (ic_totalBytes c) (ie_size e)\<rparr>"

definition pruneLocked :: "gotime \<Rightarrow> idem_cache \<Rightarrow> idem_cache" where
  "pruneLocked now c = foldl (\<lambda>d (k, e). if ie_until e < now then cache_remove k e d else d) c (ic_items c)"

text \<open>The entry with the least sequence number, the first one found among equals.\<close>

fun oldest_entry :: "(string \<times> idem_entry) list \<Rightarrow> (string \<times> idem_entry) option" where
  "oldest_entry [] = None"
| "oldest_entry ((k, e) # es) =
     (case oldest_entry es of
        None \<Rightarrow> Some (k, e)
      | Some (k', e') \<Rightarrow> if ie_seq e' < ie_seq e then Some (k', e') else Some (k, e))"

lemma oldest_entry_mem: "oldest_entry es = Some ke \<Longrightarrow> ke \<in> set es"
  by (induction es arbitrary: ke) (auto split: option.splits if_splits)

lemma delete_shorter: "(k, e) \<in> set es \<Longrightarrow> length (AList.delete k es) < length es"
  unfolding AList.delete_eq by (rule length_filter_less[of "(k, e)"]) auto

function enforceLimitsLocked :: "int \<Rightarrow> int \<Rightarrow> idem_cache \<Rightarrow> idem_cache" where
  "enforceLimitsLocked maxEntries maxBytes c =
     (if 0 < maxEntries \<and> maxEntries < int (length (ic_items c)) \<or> 0 < maxBytes \<and> maxBytes < ic_totalBytes c
      then (case oldest_entry (ic_items c) of
              None \<Rightarrow> c
            | Some (k, e) \<Rightarrow> enforceLimitsLocked maxEntries maxBytes (cache_remove k e c))
      else c)"
  by pat_completeness auto
termination
  by (relation "measure (\<lambda>(m, b, c). length (ic_items c))") (auto simp: cache_remove_def dest!: oldest_entry_mem intro: delete_shorter)

declare enforceLimitsLocked.simps [simp del]

text \<open>\<open>now\<close> is the clock when the cache is pruned.\<close>

definition cache_set :: "int \<times> int \<Rightarrow> gotime \<Rightarrow> string \<Rightarrow> http_response \<Rightarrow> gotime \<Rightarrow> idem_cache \<Rightarrow> idem_cache" where
  "cache_set limits now key cap until_t c =
     (let held = (case map_of (ic_items c) key of None \<Rightarrow> ic_totalBytes c | Some old \<Rightarrow> drop_size (ic_totalBytes c) (ie_size old));
          sz = int (length (body_bytes (rs_Body cap)));
          e = \<lparr>ie_until = until_t, ie_cap = cap, ie_size = sz, ie_seq = ic_nextSeq c + 1\<rparr>;
          c1 = c\<lparr>ic_nextSeq := ic_nextSeq c + 1, ic_items := AList.update key e (ic_items c), ic_totalBytes := held + sz,
                 ic_sets := ic_sets c + 1\<rparr>;
          c2 = (if ic_sets c1 mod idempotencyPruneMod = 0 then pruneLocked now c1 else c1) in
      if fst limits = 0 \<and> snd limits = 0 then c2 else enforceLimitsLocked (fst limits) (snd limits) c2)"

definition idempotencyMutatingMethod :: "string \<Rightarrow> bool" where
  "idempotencyMutatingMethod m \<longleftrightarrow> m = ''POST'' \<or> m = ''PATCH'' \<or> m = ''DELETE''"

definition shouldCacheIdempotentStatus :: "int \<Rightarrow> bool" where
  "shouldCacheIdempotentStatus code \<longleftrightarrow> code = 200 \<or> code = 201 \<or> code = 204"

text \<open>A recorder that was never written to has status 200.\<close>

definition captureIdempotentResponse :: "http_response \<Rightarrow> http_response" where
  "captureIdempotentResponse rec = (if rs_Status rec = 0 then rec\<lparr>rs_Status := 200\<rparr> else rec)"

definition bodyFingerprintFromRequest :: "(string \<Rightarrow> string) \<Rightarrow> http_request \<Rightarrow> http_response + string" where
  "bodyFingerprintFromRequest digest r =
     (if rq_ContentLength r < 0 then Inl (WriteJSONError 400 ''idempotency requires known content length'')
      else if maxIdempotencyBodySize < rq_ContentLength r
      then Inl (WriteJSONError 413 ''request body too large for idempotency'')
      else case rq_Body r of
        None \<Rightarrow> Inl (WriteJSONError 400 ''could not read request body'')
      | Some b \<Rightarrow> Inr (digest b))"

text \<open>The outer sum is the answer of a refused request, the option its composite key if it has one.\<close>

definition prepareIdempotencyRequest :: "(string \<Rightarrow> string) \<Rightarrow> http_request \<Rightarrow> http_response + string option" where
  "prepareIdempotencyRequest digest r =
     (let rawKey = trim_space (rq_IdempotencyKey r) in
      if rawKey = [] then Inr None
      else if maxIdempotencyKeyLen < length rawKey then Inl (WriteJSONError 400 ''idempotency key too long'')
      else
      let composite = (\<lambda>fp. rq_Method r @ [CHR 0x00] @ rq_Path r @ [CHR 0x00] @ rawKey @ [CHR 0x00] @ fp) in
      if rq_Method r = ''POST'' \<or> rq_Method r = ''PATCH''
      then (case bodyFingerprintFromRequest digest r of Inl e \<Rightarrow> Inl e | Inr fp \<Rightarrow> Inr (Some (composite fp)))
      else Inr (Some (composite [])))"

text \<open>One request with no other of the same key in flight; \<open>now\<close> is the clock at the lookup, \<open>later\<close> when the
  handler has returned.\<close>

definition WithIdempotency ::
  "(string \<Rightarrow> string) \<Rightarrow> int \<times> int \<Rightarrow> int \<Rightarrow> gotime \<Rightarrow> gotime \<Rightarrow> 'w handler \<Rightarrow> (idem_cache \<times> 'w) handler" where
  "WithIdempotency digest limits ttl now later h r cw =
     (let (c, w) = cw in
      if ttl \<le> 0 \<or> \<not> idempotencyMutatingMethod (rq_Method r) then (let (rsp, w') = h r w in (rsp, (c, w')))
      else case prepareIdempotencyRequest digest r of
        Inl rsp \<Rightarrow> (rsp, cw)
      | Inr None \<Rightarrow> (let (rsp, w') = h r w in (rsp, (c, w')))
      | Inr (Some key) \<Rightarrow>
          (case cache_get now key c of
             (Some cap, c1) \<Rightarrow> (cap, (c1, w))
           | (None, c1) \<Rightarrow>
               let (rsp, w') = h r w; cap = captureIdempotentResponse rsp in
               (cap, (if shouldCacheIdempotentStatus (rs_Status cap) then cache_set limits later key cap (later + ttl) c1 else c1, w'))))"

section \<open>The chain (stack.go)\<close>

record ('l, 'w) http_state =
  hs_visitors :: "'l visitors"
  hs_cache :: idem_cache
  hs_app :: 'w

record 'l http_config =
  hc_new_lim :: "int \<Rightarrow> 'l"
  hc_allow_lim :: "gotime \<Rightarrow> 'l \<Rightarrow> bool \<times> 'l"
  hc_victim :: "string list \<Rightarrow> string"
  hc_digest :: "string \<Rightarrow> string"
  hc_perMin :: int
  hc_token :: string
  hc_maxBody :: int
  hc_limits :: "int \<times> int"
  hc_ttl :: int

definition Stack :: "'l http_config \<Rightarrow> gotime \<Rightarrow> gotime \<Rightarrow> 'w handler \<Rightarrow> http_request \<Rightarrow> ('l, 'w) http_state \<Rightarrow> http_response \<times> ('l, 'w) http_state" where
  "Stack C now later inner r st =
     (let rest = (\<lambda>st. let (rsp, (c, w)) = WithAPIAuth (hc_token C) (WithMaxRequestBody (hc_maxBody C)
                    (WithIdempotency (hc_digest C) (hc_limits C) (hc_ttl C) now later inner)) r (hs_cache st, hs_app st) in
                  (rsp, st\<lparr>hs_cache := c, hs_app := w\<rparr>)) in
      if hc_perMin C = 0 \<or> omitRateLimit r then rest st
      else
      let (ok, vs) = limiter_allow (hc_new_lim C) (hc_allow_lim C) (hc_victim C) (hc_perMin C) now (clientIPForRateLimit r) (hs_visitors st);
          st1 = st\<lparr>hs_visitors := vs\<rparr> in
      if ok then rest st1 else (rate_limited, st1))"

end
