(* ===== verification/HTTP_Properties.thy ===== *)
theory HTTP_Properties
  imports HTTP_Middleware
begin

text \<open>
  The cache of idempotent responses keeps its books and its limits, replays the response of a finished
  request, and can still let two concurrent requests through; the table of rate-limited clients is bounded;
  no request without the token reaches a handler.
\<close>

section \<open>The cache keeps its books\<close>

definition sizes :: "(string \<times> idem_entry) list \<Rightarrow> int" where
  "sizes es = sum_list (map (\<lambda>(k, e). ie_size e) es)"

definition cache_ok :: "idem_cache \<Rightarrow> bool" where
  "cache_ok c \<longleftrightarrow> distinct (map fst (ic_items c)) \<and> ic_totalBytes c = sizes (ic_items c) \<and>
     (\<forall>(k, e)\<in>set (ic_items c). ie_size e = int (length (body_bytes (rs_Body (ie_cap e)))) \<and> ie_seq e \<le> ic_nextSeq c)"

lemma sizes_Cons [simp]: "sizes ((k, e) # es) = ie_size e + sizes es" "sizes [] = 0"
  by (simp_all add: sizes_def)

lemma sizes_delete:
  "distinct (map fst es) \<Longrightarrow> map_of es k = Some e \<Longrightarrow> sizes (AList.delete k es) = sizes es - ie_size e"
proof (induction es)
  case (Cons x es)
  obtain k' e' where x: "x = (k', e')" by (cases x)
  then show ?case using Cons by (cases "k' = k") (auto simp: AList.delete_simps delete_id)
qed simp

lemma sizes_nonneg: "(\<forall>(k, e)\<in>set es. 0 \<le> ie_size e) \<Longrightarrow> 0 \<le> sizes es"
  by (induction es) auto

lemma cache_okD:
  assumes "cache_ok c"
  shows "distinct (map fst (ic_items c))" "ic_totalBytes c = sizes (ic_items c)"
    "(k, e) \<in> set (ic_items c) \<Longrightarrow> ie_size e = int (length (body_bytes (rs_Body (ie_cap e)))) \<and> ie_seq e \<le> ic_nextSeq c"
  using assms by (auto simp: cache_ok_def)

lemma drop_size_exact:
  assumes ok: "cache_ok c" and m: "map_of (ic_items c) k = Some e"
  shows "drop_size (ic_totalBytes c) (ie_size e) = sizes (AList.delete k (ic_items c))"
proof -
  have "0 \<le> ie_size e'" if "(k', e') \<in> set (AList.delete k (ic_items c))" for k' e'
    using that cache_okD(3)[OF ok, of k' e'] by (auto simp: AList.delete_eq)
  then have "0 \<le> sizes (AList.delete k (ic_items c))" by (intro sizes_nonneg) auto
  then show ?thesis using sizes_delete[OF cache_okD(1)[OF ok] m] cache_okD(2)[OF ok] by (simp add: drop_size_def)
qed

lemma cache_remove_ok:
  assumes "cache_ok c" "map_of (ic_items c) k = Some e"
  shows "cache_ok (cache_remove k e c)"
  using assms drop_size_exact[OF assms] distinct_delete[of "ic_items c" k]
  by (auto simp: cache_ok_def cache_remove_def AList.delete_eq)

lemma cache_remove_items:
  "set (ic_items (cache_remove k e c)) = {x \<in> set (ic_items c). fst x \<noteq> k}" "ic_nextSeq (cache_remove k e c) = ic_nextSeq c"
  by (auto simp: cache_remove_def AList.delete_eq)

lemma oldest_entry_None [simp]: "oldest_entry es = None \<longleftrightarrow> es = []"
  by (cases es) (auto split: option.splits)

lemma oldest_entry_least: "oldest_entry es = Some (k, e) \<Longrightarrow> (k', e') \<in> set es \<Longrightarrow> ie_seq e \<le> ie_seq e'"
proof (induction es arbitrary: k e)
  case (Cons x es)
  obtain kx ex where x: "x = (kx, ex)" by (cases x)
  show ?case
  proof (cases "oldest_entry es")
    case None
    then show ?thesis using Cons.prems x by auto
  next
    case (Some ke)
    then obtain k1 e1 where ke: "oldest_entry es = Some (k1, e1)" by (cases ke) auto
    have "(k', e') = (kx, ex) \<or> ie_seq e1 \<le> ie_seq e'" using Cons.IH[OF ke] Cons.prems(2) x by auto
    then show ?thesis using Cons.prems(1) ke x by (auto split: if_splits)
  qed
qed simp

lemma map_of_mem: "distinct (map fst es) \<Longrightarrow> (k, e) \<in> set es \<Longrightarrow> map_of es k = Some e"
  by simp

text \<open>After the limits are enforced they hold, and what was evicted is no younger than what is left.\<close>

lemma enforce_limits:
  "cache_ok c \<Longrightarrow> c' = enforceLimitsLocked m b c \<Longrightarrow>
     cache_ok c' \<and> (0 < m \<longrightarrow> int (length (ic_items c')) \<le> m) \<and> (0 < b \<longrightarrow> ic_totalBytes c' \<le> b) \<and>
     ic_nextSeq c' = ic_nextSeq c \<and> set (ic_items c') \<subseteq> set (ic_items c) \<and>
     (\<forall>x\<in>set (ic_items c) - set (ic_items c'). \<forall>y\<in>set (ic_items c'). ie_seq (snd x) \<le> ie_seq (snd y))"
proof (induction m b c arbitrary: c' rule: enforceLimitsLocked.induct)
  case (1 m b c)
  show ?case
  proof (cases "0 < m \<and> m < int (length (ic_items c)) \<or> 0 < b \<and> b < ic_totalBytes c")
    case False
    then show ?thesis using 1 by (auto simp: enforceLimitsLocked.simps[of m b c])
  next
    case over: True
    show ?thesis
    proof (cases "oldest_entry (ic_items c)")
      case None
      then have "ic_items c = []" by simp
      then show ?thesis using over cache_okD(2)[OF 1(2)] by auto
    next
      case (Some ke)
      then obtain k e where ke: "oldest_entry (ic_items c) = Some (k, e)" by (cases ke) auto
      have m: "map_of (ic_items c) k = Some e" using oldest_entry_mem[OF ke] cache_okD(1)[OF 1(2)] by simp
      let ?d = "cache_remove k e c"
      have c': "c' = enforceLimitsLocked m b ?d" using 1(3) over ke by (simp add: enforceLimitsLocked.simps[of m b c])
      note ih = 1(1)[OF over ke refl cache_remove_ok[OF 1(2) m] c']
      have old: "ie_seq (snd x) \<le> ie_seq (snd y)"
        if "x \<in> set (ic_items c) - set (ic_items c')" "y \<in> set (ic_items c')" for x y
      proof (cases "x \<in> set (ic_items ?d)")
        case True
        then show ?thesis using ih that by blast
      next
        case False
        then have "fst x = k" "x \<in> set (ic_items c)" using that by (auto simp: cache_remove_items)
        then have "x = (k, e)" using m map_of_mem[OF cache_okD(1)[OF 1(2)], of "fst x" "snd x"] by (cases x) auto
        moreover have "y \<in> set (ic_items c)" using that ih by (auto simp: cache_remove_items)
        ultimately show ?thesis using oldest_entry_least[OF ke] by (cases y) auto
      qed
      show ?thesis using ih old by (auto simp: cache_remove_items)
    qed
  qed
qed

lemma prune_ok:
  assumes ok: "cache_ok c"
  shows "cache_ok (pruneLocked now c) \<and> ic_nextSeq (pruneLocked now c) = ic_nextSeq c \<and>
    ic_items (pruneLocked now c) = filter (\<lambda>(k, e). \<not> ie_until e < now) (ic_items c)"
proof -
  let ?f = "\<lambda>d (k, e). if ie_until e < now then cache_remove k e d else d"
  have "cache_ok (foldl ?f d es) \<and> ic_nextSeq (foldl ?f d es) = ic_nextSeq d \<and>
      ic_items (foldl ?f d es) = ps @ filter (\<lambda>(k, e). \<not> ie_until e < now) es"
    if "cache_ok d" "ic_items d = ps @ es" for d ps es
    using that
  proof (induction es arbitrary: d ps)
    case (Cons x es)
    obtain k e where x: "x = (k, e)" by (cases x)
    show ?case
    proof (cases "ie_until e < now")
      case True
      have dist: "distinct (map fst (ps @ (k, e) # es))" using cache_okD(1)[OF Cons.prems(1)] Cons.prems(2) x by simp
      then have m: "map_of (ic_items d) k = Some e" unfolding Cons.prems(2) x by (rule map_of_mem) simp
      have "AList.delete k ps = ps" "AList.delete k es = es" using dist by (simp_all add: delete_id)
      then have "ic_items (cache_remove k e d) = ps @ es" using Cons.prems(2) x by (simp add: cache_remove_def AList.delete_eq)
      then show ?thesis using Cons.IH[OF cache_remove_ok[OF Cons.prems(1) m], of ps] True x by (simp add: cache_remove_items(2))
    next
      case False
      then show ?thesis using Cons.IH[OF Cons.prems(1), of "ps @ [x]"] Cons.prems(2) x by simp
    qed
  qed simp
  from this[OF ok, of "[]" "ic_items c"] show ?thesis by (simp add: pruneLocked_def)
qed

lemma cache_get_ok: "cache_ok c \<Longrightarrow> cache_ok (snd (cache_get now key c))"
  using cache_remove_ok[of c key] by (auto simp: cache_get_def cache_remove_def split: option.split)

lemma sizes_update:
  "distinct (map fst es) \<Longrightarrow> sizes (AList.update k e es) =
     sizes es - (case map_of es k of None \<Rightarrow> 0 | Some old \<Rightarrow> ie_size old) + ie_size e"
proof (induction es)
  case (Cons x es)
  obtain k' e' where "x = (k', e')" by (cases x)
  then show ?case using Cons by (auto split: option.splits)
qed simp

lemma set_AList_update: "distinct (map fst es) \<Longrightarrow> set (AList.update k e es) = insert (k, e) {x \<in> set es. fst x \<noteq> k}"
proof (induction es)
  case (Cons x es)
  obtain k' e' where "x = (k', e')" by (cases x)
  then show ?case using Cons by (auto simp: rev_image_eqI)
qed simp

text \<open>The cache after its new entry is put in, before pruning and limits.\<close>

definition put_entry :: "string \<Rightarrow> http_response \<Rightarrow> gotime \<Rightarrow> idem_cache \<Rightarrow> idem_cache" where
  "put_entry key cap until_t c =
     (let held = (case map_of (ic_items c) key of None \<Rightarrow> ic_totalBytes c | Some old \<Rightarrow> drop_size (ic_totalBytes c) (ie_size old));
          sz = int (length (body_bytes (rs_Body cap))) in
      c\<lparr>ic_nextSeq := ic_nextSeq c + 1,
        ic_items := AList.update key \<lparr>ie_until = until_t, ie_cap = cap, ie_size = sz, ie_seq = ic_nextSeq c + 1\<rparr> (ic_items c),
        ic_totalBytes := held + sz, ic_sets := ic_sets c + 1\<rparr>)"

lemma put_entry_ok: "cache_ok c \<Longrightarrow> cache_ok (put_entry key cap until_t c)"
proof -
  assume ok: "cache_ok c"
  let ?e = "\<lparr>ie_until = until_t, ie_cap = cap, ie_size = int (length (body_bytes (rs_Body cap))), ie_seq = ic_nextSeq c + 1\<rparr>"
  have "ic_totalBytes (put_entry key cap until_t c) = sizes (AList.update key ?e (ic_items c))"
    using cache_okD(2)[OF ok] sizes_update[OF cache_okD(1)[OF ok], of key ?e] sizes_delete[OF cache_okD(1)[OF ok], of key]
      drop_size_exact[OF ok, of key]
    by (auto simp: put_entry_def Let_def split: option.split)
  then show ?thesis
    using ok set_AList_update[OF cache_okD(1)[OF ok], of key ?e] distinct_update[OF cache_okD(1)[OF ok]]
    by (fastforce simp: cache_ok_def put_entry_def Let_def)
qed

lemma cache_set_eq:
  "cache_set limits now key cap until_t c =
     (let c1 = put_entry key cap until_t c;
          c2 = (if ic_sets c1 mod idempotencyPruneMod = 0 then pruneLocked now c1 else c1) in
      if fst limits = 0 \<and> snd limits = 0 then c2 else enforceLimitsLocked (fst limits) (snd limits) c2)"
  by (simp add: cache_set_def put_entry_def Let_def)

lemma cache_set_ok:
  assumes ok: "cache_ok c"
  shows "cache_ok (cache_set limits now key cap until_t c) \<and>
    (0 < fst limits \<longrightarrow> int (length (ic_items (cache_set limits now key cap until_t c))) \<le> fst limits) \<and>
    (0 < snd limits \<longrightarrow> ic_totalBytes (cache_set limits now key cap until_t c) \<le> snd limits)"
proof -
  let ?c1 = "put_entry key cap until_t c"
  let ?c2 = "if ic_sets ?c1 mod idempotencyPruneMod = 0 then pruneLocked now ?c1 else ?c1"
  have "cache_ok ?c2" using put_entry_ok[OF ok] prune_ok by simp
  then show ?thesis using enforce_limits[of ?c2 _ "fst limits" "snd limits"] by (auto simp: cache_set_eq Let_def)
qed

lemma enforce_keeps_youngest:
  "cache_ok c \<Longrightarrow> (k0, e0) \<in> set (ic_items c) \<Longrightarrow>
   (\<And>x. x \<in> set (ic_items c) \<Longrightarrow> x \<noteq> (k0, e0) \<Longrightarrow> ie_seq (snd x) < ie_seq e0) \<Longrightarrow> 0 \<le> m \<Longrightarrow> b \<le> 0 \<or> ie_size e0 \<le> b \<Longrightarrow>
   (k0, e0) \<in> set (ic_items (enforceLimitsLocked m b c))"
proof (induction m b c rule: enforceLimitsLocked.induct)
  case (1 m b c)
  show ?case
  proof (cases "0 < m \<and> m < int (length (ic_items c)) \<or> 0 < b \<and> b < ic_totalBytes c")
    case False
    then show ?thesis using 1 by (auto simp: enforceLimitsLocked.simps[of m b c])
  next
    case over: True
    have "ic_items c \<noteq> []" using 1(3) by auto
    then obtain k e where ke: "oldest_entry (ic_items c) = Some (k, e)"
      by (metis oldest_entry_None option.exhaust surj_pair)
    have m: "map_of (ic_items c) k = Some e" using oldest_entry_mem[OF ke] cache_okD(1)[OF 1(2)] by simp
    have ne: "k \<noteq> k0"
    proof
      assume "k = k0"
      then have e: "e = e0" using m map_of_mem[OF cache_okD(1)[OF 1(2)] 1(3)] by simp
      have "x = (k0, e0)" if "x \<in> set (ic_items c)" for x
      proof (rule ccontr)
        assume "x \<noteq> (k0, e0)"
        then have "ie_seq (snd x) < ie_seq e0" using 1(4) that by blast
        moreover have "ie_seq e \<le> ie_seq (snd x)" using oldest_entry_least[OF ke, of "fst x" "snd x"] that by simp
        ultimately show False using e by simp
      qed
      then have "set (ic_items c) = {(k0, e0)}" using 1(3) by blast
      moreover have "distinct (ic_items c)" using cache_okD(1)[OF 1(2)] by (simp add: distinct_map)
      ultimately have "length (ic_items c) = 1" using distinct_card[of "ic_items c"] by simp
      then have "ic_items c = [(k0, e0)]" using 1(3) by (cases "ic_items c") auto
      then show False using over cache_okD(2)[OF 1(2)] 1(5,6) by auto
    qed
    show ?thesis
      using 1(1)[OF over ke refl cache_remove_ok[OF 1(2) m]] 1(3,4,5,6) ne over ke
      by (simp add: enforceLimitsLocked.simps[of m b c] cache_remove_items)
  qed
qed

text \<open>The entry just written survives, unless it alone is over the byte limit.\<close>

lemma cache_set_keeps:
  assumes ok: "cache_ok c" and t: "now \<le> until_t" and l: "0 \<le> fst limits"
    "snd limits \<le> 0 \<or> int (length (body_bytes (rs_Body cap))) \<le> snd limits"
  shows "\<exists>e. map_of (ic_items (cache_set limits now key cap until_t c)) key = Some e \<and> ie_cap e = cap \<and> ie_until e = until_t"
proof -
  let ?e = "\<lparr>ie_until = until_t, ie_cap = cap, ie_size = int (length (body_bytes (rs_Body cap))), ie_seq = ic_nextSeq c + 1\<rparr>"
  let ?c1 = "put_entry key cap until_t c"
  let ?c2 = "if ic_sets ?c1 mod idempotencyPruneMod = 0 then pruneLocked now ?c1 else ?c1"
  have i1: "ic_items ?c1 = AList.update key ?e (ic_items c)" by (simp add: put_entry_def Let_def)
  have s1: "set (ic_items ?c1) = insert (key, ?e) {x \<in> set (ic_items c). fst x \<noteq> key}"
    unfolding i1 by (rule set_AList_update[OF cache_okD(1)[OF ok]])
  have c2: "cache_ok ?c2" "set (ic_items ?c2) \<subseteq> set (ic_items ?c1)" "(key, ?e) \<in> set (ic_items ?c2)"
    using put_entry_ok[OF ok] prune_ok[OF put_entry_ok[OF ok]] s1 t by auto
  have young: "ie_seq (snd x) < ie_seq ?e" if "x \<in> set (ic_items ?c2)" "x \<noteq> (key, ?e)" for x
    using that c2(2) s1 cache_okD(3)[OF ok, of "fst x" "snd x"] by fastforce
  have "(key, ?e) \<in> set (ic_items (cache_set limits now key cap until_t c))"
  proof (cases "fst limits = 0 \<and> snd limits = 0")
    case True
    then show ?thesis using c2(3) by (simp add: cache_set_eq Let_def)
  next
    case False
    then have "cache_set limits now key cap until_t c = enforceLimitsLocked (fst limits) (snd limits) ?c2"
      by (auto simp: cache_set_eq Let_def)
    then show ?thesis using enforce_keeps_youngest[OF c2(1,3) young l(1)] l(2) by simp
  qed
  then show ?thesis using cache_set_ok[OF ok, of limits now key cap until_t] by (auto simp: cache_ok_def)
qed

section \<open>Properties of the cache\<close>

inductive cache_reachable :: "int \<times> int \<Rightarrow> idem_cache \<Rightarrow> bool" for limits where
  cache_init: "cache_reachable limits empty_cache"
| cache_lookup: "cache_reachable limits c \<Longrightarrow> cache_reachable limits (snd (cache_get now key c))"
| cache_store: "cache_reachable limits c \<Longrightarrow> cache_reachable limits (cache_set limits now key cap until_t c)"

text \<open>C25. Whatever lookups and writes come in whatever order, the cache holds a key at most once, its byte count is
  the sum of the sizes of the bodies it holds (so the clamping at zero never acts), and it stays within the
  configured number of entries and bytes.\<close>

theorem idempotency_cache_bounded:
  assumes "cache_reachable limits c"
  shows "distinct (map fst (ic_items c)) \<and>
    ic_totalBytes c = sum_list (map (\<lambda>(k, e). int (length (body_bytes (rs_Body (ie_cap e))))) (ic_items c)) \<and>
    (0 < fst limits \<longrightarrow> int (length (ic_items c)) \<le> fst limits) \<and> (0 < snd limits \<longrightarrow> ic_totalBytes c \<le> snd limits)"
proof -
  have "cache_ok c \<and> (0 < fst limits \<longrightarrow> int (length (ic_items c)) \<le> fst limits) \<and> (0 < snd limits \<longrightarrow> ic_totalBytes c \<le> snd limits)"
    using assms
  proof induction
    case cache_init
    then show ?case by (simp add: empty_cache_def cache_ok_def)
  next
    case (cache_lookup c now key)
    have "length (AList.delete key (ic_items c)) \<le> length (ic_items c)" by (rule length_delete_le)
    moreover have "ic_totalBytes (snd (cache_get now key c)) \<le> ic_totalBytes c"
    proof (cases "map_of (ic_items c) key")
      case (Some e)
      have "0 \<le> ie_size e" using cache_lookup(2) map_of_SomeD[OF Some] by (auto simp: cache_ok_def)
      moreover have "0 \<le> ic_totalBytes c"
        using cache_lookup(2) cache_okD(2)[of c] sizes_nonneg[of "ic_items c"] by (force simp: cache_ok_def)
      ultimately show ?thesis using Some by (simp add: cache_get_def drop_size_def)
    qed (simp add: cache_get_def)
    ultimately show ?case using cache_lookup(2) cache_get_ok[of c now key]
      by (auto simp: cache_get_def split: option.splits if_splits)
  next
    case (cache_store c now key cap until_t)
    then show ?case using cache_set_ok by blast
  qed
  moreover have "sizes (ic_items c) = sum_list (map (\<lambda>(k, e). int (length (body_bytes (rs_Body (ie_cap e))))) (ic_items c))"
    if "cache_ok c"
    unfolding sizes_def by (rule arg_cong[where f = sum_list], rule map_cong) (use that in \<open>auto simp: cache_ok_def\<close>)
  ultimately show ?thesis by (auto simp: cache_ok_def)
qed

definition sample_response :: "string \<Rightarrow> http_response" where
  "sample_response s = \<lparr>rs_Status = 201, rs_ContentType = ''application/json'', rs_Body = Bytes s\<rparr>"

definition sample_cache :: idem_cache where
  "sample_cache = cache_set (2, 6) 3 ''c'' (sample_response ''ccc'') 9 (cache_set (2, 6) 2 ''b'' (sample_response ''bbb'') 9
     (cache_set (2, 6) 1 ''a'' (sample_response ''aaa'') 9 empty_cache))"

text \<open>The third write evicts the first.\<close>

theorem idempotency_cache_bounded_witness:
  "map fst (ic_items sample_cache) = [''b'', ''c''] \<and> ic_totalBytes sample_cache \<le> 6 \<and> int (length (ic_items sample_cache)) \<le> 2"
proof -
  have "cache_reachable (2, 6) sample_cache" unfolding sample_cache_def by (intro cache_init cache_store)
  then have "ic_totalBytes sample_cache \<le> 6 \<and> int (length (ic_items sample_cache)) \<le> 2"
    using idempotency_cache_bounded[of "(2, 6)" sample_cache] by simp
  moreover have "map fst (ic_items sample_cache) = [''b'', ''c'']"
    by (simp add: sample_cache_def cache_set_def sample_response_def empty_cache_def body_bytes_def idempotencyPruneMod_def Let_def
        enforceLimitsLocked.simps cache_remove_def drop_size_def)
  ultimately show ?thesis by simp
qed

text \<open>C26. A retried request is not executed again: when the first request with an idempotency key has finished with
  a cacheable status, a second one with the same key (same method, path, header and body) that arrives before
  the entry expires gets the same response, and the application state is left as it is. The cached body must
  fit the byte limit alone; everything else in the cache may have to give way to it.\<close>

theorem idempotent_replay:
  assumes "cache_ok c" "0 < ttl" "idempotencyMutatingMethod (rq_Method r)" "prepareIdempotencyRequest digest r = Inr (Some key)"
    "0 \<le> fst limits" "WithIdempotency digest limits ttl now later h r (c, w) = (rsp, (c', w'))"
    "shouldCacheIdempotentStatus (rs_Status rsp)" "fst (cache_get now key c) = None"
    "snd limits \<le> 0 \<or> int (length (body_bytes (rs_Body rsp))) \<le> snd limits" "again \<le> later + ttl"
  shows "WithIdempotency digest limits ttl again later2 h r (c', w') = (rsp, (c', w'))"
proof -
  obtain c1 where g: "cache_get now key c = (None, c1)" using assms(8) by (cases "cache_get now key c") auto
  have ok1: "cache_ok c1" using cache_get_ok[OF assms(1), of now key] g by simp
  obtain rsp0 where h: "h r w = (rsp0, w')" "rsp = captureIdempotentResponse rsp0"
    "c' = cache_set limits later key rsp (later + ttl) c1"
    using assms(2,3,4,6,7) g by (cases "h r w") (auto simp: WithIdempotency_def Let_def)
  obtain e where "map_of (ic_items c') key = Some e" "ie_cap e = rsp" "ie_until e = later + ttl"
    using cache_set_keeps[OF ok1, of later "later + ttl" limits rsp key] assms(2,5,9) h(3) by auto
  then have "cache_get again key c' = (Some rsp, c')" using assms(10) by (simp add: cache_get_def)
  then show ?thesis using assms(2,3,4) by (simp add: WithIdempotency_def)
qed

definition sample_request :: http_request where
  "sample_request = \<lparr>rq_Method = ''DELETE'', rq_Path = ''/tasks/t'', rq_RemoteAddr = ''10.0.0.1:4711'', rq_Authorization = ''bearer  tok'',
     rq_IdempotencyKey = ''k1'', rq_ContentLength = 0, rq_Body = Some []\<rparr>"

text \<open>A handler that counts its executions.\<close>

definition counting :: "nat handler" where
  "counting r w = (sample_response ''made'', Suc w)"

lemma sample_key: "prepareIdempotencyRequest digest sample_request = Inr (Some (''DELETE'' @ [CHR 0x00] @ ''/tasks/t'' @ [CHR 0x00] @ ''k1'' @ [CHR 0x00]))"
proof -
  have "trim_space ''k1'' = ''k1''" by code_simp
  then show ?thesis by (simp add: prepareIdempotencyRequest_def sample_request_def maxIdempotencyKeyLen_def)
qed

theorem idempotent_replay_witness:
  "\<exists>c. WithIdempotency (\<lambda>b. b) (10, 100) 50 7 8 counting sample_request (empty_cache, 0) = (sample_response ''made'', (c, 1)) \<and>
    WithIdempotency (\<lambda>b. b) (10, 100) 50 20 21 counting sample_request (c, 1) = (sample_response ''made'', (c, 1))"
proof -
  let ?key = "''DELETE'' @ [CHR 0x00] @ ''/tasks/t'' @ [CHR 0x00] @ ''k1'' @ [CHR 0x00]"
  let ?c = "cache_set (10, 100) 8 ?key (sample_response ''made'') 58 empty_cache"
  have m: "idempotencyMutatingMethod (rq_Method sample_request)" by (simp add: idempotencyMutatingMethod_def sample_request_def)
  have ok: "cache_ok empty_cache" "cache_get 7 ?key empty_cache = (None, empty_cache)"
    by (simp_all add: cache_ok_def empty_cache_def cache_get_def)
  have first: "WithIdempotency (\<lambda>b. b) (10, 100) 50 7 8 counting sample_request (empty_cache, 0) = (sample_response ''made'', (?c, 1))"
    using m sample_key ok(2)
    by (simp add: WithIdempotency_def counting_def captureIdempotentResponse_def shouldCacheIdempotentStatus_def sample_response_def Let_def)
  have "WithIdempotency (\<lambda>b. b) (10, 100) 50 20 21 counting sample_request (?c, 1) = (sample_response ''made'', (?c, 1))"
    by (rule idempotent_replay[OF ok(1) _ m sample_key _ first])
      (simp_all add: cache_get_def empty_cache_def shouldCacheIdempotentStatus_def sample_response_def body_bytes_def)
  then show ?thesis using first by blast
qed

section \<open>Concurrent requests with one key\<close>

text \<open>A flight group executes at most one function per key at a time and hands its result to all that asked for
  the key meanwhile. A request is between its lookup in the cache and its call of the group, leading a flight,
  done with its handler, waiting for a leader, or answered.\<close>

datatype idem_stage = Looked string http_request | Leading string http_request | Ran string http_response
  | Waiting string | Answered http_response

record 'w flights =
  fl_cache :: idem_cache
  fl_app :: 'w
  fl_leader :: "string \<rightharpoonup> nat"
  fl_reqs :: "idem_stage list"

inductive flight_step ::
  "(string \<Rightarrow> string) \<Rightarrow> int \<times> int \<Rightarrow> int \<Rightarrow> 'w handler \<Rightarrow> 'w flights \<Rightarrow> 'w flights \<Rightarrow> bool" for digest limits ttl h where
  flight_hit: "idempotencyMutatingMethod (rq_Method r) \<Longrightarrow> prepareIdempotencyRequest digest r = Inr (Some key) \<Longrightarrow>
     cache_get now key (fl_cache y) = (Some cap, c) \<Longrightarrow>
     flight_step digest limits ttl h y (y\<lparr>fl_cache := c, fl_reqs := fl_reqs y @ [Answered cap]\<rparr>)"
| flight_miss: "idempotencyMutatingMethod (rq_Method r) \<Longrightarrow> prepareIdempotencyRequest digest r = Inr (Some key) \<Longrightarrow>
     cache_get now key (fl_cache y) = (None, c) \<Longrightarrow>
     flight_step digest limits ttl h y (y\<lparr>fl_cache := c, fl_reqs := fl_reqs y @ [Looked key r]\<rparr>)"
| flight_lead: "k < length (fl_reqs y) \<Longrightarrow> fl_reqs y ! k = Looked key r \<Longrightarrow> fl_leader y key = None \<Longrightarrow>
     flight_step digest limits ttl h y (y\<lparr>fl_leader := (fl_leader y)(key \<mapsto> k), fl_reqs := (fl_reqs y)[k := Leading key r]\<rparr>)"
| flight_join: "k < length (fl_reqs y) \<Longrightarrow> fl_reqs y ! k = Looked key r \<Longrightarrow> fl_leader y key = Some j \<Longrightarrow>
     flight_step digest limits ttl h y (y\<lparr>fl_reqs := (fl_reqs y)[k := Waiting key]\<rparr>)"
| flight_run: "k < length (fl_reqs y) \<Longrightarrow> fl_reqs y ! k = Leading key r \<Longrightarrow> h r (fl_app y) = (rsp, w) \<Longrightarrow>
     cap = captureIdempotentResponse rsp \<Longrightarrow>
     flight_step digest limits ttl h y (y\<lparr>fl_app := w, fl_reqs := (fl_reqs y)[k := Ran key cap],
       fl_cache := (if shouldCacheIdempotentStatus (rs_Status cap) then cache_set limits now key cap (now + ttl) (fl_cache y) else fl_cache y)\<rparr>)"
| flight_land: "k < length (fl_reqs y) \<Longrightarrow> fl_reqs y ! k = Ran key cap \<Longrightarrow>
     flight_step digest limits ttl h y (y\<lparr>fl_leader := (fl_leader y)(key := None),
       fl_reqs := map (\<lambda>s. if s = Waiting key then Answered cap else s) ((fl_reqs y)[k := Answered cap])\<rparr>)"

inductive flight_reachable ::
  "(string \<Rightarrow> string) \<Rightarrow> int \<times> int \<Rightarrow> int \<Rightarrow> 'w handler \<Rightarrow> 'w \<Rightarrow> 'w flights \<Rightarrow> bool" for digest limits ttl h w0 where
  flight_init: "flight_reachable digest limits ttl h w0 \<lparr>fl_cache = empty_cache, fl_app = w0, fl_leader = Map.empty, fl_reqs = []\<rparr>"
| flight_next: "flight_reachable digest limits ttl h w0 y \<Longrightarrow> flight_step digest limits ttl h y y' \<Longrightarrow>
     flight_reachable digest limits ttl h w0 y'"

text \<open>At any time at most one request per key has its handler running: the leaders of the group are exactly the
  requests that lead or have just run.\<close>

definition leads :: "string \<Rightarrow> idem_stage \<Rightarrow> bool" where
  "leads key s = (case s of Leading k r \<Rightarrow> k = key | Ran k c \<Rightarrow> k = key | _ \<Rightarrow> False)"

lemma leads_simps [simp]:
  "leads key (Looked k r) = False" "leads key (Leading k r) = (k = key)" "leads key (Ran k c) = (k = key)"
  "leads key (Waiting k) = False" "leads key (Answered c) = False"
  by (simp_all add: leads_def)

lemma flight_leaders:
  "flight_reachable digest limits ttl h w0 y \<Longrightarrow>
   fl_leader y key = Some k \<longleftrightarrow> k < length (fl_reqs y) \<and> leads key (fl_reqs y ! k)"
proof (induction arbitrary: key k rule: flight_reachable.induct)
  case (flight_next y y')
  note ih = flight_next.IH
  show ?case
    using flight_next.hyps(2)
  proof cases
    case (flight_hit r i now cap c)
    then show ?thesis using ih[of key k] by (auto simp: nth_append less_Suc_eq)
  next
    case (flight_miss r i now c)
    then show ?thesis using ih[of key k] by (auto simp: nth_append less_Suc_eq)
  next
    case (flight_lead j i r)
    then show ?thesis using ih[of key k] ih[of i k] by (auto simp: nth_list_update)
  next
    case (flight_join j i r l)
    then show ?thesis using ih[of key k] by (auto simp: nth_list_update)
  next
    case (flight_run j i r rsp w cap now)
    then show ?thesis using ih[of key k] by (auto simp: nth_list_update)
  next
    case (flight_land j i cap)
    have "fl_leader y i = Some j" using ih[of i j] flight_land by simp
    then show ?thesis using flight_land ih[of key k] ih[of i k] by (auto simp: nth_list_update leads_def split: idem_stage.splits)
  qed
qed simp

text \<open>C27. (safety) A group shares one execution among the requests that are in flight together, and no more: a request
  that missed the cache before the leader stored its response can become the leader of a second flight after the
  first one has landed. Then the handler runs a second time although the response of the first run is in the
  cache and unexpired, because nothing looks into the cache again.\<close>

theorem idempotency_double_execution:
  assumes r: "idempotencyMutatingMethod (rq_Method r)" "prepareIdempotencyRequest digest r = Inr (Some key)"
    and h: "h r w0 = (a, w1)" "h r w1 = (b, w2)"
    and cap: "shouldCacheIdempotentStatus (rs_Status (captureIdempotentResponse a))"
    and lim: "0 \<le> ttl" "0 \<le> fst limits" "snd limits \<le> 0 \<or> int (length (body_bytes (rs_Body (captureIdempotentResponse a)))) \<le> snd limits"
  shows "\<exists>y y'. flight_reachable digest limits ttl h w0 y \<and> fl_app y = w1 \<and>
    fl_reqs y = [Answered (captureIdempotentResponse a), Leading key r] \<and>
    fst (cache_get now key (fl_cache y)) = Some (captureIdempotentResponse a) \<and>
    flight_step digest limits ttl h y y' \<and> fl_app y' = w2"
proof -
  let ?cap = "captureIdempotentResponse a" and ?R = "flight_reachable digest limits ttl h w0"
  let ?c = "cache_set limits now key ?cap (now + ttl) empty_cache"
  define st where "st c w l q = \<lparr>fl_cache = c, fl_app = w, fl_leader = l, fl_reqs = q\<rparr>" for c and w :: 'a and l q
  note sel = flights.select_convs flights.update_convs
  have "cache_get now key empty_cache = (None, empty_cache)" by (simp add: cache_get_def empty_cache_def)
  then have miss: "fl_cache y = empty_cache \<Longrightarrow> flight_step digest limits ttl h y (y\<lparr>fl_cache := empty_cache, fl_reqs := fl_reqs y @ [Looked key r]\<rparr>)" for y
    using flight_miss[OF r, of now y empty_cache] by simp
  have 0: "?R (st empty_cache w0 Map.empty [])" unfolding st_def by (rule flight_init)
  have 1: "?R (st empty_cache w0 Map.empty [Looked key r])"
    using flight_next[OF 0] miss[of "st empty_cache w0 Map.empty []"] by (simp add: st_def)
  have 2: "?R (st empty_cache w0 Map.empty [Looked key r, Looked key r])"
    using flight_next[OF 1] miss[of "st empty_cache w0 Map.empty [Looked key r]"] by (simp add: st_def)
  have 3: "?R (st empty_cache w0 [key \<mapsto> 0] [Leading key r, Looked key r])"
    using flight_next[OF 2] flight_lead[of 0 "st empty_cache w0 Map.empty [Looked key r, Looked key r]"] by (simp add: st_def)
  have 4: "?R (st ?c w1 [key \<mapsto> 0] [Ran key ?cap, Looked key r])"
  proof (rule flight_next[OF 3])
    let ?y = "st empty_cache w0 [key \<mapsto> 0] [Leading key r, Looked key r]"
    have "flight_step digest limits ttl h ?y (?y\<lparr>fl_app := w1, fl_reqs := (fl_reqs ?y)[0 := Ran key ?cap], fl_cache := ?c\<rparr>)"
      using flight_run[of 0 ?y key r h a w1 ?cap digest limits ttl now] cap h(1) by (simp add: st_def)
    then show "flight_step digest limits ttl h ?y (st ?c w1 [key \<mapsto> 0] [Ran key ?cap, Looked key r])" by (simp add: st_def)
  qed
  have 5: "?R (st ?c w1 Map.empty [Answered ?cap, Looked key r])"
    using flight_next[OF 4] flight_land[of 0 "st ?c w1 [key \<mapsto> 0] [Ran key ?cap, Looked key r]"] by (simp add: st_def)
  have 6: "?R (st ?c w1 [key \<mapsto> 1] [Answered ?cap, Leading key r])"
    using flight_next[OF 5] flight_lead[of 1 "st ?c w1 Map.empty [Answered ?cap, Looked key r]"] by (simp add: st_def)
  have "cache_ok empty_cache" by (simp add: cache_ok_def empty_cache_def)
  then obtain e where "map_of (ic_items ?c) key = Some e" "ie_cap e = ?cap" "ie_until e = now + ttl"
    using cache_set_keeps[of empty_cache now "now + ttl" limits ?cap key] lim by auto
  then have hit: "fst (cache_get now key ?c) = Some ?cap" using lim(1) by (simp add: cache_get_def)
  let ?y = "st ?c w1 [key \<mapsto> 1] [Answered ?cap, Leading key r]"
  have "\<exists>y'. flight_step digest limits ttl h ?y y' \<and> fl_app y' = w2"
    using flight_run[of 1 ?y key r h b w2, OF _ _ _ refl] h(2) by (fastforce simp: st_def)
  then obtain y' where y': "flight_step digest limits ttl h ?y y'" "fl_app y' = w2" by blast
  show ?thesis using 6 hit y' by (intro exI[of _ ?y] exI[of _ y']) (simp add: st_def)
qed

theorem idempotency_double_execution_witness:
  "\<exists>y y' key. flight_reachable (\<lambda>b. b) (10, 100) 50 counting 0 y \<and> fl_app y = 1 \<and>
    fst (cache_get 7 key (fl_cache y)) = Some (sample_response ''made'') \<and>
    flight_step (\<lambda>b. b) (10, 100) 50 counting y y' \<and> fl_app y' = 2"
proof -
  have m: "idempotencyMutatingMethod (rq_Method sample_request)" by (simp add: idempotencyMutatingMethod_def sample_request_def)
  have c: "counting sample_request 0 = (sample_response ''made'', 1)" "counting sample_request 1 = (sample_response ''made'', 2)"
    by (simp_all add: counting_def)
  have r: "captureIdempotentResponse (sample_response ''made'') = sample_response ''made''"
    by (simp add: captureIdempotentResponse_def sample_response_def)
  have l: "shouldCacheIdempotentStatus (rs_Status (sample_response ''made''))"
    "int (length (body_bytes (rs_Body (sample_response ''made'')))) \<le> snd (10::int, 100::int)"
    by (simp_all add: shouldCacheIdempotentStatus_def sample_response_def body_bytes_def)
  have "\<exists>key. prepareIdempotencyRequest (\<lambda>b. b) sample_request = Inr (Some key)" using sample_key by blast
  then obtain key where key: "prepareIdempotencyRequest (\<lambda>b. b) sample_request = Inr (Some key)" by blast
  show ?thesis
    using idempotency_double_execution[where digest = "\<lambda>b. b" and limits = "(10, 100)" and ttl = 50 and now = 7 and h = counting
        and r = sample_request and a = "sample_response ''made''" and ?w0.0 = 0 and ?w1.0 = 1 and ?w2.0 = 2, OF m key c] l
    unfolding r by auto
qed

section \<open>Without the token\<close>

text \<open>What a valid header is: the scheme in any case, then the token with blanks around it.\<close>

lemma bearer_iff:
  "HasValidBearerToken raw token \<longleftrightarrow>
     token \<noteq> [] \<and> (\<exists>scheme rest. trim_space raw = scheme @ rest \<and> length scheme = 7 \<and> fold_equal scheme ''Bearer '' \<and> trim_space rest = token)"
  (is "?l \<longleftrightarrow> token \<noteq> [] \<and> ?r")
proof -
  let ?s = "trim_space raw"
  have l: "?l \<longleftrightarrow> token \<noteq> [] \<and> 7 \<le> length ?s \<and> fold_equal (take 7 ?s) ''Bearer '' \<and> trim_space (drop 7 ?s) = token"
    by (auto simp: HasValidBearerToken_def Let_def eval_nat_numeral)
  have "?r \<longleftrightarrow> 7 \<le> length ?s \<and> fold_equal (take 7 ?s) ''Bearer '' \<and> trim_space (drop 7 ?s) = token"
  proof
    assume ?r
    then obtain p q where "?s = p @ q" "length p = 7" "fold_equal p ''Bearer ''" "trim_space q = token" by blast
    then show "7 \<le> length ?s \<and> fold_equal (take 7 ?s) ''Bearer '' \<and> trim_space (drop 7 ?s) = token" by simp
  next
    assume a: "7 \<le> length ?s \<and> fold_equal (take 7 ?s) ''Bearer '' \<and> trim_space (drop 7 ?s) = token"
    have "?s = take 7 ?s @ drop 7 ?s" by simp
    then show ?r using a by (metis length_take min.absorb2)
  qed
  then show ?thesis using l by blast
qed

text \<open>The same said without the code's functions: a header presents the token when it is the scheme, in any case,
  and the token; and the four probe paths are open to everybody.\<close>

definition presents_token :: "string \<Rightarrow> string \<Rightarrow> bool" where
  "presents_token raw token \<longleftrightarrow>
     (\<exists>scheme rest. trim_space raw = scheme @ rest \<and> map lower_letter scheme = ''bearer '' \<and> trim_space rest = token)"

definition probe_request :: "http_request \<Rightarrow> bool" where
  "probe_request r \<longleftrightarrow> rq_Method r = ''GET'' \<and> rq_Path r \<in> {''/health'', ''/health/live'', ''/health/ready'', ''/metrics''}"

lemma presents_token_iff: "token \<noteq> [] \<Longrightarrow> HasValidBearerToken raw token \<longleftrightarrow> presents_token raw token"
proof -
  assume t: "token \<noteq> []"
  have bearer: "map lower_letter ''Bearer '' = ''bearer ''" by code_simp
  have l: "length scheme = 7" if "map lower_letter scheme = ''bearer ''" for scheme
    using arg_cong[OF that, of length] by simp
  have len: "length scheme = 7 \<and> map lower_letter scheme = ''bearer '' \<longleftrightarrow> map lower_letter scheme = ''bearer ''" for scheme
    by (rule iffI, erule conjunct2, rule conjI[OF l])
  have "HasValidBearerToken raw token \<longleftrightarrow>
      (\<exists>scheme rest. trim_space raw = scheme @ rest \<and> (length scheme = 7 \<and> map lower_letter scheme = ''bearer '') \<and> trim_space rest = token)"
    unfolding bearer_iff fold_equal_def bearer using t by (simp only: conj_assoc simp_thms not_False_eq_True)
  then show ?thesis unfolding len presents_token_def .
qed

lemma probe_request_iff: "omitAPIAuth r \<longleftrightarrow> probe_request r"
  by (auto simp: omitAPIAuth_def exempt_paths_def probe_request_def)

text \<open>C28. With a token configured, a request that is not a GET of one of the four probe paths and whose header does
  not present exactly that token is answered 401 or 429 and reaches neither the cache of responses nor the
  application. Every other request is treated as if no token were configured.\<close>

theorem no_token_no_effect:
  assumes "hc_token C \<noteq> []" "Stack C now later inner r st = (rsp, st')"
  shows "if probe_request r \<or> presents_token (rq_Authorization r) (hc_token C)
    then Stack (C\<lparr>hc_token := []\<rparr>) now later inner r st = (rsp, st')
    else rs_Status rsp \<in> {401, 429} \<and> hs_cache st' = hs_cache st \<and> hs_app st' = hs_app st"
  using assms(2) unfolding presents_token_iff[OF assms(1), symmetric] probe_request_iff[symmetric]
  by (auto simp: Stack_def WithAPIAuth_def WriteJSONError_def rate_limited_def Let_def assms(1) split: prod.splits if_splits)

definition sample_config :: "unit http_config" where
  "sample_config = \<lparr>hc_new_lim = \<lambda>_. (), hc_allow_lim = \<lambda>_ l. (True, l), hc_victim = hd, hc_digest = \<lambda>b. b, hc_perMin = 120,
     hc_token = ''secret'', hc_maxBody = 100, hc_limits = (10, 100), hc_ttl = 50\<rparr>"

definition sample_http_state :: "(unit, nat) http_state" where
  "sample_http_state = \<lparr>hs_visitors = [], hs_cache = empty_cache, hs_app = 0\<rparr>"

text \<open>A header with another token of the same length is refused, the right one is let through.\<close>

theorem no_token_no_effect_witness:
  "\<exists>rsp st'. Stack sample_config 7 8 counting (sample_request\<lparr>rq_Authorization := ''bearer  sesame''\<rparr>) sample_http_state = (rsp, st') \<and>
     rs_Status rsp \<in> {401, 429} \<and> hs_app st' = 0 \<and>
     Stack sample_config 7 8 counting (sample_request\<lparr>rq_Authorization := ''bearer  secret''\<rparr>) sample_http_state =
       Stack (sample_config\<lparr>hc_token := []\<rparr>) 7 8 counting (sample_request\<lparr>rq_Authorization := ''bearer  secret''\<rparr>) sample_http_state"
proof -
  let ?bad = "sample_request\<lparr>rq_Authorization := ''bearer  sesame''\<rparr>" and ?good = "sample_request\<lparr>rq_Authorization := ''bearer  secret''\<rparr>"
  have tok: "hc_token sample_config \<noteq> []" by (simp add: sample_config_def)
  obtain rsp st' where s: "Stack sample_config 7 8 counting ?bad sample_http_state = (rsp, st')" by (metis surj_pair)
  obtain rsp2 st2 where s2: "Stack sample_config 7 8 counting ?good sample_http_state = (rsp2, st2)" by (metis surj_pair)
  have "\<not> HasValidBearerToken (rq_Authorization ?bad) (hc_token sample_config)" "\<not> omitAPIAuth ?bad" by code_simp+
  then have bad: "\<not> (probe_request ?bad \<or> presents_token (rq_Authorization ?bad) (hc_token sample_config))"
    by (simp only: presents_token_iff[OF tok] probe_request_iff simp_thms)
  have "HasValidBearerToken (rq_Authorization ?good) (hc_token sample_config)" by code_simp
  then have good: "presents_token (rq_Authorization ?good) (hc_token sample_config)" by (simp only: presents_token_iff[OF tok])
  from no_token_no_effect[OF tok s] bad have "rs_Status rsp \<in> {401, 429} \<and> hs_app st' = hs_app sample_http_state" by simp
  moreover from no_token_no_effect[OF tok s2] good have "Stack (sample_config\<lparr>hc_token := []\<rparr>) 7 8 counting ?good sample_http_state = (rsp2, st2)" by simp
  ultimately show ?thesis using s s2 by (simp add: sample_http_state_def)
qed

section \<open>Rate limit\<close>

lemma delete_length: "k \<in> set (map fst xs) \<Longrightarrow> length (AList.delete k xs) < length xs"
  unfolding AList.delete_eq by (auto intro!: length_filter_less)

lemma prune_visitors_ok:
  assumes "distinct (map fst xs)"
  shows "distinct (map fst (prune_visitors now xs))" "length (prune_visitors now xs) \<le> length xs"
  using assms by (simp_all add: prune_visitors_def distinct_map_filter)

text \<open>What is left of the table before a new visitor enters: a maximum of one less.\<close>

lemma room_for_visitor:
  assumes v: "\<And>ks. ks \<noteq> [] \<Longrightarrow> victim ks \<in> set ks" and vs: "distinct (map fst vs)" "length vs \<le> rateLimitMaxVisitors"
    and vb: "vb = (if rateLimitMaxVisitors \<le> length vs then AList.delete (victim (map fst vs)) vs else vs)"
  shows "distinct (map fst vb) \<and> length vb < rateLimitMaxVisitors"
proof (cases "rateLimitMaxVisitors \<le> length vs")
  case True
  then have "map fst vs \<noteq> []" by (auto simp: rateLimitMaxVisitors_def)
  then have "length vb < length vs" using v[of "map fst vs"] True vb delete_length[of "victim (map fst vs)" vs] by simp
  then show ?thesis using vs True vb by (simp add: distinct_delete)
qed (use vs vb in simp)

lemma length_update: "length (AList.update k v xs) = (if k \<in> set (map fst xs) then length xs else Suc (length xs))"
  by (induction xs) auto

text \<open>The table of visitors never holds more than its maximum, and its entries have distinct addresses.\<close>

lemma limiter_bounded:
  assumes v: "\<And>ks. ks \<noteq> [] \<Longrightarrow> victim ks \<in> set ks"
    and vs: "distinct (map fst vs)" "length vs \<le> rateLimitMaxVisitors" and a: "limiter_allow nl al victim m now ip vs = (ok, vs')"
  shows "distinct (map fst vs') \<and> length vs' \<le> rateLimitMaxVisitors"
proof -
  define vs1 where "vs1 = (if rateLimitPruneLen < length vs then prune_visitors now vs else vs)"
  define va where "va = (if rateLimitMaxVisitors \<le> length vs1 then prune_visitors now vs1 else vs1)"
  define vb where "vb = (if rateLimitMaxVisitors \<le> length va then AList.delete (victim (map fst va)) va else va)"
  have 1: "distinct (map fst vs1)" "length vs1 \<le> rateLimitMaxVisitors"
    using vs prune_visitors_ok[OF vs(1)] by (auto simp: vs1_def intro: order_trans)
  have 2: "distinct (map fst va)" "length va \<le> rateLimitMaxVisitors"
    using 1 prune_visitors_ok[OF 1(1)] by (auto simp: va_def intro: order_trans)
  have 3: "distinct (map fst vb) \<and> length vb < rateLimitMaxVisitors" using room_for_visitor[OF v 2 vb_def] .
  obtain x vs2 where vs2: "vs' = AList.update ip x vs2" "vs2 = (if map_of vs1 ip = None then vb else vs1)"
    using a by (auto simp: limiter_allow_def Let_def simp flip: vs1_def va_def vb_def split: option.splits prod.splits)
  show ?thesis
  proof (cases "map_of vs1 ip")
    case None
    then show ?thesis using vs2 3 by (auto simp: length_update distinct_update)
  next
    case (Some v)
    then have "ip \<in> set (map fst vs1)" by (metis domI dom_map_of_conv_image_fst list.set_map)
    then show ?thesis using vs2 1 Some by (simp add: length_update distinct_update)
  qed
qed

end
