(* ===== verification/Event_Properties.thy ===== *)
theory Event_Properties
  imports System_Properties
begin

text \<open>
  Reading a growing log in pages. The locale \<open>keyset\<close> is the contract of a keyset page (the first
  \<open>lim\<close> rows below the cursor, in descending key order) over a table whose rows below a known key do not change;
  from it following the cursor enumerates the rows of the first page's state exactly once. The audit
  log of a task is interpreted as such a table.
\<close>

section \<open>Keyset pages\<close>

fun keyset_walk :: "('s \<Rightarrow> int option \<Rightarrow> 'r list) \<Rightarrow> ('r \<Rightarrow> int) \<Rightarrow> nat \<Rightarrow> (nat \<Rightarrow> 's) \<Rightarrow> int option \<Rightarrow> 'r list" where
  "keyset_walk fetch key 0 st c = []"
| "keyset_walk fetch key (Suc n) st c =
     (let p = fetch (st 0) c in
      if p = [] then [] else p @ keyset_walk fetch key n (\<lambda>i. st (Suc i)) (Some (key (last p))))"

lemma filter_below_last:
  fixes key :: "'r \<Rightarrow> int"
  assumes "sorted_wrt (\<lambda>x y. key y < key x) (xs @ ys)" "xs \<noteq> []"
  shows "filter (\<lambda>r. key r < key (last xs)) (xs @ ys) = ys"
proof -
  obtain zs z where xs: "xs = zs @ [z]" using assms(2) by (metis rev_exhaust)
  have "filter (\<lambda>r. key r < key z) (zs @ [z]) = []"
    using assms(1) by (auto simp: xs sorted_wrt_append filter_empty_conv)
  moreover have "filter (\<lambda>r. key r < key z) ys = ys"
    using assms(1) by (auto simp: xs sorted_wrt_append intro: filter_True)
  ultimately show ?thesis by (simp add: xs)
qed

locale keyset =
  fixes key :: "'r \<Rightarrow> int"
    and rows :: "'s \<Rightarrow> 'r list"
    and fetch :: "'s \<Rightarrow> int option \<Rightarrow> 'r list"
    and lim :: nat
    and ok :: "'s \<Rightarrow> bool"
    and grows :: "'s \<Rightarrow> 's \<Rightarrow> bool"
  assumes lim_pos: "0 < lim"
    and descending: "ok s \<Longrightarrow> sorted_wrt (\<lambda>x y. key y < key x) (rows s)"
    and fetch_first: "ok s \<Longrightarrow> fetch s None = take lim (rows s)"
    and fetch_below: "ok s \<Longrightarrow> r \<in> set (rows s0) \<Longrightarrow> ok s0 \<Longrightarrow>
           fetch s (Some (key r)) = take lim (filter (\<lambda>x. key x < key r) (rows s))"
    and stable: "ok s \<Longrightarrow> ok s' \<Longrightarrow> grows s s' \<Longrightarrow> r \<in> set (rows s) \<Longrightarrow>
           map key (filter (\<lambda>x. key x < key r) (rows s')) = map key (filter (\<lambda>x. key x < key r) (rows s))"
begin

lemma rest_of_page:
  assumes "ok s" "sorted_wrt (\<lambda>x y. key y < key x) R" "R \<noteq> []" "\<And>k. filter (\<lambda>x. key x < k \<and> x \<in> set R) (rows s) = filter (\<lambda>x. key x < k) R"
    "\<And>x. x \<in> set (rows s) \<Longrightarrow> key x < key (last (take lim R)) \<Longrightarrow> x \<in> set R"
  shows "filter (\<lambda>x. key x < key (last (take lim R))) (rows s) = drop lim R"
proof -
  let ?k = "key (last (take lim R))"
  have "filter (\<lambda>x. key x < ?k) (rows s) = filter (\<lambda>x. key x < ?k \<and> x \<in> set R) (rows s)"
    using assms(5) by (intro filter_cong) auto
  also have "\<dots> = filter (\<lambda>x. key x < ?k) (take lim R @ drop lim R)" by (simp add: assms(4))
  also have "\<dots> = drop lim R"
    by (rule filter_below_last) (use assms(2,3) lim_pos in simp_all)
  finally show ?thesis .
qed

lemma walk_from:
  assumes "\<And>i. ok (st i)" "\<And>i. grows (st i) (st (Suc i))" "r \<in> set (rows s0)" "ok s0"
    "length (filter (\<lambda>x. key x < key r) (rows (st 0))) \<le> n"
  shows "map key (keyset_walk fetch key n st (Some (key r))) = map key (filter (\<lambda>x. key x < key r) (rows (st 0)))"
  using assms
proof (induction n arbitrary: st r s0)
  case 0
  then show ?case by simp
next
  case (Suc n)
  let ?s = "st 0" and ?R = "filter (\<lambda>x. key x < key r) (rows (st 0))"
  let ?z = "last (take lim ?R)"
  have p: "fetch ?s (Some (key r)) = take lim ?R" using fetch_below Suc.prems(1,3,4) by blast
  show ?case
  proof (cases "?R = []")
    case True
    then show ?thesis using p by simp
  next
    case False
    then have z: "?z \<in> set ?R" using lim_pos by (metis in_set_takeD last_in_set less_not_refl take_eq_Nil)
    have d: "filter (\<lambda>x. key x < key ?z) (rows ?s) = drop lim ?R"
    proof (rule rest_of_page[OF Suc.prems(1) _ False])
      show "sorted_wrt (\<lambda>x y. key y < key x) ?R" by (rule sorted_wrt_filter) (rule descending[OF Suc.prems(1)])
      show "filter (\<lambda>x. key x < k \<and> x \<in> set ?R) (rows ?s) = filter (\<lambda>x. key x < k) ?R" for k
        by (auto intro: filter_cong)
      show "x \<in> set ?R" if "x \<in> set (rows ?s)" "key x < key ?z" for x using that z by auto
    qed
    have st: "map key (filter (\<lambda>x. key x < key ?z) (rows (st 1))) = map key (drop lim ?R)"
      using stable[OF Suc.prems(1)[of 0] Suc.prems(1)[of 1] _, of ?z] Suc.prems(2)[of 0] z d by simp
    have "length (filter (\<lambda>x. key x < key ?z) (rows (st 1))) = length (drop lim ?R)"
      using arg_cong[OF st, of length] by simp
    then have l: "length (filter (\<lambda>x. key x < key ?z) (rows (st (Suc 0)))) \<le> n"
      using Suc.prems(5) lim_pos by simp
    have "map key (keyset_walk fetch key n (\<lambda>i. st (Suc i)) (Some (key ?z))) = map key (drop lim ?R)"
      using Suc.IH[of "\<lambda>i. st (Suc i)" ?z ?s] Suc.prems(1,2) z l st by simp
    moreover have "take lim ?R \<noteq> []" using False lim_pos by simp
    ultimately show ?thesis using p by (simp add: Let_def) (metis append_take_drop_id map_append)
  qed
qed

lemma walk_all:
  assumes "\<And>i. ok (st i)" "\<And>i. grows (st i) (st (Suc i))" "length (rows (st 0)) \<le> n"
  shows "map key (keyset_walk fetch key n st None) = map key (rows (st 0))"
proof (cases "rows (st 0) = []")
  case True
  then show ?thesis using fetch_first[OF assms(1)] by (cases n) simp_all
next
  case False
  let ?R = "rows (st 0)"
  let ?z = "last (take lim ?R)"
  obtain m where n: "n = Suc m" using False assms(3) by (cases n) auto
  have z: "?z \<in> set ?R" using False lim_pos by (metis in_set_takeD last_in_set less_not_refl take_eq_Nil)
  have d: "filter (\<lambda>x. key x < key ?z) ?R = drop lim ?R"
    by (rule rest_of_page[OF assms(1) descending[OF assms(1)] False]) (auto intro: filter_cong)
  have st: "map key (filter (\<lambda>x. key x < key ?z) (rows (st 1))) = map key (drop lim ?R)"
    using stable[OF assms(1)[of 0] assms(1)[of 1] _ z] assms(2)[of 0] d by simp
  have "length (filter (\<lambda>x. key x < key ?z) (rows (st (Suc 0)))) \<le> m"
    using arg_cong[OF st, of length] assms(3) lim_pos n by simp
  then have "map key (keyset_walk fetch key m (\<lambda>i. st (Suc i)) (Some (key ?z))) = map key (drop lim ?R)"
    using walk_from[of "\<lambda>i. st (Suc i)" ?z "st 0" m] assms(1,2) z st by simp
  moreover have "take lim ?R \<noteq> []" using False lim_pos by simp
  ultimately show ?thesis using fetch_first[OF assms(1)[of 0]] n
    by (simp add: Let_def) (metis append_take_drop_id map_append)
qed

end

section \<open>The audit log as a keyset table\<close>

definition event_limit :: "int \<Rightarrow> int" where
  "event_limit l = (if l \<le> 0 then 50 else if 200 < l then 200 else l)"

lemma event_limit_pos [simp]: "0 < event_limit l"
  by (simp add: event_limit_def)

lemma validatePageInputs_ok:
  assumes "trim_space i \<noteq> []" "b = None \<or> a = None" "\<And>k. b = Some k \<Longrightarrow> 1 \<le> k" "\<And>k. a = Some k \<Longrightarrow> 1 \<le> k"
  shows "validatePageInputs i l b a = Inr (trim_space i, event_limit l)"
  using assms by (auto simp: validatePageInputs_def event_limit_def Let_def split: option.splits)

lemma log_numbered: "store_ok s \<Longrightarrow> numbered (map ev_Seq (events_of s i))"
  using cycles_okD(5)[of s] store_okD(1)[of s] by (simp add: numbered_by_def events_of_def)

lemma log_sorted: "store_ok s \<Longrightarrow> sorted_wrt (\<lambda>x y. ev_Seq x < ev_Seq y) (events_of s i)"
  using numbered_strict[OF log_numbered] by (simp only: sorted_wrt_map)

lemma log_descending: "store_ok s \<Longrightarrow> sorted_wrt (\<lambda>x y. ev_Seq y < ev_Seq x) (rev (events_of s i))"
  unfolding sorted_wrt_rev by (rule log_sorted)

lemma log_seq_bounds: "store_ok s \<Longrightarrow> e \<in> set (events_of s i) \<Longrightarrow> 1 \<le> ev_Seq e \<and> ev_Seq e \<le> int (length (events_of s i))"
  using log_numbered[of s i] numbered_nth[of "map ev_Seq (events_of s i)"]
  by (auto simp: in_set_conv_nth)

lemma sort_newest_first:
  "store_ok s \<Longrightarrow> sort_key (\<lambda>e. - ev_Seq e) (filter P (events_of s i)) = rev (filter P (events_of s i))"
  by (rule sort_key_strict_desc, rule sorted_wrt_filter, rule log_sorted)

definition page_fetch :: "string \<Rightarrow> int \<Rightarrow> db \<Rightarrow> int option \<Rightarrow> task_event list" where
  "page_fetch i l s c =
     take (nat (event_limit l)) (sort_key (\<lambda>e. - ev_Seq e) (filter (page_window c None) (events_of s (trim_space i))))"

lemma fillPageBounds_events [simp]: "pg_Events (fillPageBounds s i p) = pg_Events p"
  by (simp add: fillPageBounds_def Let_def)

lemma PageCursor_events:
  assumes "trim_space i \<noteq> []" "\<And>k. c = Some k \<Longrightarrow> 1 \<le> k"
  shows "\<exists>p. PageCursor s i l c None = Inr p \<and> pg_Events p = page_fetch i l s c"
  using validatePageInputs_ok[OF assms(1), of c None l] assms(2) by (simp add: PageCursor_def page_fetch_def Let_def)

definition log_grows :: "string \<Rightarrow> db \<Rightarrow> db \<Rightarrow> bool" where
  "log_grows i s s' \<longleftrightarrow> length (events_of s (trim_space i)) \<le> length (events_of s' (trim_space i))"

lemma numbered_below:
  assumes "numbered xs" "1 \<le> k" "k \<le> int (length xs) + 1"
  shows "filter (\<lambda>x. x < k) xs = map int [1..<nat k]"
proof -
  have "xs = map int [1..<Suc (length xs)]" using assms(1) by (simp only: numbered_def)
  also have "[1..<Suc (length xs)] = [1..<nat k] @ [nat k..<Suc (length xs)]"
    using assms(2,3) by (metis One_nat_def Suc_eq_plus1 le_nat_iff nat_int nat_le_iff of_nat_1 of_nat_add ordered_cancel_comm_monoid_diff_class.add_diff_inverse upt_add_eq_append zero_le_one order_trans)
  finally have xs: "xs = map int [1..<nat k] @ map int [nat k..<Suc (length xs)]" by simp
  have "filter (\<lambda>x. x < k) (map int [1..<nat k]) = map int [1..<nat k]"
    by (rule filter_True) auto
  moreover have "filter (\<lambda>x. x < k) (map int [nat k..<Suc (length xs)]) = []"
    using assms(2) by (auto simp: filter_empty_conv)
  ultimately show ?thesis by (metis append_Nil2 filter_append xs)
qed

lemma log_below:
  assumes "store_ok s" "1 \<le> k" "k \<le> int (length (events_of s i)) + 1"
  shows "map ev_Seq (filter (\<lambda>e. ev_Seq e < k) (rev (events_of s i))) = rev (map int [1..<nat k])"
proof -
  have "filter (\<lambda>x. x < k) (map ev_Seq (events_of s i)) = map int [1..<nat k]"
    by (rule numbered_below) (use assms log_numbered in auto)
  then have "map ev_Seq (filter (\<lambda>e. ev_Seq e < k) (events_of s i)) = map int [1..<nat k]"
    by (simp add: filter_map o_def)
  then show ?thesis by (simp only: rev_filter[symmetric] rev_map[symmetric])
qed

text \<open>Every task's log is such a table: pages are those \<open>PageCursor\<close> returns, and operations that do
  not delete the task only append.\<close>

interpretation log: keyset ev_Seq "\<lambda>s. rev (events_of s (trim_space i))" "page_fetch i l" "nat (event_limit l)" store_ok "log_grows i"
  for i l
proof
  show "0 < nat (event_limit l)" by simp
  show "store_ok s \<Longrightarrow> sorted_wrt (\<lambda>x y. ev_Seq y < ev_Seq x) (rev (events_of s (trim_space i)))" for s
    by (rule log_descending)
  show "store_ok s \<Longrightarrow> page_fetch i l s None = take (nat (event_limit l)) (rev (events_of s (trim_space i)))" for s
    using sort_newest_first[of s "\<lambda>_. True" "trim_space i"] by (simp add: page_fetch_def page_window_def[abs_def])
  show "store_ok s \<Longrightarrow> page_fetch i l s (Some (ev_Seq r)) =
        take (nat (event_limit l)) (filter (\<lambda>x. ev_Seq x < ev_Seq r) (rev (events_of s (trim_space i))))" for s r
    by (simp add: page_fetch_def page_window_def[abs_def] sort_newest_first rev_filter)
  show "map ev_Seq (filter (\<lambda>x. ev_Seq x < ev_Seq r) (rev (events_of s' (trim_space i)))) =
        map ev_Seq (filter (\<lambda>x. ev_Seq x < ev_Seq r) (rev (events_of s (trim_space i))))"
    if "store_ok s" "store_ok s'" "log_grows i s s'" "r \<in> set (rev (events_of s (trim_space i)))" for s s' r
  proof -
    have b: "1 \<le> ev_Seq r" "ev_Seq r \<le> int (length (events_of s (trim_space i)))"
      using log_seq_bounds[OF that(1), of r "trim_space i"] that(4) by auto
    moreover have "length (events_of s (trim_space i)) \<le> length (events_of s' (trim_space i))"
      using that(3) by (simp add: log_grows_def)
    ultimately show ?thesis using log_below[OF that(1), of "ev_Seq r"] log_below[OF that(2), of "ev_Seq r"] by simp
  qed
qed

text \<open>What a client does that shows the whole log: it asks for the newest page and then for the page
  before the last event it has, until a page is empty. \<open>st\<close> is the database each of its requests finds.\<close>

fun event_walk :: "nat \<Rightarrow> (nat \<Rightarrow> db) \<Rightarrow> string \<Rightarrow> int \<Rightarrow> int option \<Rightarrow> task_event list res" where
  "event_walk 0 st i l c = Inr []"
| "event_walk (Suc n) st i l c =
     rbind (PageCursor (st 0) i l c None) (\<lambda>p.
       if pg_Events p = [] then Inr []
       else rbind (event_walk n (\<lambda>k. st (Suc k)) i l (Some (ev_Seq (last (pg_Events p))))) (\<lambda>es.
         Inr (pg_Events p @ es)))"

lemma page_fetch_subset: "e \<in> set (page_fetch i l s c) \<Longrightarrow> e \<in> set (events_of s (trim_space i))"
  by (auto simp: page_fetch_def dest: in_set_takeD)

lemma event_walk_keyset:
  assumes "trim_space i \<noteq> []" "\<And>k. store_ok (st k)" "\<And>k. c = Some k \<Longrightarrow> 1 \<le> k"
  shows "event_walk n st i l c = Inr (keyset_walk (page_fetch i l) ev_Seq n st c)"
  using assms
proof (induction n arbitrary: st c)
  case 0
  then show ?case by simp
next
  case (Suc n)
  obtain p where p: "PageCursor (st 0) i l c None = Inr p" "pg_Events p = page_fetch i l (st 0) c"
    using PageCursor_events Suc.prems(1,3) by blast
  show ?case
  proof (cases "pg_Events p = []")
    case True
    then show ?thesis using p by (simp add: Let_def)
  next
    case False
    then have "last (pg_Events p) \<in> set (events_of (st 0) (trim_space i))"
      using p(2) page_fetch_subset by (metis last_in_set)
    then have "1 \<le> ev_Seq (last (pg_Events p))" using log_seq_bounds Suc.prems(2) by blast
    then have "event_walk n (\<lambda>k. st (Suc k)) i l (Some (ev_Seq (last (pg_Events p)))) =
        Inr (keyset_walk (page_fetch i l) ev_Seq n (\<lambda>k. st (Suc k)) (Some (ev_Seq (last (pg_Events p)))))"
      using Suc.IH[of "\<lambda>k. st (Suc k)" "Some (ev_Seq (last (pg_Events p)))"] Suc.prems(1,2) by simp
    then show ?thesis using p False by (simp add: Let_def)
  qed
qed

text \<open>C29. Paging through the audit log is exact under concurrency: a client that follows the cursor of
  the newest page until a page is empty, while other operations append to the log between its requests,
  receives every event that existed at its first request, newest first, exactly once, and no page skips
  or repeats a row.\<close>

theorem event_paging_complete:
  assumes "trim_space i \<noteq> []" "\<And>k. store_ok (st k)" "\<And>k. log_grows i (st k) (st (Suc k))"
    "length (events_of (st 0) (trim_space i)) \<le> n"
  shows "\<exists>es. event_walk n st i l None = Inr es \<and>
    map ev_Seq es = rev (map ev_Seq (events_of (st 0) (trim_space i)))"
proof -
  have "map ev_Seq (keyset_walk (page_fetch i l) ev_Seq n st None) = map ev_Seq (rev (events_of (st 0) (trim_space i)))"
    by (rule log.walk_all) (simp_all add: assms)
  moreover have "event_walk n st i l None = Inr (keyset_walk (page_fetch i l) ev_Seq n st None)"
    by (rule event_walk_keyset[OF assms(1,2)]) simp
  ultimately show ?thesis by (simp add: rev_map)
qed

definition appended :: "string \<Rightarrow> event_type \<Rightarrow> actor \<Rightarrow> db \<Rightarrow> db" where
  "appended u typ by s = (case Events_Append (sample_env u) s ''t'' typ by PBlank of Inl _ \<Rightarrow> s | Inr s' \<Rightarrow> s')"

lemma appended_ok: "store_ok s \<Longrightarrow> store_ok (appended u typ by s)"
  using Events_Append_store_ok by (auto simp: appended_def split: sum.splits)

definition asked_db :: db where
  "asked_db = appended ''x'' EventApprovalRequested ActorAgent created_db"

definition granted_db :: db where
  "granted_db = appended ''y'' EventApprovalGranted ActorUser asked_db"

definition grown_db :: "nat \<Rightarrow> db" where
  "grown_db k = (if k = 0 then asked_db else granted_db)"

lemma grown_db_ok: "store_ok (grown_db k)"
  by (simp add: grown_db_def granted_db_def asked_db_def appended_ok created_db_ok)

lemma grown_db_logs: "map ev_Seq (events_of asked_db (trim_space ''t'')) = [1, 2, 3] \<and>
   map ev_Seq (events_of granted_db (trim_space ''t'')) = [1, 2, 3, 4] \<and> trim_space ''t'' = ''t''"
  by code_simp

theorem event_paging_complete_witness:
  "\<exists>es. event_walk 3 grown_db ''t'' 2 None = Inr es \<and> map ev_Seq es = [3, 2, 1]"
proof -
  have l: "length (events_of asked_db (trim_space ''t'')) = 3" "length (events_of granted_db (trim_space ''t'')) = 4"
    using arg_cong[OF conjunct1[OF grown_db_logs], of length]
      arg_cong[OF conjunct1[OF conjunct2[OF grown_db_logs]], of length] by simp_all
  have "log_grows ''t'' (grown_db k) (grown_db (Suc k))" for k
    using l by (simp add: log_grows_def grown_db_def)
  then show ?thesis
    using event_paging_complete[of "''t''" grown_db 3 2] grown_db_ok grown_db_logs l by (simp add: grown_db_def)
qed

section \<open>One page\<close>

lemma numbered_upto: "numbered xs \<Longrightarrow> xs = [1..int (length xs)]"
proof -
  have "map int [1..<Suc n] = [1..int n]" for n
    by (induction n) (simp_all add: upto_rec2)
  then show "numbered xs \<Longrightarrow> xs = [1..int (length xs)]" by (metis numbered_def)
qed

lemma log_upto: "store_ok s \<Longrightarrow> map ev_Seq (events_of s i) = [1..int (length (events_of s i))]"
  using numbered_upto[OF log_numbered] by (metis length_map)

lemma filter_upto_less: "filter (\<lambda>x. x < k) [a..b] = [a..min b (k - 1)]"
proof (induction "nat (b - a + 1)" arbitrary: a)
  case 0
  then show ?case by simp
next
  case (Suc n)
  then have ab: "a \<le> b" by linarith
  have "filter (\<lambda>x. x < k) [a + 1..b] = [a + 1..min b (k - 1)]" by (rule Suc.hyps(1)) (use Suc.hyps(2) in linarith)
  moreover have "[a..b] = a # [a + 1..b]" using ab by (simp add: upto_rec1)
  moreover have "[a..min b (k - 1)] = (if a < k then a # [a + 1..min b (k - 1)] else [])"
    using ab by (simp add: upto_rec1)
  moreover have "\<not> a < k \<Longrightarrow> [a + 1..min b (k - 1)] = []" by simp
  ultimately show ?case by simp
qed

lemma filter_upto_greater: "filter (\<lambda>x. k < x) [a..b] = [max a (k + 1)..b]"
proof (induction "nat (b - a + 1)" arbitrary: b)
  case 0
  then show ?case by simp
next
  case (Suc n)
  then have ab: "a \<le> b" by linarith
  have "filter (\<lambda>x. k < x) [a..b - 1] = [max a (k + 1)..b - 1]" by (rule Suc.hyps(1)) (use Suc.hyps(2) in linarith)
  moreover have "[a..b] = [a..b - 1] @ [b]" using ab by (rule upto_rec2)
  moreover have "[max a (k + 1)..b] = (if k < b then [max a (k + 1)..b - 1] @ [b] else [])"
    using ab by (simp add: upto_rec2)
  moreover have "\<not> k < b \<Longrightarrow> [max a (k + 1)..b - 1] = []" by simp
  ultimately show ?case by simp
qed

lemma take_rev_upto: "take m (rev [a..b]) = rev [max a (b - int m + 1)..b]"
proof (induction m arbitrary: b)
  case 0
  then show ?case by simp
next
  case (Suc m)
  show ?case
  proof (cases "a \<le> b")
    case True
    then have "rev [a..b] = b # rev [a..b - 1]" by (simp add: upto_rec2)
    moreover have "[max a (b - int (Suc m) + 1)..b] = [max a (b - int (Suc m) + 1)..b - 1] @ [b]"
      using True by (intro upto_rec2) simp
    ultimately show ?thesis using Suc.IH[of "b - 1"] by (simp add: algebra_simps)
  next
    case False
    then show ?thesis by simp
  qed
qed

lemma count_seq: "length (filter (\<lambda>e. P (ev_Seq e)) es) = length (filter P (map ev_Seq es))"
  by (simp add: filter_map o_def)

lemma fillPageBounds_exact:
  assumes ok: "store_ok s" and ev: "map ev_Seq (pg_Events p) = rev [lo + 1..hi]" and r: "lo < hi" "0 \<le> lo"
    and hi: "hi \<le> int (length (events_of s i))"
  shows "fillPageBounds s i p = p\<lparr>pg_RangeStart := int (length (events_of s i)) - hi + 1, pg_RangeEnd := int (length (events_of s i)) - lo,
    pg_HasMoreNewer := hi < int (length (events_of s i)), pg_HasMoreOlder := 0 < lo\<rparr>"
proof -
  have ne: "pg_Events p \<noteq> []" using ev r(1) by auto
  have seqs: "rev [lo + 1..hi] = hi # rev [lo + 1..hi - 1]" "[lo + 1..hi] = (lo + 1) # [lo + 2..hi]"
    using upto_rec2[of "lo + 1" hi] upto_rec1[of "lo + 1" hi] r(1) by (simp_all add: add.assoc)
  have h: "ev_Seq (hd (pg_Events p)) = hi" using ne ev seqs(1) by (metis list.map_sel(1) list.sel(1))
  have "ev_Seq (last (pg_Events p)) = last (rev [lo + 1..hi])" using ne ev by (metis last_map)
  then have l: "ev_Seq (last (pg_Events p)) = lo + 1" using r(1) seqs(2) by (simp add: last_rev)
  have len: "int (length (pg_Events p)) = hi - lo" using arg_cong[OF ev, of length] r(1) by simp
  have n: "length (filter (\<lambda>e. hi < ev_Seq e) (events_of s i)) = nat (int (length (events_of s i)) - hi)"
    "length (filter (\<lambda>e. ev_Seq e < lo + 1) (events_of s i)) = nat lo"
    unfolding count_seq[of "\<lambda>x. hi < x"] count_seq[of "\<lambda>x. x < lo + 1"] log_upto[OF ok] filter_upto_greater filter_upto_less
    using r hi by simp_all
  show ?thesis unfolding fillPageBounds_def Let_def h l n len using ne r hi by simp
qed

lemma PageCursor_rows:
  fixes l :: int
  assumes ok: "store_ok s" and i: "trim_space i \<noteq> []" and c: "b = None \<or> a = None" "\<And>k. b = Some k \<Longrightarrow> 1 \<le> k" "\<And>k. a = Some k \<Longrightarrow> 1 \<le> k"
  defines "n \<equiv> int (length (events_of s (trim_space i)))"
  defines "hi \<equiv> (case b of None \<Rightarrow> n | Some k \<Rightarrow> min n (k - 1))"
  defines "lo \<equiv> max (case a of None \<Rightarrow> 0 | Some k \<Rightarrow> k) (hi - event_limit l)"
  shows "\<exists>p. PageCursor s i l b a = Inr p \<and> map ev_Seq (pg_Events p) = rev [lo + 1..hi] \<and> pg_Total p = n \<and>
    (lo < hi \<longrightarrow> pg_RangeStart p = n - hi + 1 \<and> pg_RangeEnd p = n - lo \<and> (pg_HasMoreNewer p \<longleftrightarrow> hi < n) \<and> (pg_HasMoreOlder p \<longleftrightarrow> 0 < lo))"
proof -
  let ?i = "trim_space i"
  define w where "w = filter (page_window b a) (events_of s ?i)"
  define q where "q = \<lparr>pg_Events = take (nat (event_limit l)) (rev w), pg_Total = n, pg_RangeStart = 0, pg_RangeEnd = 0,
       pg_HasMoreNewer = False, pg_HasMoreOlder = False\<rparr>"
  have r: "PageCursor s i l b a = Inr (fillPageBounds s ?i q)"
    using validatePageInputs_ok[OF i c] sort_newest_first[OF ok] by (simp add: PageCursor_def Let_def q_def w_def n_def)
  have f: "map ev_Seq w = filter (\<lambda>x. case b of Some k \<Rightarrow> x < k | None \<Rightarrow> (case a of Some k \<Rightarrow> k < x | None \<Rightarrow> True)) (map ev_Seq (events_of s ?i))"
    by (simp add: w_def page_window_def[abs_def] filter_map o_def split: option.splits)
  have "map ev_Seq w = [(case a of None \<Rightarrow> 0 | Some k \<Rightarrow> k) + 1..hi]"
  proof (cases b)
    case None
    then show ?thesis using c(3)
      by (cases a) (simp_all add: f log_upto[OF ok] filter_upto_greater hi_def n_def)
  next
    case (Some k)
    then show ?thesis using c(1) by (simp add: f log_upto[OF ok] filter_upto_less hi_def n_def)
  qed
  moreover have "map ev_Seq (pg_Events q) = take (nat (event_limit l)) (rev (map ev_Seq w))" by (simp add: q_def take_map rev_map)
  moreover have "max (x + 1) (hi - event_limit l + 1) = max x (hi - event_limit l) + 1" for x by simp
  ultimately have ev: "map ev_Seq (pg_Events q) = rev [lo + 1..hi]"
    by (simp add: take_rev_upto lo_def less_imp_le)
  have "0 \<le> lo" "hi \<le> n" using c(3) by (auto simp: lo_def hi_def max_def split: option.splits)
  then have "lo < hi \<Longrightarrow> fillPageBounds s ?i q = q\<lparr>pg_RangeStart := n - hi + 1, pg_RangeEnd := n - lo,
      pg_HasMoreNewer := hi < n, pg_HasMoreOlder := 0 < lo\<rparr>"
    unfolding n_def by (intro fillPageBounds_exact[OF ok ev]) simp_all
  moreover have "pg_Total (fillPageBounds s ?i q) = n" by (simp add: fillPageBounds_def Let_def q_def)
  ultimately show ?thesis using r ev by auto
qed

text \<open>A page of the log is exact. With \<open>n\<close> events in the log, the page before number \<open>b\<close> (or the first
  page) holds the newest events below \<open>b\<close>, as many as the limit allows (50 by default, 200 at most),
  newest first; the range shown counts from the newest event and the two flags say whether events remain
  on either side.\<close>

theorem event_page_exact:
  assumes "store_ok s" "trim_space i \<noteq> []" "\<And>k. b = Some k \<Longrightarrow> 1 \<le> k"
    "n = int (length (events_of s (trim_space i)))"
    "hi = (case b of None \<Rightarrow> n | Some k \<Rightarrow> min n (k - 1))" "lo = max 0 (hi - event_limit l)"
  shows "\<exists>p. PageCursor s i l b None = Inr p \<and> map ev_Seq (pg_Events p) = rev [lo + 1..hi] \<and> pg_Total p = n \<and>
    (lo < hi \<longrightarrow> pg_RangeStart p = n - hi + 1 \<and> pg_RangeEnd p = n - lo \<and>
       pg_HasMoreNewer p = (hi < n) \<and> pg_HasMoreOlder p = (0 < lo))"
  using PageCursor_rows[OF assms(1,2), of b None l] assms(3) unfolding assms(4-6) by simp

theorem event_page_exact_witness:
  "\<exists>p. PageCursor granted_db ''t'' 2 (Some 4) None = Inr p \<and> map ev_Seq (pg_Events p) = [3, 2] \<and> pg_Total p = 4 \<and>
     pg_RangeStart p = 2 \<and> pg_RangeEnd p = 3 \<and> pg_HasMoreNewer p \<and> pg_HasMoreOlder p"
proof -
  have ok: "store_ok granted_db" using grown_db_ok[of 1] by (simp add: grown_db_def)
  have n: "4 = int (length (events_of granted_db (trim_space ''t'')))"
    using arg_cong[OF conjunct1[OF conjunct2[OF grown_db_logs]], of length] by simp
  have t: "trim_space ''t'' \<noteq> []" using grown_db_logs by simp
  have hi: "(3 :: int) = (case Some 4 of None \<Rightarrow> 4 | Some k \<Rightarrow> min 4 (k - 1))" by simp
  have lo: "(1 :: int) = max 0 (3 - event_limit 2)" by (simp add: event_limit_def)
  have "rev [1 + 1..3 :: int] = [3, 2]" by (simp add: upto_rec1)
  then show ?thesis using event_page_exact[OF ok t _ n hi lo] by fastforce
qed

text \<open>C30. The newer page is not the page after the cursor: when more events lie above \<open>after_seq\<close> than fit a
  page, the newest ones are returned and the event right after the cursor is not among them, and the page
  says that nothing newer remains, so a reader walking towards newer events never gets it.\<close>

theorem newer_page_skips_events:
  assumes "store_ok s" "trim_space i \<noteq> []" "1 \<le> a" "n = int (length (events_of s (trim_space i)))" "a + event_limit l < n"
  shows "\<exists>p. PageCursor s i l None (Some a) = Inr p \<and> map ev_Seq (pg_Events p) = rev [n - event_limit l + 1..n] \<and>
    a + 1 \<notin> ev_Seq ` set (pg_Events p) \<and> a + 1 \<in> ev_Seq ` set (events_of s (trim_space i)) \<and> \<not> pg_HasMoreNewer p"
proof -
  have lo: "max a (n - event_limit l) = n - event_limit l" using assms(5) by simp
  obtain p where p: "PageCursor s i l None (Some a) = Inr p" "map ev_Seq (pg_Events p) = rev [n - event_limit l + 1..n]"
    "\<not> pg_HasMoreNewer p"
    using PageCursor_rows[OF assms(1,2), of None "Some a" l] assms(3) lo event_limit_pos[of l] unfolding assms(4) by auto
  have "set (map ev_Seq (pg_Events p)) = {n - event_limit l + 1..n}" unfolding p(2) by simp
  then have "ev_Seq ` set (pg_Events p) = {n - event_limit l + 1..n}" by simp
  moreover have "set (map ev_Seq (events_of s (trim_space i))) = {1..n}" unfolding log_upto[OF assms(1)] assms(4) by simp
  then have "ev_Seq ` set (events_of s (trim_space i)) = {1..n}" by simp
  moreover have "a + 1 \<le> n" "a + 1 < n - event_limit l + 1" using assms(5) event_limit_pos[of l] by linarith+
  ultimately show ?thesis using p assms(3) by simp
qed

theorem newer_page_skips_events_witness:
  "\<exists>p. PageCursor granted_db ''t'' 2 None (Some 1) = Inr p \<and> map ev_Seq (pg_Events p) = [4, 3] \<and> \<not> pg_HasMoreNewer p"
proof -
  have ok: "store_ok granted_db" using grown_db_ok[of 1] by (simp add: grown_db_def)
  have n: "4 = int (length (events_of granted_db (trim_space ''t'')))"
    using arg_cong[OF conjunct1[OF conjunct2[OF grown_db_logs]], of length] by simp
  have t: "trim_space ''t'' \<noteq> []" using grown_db_logs by simp
  have l: "event_limit 2 = 2" by (simp add: event_limit_def)
  have "rev [4 - 2 + 1..4 :: int] = [4, 3]" by (simp add: upto_rec1)
  then show ?thesis using newer_page_skips_events[OF ok t _ n, of 1 2] unfolding l by fastforce
qed

section \<open>The pending approval\<close>

text \<open>The reference reads the log from the start: a request opens an approval, a grant closes it.\<close>

fun approval_after :: "bool \<Rightarrow> event_type list \<Rightarrow> bool" where
  "approval_after b [] = b"
| "approval_after b (EventApprovalRequested # es) = approval_after True es"
| "approval_after b (EventApprovalGranted # es) = approval_after False es"
| "approval_after b (_ # es) = approval_after b es"

lemma approval_after_last:
  "approval_after b ts = (let as = filter (\<lambda>t. t = EventApprovalRequested \<or> t = EventApprovalGranted) ts in
     if as = [] then b else last as = EventApprovalRequested)"
  by (induction b ts rule: approval_after.induct) (auto simp: Let_def)

lemma arg_max_row_strict:
  fixes f :: "'r \<Rightarrow> int"
  assumes "sorted_wrt (\<lambda>x y. f x < f y) rs" "rs \<noteq> []"
  shows "arg_max_row f rs = Some (last rs)"
proof -
  obtain r where r: "arg_max_row f rs = Some r" using assms(2) by fastforce
  then have m: "r \<in> set rs" "\<forall>x\<in>set rs. f x \<le> f r" using arg_max_row_SomeD by fast+
  obtain zs z where rs: "rs = zs @ [z]" using assms(2) by (metis rev_exhaust)
  then have "r = z" using m assms(1) by (force simp: sorted_wrt_append)
  then show ?thesis using r rs by simp
qed

text \<open>C31. Whether an approval is pending, which the store decides from one row, is what reading the whole log from
  its beginning gives.\<close>

theorem approval_pending_equiv:
  assumes "store_ok s" "trim_space i \<noteq> []"
  shows "ApprovalPending s i = Inr (approval_after False (map ev_Type (events_of s (trim_space i))))"
proof -
  let ?P = "\<lambda>t. t = EventApprovalRequested \<or> t = EventApprovalGranted"
  let ?as = "filter (\<lambda>e. ?P (ev_Type e)) (events_of s (trim_space i))"
  have f: "filter ?P (map ev_Type (events_of s (trim_space i))) = map ev_Type ?as" by (simp add: filter_map o_def)
  show ?thesis
  proof (cases "?as = []")
    case True
    then show ?thesis using assms(2) by (simp add: ApprovalPending_def approval_after_last f Let_def)
  next
    case False
    then have "arg_max_row ev_Seq ?as = Some (last ?as)"
      by (intro arg_max_row_strict sorted_wrt_filter log_sorted[OF assms(1)])
    then show ?thesis using assms(2) False by (simp add: ApprovalPending_def approval_after_last f Let_def last_map)
  qed
qed

theorem approval_pending_equiv_witness:
  "ApprovalPending asked_db ''t'' = Inr (approval_after False (map ev_Type (events_of asked_db (trim_space ''t'')))) \<and>
   ApprovalPending asked_db ''t'' = Inr True"
proof -
  have "store_ok asked_db" using grown_db_ok[of 0] by (simp add: grown_db_def)
  then have "ApprovalPending asked_db ''t'' = Inr (approval_after False (map ev_Type (events_of asked_db (trim_space ''t''))))"
    using approval_pending_equiv[of asked_db "''t''"] grown_db_logs by simp
  moreover have "ApprovalPending asked_db ''t'' = Inr True" by code_simp
  ultimately show ?thesis by simp
qed

section \<open>Threads\<close>

lemma latest_user_snoc: "latest_user (th @ [m]) = (if te_By m = ActorUser then Some m else latest_user th)"
  by (simp add: latest_user_def)

text \<open>A message is accepted only from the user or the agent, non-empty and within 10000 bytes, on an
  event that takes messages and whose thread has room. It is then the last message of the thread shown for
  that event, all earlier ones kept (the legacy answer first), the legacy column carries the latest
  user message, and nothing else in the database changes.\<close>

theorem thread_message_effect:
  assumes "store_ok s" "AppendResponseMessage env s i seq msg by = Inr s'"
  shows "by \<in> {ActorUser, ActorAgent} \<and> trim_space msg \<noteq> [] \<and> length (trim_space msg) \<le> 10000 \<and>
    (\<exists>es. s' = s\<lparr>db_events := es\<rparr>) \<and>
    (\<exists>e e'. Events_Get s i seq = Inr e \<and> Events_Get s' i seq = Inr e' \<and> EventTypeAcceptsUserResponse (ev_Type e) \<and>
       ThreadEntriesForDisplay at (Some e') =
         ThreadEntriesForDisplay (tx_now env) (Some e) @ [\<lparr>te_At = tx_evnow env, te_By = by, te_Body = trim_space msg\<rparr>] \<and>
       length (ThreadEntriesForDisplay at (Some e')) \<le> 200 \<and>
       ev_UserResponse e' = map_option te_Body (latest_user (ThreadEntriesForDisplay at (Some e'))) \<and>
       (\<forall>j k. (trim_space j, k) \<noteq> (trim_space i, seq) \<longrightarrow> Events_Get s' j k = Events_Get s j k))"
proof -
  from assms(2) have g: "by = ActorUser \<or> by = ActorAgent" "trim_space msg \<noteq> []" "length (trim_space msg) \<le> maxTaskEventMessageBytes"
    "trim_space i \<noteq> []" "1 \<le> seq" and tx: "appendResponseMessageInTx env s (trim_space i) seq (trim_space msg) by = Inr s'"
    by (auto elim: AppendResponseMessageE)
  from tx obtain e where e: "find_event s (trim_space i) seq = Some e" "EventTypeAcceptsUserResponse (ev_Type e)"
    and len: "length (ThreadEntriesForDisplay (tx_now env) (Some e)) < maxResponseThreadEntries"
    and s': "s' = s\<lparr>db_events := update_where (\<lambda>e. ev_TaskID e = trim_space i \<and> ev_Seq e = seq)
       (\<lambda>x. x\<lparr>ev_ResponseThread := Some (ThreadEntriesForDisplay (tx_now env) (Some e) @ [\<lparr>te_At = tx_evnow env, te_By = by, te_Body = trim_space msg\<rparr>]),
              ev_UserResponse := map_option te_Body (latest_user (ThreadEntriesForDisplay (tx_now env) (Some e) @ [\<lparr>te_At = tx_evnow env, te_By = by, te_Body = trim_space msg\<rparr>])),
              ev_UserResponseAt := map_option te_At (latest_user (ThreadEntriesForDisplay (tx_now env) (Some e) @ [\<lparr>te_At = tx_evnow env, te_By = by, te_Body = trim_space msg\<rparr>]))\<rparr>)
       (db_events s)\<rparr>"
    (is "_ = s\<lparr>db_events := update_where ?P ?f _\<rparr>")
    by (elim appendResponseMessageInTxE) blast
  have find: "List.find (\<lambda>x. ev_TaskID x = t \<and> ev_Seq x = k) (update_where ?P ?f es) =
      map_option (\<lambda>x. if ?P x then ?f x else x) (List.find (\<lambda>x. ev_TaskID x = t \<and> ev_Seq x = k) es)" for t k es
    by (induction es) (auto simp: update_where_def)
  have pe: "?P e" using e(1) by (auto simp: find_event_def find_Some_iff)
  have e': "find_event s' (trim_space i) seq = Some (?f e)" using e(1) pe by (simp add: find_event_def s' find)
  have other: "find_event s' j k = find_event s j k" if "(j, k) \<noteq> (trim_space i, seq)" for j k
  proof (cases "find_event s j k")
    case None
    then show ?thesis by (simp add: find_event_def s' find)
  next
    case (Some x)
    then have "ev_TaskID x = j" "ev_Seq x = k" by (auto simp: find_event_def find_Some_iff)
    then show ?thesis using that Some by (auto simp: find_event_def s' find)
  qed
  have "Events_Get s i seq = Inr e" "Events_Get s' i seq = Inr (?f e)" using g e(1) e' by (simp_all add: Events_Get_def Let_def)
  moreover have "\<forall>j k. (trim_space j, k) \<noteq> (trim_space i, seq) \<longrightarrow> Events_Get s' j k = Events_Get s j k"
    using other by (auto simp: Events_Get_def Let_def)
  moreover have "ThreadEntriesForDisplay at (Some (?f e)) =
      ThreadEntriesForDisplay (tx_now env) (Some e) @ [\<lparr>te_At = tx_evnow env, te_By = by, te_Body = trim_space msg\<rparr>]"
    by (simp add: ThreadEntriesForDisplay_def[of at] parseResponseThreadJSON_def)
  moreover have "\<exists>es. s' = s\<lparr>db_events := es\<rparr>" using s' by blast
  ultimately show ?thesis using g e(2) len
    by (auto simp: maxTaskEventMessageBytes_def maxResponseThreadEntries_def)
qed

theorem thread_message_effect_witness:
  "\<exists>s' e'. AppendResponseMessage (sample_env ''m'') asked_db ''t'' 3 '' go on '' ActorUser = Inr s' \<and> Events_Get s' ''t'' 3 = Inr e' \<and>
     ThreadEntriesForDisplay 0 (Some e') \<noteq> []"
proof -
  have ok: "store_ok asked_db" using grown_db_ok[of 0] by (simp add: grown_db_def)
  have "case AppendResponseMessage (sample_env ''m'') asked_db ''t'' 3 '' go on '' ActorUser of Inl _ \<Rightarrow> False | Inr _ \<Rightarrow> True"
    by code_simp
  then obtain s' where "AppendResponseMessage (sample_env ''m'') asked_db ''t'' 3 '' go on '' ActorUser = Inr s'"
    by (auto split: sum.splits)
  then show ?thesis using thread_message_effect[OF ok, of "sample_env ''m''" "''t''" 3 "'' go on ''" ActorUser s' 0] by auto
qed

end
