(* ===== verification/Projects.thy ===== *)
theory Projects
  imports Store_System Report_Files
begin

text \<open>
  \<^verbatim>\<open>pkgs/tasks/store/internal/projects\<close>: projects, the context items they curate, the relationships between
  items, and the snapshot of the context one attempt was given; then the harness function that renders the
  selected context for the agent (\<^verbatim>\<open>harness/project_context_load.go\<close>, \<^verbatim>\<open>prompt/project_context.go\<close>).
  Context rows refer to projects, tasks and cycles by foreign keys: deletes cascade, sources become null.
\<close>

section \<open>Inputs\<close>

record create_project_input =
  crp_ID :: string
  crp_Name :: string
  crp_Description :: string
  crp_ContextSummary :: string
  crp_RepositoryID :: "string option"

record update_project_input =
  upi_Name :: "string option"
  upi_Description :: "string option"
  upi_Status :: "project_status option"
  upi_ContextSummary :: "string option"

record create_context_input =
  cci_ID :: string
  cci_Kind :: string
  cci_Title :: string
  cci_Body :: string
  cci_SourceTaskID :: "string option"
  cci_SourceCycleID :: "string option"
  cci_CreatedBy :: actor
  cci_Pinned :: bool

record update_context_input =
  uci_Kind :: "string option"
  uci_Title :: "string option"
  uci_Body :: "string option"
  uci_Pinned :: "bool option"

record create_snapshot_input =
  csi_ID :: string
  csi_TaskID :: string
  csi_CycleID :: string
  csi_ProjectID :: string
  csi_ContextJSON :: payload
  csi_RenderedContext :: string
  csi_TokenEstimate :: int

record create_edge_input =
  cei_ID :: string
  cei_SourceContextID :: string
  cei_TargetContextID :: string
  cei_Relation :: context_relation
  cei_Strength :: int
  cei_Note :: string

record update_edge_input =
  uei_Relation :: "context_relation option"
  uei_Strength :: "int option"
  uei_Note :: "string option"

section \<open>Write errors (kernel/errors.go)\<close>

text \<open>How a statement can violate the schema; \<open>MapWriteError\<close> is what the caller makes of it.\<close>

datatype violation = DuplicateKey | ForeignKey | CheckConstraint

type_synonym 'a stmt = "violation + 'a"

fun MapWriteError :: "string \<Rightarrow> violation \<Rightarrow> err" where
  "MapWriteError detail DuplicateKey = ErrConflict detail"
| "MapWriteError detail _ = ErrInvalidInput ''constraint''"

definition written :: "'a stmt \<Rightarrow> 'a res" where
  "written w = (case w of Inl v \<Rightarrow> Inl (MapWriteError ''duplicate project row'' v) | Inr x \<Rightarrow> Inr x)"

fun valid_project_status :: "project_status \<Rightarrow> bool" where
  "valid_project_status (ProjectStatusOther _) = False"
| "valid_project_status _ = True"

definition insert_project :: "db \<Rightarrow> project_row \<Rightarrow> db stmt" where
  "insert_project s p =
     (if proj_ID p \<in> proj_ID ` set (db_projects s) then Inl DuplicateKey
      else if \<not> valid_project_status (proj_Status p) then Inl CheckConstraint
      else Inr (s\<lparr>db_projects := db_projects s @ [p]\<rparr>))"

definition opt_ref :: "string option \<Rightarrow> string set \<Rightarrow> bool" where
  "opt_ref r xs = (case r of None \<Rightarrow> True | Some x \<Rightarrow> x \<in> xs)"

definition insert_context_item :: "db \<Rightarrow> context_item \<Rightarrow> db stmt" where
  "insert_context_item s c =
     (if pci_ID c \<in> pci_ID ` set (db_context_items s) then Inl DuplicateKey
      else if pci_ProjectID c \<notin> proj_ID ` set (db_projects s) \<or>
              \<not> opt_ref (pci_SourceTaskID c) (task_ID ` set (db_tasks s)) \<or>
              \<not> opt_ref (pci_SourceCycleID c) (cycle_ID ` set (db_cycles s)) then Inl ForeignKey
      else Inr (s\<lparr>db_context_items := db_context_items s @ [c]\<rparr>))"

definition edge_key :: "context_edge \<Rightarrow> string \<times> string \<times> string \<times> context_relation" where
  "edge_key e = (pce_ProjectID e, pce_SourceContextID e, pce_TargetContextID e, pce_Relation e)"

fun valid_relation :: "context_relation \<Rightarrow> bool" where
  "valid_relation (RelationOther _) = False"
| "valid_relation _ = True"

definition insert_edge :: "db \<Rightarrow> context_edge \<Rightarrow> db stmt" where
  "insert_edge s e =
     (if pce_ID e \<in> pce_ID ` set (db_edges s) \<or> edge_key e \<in> edge_key ` set (db_edges s) then Inl DuplicateKey
      else if \<not> valid_relation (pce_Relation e) \<or> pce_Strength e < 1 \<or> 5 < pce_Strength e then Inl CheckConstraint
      else if pce_ProjectID e \<notin> proj_ID ` set (db_projects s) \<or>
              pce_SourceContextID e \<notin> pci_ID ` set (db_context_items s) \<or>
              pce_TargetContextID e \<notin> pci_ID ` set (db_context_items s) then Inl ForeignKey
      else Inr (s\<lparr>db_edges := db_edges s @ [e]\<rparr>))"

definition insert_snapshot :: "db \<Rightarrow> context_snapshot \<Rightarrow> db stmt" where
  "insert_snapshot s x =
     (if snap_ID x \<in> snap_ID ` set (db_snapshots s) \<or> snap_CycleID x \<in> snap_CycleID ` set (db_snapshots s)
      then Inl DuplicateKey
      else if snap_TaskID x \<notin> task_ID ` set (db_tasks s) \<or> snap_CycleID x \<notin> cycle_ID ` set (db_cycles s) \<or>
              snap_ProjectID x \<notin> proj_ID ` set (db_projects s) then Inl ForeignKey
      else Inr (s\<lparr>db_snapshots := db_snapshots s @ [x]\<rparr>))"

section \<open>Projects (projects.go)\<close>

definition DefaultProjectID :: string where
  "DefaultProjectID = ''00000000-0000-4000-8000-000000000001''"

definition DefaultProject :: "gotime \<Rightarrow> project_row" where
  "DefaultProject now = \<lparr>proj_ID = DefaultProjectID, proj_Name = ''Default project'',
     proj_Description = ''Built-in project for general task context.'', proj_Status = ProjectStatusActive,
     proj_ContextSummary = ''Shared context selected for tasks that do not need a custom project.'',
     proj_RepositoryID = None, proj_CreatedAt = now, proj_UpdatedAt = now\<rparr>"

definition trimOptional :: "string option \<Rightarrow> string option" where
  "trimOptional v = (case v of None \<Rightarrow> None | Some x \<Rightarrow> (let t = trim_space x in if t = [] then None else Some t))"

text \<open>\<open>repos\<close> are the identifiers of the rows of \<^verbatim>\<open>git_repositories\<close>.\<close>

definition CreateProject :: "txenv \<Rightarrow> string list \<Rightarrow> db \<Rightarrow> create_project_input \<Rightarrow> (db \<times> project_row) res" where
  "CreateProject env repos s inp =
     (let i = ResolveID (tx_uuid env) (crp_ID inp); name = trim_space (crp_Name inp) in
      if name = [] then Inl (ErrInvalidInput ''project name required'')
      else
        let repoID = trimOptional (crp_RepositoryID inp) in
        if (case repoID of None \<Rightarrow> False | Some r \<Rightarrow> r \<notin> set repos) then Inl ErrNotFound
        else
          let row = \<lparr>proj_ID = i, proj_Name = name, proj_Description = trim_space (crp_Description inp),
                     proj_Status = ProjectStatusActive, proj_ContextSummary = trim_space (crp_ContextSummary inp),
                     proj_RepositoryID = repoID, proj_CreatedAt = tx_now env, proj_UpdatedAt = tx_now env\<rparr>
          in rbind (written (insert_project s row)) (\<lambda>s'. Inr (s', row)))"

definition clamp_list :: "int \<Rightarrow> nat" where
  "clamp_list l = (if l \<le> 0 then 50 else if l > 100 then 100 else nat l)"

definition ListProjects :: "db \<Rightarrow> bool \<Rightarrow> int \<Rightarrow> project_row list" where
  "ListProjects s includeArchived limit =
     take (clamp_list limit) (sort_key (\<lambda>p. - proj_UpdatedAt p)
       (filter (\<lambda>p. includeArchived \<or> proj_Status p = ProjectStatusActive) (db_projects s)))"

definition find_project :: "db \<Rightarrow> string \<Rightarrow> project_row res" where
  "find_project s i =
     (case List.find (\<lambda>p. proj_ID p = i) (db_projects s) of None \<Rightarrow> Inl ErrNotFound | Some p \<Rightarrow> Inr p)"

definition GetProject :: "db \<Rightarrow> string \<Rightarrow> project_row res" where
  "GetProject s id0 =
     (let i = trim_space id0 in
      if i = [] then Inl (ErrInvalidInput ''project id required'') else find_project s i)"

definition validateProjectPatch :: "update_project_input \<Rightarrow> unit res" where
  "validateProjectPatch inp =
     (if (case upi_Name inp of None \<Rightarrow> False | Some n \<Rightarrow> trim_space n = [])
      then Inl (ErrInvalidInput ''project name required'')
      else if (case upi_Status inp of None \<Rightarrow> False | Some st \<Rightarrow> \<not> valid_project_status st)
      then Inl (ErrInvalidInput ''invalid project status'')
      else Inr ())"

definition validateDefaultProjectPatch :: "project_row \<Rightarrow> update_project_input \<Rightarrow> unit res" where
  "validateDefaultProjectPatch row inp =
     (if proj_ID row \<noteq> DefaultProjectID then Inr ()
      else if (case upi_Name inp of None \<Rightarrow> False | Some n \<Rightarrow> trim_space n \<noteq> proj_Name (DefaultProject 0))
      then Inl (ErrConflict ''default project name cannot be changed'')
      else if (case upi_Status inp of None \<Rightarrow> False | Some st \<Rightarrow> st \<noteq> ProjectStatusActive)
      then Inl (ErrConflict ''default project cannot be archived'')
      else Inr ())"

definition applyProjectPatch_row :: "project_row \<Rightarrow> update_project_input \<Rightarrow> project_row" where
  "applyProjectPatch_row row inp =
     row\<lparr>proj_Name := (case upi_Name inp of None \<Rightarrow> proj_Name row | Some v \<Rightarrow> trim_space v),
         proj_Description := (case upi_Description inp of None \<Rightarrow> proj_Description row | Some v \<Rightarrow> trim_space v),
         proj_Status := (case upi_Status inp of None \<Rightarrow> proj_Status row | Some v \<Rightarrow> v),
         proj_ContextSummary := (case upi_ContextSummary inp of None \<Rightarrow> proj_ContextSummary row | Some v \<Rightarrow> trim_space v)\<rparr>"

definition UpdateProject :: "txenv \<Rightarrow> db \<Rightarrow> string \<Rightarrow> update_project_input \<Rightarrow> (db \<times> project_row) res" where
  "UpdateProject env s id0 inp =
     (let i = trim_space id0 in
      if i = [] then Inl (ErrInvalidInput ''project id required'')
      else rbind (validateProjectPatch inp) (\<lambda>_.
           rbind (find_project s i) (\<lambda>row.
           rbind (validateDefaultProjectPatch row inp) (\<lambda>_.
           let drow = (applyProjectPatch_row row inp)\<lparr>proj_UpdatedAt := tx_now env\<rparr> in
           Inr (s\<lparr>db_projects := update_where (\<lambda>p. proj_ID p = i) (\<lambda>_. drow) (db_projects s)\<rparr>, drow)))))"

text \<open>The row goes with its context items, edges and snapshots; tasks lose the reference.\<close>

definition cascade_delete_project :: "db \<Rightarrow> string \<Rightarrow> db" where
  "cascade_delete_project s i =
     (let gone = map pci_ID (filter (\<lambda>c. pci_ProjectID c = i) (db_context_items s)) in
      s\<lparr>db_projects := filter (\<lambda>p. proj_ID p \<noteq> i) (db_projects s),
        db_tasks := update_where (\<lambda>t. task_ProjectID t = Some i) (\<lambda>t. t\<lparr>task_ProjectID := None\<rparr>) (db_tasks s),
        db_context_items := filter (\<lambda>c. pci_ProjectID c \<noteq> i) (db_context_items s),
        db_edges := filter (\<lambda>e. pce_ProjectID e \<noteq> i \<and> pce_SourceContextID e \<notin> set gone \<and> pce_TargetContextID e \<notin> set gone) (db_edges s),
        db_snapshots := filter (\<lambda>x. snap_ProjectID x \<noteq> i) (db_snapshots s)\<rparr>)"

definition DeleteProject :: "db \<Rightarrow> string \<Rightarrow> db res" where
  "DeleteProject s id0 =
     (let i = trim_space id0 in
      if i = [] then Inl (ErrInvalidInput ''project id required'')
      else if i = DefaultProjectID then Inl (ErrConflict ''default project cannot be deleted'')
      else if i \<notin> proj_ID ` set (db_projects s) then Inl ErrNotFound
      else Inr (cascade_delete_project s i))"

section \<open>Context items (projects.go)\<close>

definition validateContextKind :: "string \<Rightarrow> unit res" where
  "validateContextKind kind =
     (let t = trim_space kind in
      if t = [] then Inl (ErrInvalidInput ''context kind required'')
      else if 24 < length t then Inl (ErrInvalidInput ''context kind must be 24 characters or fewer'')
      else Inr ())"

definition CreateContext :: "txenv \<Rightarrow> db \<Rightarrow> string \<Rightarrow> create_context_input \<Rightarrow> (db \<times> context_item) res" where
  "CreateContext env s projectID0 inp =
     (let projectID = trim_space projectID0 in
      if projectID = [] then Inl (ErrInvalidInput ''project id required'')
      else
        let i = ResolveID (tx_uuid env) (cci_ID inp);
            kind0 = trim_space (cci_Kind inp);
            kind = (if kind0 = [] then ''note'' else kind0)
        in rbind (validateContextKind kind) (\<lambda>_.
           let title = trim_space (cci_Title inp) in
           if title = [] then Inl (ErrInvalidInput ''context title required'')
           else if trim_space (cci_Body inp) = [] then Inl (ErrInvalidInput ''context body required'')
           else
             let actor = (if cci_CreatedBy inp = ActorOther [] then ActorUser else cci_CreatedBy inp) in
             rbind (ValidateActor actor) (\<lambda>_.
             let row = \<lparr>pci_ID = i, pci_ProjectID = projectID, pci_Kind = kind, pci_Title = title,
                        pci_Body = trim_space (cci_Body inp), pci_SourceTaskID = trimOptional (cci_SourceTaskID inp),
                        pci_SourceCycleID = trimOptional (cci_SourceCycleID inp), pci_CreatedBy = actor,
                        pci_Pinned = cci_Pinned inp, pci_CreatedAt = tx_now env, pci_UpdatedAt = tx_now env\<rparr>
             in rbind (written (insert_context_item s row)) (\<lambda>s'. Inr (s', row)))))"

definition ListContext :: "db \<Rightarrow> string \<Rightarrow> bool \<Rightarrow> int \<Rightarrow> context_item list res" where
  "ListContext s projectID0 includeUnpinned limit =
     (let projectID = trim_space projectID0 in
      if projectID = [] then Inl (ErrInvalidInput ''project id required'')
      else Inr (take (clamp_list limit)
             (sort_key (\<lambda>c. if pci_Pinned c then 0 else 1 :: nat) (sort_key (\<lambda>c. - pci_UpdatedAt c)
               (filter (\<lambda>c. pci_ProjectID c = projectID \<and> (includeUnpinned \<or> pci_Pinned c)) (db_context_items s))))))"

text \<open>Rows are selected by the identifiers as given and looked up by the trimmed ones.\<close>

fun pick_items :: "context_item list \<Rightarrow> string list \<Rightarrow> context_item list res" where
  "pick_items rows [] = Inr []"
| "pick_items rows (i # ids) =
     (case List.find (\<lambda>c. pci_ID c = trim_space i) rows of
        None \<Rightarrow> Inl ErrNotFound
      | Some c \<Rightarrow> rbind (pick_items rows ids) (\<lambda>cs. Inr (c # cs)))"

definition ListContextByIDs :: "db \<Rightarrow> string \<Rightarrow> string list \<Rightarrow> context_item list res" where
  "ListContextByIDs s projectID0 ids =
     (let projectID = trim_space projectID0 in
      if projectID = [] then Inl (ErrInvalidInput ''project id required'')
      else if ids = [] then Inr []
      else pick_items (filter (\<lambda>c. pci_ProjectID c = projectID \<and> pci_ID c \<in> set ids) (db_context_items s)) ids)"

definition validateContextPatch :: "update_context_input \<Rightarrow> unit res" where
  "validateContextPatch inp =
     rbind (case uci_Kind inp of None \<Rightarrow> Inr () | Some k \<Rightarrow> validateContextKind k) (\<lambda>_.
     if (case uci_Title inp of None \<Rightarrow> False | Some v \<Rightarrow> trim_space v = [])
     then Inl (ErrInvalidInput ''context title required'')
     else if (case uci_Body inp of None \<Rightarrow> False | Some v \<Rightarrow> trim_space v = [])
     then Inl (ErrInvalidInput ''context body required'')
     else Inr ())"

definition applyContextPatch :: "context_item \<Rightarrow> update_context_input \<Rightarrow> context_item" where
  "applyContextPatch row inp =
     row\<lparr>pci_Kind := (case uci_Kind inp of None \<Rightarrow> pci_Kind row | Some v \<Rightarrow> trim_space v),
         pci_Title := (case uci_Title inp of None \<Rightarrow> pci_Title row | Some v \<Rightarrow> trim_space v),
         pci_Body := (case uci_Body inp of None \<Rightarrow> pci_Body row | Some v \<Rightarrow> trim_space v),
         pci_Pinned := (case uci_Pinned inp of None \<Rightarrow> pci_Pinned row | Some v \<Rightarrow> v)\<rparr>"

definition UpdateContext :: "txenv \<Rightarrow> db \<Rightarrow> string \<Rightarrow> string \<Rightarrow> update_context_input \<Rightarrow> (db \<times> context_item) res" where
  "UpdateContext env s projectID0 itemID0 inp =
     (let projectID = trim_space projectID0; itemID = trim_space itemID0 in
      if projectID = [] \<or> itemID = [] then Inl (ErrInvalidInput ''project id and context id required'')
      else rbind (validateContextPatch inp) (\<lambda>_.
           case List.find (\<lambda>c. pci_ID c = itemID \<and> pci_ProjectID c = projectID) (db_context_items s) of
             None \<Rightarrow> Inl ErrNotFound
           | Some row \<Rightarrow>
               let drow = (applyContextPatch row inp)\<lparr>pci_UpdatedAt := tx_now env\<rparr> in
               Inr (s\<lparr>db_context_items := update_where (\<lambda>c. pci_ID c = itemID) (\<lambda>_. drow) (db_context_items s)\<rparr>, drow)))"

text \<open>Edges at the item go first in the code, and with the row by the foreign keys.\<close>

definition DeleteContext :: "db \<Rightarrow> string \<Rightarrow> string \<Rightarrow> db res" where
  "DeleteContext s projectID0 itemID0 =
     (let projectID = trim_space projectID0; itemID = trim_space itemID0 in
      if projectID = [] \<or> itemID = [] then Inl (ErrInvalidInput ''project id and context id required'')
      else
        let s1 = s\<lparr>db_edges := filter (\<lambda>e. \<not> (pce_ProjectID e = projectID \<and>
                    (pce_SourceContextID e = itemID \<or> pce_TargetContextID e = itemID))) (db_edges s)\<rparr>
        in if \<not> list_ex (\<lambda>c. pci_ID c = itemID \<and> pci_ProjectID c = projectID) (db_context_items s1) then Inl ErrNotFound
           else Inr (s1\<lparr>db_context_items := filter (\<lambda>c. \<not> (pci_ID c = itemID \<and> pci_ProjectID c = projectID)) (db_context_items s1),
                  db_edges := filter (\<lambda>e. pce_SourceContextID e \<noteq> itemID \<and> pce_TargetContextID e \<noteq> itemID) (db_edges s1)\<rparr>))"

section \<open>Snapshots (projects.go)\<close>

definition CreateSnapshot :: "txenv \<Rightarrow> db \<Rightarrow> create_snapshot_input \<Rightarrow> (db \<times> context_snapshot) res" where
  "CreateSnapshot env s inp =
     (let i = ResolveID (tx_uuid env) (csi_ID inp) in
      if trim_space (csi_TaskID inp) = [] \<or> trim_space (csi_CycleID inp) = [] \<or> trim_space (csi_ProjectID inp) = []
      then Inl (ErrInvalidInput ''task_id, cycle_id, and project_id required'')
      else if csi_TokenEstimate inp < 0 then Inl (ErrInvalidInput ''token_estimate must be >= 0'')
      else rbind (NormalizeJSONObject (csi_ContextJSON inp) ''context_json'') (\<lambda>contextJSON.
           let row = \<lparr>snap_ID = i, snap_TaskID = trim_space (csi_TaskID inp), snap_CycleID = trim_space (csi_CycleID inp),
                      snap_ProjectID = trim_space (csi_ProjectID inp), snap_ContextJSON = contextJSON,
                      snap_RenderedContext = trim_space (csi_RenderedContext inp),
                      snap_TokenEstimate = csi_TokenEstimate inp, snap_CreatedAt = tx_now env\<rparr>
           in rbind (written (insert_snapshot s row)) (\<lambda>s'. Inr (s', row))))"

definition GetSnapshotForCycle :: "db \<Rightarrow> string \<Rightarrow> context_snapshot res" where
  "GetSnapshotForCycle s cycleID0 =
     (let cycleID = trim_space cycleID0 in
      if cycleID = [] then Inl (ErrInvalidInput ''cycle id required'')
      else (case List.find (\<lambda>x. snap_CycleID x = cycleID) (db_snapshots s) of None \<Rightarrow> Inl ErrNotFound | Some x \<Rightarrow> Inr x))"

section \<open>Relationships (edges.go)\<close>

definition validateContextRelation :: "context_relation \<Rightarrow> unit res" where
  "validateContextRelation r =
     (if valid_relation r then Inr () else Inl (ErrInvalidInput ''invalid context relation''))"

definition validateContextEdgeFields :: "string \<Rightarrow> string \<Rightarrow> string \<Rightarrow> context_relation \<Rightarrow> int \<Rightarrow> unit res" where
  "validateContextEdgeFields projectID sourceID targetID relation strength =
     (if trim_space projectID = [] \<or> trim_space sourceID = [] \<or> trim_space targetID = []
      then Inl (ErrInvalidInput ''project id, source_context_id, and target_context_id required'')
      else if trim_space sourceID = trim_space targetID
      then Inl (ErrInvalidInput ''context edge cannot connect a node to itself'')
      else rbind (validateContextRelation relation) (\<lambda>_.
           if strength < 1 \<or> strength > 5 then Inl (ErrInvalidInput ''strength must be 1..5'') else Inr ()))"

definition validateEdgeNodesExist :: "db \<Rightarrow> string \<Rightarrow> string \<Rightarrow> string \<Rightarrow> unit res" where
  "validateEdgeNodesExist s projectID sourceID targetID =
     (if length (filter (\<lambda>c. pci_ProjectID c = projectID \<and> pci_ID c \<in> {sourceID, targetID}) (db_context_items s)) \<noteq> 2
      then Inl (ErrInvalidInput ''context edge nodes must belong to project'') else Inr ())"

definition CreateContextEdge :: "txenv \<Rightarrow> db \<Rightarrow> string \<Rightarrow> create_edge_input \<Rightarrow> (db \<times> context_edge) res" where
  "CreateContextEdge env s projectID0 inp =
     (let projectID = trim_space projectID0 in
      if projectID = [] then Inl (ErrInvalidInput ''project id required'')
      else
        let i = ResolveID (tx_uuid env) (cei_ID inp);
            relation = (if cei_Relation inp = RelationOther [] then RelationRelated else cei_Relation inp);
            strength = (if cei_Strength inp = 0 then 3 else cei_Strength inp)
        in rbind (validateContextEdgeFields projectID (cei_SourceContextID inp) (cei_TargetContextID inp) relation strength) (\<lambda>_.
           let drow = \<lparr>pce_ID = i, pce_ProjectID = projectID, pce_SourceContextID = trim_space (cei_SourceContextID inp),
                       pce_TargetContextID = trim_space (cei_TargetContextID inp), pce_Relation = relation,
                       pce_Strength = strength, pce_Note = trim_space (cei_Note inp), pce_CreatedAt = tx_now env,
                       pce_UpdatedAt = tx_now env\<rparr>
           in rbind (validateEdgeNodesExist s projectID (pce_SourceContextID drow) (pce_TargetContextID drow)) (\<lambda>_.
              rbind (written (insert_edge s drow)) (\<lambda>s'. Inr (s', drow)))))"

fun normalizeEdgeNodeFilter_from :: "string list \<Rightarrow> string list \<Rightarrow> string list" where
  "normalizeEdgeNodeFilter_from seen [] = []"
| "normalizeEdgeNodeFilter_from seen (v # vs) =
     (let i = trim_space v in
      if i = [] \<or> i \<in> set seen then normalizeEdgeNodeFilter_from seen vs
      else i # normalizeEdgeNodeFilter_from (i # seen) vs)"

definition normalizeEdgeNodeFilter :: "string list \<Rightarrow> string list" where
  "normalizeEdgeNodeFilter nodeIDs = normalizeEdgeNodeFilter_from [] nodeIDs"

definition ListContextEdges :: "db \<Rightarrow> string \<Rightarrow> string list option \<Rightarrow> context_edge list res" where
  "ListContextEdges s projectID0 nodeIDs =
     (let projectID = trim_space projectID0 in
      if projectID = [] then Inl (ErrInvalidInput ''project id required'')
      else
        let rows = sort_key (\<lambda>e. - pce_UpdatedAt e) (filter (\<lambda>e. pce_ProjectID e = projectID) (db_edges s)) in
        case nodeIDs of
          None \<Rightarrow> Inr rows
        | Some nodes \<Rightarrow>
            let ids = normalizeEdgeNodeFilter nodes in
            if ids = [] then Inr []
            else Inr (filter (\<lambda>e. pce_SourceContextID e \<in> set ids \<and> pce_TargetContextID e \<in> set ids) rows))"

definition validateContextEdgePatch :: "update_edge_input \<Rightarrow> unit res" where
  "validateContextEdgePatch inp =
     rbind (case uei_Relation inp of None \<Rightarrow> Inr () | Some r \<Rightarrow> validateContextRelation r) (\<lambda>_.
     if (case uei_Strength inp of None \<Rightarrow> False | Some v \<Rightarrow> v < 1 \<or> v > 5)
     then Inl (ErrInvalidInput ''strength must be 1..5'') else Inr ())"

definition applyContextEdgePatch :: "context_edge \<Rightarrow> update_edge_input \<Rightarrow> context_edge" where
  "applyContextEdgePatch row inp =
     row\<lparr>pce_Relation := (case uei_Relation inp of None \<Rightarrow> pce_Relation row | Some r \<Rightarrow> r),
         pce_Strength := (case uei_Strength inp of None \<Rightarrow> pce_Strength row | Some v \<Rightarrow> v),
         pce_Note := (case uei_Note inp of None \<Rightarrow> pce_Note row | Some v \<Rightarrow> trim_space v)\<rparr>"

definition save_edge :: "db \<Rightarrow> context_edge \<Rightarrow> db stmt" where
  "save_edge s e =
     (if list_ex (\<lambda>x. pce_ID x \<noteq> pce_ID e \<and> edge_key x = edge_key e) (db_edges s) then Inl DuplicateKey
      else if \<not> valid_relation (pce_Relation e) \<or> pce_Strength e < 1 \<or> 5 < pce_Strength e then Inl CheckConstraint
      else Inr (s\<lparr>db_edges := update_where (\<lambda>x. pce_ID x = pce_ID e) (\<lambda>_. e) (db_edges s)\<rparr>))"

definition UpdateContextEdge :: "txenv \<Rightarrow> db \<Rightarrow> string \<Rightarrow> string \<Rightarrow> update_edge_input \<Rightarrow> (db \<times> context_edge) res" where
  "UpdateContextEdge env s projectID0 edgeID0 inp =
     (let projectID = trim_space projectID0; edgeID = trim_space edgeID0 in
      if projectID = [] \<or> edgeID = [] then Inl (ErrInvalidInput ''project id and edge id required'')
      else rbind (validateContextEdgePatch inp) (\<lambda>_.
           case List.find (\<lambda>e. pce_ID e = edgeID \<and> pce_ProjectID e = projectID) (db_edges s) of
             None \<Rightarrow> Inl ErrNotFound
           | Some row \<Rightarrow>
               let drow = (applyContextEdgePatch row inp)\<lparr>pce_UpdatedAt := tx_now env\<rparr> in
               rbind (written (save_edge s drow)) (\<lambda>s'. Inr (s', drow))))"

definition DeleteContextEdge :: "db \<Rightarrow> string \<Rightarrow> string \<Rightarrow> db res" where
  "DeleteContextEdge s projectID0 edgeID0 =
     (let projectID = trim_space projectID0; edgeID = trim_space edgeID0 in
      if projectID = [] \<or> edgeID = [] then Inl (ErrInvalidInput ''project id and edge id required'')
      else if \<not> list_ex (\<lambda>e. pce_ID e = edgeID \<and> pce_ProjectID e = projectID) (db_edges s) then Inl ErrNotFound
      else Inr (s\<lparr>db_edges := filter (\<lambda>e. \<not> (pce_ID e = edgeID \<and> pce_ProjectID e = projectID)) (db_edges s)\<rparr>))"

end
