(* ===== verification/Project_Context.thy ===== *)
theory Project_Context
  imports Projects
begin

text \<open>
  The context an attempt is given (\<^verbatim>\<open>pkgs/agents/harness/project_context_load.go\<close>): the selected items and
  the relationships between them, rendered as a block of the prompt (\<^verbatim>\<open>internal/prompt/project_context.go\<close>)
  and recorded once per cycle.
\<close>

section \<open>Rendering (prompt/project_context.go)\<close>

fun relation_str :: "context_relation \<Rightarrow> string" where
  "relation_str RelationSupports = ''supports''"
| "relation_str RelationBlocks = ''blocks''"
| "relation_str RelationRefines = ''refines''"
| "relation_str RelationDependsOn = ''depends_on''"
| "relation_str RelationRelated = ''related''"
| "relation_str (RelationOther s) = s"

record project_context_input =
  pcx_Project :: project_row
  pcx_Items :: "context_item list"
  pcx_Edges :: "context_edge list"

definition nl :: string where "nl = [CHR 0x0A]"

definition render_item :: "context_item \<Rightarrow> string" where
  "render_item c = nl @ ''['' @ pci_Kind c @ ''] '' @ pci_Title c @ nl @ pci_Body c @ nl"

text \<open>\<open>titles\<close> is the map filled item by item, so the last item with an identifier wins.\<close>

definition item_title :: "context_item list \<Rightarrow> string \<Rightarrow> string" where
  "item_title items i = (case List.find (\<lambda>c. pci_ID c = i) (rev items) of None \<Rightarrow> [] | Some c \<Rightarrow> pci_Title c)"

definition render_edge :: "context_item list \<Rightarrow> context_edge \<Rightarrow> string" where
  "render_edge items e =
     ''- '' @ item_title items (pce_SourceContextID e) @ '' '' @ relation_str (pce_Relation e) @ '' '' @
     item_title items (pce_TargetContextID e) @ '' (strength '' @ itoa (pce_Strength e) @ ''/5)'' @
     (if trim_space (pce_Note e) \<noteq> [] then '': '' @ trim_space (pce_Note e) else []) @ nl"

definition BuildProjectContextSection :: "project_context_input \<Rightarrow> string" where
  "BuildProjectContextSection inp =
     ''<project_context>'' @ nl @ ''Project: '' @ proj_Name (pcx_Project inp) @ nl @
     (if trim_space (proj_ContextSummary (pcx_Project inp)) \<noteq> []
      then ''Summary: '' @ trim_space (proj_ContextSummary (pcx_Project inp)) @ nl else []) @
     concat (map render_item (pcx_Items inp)) @
     (if 0 < length (pcx_Edges inp)
      then nl @ ''Relationships:'' @ nl @ concat (map (render_edge (pcx_Items inp)) (pcx_Edges inp)) else []) @
     ''</project_context>''"

definition EstimateTokens :: "string \<Rightarrow> int" where
  "EstimateTokens s = (if trim_space s = [] then 0 else int ((rune_count s + 3) div 4))"

definition WrapWithProjectContext :: "string \<Rightarrow> string \<Rightarrow> string" where
  "WrapWithProjectContext prompt projectContext =
     (if trim_space projectContext = [] then prompt
      else projectContext @ nl @ nl @ ''<task_prompt>'' @ nl @ prompt @ nl @ ''</task_prompt>'')"

section \<open>The recorded bundle (domain/models.go JSON tags)\<close>

text \<open>\<open>rfc\<close> is how \<^verbatim>\<open>time.Time\<close> encodes itself.\<close>

definition omitempty :: "string \<Rightarrow> string option \<Rightarrow> (string \<times> json) list" where
  "omitempty k v = (case v of None \<Rightarrow> [] | Some x \<Rightarrow> [(k, JStr x)])"

definition item_json :: "(gotime \<Rightarrow> string) \<Rightarrow> context_item \<Rightarrow> json" where
  "item_json rfc c = JObj ([(''id'', JStr (pci_ID c)), (''project_id'', JStr (pci_ProjectID c)), (''kind'', JStr (pci_Kind c)),
     (''title'', JStr (pci_Title c)), (''body'', JStr (pci_Body c))] @
     omitempty ''source_task_id'' (pci_SourceTaskID c) @ omitempty ''source_cycle_id'' (pci_SourceCycleID c) @
     [(''created_by'', JStr (actor_str (pci_CreatedBy c))), (''pinned'', JBool (pci_Pinned c)),
      (''created_at'', JStr (rfc (pci_CreatedAt c))), (''updated_at'', JStr (rfc (pci_UpdatedAt c)))])"

definition edge_json :: "(gotime \<Rightarrow> string) \<Rightarrow> context_edge \<Rightarrow> json" where
  "edge_json rfc e = JObj [(''id'', JStr (pce_ID e)), (''project_id'', JStr (pce_ProjectID e)),
     (''source_context_id'', JStr (pce_SourceContextID e)), (''target_context_id'', JStr (pce_TargetContextID e)),
     (''relation'', JStr (relation_str (pce_Relation e))), (''strength'', JNum (pce_Strength e)), (''note'', JStr (pce_Note e)),
     (''created_at'', JStr (rfc (pce_CreatedAt e))), (''updated_at'', JStr (rfc (pce_UpdatedAt e)))]"

definition context_bundle ::
  "(gotime \<Rightarrow> string) \<Rightarrow> project_row \<Rightarrow> string list \<Rightarrow> context_item list \<Rightarrow> context_edge list \<Rightarrow> (string \<times> json) list" where
  "context_bundle rfc p ids items edges =
     [(''edges'', JArr (map (edge_json rfc) edges)), (''items'', JArr (map (item_json rfc) items)),
      (''project'', JObj [(''context_summary'', JStr (proj_ContextSummary p)), (''id'', JStr (proj_ID p)), (''name'', JStr (proj_Name p))]),
      (''project_id'', JStr (proj_ID p)), (''selected_item_ids'', JArr (map JStr ids))]"

section \<open>Selecting the context of an attempt (project_context_load.go)\<close>

record rendered_context =
  rc_Text :: string
  rc_TokenEstimate :: int
  rc_SnapshotJSON :: "(string \<times> json) list"

definition no_context :: rendered_context where
  "no_context = \<lparr>rc_Text = [], rc_TokenEstimate = 0, rc_SnapshotJSON = []\<rparr>"

definition has_context :: "task \<Rightarrow> bool" where
  "has_context t = (case task_ProjectID t of None \<Rightarrow> False
     | Some p \<Rightarrow> trim_space p \<noteq> [] \<and> task_ProjectContextItemIDs t \<noteq> [])"

definition selectedProjectContext ::
  "txenv \<Rightarrow> (gotime \<Rightarrow> string) \<Rightarrow> db \<Rightarrow> task \<Rightarrow> string \<Rightarrow> (db \<times> rendered_context) res" where
  "selectedProjectContext env rfc s t cycleID =
     (if \<not> has_context t then Inr (s, no_context)
      else
        rbind (GetProject s (case task_ProjectID t of Some p \<Rightarrow> p | None \<Rightarrow> [])) (\<lambda>project.
        rbind (ListContextByIDs s (proj_ID project) (task_ProjectContextItemIDs t)) (\<lambda>items.
        rbind (ListContextEdges s (proj_ID project) (Some (task_ProjectContextItemIDs t))) (\<lambda>edges.
        let rendered = BuildProjectContextSection \<lparr>pcx_Project = project, pcx_Items = items, pcx_Edges = edges\<rparr>;
            raw = context_bundle rfc project (task_ProjectContextItemIDs t) items edges
        in case GetSnapshotForCycle s cycleID of
             Inr x \<Rightarrow> Inr (s, \<lparr>rc_Text = snap_RenderedContext x, rc_TokenEstimate = snap_TokenEstimate x,
                              rc_SnapshotJSON = snap_ContextJSON x\<rparr>)
           | Inl e \<Rightarrow>
               if e \<noteq> ErrNotFound then Inl e
               else rbind (CreateSnapshot env s \<lparr>csi_ID = [], csi_TaskID = task_ID t, csi_CycleID = cycleID,
                             csi_ProjectID = proj_ID project, csi_ContextJSON = PDoc (JObj raw),
                             csi_RenderedContext = rendered, csi_TokenEstimate = EstimateTokens rendered\<rparr>)
                    (\<lambda>(s', _). Inr (s', \<lparr>rc_Text = rendered, rc_TokenEstimate = EstimateTokens rendered,
                                       rc_SnapshotJSON = raw\<rparr>))))))"

end
