(* ===== verification/Project_Frames.thy ===== *)
theory Project_Frames
  imports Projects Done_Gate "HOL-Library.Sublist"
begin

text \<open>
  The operations of the other packages do not touch projects and their context: they keep those tables and
  every identifier the tables refer to, keep the templates, and at most drop a draft. Only the deletion of a
  task does more.
\<close>

definition keeps_context :: "db \<Rightarrow> db \<Rightarrow> bool" where
  "keeps_context s s' \<longleftrightarrow> db_projects s' = db_projects s \<and> db_context_items s' = db_context_items s \<and>
     db_edges s' = db_edges s \<and> db_snapshots s' = db_snapshots s \<and>
     db_templates s' = db_templates s \<and> subseq (db_drafts s') (db_drafts s) \<and>
     task_ID ` set (db_tasks s) \<subseteq> task_ID ` set (db_tasks s') \<and> cycle_ID ` set (db_cycles s) \<subseteq> cycle_ID ` set (db_cycles s')"

lemma keeps_context_refl [simp]: "keeps_context s s"
  by (simp add: keeps_context_def)

lemma keeps_context_trans: "keeps_context s s' \<Longrightarrow> keeps_context s' s'' \<Longrightarrow> keeps_context s s''"
  unfolding keeps_context_def
  by (elim conjE, intro conjI; (erule (1) subset_trans)?; (erule (1) subseq_order.trans[rotated])?; simp)

section \<open>Single tables\<close>

lemma keeps_context_tables [simp]:
  "keeps_context s (s\<lparr>db_events := a\<rparr>)" "keeps_context s (s\<lparr>db_deps := d\<rparr>)" "keeps_context s (s\<lparr>db_items := i\<rparr>)"
  "keeps_context s (s\<lparr>db_commands := c\<rparr>)" "keeps_context s (s\<lparr>db_completions := k\<rparr>)" "keeps_context s (s\<lparr>db_drafts := filter f (db_drafts s)\<rparr>)"
  "keeps_context s (s\<lparr>db_phases := p\<rparr>)" "keeps_context s (s\<lparr>db_streams := r\<rparr>)"
  "keeps_context s (s\<lparr>db_tasks := db_tasks s @ [t]\<rparr>)" "keeps_context s (s\<lparr>db_cycles := db_cycles s @ [y]\<rparr>)"
  by (auto simp: keeps_context_def)

lemma keeps_context_tasks: "task_ID ` set ts = task_ID ` set (db_tasks s) \<Longrightarrow> keeps_context s (s\<lparr>db_tasks := ts\<rparr>)"
  by (simp add: keeps_context_def)

lemma keeps_context_cycles: "cycle_ID ` set cs = cycle_ID ` set (db_cycles s) \<Longrightarrow> keeps_context s (s\<lparr>db_cycles := cs\<rparr>)"
  by (simp add: keeps_context_def)

lemma save_task_keeps: "keeps_context s (save_task s t)"
proof -
  have "map task_ID (db_tasks (save_task s t)) = map task_ID (db_tasks s)" by (simp add: save_task_def update_where_def)
  then have "task_ID ` set (db_tasks (save_task s t)) = task_ID ` set (db_tasks s)" by (metis list.set_map)
  then show ?thesis by (simp add: save_task_def keeps_context_def)
qed

lemma AppendEvent_keeps: "AppendEvent now s t n typ by data = Inr s' \<Longrightarrow> keeps_context s s'"
  by (auto simp: AppendEvent_def insert_event_def split: sum.splits if_splits)

lemma set_criteria_flag_keeps: "keeps_context s (set_criteria_flag i v s)"
  unfolding set_criteria_flag_def by (rule keeps_context_tasks, rule image_update_where) simp

lemma sync_keeps: "syncCriteriaSatisfiedAtInTx now s i = Inr (s', ch) \<Longrightarrow> keeps_context s s'"
  by (auto simp: syncCriteriaSatisfiedAtInTx_def Let_def set_criteria_flag_keeps split: option.splits if_splits)

section \<open>The checklist\<close>

lemma insert_item_keeps: "insert_item s i = Inr s' \<Longrightarrow> keeps_context s s'"
  by (auto simp: insert_item_def split: if_splits)

lemma insert_commands_from_commands: "insert_commands_from ids i s itemID cs = Inr s' \<Longrightarrow> \<exists>x. s' = s\<lparr>db_commands := x\<rparr>"
proof (induction cs arbitrary: i s)
  case Nil
  then show ?case by (intro exI[of _ "db_commands s"]) simp
next
  case (Cons c cs)
  then show ?case by (fastforce simp: insert_command_def split: if_splits)
qed

lemma replaceCommandsInTx_keeps: "replaceCommandsInTx ids s itemID cmds = Inr s' \<Longrightarrow> keeps_context s s'"
  unfolding replaceCommandsInTx_def by (drule insert_commands_from_commands) auto

lemmas keeps_frames = AppendEvent_keeps sync_keeps insert_item_keeps replaceCommandsInTx_keeps

lemma upsert_completion_keeps: "keeps_context s (upsert_completion c s)"
  by (simp add: upsert_completion_def)

lemma checklist_delete_keeps: "keeps_context s (delete_item_rows s i)" "keeps_context s (delete_completions_of_item s i)"
  by (simp_all add: delete_item_rows_def delete_completions_of_item_def keeps_context_def)

lemma Checklist_Add_keeps: "Checklist_Add env ids s t x cmds by = Inr (s', it) \<Longrightarrow> keeps_context s s'"
  by (auto simp: Checklist_Add_def Let_def if_Inl_Inr_iff) (blast intro: keeps_context_trans dest: keeps_frames)

lemma Checklist_Delete_keeps: "Checklist_Delete env rep s t i by = Inr s' \<Longrightarrow> keeps_context s s'"
  by (auto simp: Checklist_Delete_def Let_def if_Inl_Inr_iff split: if_splits dest!: AppendEvent_keeps)
     (blast intro: keeps_context_trans checklist_delete_keeps)+

lemma Checklist_UpdateText_keeps: "Checklist_UpdateText env s t i x by = Inr s' \<Longrightarrow> keeps_context s s'"
  by (auto simp: Checklist_UpdateText_def Let_def if_Inl_Inr_iff split: if_splits dest!: AppendEvent_keeps)
     (auto simp: keeps_context_def)

lemma keeps_context_completions: "keeps_context (s\<lparr>db_completions := x\<rparr>) s' = keeps_context s s'"
  by (simp add: keeps_context_def)

lemma Checklist_SetDone_keeps: "Checklist_SetDone env s t i done by = Inr s' \<Longrightarrow> keeps_context s s'"
  by (auto simp: Checklist_SetDone_def Let_def if_Inl_Inr_iff split: if_splits dest!: AppendEvent_keeps sync_keeps)
     (auto simp: keeps_context_completions intro: keeps_context_trans)

lemma SetDoneWithEvidence_keeps: "SetDoneWithEvidence env s t i ev v r c by = Inr (s', ch) \<Longrightarrow> keeps_context s s'"
  by (elim SetDoneWithEvidenceE) (blast intro: keeps_context_trans upsert_completion_keeps dest: keeps_frames)

lemma ReplaceVerifyCommands_keeps: "ReplaceVerifyCommands ids s t i cmds by = Inr s' \<Longrightarrow> keeps_context s s'"
  by (auto simp: ReplaceVerifyCommands_def Let_def if_Inl_Inr_iff dest: replaceCommandsInTx_keeps)

section \<open>Dependencies, events, cycles\<close>

lemma setDependenciesInTx_keeps: "setDependenciesInTx now s t es = Inr s' \<Longrightarrow> keeps_context s s'"
  by (auto dest!: setDependenciesInTx_frame)

lemma dependency_keeps:
  "AddDependency at s i d sat = Inr s' \<Longrightarrow> keeps_context s s'"
  "RemoveDependency s i d = Inr s' \<Longrightarrow> keeps_context s s'"
  "SetDependencies at s i es = Inr s' \<Longrightarrow> keeps_context s s'"
  by (auto simp: AddDependency_def insert_dep_def RemoveDependency_def SetDependencies_def clear_deps_def Let_def if_Inl_Inr_iff
      split: sum.splits err.splits if_splits dest!: insert_edges_frame)

lemma event_keeps:
  "Events_Append env s t typ by data = Inr s' \<Longrightarrow> keeps_context s s'"
  "AppendResponseMessage env s t seq msg by = Inr s' \<Longrightarrow> keeps_context s s'"
  using AppendResponseMessage_frame by (fastforce elim: Events_AppendE dest: AppendEvent_keeps)+

lemma cycle_table_keeps:
  "keeps_context s (set_cycle_status i st at s)" "keeps_context s (set_event_seq i n s)"
  "insert_cycle s c = Inr s' \<Longrightarrow> keeps_context s s'" "insert_phase s p = Inr s' \<Longrightarrow> keeps_context s s'"
proof -
  show "keeps_context s (set_cycle_status i st at s)"
    unfolding set_cycle_status_def by (rule keeps_context_cycles, rule image_update_where) simp
qed (auto simp: set_event_seq_def dest!: insert_cycleD(1) insert_phaseD(1))

lemma keeps_context_phases: "keeps_context (s\<lparr>db_phases := x\<rparr>) s' = keeps_context s s'"
  by (simp add: keeps_context_def)

lemma cycle_step_keeps: "cycle_step s s' \<Longrightarrow> keeps_context s s'"
proof (induction rule: cycle_step.induct)
  case (step_Start env s inp s' c)
  then show ?case by (elim StartE) (blast intro: keeps_context_trans cycle_table_keeps dest: AppendEvent_keeps)
next
  case (step_Terminate env s i status reason actor s' c)
  then show ?case by (elim TerminateE) (auto intro: keeps_context_trans cycle_table_keeps dest: AppendEvent_keeps)
next
  case (step_StartPhase env s i ph actor s' p)
  then show ?case
    by (elim StartPhaseE) (metis AppendEvent_keeps cycle_table_keeps(2,4) keeps_context_trans)
next
  case (step_CompletePhase env s inp s' p)
  then show ?case
    by (elim CompletePhaseE)
       (auto simp: keeps_context_phases dest!: AppendEvent_keeps intro: keeps_context_trans[OF _ cycle_table_keeps(2)])
next
  case (step_AppendStreamEvent env s inp s' e)
  then show ?case by (elim AppendStreamEventE) (auto dest!: insert_streamD(1))
qed

section \<open>Patches and the task operations\<close>

definition patch_keeps :: "patch_state \<Rightarrow> patch_state \<Rightarrow> bool" where
  "patch_keeps st st' \<longleftrightarrow> keeps_context (fst st) (fst st')"

lemma patch_keeps_trans: "patch_keeps a b \<Longrightarrow> patch_keeps b c \<Longrightarrow> patch_keeps a c"
  using keeps_context_trans by (auto simp: patch_keeps_def)

lemma append_patch_event_keeps: "append_patch_event at i by typ f t upd st = Inr st' \<Longrightarrow> patch_keeps st st'"
  by (auto simp: append_patch_event_def patch_keeps_def split: prod.splits dest: AppendEvent_keeps)

lemma event_patches_keep:
  "applyTitlePatch at i by a st = Inr st' \<Longrightarrow> patch_keeps st st'"
  "applyInitialPromptPatch at i by b st = Inr st' \<Longrightarrow> patch_keeps st st'"
  "applyPriorityPatch at i by c st = Inr st' \<Longrightarrow> patch_keeps st st'"
  "applyStatusPatch at i by d st = Inr st' \<Longrightarrow> patch_keeps st st'"
  by (auto simp: applyTitlePatch_def applyInitialPromptPatch_def applyPriorityPatch_def applyStatusPatch_def Let_def patch_keeps_def
      split: option.splits if_splits prod.splits dest!: append_patch_event_keeps AppendEvent_keeps)

lemma table_patches_keep:
  "applyProjectPatch p st = Inr st' \<Longrightarrow> patch_keeps st st'"
  "applyProjectContextSelectionPatch ids st = Inr st' \<Longrightarrow> patch_keeps st st'"
  "applyDependsOnPatch now i es st = Inr st' \<Longrightarrow> patch_keeps st st'"
  "on_cur f st = Inr st' \<Longrightarrow> patch_keeps st st'"
  by (auto simp: applyProjectPatch_def applyProjectContextSelectionPatch_def applyDependsOnPatch_def on_cur_def Let_def patch_keeps_def
      split: option.splits if_splits prod.splits dest!: setDependenciesInTx_frame)

lemmas patches_keep = event_patches_keep table_patches_keep

lemma rbind_patch:
  assumes "rbind r f = Inr z" "\<And>x. r = Inr x \<Longrightarrow> patch_keeps st x" "\<And>x. f x = Inr z \<Longrightarrow> patch_keeps x z"
  shows "patch_keeps st z"
  using assms patch_keeps_trans unfolding rbind_Inr_iff by metis

lemma applyTaskPatches_keep: "applyTaskPatches env i inp by st = Inr st' \<Longrightarrow> patch_keeps st st'"
  unfolding applyTaskPatches_def by ((erule rbind_patch, erule patches_keep)+, erule patches_keep)

lemma Task_Update_keeps: "Task_Update env s i inp by = Inr (s', t, prev) \<Longrightarrow> keeps_context s s'"
  by (elim Task_UpdateE) (auto simp: patch_keeps_def dest!: applyTaskPatches_keep intro: keeps_context_trans save_task_keeps)

lemma AgentPickup_keeps: "AgentPickup env s i by = Inr (s', r) \<Longrightarrow> keeps_context s s'"
  by (elim AgentPickupE) (auto simp: patch_keeps_def dest!: event_patches_keep(4) intro: keeps_context_trans save_task_keeps)

lemma RequestTaskRetry_keeps: "RequestTaskRetry env s inp by = Inr (s', t, prev) \<Longrightarrow> keeps_context s s'"
  by (elim RequestTaskRetryE)
     (auto simp: patch_keeps_def dest!: event_patches_keep(4) AppendEvent_keeps;
       blast intro: keeps_context_trans save_task_keeps)

lemma ApplyTaskGateAction_keeps: "ApplyTaskGateAction env s i a by = Inr (s', r) \<Longrightarrow> keeps_context s s'"
  by (cases r) (auto simp: ApplyTaskGateAction_def Let_def if_Inl_Inr_iff dest!: Task_Update_keeps split: option.splits)

lemma seed_items_keeps: "seed_items at iid cid k m n s t items by = Inr s' \<Longrightarrow> keeps_context s s'"
proof (induction items arbitrary: k m n s)
  case (Cons raw items)
  show ?case
  proof (cases "trim_space (ccii_Text raw) = []")
    case False
    with Cons.prems obtain cmds s1 s2 s3 it where "insert_item s it = Inr s1"
      "(if 0 < length cmds then replaceCommandsInTx (cid k) s1 (ci_ID it) cmds else Inr s1) = Inr s2"
      "AppendEvent at s2 t n EventChecklistItemAdded by (item_text_json (ci_ID it) (ci_Text it)) = Inr s3"
      "seed_items at iid cid (Suc k) (m + 1) (n + 1) s3 t items by = Inr s'"
      by (auto simp: Let_def)
    then show ?thesis using Cons.IH keeps_context_trans keeps_frames by (metis (no_types, lifting) sum.inject(2))
  qed (use Cons in simp)
qed simp

lemma Seed_keeps: "SeedDefinitionItemsAtCreateInTx at iid cid s t items by = Inr s' \<Longrightarrow> keeps_context s s'"
  by (auto simp: SeedDefinitionItemsAtCreateInTx_def Let_def if_Inl_Inr_iff dest: seed_items_keeps split: if_splits)

lemma delete_draft_keeps: "keeps_context s (delete_draft s i)"
  by (simp add: delete_draft_def Let_def)

lemma Task_Create_keeps:
  assumes "Task_Create env iid cid s inp by = Inr (s', t)"
  shows "keeps_context s s'"
proof -
  from assms obtain t0 t1 where "createTaskInTx env iid cid s t0 inp by = Inr (s', t1)" by (elim Task_CreateE)
  then obtain r s1 s2 s4 where a: "map_task_insert_error (insert_task s r) = Inr s1"
    "(if 0 < length (cin_DependsOn inp) then setDependenciesInTx (tx_now env) s1 (task_ID t0) (cin_DependsOn inp) else Inr s1) = Inr s2"
    "AppendEvent (tx_evnow env) (delete_draft s2 (cin_DraftID inp)) (task_ID t0) 1 EventTaskCreated by PBlank = Inr s4"
    "(if 0 < length (cin_ChecklistItems inp)
      then SeedDefinitionItemsAtCreateInTx (tx_evnow env) iid cid s4 (task_ID t0) (cin_ChecklistItems inp) by else Inr s4) = Inr s'"
    by (elim createTaskInTxE)
  have "keeps_context s s1" using insert_taskD(1)[OF a(1)] by simp
  moreover have "keeps_context s1 s2" using a(2) setDependenciesInTx_keeps by (auto split: if_splits)
  moreover have "keeps_context s2 s4" using AppendEvent_keeps[OF a(3)] delete_draft_keeps keeps_context_trans by blast
  moreover have "keeps_context s4 s'" using a(4) Seed_keeps by (auto split: if_splits)
  ultimately show ?thesis using keeps_context_trans by blast
qed

section \<open>Over every step\<close>

lemma store_step_keeps:
  assumes "store_step s s'"
  shows "keeps_context s s' \<or> (\<exists>i a ids. Task_Delete s i a = Inr (s', ids))"
  using assms
proof cases
  case (update_task env i upd actor r)
  then show ?thesis by (cases r) (auto dest: Task_Update_keeps)
next
  case (request_retry env rri actor r)
  then show ?thesis by (cases r) (auto dest: RequestTaskRetry_keeps)
qed (blast dest: Task_Create_keeps AgentPickup_keeps ApplyTaskGateAction_keeps dependency_keeps event_keeps cycle_step_keeps
       Checklist_Add_keeps Checklist_Delete_keeps Checklist_UpdateText_keeps Checklist_SetDone_keeps SetDoneWithEvidence_keeps
       ReplaceVerifyCommands_keeps)+

end
