(* ===== verification/Named_Payloads.thy ===== *)
theory Named_Payloads
  imports Store_Tasks
begin

text \<open>
  Drafts and templates (\<^verbatim>\<open>pkgs/tasks/store/internal/namedpayload\<close>, \<^verbatim>\<open>drafts\<close>, \<^verbatim>\<open>templates\<close>): named JSON objects that are
  saved by identifier, listed, searched and patched. A save is two statements without a transaction; \<open>mid\<close> is what
  other clients do to the table between them. \<open>lower\<close> is \<^verbatim>\<open>LOWER\<close> of the database and \<open>to_lower\<close> Go's
  \<^verbatim>\<open>strings.ToLower\<close>, both beyond ASCII by their own tables.
\<close>

record payload_summary =
  pls_ID :: string
  pls_Name :: string
  pls_UpdatedAt :: gotime
  pls_CreatedAt :: gotime

record payload_detail =
  pld_ID :: string
  pld_Name :: string
  pld_Payload :: "(string \<times> json) list"
  pld_UpdatedAt :: gotime
  pld_CreatedAt :: gotime

definition clampLimit :: "int \<Rightarrow> nat" where
  "clampLimit l = (if l \<le> 0 then 50 else if l > 100 then 100 else nat l)"

definition summary_of :: "named_row \<Rightarrow> payload_summary" where
  "summary_of r = \<lparr>pls_ID = nr_ID r, pls_Name = nr_Name r, pls_UpdatedAt = nr_UpdatedAt r, pls_CreatedAt = nr_CreatedAt r\<rparr>"

definition detail_of :: "named_row \<Rightarrow> payload_detail" where
  "detail_of r = \<lparr>pld_ID = nr_ID r, pld_Name = nr_Name r, pld_Payload = nr_Payload r, pld_UpdatedAt = nr_UpdatedAt r,
     pld_CreatedAt = nr_CreatedAt r\<rparr>"

section \<open>Saving\<close>

definition FirstOrCreate :: "named_row \<Rightarrow> named_row list \<Rightarrow> named_row list \<times> named_row" where
  "FirstOrCreate row rows =
     (case List.find (\<lambda>r. nr_ID r = nr_ID row) rows of Some old \<Rightarrow> (rows, old) | None \<Rightarrow> (rows @ [row], row))"

definition Updates :: "string \<Rightarrow> (named_row \<Rightarrow> named_row) \<Rightarrow> named_row list \<Rightarrow> named_row list" where
  "Updates i f rows = update_where (\<lambda>r. nr_ID r = i) f rows"

definition saveRow ::
  "txenv \<Rightarrow> string \<Rightarrow> (named_row list \<Rightarrow> named_row list) \<Rightarrow> named_row list \<Rightarrow> string \<Rightarrow> string \<Rightarrow> payload \<Rightarrow>
     (named_row list \<times> payload_summary) res" where
  "saveRow env nameRequiredMsg mid rows id0 name0 payload0 =
     (let i = ResolveID (tx_uuid env) id0; name = trim_space name0 in
      if name = [] then Inl (ErrInvalidInput nameRequiredMsg)
      else rbind (NormalizeJSONObject payload0 ''payload'') (\<lambda>payload.
           let now = tx_now env;
               (rows1, row) = FirstOrCreate \<lparr>nr_ID = i, nr_Name = name, nr_Payload = payload, nr_CreatedAt = now, nr_UpdatedAt = now\<rparr> rows;
               rows2 = Updates i (\<lambda>r. r\<lparr>nr_Name := name, nr_Payload := payload, nr_UpdatedAt := now\<rparr>) (mid rows1)
           in Inr (rows2, \<lparr>pls_ID = i, pls_Name = name, pls_UpdatedAt = now, pls_CreatedAt = nr_CreatedAt row\<rparr>)))"

definition SaveDraft ::
  "txenv \<Rightarrow> (named_row list \<Rightarrow> named_row list) \<Rightarrow> db \<Rightarrow> string \<Rightarrow> string \<Rightarrow> payload \<Rightarrow> (db \<times> payload_summary) res" where
  "SaveDraft env mid s i name p =
     rbind (saveRow env ''draft name required'' mid (db_drafts s) i name p) (\<lambda>(rows, x). Inr (s\<lparr>db_drafts := rows\<rparr>, x))"

definition SaveTemplate ::
  "txenv \<Rightarrow> (named_row list \<Rightarrow> named_row list) \<Rightarrow> db \<Rightarrow> string \<Rightarrow> string \<Rightarrow> payload \<Rightarrow> (db \<times> payload_summary) res" where
  "SaveTemplate env mid s i name p =
     rbind (saveRow env ''template name required'' mid (db_templates s) i name p) (\<lambda>(rows, x). Inr (s\<lparr>db_templates := rows\<rparr>, x))"

section \<open>Reading and deleting\<close>

definition get_row :: "named_row list \<Rightarrow> string \<Rightarrow> payload_detail res" where
  "get_row rows id0 =
     (let i = trim_space id0 in
      if i = [] then Inl (ErrInvalidInput ''id'')
      else case List.find (\<lambda>r. nr_ID r = i) rows of None \<Rightarrow> Inl ErrNotFound | Some r \<Rightarrow> Inr (detail_of r))"

definition GetDraft :: "db \<Rightarrow> string \<Rightarrow> payload_detail res" where
  "GetDraft s i = get_row (db_drafts s) i"

definition GetTemplate :: "db \<Rightarrow> string \<Rightarrow> payload_detail res" where
  "GetTemplate s i = get_row (db_templates s) i"

definition deleteByID :: "named_row list \<Rightarrow> string \<Rightarrow> named_row list res" where
  "deleteByID rows id0 =
     (let i = trim_space id0 in
      if i = [] then Inl (ErrInvalidInput ''id'')
      else if \<not> list_ex (\<lambda>r. nr_ID r = i) rows then Inl ErrNotFound
      else Inr (filter (\<lambda>r. nr_ID r \<noteq> i) rows))"

definition DeleteDraft :: "db \<Rightarrow> string \<Rightarrow> db res" where
  "DeleteDraft s i = rbind (deleteByID (db_drafts s) i) (\<lambda>rows. Inr (s\<lparr>db_drafts := rows\<rparr>))"

definition DeleteTemplate :: "db \<Rightarrow> string \<Rightarrow> db res" where
  "DeleteTemplate s i = rbind (deleteByID (db_templates s) i) (\<lambda>rows. Inr (s\<lparr>db_templates := rows\<rparr>))"

text \<open>\<open>Patch\<close> reads, updates and reads again (\<^verbatim>\<open>templates.go\<close>).\<close>

definition patch_updates :: "txenv \<Rightarrow> string option \<Rightarrow> (string \<times> json) list option \<Rightarrow> named_row \<Rightarrow> named_row" where
  "patch_updates env name payload r =
     r\<lparr>nr_UpdatedAt := tx_now env,
       nr_Name := (case name of None \<Rightarrow> nr_Name r | Some n \<Rightarrow> trim_space n),
       nr_Payload := (case payload of None \<Rightarrow> nr_Payload r | Some x \<Rightarrow> x)\<rparr>"

definition PatchTemplate :: "txenv \<Rightarrow> db \<Rightarrow> string \<Rightarrow> string option \<Rightarrow> payload option \<Rightarrow> (db \<times> payload_detail) res" where
  "PatchTemplate env s id0 name payload0 =
     (let i = trim_space id0 in
      if i = [] then Inl (ErrInvalidInput ''id'')
      else if name = None \<and> payload0 = None then Inl (ErrInvalidInput ''no fields to update'')
      else if \<not> list_ex (\<lambda>r. nr_ID r = i) (db_templates s) then Inl ErrNotFound
      else if (case name of None \<Rightarrow> False | Some n \<Rightarrow> trim_space n = []) then Inl (ErrInvalidInput ''template name required'')
      else rbind (case payload0 of None \<Rightarrow> Inr None | Some p \<Rightarrow> rbind (NormalizeJSONObject p ''payload'') (\<lambda>x. Inr (Some x))) (\<lambda>payload.
           let s' = s\<lparr>db_templates := Updates i (patch_updates env name payload) (db_templates s)\<rparr>
           in rbind (GetTemplate s' i) (\<lambda>d. Inr (s', d))))"

section \<open>Listing and searching\<close>

definition ListDrafts :: "db \<Rightarrow> int \<Rightarrow> payload_summary list" where
  "ListDrafts s limit = map summary_of (take (clampLimit limit) (sort_key (\<lambda>r. - nr_UpdatedAt r) (db_drafts s)))"

definition replace_char :: "char \<Rightarrow> string \<Rightarrow> string \<Rightarrow> string" where
  "replace_char c w s = concat (map (\<lambda>x. if x = c then w else [x]) s)"

definition backslash :: char where "backslash = CHR 0x5C"

definition escapeLike :: "string \<Rightarrow> string" where
  "escapeLike s0 =
     (let s1 = replace_char backslash [backslash, backslash] s0;
          s2 = replace_char (CHR ''%'') [backslash, CHR ''%''] s1;
          s3 = replace_char (CHR ''_'') [backslash, CHR ''_''] s2
      in s3)"

text \<open>
  \<^verbatim>\<open>LIKE\<close>: a percent sign stands for any text, an underscore for one character, a backslash takes the next
  character literally; None is the error of a pattern that ends in a backslash.
\<close>

function like :: "string \<Rightarrow> string \<Rightarrow> bool option" where
  "like [] t = Some (t = [])"
| "like (p # ps) t =
     (if p = CHR ''%'' then
        (case like ps t of
           None \<Rightarrow> None
         | Some True \<Rightarrow> Some True
         | Some False \<Rightarrow> (case t of [] \<Rightarrow> Some False | _ # t' \<Rightarrow> like (p # ps) t'))
      else if p = CHR ''_'' then (case t of [] \<Rightarrow> Some False | _ # t' \<Rightarrow> like ps t')
      else if p = backslash then
        (case ps of
           [] \<Rightarrow> None
         | c # ps' \<Rightarrow> (case t of [] \<Rightarrow> Some False | x # t' \<Rightarrow> if x = c then like ps' t' else Some False))
      else (case t of [] \<Rightarrow> Some False | x # t' \<Rightarrow> if x = p then like ps t' else Some False))"
  by pat_completeness auto
termination
  by (relation "measure (\<lambda>(p, t). length p + length t)") auto

fun where_like :: "(string \<Rightarrow> string) \<Rightarrow> string \<Rightarrow> named_row list \<Rightarrow> named_row list res" where
  "where_like lower p [] = Inr []"
| "where_like lower p (r # rs) =
     (case like p (lower (nr_Name r)) of
        None \<Rightarrow> Inl (ErrDB ''LIKE pattern must not end with escape character'')
      | Some b \<Rightarrow> rbind (where_like lower p rs) (\<lambda>xs. Inr (if b then r # xs else xs)))"

text \<open>The database refuses a text argument with a NUL byte. (It refuses invalid UTF-8 as well, but
  \<^verbatim>\<open>strings.ToLower\<close>, the argument \<open>to_lower\<close>, has already replaced it.)\<close>

definition text_refused :: "string \<Rightarrow> bool" where
  "text_refused t \<longleftrightarrow> CHR 0x00 \<in> set t"

definition ListTemplates :: "(string \<Rightarrow> string) \<Rightarrow> (string \<Rightarrow> string) \<Rightarrow> db \<Rightarrow> int \<Rightarrow> string \<Rightarrow> payload_summary list res" where
  "ListTemplates lower to_lower s limit q0 =
     (let q = trim_space q0;
          page = (\<lambda>rows. map summary_of (take (clampLimit limit) (sort_key (\<lambda>r. - nr_UpdatedAt r) rows)))
      in if q \<noteq> [] then
           let pat = ''%'' @ escapeLike (to_lower q) @ ''%'' in
           if text_refused pat then Inl (ErrDB ''list templates: invalid byte sequence'')
           else rbind (where_like lower pat (db_templates s)) (\<lambda>rows. Inr (page rows))
         else Inr (page (db_templates s)))"

end
