(* ===== verification/Payload_Properties.thy ===== *)
theory Payload_Properties
  imports Named_Payloads Store_System "HOL-Library.Sublist"
begin

text \<open>
  Drafts and templates: what was saved is read back, searching finds exactly the names that contain the text,
  identifiers stay unique, and a save can be lost between its two statements.
\<close>

section \<open>Searching\<close>

definition escape_char :: "char \<Rightarrow> string" where
  "escape_char c = (if c \<in> {backslash, CHR ''%'', CHR ''_''} then [backslash, c] else [c])"

lemma replace_char_append: "replace_char c w (s @ t) = replace_char c w s @ replace_char c w t"
  by (simp add: replace_char_def)

lemma escapeLike_Cons: "escapeLike (c # s) = escape_char c @ escapeLike s"
  by (simp add: escapeLike_def escape_char_def replace_char_def backslash_def)

lemma escapeLike_Nil: "escapeLike [] = []"
  by (simp add: escapeLike_def replace_char_def)

text \<open>An escaped text matches itself, character by character.\<close>

lemma like_escape:
  "like (escapeLike q @ p) t = (if prefix q t then like p (drop (length q) t) else Some False)"
proof (induction q arbitrary: t)
  case Nil
  then show ?case by (simp add: escapeLike_Nil)
next
  case (Cons c q)
  have "like (escape_char c @ x) t = (case t of [] \<Rightarrow> Some False | y # t' \<Rightarrow> if y = c then like x t' else Some False)" for x
    by (auto simp: escape_char_def backslash_def split: list.splits)
  then show ?case using Cons.IH by (auto simp: escapeLike_Cons split: list.splits)
qed

lemma like_percent_end: "like ''%'' t = Some True"
  by (induction t) simp_all

lemma like_contains: "like (CHR ''%'' # escapeLike q @ ''%'') t = Some (sublist q t)"
proof (induction t)
  case Nil
  then show ?case by (auto simp: like_escape like_percent_end)
next
  case (Cons x t)
  have "like (escapeLike q @ ''%'') (x # t) = Some (prefix q (x # t))"
    by (simp add: like_escape like_percent_end del: like.simps)
  then show ?case using Cons.IH by (subst like.simps) (simp add: sublist_Cons_right del: like.simps split: bool.split)
qed

lemma where_like_total: "(\<And>r. r \<in> set rs \<Longrightarrow> like p (lower (nr_Name r)) = Some (P r)) \<Longrightarrow> where_like lower p rs = Inr (filter P rs)"
  by (induction rs) (simp_all add: rbind_def)

lemma text_refused_escapeLike: "text_refused (CHR ''%'' # escapeLike q @ ''%'') \<longleftrightarrow> CHR 0x00 \<in> set q"
  by (induction q) (auto simp: text_refused_def escapeLike_Nil escapeLike_Cons escape_char_def backslash_def)

text \<open>C35. Searching the templates fails only when the text searched for, in lower case, has a NUL byte, which the
  database refuses. Otherwise it gives the most recently updated ones whose name, in lower case, contains that
  text, wherever its percent signs, underscores and backslashes stand.\<close>

theorem template_search_exact:
  "ListTemplates lower to_lower s limit q =
     (if trim_space q \<noteq> [] \<and> CHR 0x00 \<in> set (to_lower (trim_space q))
      then Inl (ErrDB ''list templates: invalid byte sequence'')
      else Inr (map summary_of (take (clampLimit limit) (sort_key (\<lambda>r. - nr_UpdatedAt r)
       (filter (\<lambda>r. trim_space q = [] \<or> sublist (to_lower (trim_space q)) (lower (nr_Name r))) (db_templates s))))))"
proof (cases "trim_space q = []")
  case True
  then show ?thesis by (simp add: ListTemplates_def)
next
  case False
  have "where_like lower (''%'' @ escapeLike (to_lower (trim_space q)) @ ''%'') (db_templates s) =
      Inr (filter (\<lambda>r. sublist (to_lower (trim_space q)) (lower (nr_Name r))) (db_templates s))"
    using like_contains by (intro where_like_total) simp
  then show ?thesis using False by (simp add: ListTemplates_def rbind_def Let_def text_refused_escapeLike)
qed

section \<open>Saving\<close>

definition named_ok :: "named_row list \<Rightarrow> bool" where
  "named_ok rows \<longleftrightarrow> distinct (map nr_ID rows) \<and> (\<forall>r\<in>set rows. nr_Name r \<noteq> [])"

definition payloads_ok :: "db \<Rightarrow> bool" where
  "payloads_ok s \<longleftrightarrow> named_ok (db_drafts s) \<and> named_ok (db_templates s)"

lemma find_append: "List.find P (xs @ ys) = (case List.find P xs of None \<Rightarrow> List.find P ys | Some x \<Rightarrow> Some x)"
  by (induction xs) simp_all

lemma FirstOrCreate_find:
  "List.find (\<lambda>r. nr_ID r = nr_ID x) (fst (FirstOrCreate x rows)) = Some (snd (FirstOrCreate x rows))"
  by (auto simp: FirstOrCreate_def find_append split: option.splits)

lemma find_update_same:
  "(\<And>r. nr_ID (f r) = nr_ID r) \<Longrightarrow>
     List.find (\<lambda>r. nr_ID r = j) (Updates i f rows) =
       map_option (\<lambda>r. if i = j then f r else r) (List.find (\<lambda>r. nr_ID r = j) rows)"
  by (induction rows) (auto simp: Updates_def update_where_def)

lemma map_ID_Updates: "(\<And>r. nr_ID (f r) = nr_ID r) \<Longrightarrow> map nr_ID (Updates i f rows) = map nr_ID rows"
  by (simp add: Updates_def update_where_def)

lemma saveRowE:
  assumes "saveRow env msg mid rows i name p = Inr (rows', x)"
  obtains pl row where "NormalizeJSONObject p ''payload'' = Inr pl" "trim_space name \<noteq> []"
    "row = \<lparr>nr_ID = ResolveID (tx_uuid env) i, nr_Name = trim_space name, nr_Payload = pl, nr_CreatedAt = tx_now env, nr_UpdatedAt = tx_now env\<rparr>"
    "rows' = Updates (nr_ID row) (\<lambda>r. r\<lparr>nr_Name := nr_Name row, nr_Payload := pl, nr_UpdatedAt := tx_now env\<rparr>) (mid (fst (FirstOrCreate row rows)))"
    "x = \<lparr>pls_ID = nr_ID row, pls_Name = nr_Name row, pls_UpdatedAt = tx_now env, pls_CreatedAt = nr_CreatedAt (snd (FirstOrCreate row rows))\<rparr>"
  using assms by (auto simp: saveRow_def Let_def rbind_Inr_iff case_prod_beta split: if_splits)

lemma named_ok_Updates:
  "named_ok rows \<Longrightarrow> (\<And>r. nr_ID (f r) = nr_ID r) \<Longrightarrow> (\<And>r. nr_Name r \<noteq> [] \<Longrightarrow> nr_Name (f r) \<noteq> []) \<Longrightarrow> named_ok (Updates i f rows)"
  using map_ID_Updates[of f i rows] unfolding named_ok_def by (auto simp: Updates_def update_where_def simp del: map_map)

lemma saveRow_ok:
  assumes "named_ok rows" "saveRow env msg id rows i name p = Inr (rows', x)"
  shows "named_ok rows'"
  using assms(2)
proof (rule saveRowE)
  fix pl row
  assume n: "trim_space name \<noteq> []"
    and row: "row = \<lparr>nr_ID = ResolveID (tx_uuid env) i, nr_Name = trim_space name, nr_Payload = pl, nr_CreatedAt = tx_now env, nr_UpdatedAt = tx_now env\<rparr>"
    and rows: "rows' = Updates (nr_ID row) (\<lambda>r. r\<lparr>nr_Name := nr_Name row, nr_Payload := pl, nr_UpdatedAt := tx_now env\<rparr>) (id (fst (FirstOrCreate row rows)))"
  have "nr_Name row \<noteq> []" using n by (simp add: row)
  then have "named_ok (fst (FirstOrCreate row rows))"
    using assms(1) by (auto simp: FirstOrCreate_def named_ok_def find_None_iff split: option.splits)
  then show ?thesis unfolding rows id_apply by (rule named_ok_Updates) (simp_all add: row n)
qed

lemma deleteByID_ok: "named_ok rows \<Longrightarrow> deleteByID rows i = Inr rows' \<Longrightarrow> named_ok rows'"
  by (auto simp: deleteByID_def named_ok_def distinct_map_filter Let_def split: if_splits)

text \<open>C36. A draft that was saved is read back with the name trimmed, the payload as an object and the instant of
  the save; it keeps the instant it was first created at, and every other draft is what it was.\<close>

theorem draft_save_get:
  assumes "uuid_ok env" "SaveDraft env id s i name p = Inr (s', x)"
  shows "\<exists>pl. NormalizeJSONObject p ''payload'' = Inr pl \<and> pls_ID x = ResolveID (tx_uuid env) i \<and>
    GetDraft s' (pls_ID x) = Inr \<lparr>pld_ID = pls_ID x, pld_Name = trim_space name, pld_Payload = pl, pld_UpdatedAt = tx_now env,
      pld_CreatedAt = (case GetDraft s (pls_ID x) of Inr d \<Rightarrow> pld_CreatedAt d | Inl _ \<Rightarrow> tx_now env)\<rparr> \<and>
    (\<forall>j. trim_space j \<noteq> pls_ID x \<longrightarrow> GetDraft s' j = GetDraft s j)"
proof -
  from assms(2) obtain rows where w: "saveRow env ''draft name required'' id (db_drafts s) i name p = Inr (rows, x)"
    and s': "s' = s\<lparr>db_drafts := rows\<rparr>" by (auto simp: SaveDraft_def rbind_Inr_iff)
  from w obtain pl row where pl: "NormalizeJSONObject p ''payload'' = Inr pl"
    and row: "row = \<lparr>nr_ID = ResolveID (tx_uuid env) i, nr_Name = trim_space name, nr_Payload = pl, nr_CreatedAt = tx_now env, nr_UpdatedAt = tx_now env\<rparr>"
    and rows: "rows = Updates (nr_ID row) (\<lambda>r. r\<lparr>nr_Name := nr_Name row, nr_Payload := pl, nr_UpdatedAt := tx_now env\<rparr>) (fst (FirstOrCreate row (db_drafts s)))"
    and x: "x = \<lparr>pls_ID = nr_ID row, pls_Name = nr_Name row, pls_UpdatedAt = tx_now env, pls_CreatedAt = nr_CreatedAt (snd (FirstOrCreate row (db_drafts s)))\<rparr>"
    by (elim saveRowE) simp
  have i: "trim_space (nr_ID row) = nr_ID row" "nr_ID row \<noteq> []" using ResolveID_ok[OF assms(1), of i] by (simp_all add: row)
  let ?c = "snd (FirstOrCreate row (db_drafts s))"
  have find: "List.find (\<lambda>r. nr_ID r = j) rows =
      map_option (\<lambda>r. if nr_ID row = j then r\<lparr>nr_Name := nr_Name row, nr_Payload := pl, nr_UpdatedAt := tx_now env\<rparr> else r)
        (List.find (\<lambda>r. nr_ID r = j) (fst (FirstOrCreate row (db_drafts s))))" for j
    unfolding rows by (rule find_update_same) simp
  have created: "nr_CreatedAt ?c = (case GetDraft s (nr_ID row) of Inr d \<Rightarrow> pld_CreatedAt d | Inl _ \<Rightarrow> tx_now env) \<and> nr_ID ?c = nr_ID row"
  proof (cases "List.find (\<lambda>r. nr_ID r = nr_ID row) (db_drafts s)")
    case None
    then show ?thesis using i by (simp add: GetDraft_def get_row_def FirstOrCreate_def) (simp add: row)
  next
    case (Some old)
    moreover from Some have "nr_ID old = nr_ID row" by (auto simp: find_Some_iff)
    ultimately show ?thesis using i by (simp add: GetDraft_def get_row_def FirstOrCreate_def detail_of_def)
  qed
  then have c: "nr_CreatedAt ?c = (case GetDraft s (nr_ID row) of Inr d \<Rightarrow> pld_CreatedAt d | Inl _ \<Rightarrow> tx_now env)" "nr_ID ?c = nr_ID row"
    using i created by simp_all
  have "GetDraft s' (nr_ID row) = Inr (detail_of (?c\<lparr>nr_Name := nr_Name row, nr_Payload := pl, nr_UpdatedAt := tx_now env\<rparr>))"
    using i find[of "nr_ID row"] FirstOrCreate_find[of row "db_drafts s"] by (simp add: GetDraft_def get_row_def s')
  moreover have "GetDraft s' j = GetDraft s j" if "trim_space j \<noteq> nr_ID row" for j
  proof -
    have "List.find (\<lambda>r. nr_ID r = trim_space j) rows = List.find (\<lambda>r. nr_ID r = trim_space j) (db_drafts s)"
      using that find[of "trim_space j"] by (auto simp: FirstOrCreate_def find_append option.map_ident split: option.splits)
    then show ?thesis by (simp add: GetDraft_def get_row_def s' Let_def)
  qed
  ultimately show ?thesis using pl c by (simp add: x detail_of_def row)
qed

theorem draft_save_get_witness:
  "\<exists>s x. SaveDraft (sample_env ''u'') id empty_db [] '' plan '' PBlank = Inr (s, x) \<and>
     GetDraft s ''u'' = Inr \<lparr>pld_ID = ''u'', pld_Name = ''plan'', pld_Payload = [], pld_UpdatedAt = tx_now (sample_env ''u''), pld_CreatedAt = tx_now (sample_env ''u'')\<rparr>"
proof -
  have t: "trim_space '' plan '' = ''plan'' \<and> trim_space ''u'' = ''u'' \<and> uuid_ok (sample_env ''u'')" by code_simp
  obtain s x where w: "SaveDraft (sample_env ''u'') id empty_db [] '' plan '' PBlank = Inr (s, x)"
    using t by (simp add: SaveDraft_def saveRow_def NormalizeJSONObject_def rbind_def FirstOrCreate_def Let_def empty_db_def)
  show ?thesis
    using draft_save_get[OF conjunct2[OF conjunct2[OF t]] w] t w
    by (auto simp: NormalizeJSONObject_def ResolveID_def GetDraft_def get_row_def empty_db_def sample_env_def Let_def)
qed

text \<open>C37. The two statements of a save are not one transaction: when another client deletes the draft between them, the
  second one changes no row, and the save answers as if it had stored the draft, which is gone.\<close>

theorem draft_save_lost:
  assumes "uuid_ok env" "trim_space name \<noteq> []" "NormalizeJSONObject p ''payload'' = Inr pl"
  shows "\<exists>s' x. SaveDraft env (\<lambda>rows. case deleteByID rows (ResolveID (tx_uuid env) i) of Inr rs \<Rightarrow> rs | Inl _ \<Rightarrow> rows) s i name p = Inr (s', x) \<and>
    pls_ID x = ResolveID (tx_uuid env) i \<and> pls_Name x = trim_space name \<and> GetDraft s' (pls_ID x) = Inl ErrNotFound"
proof -
  let ?i = "ResolveID (tx_uuid env) i"
  let ?mid = "\<lambda>rows. case deleteByID rows ?i of Inr rs \<Rightarrow> rs | Inl _ \<Rightarrow> rows"
  have i: "trim_space ?i = ?i" "?i \<noteq> []" using ResolveID_ok[OF assms(1), of i] by simp_all
  have gone: "?i \<notin> nr_ID ` set (?mid rows)" for rows
    using i by (auto simp: deleteByID_def list_ex_iff Let_def)
  have "List.find (\<lambda>r. nr_ID r = ?i) (Updates ?i f (?mid rows)) = None" if "\<And>r. nr_ID (f r) = nr_ID r" for f rows
  proof -
    have "List.find (\<lambda>r. nr_ID r = ?i) (?mid rows) = None" using gone[of rows] unfolding find_None_iff by (metis image_eqI)
    then show ?thesis by (subst find_update_same[OF that]) simp
  qed
  then show ?thesis
    using assms(2,3) i by (auto simp: SaveDraft_def saveRow_def rbind_def Let_def case_prod_beta GetDraft_def get_row_def)
qed

theorem draft_save_lost_witness:
  "\<exists>s x. SaveDraft (sample_env ''u'') (\<lambda>rows. case deleteByID rows ''u'' of Inr rs \<Rightarrow> rs | Inl _ \<Rightarrow> rows) empty_db [] '' plan '' PBlank = Inr (s, x) \<and>
     pls_Name x = ''plan'' \<and> GetDraft s (pls_ID x) = Inl ErrNotFound"
proof -
  have t: "trim_space '' plan '' = ''plan'' \<and> uuid_ok (sample_env ''u'') \<and> ResolveID (tx_uuid (sample_env ''u'')) [] = ''u''" by code_simp
  then show ?thesis
    using draft_save_lost[of "sample_env ''u''" "'' plan ''" PBlank "[]" "[]" empty_db] by (auto simp: NormalizeJSONObject_def)
qed

section \<open>Every write\<close>

inductive payload_step :: "db \<Rightarrow> db \<Rightarrow> bool" where
  draft_saved: "SaveDraft env id s i name p = Inr (s', x) \<Longrightarrow> payload_step s s'"
| template_saved: "SaveTemplate env id s i name p = Inr (s', x) \<Longrightarrow> payload_step s s'"
| draft_deleted: "DeleteDraft s i = Inr s' \<Longrightarrow> payload_step s s'"
| template_deleted: "DeleteTemplate s i = Inr s' \<Longrightarrow> payload_step s s'"
| template_patched: "PatchTemplate env s i n pl = Inr (s', d) \<Longrightarrow> payload_step s s'"

lemma PatchTemplateE:
  assumes "PatchTemplate env s i n pl = Inr (s', d)"
  obtains x where "s' = s\<lparr>db_templates := Updates (trim_space i) (patch_updates env n x) (db_templates s)\<rparr>"
    "\<not> (case n of None \<Rightarrow> False | Some n \<Rightarrow> trim_space n = [])"
  using assms unfolding PatchTemplate_def Let_def rbind_Inr_iff if_Inl_Inr_iff by blast

lemma payload_step_tables:
  assumes "payload_step s s'"
  shows "s' = s\<lparr>db_drafts := db_drafts s', db_templates := db_templates s'\<rparr>"
  using assms
proof (induction rule: payload_step.induct)
  case (template_patched env s i n pl s' d)
  then show ?case by (elim PatchTemplateE) (simp add: db.equality)
qed (auto simp: SaveDraft_def SaveTemplate_def DeleteDraft_def DeleteTemplate_def rbind_Inr_iff db.equality)

lemma payload_step_ok: "payload_step s s' \<Longrightarrow> payloads_ok s \<Longrightarrow> payloads_ok s'"
proof (induction rule: payload_step.induct)
  case (template_patched env s i n pl s' d)
  then obtain x where s': "s' = s\<lparr>db_templates := Updates (trim_space i) (patch_updates env n x) (db_templates s)\<rparr>"
    and n: "\<not> (case n of None \<Rightarrow> False | Some n \<Rightarrow> trim_space n = [])" by (elim PatchTemplateE)
  have "named_ok (Updates (trim_space i) (patch_updates env n x) (db_templates s))"
    using template_patched.prems n by (intro named_ok_Updates) (auto simp: payloads_ok_def patch_updates_def split: option.splits)
  then show ?case using template_patched.prems by (simp add: s' payloads_ok_def)
qed (auto simp: payloads_ok_def SaveDraft_def SaveTemplate_def DeleteDraft_def DeleteTemplate_def rbind_Inr_iff
    intro: saveRow_ok deleteByID_ok)

end
