(* ===== verification/Project_Properties.thy ===== *)
theory Project_Properties
  imports Project_Context Project_Frames Payload_Properties
begin

text \<open>
  The invariant of the context tables under every write of the package and the deletion of tasks, the
  snapshot that pins an attempt's context, and what becomes of a task whose selected item is deleted.
\<close>

section \<open>The invariant\<close>

definition item_ok :: "db \<Rightarrow> context_item \<Rightarrow> bool" where
  "item_ok s c \<longleftrightarrow> pci_ProjectID c \<in> proj_ID ` set (db_projects s) \<and>
     opt_ref (pci_SourceTaskID c) (task_ID ` set (db_tasks s)) \<and> opt_ref (pci_SourceCycleID c) (cycle_ID ` set (db_cycles s)) \<and>
     pci_Kind c \<noteq> [] \<and> length (pci_Kind c) \<le> 24 \<and> pci_Title c \<noteq> [] \<and> pci_Body c \<noteq> [] \<and> pci_CreatedBy c \<in> {ActorUser, ActorAgent}"

definition owns_item :: "db \<Rightarrow> string \<Rightarrow> string \<Rightarrow> bool" where
  "owns_item s p i \<longleftrightarrow> (\<exists>c\<in>set (db_context_items s). pci_ID c = i \<and> pci_ProjectID c = p)"

definition edge_ok :: "db \<Rightarrow> context_edge \<Rightarrow> bool" where
  "edge_ok s e \<longleftrightarrow> pce_SourceContextID e \<noteq> pce_TargetContextID e \<and> valid_relation (pce_Relation e) \<and>
     1 \<le> pce_Strength e \<and> pce_Strength e \<le> 5 \<and>
     owns_item s (pce_ProjectID e) (pce_SourceContextID e) \<and> owns_item s (pce_ProjectID e) (pce_TargetContextID e)"

definition snapshot_ok :: "db \<Rightarrow> context_snapshot \<Rightarrow> bool" where
  "snapshot_ok s x \<longleftrightarrow> snap_TaskID x \<in> task_ID ` set (db_tasks s) \<and> snap_CycleID x \<in> cycle_ID ` set (db_cycles s) \<and>
     snap_ProjectID x \<in> proj_ID ` set (db_projects s)"

definition project_ok :: "project_row \<Rightarrow> bool" where
  "project_ok p \<longleftrightarrow> proj_Name p \<noteq> [] \<and> valid_project_status (proj_Status p) \<and>
     (proj_ID p = DefaultProjectID \<longrightarrow> proj_Status p = ProjectStatusActive)"

definition projects_ok :: "db \<Rightarrow> bool" where
  "projects_ok s \<longleftrightarrow>
     distinct (map proj_ID (db_projects s)) \<and> distinct (map pci_ID (db_context_items s)) \<and>
     distinct (map pce_ID (db_edges s)) \<and> distinct (map edge_key (db_edges s)) \<and> distinct (map snap_CycleID (db_snapshots s)) \<and>
     (\<forall>p\<in>set (db_projects s). project_ok p) \<and> (\<forall>c\<in>set (db_context_items s). item_ok s c) \<and>
     (\<forall>e\<in>set (db_edges s). edge_ok s e) \<and> (\<forall>x\<in>set (db_snapshots s). snapshot_ok s x)"

lemma projects_okD:
  assumes "projects_ok s"
  shows "distinct (map proj_ID (db_projects s))" "distinct (map pci_ID (db_context_items s))"
    "distinct (map pce_ID (db_edges s))" "distinct (map edge_key (db_edges s))" "distinct (map snap_CycleID (db_snapshots s))"
    "p \<in> set (db_projects s) \<Longrightarrow> project_ok p" "c \<in> set (db_context_items s) \<Longrightarrow> item_ok s c"
    "e \<in> set (db_edges s) \<Longrightarrow> edge_ok s e" "x \<in> set (db_snapshots s) \<Longrightarrow> snapshot_ok s x"
  using assms by (simp_all add: projects_ok_def)

lemma projects_okI:
  assumes "distinct (map proj_ID (db_projects s))" "distinct (map pci_ID (db_context_items s))"
    "distinct (map pce_ID (db_edges s))" "distinct (map edge_key (db_edges s))" "distinct (map snap_CycleID (db_snapshots s))"
    "\<And>p. p \<in> set (db_projects s) \<Longrightarrow> project_ok p" "\<And>c. c \<in> set (db_context_items s) \<Longrightarrow> item_ok s c"
    "\<And>e. e \<in> set (db_edges s) \<Longrightarrow> edge_ok s e" "\<And>x. x \<in> set (db_snapshots s) \<Longrightarrow> snapshot_ok s x"
  shows "projects_ok s"
  using assms by (simp add: projects_ok_def)

text \<open>The rows depend on the other tables only through identifiers that exist.\<close>

lemma project_tables_mono:
  assumes "proj_ID ` set (db_projects s) \<subseteq> proj_ID ` set (db_projects s')" "task_ID ` set (db_tasks s) \<subseteq> task_ID ` set (db_tasks s')"
    "cycle_ID ` set (db_cycles s) \<subseteq> cycle_ID ` set (db_cycles s')"
  shows "item_ok s c \<Longrightarrow> item_ok s' c" "snapshot_ok s x \<Longrightarrow> snapshot_ok s' x"
  using assms by (auto simp: item_ok_def snapshot_ok_def opt_ref_def split: option.splits)

lemma edge_ok_mono:
  "(\<And>p i. owns_item s p i \<Longrightarrow> owns_item s' p i) \<Longrightarrow> edge_ok s e \<Longrightarrow> edge_ok s' e"
  by (simp add: edge_ok_def)

section \<open>Every write keeps it\<close>

lemma find_SomeD: "List.find P xs = Some x \<Longrightarrow> x \<in> set xs \<and> P x"
  by (auto simp: find_Some_iff)

lemma written_Inr [simp]: "written w = Inr x \<longleftrightarrow> w = Inr x" "written (Inr x) = Inr x"
  by (cases w) (simp_all add: written_def)

lemma map_replace:
  "f x = i \<Longrightarrow> map f (update_where (\<lambda>r. f r = i) (\<lambda>_. x) rs) = map f rs"
  by (auto simp: update_where_def)

lemma CreateProject_ok:
  assumes ok: "projects_ok s" and c: "CreateProject env repos s inp = Inr (s', p)"
  shows "projects_ok s'"
proof -
  from c have i: "insert_project s p = Inr s'" and p: "proj_Name p \<noteq> []" "proj_Status p = ProjectStatusActive"
    by (auto simp: CreateProject_def Let_def if_Inl_Inr_iff split: if_splits)
  then have s': "s' = s\<lparr>db_projects := db_projects s @ [p]\<rparr>" "proj_ID p \<notin> proj_ID ` set (db_projects s)"
    by (auto simp: insert_project_def split: if_splits)
  note d = projects_okD[OF ok]
  show ?thesis
  proof (rule projects_okI)
    show "item_ok s' c" if "c \<in> set (db_context_items s')" for c
      by (rule project_tables_mono(1)[of s]) (use that d(7) s' in auto)
    show "snapshot_ok s' x" if "x \<in> set (db_snapshots s')" for x
      by (rule project_tables_mono(2)[of s]) (use that d(9) s' in auto)
    show "edge_ok s' e" if "e \<in> set (db_edges s')" for e
      by (rule edge_ok_mono[of s]) (use that d(8) s' in \<open>auto simp: owns_item_def\<close>)
    show "project_ok q" if "q \<in> set (db_projects s')" for q
      using that d(6) p s' by (auto simp: project_ok_def)
  qed (use d s' in auto)
qed

lemma find_project_mem: "find_project s i = Inr p \<Longrightarrow> p \<in> set (db_projects s) \<and> proj_ID p = i"
  by (auto simp: find_project_def find_Some_iff split: option.splits)

lemma UpdateProject_ok:
  assumes ok: "projects_ok s" and u: "UpdateProject env s i inp = Inr (s', p)"
  shows "projects_ok s'"
proof -
  let ?i = "trim_space i"
  from u obtain row where v: "validateProjectPatch inp = Inr ()" and f: "find_project s ?i = Inr row"
    and dv: "validateDefaultProjectPatch row inp = Inr ()"
    and p: "p = (applyProjectPatch_row row inp)\<lparr>proj_UpdatedAt := tx_now env\<rparr>"
    and s': "s' = s\<lparr>db_projects := update_where (\<lambda>p. proj_ID p = ?i) (\<lambda>_. p) (db_projects s)\<rparr>"
    by (auto simp: UpdateProject_def Let_def if_Inl_Inr_iff rbind_Inr_iff)
  note d = projects_okD[OF ok] and row = find_project_mem[OF f]
  have pid: "proj_ID p = ?i" using row by (simp add: p applyProjectPatch_row_def)
  have pok: "project_ok p"
    using d(6)[of row] row v dv
    by (auto simp: p applyProjectPatch_row_def project_ok_def validateProjectPatch_def validateDefaultProjectPatch_def
        split: option.splits if_splits)
  have ids: "map proj_ID (db_projects s') = map proj_ID (db_projects s)"
    using pid by (auto simp: s' update_where_def)
  then have same: "proj_ID ` set (db_projects s') = proj_ID ` set (db_projects s)" by (metis list.set_map)
  show ?thesis
  proof (rule projects_okI)
    show "item_ok s' c" if "c \<in> set (db_context_items s')" for c
      by (rule project_tables_mono(1)[of s]) (use that d(7) s' same in auto)
    show "snapshot_ok s' x" if "x \<in> set (db_snapshots s')" for x
      by (rule project_tables_mono(2)[of s]) (use that d(9) s' same in auto)
    show "edge_ok s' e" if "e \<in> set (db_edges s')" for e
      by (rule edge_ok_mono[of s]) (use that d(8) s' in \<open>auto simp: owns_item_def\<close>)
    show "project_ok q" if "q \<in> set (db_projects s')" for q
      using that d(6) pok by (auto simp: s' set_update_where)
    show "distinct (map proj_ID (db_projects s'))" using d(1) ids by simp
  qed (use d s' in auto)
qed

lemma owns_itemE:
  assumes "projects_ok s" "owns_item s p i" "c \<in> set (db_context_items s)" "pci_ID c = i"
  shows "pci_ProjectID c = p"
proof -
  obtain a where a: "a \<in> set (db_context_items s)" "pci_ID a = i" "pci_ProjectID a = p" using assms(2) by (auto simp: owns_item_def)
  have "a = c" using projects_okD(2)[OF assms(1)] a assms(3,4) by (auto simp: distinct_map dest: inj_onD)
  then show ?thesis using a by simp
qed

lemma DeleteProject_ok:
  assumes ok: "projects_ok s" and d: "DeleteProject s i = Inr s'"
  shows "projects_ok s'"
proof -
  let ?i = "trim_space i"
  have s': "s' = cascade_delete_project s ?i" using d by (auto simp: DeleteProject_def Let_def if_Inl_Inr_iff split: if_splits)
  note k = projects_okD[OF ok]
  have "map task_ID (db_tasks s') = map task_ID (db_tasks s)"
    by (simp add: s' cascade_delete_project_def Let_def)
  then have tids: "task_ID ` set (db_tasks s') = task_ID ` set (db_tasks s)" by (metis list.set_map)
  show ?thesis
  proof (rule projects_okI)
    show "item_ok s' c" if c: "c \<in> set (db_context_items s')" for c
    proof -
      have "item_ok s c" "pci_ProjectID c \<noteq> ?i" using c k(7) by (auto simp: s' cascade_delete_project_def Let_def)
      then show ?thesis using tids by (auto simp: item_ok_def s' cascade_delete_project_def Let_def)
    qed
    show "snapshot_ok s' x" if x: "x \<in> set (db_snapshots s')" for x
    proof -
      have "snapshot_ok s x" "snap_ProjectID x \<noteq> ?i" using x k(9) by (auto simp: s' cascade_delete_project_def Let_def)
      then show ?thesis using tids by (auto simp: snapshot_ok_def s' cascade_delete_project_def Let_def)
    qed
    show "edge_ok s' e" if e: "e \<in> set (db_edges s')" for e
    proof -
      have "edge_ok s e" "pce_ProjectID e \<noteq> ?i" using e k(8) by (auto simp: s' cascade_delete_project_def Let_def)
      then show ?thesis by (auto simp: edge_ok_def owns_item_def s' cascade_delete_project_def Let_def)
    qed
    show "project_ok q" if "q \<in> set (db_projects s')" for q
      using that k(6) by (auto simp: s' cascade_delete_project_def Let_def)
  qed (simp_all add: s' cascade_delete_project_def Let_def distinct_map_filter k(1-5))
qed

lemma validateContextKind_ok: "validateContextKind k = Inr () \<Longrightarrow> trim_space k \<noteq> [] \<and> length (trim_space k) \<le> 24"
  by (auto simp: validateContextKind_def Let_def if_Inl_Inr_iff split: if_splits)

lemma CreateContextE:
  assumes "CreateContext env s p inp = Inr (s', c)"
  obtains "insert_context_item s c = Inr s'" "pci_Kind c \<noteq> []" "length (pci_Kind c) \<le> 24" "pci_Title c \<noteq> []"
    "pci_Body c \<noteq> []" "pci_CreatedBy c \<in> {ActorUser, ActorAgent}"
proof -
  have note_id: "trim_space ''note'' = ''note''" by code_simp
  let ?k = "if trim_space (cci_Kind inp) = [] then ''note'' else trim_space (cci_Kind inp)"
  let ?a = "if cci_CreatedBy inp = ActorOther [] then ActorUser else cci_CreatedBy inp"
  from assms have v: "validateContextKind ?k = Inr ()" "ValidateActor ?a = Inr ()"
    and r: "insert_context_item s c = Inr s'" "pci_Kind c = ?k" "pci_Title c \<noteq> []" "pci_Body c \<noteq> []" "pci_CreatedBy c = ?a"
    by (auto simp: CreateContext_def Let_def if_Inl_Inr_iff rbind_Inr_iff)
  have "pci_Kind c \<noteq> []" unfolding r(2) by simp
  moreover have "length (pci_Kind c) \<le> 24"
    using validateContextKind_ok[OF v(1)] note_id unfolding r(2) by (cases "trim_space (cci_Kind inp) = []") simp_all
  moreover have "pci_CreatedBy c \<in> {ActorUser, ActorAgent}" using v(2) unfolding r(5)[symmetric] by (cases "pci_CreatedBy c") auto
  ultimately show ?thesis using r(1,3,4) by (intro that)
qed

lemma insert_context_itemD:
  assumes "insert_context_item s c = Inr s'"
  shows "s' = s\<lparr>db_context_items := db_context_items s @ [c]\<rparr>" "pci_ID c \<notin> pci_ID ` set (db_context_items s)"
    "pci_ProjectID c \<in> proj_ID ` set (db_projects s)" "opt_ref (pci_SourceTaskID c) (task_ID ` set (db_tasks s))"
    "opt_ref (pci_SourceCycleID c) (cycle_ID ` set (db_cycles s))"
  using assms by (auto simp: insert_context_item_def split: if_splits)

lemma CreateContext_ok:
  assumes ok: "projects_ok s" and c: "CreateContext env s p inp = Inr (s', c)"
  shows "projects_ok s'"
proof -
  from c have i: "insert_context_item s c = Inr s'" and r: "pci_Kind c \<noteq> []" "length (pci_Kind c) \<le> 24" "pci_Title c \<noteq> []"
    "pci_Body c \<noteq> []" "pci_CreatedBy c \<in> {ActorUser, ActorAgent}" by (auto elim: CreateContextE)
  note s' = insert_context_itemD[OF i] and k = projects_okD[OF ok]
  have "item_ok s' c" using s' r by (simp add: item_ok_def)
  moreover have "item_ok s' a" if "a \<in> set (db_context_items s)" for a
    by (rule project_tables_mono(1)[of s]) (use that k(7) s' in auto)
  moreover have "edge_ok s' e" if "e \<in> set (db_edges s)" for e
    by (rule edge_ok_mono[of s]) (use that k(8) s' in \<open>auto simp: owns_item_def\<close>)
  moreover have "snapshot_ok s' x" if "x \<in> set (db_snapshots s)" for x
    by (rule project_tables_mono(2)[of s]) (use that k(9) s' in auto)
  ultimately show ?thesis using k s'(1,2) by (intro projects_okI) auto
qed

lemma UpdateContextE:
  assumes "UpdateContext env s p i inp = Inr (s', c)"
  obtains row where "row \<in> set (db_context_items s)" "pci_ID row = trim_space i" "validateContextPatch inp = Inr ()"
    "c = (applyContextPatch row inp)\<lparr>pci_UpdatedAt := tx_now env\<rparr>"
    "s' = s\<lparr>db_context_items := update_where (\<lambda>x. pci_ID x = trim_space i) (\<lambda>_. c) (db_context_items s)\<rparr>"
  using assms
  by (auto simp: UpdateContext_def Let_def if_Inl_Inr_iff rbind_Inr_iff dest!: find_SomeD split: option.splits)

lemma UpdateContext_ok:
  assumes ok: "projects_ok s" and u: "UpdateContext env s p i inp = Inr (s', c)"
  shows "projects_ok s'"
proof -
  let ?i = "trim_space i"
  from u obtain row where row: "row \<in> set (db_context_items s)" "pci_ID row = ?i" and v: "validateContextPatch inp = Inr ()"
    and c: "c = (applyContextPatch row inp)\<lparr>pci_UpdatedAt := tx_now env\<rparr>"
    and s': "s' = s\<lparr>db_context_items := update_where (\<lambda>x. pci_ID x = ?i) (\<lambda>_. c) (db_context_items s)\<rparr>"
    by (rule UpdateContextE)
  note k = projects_okD[OF ok]
  have same: "pci_ID c = ?i" "pci_ProjectID c = pci_ProjectID row" using row by (simp_all add: c applyContextPatch_def)
  have cok: "item_ok s c"
    using k(7)[OF row(1)] v
    by (auto simp: c applyContextPatch_def item_ok_def validateContextPatch_def rbind_Inr_iff
        dest!: validateContextKind_ok split: option.splits if_splits)
  have owns: "owns_item s' q j" if o: "owns_item s q j" for q j
  proof -
    obtain a where a: "a \<in> set (db_context_items s)" "pci_ID a = j" "pci_ProjectID a = q" using o by (auto simp: owns_item_def)
    have "pci_ProjectID row = q" if "j = ?i" using owns_itemE[OF ok o] row that by simp
    then show ?thesis using a same row by (cases "j = ?i") (auto simp: owns_item_def s' set_update_where)
  qed
  have "item_ok s' a" if "a \<in> set (db_context_items s')" for a
    by (rule project_tables_mono(1)[of s]) (use that k(7) cok in \<open>auto simp: s' set_update_where\<close>)
  moreover have "edge_ok s' e" if "e \<in> set (db_edges s')" for e
    by (rule edge_ok_mono[OF owns]) (use that k(8) s' in auto)
  moreover have "snapshot_ok s' x" if "x \<in> set (db_snapshots s')" for x
    by (rule project_tables_mono(2)[of s]) (use that k(9) s' in auto)
  moreover have "distinct (map pci_ID (db_context_items s'))" using k(2) same(1) by (simp add: s' map_replace)
  ultimately show ?thesis using k by (intro projects_okI) (auto simp: s')
qed

lemma DeleteContextE:
  assumes "DeleteContext s p i = Inr s'"
  obtains "trim_space p \<noteq> []" "trim_space i \<noteq> []"
    "s' = s\<lparr>db_edges := filter (\<lambda>e. pce_SourceContextID e \<noteq> trim_space i \<and> pce_TargetContextID e \<noteq> trim_space i)
         (filter (\<lambda>e. \<not> (pce_ProjectID e = trim_space p \<and>
             (pce_SourceContextID e = trim_space i \<or> pce_TargetContextID e = trim_space i))) (db_edges s)),
       db_context_items := filter (\<lambda>c. \<not> (pci_ID c = trim_space i \<and> pci_ProjectID c = trim_space p)) (db_context_items s)\<rparr>"
  using assms by (auto simp: DeleteContext_def Let_def if_Inl_Inr_iff split: if_splits)

lemma DeleteContext_ok:
  assumes ok: "projects_ok s" and d: "DeleteContext s p i = Inr s'"
  shows "projects_ok s'"
proof -
  note k = projects_okD[OF ok]
  have owns: "owns_item s q j \<Longrightarrow> j \<noteq> trim_space i \<Longrightarrow> owns_item s' q j" for q j
    using d by (elim DeleteContextE) (auto simp: owns_item_def)
  have "edge_ok s' e" if "e \<in> set (db_edges s')" for e
  proof -
    have "e \<in> set (db_edges s)" "pce_SourceContextID e \<noteq> trim_space i" "pce_TargetContextID e \<noteq> trim_space i"
      using d that by (auto elim!: DeleteContextE)
    then show ?thesis using k(8)[of e] owns by (simp add: edge_ok_def)
  qed
  moreover have "item_ok s' c" if "c \<in> set (db_context_items s')" for c
    by (rule project_tables_mono(1)[of s]) (use that k(7) d in \<open>auto elim!: DeleteContextE\<close>)
  moreover have "snapshot_ok s' x" if "x \<in> set (db_snapshots s')" for x
    by (rule project_tables_mono(2)[of s]) (use that k(9) d in \<open>auto elim!: DeleteContextE\<close>)
  ultimately show ?thesis using k d
    by (intro projects_okI) (auto elim!: DeleteContextE intro!: distinct_map_filter)
qed

lemma CreateSnapshotE:
  assumes "CreateSnapshot env s inp = Inr (s', x)"
  obtains "insert_snapshot s x = Inr s'" "snap_CycleID x = trim_space (csi_CycleID inp)"
    "snap_RenderedContext x = trim_space (csi_RenderedContext inp)" "snap_TokenEstimate x = csi_TokenEstimate inp"
    "NormalizeJSONObject (csi_ContextJSON inp) ''context_json'' = Inr (snap_ContextJSON x)"
  using assms by (auto simp: CreateSnapshot_def Let_def if_Inl_Inr_iff rbind_Inr_iff)

lemma CreateSnapshot_cycle: "CreateSnapshot env s inp = Inr (s', x) \<Longrightarrow> trim_space (csi_CycleID inp) \<noteq> []"
  by (auto simp: CreateSnapshot_def Let_def if_Inl_Inr_iff)

lemma insert_snapshotD:
  assumes "insert_snapshot s x = Inr s'"
  shows "s' = s\<lparr>db_snapshots := db_snapshots s @ [x]\<rparr>" "snap_CycleID x \<notin> snap_CycleID ` set (db_snapshots s)" "snapshot_ok s' x"
  using assms by (auto simp: insert_snapshot_def snapshot_ok_def split: if_splits)

lemma CreateSnapshot_ok:
  assumes ok: "projects_ok s" and c: "CreateSnapshot env s inp = Inr (s', x)"
  shows "projects_ok s'"
proof -
  from c have "insert_snapshot s x = Inr s'" by (auto elim: CreateSnapshotE)
  note s' = insert_snapshotD[OF this] and k = projects_okD[OF ok]
  have "item_ok s' a" if "a \<in> set (db_context_items s)" for a
    by (rule project_tables_mono(1)[of s]) (use that k(7) s' in auto)
  moreover have "edge_ok s' e" if "e \<in> set (db_edges s)" for e
    by (rule edge_ok_mono[of s]) (use that k(8) s' in \<open>auto simp: owns_item_def\<close>)
  moreover have "snapshot_ok s' y" if "y \<in> set (db_snapshots s)" for y
    by (rule project_tables_mono(2)[of s]) (use that k(9) s' in auto)
  ultimately show ?thesis using k s' by (intro projects_okI) auto
qed

text \<open>Changes of the edge table alone.\<close>

lemma edges_update_ok:
  assumes "projects_ok s" "distinct (map pce_ID es)" "distinct (map edge_key es)" "\<And>e. e \<in> set es \<Longrightarrow> edge_ok s e"
  shows "projects_ok (s\<lparr>db_edges := es\<rparr>)"
proof -
  note k = projects_okD[OF assms(1)]
  have "edge_ok (s\<lparr>db_edges := es\<rparr>) e" if "e \<in> set es" for e
    by (rule edge_ok_mono[of s]) (use assms(4) that in \<open>auto simp: owns_item_def\<close>)
  moreover have "item_ok (s\<lparr>db_edges := es\<rparr>) a" if "a \<in> set (db_context_items s)" for a
    by (rule project_tables_mono(1)[of s]) (use that k(7) in auto)
  moreover have "snapshot_ok (s\<lparr>db_edges := es\<rparr>) y" if "y \<in> set (db_snapshots s)" for y
    by (rule project_tables_mono(2)[of s]) (use that k(9) in auto)
  ultimately show ?thesis using k assms(2,3) by (intro projects_okI) auto
qed

text \<open>Two rows named by an identifier each are found when both exist: identifiers are unique.\<close>

lemma validateEdgeNodesExist_owns:
  assumes "projects_ok s" "validateEdgeNodesExist s p a b = Inr ()" "a \<noteq> b"
  shows "owns_item s p a \<and> owns_item s p b"
proof -
  let ?xs = "filter (\<lambda>c. pci_ProjectID c = p \<and> pci_ID c \<in> {a, b}) (db_context_items s)"
  have "length (map pci_ID ?xs) = 2" using assms(2) by (simp add: validateEdgeNodesExist_def split: if_splits)
  moreover have "distinct (map pci_ID ?xs)" by (rule distinct_map_filter[OF projects_okD(2)[OF assms(1)]])
  ultimately have card: "card (set (map pci_ID ?xs)) = 2" using distinct_card by metis
  have sub: "set (map pci_ID ?xs) \<subseteq> {a, b}" by auto
  have "set (map pci_ID ?xs) = {a, b}"
    by (rule card_subset_eq) (use sub card assms(3) in simp_all)
  then have "a \<in> pci_ID ` set ?xs" "b \<in> pci_ID ` set ?xs" by auto
  then show ?thesis by (auto simp: owns_item_def)
qed

lemma insert_edgeD:
  assumes "insert_edge s e = Inr s'"
  shows "s' = s\<lparr>db_edges := db_edges s @ [e]\<rparr>" "pce_ID e \<notin> pce_ID ` set (db_edges s)" "edge_key e \<notin> edge_key ` set (db_edges s)"
    "valid_relation (pce_Relation e)" "1 \<le> pce_Strength e" "pce_Strength e \<le> 5"
  using assms by (auto simp: insert_edge_def split: if_splits)

lemma CreateContextEdge_ok:
  assumes ok: "projects_ok s" and c: "CreateContextEdge env s p inp = Inr (s', e)"
  shows "projects_ok s'"
proof -
  from c have i: "insert_edge s e = Inr s'"
    and v: "validateEdgeNodesExist s (pce_ProjectID e) (pce_SourceContextID e) (pce_TargetContextID e) = Inr ()"
    and ne: "pce_SourceContextID e \<noteq> pce_TargetContextID e"
    by (auto simp: CreateContextEdge_def Let_def if_Inl_Inr_iff rbind_Inr_iff validateContextEdgeFields_def)
  note d = insert_edgeD[OF i] and k = projects_okD[OF ok]
  have "edge_ok s e" using validateEdgeNodesExist_owns[OF ok v ne] ne d by (simp add: edge_ok_def)
  then show ?thesis unfolding d(1) using k d by (intro edges_update_ok[OF ok]) auto
qed

lemma edge_keys_update:
  assumes "distinct (map pce_ID es)" "distinct (map edge_key es)" "\<forall>x\<in>set es. pce_ID x \<noteq> pce_ID e \<longrightarrow> edge_key x \<noteq> edge_key e"
  shows "distinct (map edge_key (update_where (\<lambda>x. pce_ID x = pce_ID e) (\<lambda>_. e) es))"
  using assms
proof (induction es)
  case Nil
  then show ?case by (simp add: update_where_def)
next
  case (Cons a es)
  then have IH: "distinct (map edge_key (update_where (\<lambda>x. pce_ID x = pce_ID e) (\<lambda>_. e) es))" by simp
  have up: "update_where (\<lambda>x. pce_ID x = pce_ID e) (\<lambda>_. e) (a # es) =
      (if pce_ID a = pce_ID e then e else a) # update_where (\<lambda>x. pce_ID x = pce_ID e) (\<lambda>_. e) es"
    by (simp add: update_where_def)
  show ?case
  proof (cases "pce_ID a = pce_ID e")
    case True
    then have "\<forall>x\<in>set es. pce_ID x \<noteq> pce_ID e" using Cons.prems(1) by (force simp: image_iff)
    then have same: "update_where (\<lambda>x. pce_ID x = pce_ID e) (\<lambda>_. e) es = es" by (simp add: update_where_none)
    have "edge_key e \<notin> edge_key ` set es" using Cons.prems(3) \<open>\<forall>x\<in>set es. pce_ID x \<noteq> pce_ID e\<close> by fastforce
    then show ?thesis using IH up True same by simp
  next
    case False
    then have "edge_key a \<noteq> edge_key e" using Cons.prems(3) by simp
    moreover have "edge_key a \<notin> edge_key ` set es" using Cons.prems(2) by simp
    ultimately have "edge_key a \<notin> edge_key ` set (update_where (\<lambda>x. pce_ID x = pce_ID e) (\<lambda>_. e) es)"
      by (auto simp: set_update_where)
    then show ?thesis using IH up False by simp
  qed
qed

lemma UpdateContextEdge_ok:
  assumes ok: "projects_ok s" and u: "UpdateContextEdge env s p i inp = Inr (s', e)"
  shows "projects_ok s'"
proof -
  from u obtain row where row: "row \<in> set (db_edges s)" and v: "validateContextEdgePatch inp = Inr ()"
    and e: "e = (applyContextEdgePatch row inp)\<lparr>pce_UpdatedAt := tx_now env\<rparr>" and sv: "save_edge s e = Inr s'"
    by (auto simp: UpdateContextEdge_def Let_def if_Inl_Inr_iff rbind_Inr_iff dest!: find_SomeD split: option.splits)
  note k = projects_okD[OF ok]
  from sv have s': "s' = s\<lparr>db_edges := update_where (\<lambda>x. pce_ID x = pce_ID e) (\<lambda>_. e) (db_edges s)\<rparr>"
    and fresh: "\<forall>x\<in>set (db_edges s). pce_ID x \<noteq> pce_ID e \<longrightarrow> edge_key x \<noteq> edge_key e"
    by (auto simp: save_edge_def list_ex_iff split: if_splits)
  have eok: "edge_ok s e"
    using k(8)[OF row] v
    by (auto simp: e applyContextEdgePatch_def edge_ok_def validateContextEdgePatch_def validateContextRelation_def rbind_Inr_iff
        split: option.splits if_splits)
  show ?thesis unfolding s'
  proof (rule edges_update_ok[OF ok])
    show "distinct (map pce_ID (update_where (\<lambda>x. pce_ID x = pce_ID e) (\<lambda>_. e) (db_edges s)))" using k(3) by (simp add: map_replace)
    show "distinct (map edge_key (update_where (\<lambda>x. pce_ID x = pce_ID e) (\<lambda>_. e) (db_edges s)))"
      by (rule edge_keys_update[OF k(3,4) fresh])
    show "edge_ok s x" if "x \<in> set (update_where (\<lambda>x. pce_ID x = pce_ID e) (\<lambda>_. e) (db_edges s))" for x
      using that eok k(8) by (auto simp: set_update_where)
  qed
qed

lemma DeleteContextEdge_ok:
  assumes ok: "projects_ok s" and d: "DeleteContextEdge s p i = Inr s'"
  shows "projects_ok s'"
proof -
  from d have s': "s' = s\<lparr>db_edges := filter (\<lambda>e. \<not> (pce_ID e = trim_space i \<and> pce_ProjectID e = trim_space p)) (db_edges s)\<rparr>"
    by (auto simp: DeleteContextEdge_def Let_def if_Inl_Inr_iff split: if_splits)
  show ?thesis unfolding s' by (rule edges_update_ok[OF ok]) (use projects_okD[OF ok] in \<open>auto intro: distinct_map_filter\<close>)
qed

section \<open>The operations of the other packages\<close>

lemma projects_ok_keeps:
  assumes ok: "projects_ok s" and k: "keeps_context s s'"
  shows "projects_ok s'"
proof -
  have t: "db_projects s' = db_projects s" "db_context_items s' = db_context_items s" "db_edges s' = db_edges s"
    "db_snapshots s' = db_snapshots s" "task_ID ` set (db_tasks s) \<subseteq> task_ID ` set (db_tasks s')"
    "cycle_ID ` set (db_cycles s) \<subseteq> cycle_ID ` set (db_cycles s')" using k by (simp_all add: keeps_context_def)
  note d = projects_okD[OF ok]
  have "item_ok s' c" if "c \<in> set (db_context_items s)" for c by (rule project_tables_mono(1)[of s]) (use that d(7) t in auto)
  moreover have "snapshot_ok s' x" if "x \<in> set (db_snapshots s)" for x by (rule project_tables_mono(2)[of s]) (use that d(9) t in auto)
  moreover have "edge_ok s' e" if "e \<in> set (db_edges s)" for e
    by (rule edge_ok_mono[of s]) (use that d(8) t in \<open>auto simp: owns_item_def\<close>)
  ultimately show ?thesis using d t by (intro projects_okI) auto
qed

lemma Task_Delete_projects_ok:
  assumes ok: "projects_ok s" and del: "Task_Delete s i by = Inr (s', ids)"
  shows "projects_ok s'"
proof -
  let ?i = "trim_space i"
  let ?gone = "set (map cycle_ID (filter (\<lambda>c. cycle_TaskID c = ?i) (db_cycles s)))"
  have s': "s' = cascade_delete_task s ?i" using del by (auto simp: Task_Delete_def Let_def if_Inl_Inr_iff)
  note d = projects_okD[OF ok] and casc = cascade_delete_task_def Let_def
  have tasks: "t \<in> task_ID ` set (db_tasks s) \<Longrightarrow> t \<noteq> ?i \<Longrightarrow> t \<in> task_ID ` set (db_tasks s')" for t
    by (auto simp: s' casc)
  have cycles: "c \<in> cycle_ID ` set (db_cycles s) \<Longrightarrow> c \<notin> ?gone \<Longrightarrow> c \<in> cycle_ID ` set (db_cycles s')" for c
    by (auto simp: s' casc)
  have tables: "db_projects s' = db_projects s" "db_edges s' = db_edges s" by (simp_all add: s' casc)
  have ids: "map pci_ID (db_context_items s') = map pci_ID (db_context_items s)" by (simp add: s' casc)
  have owns: "owns_item s' q j" if "owns_item s q j" for q j
    using that by (force simp: owns_item_def s' casc)
  have "item_ok s' c" if mem: "c \<in> set (db_context_items s')" for c
  proof -
    obtain a where a: "a \<in> set (db_context_items s)" and c: "c = a\<lparr>pci_SourceTaskID := (if pci_SourceTaskID a = Some ?i then None else pci_SourceTaskID a),
        pci_SourceCycleID := (case pci_SourceCycleID a of Some x \<Rightarrow> if x \<in> ?gone then None else Some x | None \<Rightarrow> None)\<rparr>"
      using mem by (auto simp: s' casc)
    show ?thesis using d(7)[OF a] tasks cycles unfolding c item_ok_def opt_ref_def tables
      by (auto split: option.splits)
  qed
  moreover have "snapshot_ok s' x" if "x \<in> set (db_snapshots s')" for x
  proof -
    have "x \<in> set (db_snapshots s)" "snap_TaskID x \<noteq> ?i" "snap_CycleID x \<notin> ?gone" using that by (auto simp: s' casc)
    then show ?thesis using d(9)[of x] tasks cycles by (simp add: snapshot_ok_def tables)
  qed
  moreover have "edge_ok s' e" if "e \<in> set (db_edges s')" for e
    by (rule edge_ok_mono[OF owns]) (use that d(8) tables in auto)
  moreover have "distinct (map snap_CycleID (db_snapshots s'))" using d(5) by (simp add: s' casc distinct_map_filter)
  ultimately show ?thesis using d ids tables by (intro projects_okI) auto
qed

lemma store_step_projects_ok: "store_step s s' \<Longrightarrow> projects_ok s \<Longrightarrow> projects_ok s'"
  using store_step_keeps projects_ok_keeps Task_Delete_projects_ok by blast

section \<open>The application\<close>

text \<open>The writes of the package; the application interleaves them with those of the store and of the payloads.\<close>

inductive project_step :: "db \<Rightarrow> db \<Rightarrow> bool" where
  project_created: "CreateProject env repos s inp = Inr (s', p) \<Longrightarrow> project_step s s'"
| project_updated: "UpdateProject env s i upd = Inr (s', p) \<Longrightarrow> project_step s s'"
| project_deleted: "DeleteProject s i = Inr s' \<Longrightarrow> project_step s s'"
| context_created: "CreateContext env s i cinp = Inr (s', c) \<Longrightarrow> project_step s s'"
| context_updated: "UpdateContext env s i j cupd = Inr (s', c) \<Longrightarrow> project_step s s'"
| context_deleted: "DeleteContext s i j = Inr s' \<Longrightarrow> project_step s s'"
| edge_created: "CreateContextEdge env s i einp = Inr (s', e) \<Longrightarrow> project_step s s'"
| edge_updated: "UpdateContextEdge env s i j eupd = Inr (s', e) \<Longrightarrow> project_step s s'"
| edge_deleted: "DeleteContextEdge s i j = Inr s' \<Longrightarrow> project_step s s'"
| snapshot_created: "CreateSnapshot env s sinp = Inr (s', x) \<Longrightarrow> project_step s s'"

definition app_step :: "db \<Rightarrow> db \<Rightarrow> bool" where
  "app_step s s' \<longleftrightarrow> store_step s s' \<or> project_step s s' \<or> payload_step s s'"

definition seeded_db :: "gotime \<Rightarrow> db" where
  "seeded_db now = empty_db\<lparr>db_projects := [DefaultProject now]\<rparr>"

lemma project_step_projects_ok: "project_step s s' \<Longrightarrow> projects_ok s \<Longrightarrow> projects_ok s'"
  by (induction rule: project_step.induct)
     (blast intro: CreateProject_ok UpdateProject_ok DeleteProject_ok CreateContext_ok UpdateContext_ok DeleteContext_ok
       CreateContextEdge_ok UpdateContextEdge_ok DeleteContextEdge_ok CreateSnapshot_ok)+

lemma project_step_same_core: "project_step s s' \<Longrightarrow> same_core s s'"
proof (induction rule: project_step.induct)
  case (context_created env s i cinp s' c)
  then show ?case by (elim CreateContextE) (auto simp: same_core_def dest: insert_context_itemD(1))
next
  case (snapshot_created env s sinp s' x)
  then show ?case by (elim CreateSnapshotE) (auto simp: same_core_def dest: insert_snapshotD(1))
next
  case (context_updated env s i j cupd s' c)
  then show ?case by (elim UpdateContextE) (simp add: same_core_def)
next
  case (context_deleted s i j s')
  then show ?case by (elim DeleteContextE) (simp add: same_core_def)
qed (auto simp: same_core_def CreateProject_def insert_project_def UpdateProject_def DeleteProject_def cascade_delete_project_def
      CreateContextEdge_def insert_edge_def UpdateContextEdge_def save_edge_def DeleteContextEdge_def Let_def if_Inl_Inr_iff
      rbind_Inr_iff split: if_splits option.splits)

definition has_default :: "db \<Rightarrow> bool" where
  "has_default s \<longleftrightarrow> (\<exists>p\<in>set (db_projects s). proj_ID p = DefaultProjectID)"

lemma project_step_default: "project_step s s' \<Longrightarrow> has_default s \<Longrightarrow> has_default s'"
proof (induction rule: project_step.induct)
  case (context_created env s i cinp s' c)
  then show ?case by (elim CreateContextE) (auto simp: has_default_def dest!: insert_context_itemD(1))
next
  case (snapshot_created env s sinp s' x)
  then show ?case by (elim CreateSnapshotE) (auto simp: has_default_def dest!: insert_snapshotD(1))
next
  case (context_updated env s i j cupd s' c)
  then show ?case by (elim UpdateContextE) (simp add: has_default_def)
next
  case (context_deleted s i j s')
  then show ?case by (elim DeleteContextE) (simp add: has_default_def)
next
  case (project_updated env s i upd s' p)
  then obtain row where "find_project s (trim_space i) = Inr row" "proj_ID p = proj_ID row"
    "s' = s\<lparr>db_projects := update_where (\<lambda>p. proj_ID p = trim_space i) (\<lambda>_. p) (db_projects s)\<rparr>"
    by (auto simp: UpdateProject_def applyProjectPatch_row_def Let_def if_Inl_Inr_iff rbind_Inr_iff)
  then show ?case using project_updated.prems find_project_mem[of s "trim_space i" row]
    by (cases "trim_space i = DefaultProjectID") (force simp: has_default_def set_update_where)+
qed (auto simp: has_default_def CreateProject_def insert_project_def DeleteProject_def cascade_delete_project_def
      CreateContextEdge_def insert_edge_def UpdateContextEdge_def save_edge_def DeleteContextEdge_def Let_def if_Inl_Inr_iff
      rbind_Inr_iff split: if_splits option.splits)

lemma Task_Delete_projects: "Task_Delete s i by = Inr (s', ids) \<Longrightarrow> db_projects s' = db_projects s"
  by (auto simp: Task_Delete_def cascade_delete_task_def Let_def if_Inl_Inr_iff)

lemma store_step_default: "store_step s s' \<Longrightarrow> has_default s \<Longrightarrow> has_default s'"
  using store_step_keeps[of s s'] Task_Delete_projects by (auto simp: has_default_def keeps_context_def)

lemma project_step_payloads: "project_step s s' \<Longrightarrow> db_drafts s' = db_drafts s \<and> db_templates s' = db_templates s"
proof (induction rule: project_step.induct)
  case (context_created env s i cinp s' c)
  then show ?case by (elim CreateContextE) (auto dest!: insert_context_itemD(1))
next
  case (snapshot_created env s sinp s' x)
  then show ?case by (elim CreateSnapshotE) (auto dest!: insert_snapshotD(1))
next
  case (context_updated env s i j cupd s' c)
  then show ?case by (elim UpdateContextE) simp
next
  case (context_deleted s i j s')
  then show ?case by (elim DeleteContextE) simp
qed (auto simp: CreateProject_def insert_project_def UpdateProject_def DeleteProject_def cascade_delete_project_def
      CreateContextEdge_def insert_edge_def UpdateContextEdge_def save_edge_def DeleteContextEdge_def Let_def if_Inl_Inr_iff
      rbind_Inr_iff split: if_splits option.splits)

lemma Task_Delete_payloads: "Task_Delete s i by = Inr (s', ids) \<Longrightarrow> db_drafts s' = db_drafts s \<and> db_templates s' = db_templates s"
  by (auto simp: Task_Delete_def cascade_delete_task_def Let_def if_Inl_Inr_iff)

lemma named_ok_subseq:
  assumes "named_ok rows" "subseq rows' rows"
  shows "named_ok rows'"
proof -
  obtain N where r: "rows' = nths rows N" using assms(2) by (auto simp: subseq_conv_nths)
  have "distinct (map nr_ID (nths rows N))" using assms(1) by (simp add: named_ok_def nths_map[symmetric] distinct_nthsI)
  then show ?thesis using assms(1) set_nths_subset[of rows N] by (auto simp: named_ok_def r)
qed

lemma store_step_payloads_ok: "store_step s s' \<Longrightarrow> payloads_ok s \<Longrightarrow> payloads_ok s'"
  using store_step_keeps[of s s'] Task_Delete_payloads named_ok_subseq by (fastforce simp: payloads_ok_def keeps_context_def)

lemma payload_step_context:
  assumes "payload_step s s'"
  shows "projects_ok s' = projects_ok s" "same_core s s'" "has_default s' = has_default s"
proof -
  have s': "s' = s\<lparr>db_drafts := db_drafts s', db_templates := db_templates s'\<rparr>" by (rule payload_step_tables[OF assms])
  have f: "db_projects s' = db_projects s" "db_context_items s' = db_context_items s" "db_edges s' = db_edges s"
    "db_snapshots s' = db_snapshots s" "db_tasks s' = db_tasks s" "db_cycles s' = db_cycles s" by (subst s', simp)+
  show "projects_ok s' = projects_ok s" "has_default s' = has_default s"
    by (simp_all add: projects_ok_def item_ok_def edge_ok_def owns_item_def snapshot_ok_def has_default_def f)
  show "same_core s s'" by (subst s') (simp add: same_core_def)
qed

lemma app_step_invariants:
  assumes "app_step s s'" "projects_ok s \<and> store_ok s \<and> has_default s \<and> payloads_ok s"
  shows "projects_ok s' \<and> store_ok s' \<and> has_default s' \<and> payloads_ok s'"
proof -
  from assms(1) consider (s) "store_step s s'" | (p) "project_step s s'" | (d) "payload_step s s'" unfolding app_step_def by blast
  then show ?thesis
  proof cases
    case s
    then show ?thesis using assms(2) store_step_projects_ok store_step_ok store_step_default store_step_payloads_ok by blast
  next
    case p
    then show ?thesis
      using assms(2) project_step_projects_ok store_ok_same_core project_step_same_core project_step_default project_step_payloads[OF p]
      by (simp add: payloads_ok_def) blast
  next
    case d
    then show ?thesis using assms(2) payload_step_context[OF d] store_ok_same_core payload_step_ok by blast
  qed
qed

lemma seeded_ok: "projects_ok (seeded_db now)" "store_ok (seeded_db now)" "has_default (seeded_db now)" "payloads_ok (seeded_db now)"
proof -
  show "payloads_ok (seeded_db now)" by (simp add: payloads_ok_def named_ok_def seeded_db_def empty_db_def)
  show "projects_ok (seeded_db now)" by (rule projects_okI) (auto simp: seeded_db_def empty_db_def DefaultProject_def project_ok_def)
  show "store_ok (seeded_db now)" by (rule store_ok_same_core[OF _ empty_db_store_ok]) (simp add: same_core_def seeded_db_def)
  show "has_default (seeded_db now)" by (simp add: has_default_def seeded_db_def DefaultProject_def)
qed

text \<open>C7. Whatever the operations of the store, of projects and of drafts and templates do, in any order, from a fresh
  installation: identifiers stay unique, no draft or template is without a name, every context item belongs to an existing project, every relationship joins two different
  items of its own project with a known relation and a strength from 1 to 5, no two relationships are equal,
  a cycle has at most one snapshot and every snapshot's task, cycle and project exist, the default
  project exists and is active, and the store invariant holds.\<close>

theorem application_invariant:
  assumes "app_step\<^sup>*\<^sup>* (seeded_db now) s"
  shows "projects_ok s \<and> store_ok s \<and> has_default s \<and> payloads_ok s"
  using assms
proof (induction rule: rtranclp_induct)
  case base
  then show ?case using seeded_ok by blast
next
  case (step s s')
  then show ?case using app_step_invariants by blast
qed

definition sample_context_input :: create_context_input where
  "sample_context_input = \<lparr>cci_ID = ''a'', cci_Kind = [], cci_Title = ''Rule'', cci_Body = ''be kind'', cci_SourceTaskID = None,
     cci_SourceCycleID = None, cci_CreatedBy = ActorUser, cci_Pinned = False\<rparr>"

lemma sample_context_created:
  "case CreateContext (sample_env ''u'') (seeded_db 0) DefaultProjectID sample_context_input of Inl _ \<Rightarrow> False | Inr _ \<Rightarrow> True"
  by code_simp

theorem application_invariant_witness:
  "\<exists>s c. CreateContext (sample_env ''u'') (seeded_db 0) DefaultProjectID sample_context_input = Inr (s, c) \<and>
     projects_ok s \<and> store_ok s \<and> has_default s \<and> payloads_ok s"
proof -
  obtain s c where c: "CreateContext (sample_env ''u'') (seeded_db 0) DefaultProjectID sample_context_input = Inr (s, c)"
    using sample_context_created by (auto split: sum.splits)
  then have "app_step (seeded_db 0) s" unfolding app_step_def using project_step.context_created by blast
  then have "app_step\<^sup>*\<^sup>* (seeded_db 0) s" by blast
  then show ?thesis using application_invariant c by blast
qed

section \<open>The snapshot of an attempt\<close>

lemma space_width_other:
  assumes "c \<notin> set ascii_spaces" "\<forall>w\<in>set encs. w \<noteq> [] \<and> hd w \<noteq> c"
  shows "space_width encs (c # s) = 0"
proof -
  have "List.find (\<lambda>w. take (length w) (c # s) = w) encs = None"
    unfolding find_None_iff using assms(2) by (metis list.sel(1) hd_take length_greater_0_conv)
  then show ?thesis using assms(1) by (simp add: space_width_def)
qed

lemma trim_space_tagged: "trim_space (CHR ''<'' # m @ [CHR ''>'']) = CHR ''<'' # m @ [CHR ''>'']"
proof -
  have "space_width space_encodings (CHR ''<'' # x) = 0" for x
    by (rule space_width_other) (simp_all add: ascii_spaces_def space_encodings_def)
  then have l: "trim_left (CHR ''<'' # m @ [CHR ''>'']) = CHR ''<'' # m @ [CHR ''>'']"
    unfolding trim_left_def by (rule trim_front_fuel_0)
  have "space_width (map rev space_encodings) (CHR ''>'' # x) = 0" for x
    by (rule space_width_other) (simp_all add: ascii_spaces_def space_encodings_def)
  then have "trim_front_fuel (map rev space_encodings) k (rev (CHR ''<'' # m @ [CHR ''>''])) = rev (CHR ''<'' # m @ [CHR ''>''])" for k
    by (intro trim_front_fuel_0) simp
  then show ?thesis unfolding trim_space_def l trim_right_def by (metis rev_rev_ident)
qed

lemma trim_space_section: "trim_space (BuildProjectContextSection inp) = BuildProjectContextSection inp"
proof -
  have "\<exists>m. BuildProjectContextSection inp = CHR ''<'' # m @ [CHR ''>'']"
    unfolding BuildProjectContextSection_def
    by (rule exI[of _ "''project_context>'' @ nl @ ''Project: '' @ proj_Name (pcx_Project inp) @ nl @
     (if trim_space (proj_ContextSummary (pcx_Project inp)) \<noteq> []
      then ''Summary: '' @ trim_space (proj_ContextSummary (pcx_Project inp)) @ nl else []) @
     concat (map render_item (pcx_Items inp)) @
     (if 0 < length (pcx_Edges inp)
      then nl @ ''Relationships:'' @ nl @ concat (map (render_edge (pcx_Items inp)) (pcx_Edges inp)) else []) @
     ''</project_context''"]) simp
  then show ?thesis using trim_space_tagged by metis
qed

definition snapshot_view :: "context_snapshot \<Rightarrow> rendered_context" where
  "snapshot_view x = \<lparr>rc_Text = snap_RenderedContext x, rc_TokenEstimate = snap_TokenEstimate x, rc_SnapshotJSON = snap_ContextJSON x\<rparr>"

lemma GetSnapshotForCycle_mem:
  "GetSnapshotForCycle s c = Inr x \<Longrightarrow> x \<in> set (db_snapshots s) \<and> snap_CycleID x = trim_space c \<and> trim_space c \<noteq> []"
  by (auto simp: GetSnapshotForCycle_def Let_def if_Inl_Inr_iff dest!: find_SomeD split: option.splits if_splits)

lemma selectedProjectContext_snapshot:
  assumes "selectedProjectContext env rfc s t c = Inr (s', r)" "has_context t"
  shows "\<exists>x\<in>set (db_snapshots s'). snap_CycleID x = trim_space c \<and> r = snapshot_view x \<and> trim_space c \<noteq> []"
proof -
  from assms obtain project items edges where g:
    "(case GetSnapshotForCycle s c of Inr x \<Rightarrow> Inr (s, snapshot_view x)
      | Inl e \<Rightarrow> if e \<noteq> ErrNotFound then Inl e
         else rbind (CreateSnapshot env s \<lparr>csi_ID = [], csi_TaskID = task_ID t, csi_CycleID = c, csi_ProjectID = proj_ID project,
                csi_ContextJSON = PDoc (JObj (context_bundle rfc project (task_ProjectContextItemIDs t) items edges)),
                csi_RenderedContext = BuildProjectContextSection \<lparr>pcx_Project = project, pcx_Items = items, pcx_Edges = edges\<rparr>,
                csi_TokenEstimate = EstimateTokens (BuildProjectContextSection \<lparr>pcx_Project = project, pcx_Items = items, pcx_Edges = edges\<rparr>)\<rparr>)
              (\<lambda>(s', _). Inr (s', \<lparr>rc_Text = BuildProjectContextSection \<lparr>pcx_Project = project, pcx_Items = items, pcx_Edges = edges\<rparr>,
                 rc_TokenEstimate = EstimateTokens (BuildProjectContextSection \<lparr>pcx_Project = project, pcx_Items = items, pcx_Edges = edges\<rparr>),
                 rc_SnapshotJSON = context_bundle rfc project (task_ProjectContextItemIDs t) items edges\<rparr>))) = Inr (s', r)"
    unfolding selectedProjectContext_def snapshot_view_def Let_def by auto
  show ?thesis
  proof (cases "GetSnapshotForCycle s c")
    case (Inr x)
    then show ?thesis using g GetSnapshotForCycle_mem[OF Inr] by auto
  next
    case (Inl e)
    with g obtain x where cs: "CreateSnapshot env s \<lparr>csi_ID = [], csi_TaskID = task_ID t, csi_CycleID = c, csi_ProjectID = proj_ID project,
                csi_ContextJSON = PDoc (JObj (context_bundle rfc project (task_ProjectContextItemIDs t) items edges)),
                csi_RenderedContext = BuildProjectContextSection \<lparr>pcx_Project = project, pcx_Items = items, pcx_Edges = edges\<rparr>,
                csi_TokenEstimate = EstimateTokens (BuildProjectContextSection \<lparr>pcx_Project = project, pcx_Items = items, pcx_Edges = edges\<rparr>)\<rparr>
         = Inr (s', x)"
      and r: "r = \<lparr>rc_Text = BuildProjectContextSection \<lparr>pcx_Project = project, pcx_Items = items, pcx_Edges = edges\<rparr>,
                 rc_TokenEstimate = EstimateTokens (BuildProjectContextSection \<lparr>pcx_Project = project, pcx_Items = items, pcx_Edges = edges\<rparr>),
                 rc_SnapshotJSON = context_bundle rfc project (task_ProjectContextItemIDs t) items edges\<rparr>"
      by (auto split: if_splits)
    then have "insert_snapshot s x = Inr s'" "snap_CycleID x = trim_space c" "r = snapshot_view x"
      by (auto elim!: CreateSnapshotE simp: NormalizeJSONObject_def snapshot_view_def trim_space_section)
    moreover have "trim_space c \<noteq> []" using CreateSnapshot_cycle[OF cs] by simp
    ultimately show ?thesis using insert_snapshotD(1) by fastforce
  qed
qed

text \<open>An application step that leaves the task, the cycle and the project of a snapshot in place, and what such steps
  do to the snapshot: nothing.\<close>

definition keeping_step :: "context_snapshot \<Rightarrow> db \<Rightarrow> db \<Rightarrow> bool" where
  "keeping_step x s s' \<longleftrightarrow> app_step s s' \<and> snap_TaskID x \<in> task_ID ` set (db_tasks s') \<and>
     snap_CycleID x \<in> cycle_ID ` set (db_cycles s') \<and> snap_ProjectID x \<in> proj_ID ` set (db_projects s')"

lemma project_step_snapshots:
  "project_step s s' \<Longrightarrow> x \<in> set (db_snapshots s) \<Longrightarrow> snap_ProjectID x \<in> proj_ID ` set (db_projects s') \<Longrightarrow> x \<in> set (db_snapshots s')"
proof (induction rule: project_step.induct)
  case (context_created env s i cinp s' c)
  then show ?case by (elim CreateContextE) (auto dest!: insert_context_itemD(1))
next
  case (snapshot_created env s sinp s' x)
  then show ?case by (elim CreateSnapshotE) (auto dest!: insert_snapshotD(1))
next
  case (context_updated env s i j cupd s' c)
  then show ?case by (elim UpdateContextE) simp
next
  case (context_deleted s i j s')
  then show ?case by (elim DeleteContextE) simp
qed (auto simp: CreateProject_def insert_project_def UpdateProject_def DeleteProject_def cascade_delete_project_def
      CreateContextEdge_def insert_edge_def UpdateContextEdge_def save_edge_def DeleteContextEdge_def Let_def if_Inl_Inr_iff
      rbind_Inr_iff split: if_splits option.splits)

lemma Task_Delete_snapshots:
  assumes "Task_Delete s i by = Inr (s', ids)" "distinct (map cycle_ID (db_cycles s))" "x \<in> set (db_snapshots s)"
    "snap_TaskID x \<in> task_ID ` set (db_tasks s')" "snap_CycleID x \<in> cycle_ID ` set (db_cycles s')"
  shows "x \<in> set (db_snapshots s')"
proof -
  let ?i = "trim_space i" let ?gone = "map cycle_ID (filter (\<lambda>c. cycle_TaskID c = ?i) (db_cycles s))"
  have s': "s' = cascade_delete_task s ?i" using assms(1) by (auto simp: Task_Delete_def Let_def if_Inl_Inr_iff)
  have "snap_TaskID x \<noteq> ?i" using assms(4) by (auto simp: s' cascade_delete_task_def Let_def)
  moreover have "snap_CycleID x \<notin> set ?gone"
  proof
    assume "snap_CycleID x \<in> set ?gone"
    then obtain a where a: "a \<in> set (db_cycles s)" "cycle_ID a = snap_CycleID x" "cycle_TaskID a = ?i" by auto
    obtain b where b: "b \<in> set (db_cycles s)" "cycle_ID b = snap_CycleID x" "cycle_TaskID b \<noteq> ?i"
      using assms(5) by (auto simp: s' cascade_delete_task_def Let_def)
    show False using distinct_map_eq[OF assms(2) a(1) b(1)] a b by simp
  qed
  ultimately show ?thesis using assms(3) by (simp add: s' cascade_delete_task_def Let_def)
qed

lemma app_step_keeps_ok: "app_step s s' \<Longrightarrow> projects_ok s \<Longrightarrow> store_ok s \<Longrightarrow> projects_ok s' \<and> store_ok s'"
  unfolding app_step_def
  using store_step_projects_ok store_step_ok project_step_projects_ok store_ok_same_core project_step_same_core payload_step_context by metis

lemma keeping_step_snapshot:
  assumes "keeping_step x s s'" "store_ok s" "x \<in> set (db_snapshots s)"
  shows "x \<in> set (db_snapshots s')"
proof -
  from assms(1) consider (s) "store_step s s'" | (p) "project_step s s'" | (d) "payload_step s s'" unfolding keeping_step_def app_step_def by blast
  then show ?thesis
  proof cases
    case s
    then consider "keeps_context s s'" | i a ids where "Task_Delete s i a = Inr (s', ids)" using store_step_keeps by blast
    then show ?thesis
    proof cases
      case 1
      then show ?thesis using assms(3) by (simp add: keeps_context_def)
    next
      case 2
      then show ?thesis
        using Task_Delete_snapshots cycles_okD(1)[OF store_okD(1)[OF assms(2)]] assms(1,3) unfolding keeping_step_def by blast
    qed
  next
    case p
    then show ?thesis using project_step_snapshots assms(1,3) unfolding keeping_step_def by blast
  next
    case d
    have "db_snapshots s' = db_snapshots s" by (subst payload_step_tables[OF d]) simp
    then show ?thesis using assms(3) by simp
  qed
qed

lemma keeping_steps:
  assumes "(keeping_step x)\<^sup>*\<^sup>* s s'" "projects_ok s" "store_ok s" "x \<in> set (db_snapshots s)"
  shows "projects_ok s' \<and> store_ok s' \<and> x \<in> set (db_snapshots s')"
  using assms(1)
proof (induction rule: rtranclp_induct)
  case base
  then show ?case using assms(2-4) by blast
next
  case (step y z)
  then show ?case using keeping_step_snapshot app_step_keeps_ok[of y z] unfolding keeping_step_def by blast
qed

lemma selectedProjectContext_ok:
  assumes "selectedProjectContext env rfc s t c = Inr (s', r)"
  shows "projects_ok s \<Longrightarrow> projects_ok s'" "store_ok s \<Longrightarrow> store_ok s'"
proof -
  have "s' = s \<or> (\<exists>inp x. CreateSnapshot env s inp = Inr (s', x))"
    using assms by (cases "GetSnapshotForCycle s c")
      (auto simp: selectedProjectContext_def Let_def if_Inl_Inr_iff rbind_Inr_iff split: if_splits)
  then have "s' = s \<or> app_step s s'" unfolding app_step_def by (blast intro: project_step.snapshot_created)
  then show "projects_ok s \<Longrightarrow> projects_ok s'" "store_ok s \<Longrightarrow> store_ok s'"
    using project_step_same_core store_ok_same_core CreateSnapshot_ok \<open>s' = s \<or> (\<exists>inp x. CreateSnapshot env s inp = Inr (s', x))\<close>
    by (blast intro: project_step.snapshot_created)+
qed

text \<open>The three reads a selection makes before it looks for a snapshot: the project, the items, the relationships.\<close>

definition context_reads :: "db \<Rightarrow> task \<Rightarrow> unit res" where
  "context_reads s t =
     rbind (GetProject s (case task_ProjectID t of Some p \<Rightarrow> p | None \<Rightarrow> [])) (\<lambda>project.
     rbind (ListContextByIDs s (proj_ID project) (task_ProjectContextItemIDs t)) (\<lambda>items.
     rbind (ListContextEdges s (proj_ID project) (Some (task_ProjectContextItemIDs t))) (\<lambda>edges. Inr ())))"

lemma selection_with_snapshot:
  assumes "has_context t" "GetSnapshotForCycle s c = Inr x"
  shows "selectedProjectContext env rfc s t c = rbind (context_reads s t) (\<lambda>_. Inr (s, snapshot_view x))"
  using assms by (auto simp: selectedProjectContext_def context_reads_def snapshot_view_def Let_def rbind_def split: sum.splits)

lemma GetSnapshotForCycle_here:
  assumes "projects_ok s" "x \<in> set (db_snapshots s)" "snap_CycleID x = trim_space c" "trim_space c \<noteq> []"
  shows "GetSnapshotForCycle s c = Inr x"
proof -
  have inj: "inj_on snap_CycleID (set (db_snapshots s))" using projects_okD(5)[OF assms(1)] by (simp add: distinct_map)
  obtain y where "List.find (\<lambda>x. snap_CycleID x = trim_space c) (db_snapshots s) = Some y"
    using assms(2,3) by (cases "List.find (\<lambda>x. snap_CycleID x = trim_space c) (db_snapshots s)") (auto simp: find_None_iff)
  then have y: "GetSnapshotForCycle s c = Inr y" using assms(4) by (simp add: GetSnapshotForCycle_def Let_def)
  then show ?thesis using GetSnapshotForCycle_mem[OF y] inj_onD[OF inj, of y x] assms(2,3) by simp
qed

text \<open>C32. The context of an attempt is pinned: once the agent of a cycle has been given the selected context there
  is a snapshot of it, and whatever the application does from then on, edits and deletions of context items and
  relationships included, as long as it does not delete the task, the cycle or the project of the snapshot: every later
  selection for that cycle, of whatever task row with a selection, writes nothing and either fails with the error of
  reading the project, the selected items or their relationships, or returns that same text, estimate and bundle.\<close>

theorem snapshot_pins_context:
  assumes "projects_ok s" "store_ok s" "has_context t" "selectedProjectContext env rfc s t c = Inr (s1, r1)"
  shows "\<exists>x\<in>set (db_snapshots s1). snap_CycleID x = trim_space c \<and>
    (\<forall>s2. (keeping_step x)\<^sup>*\<^sup>* s1 s2 \<longrightarrow>
       (\<forall>env' rfc' t'. has_context t' \<longrightarrow>
          selectedProjectContext env' rfc' s2 t' c = rbind (context_reads s2 t') (\<lambda>_. Inr (s2, r1))))"
proof -
  obtain x where x: "x \<in> set (db_snapshots s1)" "snap_CycleID x = trim_space c" "r1 = snapshot_view x" "trim_space c \<noteq> []"
    using selectedProjectContext_snapshot[OF assms(4,3)] by blast
  have ok: "projects_ok s1" "store_ok s1" using selectedProjectContext_ok[OF assms(4)] assms(1,2) by blast+
  have "selectedProjectContext env' rfc' s2 t' c = rbind (context_reads s2 t') (\<lambda>_. Inr (s2, r1))"
    if "(keeping_step x)\<^sup>*\<^sup>* s1 s2" "has_context t'" for s2 env' rfc' t'
  proof -
    have "projects_ok s2" "x \<in> set (db_snapshots s2)" using keeping_steps[OF that(1) ok x(1)] by blast+
    then have "GetSnapshotForCycle s2 c = Inr x" using x(2,4) by (rule GetSnapshotForCycle_here)
    then show ?thesis using selection_with_snapshot[OF that(2)] x(3) by simp
  qed
  then show ?thesis using x(1,2) by blast
qed

definition ctx_task :: task where
  "ctx_task = (sample_task ''t'')\<lparr>task_ProjectID := Some DefaultProjectID, task_ProjectContextItemIDs := [''a'']\<rparr>"

definition ctx_item :: context_item where
  "ctx_item = \<lparr>pci_ID = ''a'', pci_ProjectID = DefaultProjectID, pci_Kind = ''note'', pci_Title = ''Rule'', pci_Body = ''be kind'',
     pci_SourceTaskID = None, pci_SourceCycleID = None, pci_CreatedBy = ActorUser, pci_Pinned = False, pci_CreatedAt = 0, pci_UpdatedAt = 0\<rparr>"

definition ctx_db :: db where
  "ctx_db = sample_db1\<lparr>db_tasks := [ctx_task], db_projects := [DefaultProject 0], db_context_items := [ctx_item]\<rparr>"

lemma ctx_db_ok: "projects_ok ctx_db"
  by (rule projects_okI)
     (auto simp: ctx_db_def ctx_item_def sample_defs empty_db_def DefaultProject_def project_ok_def item_ok_def opt_ref_def)

lemma first_selection:
  assumes "has_context t" "GetProject s (the (task_ProjectID t)) = Inr p" "ListContextByIDs s (proj_ID p) (task_ProjectContextItemIDs t) = Inr items"
    "ListContextEdges s (proj_ID p) (Some (task_ProjectContextItemIDs t)) = Inr edges" "GetSnapshotForCycle s c = Inl ErrNotFound"
    "CreateSnapshot env s \<lparr>csi_ID = [], csi_TaskID = task_ID t, csi_CycleID = c, csi_ProjectID = proj_ID p,
        csi_ContextJSON = PDoc (JObj (context_bundle rfc p (task_ProjectContextItemIDs t) items edges)),
        csi_RenderedContext = BuildProjectContextSection \<lparr>pcx_Project = p, pcx_Items = items, pcx_Edges = edges\<rparr>,
        csi_TokenEstimate = EstimateTokens (BuildProjectContextSection \<lparr>pcx_Project = p, pcx_Items = items, pcx_Edges = edges\<rparr>)\<rparr>
      = Inr (s1, x)"
  shows "\<exists>r. selectedProjectContext env rfc s t c = Inr (s1, r)"
  using assms by (auto simp: selectedProjectContext_def has_context_def Let_def split: option.splits)

lemma later_selection:
  assumes "has_context t" "GetProject s (the (task_ProjectID t)) = Inr p" "ListContextByIDs s (proj_ID p) (task_ProjectContextItemIDs t) = Inr items"
    "ListContextEdges s (proj_ID p) (Some (task_ProjectContextItemIDs t)) = Inr edges" "GetSnapshotForCycle s c = Inr x"
  shows "\<exists>r. selectedProjectContext env rfc s t c = Inr (s, r)"
  using assms by (auto simp: selectedProjectContext_def has_context_def Let_def split: option.splits)

lemma EstimateTokens_nonneg: "0 \<le> EstimateTokens x"
  by (simp add: EstimateTokens_def)

lemma ctx_trims: "trim_space DefaultProjectID = DefaultProjectID \<and> trim_space ''a'' = ''a'' \<and> trim_space ''c'' = ''c'' \<and>
    trim_space ''t'' = ''t'' \<and> trim_space ''be brief'' \<noteq> [] \<and> DefaultProjectID \<noteq> []"
  by code_simp

text \<open>The database of the example with any snapshots and any body of the item.\<close>

lemma ctx_reads:
  fixes b :: string and xs :: "context_snapshot list"
  defines "s \<equiv> ctx_db\<lparr>db_snapshots := xs, db_context_items := [ctx_item\<lparr>pci_Body := b\<rparr>]\<rparr>"
  shows "has_context ctx_task" "GetProject s (the (task_ProjectID ctx_task)) = Inr (DefaultProject 0)"
    "ListContextByIDs s (proj_ID (DefaultProject 0)) (task_ProjectContextItemIDs ctx_task) = Inr [ctx_item\<lparr>pci_Body := b\<rparr>]"
    "ListContextEdges s (proj_ID (DefaultProject 0)) (Some (task_ProjectContextItemIDs ctx_task)) = Inr []"
  using ctx_trims
  by (simp_all add: s_def ctx_db_def ctx_task_def ctx_item_def sample_defs empty_db_def DefaultProject_def has_context_def GetProject_def
      find_project_def ListContextByIDs_def ListContextEdges_def normalizeEdgeNodeFilter_def Let_def)

lemma ctx_snapshot_created:
  assumes "0 \<le> csi_TokenEstimate inp" "csi_TaskID inp = ''t''" "csi_CycleID inp = ''c''" "csi_ProjectID inp = DefaultProjectID"
    "\<exists>j. csi_ContextJSON inp = PDoc (JObj j)"
  shows "\<exists>x. CreateSnapshot env ctx_db inp = Inr (ctx_db\<lparr>db_snapshots := [x]\<rparr>, x) \<and> snap_CycleID x = ''c''"
proof -
  obtain j where "csi_ContextJSON inp = PDoc (JObj j)" using assms(5) by blast
  then show ?thesis
    using assms(1-4) ctx_trims
    by (simp add: CreateSnapshot_def insert_snapshot_def NormalizeJSONObject_def ctx_db_def ctx_task_def sample_defs empty_db_def
      DefaultProject_def Let_def)
qed

lemma ctx_store_ok: "store_ok ctx_db"
proof -
  have "acyclic ({} :: (string \<times> string) set)" by (simp add: wf_acyclic)
  moreover have "cycles_ok ctx_db" using sample_dbs_ok(2) cycles_ok_cong[of ctx_db sample_db1] by (simp add: ctx_db_def)
  ultimately show ?thesis
    using ctx_trims by (simp add: store_ok_def deps_ok_def task_ids_ok_def refs_ok_def dep_edges_def ctx_db_def ctx_task_def sample_defs)
qed

theorem snapshot_pins_context_witness:
  "\<exists>s1 r x s2 item. selectedProjectContext (sample_env ''s'') (\<lambda>_. ''now'') ctx_db ctx_task ''c'' = Inr (s1, r) \<and>
     keeping_step x s1 s2 \<and> db_context_items s2 = [item] \<and> pci_Body item = ''be brief'' \<and>
     selectedProjectContext (sample_env ''y'') (\<lambda>_. ''now'') s2 ctx_task ''c'' = Inr (s2, r)"
proof -
  have db: "ctx_db\<lparr>db_snapshots := [], db_context_items := [ctx_item\<lparr>pci_Body := ''be kind''\<rparr>]\<rparr> = ctx_db"
    by (simp add: ctx_db_def ctx_item_def sample_defs empty_db_def)
  note rd = ctx_reads(1) ctx_reads(2-4)[where xs = "[]" and b = "''be kind''", unfolded db]
  let ?sec = "BuildProjectContextSection \<lparr>pcx_Project = DefaultProject 0, pcx_Items = [ctx_item\<lparr>pci_Body := ''be kind''\<rparr>], pcx_Edges = []\<rparr>"
  let ?inp = "\<lparr>csi_ID = [], csi_TaskID = task_ID ctx_task, csi_CycleID = ''c'',
        csi_ProjectID = proj_ID (DefaultProject 0),
        csi_ContextJSON = PDoc (JObj (context_bundle (\<lambda>_. ''now'') (DefaultProject 0) (task_ProjectContextItemIDs ctx_task)
            [ctx_item\<lparr>pci_Body := ''be kind''\<rparr>] [])),
        csi_RenderedContext = ?sec, csi_TokenEstimate = EstimateTokens ?sec\<rparr>"
  have cr: "\<exists>x. CreateSnapshot (sample_env ''s'') ctx_db ?inp = Inr (ctx_db\<lparr>db_snapshots := [x]\<rparr>, x) \<and> snap_CycleID x = ''c''"
    by (rule ctx_snapshot_created) (simp_all add: EstimateTokens_nonneg ctx_task_def sample_task_def DefaultProject_def)
  obtain x where x: "CreateSnapshot (sample_env ''s'') ctx_db ?inp = Inr (ctx_db\<lparr>db_snapshots := [x]\<rparr>, x)"
    and c: "snap_CycleID x = ''c''"
    using cr by blast
  let ?s1 = "ctx_db\<lparr>db_snapshots := [x]\<rparr>"
  have "GetSnapshotForCycle ctx_db ''c'' = Inl ErrNotFound"
    using ctx_trims by (simp add: GetSnapshotForCycle_def ctx_db_def sample_defs empty_db_def)
  then obtain r1 where a: "selectedProjectContext (sample_env ''s'') (\<lambda>_. ''now'') ctx_db ctx_task ''c'' = Inr (?s1, r1)"
    using first_selection[OF rd _ x] by blast
  let ?upd = "\<lparr>uci_Kind = None, uci_Title = None, uci_Body = Some ''be brief'', uci_Pinned = None\<rparr>"
  let ?item = "ctx_item\<lparr>pci_Body := ''be brief'', pci_UpdatedAt := 10\<rparr>"
  let ?s2 = "ctx_db\<lparr>db_snapshots := [x], db_context_items := [?item]\<rparr>"
  have "trim_space ''be brief'' = ''be brief''" by code_simp
  then have "UpdateContext (sample_env ''u'') ?s1 DefaultProjectID ''a'' ?upd = Inr (?s2, ?item)"
    using ctx_trims by (simp add: UpdateContext_def validateContextPatch_def applyContextPatch_def update_where_def ctx_db_def ctx_item_def
        sample_defs empty_db_def Let_def)
  then have step: "app_step ?s1 ?s2" unfolding app_step_def by (blast intro: project_step.context_updated)
  from snapshot_pins_context[OF ctx_db_ok ctx_store_ok rd(1) a] obtain y where y: "y \<in> set (db_snapshots ?s1)"
    and pin: "\<And>s2. (keeping_step y)\<^sup>*\<^sup>* ?s1 s2 \<Longrightarrow>
       selectedProjectContext (sample_env ''y'') (\<lambda>_. ''now'') s2 ctx_task ''c'' = rbind (context_reads s2 ctx_task) (\<lambda>_. Inr (s2, r1))"
    using ctx_reads(1) by blast
  have "snapshot_ok ?s1 y" using projects_okD(9)[OF selectedProjectContext_ok(1)[OF a ctx_db_ok] y] .
  then have k: "keeping_step y ?s1 ?s2" using step by (simp add: keeping_step_def snapshot_ok_def)
  have "context_reads ?s2 ctx_task = Inr ()"
    using ctx_trims
    by (simp add: context_reads_def ctx_db_def ctx_task_def ctx_item_def sample_defs empty_db_def DefaultProject_def GetProject_def
        find_project_def ListContextByIDs_def ListContextEdges_def normalizeEdgeNodeFilter_def Let_def)
  then have "selectedProjectContext (sample_env ''y'') (\<lambda>_. ''now'') ?s2 ctx_task ''c'' = Inr (?s2, r1)"
    using pin[OF r_into_rtranclp[where r = "keeping_step y", OF k]] by simp
  then show ?thesis using a k by (intro exI[of _ ?s1] exI[of _ r1] exI[of _ y] exI[of _ ?s2] exI[of _ ?item]) simp
qed

section \<open>Deleted items\<close>

lemma pick_items_error: "pick_items rows ids = Inl e \<Longrightarrow> e = ErrNotFound"
  by (induction ids) (auto simp: rbind_def split: option.splits sum.splits)

lemma pick_items_missing:
  assumes "j \<in> set ids" "\<forall>c\<in>set rows. pci_ID c \<noteq> trim_space j"
  shows "pick_items rows ids = Inl ErrNotFound"
  using assms
proof (induction ids)
  case (Cons i ids)
  show ?case
  proof (cases "j = i")
    case True
    then have "List.find (\<lambda>c. pci_ID c = trim_space i) rows = None" using Cons.prems(2) by (auto simp: find_None_iff)
    then show ?thesis by simp
  next
    case False
    then have "pick_items rows ids = Inl ErrNotFound" using Cons by simp
    then show ?thesis by (auto split: option.splits)
  qed
qed simp

text \<open>C33. Deleting a context item breaks the tasks that select it: the task keeps the identifier in its
  selection, and from then on the selection of context fails with "not found" before every run of its agent,
  for every attempt, also for one whose snapshot is already recorded.\<close>

theorem deleted_context_item_blocks_runs:
  assumes "DeleteContext s p i = Inr s'" "has_context t" "task_ProjectID t = Some p"
    "trim_space i \<in> trim_space ` set (task_ProjectContextItemIDs t)"
  shows "db_tasks s' = db_tasks s \<and> (\<forall>env rfc c. selectedProjectContext env rfc s' t c = Inl ErrNotFound)"
proof -
  have s': "db_tasks s' = db_tasks s"
    "db_context_items s' = filter (\<lambda>c. \<not> (pci_ID c = trim_space i \<and> pci_ProjectID c = trim_space p)) (db_context_items s)"
    using assms(1) by (auto elim!: DeleteContextE)
  have p: "trim_space p \<noteq> []" "task_ProjectContextItemIDs t \<noteq> []" using assms(2,3) by (auto simp: has_context_def)
  obtain j where j: "j \<in> set (task_ProjectContextItemIDs t)" "trim_space j = trim_space i" using assms(4) by auto
  have pick: "pick_items (filter (\<lambda>c. pci_ProjectID c = trim_space p \<and> P c) (db_context_items s')) (task_ProjectContextItemIDs t)
      = Inl ErrNotFound" for P
    by (rule pick_items_missing[OF j(1)]) (auto simp: s'(2) j(2))
  have "selectedProjectContext env rfc s' t c = Inl ErrNotFound" for env rfc c
  proof (cases "find_project s' (trim_space p)")
    case (Inl e)
    then have "e = ErrNotFound" by (auto simp: find_project_def split: option.splits)
    then show ?thesis using Inl assms(2,3) p by (simp add: selectedProjectContext_def GetProject_def Let_def)
  next
    case (Inr project)
    then have "proj_ID project = trim_space p" using find_project_mem by blast
    then show ?thesis using Inr assms(2,3) p pick by (simp add: selectedProjectContext_def GetProject_def ListContextByIDs_def Let_def)
  qed
  then show ?thesis using s'(1) by blast
qed

lemma ctx_delete:
  "(case DeleteContext ctx_db DefaultProjectID '' a '' of Inl _ \<Rightarrow> False | Inr _ \<Rightarrow> has_context ctx_task) \<and>
   trim_space '' a '' \<in> trim_space ` set (task_ProjectContextItemIDs ctx_task) \<and> task_ProjectID ctx_task = Some DefaultProjectID"
  by code_simp

theorem deleted_context_item_blocks_runs_witness:
  "\<exists>s. DeleteContext ctx_db DefaultProjectID '' a '' = Inr s \<and> db_tasks s = [ctx_task] \<and>
     selectedProjectContext (sample_env ''s'') (\<lambda>_. ''now'') s ctx_task ''c'' = Inl ErrNotFound"
proof -
  obtain s where "DeleteContext ctx_db DefaultProjectID '' a '' = Inr s" "has_context ctx_task"
    using ctx_delete by (auto split: sum.splits)
  then show ?thesis
    using deleted_context_item_blocks_runs[of ctx_db DefaultProjectID "'' a ''" s ctx_task] ctx_delete by (simp add: ctx_db_def)
qed

end
