(* ===== verification/App_Settings.thy ===== *)
theory App_Settings
  imports Store_State "HOL-Library.AList"
begin

text \<open>
  The singleton row of runtime settings: \<^verbatim>\<open>pkgs/tasks/store/internal/settings\<close> with \<^verbatim>\<open>domain/app_settings.go\<close>,
  and the request that patches it (\<^verbatim>\<open>handler/handler_settings.go\<close>). The table is the option of its only row.
  \<open>zone\<close> says which names \<^verbatim>\<open>time.LoadLocation\<close> knows.
\<close>

section \<open>The row (domain/app_settings.go)\<close>

record settings_row =
  set_ID :: nat
  set_AgentPaused :: bool
  set_Runner :: string
  set_CursorBin :: string
  set_CursorModel :: string
  set_MaxRunDurationSeconds :: int
  set_StreamIdleStuckSeconds :: int
  set_AgentPickupDelaySeconds :: int
  set_DisplayTimezone :: string
  set_OptimisticMutationsEnabled :: bool
  set_SSEReplayEnabled :: bool
  set_RunnerConfigs :: payload
  set_VerifyMaxRetries :: int
  set_VerifyRunnerName :: string
  set_VerifyRunnerModel :: string
  set_VerifyCommandTimeoutSeconds :: int
  set_CursorSessionResumeEnabled :: bool
  set_UpdatedAt :: gotime

definition AppSettingsRowID :: nat where
  "AppSettingsRowID = 1"

definition DefaultAppSettings :: settings_row where
  "DefaultAppSettings = \<lparr>set_ID = AppSettingsRowID, set_AgentPaused = False, set_Runner = ''cursor'', set_CursorBin = [],
     set_CursorModel = [], set_MaxRunDurationSeconds = 0, set_StreamIdleStuckSeconds = 60, set_AgentPickupDelaySeconds = 5,
     set_DisplayTimezone = [], set_OptimisticMutationsEnabled = True, set_SSEReplayEnabled = True,
     set_RunnerConfigs = PBlank, set_VerifyMaxRetries = 2, set_VerifyRunnerName = [], set_VerifyRunnerModel = [],
     set_VerifyCommandTimeoutSeconds = 120, set_CursorSessionResumeEnabled = True, set_UpdatedAt = 0\<rparr>"

text \<open>The check constraints of the table, the type of its JSON column included.\<close>

definition settings_checks :: "settings_row \<Rightarrow> bool" where
  "settings_checks r \<longleftrightarrow> set_ID r = 1 \<and> 0 \<le> set_MaxRunDurationSeconds r \<and> 0 \<le> set_StreamIdleStuckSeconds r \<and>
     0 \<le> set_AgentPickupDelaySeconds r \<and> 0 \<le> set_VerifyMaxRetries r \<and> 0 < set_VerifyCommandTimeoutSeconds r \<and>
     (case set_RunnerConfigs r of PDoc _ \<Rightarrow> True | _ \<Rightarrow> False)"

text \<open>
  The insert that seeds the table: the empty JSON column takes its default, and an existing row is left alone
  (\<^verbatim>\<open>ON CONFLICT DO NOTHING\<close>).
\<close>

definition seed_row :: "gotime \<Rightarrow> settings_row option \<Rightarrow> settings_row res" where
  "seed_row now t =
     (case t of Some r \<Rightarrow> Inr r
      | None \<Rightarrow>
          let r = DefaultAppSettings\<lparr>set_UpdatedAt := now, set_RunnerConfigs := PDoc (JObj [])\<rparr> in
          if settings_checks r then Inr r else Inl (ErrDB ''app_settings check''))"

section \<open>Patches (settings.go)\<close>

record settings_patch =
  sp_AgentPaused :: "bool option"
  sp_Runner :: "string option"
  sp_CursorBin :: "string option"
  sp_CursorModel :: "string option"
  sp_MaxRunDurationSeconds :: "int option"
  sp_StreamIdleStuckSeconds :: "int option"
  sp_AgentPickupDelaySeconds :: "int option"
  sp_DisplayTimezone :: "string option"
  sp_OptimisticMutationsEnabled :: "bool option"
  sp_SSEReplayEnabled :: "bool option"
  sp_RunnerConfigs :: "payload option"
  sp_VerifyMaxRetries :: "int option"
  sp_VerifyRunnerName :: "string option"
  sp_VerifyRunnerModel :: "string option"
  sp_VerifyCommandTimeoutSeconds :: "int option"
  sp_CursorSessionResumeEnabled :: "bool option"

definition empty_patch :: settings_patch where
  "empty_patch = \<lparr>sp_AgentPaused = None, sp_Runner = None, sp_CursorBin = None, sp_CursorModel = None,
     sp_MaxRunDurationSeconds = None, sp_StreamIdleStuckSeconds = None, sp_AgentPickupDelaySeconds = None,
     sp_DisplayTimezone = None, sp_OptimisticMutationsEnabled = None, sp_SSEReplayEnabled = None,
     sp_RunnerConfigs = None, sp_VerifyMaxRetries = None, sp_VerifyRunnerName = None, sp_VerifyRunnerModel = None,
     sp_VerifyCommandTimeoutSeconds = None, sp_CursorSessionResumeEnabled = None\<rparr>"

definition IsEmpty :: "settings_patch \<Rightarrow> bool" where
  "IsEmpty p \<longleftrightarrow> sp_AgentPaused p = None \<and> sp_Runner p = None \<and> sp_CursorBin p = None \<and> sp_CursorModel p = None \<and>
     sp_MaxRunDurationSeconds p = None \<and> sp_StreamIdleStuckSeconds p = None \<and> sp_AgentPickupDelaySeconds p = None \<and>
     sp_DisplayTimezone p = None \<and> sp_OptimisticMutationsEnabled p = None \<and> sp_SSEReplayEnabled p = None \<and>
     sp_RunnerConfigs p = None \<and> sp_VerifyMaxRetries p = None \<and> sp_VerifyRunnerName p = None \<and>
     sp_VerifyRunnerModel p = None \<and> sp_VerifyCommandTimeoutSeconds p = None \<and> sp_CursorSessionResumeEnabled p = None"

text \<open>\<open>given x P\<close> is \<^verbatim>\<open>x != nil && P(*x)\<close>, \<open>overlay x v\<close> is \<^verbatim>\<open>if x != nil\<close> then \<^verbatim>\<open>*x\<close>.\<close>

definition given :: "'a option \<Rightarrow> ('a \<Rightarrow> bool) \<Rightarrow> bool" where
  "given x P = (case x of None \<Rightarrow> False | Some v \<Rightarrow> P v)"

definition overlay :: "'a option \<Rightarrow> 'a \<Rightarrow> 'a" where
  "overlay x v = (case x of None \<Rightarrow> v | Some w \<Rightarrow> w)"

definition overlay_trim :: "string option \<Rightarrow> string \<Rightarrow> string" where
  "overlay_trim x v = (case x of None \<Rightarrow> v | Some w \<Rightarrow> trim_space w)"

definition validatePatch :: "(string \<Rightarrow> bool) \<Rightarrow> settings_patch \<Rightarrow> unit res" where
  "validatePatch zone p =
     (if given (sp_Runner p) (\<lambda>v. trim_space v = []) then Inl (ErrInvalidInput ''runner must be non-empty'')
      else if given (sp_MaxRunDurationSeconds p) (\<lambda>v. v < 0)
      then Inl (ErrInvalidInput ''max_run_duration_seconds must be >= 0'')
      else if given (sp_StreamIdleStuckSeconds p) (\<lambda>v. v < 0)
      then Inl (ErrInvalidInput ''stream_idle_stuck_seconds must be >= 0'')
      else if given (sp_AgentPickupDelaySeconds p) (\<lambda>v. v < 0 \<or> v > 604800)
      then Inl (ErrInvalidInput ''agent_pickup_delay_seconds must be between 0 and 604800'')
      else if given (sp_CursorModel p) (\<lambda>v. 256 < length (trim_space v))
      then Inl (ErrInvalidInput ''cursor_model too long (max 256)'')
      else if given (sp_DisplayTimezone p) (\<lambda>v. trim_space v \<noteq> [] \<and> \<not> zone (trim_space v))
      then Inl (ErrInvalidInput ''display_timezone is not a valid IANA timezone'')
      else if given (sp_VerifyMaxRetries p) (\<lambda>v. v < 0) then Inl (ErrInvalidInput ''verify_max_retries must be >= 0'')
      else if given (sp_VerifyRunnerModel p) (\<lambda>v. 256 < length (trim_space v))
      then Inl (ErrInvalidInput ''verify_runner_model too long (max 256)'')
      else if given (sp_VerifyCommandTimeoutSeconds p) (\<lambda>v. v \<le> 0)
      then Inl (ErrInvalidInput ''verify_command_timeout_seconds must be > 0'')
      else Inr ())"

text \<open>Decoding an object into a map: of two entries with one key the last counts.\<close>

definition decode_map :: "(string \<times> json) list \<Rightarrow> (string \<times> json) list" where
  "decode_map kvs = foldl (\<lambda>m kv. AList.update (fst kv) (snd kv) m) [] kvs"

definition dualWriteCursorToRunnerConfigs :: "settings_row \<Rightarrow> settings_row" where
  "dualWriteCursorToRunnerConfigs row =
     (let configs = (case set_RunnerConfigs row of PDoc (JObj kvs) \<Rightarrow> decode_map kvs | _ \<Rightarrow> []);
          cursorCfg = JObj [(''binary_path'', JStr (set_CursorBin row)), (''default_model'', JStr (set_CursorModel row))]
      in row\<lparr>set_RunnerConfigs := PDoc (JObj (AList.update ''cursor'' cursorCfg configs))\<rparr>)"

definition applyPatch :: "settings_row \<Rightarrow> settings_patch \<Rightarrow> settings_row" where
  "applyPatch row p = dualWriteCursorToRunnerConfigs
     (row\<lparr>set_AgentPaused := overlay (sp_AgentPaused p) (set_AgentPaused row),
          set_Runner := overlay_trim (sp_Runner p) (set_Runner row),
          set_CursorBin := overlay_trim (sp_CursorBin p) (set_CursorBin row),
          set_CursorModel := overlay_trim (sp_CursorModel p) (set_CursorModel row),
          set_MaxRunDurationSeconds := overlay (sp_MaxRunDurationSeconds p) (set_MaxRunDurationSeconds row),
          set_StreamIdleStuckSeconds := overlay (sp_StreamIdleStuckSeconds p) (set_StreamIdleStuckSeconds row),
          set_AgentPickupDelaySeconds := overlay (sp_AgentPickupDelaySeconds p) (set_AgentPickupDelaySeconds row),
          set_DisplayTimezone := overlay_trim (sp_DisplayTimezone p) (set_DisplayTimezone row),
          set_OptimisticMutationsEnabled := overlay (sp_OptimisticMutationsEnabled p) (set_OptimisticMutationsEnabled row),
          set_SSEReplayEnabled := overlay (sp_SSEReplayEnabled p) (set_SSEReplayEnabled row),
          set_RunnerConfigs := overlay (sp_RunnerConfigs p) (set_RunnerConfigs row),
          set_VerifyMaxRetries := overlay (sp_VerifyMaxRetries p) (set_VerifyMaxRetries row),
          set_VerifyRunnerName := overlay_trim (sp_VerifyRunnerName p) (set_VerifyRunnerName row),
          set_VerifyRunnerModel := overlay_trim (sp_VerifyRunnerModel p) (set_VerifyRunnerModel row),
          set_VerifyCommandTimeoutSeconds := overlay (sp_VerifyCommandTimeoutSeconds p) (set_VerifyCommandTimeoutSeconds row),
          set_CursorSessionResumeEnabled := overlay (sp_CursorSessionResumeEnabled p) (set_CursorSessionResumeEnabled row)\<rparr>)"

section \<open>Reading and updating (settings.go)\<close>

definition Settings_Update ::
  "(string \<Rightarrow> bool) \<Rightarrow> gotime \<Rightarrow> settings_row option \<Rightarrow> settings_patch \<Rightarrow> (settings_row option \<times> settings_row) res" where
  "Settings_Update zone now t p =
     rbind (validatePatch zone p) (\<lambda>_.
     rbind (seed_row now t) (\<lambda>row.
     let row' = (applyPatch row p)\<lparr>set_UpdatedAt := now\<rparr> in
     if settings_checks row' then Inr (Some row', row') else Inl (ErrDB ''app_settings check'')))"

definition Settings_Get ::
  "(string \<Rightarrow> bool) \<Rightarrow> gotime \<Rightarrow> settings_row option \<Rightarrow> (settings_row option \<times> settings_row) res" where
  "Settings_Get zone now t =
     (case t of
        Some row \<Rightarrow>
          if \<not> set_OptimisticMutationsEnabled row \<or> \<not> set_SSEReplayEnabled row
          then Settings_Update zone now t (empty_patch\<lparr>sp_OptimisticMutationsEnabled := Some True, sp_SSEReplayEnabled := Some True\<rparr>)
          else Inr (t, row)
      | None \<Rightarrow> rbind (seed_row now None) (\<lambda>row. Inr (Some row, row)))"

section \<open>The request (handler/handler_http_json.go, handler_settings.go)\<close>

definition storeErrorClientMessage :: "err \<Rightarrow> string" where
  "storeErrorClientMessage e =
     (case e of
        ErrNotFound \<Rightarrow> ''not found''
      | ErrConflict d \<Rightarrow> if trim_space d \<noteq> [] then trim_space d else ''task id already exists''
      | ErrInvalidInput d \<Rightarrow> if trim_space d \<noteq> [] then trim_space d else ''bad request''
      | ErrDB _ \<Rightarrow> ''internal server error'')"

definition storeErrHTTPResponse :: "err \<Rightarrow> nat \<times> string" where
  "storeErrHTTPResponse e =
     (let code = (case e of ErrNotFound \<Rightarrow> 404 | ErrInvalidInput _ \<Rightarrow> 400 | ErrConflict _ \<Rightarrow> 409 | ErrDB _ \<Rightarrow> 500);
          msg = storeErrorClientMessage e
      in if code = 500 then (code, ''internal server error'') else (code, msg))"

text \<open>
  \<open>agent\<close> says whether the worker control is wired, \<open>reload\<close> whether it accepts the new settings; \<open>body\<close> is the
  decoded patch, or whether the body was refused for its length. The result is the HTTP status, the table,
  and whether \<^verbatim>\<open>settings_changed\<close> was published. The body has no field for the runner configurations, and its
  two rollout flags are ignored.
\<close>

definition patchSettings ::
  "(string \<Rightarrow> bool) \<Rightarrow> gotime \<Rightarrow> bool \<Rightarrow> bool \<Rightarrow> settings_row option \<Rightarrow> bool + settings_patch \<Rightarrow>
     nat \<times> settings_row option \<times> bool" where
  "patchSettings zone now agent reload t body =
     (if \<not> agent then (503, t, False)
      else case body of
        Inl too_large \<Rightarrow> (if too_large then 413 else 400, t, False)
      | Inr b \<Rightarrow>
          let patch = b\<lparr>sp_OptimisticMutationsEnabled := None, sp_SSEReplayEnabled := None, sp_RunnerConfigs := None\<rparr> in
          if IsEmpty patch then (400, t, False)
          else case Settings_Update zone now t patch of
            Inl e \<Rightarrow> (fst (storeErrHTTPResponse e), t, False)
          | Inr (t', _) \<Rightarrow> if reload then (200, t', True) else (500, t', False))"

end
