(* ===== verification/Settings_Properties.thy ===== *)
theory Settings_Properties
  imports App_Settings
begin

text \<open>
  The settings row stays valid whatever patches arrive, reading it repairs the flags, and the configuration of
  the cursor runner always mirrors the two old columns.
\<close>

section \<open>Maps decoded from objects\<close>

lemma decode_map_distinct: "distinct (map fst (decode_map kvs))"
proof -
  have "distinct (map fst (foldl (\<lambda>m kv. AList.update (fst kv) (snd kv) m) m kvs))" if "distinct (map fst m)" for m
    using that by (induction kvs arbitrary: m) (simp_all add: distinct_update)
  then show ?thesis by (simp add: decode_map_def)
qed

lemma decode_map_lookup: "map_of (decode_map kvs) k = map_of (rev kvs) k"
proof -
  have "map_of (foldl (\<lambda>m kv. AList.update (fst kv) (snd kv) m) m kvs) k =
      (case map_of (rev kvs) k of Some v \<Rightarrow> Some v | None \<Rightarrow> map_of m k)" for m
    by (induction kvs arbitrary: m) (auto simp: update_conv map_add_def split: option.splits)
  then show ?thesis by (simp add: decode_map_def split: option.splits)
qed

section \<open>The invariant\<close>

definition cursor_config :: "settings_row \<Rightarrow> json" where
  "cursor_config r = JObj [(''binary_path'', JStr (set_CursorBin r)), (''default_model'', JStr (set_CursorModel r))]"

definition runner_config :: "settings_row \<Rightarrow> string \<Rightarrow> json option" where
  "runner_config r k = (case set_RunnerConfigs r of PDoc (JObj kvs) \<Rightarrow> map_of kvs k | _ \<Rightarrow> None)"

text \<open>A row that was only seeded has no configurations and empty columns.\<close>

definition mirrored :: "settings_row \<Rightarrow> bool" where
  "mirrored r \<longleftrightarrow> runner_config r ''cursor'' = Some (cursor_config r) \<or>
     set_RunnerConfigs r = PDoc (JObj []) \<and> set_CursorBin r = [] \<and> set_CursorModel r = []"

definition config_keys_distinct :: "settings_row \<Rightarrow> bool" where
  "config_keys_distinct r \<longleftrightarrow> (case set_RunnerConfigs r of PDoc (JObj kvs) \<Rightarrow> distinct (map fst kvs) | _ \<Rightarrow> True)"

definition settings_ok :: "(string \<Rightarrow> bool) \<Rightarrow> settings_row \<Rightarrow> bool" where
  "settings_ok zone r \<longleftrightarrow> settings_checks r \<and> set_Runner r \<noteq> [] \<and> set_AgentPickupDelaySeconds r \<le> 604800 \<and>
     length (set_CursorModel r) \<le> 256 \<and> length (set_VerifyRunnerModel r) \<le> 256 \<and>
     (set_DisplayTimezone r \<noteq> [] \<longrightarrow> zone (set_DisplayTimezone r)) \<and> mirrored r \<and> config_keys_distinct r"

definition table_ok :: "(string \<Rightarrow> bool) \<Rightarrow> settings_row option \<Rightarrow> bool" where
  "table_ok zone t \<longleftrightarrow> (\<forall>r. t = Some r \<longrightarrow> settings_ok zone r)"

lemma seed_row_ok: "table_ok zone t \<Longrightarrow> \<exists>r. seed_row now t = Inr r \<and> settings_ok zone r"
  by (cases t) (simp_all add: table_ok_def seed_row_def settings_ok_def settings_checks_def DefaultAppSettings_def
      AppSettingsRowID_def mirrored_def config_keys_distinct_def)

lemma dual_write_config:
  "runner_config (dualWriteCursorToRunnerConfigs r) k =
     (if k = ''cursor'' then Some (cursor_config r)
      else case set_RunnerConfigs r of PDoc (JObj kvs) \<Rightarrow> map_of (rev kvs) k | _ \<Rightarrow> None)"
  by (auto simp: runner_config_def dualWriteCursorToRunnerConfigs_def cursor_config_def update_conv' decode_map_lookup Let_def
      split: payload.splits json.splits)

lemma dual_write_distinct: "config_keys_distinct (dualWriteCursorToRunnerConfigs r)"
  by (auto simp: config_keys_distinct_def dualWriteCursorToRunnerConfigs_def Let_def intro!: distinct_update decode_map_distinct
      split: payload.splits json.splits)

lemma applyPatch_distinct: "config_keys_distinct (applyPatch r p)"
  unfolding applyPatch_def by (rule dual_write_distinct)

lemma applyPatch_fields:
  "set_ID (applyPatch r p) = set_ID r" "set_AgentPaused (applyPatch r p) = overlay (sp_AgentPaused p) (set_AgentPaused r)"
  "set_Runner (applyPatch r p) = overlay_trim (sp_Runner p) (set_Runner r)"
  "set_CursorBin (applyPatch r p) = overlay_trim (sp_CursorBin p) (set_CursorBin r)"
  "set_CursorModel (applyPatch r p) = overlay_trim (sp_CursorModel p) (set_CursorModel r)"
  "set_MaxRunDurationSeconds (applyPatch r p) = overlay (sp_MaxRunDurationSeconds p) (set_MaxRunDurationSeconds r)"
  "set_StreamIdleStuckSeconds (applyPatch r p) = overlay (sp_StreamIdleStuckSeconds p) (set_StreamIdleStuckSeconds r)"
  "set_AgentPickupDelaySeconds (applyPatch r p) = overlay (sp_AgentPickupDelaySeconds p) (set_AgentPickupDelaySeconds r)"
  "set_DisplayTimezone (applyPatch r p) = overlay_trim (sp_DisplayTimezone p) (set_DisplayTimezone r)"
  "set_OptimisticMutationsEnabled (applyPatch r p) = overlay (sp_OptimisticMutationsEnabled p) (set_OptimisticMutationsEnabled r)"
  "set_SSEReplayEnabled (applyPatch r p) = overlay (sp_SSEReplayEnabled p) (set_SSEReplayEnabled r)"
  "set_VerifyMaxRetries (applyPatch r p) = overlay (sp_VerifyMaxRetries p) (set_VerifyMaxRetries r)"
  "set_VerifyRunnerName (applyPatch r p) = overlay_trim (sp_VerifyRunnerName p) (set_VerifyRunnerName r)"
  "set_VerifyRunnerModel (applyPatch r p) = overlay_trim (sp_VerifyRunnerModel p) (set_VerifyRunnerModel r)"
  "set_VerifyCommandTimeoutSeconds (applyPatch r p) = overlay (sp_VerifyCommandTimeoutSeconds p) (set_VerifyCommandTimeoutSeconds r)"
  "set_CursorSessionResumeEnabled (applyPatch r p) = overlay (sp_CursorSessionResumeEnabled p) (set_CursorSessionResumeEnabled r)"
  "set_UpdatedAt (applyPatch r p) = set_UpdatedAt r"
  by (simp_all add: applyPatch_def dualWriteCursorToRunnerConfigs_def Let_def)

lemma applyPatch_config:
  "runner_config (applyPatch r p) k =
     (if k = ''cursor'' then Some (cursor_config (applyPatch r p))
      else case overlay (sp_RunnerConfigs p) (set_RunnerConfigs r) of PDoc (JObj kvs) \<Rightarrow> map_of (rev kvs) k | _ \<Rightarrow> None)"
  "\<exists>kvs. set_RunnerConfigs (applyPatch r p) = PDoc (JObj kvs)"
  by (simp_all add: applyPatch_def dual_write_config) (simp_all add: dualWriteCursorToRunnerConfigs_def cursor_config_def Let_def)

lemma validatePatchD:
  assumes "validatePatch zone p = Inr u"
  shows "\<not> given (sp_Runner p) (\<lambda>v. trim_space v = [])" "\<not> given (sp_MaxRunDurationSeconds p) (\<lambda>v. v < 0)"
    "\<not> given (sp_StreamIdleStuckSeconds p) (\<lambda>v. v < 0)" "\<not> given (sp_AgentPickupDelaySeconds p) (\<lambda>v. v < 0 \<or> v > 604800)"
    "\<not> given (sp_CursorModel p) (\<lambda>v. 256 < length (trim_space v))"
    "\<not> given (sp_DisplayTimezone p) (\<lambda>v. trim_space v \<noteq> [] \<and> \<not> zone (trim_space v))"
    "\<not> given (sp_VerifyMaxRetries p) (\<lambda>v. v < 0)" "\<not> given (sp_VerifyRunnerModel p) (\<lambda>v. 256 < length (trim_space v))"
    "\<not> given (sp_VerifyCommandTimeoutSeconds p) (\<lambda>v. v \<le> 0)"
  using assms by (simp_all add: validatePatch_def split: if_split_asm)

lemma overlayP: "\<not> given x (\<lambda>v. \<not> P v) \<Longrightarrow> P v \<Longrightarrow> P (overlay x v)"
  by (cases x) (simp_all add: given_def overlay_def)

lemma overlay_trimP: "\<not> given x (\<lambda>v. \<not> P (trim_space v)) \<Longrightarrow> P v \<Longrightarrow> P (overlay_trim x v)"
  by (cases x) (simp_all add: given_def overlay_trim_def)

text \<open>An accepted patch of a good row gives a good row that the database takes.\<close>

lemma applyPatch_ok:
  assumes r: "settings_ok zone r" and v: "validatePatch zone p = Inr u"
  shows "settings_ok zone ((applyPatch r p)\<lparr>set_UpdatedAt := now\<rparr>)"
proof -
  note d = validatePatchD[OF v]
  let ?r = "(applyPatch r p)\<lparr>set_UpdatedAt := now\<rparr>"
  have i: "set_ID ?r = 1" "set_Runner ?r \<noteq> []"
    using r d(1) overlay_trimP[of "sp_Runner p" "\<lambda>v. v \<noteq> []" "set_Runner r"]
    by (simp_all add: applyPatch_fields settings_ok_def settings_checks_def)
  have n: "0 \<le> set_MaxRunDurationSeconds ?r" "0 \<le> set_StreamIdleStuckSeconds ?r" "0 \<le> set_VerifyMaxRetries ?r"
      "0 < set_VerifyCommandTimeoutSeconds ?r" "0 \<le> set_AgentPickupDelaySeconds ?r \<and> set_AgentPickupDelaySeconds ?r \<le> 604800"
    using r d(2,3,4,7,9) overlayP[of "sp_MaxRunDurationSeconds p" "\<lambda>v. 0 \<le> v" "set_MaxRunDurationSeconds r"]
      overlayP[of "sp_StreamIdleStuckSeconds p" "\<lambda>v. 0 \<le> v" "set_StreamIdleStuckSeconds r"]
      overlayP[of "sp_VerifyMaxRetries p" "\<lambda>v. 0 \<le> v" "set_VerifyMaxRetries r"]
      overlayP[of "sp_VerifyCommandTimeoutSeconds p" "\<lambda>v. 0 < v" "set_VerifyCommandTimeoutSeconds r"]
      overlayP[of "sp_AgentPickupDelaySeconds p" "\<lambda>v. 0 \<le> v \<and> v \<le> 604800" "set_AgentPickupDelaySeconds r"]
    by (simp_all add: applyPatch_fields settings_ok_def settings_checks_def not_le not_less de_Morgan_conj)
  have t: "length (set_CursorModel ?r) \<le> 256" "length (set_VerifyRunnerModel ?r) \<le> 256"
      "set_DisplayTimezone ?r \<noteq> [] \<longrightarrow> zone (set_DisplayTimezone ?r)"
    using r d(5,6,8) overlay_trimP[of "sp_CursorModel p" "\<lambda>v. length v \<le> 256" "set_CursorModel r"]
      overlay_trimP[of "sp_VerifyRunnerModel p" "\<lambda>v. length v \<le> 256" "set_VerifyRunnerModel r"]
      overlay_trimP[of "sp_DisplayTimezone p" "\<lambda>v. v \<noteq> [] \<longrightarrow> zone v" "set_DisplayTimezone r"]
    by (simp_all add: applyPatch_fields settings_ok_def not_le)
  obtain kvs where k: "set_RunnerConfigs ?r = PDoc (JObj kvs)" using applyPatch_config(2)[of r p] by auto
  have "mirrored ?r"
    using applyPatch_config(1)[of r p "''cursor''"] by (simp add: mirrored_def runner_config_def cursor_config_def)
  moreover have "config_keys_distinct ?r" using applyPatch_distinct[of r p] by (simp add: config_keys_distinct_def)
  ultimately show ?thesis using i n t k by (simp add: settings_ok_def settings_checks_def)
qed

lemma Settings_Update_total:
  assumes "table_ok zone t" "validatePatch zone p = Inr u"
  obtains r where "seed_row now t = Inr r" "settings_ok zone r"
    "Settings_Update zone now t p = Inr (Some ((applyPatch r p)\<lparr>set_UpdatedAt := now\<rparr>), (applyPatch r p)\<lparr>set_UpdatedAt := now\<rparr>)"
proof -
  obtain r where r: "seed_row now t = Inr r" "settings_ok zone r" using seed_row_ok[OF assms(1)] by blast
  have "settings_checks ((applyPatch r p)\<lparr>set_UpdatedAt := now\<rparr>)"
    using applyPatch_ok[OF r(2) assms(2)] by (simp add: settings_ok_def)
  then show thesis using that[OF r] r(1) assms(2) by (simp add: Settings_Update_def rbind_def Let_def)
qed

lemma Settings_Update_ok:
  assumes "table_ok zone t" "Settings_Update zone now t p = Inr (t', r')"
  shows "t' = Some r' \<and> settings_ok zone r'"
proof -
  obtain u where u: "validatePatch zone p = Inr u" using assms(2) by (cases "validatePatch zone p") (simp_all add: Settings_Update_def rbind_def)
  obtain r where "settings_ok zone r" "Settings_Update zone now t p = Inr (Some ((applyPatch r p)\<lparr>set_UpdatedAt := now\<rparr>), (applyPatch r p)\<lparr>set_UpdatedAt := now\<rparr>)"
    using Settings_Update_total[OF assms(1) u] by blast
  then show ?thesis using assms(2) applyPatch_ok[OF _ u] by simp
qed

definition heal :: settings_patch where
  "heal = empty_patch\<lparr>sp_OptimisticMutationsEnabled := Some True, sp_SSEReplayEnabled := Some True\<rparr>"

lemma heal_valid: "validatePatch zone heal = Inr ()"
  by (simp add: heal_def validatePatch_def empty_patch_def given_def)

lemma Settings_Get_heal:
  "Settings_Get zone now (Some row) =
     (if set_OptimisticMutationsEnabled row \<and> set_SSEReplayEnabled row then Inr (Some row, row) else Settings_Update zone now (Some row) heal)"
  by (simp add: Settings_Get_def heal_def)

lemma Settings_Get_ok:
  assumes "table_ok zone t"
  shows "\<exists>r. Settings_Get zone now t = Inr (Some r, r) \<and> settings_ok zone r \<and> set_OptimisticMutationsEnabled r \<and> set_SSEReplayEnabled r"
proof (cases t)
  case None
  obtain r where r: "seed_row now None = Inr r" "settings_ok zone r" using seed_row_ok[of zone None now] by (auto simp: table_ok_def)
  moreover have "set_OptimisticMutationsEnabled r \<and> set_SSEReplayEnabled r"
    using r(1) by (auto simp: seed_row_def DefaultAppSettings_def Let_def split: if_split_asm)
  ultimately show ?thesis using None by (simp add: Settings_Get_def rbind_def)
next
  case (Some row)
  show ?thesis
  proof (cases "set_OptimisticMutationsEnabled row \<and> set_SSEReplayEnabled row")
    case True
    then show ?thesis using Some assms by (simp add: Settings_Get_heal table_ok_def)
  next
    case False
    obtain r where r: "settings_ok zone r"
      "Settings_Update zone now t heal = Inr (Some ((applyPatch r heal)\<lparr>set_UpdatedAt := now\<rparr>), (applyPatch r heal)\<lparr>set_UpdatedAt := now\<rparr>)"
      using Settings_Update_total[OF assms heal_valid] by blast
    have "set_OptimisticMutationsEnabled (applyPatch r heal)" "set_SSEReplayEnabled (applyPatch r heal)"
      by (simp_all add: applyPatch_fields heal_def empty_patch_def overlay_def)
    moreover have "Settings_Get zone now t = Settings_Update zone now t heal"
      using False unfolding Some Settings_Get_heal by (rule if_not_P)
    ultimately show ?thesis using r(2) applyPatch_ok[OF r(1) heal_valid] by simp
  qed
qed

section \<open>Reachable tables\<close>

inductive settings_reachable :: "(string \<Rightarrow> bool) \<Rightarrow> settings_row option \<Rightarrow> bool" for zone where
  fresh: "settings_reachable zone None"
| got: "settings_reachable zone t \<Longrightarrow> Settings_Get zone now t = Inr (t', r) \<Longrightarrow> settings_reachable zone t'"
| updated: "settings_reachable zone t \<Longrightarrow> Settings_Update zone now t p = Inr (t', r) \<Longrightarrow> settings_reachable zone t'"

lemma reachable_ok: "settings_reachable zone t \<Longrightarrow> table_ok zone t"
proof (induction rule: settings_reachable.induct)
  case fresh
  then show ?case by (simp add: table_ok_def)
next
  case (got t now t' r)
  then show ?case using Settings_Get_ok[of zone t now] by (auto simp: table_ok_def)
next
  case (updated t now p t' r)
  then show ?case using Settings_Update_ok[of zone t now p t' r] by (auto simp: table_ok_def)
qed

text \<open>C34. Whatever reads and patches of the settings came before, reading them succeeds and gives a row that satisfies
  every check of the table, with a runner, bounded model names, a known time zone or none, both rollout
  flags on, and a cursor configuration that agrees with the old columns; reading again gives the same row
  and writes nothing.\<close>

theorem settings_read_total:
  assumes "settings_reachable zone t"
  shows "\<exists>r. Settings_Get zone now t = Inr (Some r, r) \<and> settings_ok zone r \<and>
    set_OptimisticMutationsEnabled r \<and> set_SSEReplayEnabled r \<and> Settings_Get zone now' (Some r) = Inr (Some r, r)"
  using Settings_Get_ok[OF reachable_ok[OF assms], of now] by (auto simp: Settings_Get_heal)

definition paused_patch :: settings_patch where
  "paused_patch = empty_patch\<lparr>sp_AgentPaused := Some True, sp_CursorBin := Some '' /bin/cursor'',
     sp_SSEReplayEnabled := Some False, sp_RunnerConfigs := Some (PDoc (JObj [(''cursor'', JStr ''mine''), (''other'', JNull)]))\<rparr>"

lemma paused_valid: "validatePatch zone paused_patch = Inr ()"
  by (simp add: paused_patch_def validatePatch_def empty_patch_def given_def)

theorem settings_read_total_witness:
  "\<exists>t r. Settings_Update (\<lambda>_. False) 3 None paused_patch = Inr (t, r) \<and> \<not> set_SSEReplayEnabled r \<and>
     (\<exists>r'. Settings_Get (\<lambda>_. False) 4 t = Inr (Some r', r') \<and> set_SSEReplayEnabled r')"
proof -
  have n: "table_ok (\<lambda>_. False) None" by (simp add: table_ok_def)
  obtain r where r: "Settings_Update (\<lambda>_. False) 3 None paused_patch =
      Inr (Some ((applyPatch r paused_patch)\<lparr>set_UpdatedAt := 3\<rparr>), (applyPatch r paused_patch)\<lparr>set_UpdatedAt := 3\<rparr>)"
    using Settings_Update_total[OF n paused_valid] by blast
  have "settings_reachable (\<lambda>_. False) (Some ((applyPatch r paused_patch)\<lparr>set_UpdatedAt := 3\<rparr>))"
    using settings_reachable.updated[OF settings_reachable.fresh r] .
  then have "\<exists>r'. Settings_Get (\<lambda>_. False) 4 (Some ((applyPatch r paused_patch)\<lparr>set_UpdatedAt := 3\<rparr>)) = Inr (Some r', r') \<and> set_SSEReplayEnabled r'"
    using settings_read_total by blast
  moreover have "\<not> set_SSEReplayEnabled (applyPatch r paused_patch)"
    by (simp add: applyPatch_fields paused_patch_def overlay_def)
  ultimately show ?thesis
    using r by (intro exI[of _ "Some ((applyPatch r paused_patch)\<lparr>set_UpdatedAt := 3\<rparr>)"] exI[of _ "(applyPatch r paused_patch)\<lparr>set_UpdatedAt := 3\<rparr>"]) simp
qed

lemma map_of_rev_distinct: "distinct (map fst kvs) \<Longrightarrow> map_of (rev kvs) = map_of kvs"
  by (simp add: map_of_inject_set rev_map[symmetric])

text \<open>An accepted patch sets the fields it names and leaves the others. The runner configurations are those of
  the patch when it brings any that are an object, and otherwise stay; the entry of the cursor runner is
  always overwritten from the old columns, also the one the patch itself brings.\<close>

theorem settings_update_effect:
  assumes "settings_reachable zone (Some r)" "validatePatch zone p = Inr ()"
  shows "\<exists>r'. Settings_Update zone now (Some r) p = Inr (Some r', r') \<and>
    set_AgentPaused r' = overlay (sp_AgentPaused p) (set_AgentPaused r) \<and>
    set_Runner r' = overlay_trim (sp_Runner p) (set_Runner r) \<and>
    set_VerifyMaxRetries r' = overlay (sp_VerifyMaxRetries p) (set_VerifyMaxRetries r) \<and>
    set_AgentPickupDelaySeconds r' = overlay (sp_AgentPickupDelaySeconds p) (set_AgentPickupDelaySeconds r) \<and>
    runner_config r' k =
      (if k = ''cursor'' then Some (JObj [(''binary_path'', JStr (overlay_trim (sp_CursorBin p) (set_CursorBin r))),
                                          (''default_model'', JStr (overlay_trim (sp_CursorModel p) (set_CursorModel r)))])
       else case sp_RunnerConfigs p of
              None \<Rightarrow> runner_config r k
            | Some (PDoc (JObj kvs)) \<Rightarrow> map_of (rev kvs) k
            | Some _ \<Rightarrow> None)"
proof -
  have t: "table_ok zone (Some r)" by (rule reachable_ok[OF assms(1)])
  then have d: "config_keys_distinct r" by (simp add: table_ok_def settings_ok_def)
  have s: "seed_row now (Some r) = Inr r" by (simp add: seed_row_def)
  let ?r = "(applyPatch r p)\<lparr>set_UpdatedAt := now\<rparr>"
  have u: "Settings_Update zone now (Some r) p = Inr (Some ?r, ?r)"
    using Settings_Update_total[OF t assms(2), of now] s by auto
  have o: "(case set_RunnerConfigs r of PDoc (JObj kvs) \<Rightarrow> map_of (rev kvs) k | _ \<Rightarrow> None) = runner_config r k"
    using d by (auto simp: runner_config_def config_keys_distinct_def map_of_rev_distinct split: payload.splits json.splits)
  have c: "runner_config ?r k = runner_config (applyPatch r p) k" by (simp add: runner_config_def)
  have "runner_config ?r k =
      (if k = ''cursor'' then Some (cursor_config (applyPatch r p))
       else case sp_RunnerConfigs p of None \<Rightarrow> runner_config r k | Some (PDoc (JObj kvs)) \<Rightarrow> map_of (rev kvs) k | Some _ \<Rightarrow> None)"
    unfolding c applyPatch_config(1) using o by (simp add: overlay_def split: option.split)
  then show ?thesis using u by (intro exI[of _ ?r]) (simp add: applyPatch_fields cursor_config_def)
qed

theorem settings_update_effect_witness:
  "\<exists>r r'. Settings_Get (\<lambda>_. False) 1 None = Inr (Some r, r) \<and> Settings_Update (\<lambda>_. False) 2 (Some r) paused_patch = Inr (Some r', r') \<and>
     set_AgentPaused r' \<and> runner_config r' ''cursor'' = Some (JObj [(''binary_path'', JStr ''/bin/cursor''), (''default_model'', JStr [])]) \<and>
     runner_config r' ''other'' = Some JNull"
proof -
  obtain r where g: "Settings_Get (\<lambda>_. False) 1 None = Inr (Some r, r)" and m: "set_CursorModel r = []"
    by (auto simp: Settings_Get_def seed_row_def DefaultAppSettings_def AppSettingsRowID_def settings_checks_def rbind_def)
  have r: "settings_reachable (\<lambda>_. False) (Some r)" by (rule settings_reachable.got[OF settings_reachable.fresh g])
  have t: "trim_space '' /bin/cursor'' = ''/bin/cursor''" by code_simp
  obtain r' where u: "Settings_Update (\<lambda>_. False) 2 (Some r) paused_patch = Inr (Some r', r')" and a: "set_AgentPaused r'"
    and c: "runner_config r' ''cursor'' = Some (JObj [(''binary_path'', JStr ''/bin/cursor''), (''default_model'', JStr [])])"
    using settings_update_effect[OF r paused_valid, of 2 "''cursor''"] m t by (auto simp: paused_patch_def empty_patch_def overlay_def overlay_trim_def)
  have "runner_config r' ''other'' = Some JNull"
    using settings_update_effect[OF r paused_valid, of 2 "''other''"] u by (auto simp: paused_patch_def empty_patch_def)
  then show ?thesis using g u a c by blast
qed

end
