(* ===== verification/Prompts.thy ===== *)
theory Prompts
  imports Project_Context Harness_Resume
begin

text \<open>
  The texts the harness gives to the agents (\<^verbatim>\<open>pkgs/agents/harness/internal/prompt\<close>): criteria, feedback, notices of
  a resumed or repeated attempt, and the short delta sent to a session that is continued.
\<close>

section \<open>Criteria and feedback (criteria_prompt.go)\<close>

definition ln :: "string \<Rightarrow> string" where "ln s = s @ nl"

definition par :: "string \<Rightarrow> string" where "par s = s @ nl @ nl"

definition dash :: string where "dash = [CHR 0xE2, CHR 0x80, CHR 0x94]"

definition fence :: string where "fence = ''```''"

record prompt_item =
  pit_ID :: string
  pit_Text :: string

definition criterion_line :: "prompt_item \<Rightarrow> string" where
  "criterion_line it = ln (''- ['' @ pit_ID it @ ''] '' @ pit_Text it)"

definition trim_prefix :: "string \<Rightarrow> string \<Rightarrow> string" where
  "trim_prefix p s = (if has_prefix p s then drop (length p) s else s)"

definition locked_section :: "prompt_item list \<Rightarrow> string" where
  "locked_section xs =
     (if 0 < length xs then
        nl @ nl @ par ''## Already verified (do not re-do)'' @
        par ''These criteria were proven passed in an earlier attempt. Do not undo or modify the work that satisfied them; do not include them in your report.'' @
        concat (map criterion_line xs)
      else [])"

definition active_section :: "prompt_item list \<Rightarrow> bool \<Rightarrow> string \<Rightarrow> string" where
  "active_section xs some_locked reportPath =
     nl @ nl @ par ''## Done criteria (required)'' @
     ln ''You must satisfy every criterion below. When finished, write a JSON report at:'' @
     par (''`'' @ reportPath @ ''`'') @
     ln ''Schema:'' @ ln (fence @ ''json'') @
     ln ''{\"schema_version\":1,\"criteria\":[{\"id\":\"<id>\",\"claimed_done\":true,\"evidence\":\"...\"}],\"commits\":[{\"sha\":\"<full-or-abbrev>\",\"branch\":\"optional\"}]}'' @
     ln fence @
     ln (''Use only `schema_version`, `criteria`, and `commits` top-level fields '' @ dash @ '' no extra keys; put metadata in `evidence`.'') @
     ln (''List commits **created in this execute visit** under `commits` (incremental is fine '' @ dash @ '' the worker accumulates them).'') @
     ln (''Git discipline: create **new commits only** '' @ dash @ '' never amend, rebase, squash, or delete history; fix mistakes with a follow-up commit.'') @
     ln ''claimed_done is your assertion that you completed the work; the verification agent independently decides whether each criterion is satisfied.'' @
     (if some_locked then ln ''(Report only the criteria below; do NOT include already-verified IDs.)'' else []) @
     nl @ concat (map criterion_line xs)"

definition InjectCriteria :: "string \<Rightarrow> prompt_item list \<Rightarrow> string \<Rightarrow> string list \<Rightarrow> string" where
  "InjectCriteria prompt items reportPath alreadyVerified =
     (if length items = 0 then prompt
      else
        let active = filter (\<lambda>it. pit_ID it \<notin> set alreadyVerified) items;
            done_items = filter (\<lambda>it. pit_ID it \<in> set alreadyVerified) items;
            criteria = locked_section done_items
        in if length active = 0 then
             trim_prefix (nl @ nl) (criteria @ nl @ nl @ par ''## Done criteria (required)'' @
               ln ''All criteria are already verified. Re-run is a no-op; the worker will exit successfully.'') @ nl @ nl @ prompt
           else trim_prefix (nl @ nl) (criteria @ active_section active (0 < length done_items) reportPath) @ nl @ nl @ prompt)"

definition AppendVerifyFeedback :: "string \<Rightarrow> string \<Rightarrow> string" where
  "AppendVerifyFeedback prompt feedback0 =
     (let feedback = trim_space feedback0 in
      if feedback = [] then prompt else prompt @ nl @ nl @ par ''## Previous verification feedback'' @ ln feedback)"

definition AppendExecuteHarnessFeedback :: "string \<Rightarrow> string \<Rightarrow> string" where
  "AppendExecuteHarnessFeedback prompt feedback0 =
     (let feedback = trim_space feedback0 in
      if feedback = [] then prompt else prompt @ nl @ nl @ par ''## Execute harness feedback'' @ ln feedback)"

section \<open>Notices (resume_prompt.go)\<close>

definition FormatKnownCommitsForResume :: "cycle_commit list \<Rightarrow> string" where
  "FormatKnownCommitsForResume commits =
     (if length commits = 0 then []
      else ln ''Known commits already indexed for this task (all prior attempts):'' @
        concat (map (\<lambda>c. ln (''- '' @ (if 12 < length (cc_SHA c) then take 12 (cc_SHA c) else cc_SHA c) @ '' '' @ dash @ '' '' @ cc_Message c)) commits) @ nl)"

definition clean_tree :: string where
  "clean_tree = ln (''A clean tree does **not** mean the task succeeded '' @ dash @ '' complete remaining criteria and write the criteria report.'')"

definition before_changing :: string where
  "before_changing = ln ''Before changing anything:'' @
     ln ''1. Inspect the working tree you were given (`git status`, read relevant files).'' @
     ln ''2. Continue from that state; do not revert work that satisfies locked criteria below.''"

definition AppendOperatorRetryResumeNotice :: "string \<Rightarrow> string \<Rightarrow> cycle_commit list \<Rightarrow> string" where
  "AppendOperatorRetryResumeNotice prompt cycleID parentCommits =
     par (''## Operator retry '' @ dash @ '' resume from failure'') @
     ''This is a **new execution attempt** continuing work from a failed prior attempt '' @
     par (''(new cycle_id='' @ cycleID @ '').'') @ before_changing @
     (let block = FormatKnownCommitsForResume parentCommits in
      if block \<noteq> [] then
        ''3. '' @ trim_space block @
        ln (''Those commits are already indexed for this task '' @ dash @ '' list only **new** commits you create in `commits[]` on your criteria report.'') @
        ''4. '' @ clean_tree
      else ''3. '' @ clean_tree) @ nl @ prompt"

definition AppendResumeNotice :: "string \<Rightarrow> string \<Rightarrow> phase \<Rightarrow> cycle_commit list \<Rightarrow> string" where
  "AppendResumeNotice prompt cycleID interruptedPhase knownCommits =
     par ''## Worker resume notice'' @
     ''This is a **resume** of an in-flight cycle, not a new task. '' @
     ''The server restarted while this cycle was running '' @
     par (''(cycle_id='' @ cycleID @ '', interrupted during '' @ phase_str interruptedPhase @ '').'') @ before_changing @
     (let block = FormatKnownCommitsForResume knownCommits in
      if block \<noteq> [] then ''3. '' @ trim_space block @ ''4. '' @ clean_tree else ''3. '' @ clean_tree) @ nl @ prompt"

definition AppendGitCommitPolicy :: "string \<Rightarrow> bool \<Rightarrow> string" where
  "AppendGitCommitPolicy prompt operatorResume =
     par ''## Git commits (required)'' @
     par ''Before you finish this execute phase, commit work that satisfies criteria you are claiming, and list new commits in `commits[]` on your criteria report.'' @
     (if operatorResume then par ''Create **new** commits only in this attempt; prior attempt SHAs are already indexed.'' else []) @
     ln (''Use normal descriptive commit messages only '' @ dash @ '' do **not** embed task IDs, cycle IDs, or ID markers.'') @
     ln (''Create **new commits only** '' @ dash @ '' fix mistakes with a follow-up commit; never amend, rebase, squash, or delete history.'') @
     ln ''You may commit incrementally during the run. Uncommitted local changes are allowed if you already committed the work you are claiming.'' @
     par ''Do not push.'' @ prompt"

section \<open>Continuation of a failed attempt (continuation_prompt.go)\<close>

record continuation_input =
  coi_LineageAttempt :: int
  coi_AttemptSeq :: int
  coi_CycleID :: string
  coi_FailureClass :: string
  coi_FailureReason :: string
  coi_FailurePhase :: phase
  coi_ScopeFiles :: "string list"
  coi_Commits :: "cycle_commit list"
  coi_ExecuteFeedback :: string
  coi_RunnerFeedback :: string
  coi_GitDiagnostics :: string
  coi_Warnings :: "string list"

definition ComposeContinuation :: "string \<Rightarrow> continuation_input \<Rightarrow> string" where
  "ComposeContinuation base i =
     par (''## Continuation '' @ dash @ '' resume from failure'') @
     ln (''You are continuing work from attempt #'' @ itoa (coi_LineageAttempt i) @ '' into attempt #'' @ itoa (coi_AttemptSeq i) @
         '' (new cycle_id='' @ coi_CycleID i @ '').'') @
     par ''Do **not** restart discovery or revert eligible work from prior attempts.'' @
     (if coi_FailureReason i \<noteq> [] then
        par ''### Prior failure'' @ ln (''- Class: '' @ coi_FailureClass i) @ ln (''- Reason: '' @ coi_FailureReason i) @
        (if phase_str (coi_FailurePhase i) \<noteq> [] then ln (''- Last phase: '' @ phase_str (coi_FailurePhase i)) else []) @ nl
      else []) @
     (if 0 < length (coi_ScopeFiles i) then
        par ''### Scope lock (files already touched)'' @
        ln (''Continue work on these paths '' @ dash @ '' do not pick a different target:'') @
        concat (map (\<lambda>f. ln (''- '' @ f)) (coi_ScopeFiles i)) @ nl
      else []) @
     (let block = FormatKnownCommitsForResume (coi_Commits i) in
      if block \<noteq> [] then par ''### Known commits (indexed for this task)'' @ block else []) @
     (if coi_ExecuteFeedback i \<noteq> [] then par ''### Execute harness feedback'' @ par (coi_ExecuteFeedback i) else []) @
     (if coi_RunnerFeedback i \<noteq> [] then par ''### Prior runner outcome'' @ par (coi_RunnerFeedback i) else []) @
     (if coi_GitDiagnostics i \<noteq> [] then
        par ''### Git working tree (porcelain)'' @ ln fence @ coi_GitDiagnostics i @ nl @ par fence else []) @
     concat (map (\<lambda>w. ''> '' @ ln w) (coi_Warnings i)) @
     (if 0 < length (coi_Warnings i) then nl else []) @ base"

section \<open>Deltas for a continued session (recovery.go)\<close>

datatype recovery_kind = RecoveryVerifyImplementation | RecoveryCriteriaReportInvalid | RecoveryCriteriaReportMissing
  | RecoveryProcessRestart | RecoveryOperatorRetryResume | RecoveryVerifyInfra | RecoveryVerifyFeedback

record criterion_failure =
  cfl_ID :: string
  cfl_Reasoning :: string
  cfl_Verifier :: string

record evidence_line =
  evl_CriterionID :: string
  evl_Command :: string
  evl_ExitCode :: int
  evl_Preview :: string

record recovery_context =
  rcx_Kind :: recovery_kind
  rcx_Phase :: phase
  rcx_CycleID :: string
  rcx_AttemptSeq :: int
  rcx_VerifyAttempt :: int
  rcx_ReportPath :: string
  rcx_FailedCriteria :: "criterion_failure list"
  rcx_LockedCriteria :: "string list"
  rcx_ReportParseErr :: string
  rcx_ExpectedIDs :: "string list"
  rcx_CommandEvidenceDelta :: "evidence_line list"
  rcx_ScopeFiles :: "string list"
  rcx_FailureClass :: string
  rcx_FailureReason :: string
  rcx_InterruptedPhase :: phase
  rcx_PriorVerifyFeedback :: string

definition recoveryMaxTotalBytes :: nat where "recoveryMaxTotalBytes = 8 * 1024"

definition recoveryMaxReasoningRunes :: nat where "recoveryMaxReasoningRunes = 2048"

definition truncateRecoveryRunes :: "string \<Rightarrow> nat \<Rightarrow> string" where
  "truncateRecoveryRunes s mx =
     (if mx = 0 then [] else if rune_count s \<le> mx then s else concat (take mx (runes s)) @ ellipsis)"

definition truncateRecoveryBytes :: "string \<Rightarrow> nat \<Rightarrow> string" where
  "truncateRecoveryBytes s mx = (if length s \<le> mx then s else take mx s @ ellipsis)"

definition failure_block :: "criterion_failure \<Rightarrow> string" where
  "failure_block f =
     ln (''- **['' @ cfl_ID f @ '']** ('' @ (if cfl_Verifier f = [] then ''verify'' else cfl_Verifier f) @ '')'') @
     (if trim_space (cfl_Reasoning f) \<noteq> []
      then ln (''  Reasoning: '' @ truncateRecoveryRunes (trim_space (cfl_Reasoning f)) recoveryMaxReasoningRunes) else []) @
     ln ''  Required: address this before claiming done again.''"

definition FormatVerifyFailuresStructured :: "criterion_failure list \<Rightarrow> string" where
  "FormatVerifyFailuresStructured fs =
     (if length fs = 0 then [] else par ''### Verification failures'' @ concat (map failure_block fs) @ nl)"

definition ComposeCriteriaReportRecoveryDelta :: "string \<Rightarrow> string \<Rightarrow> string list \<Rightarrow> string list \<Rightarrow> string" where
  "ComposeCriteriaReportRecoveryDelta reportPath parseErr expected lockedIDs =
     par ''The criteria self-report JSON is invalid or incomplete.'' @
     (if parseErr \<noteq> [] then par (''Parse error: '' @ parseErr) else []) @
     (if reportPath \<noteq> [] then par (''Fix the file at: `'' @ reportPath @ ''`'') else []) @
     (if 0 < length expected then par (''Expected criterion IDs: '' @ join '', '' (sort expected)) else []) @
     ln ''Schema:'' @ ln (fence @ ''json'') @
     ln ''{\"criteria\":[{\"id\":\"<id>\",\"claimed_done\":true,\"evidence\":\"...\"}]}'' @ par fence @
     (if 0 < length lockedIDs then par ''Locked criteria are already satisfied; omit them from the report.'' else [])"

definition continuation_header :: "int \<Rightarrow> string" where
  "continuation_header n = par (''## Continuation (Hamix attempt '' @ itoa n @ '')'')"

definition execute_what_changed :: "recovery_context \<Rightarrow> string" where
  "execute_what_changed x =
     (case rcx_Kind x of
        RecoveryVerifyImplementation \<Rightarrow>
          par ''Verification rejected the implementation. Address the failures below.'' @
          FormatVerifyFailuresStructured (rcx_FailedCriteria x)
      | RecoveryCriteriaReportInvalid \<Rightarrow>
          ComposeCriteriaReportRecoveryDelta (rcx_ReportPath x) (rcx_ReportParseErr x) (rcx_ExpectedIDs x) (rcx_LockedCriteria x)
      | RecoveryCriteriaReportMissing \<Rightarrow>
          par ''The criteria self-report file is missing.'' @
          (if rcx_ReportPath x \<noteq> [] then par (''Write it at: `'' @ rcx_ReportPath x @ ''`'') else []) @
          (if 0 < length (rcx_ExpectedIDs x) then par (''Expected criterion IDs: '' @ join '', '' (rcx_ExpectedIDs x)) else [])
      | RecoveryProcessRestart \<Rightarrow>
          par (''The worker restarted during '' @ phase_str (rcx_InterruptedPhase x) @
               ''. Inspect the tree and continue from the last known good state.'') @
          (if rcx_FailureReason x \<noteq> [] then par (''Last failure: '' @ rcx_FailureReason x) else [])
      | RecoveryOperatorRetryResume \<Rightarrow>
          par ''Operator chose Resume from failure on a new task attempt.'' @
          (if rcx_FailureClass x \<noteq> [] then ln (''Failure class: '' @ rcx_FailureClass x) else []) @
          (if rcx_FailureReason x \<noteq> [] then par (''Failure reason: '' @ rcx_FailureReason x) else []) @
          (if 0 < length (rcx_ScopeFiles x) then
             ln ''Scope lock (do not modify outside this set):'' @ concat (map (\<lambda>f. ln (''- '' @ f)) (rcx_ScopeFiles x)) @ nl
           else [])
      | _ \<Rightarrow> par ''Continue the in-progress execute work.'')"

definition execute_next_steps :: "recovery_context \<Rightarrow> string" where
  "execute_next_steps x =
     par ''### Do this next'' @ ln ''1. Fix the issue described above.'' @
     (if rcx_ReportPath x \<noteq> [] \<and> rcx_Kind x \<noteq> RecoveryCriteriaReportInvalid \<and> rcx_Kind x \<noteq> RecoveryCriteriaReportMissing
      then ln (''2. Update `'' @ rcx_ReportPath x @ ''` for active criteria only.'') else []) @
     nl @ par ''### Do not'' @
     (if 0 < length (rcx_LockedCriteria x) then ln (''- Re-do locked criteria: '' @ join '', '' (rcx_LockedCriteria x)) else []) @
     par ''- Amend, rebase, or squash commits from this cycle'' @
     (if rcx_ReportPath x \<noteq> [] then
        par ''### Artifacts'' @
        ln (''- criteria-report.json: `'' @ rcx_ReportPath x @ ''` (schema v1, claimed_done + evidence per active id)'')
      else [])"

definition composeExecuteRecoveryDelta :: "recovery_context \<Rightarrow> string" where
  "composeExecuteRecoveryDelta x =
     continuation_header (rcx_AttemptSeq x) @
     par ''You are continuing the same Cursor session. Do not restart discovery or revert locked work.'' @
     par ''### What changed'' @ execute_what_changed x @ execute_next_steps x"

definition formatCommandEvidenceDelta :: "evidence_line list \<Rightarrow> string" where
  "formatCommandEvidenceDelta ls =
     (if length ls = 0 then []
      else par ''### New command evidence'' @
        concat (map (\<lambda>e. ln (''- ['' @ evl_CriterionID e @ ''] `'' @ evl_Command e @ ''` exit='' @ itoa (evl_ExitCode e)) @
          (let p = trim_space (evl_Preview e) in
           if p \<noteq> [] then ln (''  '' @ fence) @ ln (truncateRecoveryRunes p 512) @ ln (''  '' @ fence) else [])) ls) @ nl)"

definition composeVerifyRecoveryDelta :: "recovery_context \<Rightarrow> string" where
  "composeVerifyRecoveryDelta x =
     continuation_header (rcx_AttemptSeq x) @
     par ''You are continuing the same verify Cursor session. Do not modify source files.'' @
     par ''### What changed'' @
     (case rcx_Kind x of
        RecoveryVerifyInfra \<Rightarrow>
          par ''Infrastructure or command checks produced new evidence since the last verify attempt.'' @
          formatCommandEvidenceDelta (rcx_CommandEvidenceDelta x)
      | RecoveryVerifyFeedback \<Rightarrow>
          par ''Prior verification feedback still applies. Re-run judgment with any new evidence.'' @
          (if rcx_PriorVerifyFeedback x \<noteq> [] then par ''### Prior verify feedback'' @ par (rcx_PriorVerifyFeedback x) else []) @
          formatCommandEvidenceDelta (rcx_CommandEvidenceDelta x)
      | _ \<Rightarrow> par ''Continue verification for this cycle.'') @
     FormatVerifyFailuresStructured (rcx_FailedCriteria x) @
     par ''### Do this next'' @ par ''1. Re-evaluate active criteria and write the verify report only.'' @
     (if 0 < length (rcx_LockedCriteria x) then
        par ''### Do not'' @ ln (''- Re-evaluate locked criteria: '' @ join '', '' (rcx_LockedCriteria x)) else [])"

definition ComposeRecoveryDelta :: "recovery_context \<Rightarrow> string" where
  "ComposeRecoveryDelta x =
     truncateRecoveryBytes
       (if rcx_Phase x = PhaseVerify then composeVerifyRecoveryDelta x else composeExecuteRecoveryDelta x)
       recoveryMaxTotalBytes"

end
