(* ===== verification/Session_Resume.thy ===== *)
theory Session_Resume
  imports Prompts Harness_Loop
begin

text \<open>
  What the agent of a phase is asked, and whether its last session is continued (\<^verbatim>\<open>pkgs/agents/harness/cursor_resume.go\<close>,
  \<^verbatim>\<open>composeExecutePrompt\<close> of \<^verbatim>\<open>cycle_loop.go\<close>, the helpers of \<^verbatim>\<open>project_context_load.go\<close>). The reads of the store
  are the arguments \<open>enabled\<close> (the setting) and \<open>lastSession\<close>. The scope files, git diagnostics and
  warnings of a continuation come from git; they are the record \<open>scope\<close>.
\<close>

section \<open>Inputs\<close>

record scope =
  sco_Files :: "string list"
  sco_GitDiagnostics :: string
  sco_Warnings :: "string list"

record loop_opts =
  lo_resumeNotice :: bool
  lo_interruptedPhase :: phase
  lo_skipFirstExecute :: bool
  lo_knownCommits :: "cycle_commit list"
  lo_continuation :: "(continuation_bundle \<times> scope) option"

fun parent_failure_str :: "parent_failure \<Rightarrow> string" where
  "parent_failure_str FailureClassRunner = ''runner''"
| "parent_failure_str FailureClassExecuteGate = ''executeGate''"
| "parent_failure_str FailureClassVerify = ''verify''"
| "parent_failure_str FailureClassInfrastructure = ''infrastructure''"
| "parent_failure_str FailureClassOperator = ''operator''"
| "parent_failure_str FailureClassUnset = []"

text \<open>\<^verbatim>\<open>filepath.Join\<close> of a clean directory and clean names.\<close>

definition CriteriaReportPath :: "string \<Rightarrow> string \<Rightarrow> string" where
  "CriteriaReportPath reportDir cycleID = reportDir @ ''/'' @ cycleID @ ''/criteria-report.json''"

definition retryModeFromCycleMeta :: "task_cycle \<Rightarrow> string" where
  "retryModeFromCycleMeta c =
     (case map_of (cycle_MetaJSON c) ''retry_mode'' of Some (JStr m) \<Rightarrow> trim_space m | _ \<Rightarrow> [])"

section \<open>The full prompt (cycle_loop.go, project_context_load.go)\<close>

definition checklistItemsForPrompt :: "verify_item list \<Rightarrow> prompt_item list" where
  "checklistItemsForPrompt items = map (\<lambda>it. \<lparr>pit_ID = vi_ID it, pit_Text = vi_Text it\<rparr>) items"

definition verifiedCriterionIDs :: "verdict_map \<Rightarrow> string list" where
  "verifiedCriterionIDs pp = map fst pp"

definition continuationInputFromBundle :: "task_cycle \<Rightarrow> continuation_bundle \<Rightarrow> scope \<Rightarrow> continuation_input" where
  "continuationInputFromBundle c b sc =
     \<lparr>coi_LineageAttempt = cb_LineageAttempt b, coi_AttemptSeq = cycle_AttemptSeq c, coi_CycleID = cycle_ID c,
      coi_FailureClass = parent_failure_str (cb_FailureClass b), coi_FailureReason = cb_FailureReason b,
      coi_FailurePhase = cb_FailurePhase b, coi_ScopeFiles = sco_Files sc, coi_Commits = cb_Commits b,
      coi_ExecuteFeedback = cb_ExecuteFeedback b, coi_RunnerFeedback = cb_RunnerFeedback b,
      coi_GitDiagnostics = sco_GitDiagnostics sc, coi_Warnings = sco_Warnings sc\<rparr>"

definition composeExecutePrompt :: "string \<Rightarrow> task \<Rightarrow> task_cycle \<Rightarrow> process_state \<Rightarrow> loop_opts \<Rightarrow> string" where
  "composeExecutePrompt reportDir t c ps opts =
     (let p1 = InjectCriteria (task_InitialPrompt t) (checklistItemsForPrompt (vs_Criteria (ps_verifySnap ps)))
                 (CriteriaReportPath reportDir (cycle_ID c)) (verifiedCriterionIDs (ps_previouslyPassed ps));
          p2 = AppendVerifyFeedback p1 (ps_verifyFeedback ps);
          retryMode = retryModeFromCycleMeta c;
          p3 = (case lo_continuation opts of
                  Some (b, sc) \<Rightarrow>
                    let p = ComposeContinuation p2 (continuationInputFromBundle c b sc) in
                    if cb_ExecuteFeedback b \<noteq> [] then AppendExecuteHarnessFeedback p (cb_ExecuteFeedback b) else p
                | None \<Rightarrow>
                    if lo_resumeNotice opts then
                      (if retryMode = retry_mode_str RetryResume
                       then AppendOperatorRetryResumeNotice p2 (cycle_ID c) (lo_knownCommits opts)
                       else AppendResumeNotice p2 (cycle_ID c) (lo_interruptedPhase opts) (lo_knownCommits opts))
                    else p2)
      in if \<not> gs_Skipped (ps_gitSnap ps) then AppendGitCommitPolicy p3 (retryMode = retry_mode_str RetryResume) else p3)"

section \<open>The context of a delta (cursor_resume.go)\<close>

definition failedCriteriaFromVerdicts :: "verdict list \<Rightarrow> criterion_failure list" where
  "failedCriteriaFromVerdicts vs =
     map (\<lambda>v. \<lparr>cfl_ID = vt_ID v, cfl_Reasoning = vt_Reasoning v, cfl_Verifier = verifier_str (vt_Verifier v)\<rparr>)
       (filter (\<lambda>v. \<not> vt_Passed v) vs)"

definition lockedCriterionIDs :: "verdict_map \<Rightarrow> string list" where
  "lockedCriterionIDs pp = sort (map fst pp)"

definition activeCriterionIDs :: "process_state \<Rightarrow> string list" where
  "activeCriterionIDs ps =
     sort (map vi_ID (filter (\<lambda>it. vi_ID it \<notin> fst ` set (ps_previouslyPassed ps)) (vs_Criteria (ps_verifySnap ps))))"

definition selectRecoveryKind :: "phase \<Rightarrow> process_state \<Rightarrow> loop_opts \<Rightarrow> string \<Rightarrow> recovery_kind" where
  "selectRecoveryKind ph ps opts retryMode =
     (if ph = PhaseVerify then (if 0 < ps_verifyAttempt ps then RecoveryVerifyFeedback else RecoveryVerifyInfra)
      else if ps_reportParseErr ps \<noteq> [] then
        (if contains ''missing'' (map lower_ascii (ps_reportParseErr ps)) then RecoveryCriteriaReportMissing
         else RecoveryCriteriaReportInvalid)
      else if retryMode = retry_mode_str RetryResume \<and> lo_continuation opts \<noteq> None then RecoveryOperatorRetryResume
      else if lo_resumeNotice opts then RecoveryProcessRestart
      else RecoveryVerifyImplementation)"

definition buildRecoveryContext ::
  "string \<Rightarrow> phase \<Rightarrow> task_cycle \<Rightarrow> process_state \<Rightarrow> loop_opts \<Rightarrow> string \<Rightarrow> recovery_context" where
  "buildRecoveryContext reportDir ph c ps opts retryMode =
     (let kind = selectRecoveryKind ph ps opts retryMode;
          ctx = \<lparr>rcx_Kind = kind, rcx_Phase = ph, rcx_CycleID = cycle_ID c, rcx_AttemptSeq = cycle_AttemptSeq c,
                 rcx_VerifyAttempt = ps_verifyAttempt ps, rcx_ReportPath = CriteriaReportPath reportDir (cycle_ID c),
                 rcx_FailedCriteria = failedCriteriaFromVerdicts (ps_lastFailedVerdicts ps),
                 rcx_LockedCriteria = lockedCriterionIDs (ps_previouslyPassed ps), rcx_ReportParseErr = ps_reportParseErr ps,
                 rcx_ExpectedIDs = activeCriterionIDs ps, rcx_CommandEvidenceDelta = [], rcx_ScopeFiles = [],
                 rcx_FailureClass = [], rcx_FailureReason = [], rcx_InterruptedPhase = lo_interruptedPhase opts,
                 rcx_PriorVerifyFeedback = ps_verifyFeedback ps\<rparr>
      in case lo_continuation opts of
           Some (b, sc) \<Rightarrow>
             if kind = RecoveryOperatorRetryResume then
               ctx\<lparr>rcx_FailureClass := parent_failure_str (cb_FailureClass b), rcx_FailureReason := cb_FailureReason b,
                   rcx_ScopeFiles := sco_Files sc\<rparr>
             else ctx
         | None \<Rightarrow> ctx)"

section \<open>The policy (cursor_resume.go)\<close>

datatype resume_mode = CursorResumeFresh | CursorResumeContinue | CursorResumeFallback

record resume_decision =
  crd_Mode :: resume_mode
  crd_ResumeSessionID :: string
  crd_Prompt :: string
  crd_RecoveryKind :: "recovery_kind option"
  crd_DenyReason :: string

definition deny :: "string \<Rightarrow> resume_decision" where
  "deny why = \<lparr>crd_Mode = CursorResumeFresh, crd_ResumeSessionID = [], crd_Prompt = [], crd_RecoveryKind = None, crd_DenyReason = why\<rparr>"

definition firstVerifyAfterNewExecute :: "process_state \<Rightarrow> bool" where
  "firstVerifyAfterNewExecute ps \<longleftrightarrow> ps_lastVerifyAfterExecuteSeq ps < ps_lastCompletedExecutePhaseSeq ps"

definition sessionLookupCycleID ::
  "(string \<Rightarrow> phase \<Rightarrow> string res) \<Rightarrow> task_cycle \<Rightarrow> phase \<Rightarrow> string \<Rightarrow> loop_opts \<Rightarrow> string" where
  "sessionLookupCycleID lastSession c ph retryMode opts =
     (case cycle_ParentCycleID c of
        None \<Rightarrow> cycle_ID c
      | Some p \<Rightarrow>
          let parentID = trim_space p in
          if retryMode = retry_mode_str RetryResume \<and> parentID \<noteq> [] then
            (case lastSession (cycle_ID c) ph of
               Inl _ \<Rightarrow> cycle_ID c
             | Inr childID \<Rightarrow>
                 if trim_space childID \<noteq> [] then cycle_ID c
                 else if ph = PhaseExecute then parentID
                 else if ph = PhaseVerify \<and>
                         (case lo_continuation opts of Some (b, _) \<Rightarrow> cb_Entry b = EntryVerifyOnly | None \<Rightarrow> False)
                 then parentID
                 else cycle_ID c)
          else cycle_ID c)"

text \<open>HEAD against the anchor of the last execute phase; an unknown HEAD counts as unchanged.\<close>

definition head_drifted :: "head_answer \<Rightarrow> process_state \<Rightarrow> bool" where
  "head_drifted head ps \<longleftrightarrow> \<not> gs_Skipped (ps_gitSnap ps) \<and> ps_postExecuteHeadSHA ps \<noteq> [] \<and>
     (case resolveCurrentHeadSHA (ps_gitSnap ps) head of
        HeadErr \<Rightarrow> True
      | HeadUnknown \<Rightarrow> False
      | HeadAt h \<Rightarrow> \<not> equal_fold (trim_space h) (trim_space (ps_postExecuteHeadSHA ps)))"

definition resolveCursorResume ::
  "bool res \<Rightarrow> (string \<Rightarrow> phase \<Rightarrow> string res) \<Rightarrow> head_answer \<Rightarrow> string \<Rightarrow> string \<Rightarrow> phase \<Rightarrow> task_cycle \<Rightarrow> process_state \<Rightarrow>
     loop_opts \<Rightarrow> bool \<Rightarrow> resume_decision res" where
  "resolveCursorResume enabled lastSession head workingDir reportDir ph c ps opts forceFresh =
     (if forceFresh then Inr (deny ''resume_failed'')
      else rbind enabled (\<lambda>on.
        if \<not> on then Inr (deny ''settings_disabled'')
        else let retryMode = retryModeFromCycleMeta c in
        if retryMode = retry_mode_str RetryFresh then Inr (deny ''retry_fresh'')
        else if lo_resumeNotice opts \<and> retryMode \<noteq> retry_mode_str RetryResume \<and> ph = PhaseExecute \<and> ps_reportTampered ps
        then Inr (deny ''tamper'')
        else if ph = PhaseVerify \<and> firstVerifyAfterNewExecute ps then Inr (deny ''verify_fresh_after_execute'')
        else if head_drifted head ps then Inr (deny ''head_drift'')
        else if ps_reportTampered ps then Inr (deny ''tamper'')
        else rbind (lastSession (sessionLookupCycleID lastSession c ph retryMode opts) ph) (\<lambda>session0.
          let sessionID = trim_space session0 in
          if sessionID = [] then Inr (deny ''no_session_id'')
          else if trim_space workingDir = [] then Inr (deny ''workspace_mismatch'')
          else let x = buildRecoveryContext reportDir ph c ps opts retryMode in
            Inr \<lparr>crd_Mode = CursorResumeContinue, crd_ResumeSessionID = sessionID, crd_Prompt = ComposeRecoveryDelta x,
                 crd_RecoveryKind = Some (rcx_Kind x), crd_DenyReason = []\<rparr>)))"

definition freshExecuteDecision :: "string \<Rightarrow> task \<Rightarrow> task_cycle \<Rightarrow> process_state \<Rightarrow> loop_opts \<Rightarrow> string \<Rightarrow> resume_decision" where
  "freshExecuteDecision reportDir t c ps opts denyReason =
     \<lparr>crd_Mode = CursorResumeFresh, crd_ResumeSessionID = [], crd_Prompt = composeExecutePrompt reportDir t c ps opts,
      crd_RecoveryKind = None, crd_DenyReason = denyReason\<rparr>"

definition planExecuteRun ::
  "bool res \<Rightarrow> (string \<Rightarrow> phase \<Rightarrow> string res) \<Rightarrow> head_answer \<Rightarrow> string \<Rightarrow> string \<Rightarrow> task \<Rightarrow> task_cycle \<Rightarrow> process_state \<Rightarrow>
     loop_opts \<Rightarrow> resume_decision" where
  "planExecuteRun enabled lastSession head workingDir reportDir t c ps opts =
     (case resolveCursorResume enabled lastSession head workingDir reportDir PhaseExecute c ps opts False of
        Inl _ \<Rightarrow> freshExecuteDecision reportDir t c ps opts ''policy_error''
      | Inr d \<Rightarrow>
          if crd_Mode d = CursorResumeFresh then d\<lparr>crd_Prompt := composeExecutePrompt reportDir t c ps opts\<rparr> else d)"

definition planExecuteResumeFallback :: "string \<Rightarrow> task \<Rightarrow> task_cycle \<Rightarrow> process_state \<Rightarrow> loop_opts \<Rightarrow> resume_decision" where
  "planExecuteResumeFallback reportDir t c ps opts =
     (freshExecuteDecision reportDir t c ps opts ''resume_failed'')\<lparr>crd_Mode := CursorResumeFallback\<rparr>"

text \<open>\<open>verifyPrompt\<close> is the full prompt of the verify agent.\<close>

definition planVerifyRun ::
  "bool res \<Rightarrow> (string \<Rightarrow> phase \<Rightarrow> string res) \<Rightarrow> head_answer \<Rightarrow> string \<Rightarrow> string \<Rightarrow> string \<Rightarrow> evidence_line list \<Rightarrow> task_cycle \<Rightarrow>
     process_state \<Rightarrow> loop_opts \<Rightarrow> resume_decision" where
  "planVerifyRun enabled lastSession head workingDir reportDir verifyPrompt evidence c ps opts =
     (case resolveCursorResume enabled lastSession head workingDir reportDir PhaseVerify c ps opts False of
        Inl _ \<Rightarrow> (deny ''policy_error'')\<lparr>crd_Prompt := verifyPrompt\<rparr>
      | Inr d \<Rightarrow>
          if crd_Mode d = CursorResumeFresh \<or> crd_Mode d = CursorResumeFallback then d\<lparr>crd_Prompt := verifyPrompt\<rparr>
          else d\<lparr>crd_Prompt := ComposeRecoveryDelta
                 ((buildRecoveryContext reportDir PhaseVerify c ps opts (retryModeFromCycleMeta c))\<lparr>rcx_CommandEvidenceDelta := evidence\<rparr>)\<rparr>)"

end
