(* ===== verification/Session_Properties.thy ===== *)
theory Session_Properties
  imports Session_Resume "HOL-Library.Sublist"
begin

text \<open>
  When a session is continued and which one, what a fresh run is told, and what the delta of a continued session
  can leave out.
\<close>

section \<open>The policy\<close>

text \<open>\<open>looked_up\<close> is the session of the cycle that is looked up.\<close>

definition looked_up :: "(string \<Rightarrow> phase \<Rightarrow> string res) \<Rightarrow> phase \<Rightarrow> task_cycle \<Rightarrow> loop_opts \<Rightarrow> string res" where
  "looked_up lastSession ph c opts = lastSession (sessionLookupCycleID lastSession c ph (retryModeFromCycleMeta c) opts) ph"

lemma resolve_continueD:
  assumes "resolveCursorResume enabled lastSession head workingDir reportDir ph c ps opts force = Inr d" "crd_Mode d = CursorResumeContinue"
  shows "enabled = Inr True" "\<not> force" "retryModeFromCycleMeta c \<noteq> ''fresh''" "\<not> (ph = PhaseVerify \<and> firstVerifyAfterNewExecute ps)"
    "\<not> head_drifted head ps" "\<not> ps_reportTampered ps" "trim_space workingDir \<noteq> []" "crd_ResumeSessionID d \<noteq> []"
    "\<exists>raw. looked_up lastSession ph c opts = Inr raw \<and> trim_space raw = crd_ResumeSessionID d"
  using assms unfolding looked_up_def by (auto simp: resolveCursorResume_def rbind_Inr_iff deny_def Let_def split: if_splits)

lemma resolve_continueI:
  assumes "on" "retryModeFromCycleMeta c \<noteq> ''fresh''" "\<not> (ph = PhaseVerify \<and> firstVerifyAfterNewExecute ps)"
    "\<not> head_drifted head ps" "\<not> ps_reportTampered ps" "trim_space workingDir \<noteq> []" "trim_space raw \<noteq> []"
    "looked_up lastSession ph c opts = Inr raw"
  shows "\<exists>d. resolveCursorResume (Inr on) lastSession head workingDir reportDir ph c ps opts False = Inr d \<and>
    crd_Mode d = CursorResumeContinue \<and> crd_ResumeSessionID d = trim_space raw"
  using assms unfolding looked_up_def by (auto simp: resolveCursorResume_def rbind_def Let_def)

text \<open>A session is continued exactly when the setting is on, the attempt is no fresh retry, a verify phase is not the
  first after a new execute phase, HEAD has not drifted, no report was tampered with, there is a working
  directory, and the phase kind has a recorded session in the cycle that is looked up; it is that session.\<close>

theorem session_continued_iff:
  "(\<exists>d. resolveCursorResume (Inr on) lastSession head workingDir reportDir ph c ps opts False = Inr d \<and>
        crd_Mode d = CursorResumeContinue \<and> crd_ResumeSessionID d = i) \<longleftrightarrow>
     on \<and> retryModeFromCycleMeta c \<noteq> ''fresh'' \<and> \<not> (ph = PhaseVerify \<and> firstVerifyAfterNewExecute ps) \<and>
     \<not> head_drifted head ps \<and> \<not> ps_reportTampered ps \<and> trim_space workingDir \<noteq> [] \<and> i \<noteq> [] \<and>
     (\<exists>raw. looked_up lastSession ph c opts = Inr raw \<and> trim_space raw = i)"
proof (rule iffI, goal_cases)
  case 1
  then obtain d where d: "resolveCursorResume (Inr on) lastSession head workingDir reportDir ph c ps opts False = Inr d"
    "crd_Mode d = CursorResumeContinue" "crd_ResumeSessionID d = i" by blast
  from resolve_continueD[OF d(1,2)] d(3) show ?case by auto
next
  case 2
  then obtain raw where "looked_up lastSession ph c opts = Inr raw" "trim_space raw = i" by blast
  with 2 resolve_continueI[of on c ph ps head workingDir raw lastSession opts reportDir] show ?case by auto
qed

lemma lastSessionID_scan_mem:
  "lastSessionID_scan ph ps = i \<Longrightarrow> i \<noteq> [] \<Longrightarrow>
     \<exists>p\<in>set ps. ph_Phase p = ph \<and> TerminalPhaseStatus (ph_Status p) \<and> SessionIDFromDetailsJSON (ph_DetailsJSON p) = i"
  by (induction ps) (auto split: if_splits)

lemma LastSessionID_mem:
  assumes "LastSessionID s cyc ph = Inr raw" "raw \<noteq> []"
  shows "\<exists>p\<in>set (db_phases s). ph_CycleID p = trim_space cyc \<and> ph_Phase p = ph \<and> TerminalPhaseStatus (ph_Status p) \<and>
    SessionIDFromDetailsJSON (ph_DetailsJSON p) = raw"
proof -
  have "lastSessionID_scan ph (rev (sort_key ph_PhaseSeq (cycle_phases s (trim_space cyc)))) = raw"
    using assms(1) by (auto simp: LastSessionID_def ListPhasesForCycle_def rbind_Inr_iff Let_def if_Inl_Inr_iff)
  from lastSessionID_scan_mem[OF this assms(2)] show ?thesis by (auto simp: cycle_phases_def)
qed

lemma sessionLookup_cases:
  "sessionLookupCycleID lastSession c ph retryMode opts = cycle_ID c \<or>
     retryMode = ''resume'' \<and> cycle_ParentCycleID c \<noteq> None \<and>
     sessionLookupCycleID lastSession c ph retryMode opts = trim_space (the (cycle_ParentCycleID c))"
  by (auto simp: sessionLookupCycleID_def Let_def split: option.splits sum.splits)

text \<open>C38. The session that is continued was recorded by a finished phase of the same kind, in the cycle itself or,
  for an operator's resume, in its parent: sessions of execute and verify phases are never mixed.\<close>

theorem continued_session_origin:
  assumes "resolveCursorResume enabled (LastSessionID s) head workingDir reportDir ph c ps opts force = Inr d"
    "crd_Mode d = CursorResumeContinue"
  shows "\<exists>p\<in>set (db_phases s). ph_Phase p = ph \<and> TerminalPhaseStatus (ph_Status p) \<and>
    trim_space (SessionIDFromDetailsJSON (ph_DetailsJSON p)) = crd_ResumeSessionID d \<and>
    (ph_CycleID p = trim_space (cycle_ID c) \<or>
     retryModeFromCycleMeta c = ''resume'' \<and> (\<exists>q. cycle_ParentCycleID c = Some q \<and> ph_CycleID p = trim_space q))"
proof -
  let ?look = "sessionLookupCycleID (LastSessionID s) c ph (retryModeFromCycleMeta c) opts"
  obtain raw where raw: "LastSessionID s ?look ph = Inr raw" "trim_space raw = crd_ResumeSessionID d" "crd_ResumeSessionID d \<noteq> []"
    using resolve_continueD(8,9)[OF assms] unfolding looked_up_def by blast
  have "raw \<noteq> []" using raw(2,3) by auto
  then obtain p where p: "p \<in> set (db_phases s)" "ph_CycleID p = trim_space ?look" "ph_Phase p = ph" "TerminalPhaseStatus (ph_Status p)"
    "SessionIDFromDetailsJSON (ph_DetailsJSON p) = raw"
    using LastSessionID_mem[OF raw(1)] by blast
  show ?thesis
    using p raw(2) sessionLookup_cases[of "LastSessionID s" c ph "retryModeFromCycleMeta c" opts] by auto
qed

definition session_cycle :: task_cycle where
  "session_cycle = sample_cycle\<lparr>cycle_ID := ''d'', cycle_AttemptSeq := 2, cycle_ParentCycleID := Some ''c'',
     cycle_MetaJSON := [(''retry_mode'', JStr ''resume'')]\<rparr>"

definition session_phase :: cycle_phase where
  "session_phase = sample_phase\<lparr>ph_Status := PhaseStatusFailed, ph_EndedAt := Some 11, ph_DetailsJSON := [(PhaseDetailsSessionID, JStr ''s-1'')]\<rparr>"

definition session_db :: db where
  "session_db = sample_db\<lparr>db_cycles := [sample_cycle\<lparr>cycle_Status := CycleStatusFailed, cycle_EndedAt := Some 11\<rparr>, session_cycle],
     db_phases := [session_phase]\<rparr>"

definition plain_opts :: loop_opts where
  "plain_opts = \<lparr>lo_resumeNotice = True, lo_interruptedPhase = PhaseNone, lo_skipFirstExecute = False, lo_knownCommits = [], lo_continuation = None\<rparr>"

lemma session_db_lookup:
  "looked_up (LastSessionID session_db) PhaseExecute session_cycle plain_opts = Inr ''s-1'' \<and>
     retryModeFromCycleMeta session_cycle = ''resume'' \<and> \<not> head_drifted HeadUnknown new_process_state \<and>
     trim_space ''s-1'' = ''s-1'' \<and> trim_space ''/w'' \<noteq> []"
  by code_simp

theorem continued_session_origin_witness:
  "\<exists>d. resolveCursorResume (Inr True) (LastSessionID session_db) HeadUnknown ''/w'' ''/r'' PhaseExecute session_cycle new_process_state plain_opts False = Inr d \<and>
     crd_ResumeSessionID d = ''s-1'' \<and> (\<exists>p\<in>set (db_phases session_db). ph_Phase p = PhaseExecute \<and> ph_CycleID p = ''c'')"
proof -
  obtain d where d: "resolveCursorResume (Inr True) (LastSessionID session_db) HeadUnknown ''/w'' ''/r'' PhaseExecute session_cycle new_process_state plain_opts False = Inr d"
    "crd_Mode d = CursorResumeContinue" "crd_ResumeSessionID d = ''s-1''"
    using resolve_continueI[of True session_cycle PhaseExecute new_process_state HeadUnknown "''/w''" "''s-1''" "LastSessionID session_db" plain_opts "''/r''"]
      session_db_lookup by (auto simp: new_process_state_def)
  show ?thesis using continued_session_origin[OF d(1,2)] d by (auto simp: session_db_def session_phase_def sample_phase_def)
qed

section \<open>Full prompts\<close>

lemma sublist_app: "sublist x y \<Longrightarrow> sublist x (u @ y @ v)"
  by (auto simp: sublist_def) (metis append.assoc)

lemma sublist_app_left: "sublist x y \<Longrightarrow> sublist x (u @ y)"
  using sublist_app[of x y u "[]"] by simp

lemma sublist_app_right: "sublist x y \<Longrightarrow> sublist x (y @ v)"
  using sublist_app[of x y "[]" v] by simp

lemmas sublists = sublist_app_left sublist_app_right

lemma trim_prefix_nl: "trim_prefix (nl @ nl) (nl @ nl @ x) = x"
  by (simp add: trim_prefix_def nl_def has_prefix_def)

lemma criterion_line_sublist: "it \<in> set xs \<Longrightarrow> sublist (criterion_line it) (concat (map criterion_line xs))"
  by (auto simp: in_set_conv_decomp sublist_app_left sublist_app_right)

lemma active_section_lines:
  "it \<in> set xs \<Longrightarrow> \<exists>y. active_section xs b r = nl @ nl @ y \<and> sublist (criterion_line it) y"
  unfolding active_section_def by (intro exI conjI, rule refl) (intro sublists criterion_line_sublist; assumption)

lemma locked_section_cases: "locked_section xs = [] \<or> (\<exists>z. locked_section xs = nl @ nl @ z)"
  by (auto simp: locked_section_def)

lemma trimmed_line:
  assumes "sublist x y"
  shows "sublist x (trim_prefix (nl @ nl) (locked_section ls @ nl @ nl @ y))"
  using locked_section_cases[of ls]
proof
  assume "locked_section ls = []"
  then show ?thesis using assms by (simp add: trim_prefix_nl)
next
  assume "\<exists>z. locked_section ls = nl @ nl @ z"
  then obtain z where "locked_section ls = nl @ nl @ z" by blast
  then have "trim_prefix (nl @ nl) (locked_section ls @ nl @ nl @ y) = z @ nl @ nl @ y" by (simp add: trim_prefix_nl)
  then show ?thesis using assms by (simp add: sublist_app_left)
qed

lemma InjectCriteria_prompt: "sublist prompt (InjectCriteria prompt items path ids)"
  by (auto simp: InjectCriteria_def Let_def sublist_app_left)

lemma InjectCriteria_line:
  assumes "it \<in> set items" "pit_ID it \<notin> set ids"
  shows "sublist (criterion_line it) (InjectCriteria prompt items path ids)"
proof -
  let ?a = "filter (\<lambda>it. pit_ID it \<notin> set ids) items" and ?d = "filter (\<lambda>it. pit_ID it \<in> set ids) items"
  have "it \<in> set ?a" using assms by simp
  then obtain y where y: "active_section ?a (0 < length ?d) path = nl @ nl @ y" "sublist (criterion_line it) y"
    using active_section_lines by blast
  have "length items \<noteq> 0" "length ?a \<noteq> 0" using \<open>it \<in> set ?a\<close> assms(1) by (force simp del: length_filter_conv_card)+
  then have "InjectCriteria prompt items path ids =
      trim_prefix (nl @ nl) (locked_section ?d @ nl @ nl @ y) @ nl @ nl @ prompt"
    using y(1) by (simp add: InjectCriteria_def Let_def)
  then show ?thesis using trimmed_line[OF y(2)] by (simp add: sublist_app_right)
qed

text \<open>Every later step adds text around what is there.\<close>

lemma if_sublist: "sublist x p \<Longrightarrow> sublist x (if b then p else p @ q)"
  by (simp add: sublist_app_right)

lemma around:
  assumes "sublist x p"
  shows "sublist x (AppendVerifyFeedback p f)" "sublist x (AppendExecuteHarnessFeedback p f)"
    "sublist x (AppendOperatorRetryResumeNotice p i cs)" "sublist x (AppendResumeNotice p i ph cs)"
    "sublist x (AppendGitCommitPolicy p b)" "sublist x (ComposeContinuation p ci)"
proof -
  show "sublist x (AppendVerifyFeedback p f)" "sublist x (AppendExecuteHarnessFeedback p f)"
    unfolding AppendVerifyFeedback_def AppendExecuteHarnessFeedback_def Let_def by (rule if_sublist[OF assms])+
  show "sublist x (AppendOperatorRetryResumeNotice p i cs)"
    unfolding AppendOperatorRetryResumeNotice_def by (intro sublist_app_left assms)
  show "sublist x (AppendResumeNotice p i ph cs)" unfolding AppendResumeNotice_def by (intro sublist_app_left assms)
  show "sublist x (AppendGitCommitPolicy p b)" unfolding AppendGitCommitPolicy_def by (intro sublist_app_left assms)
  show "sublist x (ComposeContinuation p ci)" unfolding ComposeContinuation_def by (intro sublist_app_left assms)
qed

lemma composeExecutePrompt_around:
  assumes "sublist x (InjectCriteria (task_InitialPrompt t) (checklistItemsForPrompt (vs_Criteria (ps_verifySnap ps)))
      (CriteriaReportPath reportDir (cycle_ID c)) (verifiedCriterionIDs (ps_previouslyPassed ps)))"
  shows "sublist x (composeExecutePrompt reportDir t c ps opts)"
  unfolding composeExecutePrompt_def Let_def using assms by (auto intro: around split: option.splits)

definition open_criteria :: "process_state \<Rightarrow> prompt_item list" where
  "open_criteria ps = filter (\<lambda>it. pit_ID it \<notin> fst ` set (ps_previouslyPassed ps)) (checklistItemsForPrompt (vs_Criteria (ps_verifySnap ps)))"

lemma full_prompt_complete:
  "sublist (task_InitialPrompt t) (composeExecutePrompt reportDir t c ps opts)"
  "it \<in> set (open_criteria ps) \<Longrightarrow> sublist (criterion_line it) (composeExecutePrompt reportDir t c ps opts)"
proof -
  show "sublist (task_InitialPrompt t) (composeExecutePrompt reportDir t c ps opts)"
    by (rule composeExecutePrompt_around) (rule InjectCriteria_prompt)
  show "sublist (criterion_line it) (composeExecutePrompt reportDir t c ps opts)" if "it \<in> set (open_criteria ps)"
    by (rule composeExecutePrompt_around, rule InjectCriteria_line) (use that in \<open>auto simp: open_criteria_def verifiedCriterionIDs_def\<close>)
qed

lemma delta_bound: "length (ComposeRecoveryDelta x) \<le> 8195"
  by (simp add: ComposeRecoveryDelta_def truncateRecoveryBytes_def recoveryMaxTotalBytes_def ellipsis_def)

text \<open>C39. An execute run either continues a session, with a delta of at most 8195 bytes, or starts a fresh one, and then its
  prompt contains the operator's prompt word for word and the line of every criterion that is not proved
  yet, whatever feedback, notice, continuation and policy are put around them. The fallback after a
  session that could not be continued gets the same prompt.\<close>

theorem execute_run_gets_task:
  "(let d = planExecuteRun enabled lastSession head workingDir reportDir t c ps opts in
     crd_Mode d = CursorResumeContinue \<and> length (crd_Prompt d) \<le> 8195 \<or>
     crd_Mode d = CursorResumeFresh \<and> crd_ResumeSessionID d = [] \<and> sublist (task_InitialPrompt t) (crd_Prompt d) \<and>
       criterion_line ` set (open_criteria ps) \<subseteq> {l. sublist l (crd_Prompt d)}) \<and>
   (let d = planExecuteResumeFallback reportDir t c ps opts in
     crd_ResumeSessionID d = [] \<and> sublist (task_InitialPrompt t) (crd_Prompt d) \<and>
       criterion_line ` set (open_criteria ps) \<subseteq> {l. sublist l (crd_Prompt d)})"
proof -
  have "crd_Mode d = CursorResumeContinue \<and> length (crd_Prompt d) \<le> 8195 \<or> crd_Mode d = CursorResumeFresh \<and> crd_ResumeSessionID d = []"
    if "resolveCursorResume enabled lastSession head workingDir reportDir PhaseExecute c ps opts False = Inr d" for d
    using that delta_bound by (auto simp: resolveCursorResume_def rbind_Inr_iff deny_def Let_def split: if_splits)
  then show ?thesis
    using full_prompt_complete(1)[of t reportDir c ps opts] full_prompt_complete(2)[of _ ps reportDir t c opts]
    by (auto simp: planExecuteRun_def planExecuteResumeFallback_def freshExecuteDecision_def Let_def split: sum.splits)
qed

section \<open>What a delta leaves out\<close>

lemma truncate_long: "n \<le> length u \<Longrightarrow> v \<noteq> [] \<Longrightarrow> truncateRecoveryBytes (u @ v) n = take n u @ ellipsis"
  by (cases v) (simp_all add: truncateRecoveryBytes_def)

text \<open>C40. The delta is cut at its end, and the failures stand before the instructions: once their text reaches 8192 bytes,
  the agent is no longer told which criteria are locked, where its report goes, or not to rewrite commits;
  the delta is the same whatever these are.\<close>

theorem delta_drops_instructions:
  assumes "rcx_Phase x = PhaseExecute" "rcx_Kind x = RecoveryVerifyImplementation"
    "8192 \<le> length (FormatVerifyFailuresStructured (rcx_FailedCriteria x))"
  shows "ComposeRecoveryDelta (x\<lparr>rcx_LockedCriteria := l, rcx_ReportPath := r\<rparr>) = ComposeRecoveryDelta x"
proof -
  let ?u = "continuation_header (rcx_AttemptSeq x) @
     par ''You are continuing the same Cursor session. Do not restart discovery or revert locked work.'' @
     par ''### What changed'' @ par ''Verification rejected the implementation. Address the failures below.'' @
     FormatVerifyFailuresStructured (rcx_FailedCriteria x)"
  have u: "8192 \<le> length ?u" using assms(3) by simp
  have d: "ComposeRecoveryDelta y = take 8192 ?u @ ellipsis"
    if y: "rcx_Phase y = PhaseExecute" "rcx_Kind y = RecoveryVerifyImplementation" "rcx_FailedCriteria y = rcx_FailedCriteria x"
      "rcx_AttemptSeq y = rcx_AttemptSeq x" for y
  proof -
    have c: "composeExecuteRecoveryDelta y = ?u @ execute_next_steps y"
      unfolding composeExecuteRecoveryDelta_def execute_what_changed_def y(2-4) by simp
    have n: "execute_next_steps y \<noteq> []" by (simp add: execute_next_steps_def par_def)
    show ?thesis
      unfolding ComposeRecoveryDelta_def recoveryMaxTotalBytes_def c y(1) using truncate_long[OF u n] by simp
  qed
  show ?thesis using assms by (simp add: d)
qed

definition long_recovery :: recovery_context where
  "long_recovery = \<lparr>rcx_Kind = RecoveryVerifyImplementation, rcx_Phase = PhaseExecute, rcx_CycleID = ''c'', rcx_AttemptSeq = 1,
     rcx_VerifyAttempt = 1, rcx_ReportPath = ''/r/c/criteria-report.json'',
     rcx_FailedCriteria = [\<lparr>cfl_ID = replicate 8192 (CHR ''x''), cfl_Reasoning = [], cfl_Verifier = []\<rparr>], rcx_LockedCriteria = [''a''],
     rcx_ReportParseErr = [], rcx_ExpectedIDs = [], rcx_CommandEvidenceDelta = [], rcx_ScopeFiles = [], rcx_FailureClass = [],
     rcx_FailureReason = [], rcx_InterruptedPhase = PhaseNone, rcx_PriorVerifyFeedback = []\<rparr>"

theorem delta_drops_instructions_witness:
  "ComposeRecoveryDelta (long_recovery\<lparr>rcx_LockedCriteria := [], rcx_ReportPath := []\<rparr>) = ComposeRecoveryDelta long_recovery"
  by (rule delta_drops_instructions)
     (simp_all add: long_recovery_def FormatVerifyFailuresStructured_def failure_block_def ln_def par_def)

end
