(* ===== verification/Spec2Isabelle.thy ===== *)
theory Spec2Isabelle
  imports Pickup_Wake Worker_Properties SSE_Properties HTTP_Properties Event_Properties Project_Properties Settings_Properties Session_Properties
begin

text \<open>
  \<^bold>\<open>The program.\<close> Hamix is a task server for coding agents. Operators create tasks with a checklist of
  criteria; a worker picks ready tasks from a queue, runs an agent on them (the execute phase), lets a
  second agent judge each claimed criterion (the verify phase), and marks the task done once all criteria
  are proved. This development models the Go code of that core: the task store, the queue and wake
  scheduler that feed the worker, and the harness that drives one attempt.

  \<^bold>\<open>Theories\<close> (each opens with what it holds):

  \<^item> \<open>Hamix_Prelude\<close>, \<open>Go_Text\<close>: results and errors, Go's string operations, table operations, and the text
    helpers of the store. \<open>Hamix_Domain\<close>: the rows and enumerations of \<^verbatim>\<open>pkgs/tasks/domain\<close>.
  \<^item> \<open>Scheduling\<close>: \<^verbatim>\<open>pkgs/tasks/scheduling\<close>, the readiness and notification decisions.
  \<^item> \<open>Store_State\<close>, \<open>Store_Cycles\<close>, \<open>Store_Dependencies\<close>, \<open>Checklist\<close>, \<open>Store_Tasks\<close>, \<open>Event_Log\<close>: \<^verbatim>\<open>pkgs/tasks/store/internal\<close>
    \<^verbatim>\<open>kernel\<close>, \<^verbatim>\<open>cycles\<close>, \<^verbatim>\<open>tasks\<close>, \<^verbatim>\<open>checklist\<close> and \<^verbatim>\<open>events\<close>. \<open>Cycle_Invariants\<close>, \<open>Cycle_Properties\<close>, \<open>Store_System\<close>,
    \<open>System_Properties\<close> and \<open>Done_Gate\<close>: every operation keeps the invariant \<open>store_ok\<close>, when each operation
    succeeds, and that no operation completes a task with open criteria. \<open>Event_Properties\<close>: pages and threads of
    the audit log, the pages as an interpretation of the locale \<open>keyset\<close>.
  \<^item> \<open>Projects\<close>, \<open>Project_Context\<close>: projects, context items, their relationships and snapshots
    (\<^verbatim>\<open>pkgs/tasks/store/internal/projects\<close>), and the context an attempt is given
    (\<^verbatim>\<open>harness/project_context_load.go\<close>, \<^verbatim>\<open>prompt/project_context.go\<close>). \<open>Project_Frames\<close>, \<open>Project_Properties\<close>: the store
    operations leave the context tables alone, the invariant of all operations together, pinned contexts.
    \<open>Named_Payloads\<close>, \<open>Payload_Properties\<close>: drafts and templates. \<open>App_Settings\<close>, \<open>Settings_Properties\<close>: the row of
    runtime settings (\<^verbatim>\<open>store/internal/settings\<close>) and the request that patches it.
  \<^item> \<open>Ready_Queue\<close>, \<open>Sched_Key\<close>, \<open>Memory_Queue\<close>, \<open>Wake_Heap\<close>, \<open>Pickup_Wake\<close>: the ready query, the bounded queue with
    its reconcile passes, and the timer heap of deferred pickups (\<^verbatim>\<open>pkgs/tasks/store/internal/ready\<close>,
    \<^verbatim>\<open>pkgs/agents\<close>), with interleavings of producers, consumers and timer callbacks as step relations.
  \<^item> \<open>Verify_Reports\<close>, \<open>Store_Commits\<close>: the report and commit tables. \<open>Orchestration\<close>: the pure decisions of the
    harness. \<open>Harness_Contract\<close>: its persistence interface as a record of functions, and the instance on the
    database. \<open>Report_Files\<close>, \<open>Harness_Git\<close>, \<open>Verify_Service\<close>, \<open>Verify_Pipeline\<close>, \<open>Harness_Cycle\<close>, \<open>Harness_Loop\<close>,
    \<open>Harness_Resume\<close>, \<open>Harness_Run\<close>: \<^verbatim>\<open>pkgs/agents/harness\<close> function by function, up to \<open>RunWithRetry\<close> and
    \<open>Resume\<close>. \<open>Harness_Laws\<close>, \<open>Harness_Guard\<close>, \<open>Harness_Store\<close>, \<open>Harness_Properties\<close>: the laws the harness relies
    on as locales, the client lemmas proved in them, their interpretation on the database, and the
    properties of whole runs. \<open>Harness_Attempts\<close>, \<open>Harness_Healthy\<close>: the contract of a store whose calls succeed
    when the protocol allows them, that a run then settles its task, and its interpretation on the database.
    \<open>Prompts\<close>, \<open>Session_Resume\<close>, \<open>Session_Properties\<close>: what the agent is asked, and whether the session of an earlier
    phase is continued (\<^verbatim>\<open>internal/prompt\<close>, \<^verbatim>\<open>cursor_resume.go\<close>).

  \<^item> \<open>Worker_Pool\<close>, \<open>Worker_Properties\<close>: \<^verbatim>\<open>pkgs/agents/worker\<close>, admission cut into stages, the worktree gate, the pool of
    slots as a step relation over queue, gate and database, and the clean-up at start-up.
  \<^item> \<open>Go_Strconv\<close>: number parsing and case folding of Go's library. \<open>SSE_Hub\<close>, \<open>SSE_Properties\<close>: the hub of
    server-sent events (\<^verbatim>\<open>pkgs/tasks/handler/sse_hub.go\<close>, \<^verbatim>\<open>sse_stream.go\<close>, \<^verbatim>\<open>pkgs/tasks/realtime\<close>), with its
    publishers and streams interleaved. \<open>HTTP_Middleware\<close>, \<open>HTTP_Properties\<close>: tokens, rate limit, idempotent
    responses and their order (\<^verbatim>\<open>pkgs/tasks/middleware\<close>), with concurrent requests of one key interleaved.

  \<^bold>\<open>State.\<close> The database is the record \<open>db\<close> of row lists in insertion order. A transaction is a function to
  \<open>err + db \<times> result\<close>: an error leaves the database as it was. Inserts check primary keys, unique indexes,
  foreign keys and check constraints and fail with \<open>ErrDB\<close>; the dialect is Postgres. Clock and generated
  identifiers are arguments (\<open>txenv\<close>). String enumerations are datatypes with one constructor per constant
  and one for any other string. JSON columns are association lists. Counters (\<^verbatim>\<open>int64\<close> in Go) are unbounded
  integers: they count rows and attempts, far below the bound. Ties of ORDER BY fall to insertion order.
  Error details leave out quoted values and prefixes added by wrapping. Texts are taken to be ones the database
  accepts (valid UTF-8 without NUL); only the search text of \<open>ListTemplates\<close> is checked. The rows of the report tables
  are kept outside \<open>db\<close>; the items they reference are the argument \<open>reported\<close> of \<open>Checklist_Delete\<close>, whose delete
  their foreign keys refuse.

  \<^bold>\<open>The harness.\<close> Its store is the record \<open>store_ops\<close>; \<open>db_store\<close> numbers the calls, gives each its clock and
  identifiers, and can make any call fail without effect, which stands for lost connections, deadlines and
  cancelled contexts. What the outside answers in a round of the loop (the agents' results and progress, git,
  the report files after JSON decoding, an operator's cancel, a cancelled context) is the record
  \<open>iteration\<close>; the properties hold for all answers. The order in which Go ranges over the map of passed
  verdicts is a parameter. A panic is not part of the flow: its close-outs \<open>recoverFromPanic\<close> and
  \<open>recoverAdmissionPanic\<close> are defined, but no run and no step of the pool takes them, so panics are outside all
  properties of harness and pool.

  \<^bold>\<open>The pool.\<close> A slot moves from store call to store call (\<open>stage_step\<close>); slots, reconcile passes, notifications and
  every other client of the store interleave between stages. A harness run is one stage, in which \<open>interfere\<close> puts
  arbitrary store operations of others before each of its calls. The git tables and the checkout are arguments.

  \<^bold>\<open>The HTTP edge.\<close> \<open>Publish\<close> is split into its critical sections, and a subscriber is a position in the list of
  all subscribers, because a publisher may hold one that has left. Event ids wrap at \<open>2 ^ 64\<close>. \<open>WithIdempotency\<close> and
  \<open>Stack\<close> treat one request while no other of its key is in flight; requests of one key that overlap, with the
  flight group between cache and handler, are the steps \<open>flight_step\<close>. The token bucket
  and the digest of a body are arguments; the flight group is the map of running leaders its documentation
  describes.

  \<^bold>\<open>Termination.\<close> All definitions are total. The harness loop ends because each further round raises the
  attempt counter below the configured maximum (\<open>loop_measure\<close>); the reconcile passes and the timer callback
  end by the measures stated with them; no fuel is used in the theorems.

  \<^bold>\<open>What is shown.\<close> For the store: the reachable-state invariants (one running cycle per task, one running
  phase per cycle, gap-free audit numbers, acyclic dependencies, no dangling rows), exact conditions under
  which the operations succeed, immutability of terminal rows, the guard in front of status done, freedom
  from dependency deadlock, and that SQL queries agree with the readiness specification. For the audit log: paging
  towards older events is exact while the log grows, the page after a cursor is not. For projects: the rows of
  all tables stay consistent under the store and the project operations together, an attempt that is given a
  context again is given the one it had first, and a deleted context item blocks the tasks that select it. For settings, drafts and
  templates: reads always give a valid row, saves are read back, searching is exact, and a save can be lost
  between its two statements. For prompts: a fresh run gets the task and every open criterion, a continued
  session is one of the same kind of phase, and a long delta loses its instructions. For the queue and
  the scheduler: boundedness and order under producers, consumers and late acknowledgements (which can leave an id
  in the queue twice), refinement of a map of deadlines, no lost wake-ups, reconcile passes that miss no task that is
  ready throughout, at page sizes up to 500 and while the database and the queue change under them.
  For the harness: every run keeps all of this whatever fails, done tasks have complete checklists, the
  rounds are bounded, a run on a store without failing calls leaves the task failed or done and no cycle
  running, and two situations a continuation cannot recover from. For the pool: no two slots hold the lock of one
  worktree together, that of the row read before the pickup (a worktree changed in between is run without its
  lock), and the store invariants hold under all interleavings, every admission gives its locks back, start-up
  closes what a crash left running; but a slot that waited for a worktree acts on the rows it had read before,
  and fails a task the other run has just completed. For the HTTP edge: the hub loses no event
  of a connected client silently and replays exactly what its ring holds, which is all the client missed or a
  resync as long as events are appended in the order of their ids, but a publisher overtaken by
  another loses its event for a client that reconnects between them; the cache of responses keeps its limits
  and replays, but two concurrent requests can still both run; outside the four probe paths no request without
  the token has an effect.

  \<^bold>\<open>Not modelled.\<close> The HTTP handlers but that of the settings, the runner adapters, the full prompt of the verify agent, running the
  verify commands, git commands themselves, statistics, metrics, logging and the web
  client: either input and output around the core, other languages, or planned next.
\<close>

end
